(* ===== verification/Prelude.thy ===== *)
theory Prelude
  imports Main "HOL-Library.Word" "HOL-Library.Signed_Division"
begin

text \<open>
  What every component of the model shares: the machine-word types, the status codes and
  configuration constants of the kernel's headers, the result type for C code that can leave
  defined behaviour (\<open>fault\<close>), array accesses with their bounds, and generic lemmas on
  \<open>bind_res\<close>, arrays and words.
\<close>

unbundle bit_operations_syntax

named_theorems res_simps "equations of the fault monad"
named_theorems access_simps "array accesses whose bounds are known"

subsection \<open>Machine words\<close>

type_synonym u8 = "8 word"
type_synonym u16 = "16 word"
type_synonym u32 = "32 word"
type_synonym u64 = "64 word"

subsection \<open>Faults\<close>

text \<open>
  C code can do what the C machine does not define (an access outside an array, a NULL
  dereference, a use of a freed object) and the kernel can stop for good (\<open>panic\<close>, an endless
  wait loop). Such an execution has no next state: it is a \<open>fault\<close>, the left side of a sum.
  Ordinary error returns (\<open>-EINVARG\<close>, NULL) are values of the right side.
\<close>

datatype fault =
    OutOfBounds \<comment> \<open>access outside the array the pointer points into\<close>
  | NullDeref \<comment> \<open>dereference of NULL or of an address where no such object lives\<close>
  | DivideError \<comment> \<open>integer division by zero\<close>
  | PageFault \<comment> \<open>access through a page-table entry that does not allow it\<close>
  | Panic string \<comment> \<open>\<open>panic(msg)\<close> of kernel.c: prints and loops for ever\<close>
  | Hang \<comment> \<open>a \<open>while (1)\<close> of the source that is not reached through \<open>panic\<close>\<close>

type_synonym 'a res = "fault + 'a"

fun bind_res :: "'a res \<Rightarrow> ('a \<Rightarrow> 'b res) \<Rightarrow> 'b res" where
  "bind_res (Inl e) f = Inl e"
| "bind_res (Inr x) f = f x"

lemma bind_res_Inr_iff [res_simps]:
  "bind_res m f = Inr y \<longleftrightarrow> (\<exists>x. m = Inr x \<and> f x = Inr y)"
  by (cases m) auto

lemma bind_res_Inl_iff [res_simps]:
  "bind_res m f = Inl e \<longleftrightarrow> m = Inl e \<or> (\<exists>x. m = Inr x \<and> f x = Inl e)"
  by (cases m) auto

lemma bind_res_assoc: "bind_res (bind_res m f) g = bind_res m (\<lambda>x. bind_res (f x) g)"
  by (cases m) auto

lemma bind_res_cong [fundef_cong]:
  "m = m' \<Longrightarrow> (\<And>x. m' = Inr x \<Longrightarrow> f x = f' x) \<Longrightarrow> bind_res m f = bind_res m' f'"
  by (cases m') auto

subsection \<open>Status codes and configuration (status.h, config.h)\<close>

abbreviation (input) MARROWOS_ALL_OK :: int where "MARROWOS_ALL_OK \<equiv> 0"
abbreviation (input) EIO :: int where "EIO \<equiv> 1"
abbreviation (input) EINVARG :: int where "EINVARG \<equiv> 2"
abbreviation (input) ENOMEM :: int where "ENOMEM \<equiv> 3"
abbreviation (input) EBADPATH :: int where "EBADPATH \<equiv> 4"
abbreviation (input) EFSNOTUS :: int where "EFSNOTUS \<equiv> 5"
abbreviation (input) ERDONLY :: int where "ERDONLY \<equiv> 6"
abbreviation (input) EUNIMP :: int where "EUNIMP \<equiv> 7"
abbreviation (input) EISTKN :: int where "EISTKN \<equiv> 8"
abbreviation (input) EINFORMAT :: int where "EINFORMAT \<equiv> 9"

abbreviation (input) MARROWOS_HEAP_SIZE_BYTES :: u32 where "MARROWOS_HEAP_SIZE_BYTES \<equiv> 104857600"
abbreviation (input) MARROWOS_HEAP_BLOCK_SIZE :: u32 where "MARROWOS_HEAP_BLOCK_SIZE \<equiv> 4096"
abbreviation (input) MARROWOS_HEAP_ADDRESS :: u32 where "MARROWOS_HEAP_ADDRESS \<equiv> 0x01000000"
abbreviation (input) MARROWOS_SECTOR_SIZE :: int where "MARROWOS_SECTOR_SIZE \<equiv> 512"
abbreviation (input) MARROWOS_MAX_PATH :: int where "MARROWOS_MAX_PATH \<equiv> 108"

text \<open>
  kernel.h: \<open>ERROR(v)\<close> turns an \<open>int\<close> into a pointer, \<open>ERROR_I\<close> turns it back, and
  \<open>ISERR\<close> asks whether the value read as an \<open>int\<close> is negative.
\<close>

definition ERROR_ptr :: "int \<Rightarrow> u32" where
  "ERROR_ptr v = word_of_int v"

definition ERROR_I :: "u32 \<Rightarrow> int" where
  "ERROR_I p = sint p"

definition ISERR :: "u32 \<Rightarrow> bool" where
  "ISERR p \<longleftrightarrow> sint p < 0"

lemma sint_u32: "sint p = (if uint p < 2 ^ 31 then uint p else uint p - 2 ^ 32)" for p :: u32
proof -
  have sint: "sint p = (uint p + 2147483648) mod 4294967296 - 2147483648"
    by (simp add: sint_uint signed_take_bit_eq_take_bit_shift take_bit_eq_mod)
  have bnd: "0 \<le> uint p" "uint p < 4294967296"
    using uint_bounded [of p] by simp_all
  show ?thesis
  proof (cases "uint p < 2147483648")
    case True
    with bnd have "(uint p + 2147483648) mod 4294967296 = uint p + 2147483648"
      by (intro mod_pos_pos_trivial) auto
    with sint True show ?thesis by simp
  next
    case False
    then have "(uint p - 2147483648) mod 4294967296 = uint p - 2147483648"
      using bnd by (intro mod_pos_pos_trivial) auto
    moreover have "uint p + 2147483648 = (uint p - 2147483648) + 4294967296"
      by simp
    ultimately have "(uint p + 2147483648) mod 4294967296 = uint p - 2147483648"
      by (metis mod_add_self2)
    with sint False show ?thesis by simp
  qed
qed

lemma ISERR_iff: "ISERR p \<longleftrightarrow> 2 ^ 31 \<le> unat p"
proof -
  define n where "n = unat p"
  have n: "uint p = int n" unfolding n_def by (rule uint_nat)
  moreover have "uint p < 4294967296" using uint_bounded [of p] by simp
  ultimately have "n < 4294967296" by simp
  then have "sint p < 0 \<longleftrightarrow> 2 ^ 31 \<le> n"
    unfolding sint_u32 n by auto
  then show ?thesis by (simp add: ISERR_def n_def)
qed

lemma ERROR_I_ERROR_ptr: "- (2 ^ 31) \<le> v \<Longrightarrow> v < 2 ^ 31 \<Longrightarrow> ERROR_I (ERROR_ptr v) = v"
  by (simp add: ERROR_I_def ERROR_ptr_def signed_take_bit_int_eq_self sint_sbintrunc')

subsection \<open>C arrays\<close>

text \<open>
  An array object is a list; an access outside it is the fault \<open>OutOfBounds\<close>. Indices are
  \<open>int\<close>, as the code's index variables are.
\<close>

definition list_get :: "'a list \<Rightarrow> int \<Rightarrow> 'a res" where
  "list_get xs i = (if 0 \<le> i \<and> i < int (length xs) then Inr (xs ! nat i) else Inl OutOfBounds)"

definition list_set :: "'a list \<Rightarrow> int \<Rightarrow> 'a \<Rightarrow> 'a list res" where
  "list_set xs i v =
     (if 0 \<le> i \<and> i < int (length xs) then Inr (xs[nat i := v]) else Inl OutOfBounds)"

lemma list_get_nat [access_simps]: "k < length xs \<Longrightarrow> list_get xs (int k) = Inr (xs ! k)"
  by (simp add: list_get_def)

lemma list_set_nat [access_simps]: "k < length xs \<Longrightarrow> list_set xs (int k) v = Inr (xs[k := v])"
  by (simp add: list_set_def)

lemma list_get_Inr_iff:
  "list_get xs i = Inr v \<longleftrightarrow> 0 \<le> i \<and> i < int (length xs) \<and> v = xs ! nat i"
  by (auto simp: list_get_def)

lemma list_set_Inr_iff:
  "list_set xs i v = Inr ys \<longleftrightarrow> 0 \<le> i \<and> i < int (length xs) \<and> ys = xs[nat i := v]"
  by (auto simp: list_set_def)

lemma list_get_oob [access_simps]: "i < 0 \<or> int (length xs) \<le> i \<Longrightarrow> list_get xs i = Inl OutOfBounds"
  by (auto simp: list_get_def)

lemma list_set_oob [access_simps]: "i < 0 \<or> int (length xs) \<le> i \<Longrightarrow> list_set xs i v = Inl OutOfBounds"
  by (auto simp: list_set_def)

text \<open>\<open>overwrite es s xs\<close>: the list \<open>es\<close> with \<open>xs\<close> written from index \<open>s\<close> on.\<close>

definition overwrite :: "'a list \<Rightarrow> nat \<Rightarrow> 'a list \<Rightarrow> 'a list" where
  "overwrite es s xs = take s es @ xs @ drop (s + length xs) es"

lemma length_overwrite [simp]: "s + length xs \<le> length es \<Longrightarrow> length (overwrite es s xs) = length es"
  by (simp add: overwrite_def)

lemma nth_overwrite:
  "s + length xs \<le> length es \<Longrightarrow> k < length es \<Longrightarrow>
     overwrite es s xs ! k = (if s \<le> k \<and> k < s + length xs then xs ! (k - s) else es ! k)"
  by (auto simp: overwrite_def nth_append min_def)

lemma overwrite_overwrite:
  "length xs = length ys \<Longrightarrow> s + length xs \<le> length es \<Longrightarrow>
     overwrite (overwrite es s xs) s ys = overwrite es s ys"
  by (simp add: overwrite_def)

lemma overwrite_same:
  "s + n \<le> length es \<Longrightarrow> overwrite es s (take n (drop s es)) = es"
  by (simp add: overwrite_def flip: append_assoc take_add)

lemma overwrite_update:
  "s \<le> i \<Longrightarrow> i < s + length xs \<Longrightarrow> s + length xs \<le> length es \<Longrightarrow>
     overwrite (es[i := x]) s xs = overwrite es s xs"
  by (rule nth_equalityI) (auto simp: nth_overwrite)

lemma intervals_meet:
  fixes s t m n :: nat
  assumes "\<not> (t + m \<le> s \<or> s + n \<le> t)" "0 < n" "0 < m"
  obtains k where "s \<le> k" "k < s + n" "t \<le> k" "k < t + m"
  using assms by (intro that [of "max s t"]) auto

lemma overwrite_step:
  "off < length d \<Longrightarrow> overwrite (d[off := x]) (Suc off) ys = overwrite d off (x # ys)"
  by (simp add: overwrite_def take_Suc_conv_app_nth)

lemma overwrite_single: "off < length d \<Longrightarrow> overwrite d off [x] = d[off := x]"
  by (simp add: overwrite_def upd_conv_take_nth_drop)

subsection \<open>The first free slot of an array\<close>

text \<open>\<open>for (i = 0; i < n; i++) if (free(xs[i])) break;\<close> over the whole array\<close>
fun free_slot_loop :: "('a \<Rightarrow> bool) \<Rightarrow> 'a list \<Rightarrow> nat \<Rightarrow> nat option" where
  "free_slot_loop free [] i = None"
| "free_slot_loop free (x # xs) i = (if free x then Some i else free_slot_loop free xs (Suc i))"

lemma free_slot_loop_Some:
  "free_slot_loop free xs i = Some k \<Longrightarrow>
     \<exists>d. k = i + d \<and> d < length xs \<and> free (xs ! d) \<and> (\<forall>j < d. \<not> free (xs ! j))"
proof (induction xs arbitrary: i)
  case (Cons x xs)
  show ?case
  proof (cases "free x")
    case True
    with Cons.prems show ?thesis by (intro exI [of _ 0]) simp
  next
    case False
    with Cons.prems Cons.IH [of "Suc i"] obtain d where
      "k = Suc i + d" "d < length xs" "free (xs ! d)" "\<forall>j < d. \<not> free (xs ! j)" by auto
    with False show ?thesis by (intro exI [of _ "Suc d"]) (auto simp: less_Suc_eq_0_disj)
  qed
qed simp

lemma free_slot_loop_first:
  "d < length xs \<Longrightarrow> free (xs ! d) \<Longrightarrow> (\<And>j. j < d \<Longrightarrow> \<not> free (xs ! j)) \<Longrightarrow> free_slot_loop free xs i = Some (i + d)"
proof (induction xs arbitrary: i d)
  case (Cons x xs)
  show ?case
  proof (cases d)
    case (Suc e)
    with Cons.prems(3) [of 0] have "\<not> free x" by simp
    moreover have "\<not> free (xs ! j)" if "j < e" for j using Cons.prems(3) [of "Suc j"] Suc that by simp
    then have "free_slot_loop free xs (Suc i) = Some (Suc i + e)"
      using Cons.prems Suc by (intro Cons.IH) simp_all
    ultimately show ?thesis using Suc by simp
  qed (use Cons.prems in simp)
qed simp

lemma free_slot_loop_None: "free_slot_loop free xs i = None \<longleftrightarrow> (\<forall>x \<in> set xs. \<not> free x)"
  by (induction xs arbitrary: i) auto

end
