(* ===== verification/CMem.thy ===== *)
theory CMem
  imports Prelude
begin

text \<open>
  Byte memory of the machine and the routines of src/memory/memory.c. Memory is a function from
  32-bit addresses to bytes; 32-bit loads and stores are little endian, as on the x86.
  \<open>memset\<close> and \<open>memcpy\<close> are the source's byte loops; \<open>memcmp\<close> compares two arrays.
  The lemmas give the closed form of the loops and the laws of loads after stores.
\<close>

type_synonym memory = "u32 \<Rightarrow> u8"

subsection \<open>32-bit accesses\<close>

definition load32 :: "memory \<Rightarrow> u32 \<Rightarrow> u32" where
  "load32 m a = ucast (m a) OR push_bit 8 (ucast (m (a + 1)))
     OR push_bit 16 (ucast (m (a + 2))) OR push_bit 24 (ucast (m (a + 3)))"

definition store32 :: "memory \<Rightarrow> u32 \<Rightarrow> u32 \<Rightarrow> memory" where
  "store32 m a v = m(a := ucast v, a + 1 := ucast (drop_bit 8 v),
     a + 2 := ucast (drop_bit 16 v), a + 3 := ucast (drop_bit 24 v))"

text \<open>Bytes of a buffer: \<open>write_bytes\<close> is what a routine that fills \<open>bs\<close> in from \<open>p\<close> on leaves behind.\<close>

definition write_bytes :: "memory \<Rightarrow> u32 \<Rightarrow> u8 list \<Rightarrow> memory" where
  "write_bytes m p bs = (\<lambda>a. if unat (a - p) < length bs then bs ! unat (a - p) else m a)"

definition read_bytes :: "memory \<Rightarrow> u32 \<Rightarrow> nat \<Rightarrow> u8 list" where
  "read_bytes m p n = map (\<lambda>i. m (p + of_nat i)) [0..<n]"

subsection \<open>memory.c\<close>

text \<open>\<open>for (i = 0; i < size; i++) c_ptr[i] = (char)c;\<close>\<close>

definition memset :: "memory \<Rightarrow> u32 \<Rightarrow> u8 \<Rightarrow> u32 \<Rightarrow> memory" where
  "memset m ptr c sz = fold (\<lambda>i m. m(ptr + of_nat i := c)) [0..<unat sz] m"

text \<open>\<open>while (len--) *d++ = *s++;\<close>: one byte at a time, upwards.\<close>

definition memcpy :: "memory \<Rightarrow> u32 \<Rightarrow> u32 \<Rightarrow> u32 \<Rightarrow> memory" where
  "memcpy m dest src len =
     fold (\<lambda>i m. m(dest + of_nat i := m (src + of_nat i))) [0..<unat len] m"

text \<open>
  \<open>memcmp\<close> on two arrays: the first differing byte decides, read as the signed \<open>char\<close>
  of the target. Running off an array is a fault.
\<close>

fun memcmp :: "u8 list \<Rightarrow> u8 list \<Rightarrow> nat \<Rightarrow> int res" where
  "memcmp s1 s2 0 = Inr 0"
| "memcmp (a # s1) (b # s2) (Suc n) =
     (if a \<noteq> b then Inr (if sint a < sint b then - 1 else 1) else memcmp s1 s2 n)"
| "memcmp _ _ (Suc n) = Inl OutOfBounds"

subsection \<open>Addresses\<close>

lemma unat_of_nat_u32: "n < 4294967296 \<Longrightarrow> unat (of_nat n :: u32) = n"
  by (simp add: unat_of_nat take_bit_nat_eq_self)

lemma unat_plus_of_nat:
  "unat a + n < 4294967296 \<Longrightarrow> unat (a + of_nat n) = unat a + n" for a :: u32
  by (simp add: unat_word_ariths unat_of_nat_u32)

lemma unat_u32_bound: "unat a < 4294967296" for a :: u32
  using unsigned_less [of a, where 'a = nat] by simp

lemma read_write_bytes:
  "length bs \<le> 4294967295 \<Longrightarrow> read_bytes (write_bytes m p bs) p (length bs) = bs"
  by (rule nth_equalityI) (simp_all add: read_bytes_def write_bytes_def unat_of_nat_u32)

lemma length_read_bytes [simp]: "length (read_bytes m p n) = n"
  by (simp add: read_bytes_def)

text \<open>\<open>addr_in a p n\<close>: address \<open>a\<close> lies in the \<open>n\<close> bytes that start at \<open>p\<close>.\<close>

definition addr_in :: "u32 \<Rightarrow> u32 \<Rightarrow> nat \<Rightarrow> bool" where
  "addr_in a p n \<longleftrightarrow> unat p \<le> unat a \<and> unat a < unat p + n"

lemma ex_offset:
  assumes "unat p + n \<le> 4294967296"
  shows "(\<exists>i<n. a = p + of_nat i) \<longleftrightarrow> addr_in a p n"
proof
  assume "\<exists>i<n. a = p + of_nat i"
  then show "addr_in a p n"
    using assms by (auto simp: addr_in_def unat_plus_of_nat)
next
  assume a: "addr_in a p n"
  then have "a = p + of_nat (unat a - unat p)"
    using unat_u32_bound [of a]
    by (intro word_eq_iff_unsigned [where 'a = nat, THEN iffD2])
      (simp add: addr_in_def unat_plus_of_nat)
  with a show "\<exists>i<n. a = p + of_nat i"
    by (intro exI [of _ "unat a - unat p"]) (auto simp: addr_in_def)
qed

lemma write_bytes_outside:
  assumes "unat p + length bs \<le> 4294967296" "\<not> addr_in a p (length bs)"
  shows "write_bytes m p bs a = m a"
proof -
  have "\<not> unat (a - p) < length bs"
  proof
    assume "unat (a - p) < length bs"
    moreover have "a = p + of_nat (unat (a - p))" by simp
    ultimately have "\<exists>i < length bs. a = p + of_nat i" by blast
    then show False using ex_offset [OF assms(1)] assms(2) by blast
  qed
  then show ?thesis by (simp add: write_bytes_def)
qed

lemma fold_write_const:
  "fold (\<lambda>i m. m(p + of_nat i := c)) [0..<n] m a = (if \<exists>i<n. a = p + of_nat i then c else m a)"
  by (induction n) (auto simp: less_Suc_eq)

lemma memset_apply:
  "unat p + unat n \<le> 4294967296 \<Longrightarrow>
     memset m p c n a = (if addr_in a p (unat n) then c else m a)"
  by (simp add: memset_def fold_write_const ex_offset)

lemma memcpy_apply:
  assumes "unat d + unat n \<le> 4294967296" "unat s + unat n \<le> 4294967296"
    and "unat d + unat n \<le> unat s \<or> unat s + unat n \<le> unat d"
  shows "memcpy m d s n a =
     (if addr_in a d (unat n) then m (s + (a - d)) else m a)"
proof -
  have "k \<le> unat n \<Longrightarrow>
    fold (\<lambda>i m. m(d + of_nat i := m (s + of_nat i))) [0..<k] m a
      = (if \<exists>i<k. a = d + of_nat i then m (s + (a - d)) else m a)" for k a
  proof (induction k arbitrary: a)
    case 0
    then show ?case by simp
  next
    case (Suc k)
    have "s + of_nat k \<noteq> d + of_nat i" if "i < k" for i
    proof
      assume eq: "s + of_nat k = d + of_nat i"
      have "unat s + k = unat d + i"
        using Suc.prems that assms(1,2) arg_cong [OF eq, of unat] by (simp add: unat_plus_of_nat)
      with Suc.prems that assms(3) show False by linarith
    qed
    then have src: "\<not> (\<exists>i<k. s + of_nat k = d + of_nat i)" by auto
    show ?case
      using Suc src by (auto simp: less_Suc_eq)
  qed
  from this [of "unat n"] show ?thesis
    using assms(1) by (simp add: memcpy_def ex_offset)
qed

subsection \<open>Laws of 32-bit loads and stores\<close>

text \<open>Any two of the four byte addresses of a cell differ.\<close>

lemma word_offsets_neq:
  "a + 1 \<noteq> a" "a + 2 \<noteq> a" "a + 3 \<noteq> a" "a + 1 \<noteq> a + 2" "a + 1 \<noteq> a + 3" "a + 2 \<noteq> a + 3"
  for a :: u32
  by simp_all

lemma byte_bit: "bit (ucast (ucast (drop_bit k v :: u32) :: u8) :: u32) n \<longleftrightarrow> n < 8 \<and> bit v (k + n)"
  by (auto simp: bit_simps)
lemma bytes_of_u32:
  "ucast (ucast v :: u8) OR push_bit 8 (ucast (ucast (drop_bit 8 v) :: u8))
     OR push_bit 16 (ucast (ucast (drop_bit 16 v) :: u8))
     OR push_bit 24 (ucast (ucast (drop_bit 24 v) :: u8)) = v" for v :: u32
proof (rule bit_word_eqI)
  fix n assume n: "n < LENGTH(32)"
  have "bit (push_bit k (ucast (ucast (drop_bit k v) :: u8)) :: u32) n \<longleftrightarrow> k \<le> n \<and> n < k + 8 \<and> bit v n" for k
    using n by (auto simp: bit_push_bit_iff byte_bit)
  from this [of 0] this [of 8] this [of 16] this [of 24]
  show "bit (ucast (ucast v :: u8) OR push_bit 8 (ucast (ucast (drop_bit 8 v) :: u8))
     OR push_bit 16 (ucast (ucast (drop_bit 16 v) :: u8))
     OR push_bit 24 (ucast (ucast (drop_bit 24 v) :: u8)) :: u32) n = bit v n"
    using n by (auto simp: bit_or_iff)
qed
lemma load32_store32_same [simp]: "load32 (store32 m a v) a = v"
  by (simp add: load32_def store32_def word_offsets_neq word_offsets_neq [symmetric] bytes_of_u32)

lemma load32_cong:
  "(\<And>i. i < 4 \<Longrightarrow> m (a + of_nat i) = m' (a + of_nat i)) \<Longrightarrow> load32 m a = load32 m' a"
proof -
  assume eq: "\<And>i. i < 4 \<Longrightarrow> m (a + of_nat i) = m' (a + of_nat i)"
  have "m a = m' a" "m (a + 1) = m' (a + 1)" "m (a + 2) = m' (a + 2)" "m (a + 3) = m' (a + 3)"
    using eq [of 0] eq [of 1] eq [of 2] eq [of 3] by simp_all
  then show ?thesis by (simp add: load32_def)
qed

lemma store32_outside:
  assumes "\<not> addr_in x a 4" and "unat a + 4 \<le> 4294967296"
  shows "store32 m a v x = m x"
proof -
  have "\<And>i. i < 4 \<Longrightarrow> x \<noteq> a + of_nat i"
    using assms ex_offset [of a 4 x] by auto
  from this [of 0] this [of 1] this [of 2] this [of 3] show ?thesis
    by (simp add: store32_def)
qed

definition word_aligned :: "u32 \<Rightarrow> bool" where
  "word_aligned a \<longleftrightarrow> unat a mod 4 = 0"

lemma word_aligned_room: "word_aligned a \<Longrightarrow> unat a + 4 \<le> 4294967296"
  using unat_u32_bound [of a] unfolding word_aligned_def by presburger

lemma aligned_cells_disjoint:
  assumes "word_aligned a" "word_aligned b" "a \<noteq> b" "i < 4"
  shows "\<not> addr_in (b + of_nat i) a 4"
proof -
  have "unat (b + of_nat i) = unat b + i"
    using word_aligned_room [OF assms(2)] assms(4) by (intro unat_plus_of_nat) simp
  moreover have "unat a \<noteq> unat b" using assms(3) by (simp add: word_eq_iff_unsigned [where 'a = nat])
  ultimately show ?thesis
    using assms unfolding word_aligned_def addr_in_def by presburger
qed

lemma load32_store32_other [simp]:
  assumes "word_aligned a" "word_aligned b" "a \<noteq> b"
  shows "load32 (store32 m a v) b = load32 m b"
  using aligned_cells_disjoint [OF assms] word_aligned_room [OF assms(1)]
  by (intro load32_cong store32_outside) auto

lemma load32_memset:
  assumes "unat p + unat n \<le> 4294967296" and "unat p \<le> unat a" "unat a + 4 \<le> unat p + unat n"
  shows "load32 (memset m p 0 n) a = 0"
proof -
  have "memset m p 0 n (a + of_nat i) = 0" if "i < 4" for i
    using assms that by (simp add: memset_apply addr_in_def unat_plus_of_nat)
  from load32_cong [of "memset m p 0 n" a "\<lambda>_. 0", OF this] show ?thesis
    by (simp add: load32_def)
qed

lemma load32_memset_outside:
  assumes "unat p + unat n \<le> 4294967296" and "unat a + 4 \<le> 4294967296"
    and "unat a + 4 \<le> unat p \<or> unat p + unat n \<le> unat a"
  shows "load32 (memset m p c n) a = load32 m a"
proof (rule load32_cong)
  fix i :: nat assume "i < 4"
  with assms show "memset m p c n (a + of_nat i) = m (a + of_nat i)"
    by (auto simp: memset_apply addr_in_def unat_plus_of_nat)
qed

subsection \<open>Properties of the memory routines\<close>

text \<open>\<open>memcpy\<close> between regions that do not overlap copies exactly \<open>len\<close> bytes: each byte of the
  destination is the source's, and no other byte of memory changes.\<close>

theorem memcpy_copies:
  assumes "unat d + unat n \<le> 4294967296" "unat s + unat n \<le> 4294967296"
    and "unat d + unat n \<le> unat s \<or> unat s + unat n \<le> unat d"
  shows "(\<forall>i<unat n. memcpy m d s n (d + of_nat i) = m (s + of_nat i)) \<and>
    (\<forall>a. \<not> addr_in a d (unat n) \<longrightarrow> memcpy m d s n a = m a)"
proof -
  have "addr_in (d + of_nat i) d (unat n)" if "i < unat n" for i
    using that assms(1) by (simp add: addr_in_def unat_plus_of_nat)
  then show ?thesis by (simp add: memcpy_apply [OF assms])
qed

lemma memcpy_copies_witness:
  "memcpy (\<lambda>a. ucast a) 0x1000 0x20 8 0x1003 = 0x23"
  using memcpy_copies [where d = "0x1000" and n = 8 and s = "0x20" and m = "\<lambda>a. ucast a"]
  by (auto dest: spec [of _ 3])

end
