(* ===== verification/Allocator.thy ===== *)
theory Allocator
  imports CMem
begin

text \<open>
  The contract between the kernel's block allocator and its clients, as locales. An
  allocator has an invariant, a relation \<open>live s p n\<close> (the \<open>n\<close> blocks from address \<open>p\<close> on are one
  allocation), and the operations \<open>alloc\<close> and \<open>free\<close>, which may fault. The laws say what
  a successful allocation adds, that live allocations never overlap, and what \<open>free\<close> removes. Clients
  prove their lemmas from these laws only; the heap and the kernel heap interpret them.
\<close>

text \<open>Blocks that a request of \<open>sz\<close> bytes takes, and the requests whose rounding does not wrap.\<close>

definition blocks_of :: "u32 \<Rightarrow> nat" where
  "blocks_of sz = (unat sz + 4095) div 4096"

definition fair_request :: "u32 \<Rightarrow> bool" where
  "fair_request sz \<longleftrightarrow> 0 < unat sz \<and> unat sz \<le> 4294963200"

definition page_aligned :: "u32 \<Rightarrow> bool" where
  "page_aligned a \<longleftrightarrow> unat a mod 4096 = 0"

definition apart :: "u32 \<Rightarrow> nat \<Rightarrow> u32 \<Rightarrow> nat \<Rightarrow> bool" where
  "apart p n q m \<longleftrightarrow> unat p + 4096 * n \<le> unat q \<or> unat q + 4096 * m \<le> unat p"

lemma apart_sym: "apart p n q m = apart q m p n"
  by (auto simp: apart_def)

lemma blocks_of_pos: "fair_request sz \<Longrightarrow> 0 < blocks_of sz"
  by (auto simp: blocks_of_def fair_request_def)

lemma blocks_of_covers: "unat sz \<le> 4096 * blocks_of sz"
  by (auto simp: blocks_of_def)

locale block_allocator =
  fixes inv :: "'s \<Rightarrow> bool"
    and live :: "'s \<Rightarrow> u32 \<Rightarrow> nat \<Rightarrow> bool"
    and alloc :: "'s \<Rightarrow> u32 \<Rightarrow> (u32 \<times> 's) res"
    and free :: "'s \<Rightarrow> u32 \<Rightarrow> 's res"
  assumes alloc_inv: "inv s \<Longrightarrow> alloc s sz = Inr (p, s') \<Longrightarrow> inv s'"
    and alloc_live: "inv s \<Longrightarrow> fair_request sz \<Longrightarrow> alloc s sz = Inr (p, s') \<Longrightarrow> p \<noteq> 0 \<Longrightarrow>
      live s' q n \<longleftrightarrow> live s q n \<or> q = p \<and> n = blocks_of sz"
    and alloc_null: "inv s \<Longrightarrow> alloc s sz = Inr (0, s') \<Longrightarrow> live s' = live s"
    and alloc_fresh: "inv s \<Longrightarrow> fair_request sz \<Longrightarrow> alloc s sz = Inr (p, s') \<Longrightarrow> p \<noteq> 0 \<Longrightarrow>
      live s q n \<Longrightarrow> apart p (blocks_of sz) q n"
    and live_apart: "inv s \<Longrightarrow> live s p n \<Longrightarrow> live s q m \<Longrightarrow> p = q \<and> n = m \<or> apart p n q m"
    and live_bounds: "inv s \<Longrightarrow> live s p n \<Longrightarrow>
      0 < n \<and> 0 < unat p \<and> unat p mod 4096 = 0 \<and> unat p + 4096 * n \<le> 2147483648"
    and free_ok: "inv s \<Longrightarrow> live s p n \<Longrightarrow> \<exists>s'. free s p = Inr s'"
    and free_inv: "inv s \<Longrightarrow> live s p n \<Longrightarrow> free s p = Inr s' \<Longrightarrow> inv s'"
    and free_live: "inv s \<Longrightarrow> live s p n \<Longrightarrow> free s p = Inr s' \<Longrightarrow>
      live s' q m \<longleftrightarrow> live s q m \<and> q \<noteq> p"
begin

lemma live_size_unique: "inv s \<Longrightarrow> live s p n \<Longrightarrow> live s p m \<Longrightarrow> n = m"
  using live_apart [of s p n p m] live_bounds [of s p n] live_bounds [of s p m]
  by (auto simp: apart_def)

lemma live_not_null: "inv s \<Longrightarrow> live s p n \<Longrightarrow> p \<noteq> 0 \<and> \<not> ISERR p"
  using live_bounds [of s p n] by (auto simp: ISERR_iff)

lemma alloc_keeps_live:
  "inv s \<Longrightarrow> fair_request sz \<Longrightarrow> alloc s sz = Inr (p, s') \<Longrightarrow> live s q n \<Longrightarrow> live s' q n"
  by (cases "p = 0") (auto simp: alloc_live dest: alloc_null)

lemma alloc_is_live:
  "inv s \<Longrightarrow> fair_request sz \<Longrightarrow> alloc s sz = Inr (p, s') \<Longrightarrow> p \<noteq> 0 \<Longrightarrow> live s' p (blocks_of sz)"
  by (simp add: alloc_live)

lemma alloc_was_dead:
  assumes "inv s" "fair_request sz" "alloc s sz = Inr (p, s')" "p \<noteq> 0"
  shows "\<not> live s p n"
proof
  assume live: "live s p n"
  with alloc_fresh [OF assms] have "apart p (blocks_of sz) p n" by blast
  with live_bounds [OF assms(1) live] blocks_of_pos [OF assms(2)] show False
    by (auto simp: apart_def)
qed

lemma alloc_then_free:
  assumes "inv s" "fair_request sz" "alloc s sz = Inr (p, s')" "p \<noteq> 0"
  shows "\<exists>s''. free s' p = Inr s'' \<and> inv s'' \<and> (\<forall>q n. live s'' q n \<longleftrightarrow> live s q n)"
proof -
  have inv': "inv s'" using assms alloc_inv by blast
  have live': "live s' p (blocks_of sz)" using assms by (rule alloc_is_live)
  then obtain s'' where s'': "free s' p = Inr s''" using free_ok [OF inv'] by blast
  have "live s'' q n \<longleftrightarrow> live s q n" for q n
    using free_live [OF inv' live' s''] alloc_live [OF assms] alloc_was_dead [OF assms] by auto
  with free_inv [OF inv' live' s''] s'' show ?thesis by blast
qed

lemma two_allocs_apart:
  assumes "inv s" "fair_request a" "alloc s a = Inr (p, s')" "p \<noteq> 0"
    and "fair_request b" "alloc s' b = Inr (q, s'')" "q \<noteq> 0"
  shows "apart q (blocks_of b) p (blocks_of a)"
  using alloc_fresh [OF alloc_inv [OF assms(1,3)] assms(5-7)] alloc_is_live [OF assms(1-4)] by blast

end

text \<open>An allocator that counts its free blocks: one-block requests succeed while any is left.\<close>

locale page_allocator = block_allocator inv live alloc free
  for inv :: "'s \<Rightarrow> bool" and live alloc free +
  fixes avail :: "'s \<Rightarrow> nat"
  assumes alloc_page: "inv s \<Longrightarrow> 0 < avail s \<Longrightarrow> 0 < unat sz \<Longrightarrow> unat sz \<le> 4096 \<Longrightarrow>
      \<exists>p s'. alloc s sz = Inr (p, s') \<and> p \<noteq> 0 \<and> avail s' = avail s - 1"
    and free_avail: "inv s \<Longrightarrow> live s p n \<Longrightarrow> free s p = Inr s' \<Longrightarrow> avail s' = avail s + n"
begin

lemma page_request_fair: "0 < unat sz \<Longrightarrow> unat sz \<le> 4096 \<Longrightarrow> fair_request sz \<and> blocks_of sz = 1"
  by (auto simp: fair_request_def blocks_of_def)

end

end
