(* ===== verification/Heap.thy ===== *)
theory Heap
  imports Allocator
begin

text \<open>
  The block allocator of src/memory/heap/heap.c. The heap hands out runs of 4096-byte blocks;
  a table has one byte per block. \<open>struct heap_table\<close> is a record of its entry array and its
  length, \<open>struct heap\<close> one of the table and the pool's start address. Every loop of the source
  is the loop of the model, with the same counters and the same exits; an index outside the
  entry array is the fault \<open>OutOfBounds\<close>.
\<close>

subsection \<open>Data (heap.h)\<close>

abbreviation (input) HEAP_BLOCK_TABLE_ENTRY_TAKEN :: u8 where "HEAP_BLOCK_TABLE_ENTRY_TAKEN \<equiv> 0x01"
abbreviation (input) HEAP_BLOCK_TABLE_ENTRY_FREE :: u8 where "HEAP_BLOCK_TABLE_ENTRY_FREE \<equiv> 0x00"
abbreviation (input) HEAP_BLOCK_HAS_NEXT :: u8 where "HEAP_BLOCK_HAS_NEXT \<equiv> 0x80"
abbreviation (input) HEAP_BLOCK_IS_FIRST :: u8 where "HEAP_BLOCK_IS_FIRST \<equiv> 0x40"

record heap_table =
  ht_entries :: "u8 list" \<comment> \<open>\<open>entries\<close>\<close>
  ht_total :: u32 \<comment> \<open>\<open>total\<close>\<close>

record heap =
  heap_tbl :: heap_table \<comment> \<open>\<open>table\<close>\<close>
  saddr :: u32 \<comment> \<open>start address of the data pool\<close>

subsection \<open>Operations (heap.c)\<close>

definition heap_validate_table :: "u32 \<Rightarrow> u32 \<Rightarrow> heap_table \<Rightarrow> int" where
  "heap_validate_table ptr endp tbl =
     (let table_size = endp - ptr; total_blocks = table_size div MARROWOS_HEAP_BLOCK_SIZE
      in if ht_total tbl \<noteq> total_blocks then - EINVARG else 0)"

definition heap_validate_alignment :: "u32 \<Rightarrow> bool" where
  "heap_validate_alignment ptr \<longleftrightarrow> ptr mod MARROWOS_HEAP_BLOCK_SIZE = 0"

definition heap_create :: "heap \<Rightarrow> u32 \<Rightarrow> u32 \<Rightarrow> heap_table \<Rightarrow> (int \<times> heap) res" where
  "heap_create h ptr endp tbl =
     (if \<not> heap_validate_alignment ptr \<or> \<not> heap_validate_alignment endp then Inr (- EINVARG, h)
      else
        let h = \<lparr>heap_tbl = tbl, saddr = ptr\<rparr>;
            res = heap_validate_table ptr endp tbl
        in if res < 0 then Inr (res, h)
           else
             let n = unat (ht_total tbl)
             in if length (ht_entries tbl) < n then Inl OutOfBounds
                else Inr (res, h\<lparr>heap_tbl := tbl\<lparr>ht_entries :=
                       replicate n HEAP_BLOCK_TABLE_ENTRY_FREE @ drop n (ht_entries tbl)\<rparr>\<rparr>))"

definition heap_align_value_to_upper :: "u32 \<Rightarrow> u32" where
  "heap_align_value_to_upper val =
     (if val mod MARROWOS_HEAP_BLOCK_SIZE = 0 then val
      else val - val mod MARROWOS_HEAP_BLOCK_SIZE + MARROWOS_HEAP_BLOCK_SIZE)"

definition heap_get_entry_type :: "u8 \<Rightarrow> u8" where
  "heap_get_entry_type entry = entry AND 0x0f"

text \<open>
  The search loop: \<open>i\<close> is the index, \<open>bc\<close> is \<open>block_current\<close> (compared with
  \<open>total_blocks\<close> as unsigned) and \<open>bs\<close> is \<open>block_start\<close>.
\<close>

function heap_start_loop :: "u8 list \<Rightarrow> nat \<Rightarrow> u32 \<Rightarrow> nat \<Rightarrow> u32 \<Rightarrow> int \<Rightarrow> int res" where
  "heap_start_loop es tot total_blocks i bc bs =
     (if i < tot then
        bind_res (list_get es (int i)) (\<lambda>e.
          if heap_get_entry_type e \<noteq> HEAP_BLOCK_TABLE_ENTRY_FREE
          then heap_start_loop es tot total_blocks (Suc i) 0 (- 1)
          else
            let bs = (if bs = - 1 then int i else bs); bc = bc + 1
            in if bc = total_blocks then Inr bs
               else heap_start_loop es tot total_blocks (Suc i) bc bs)
      else Inr bs)"
  by pat_completeness auto
termination
  by (relation "measure (\<lambda>(es, tot, tb, i, bc, bs). tot - i)") auto

declare heap_start_loop.simps [simp del]

definition heap_get_start_block :: "heap \<Rightarrow> u32 \<Rightarrow> int res" where
  "heap_get_start_block h total_blocks =
     bind_res (heap_start_loop (ht_entries (heap_tbl h)) (unat (ht_total (heap_tbl h)))
         total_blocks 0 0 (- 1))
       (\<lambda>block_start. Inr (if block_start = - 1 then - ENOMEM else block_start))"

definition heap_block_to_address :: "heap \<Rightarrow> int \<Rightarrow> u32" where
  "heap_block_to_address h block = saddr h + word_of_int (block * 4096)"

function mark_taken_loop :: "u8 list \<Rightarrow> int \<Rightarrow> int \<Rightarrow> u8 \<Rightarrow> u8 list res" where
  "mark_taken_loop es i end_block entry =
     (if i \<le> end_block then
        bind_res (list_set es i entry) (\<lambda>es.
          mark_taken_loop es (i + 1) end_block
            (if i \<noteq> end_block - 1 then HEAP_BLOCK_TABLE_ENTRY_TAKEN OR HEAP_BLOCK_HAS_NEXT
             else HEAP_BLOCK_TABLE_ENTRY_TAKEN))
      else Inr es)"
  by pat_completeness auto
termination
  by (relation "measure (\<lambda>(es, i, e, entry). nat (e - i + 1))") auto

declare mark_taken_loop.simps [simp del]

definition heap_mark_blocks_taken :: "heap \<Rightarrow> int \<Rightarrow> int \<Rightarrow> heap res" where
  "heap_mark_blocks_taken h start_block total_blocks =
     (let end_block = start_block + total_blocks - 1;
          entry = HEAP_BLOCK_TABLE_ENTRY_TAKEN OR HEAP_BLOCK_IS_FIRST;
          entry = (if total_blocks > 1 then entry OR HEAP_BLOCK_HAS_NEXT else entry)
      in bind_res (mark_taken_loop (ht_entries (heap_tbl h)) start_block end_block entry)
           (\<lambda>es. Inr (h\<lparr>heap_tbl := (heap_tbl h)\<lparr>ht_entries := es\<rparr>\<rparr>)))"

definition heap_malloc_blocks :: "heap \<Rightarrow> u32 \<Rightarrow> (u32 \<times> heap) res" where
  "heap_malloc_blocks h total_blocks =
     bind_res (heap_get_start_block h total_blocks) (\<lambda>start_block.
       if start_block < 0 then Inr (0, h)
       else bind_res (heap_mark_blocks_taken h start_block (sint total_blocks)) (\<lambda>h'.
              Inr (heap_block_to_address h start_block, h')))"

function mark_free_loop :: "u8 list \<Rightarrow> int \<Rightarrow> int \<Rightarrow> u8 list res" where
  "mark_free_loop es i tot =
     (if i < tot then
        bind_res (list_get es i) (\<lambda>entry.
        bind_res (list_set es i HEAP_BLOCK_TABLE_ENTRY_FREE) (\<lambda>es.
          if entry AND HEAP_BLOCK_HAS_NEXT = 0 then Inr es
          else mark_free_loop es (i + 1) tot))
      else Inr es)"
  by pat_completeness auto
termination
  by (relation "measure (\<lambda>(es, i, tot). nat (tot - i))") auto

declare mark_free_loop.simps [simp del]

definition heap_mark_blocks_free :: "heap \<Rightarrow> int \<Rightarrow> heap res" where
  "heap_mark_blocks_free h starting_block =
     bind_res (mark_free_loop (ht_entries (heap_tbl h)) starting_block (sint (ht_total (heap_tbl h))))
       (\<lambda>es. Inr (h\<lparr>heap_tbl := (heap_tbl h)\<lparr>ht_entries := es\<rparr>\<rparr>))"

definition heap_address_to_block :: "heap \<Rightarrow> u32 \<Rightarrow> int" where
  "heap_address_to_block h address = sint (address - saddr h) sdiv 4096"

definition heap_malloc :: "heap \<Rightarrow> u32 \<Rightarrow> (u32 \<times> heap) res" where
  "heap_malloc h sz =
     (let aligned_size = heap_align_value_to_upper sz;
          total_blocks = aligned_size div MARROWOS_HEAP_BLOCK_SIZE
      in heap_malloc_blocks h total_blocks)"

definition heap_free :: "heap \<Rightarrow> u32 \<Rightarrow> heap res" where
  "heap_free h ptr = heap_mark_blocks_free h (heap_address_to_block h ptr)"

subsection \<open>Searching for a free run\<close>

definition entry_free :: "u8 \<Rightarrow> bool" where
  "entry_free e \<longleftrightarrow> heap_get_entry_type e = HEAP_BLOCK_TABLE_ENTRY_FREE"

definition free_run :: "u8 list \<Rightarrow> nat \<Rightarrow> nat \<Rightarrow> bool" where
  "free_run es s n \<longleftrightarrow> s + n \<le> length es \<and> (\<forall>j<n. entry_free (es ! (s + j)))"

text \<open>What the search may return for \<open>n\<close> blocks: the first run of \<open>n\<close> free entries; or,
  where there is none, the shorter run at the table's end; or nothing.\<close>

definition first_fit :: "u8 list \<Rightarrow> nat \<Rightarrow> nat \<Rightarrow> bool" where
  "first_fit es n s \<longleftrightarrow> free_run es s n \<and> ((\<forall>t. t < s \<longrightarrow> \<not> free_run es t n))"

definition short_tail :: "u8 list \<Rightarrow> nat \<Rightarrow> nat \<Rightarrow> bool" where
  "short_tail es n s \<longleftrightarrow> (\<forall>s'. \<not> free_run es s' n) \<and> s < length es \<and> length es < s + n \<and>
     (\<forall>k. s \<le> k \<and> k < length es \<longrightarrow> entry_free (es ! k)) \<and> (s = 0 \<or> \<not> entry_free (es ! (s - 1)))"

definition no_space :: "u8 list \<Rightarrow> nat \<Rightarrow> bool" where
  "no_space es n \<longleftrightarrow> (\<forall>s'. \<not> free_run es s' n) \<and> (es = [] \<or> \<not> entry_free (last es))"

definition search_result :: "u8 list \<Rightarrow> nat \<Rightarrow> int \<Rightarrow> bool" where
  "search_result es n r \<longleftrightarrow>
     (\<exists>s. r = int s \<and> (first_fit es n s \<or> short_tail es n s)) \<or> r = - 1 \<and> no_space es n"

definition scan_inv :: "u8 list \<Rightarrow> nat \<Rightarrow> nat \<Rightarrow> nat \<Rightarrow> int \<Rightarrow> bool" where
  "scan_inv es n i c bs \<longleftrightarrow> i \<le> length es \<and> c \<le> i \<and> c < n \<and>
     bs = (if c = 0 then - 1 else int (i - c)) \<and>
     (\<forall>j. i - c \<le> j \<and> j < i \<longrightarrow> entry_free (es ! j)) \<and>
     (i - c = 0 \<or> \<not> entry_free (es ! (i - c - 1))) \<and> (\<forall>s. s + n \<le> i \<longrightarrow> \<not> free_run es s n)"

lemma scan_inv_init: "0 < n \<Longrightarrow> scan_inv es n 0 0 (- 1)"
  by (simp add: scan_inv_def)

lemma scan_inv_taken:
  assumes "scan_inv es n i c bs" "i < length es" "\<not> entry_free (es ! i)"
  shows "scan_inv es n (Suc i) 0 (- 1)"
proof -
  have "\<not> free_run es s n" if "s + n \<le> Suc i" for s
  proof (cases "s + n = Suc i")
    case True
    then have "i - s < n \<and> s + (i - s) = i" using assms(1) by (auto simp: scan_inv_def)
    with assms(3) show ?thesis unfolding free_run_def by metis
  next
    case False
    with that assms(1) show ?thesis by (auto simp: scan_inv_def)
  qed
  with assms show ?thesis by (auto simp: scan_inv_def)
qed

text \<open>A run that ends at \<open>i + 1\<close> cannot begin before the run being counted.\<close>

lemma scan_inv_no_earlier:
  assumes "scan_inv es n i c bs" "s + n \<le> Suc i" "s < Suc i - Suc c"
  shows "\<not> free_run es s n"
proof
  assume run: "free_run es s n"
  then have "s + n = Suc i"
    using assms(1,2) by (cases "s + n \<le> i") (auto simp: scan_inv_def)
  moreover from assms have "\<not> entry_free (es ! (i - c - 1))"
    by (auto simp: scan_inv_def)
  moreover have "i - c - 1 - s < n \<and> s + (i - c - 1 - s) = i - c - 1"
    using calculation(1) assms by (auto simp: scan_inv_def)
  ultimately show False using run unfolding free_run_def by metis
qed

lemma scan_inv_free:
  assumes "scan_inv es n i c bs" "i < length es" "entry_free (es ! i)" "Suc c < n"
  shows "scan_inv es n (Suc i) (Suc c) (if bs = - 1 then int i else bs)"
proof -
  have "\<not> free_run es s n" if "s + n \<le> Suc i" for s
    using scan_inv_no_earlier [OF assms(1) that] that assms(4) by force
  moreover have "entry_free (es ! j)" if "Suc i - Suc c \<le> j" "j < Suc i" for j
    using that assms(1,3) by (cases "j = i") (auto simp: scan_inv_def)
  ultimately show ?thesis
    using assms by (auto simp: scan_inv_def)
qed

lemma scan_inv_found:
  assumes "scan_inv es n i c bs" "i < length es" "entry_free (es ! i)" "Suc c = n"
  shows "search_result es n (if bs = - 1 then int i else bs)"
proof -
  have "first_fit es n (i - c)"
    unfolding first_fit_def
  proof (intro conjI allI impI)
    have "entry_free (es ! j)" if "i - c \<le> j" "j < Suc i" for j
      using that assms(1,3) by (cases "j = i") (auto simp: scan_inv_def)
    then show "free_run es (i - c) n"
      using assms by (auto simp: free_run_def scan_inv_def)
  next
    fix s assume "s < i - c"
    with scan_inv_no_earlier [OF assms(1), of s] assms(1,4) show "\<not> free_run es s n"
      by (auto simp: scan_inv_def)
  qed
  moreover have "(if bs = - 1 then int i else bs) = int (i - c)"
    using assms(1) by (auto simp: scan_inv_def)
  ultimately show ?thesis unfolding search_result_def by metis
qed

lemma scan_inv_end:
  assumes "scan_inv es n (length es) c bs"
  shows "search_result es n bs"
proof (cases "c = 0")
  case True
  with assms show ?thesis
    by (auto simp: scan_inv_def search_result_def no_space_def free_run_def last_conv_nth)
next
  case False
  with assms have "short_tail es n (length es - c)" "bs = int (length es - c)"
    by (auto simp: scan_inv_def short_tail_def free_run_def)
  then show ?thesis unfolding search_result_def by blast
qed

lemma heap_start_loop_result:
  assumes "scan_inv es (unat n) i c bs"
  shows "\<exists>r. heap_start_loop es (length es) n i (of_nat c) bs = Inr r \<and> search_result es (unat n) r"
  using assms
proof (induction "length es - i" arbitrary: i c bs)
  case 0
  then have "i = length es" by (simp add: scan_inv_def)
  with 0 show ?case by (auto simp: heap_start_loop.simps [of es] intro: scan_inv_end)
next
  case (Suc k)
  then have i: "i < length es" and k: "k = length es - Suc i" by simp_all
  have c: "c < unat n" using Suc.prems by (simp add: scan_inv_def)
  then have eq: "of_nat c + 1 = n \<longleftrightarrow> Suc c = unat n"
    using unat_u32_bound [of n] unat_of_nat_u32 [of "Suc c"]
    by (auto simp: word_unat_eq_iff add.commute)
  show ?case
  proof (cases "entry_free (es ! i)")
    case False
    with Suc.hyps(1) [OF k scan_inv_taken [OF Suc.prems i]] i show ?thesis
      by (simp add: heap_start_loop.simps [of es _ _ i] list_get_nat entry_free_def)
  next
    case free: True
    show ?thesis
    proof (cases "Suc c = unat n")
      case True
      with scan_inv_found [OF Suc.prems i free] i free eq show ?thesis
        by (simp add: heap_start_loop.simps [of es _ _ i] list_get_nat entry_free_def)
    next
      case False
      with c have "Suc c < unat n" by simp
      from Suc.hyps(1) [OF k scan_inv_free [OF Suc.prems i free this]] i free eq False show ?thesis
        by (simp add: heap_start_loop.simps [of es _ _ i] list_get_nat entry_free_def add.commute)
    qed
  qed
qed

subsection \<open>Allocations in the table\<close>

text \<open>The byte the code writes for block \<open>j\<close> of an allocation of \<open>n\<close> blocks.\<close>

definition chunk_entry :: "nat \<Rightarrow> nat \<Rightarrow> u8" where
  "chunk_entry n j =
     (if j = 0 then HEAP_BLOCK_TABLE_ENTRY_TAKEN OR HEAP_BLOCK_IS_FIRST
      else HEAP_BLOCK_TABLE_ENTRY_TAKEN) OR (if Suc j < n then HEAP_BLOCK_HAS_NEXT else 0)"

definition allocated :: "u8 list \<Rightarrow> nat \<Rightarrow> nat \<Rightarrow> bool" where
  "allocated es s n \<longleftrightarrow> 0 < n \<and> s + n \<le> length es \<and> (\<forall>j<n. es ! (s + j) = chunk_entry n j)"

definition wf_entries :: "u8 list \<Rightarrow> bool" where
  "wf_entries es \<longleftrightarrow> (\<forall>k<length es. es ! k = HEAP_BLOCK_TABLE_ENTRY_FREE \<or>
     (\<exists>s n. allocated es s n \<and> s \<le> k \<and> k < s + n))"

lemma chunk_entry_bits:
  "\<not> entry_free (chunk_entry n j)" "\<not> entry_free (chunk_entry n j)"
  "chunk_entry n j AND HEAP_BLOCK_HAS_NEXT = 0 \<longleftrightarrow> n \<le> Suc j"
  "chunk_entry n j AND HEAP_BLOCK_IS_FIRST = 0 \<longleftrightarrow> j \<noteq> 0"
  "chunk_entry n j \<noteq> 0"
  by (auto simp: chunk_entry_def entry_free_def heap_get_entry_type_def)

lemma allocated_same_start:
  assumes "allocated es s n" "allocated es s m"
  shows "n = m"
proof -
  have False if "n < m" "allocated es s n" "allocated es s m" for n m
  proof -
    have "n - 1 < n" "n - 1 < m" using that(1,2) by (simp_all add: allocated_def)
    with that(2,3) have "chunk_entry n (n - 1) = chunk_entry m (n - 1)"
      unfolding allocated_def by metis
    moreover have "n \<le> Suc (n - 1)" "\<not> m \<le> Suc (n - 1)"
      using that(1,2) by (simp_all add: allocated_def)
    ultimately show False using chunk_entry_bits(3) by metis
  qed
  with assms show ?thesis by (meson nat_neq_iff)
qed

lemma allocated_overlap:
  assumes "allocated es s n" "allocated es t m" "s \<le> k" "k < s + n" "t \<le> k" "k < t + m"
  shows "s = t \<and> n = m"
proof -
  have False if "s < t" "t < s + n" "allocated es s n" "allocated es t m" for s t n m
  proof -
    from that have "es ! t = chunk_entry n (t - s)" "es ! t = chunk_entry m 0"
      unfolding allocated_def by (metis add_diff_inverse_nat less_diff_conv2 less_imp_le not_less
          add.commute) (metis add.right_neutral that(4) allocated_def)
    then show False using that(1) chunk_entry_bits(4) [of n "t - s"] chunk_entry_bits(4) [of m 0]
      by auto
  qed
  from this [of s t n m] this [of t s m n] assms have "s = t"
    by (meson le_less_trans nat_neq_iff)
  with assms allocated_same_start show ?thesis by blast
qed

lemma allocated_cong:
  "length es = length es' \<Longrightarrow> (\<And>k. t \<le> k \<Longrightarrow> k < t + m \<Longrightarrow> es ! k = es' ! k) \<Longrightarrow>
     allocated es t m = allocated es' t m"
  by (auto simp: allocated_def)

lemma allocated_not_free:
  "allocated es t m \<Longrightarrow> t \<le> k \<Longrightarrow> k < t + m \<Longrightarrow> \<not> entry_free (es ! k)"
  unfolding allocated_def by (metis chunk_entry_bits(1) le_iff_add nat_add_left_cancel_less)

subsection \<open>Marking a run taken\<close>

definition chunk_bytes :: "nat \<Rightarrow> u8 list" where
  "chunk_bytes n = map (chunk_entry n) [0..<n]"

lemma chunk_bytes_simps [simp]: "length (chunk_bytes n) = n" "j < n \<Longrightarrow> chunk_bytes n ! j = chunk_entry n j"
  by (simp_all add: chunk_bytes_def)

lemma mark_taken_loop_run:
  assumes "s + n \<le> length es" "j \<le> n" "j < n \<longrightarrow> entry = chunk_entry n j"
  shows "mark_taken_loop es (int (s + j)) (int s + int n - 1) entry
     = Inr (overwrite es (s + j) (drop j (chunk_bytes n)))"
  using assms
proof (induction "n - j" arbitrary: j es entry)
  case 0
  then show ?case by (simp add: mark_taken_loop.simps [of es] overwrite_def)
next
  case (Suc d)
  then have j: "j < n" and d: "d = n - Suc j" by simp_all
  define e' where "e' = (if int (s + j) \<noteq> int s + int n - 1 - 1
    then HEAP_BLOCK_TABLE_ENTRY_TAKEN OR HEAP_BLOCK_HAS_NEXT else HEAP_BLOCK_TABLE_ENTRY_TAKEN)"
  have e': "Suc j < n \<longrightarrow> e' = chunk_entry n (Suc j)"
    by (auto simp: e'_def chunk_entry_def)
  have "mark_taken_loop es (int (s + j)) (int s + int n - 1) entry
      = mark_taken_loop (es[s + j := chunk_entry n j]) (int (s + Suc j)) (int s + int n - 1) e'"
    using Suc.prems j
    by (simp add: mark_taken_loop.simps [of es] list_set_nat e'_def add.commute
        del: of_nat_add)
  also have "\<dots> = Inr (overwrite (es[s + j := chunk_entry n j]) (s + Suc j) (drop (Suc j) (chunk_bytes n)))"
    using Suc.hyps(1) [OF d, of "es[s + j := chunk_entry n j]" e'] Suc.prems j e' by simp
  also have "overwrite (es[s + j := chunk_entry n j]) (s + Suc j) (drop (Suc j) (chunk_bytes n))
      = overwrite es (s + j) (drop j (chunk_bytes n))"
    using Suc.prems j by (intro nth_equalityI) (auto simp: nth_overwrite nth_list_update Suc_diff_Suc)
  finally show ?case .
qed

lemma mark_taken_loop_overrun:
  assumes "i \<le> length es" "int (length es) \<le> e"
  shows "mark_taken_loop es (int i) e entry = Inl OutOfBounds"
  using assms
proof (induction "length es - i" arbitrary: i es entry)
  case 0
  then show ?case by (simp add: mark_taken_loop.simps [of es] list_set_oob)
next
  case (Suc d)
  then have "i < length es" and "d = length (es[i := entry]) - Suc i" by simp_all
  with Suc.prems Suc.hyps(1) [OF this(2)] show ?case
    by (simp add: mark_taken_loop.simps [of es] list_set_nat add.commute [of 1])
qed

subsection \<open>Freeing an allocation\<close>

lemma mark_free_loop_chunk:
  assumes "0 < n" "s + n \<le> length es" "j < n" "\<And>k. j \<le> k \<Longrightarrow> k < n \<Longrightarrow> es ! (s + k) = chunk_entry n k"
  shows "mark_free_loop es (int (s + j)) (int (length es))
     = Inr (overwrite es (s + j) (replicate (n - j) HEAP_BLOCK_TABLE_ENTRY_FREE))"
  using assms
proof (induction "n - j" arbitrary: j es)
  case 0
  then show ?case by simp
next
  case (Suc d)
  let ?es = "es[s + j := HEAP_BLOCK_TABLE_ENTRY_FREE]"
  have bit: "es ! (s + j) AND HEAP_BLOCK_HAS_NEXT = 0 \<longleftrightarrow> n \<le> Suc j"
    using Suc.prems by (simp add: chunk_entry_bits)
  have step: "mark_free_loop es (int (s + j)) (int (length es)) =
     (if n \<le> Suc j then Inr ?es else mark_free_loop ?es (int (s + Suc j)) (int (length ?es)))"
    using Suc.prems bit
    by (simp add: mark_free_loop.simps [of es] list_set_nat list_get_nat del: of_nat_add)
      (simp add: add.commute)
  show ?case
  proof (cases "n \<le> Suc j")
    case True
    with Suc.prems have "n - j = Suc 0" by simp
    with True step Suc.prems show ?thesis
      by (simp del: of_nat_add) (intro nth_equalityI, auto simp: nth_overwrite nth_list_update)
  next
    case False
    with Suc have d: "d = n - Suc j" by simp
    have "mark_free_loop ?es (int (s + Suc j)) (int (length ?es))
        = Inr (overwrite ?es (s + Suc j) (replicate (n - Suc j) HEAP_BLOCK_TABLE_ENTRY_FREE))"
      using False Suc.prems by (intro Suc.hyps(1) [OF d]) (auto simp: nth_list_update)
    also have "overwrite ?es (s + Suc j) (replicate (n - Suc j) HEAP_BLOCK_TABLE_ENTRY_FREE)
        = overwrite es (s + j) (replicate (n - j) HEAP_BLOCK_TABLE_ENTRY_FREE)"
      using Suc.prems False by (intro nth_equalityI) (auto simp: nth_overwrite nth_list_update)
    finally show ?thesis using False step by simp
  qed
qed

lemma overwrite_outside:
  "s + length xs \<le> length es \<Longrightarrow> k < length es \<Longrightarrow> k < s \<or> s + length xs \<le> k \<Longrightarrow>
     overwrite es s xs ! k = es ! k"
  by (auto simp: nth_overwrite)

lemma allocated_overwrite_apart:
  assumes "s + length xs \<le> length es" "t + m \<le> s \<or> s + length xs \<le> t" "t + m \<le> length es"
  shows "allocated (overwrite es s xs) t m \<longleftrightarrow> allocated es t m"
  using assms by (intro allocated_cong) (auto intro!: overwrite_outside)

lemma allocated_apart_of_free:
  assumes "free_run es s n" "allocated es t m" "0 < n"
  shows "t + m \<le> s \<or> s + n \<le> t"
proof (rule ccontr)
  assume "\<not> ?thesis"
  moreover have "0 < m" using assms(2) by (simp add: allocated_def)
  ultimately obtain k where k: "s \<le> k" "k < s + n" "t \<le> k" "k < t + m"
    using assms(3) intervals_meet by blast
  then have "entry_free (es ! k)"
    using assms(1) unfolding free_run_def by (metis le_iff_add nat_add_left_cancel_less)
  with allocated_not_free [OF assms(2) k(3,4)] show False by simp
qed

lemma allocated_after_take:
  assumes run: "free_run es s n" and n: "0 < n"
  shows "allocated (overwrite es s (chunk_bytes n)) t m \<longleftrightarrow> allocated es t m \<or> t = s \<and> m = n"
proof -
  let ?es = "overwrite es s (chunk_bytes n)"
  have len: "s + n \<le> length es" using run by (simp add: free_run_def)
  have new: "allocated ?es s n"
    using n len by (auto simp: allocated_def nth_overwrite)
  show ?thesis
  proof
    assume al: "allocated ?es t m"
    show "allocated es t m \<or> t = s \<and> m = n"
    proof (cases "t + m \<le> s \<or> s + n \<le> t")
      case True
      have "t + m \<le> length es" using al len by (simp add: allocated_def)
      with True len have "allocated ?es t m \<longleftrightarrow> allocated es t m"
        by (intro allocated_overwrite_apart) auto
      with al show ?thesis by simp
    next
      case False
      moreover have "0 < m" using al by (simp add: allocated_def)
      ultimately obtain k where "s \<le> k" "k < s + n" "t \<le> k" "k < t + m"
        using n intervals_meet by blast
      with allocated_overlap [OF new al] show ?thesis by blast
    qed
  next
    assume "allocated es t m \<or> t = s \<and> m = n"
    then show "allocated ?es t m"
    proof
      assume al: "allocated es t m"
      then have "t + m \<le> length es" by (simp add: allocated_def)
      with allocated_apart_of_free [OF run al n] len have "allocated ?es t m \<longleftrightarrow> allocated es t m"
        by (intro allocated_overwrite_apart) auto
      with al show ?thesis by simp
    qed (use new in simp)
  qed
qed

lemma wf_after_take:
  assumes wf: "wf_entries es" and run: "free_run es s n" and n: "0 < n"
  shows "wf_entries (overwrite es s (chunk_bytes n))"
  unfolding wf_entries_def
proof (intro allI impI)
  let ?es = "overwrite es s (chunk_bytes n)"
  have len: "s + n \<le> length es" using run by (simp add: free_run_def)
  fix k assume k: "k < length ?es"
  show "?es ! k = 0 \<or> (\<exists>t m. allocated ?es t m \<and> t \<le> k \<and> k < t + m)"
  proof (cases "s \<le> k \<and> k < s + n")
    case True
    with allocated_after_take [OF run n] show ?thesis by blast
  next
    case False
    then have "?es ! k = es ! k" using k len by (auto simp: nth_overwrite)
    moreover have "es ! k = 0 \<or> (\<exists>t m. allocated es t m \<and> t \<le> k \<and> k < t + m)"
      using wf k len by (simp add: wf_entries_def)
    ultimately show ?thesis using allocated_after_take [OF run n] by auto
  qed
qed

lemma wf_free_run_zero:
  assumes "wf_entries es" "free_run es s n"
  shows "take n (drop s es) = replicate n HEAP_BLOCK_TABLE_ENTRY_FREE"
proof (rule nth_equalityI)
  fix j assume "j < length (take n (drop s es))"
  then have j: "j < n" "s + j < length es" by auto
  then have "entry_free (es ! (s + j))" using assms(2) by (simp add: free_run_def)
  with j assms(1) allocated_not_free show "take n (drop s es) ! j = replicate n 0 ! j"
    unfolding wf_entries_def by auto
qed (use assms in \<open>auto simp: free_run_def\<close>)

lemma allocated_after_free:
  assumes al: "allocated es s n"
  shows "allocated (overwrite es s (replicate n 0)) t m \<longleftrightarrow> allocated es t m \<and> t \<noteq> s"
proof -
  let ?es = "overwrite es s (replicate n 0)"
  have len: "s + n \<le> length es" "0 < n" using al by (simp_all add: allocated_def)
  have zero: "entry_free (?es ! k)" if "s \<le> k" "k < s + n" for k
    using that len by (simp add: nth_overwrite entry_free_def heap_get_entry_type_def)
  have run: "free_run ?es s n" using len zero by (auto simp: free_run_def)
  show ?thesis
  proof (cases "t + m \<le> s \<or> s + n \<le> t")
    case True
    then show ?thesis
      using len allocated_overwrite_apart [of s "replicate n 0" es t m]
      by (cases "t + m \<le> length es") (auto simp: allocated_def)
  next
    case False
    then have "\<not> allocated ?es t m" using allocated_apart_of_free [OF run _ len(2)] by blast
    moreover have "\<not> (allocated es t m \<and> t \<noteq> s)"
    proof
      assume "allocated es t m \<and> t \<noteq> s"
      moreover from this have "0 < m" by (simp add: allocated_def)
      with False len(2) obtain k where "s \<le> k" "k < s + n" "t \<le> k" "k < t + m"
        using intervals_meet by blast
      ultimately show False using allocated_overlap [OF al] by blast
    qed
    ultimately show ?thesis by simp
  qed
qed

lemma wf_after_free:
  assumes wf: "wf_entries es" and al: "allocated es s n"
  shows "wf_entries (overwrite es s (replicate n 0))"
  unfolding wf_entries_def
proof (intro allI impI)
  let ?es = "overwrite es s (replicate n 0)"
  have len: "s + n \<le> length es" using al by (simp add: allocated_def)
  fix k assume k: "k < length ?es"
  show "?es ! k = 0 \<or> (\<exists>t m. allocated ?es t m \<and> t \<le> k \<and> k < t + m)"
  proof (cases "s \<le> k \<and> k < s + n")
    case True
    then have "?es ! k = replicate n 0 ! (k - s)" using k len by (simp add: nth_overwrite)
    moreover have "k - s < n" using True by arith
    ultimately show ?thesis by simp
  next
    case False
    then have "?es ! k = es ! k" using k len by (auto simp: nth_overwrite)
    moreover have "t \<noteq> s" if "allocated es t m" "t \<le> k" "k < t + m" for t m
      using that False allocated_same_start [OF al] by auto
    ultimately show ?thesis
      using wf k len allocated_after_free [OF al] unfolding wf_entries_def
      by (metis length_overwrite length_replicate)
  qed
qed

subsection \<open>Counting free blocks\<close>

definition free_count :: "u8 list \<Rightarrow> nat" where
  "free_count es = length (filter entry_free es)"

lemma free_count_overwrite:
  assumes "s + length xs \<le> length es"
  shows "free_count (overwrite es s xs) + free_count (take (length xs) (drop s es))
     = free_count es + free_count xs"
proof -
  have "es = take s es @ take (length xs) (drop s es) @ drop (s + length xs) es"
    by (metis append_take_drop_id drop_drop add.commute)
  then have "free_count es = free_count (take s es) + free_count (take (length xs) (drop s es))
      + free_count (drop (s + length xs) es)"
    unfolding free_count_def by (metis filter_append length_append add.assoc)
  then show ?thesis by (simp add: overwrite_def free_count_def)
qed

lemma free_count_parts:
  "free_count (chunk_bytes n) = 0" "free_count (replicate n 0) = n"
  "free_run es s n \<Longrightarrow> free_count (take n (drop s es)) = n"
  "allocated es s n \<Longrightarrow> free_count (take n (drop s es)) = 0"
proof -
  show "free_count (chunk_bytes n) = 0"
    by (simp add: free_count_def chunk_bytes_def chunk_entry_bits)
  show "free_count (replicate n 0) = n"
    by (simp add: free_count_def entry_free_def heap_get_entry_type_def)
  show "free_count (take n (drop s es)) = n" if "free_run es s n"
  proof -
    have "\<forall>x\<in>set (take n (drop s es)). entry_free x"
      using that by (auto simp: free_run_def in_set_conv_nth)
    moreover have "length (take n (drop s es)) = n" using that by (auto simp: free_run_def)
    ultimately show ?thesis unfolding free_count_def by (metis filter_True)
  qed
  show "free_count (take n (drop s es)) = 0" if "allocated es s n"
  proof -
    have "\<forall>x\<in>set (take n (drop s es)). \<not> entry_free x"
      using that by (auto simp: allocated_def in_set_conv_nth chunk_entry_bits)
    then show ?thesis by (simp add: free_count_def)
  qed
qed

lemma free_count_take: "free_run es s n \<Longrightarrow> free_count (overwrite es s (chunk_bytes n)) = free_count es - n"
  using free_count_overwrite [of s "chunk_bytes n" es] free_count_parts(1) [of n] free_count_parts(3) [of es s n]
  by (simp add: free_run_def)

lemma free_count_free:
  "allocated es s n \<Longrightarrow> free_count (overwrite es s (replicate n 0)) = free_count es + n"
  using free_count_overwrite [of s "replicate n 0" es] free_count_parts(2) [of n]
    free_count_parts(4) [of es s n]
  by (simp add: allocated_def)

lemma free_count_pos: "0 < free_count es \<longleftrightarrow> (\<exists>s. free_run es s 1)"
  by (force simp: free_count_def free_run_def filter_empty_conv in_set_conv_nth Suc_le_eq)

subsection \<open>The heap as an allocator\<close>

definition heap_inv :: "heap \<Rightarrow> bool" where
  "heap_inv h \<longleftrightarrow> unat (ht_total (heap_tbl h)) = length (ht_entries (heap_tbl h)) \<and>
     wf_entries (ht_entries (heap_tbl h)) \<and> 0 < unat (saddr h) \<and> unat (saddr h) mod 4096 = 0 \<and>
     unat (saddr h) + 4096 * length (ht_entries (heap_tbl h)) \<le> 2147483648"

definition block_addr :: "heap \<Rightarrow> nat \<Rightarrow> u32" where
  "block_addr h s = saddr h + of_nat (4096 * s)"

definition heap_live :: "heap \<Rightarrow> u32 \<Rightarrow> nat \<Rightarrow> bool" where
  "heap_live h p n \<longleftrightarrow> (\<exists>s. p = block_addr h s \<and> allocated (ht_entries (heap_tbl h)) s n)"

definition with_entries :: "heap \<Rightarrow> u8 list \<Rightarrow> heap" where
  "with_entries h es = h\<lparr>heap_tbl := (heap_tbl h)\<lparr>ht_entries := es\<rparr>\<rparr>"

lemma with_entries_simps [simp]:
  "ht_entries (heap_tbl (with_entries h es)) = es"
  "ht_total (heap_tbl (with_entries h es)) = ht_total (heap_tbl h)"
  "saddr (with_entries h es) = saddr h"
  "block_addr (with_entries h es) = block_addr h"
  "with_entries (with_entries h es) es' = with_entries h es'"
  "with_entries h (ht_entries (heap_tbl h)) = h"
  by (simp_all add: with_entries_def block_addr_def fun_eq_iff)

lemma heap_block_to_address_nat: "heap_block_to_address h (int s) = block_addr h s"
  by (simp add: heap_block_to_address_def block_addr_def mult.commute)

lemma unat_block_addr:
  "heap_inv h \<Longrightarrow> s \<le> length (ht_entries (heap_tbl h)) \<Longrightarrow>
     unat (block_addr h s) = unat (saddr h) + 4096 * s"
  unfolding block_addr_def heap_inv_def by (intro unat_plus_of_nat) simp

lemma block_addr_inj:
  "heap_inv h \<Longrightarrow> s \<le> length (ht_entries (heap_tbl h)) \<Longrightarrow> t \<le> length (ht_entries (heap_tbl h)) \<Longrightarrow>
     block_addr h s = block_addr h t \<longleftrightarrow> s = t"
  by (metis unat_block_addr add_left_cancel mult_left_cancel zero_neq_numeral)

lemma request_blocks:
  assumes "fair_request sz"
  shows "unat (heap_align_value_to_upper sz div MARROWOS_HEAP_BLOCK_SIZE) = blocks_of sz"
proof -
  define q r where "q = unat sz div 4096" and "r = unat sz mod 4096"
  then have sz: "unat sz = 4096 * q + r" and r: "r < 4096" by simp_all
  have mod: "unat (sz mod 4096) = r" by (simp add: unat_mod r_def)
  show ?thesis
  proof (cases "r = 0")
    case True
    with mod have "sz mod 4096 = 0" by (simp add: word_unat_eq_iff)
    moreover have "blocks_of sz = q" using sz True by (simp add: blocks_of_def)
    ultimately show ?thesis by (simp add: heap_align_value_to_upper_def unat_div q_def)
  next
    case False
    have "sz mod 4096 \<le> sz" using mod sz by (simp add: word_le_nat_alt)
    then have sub: "unat (sz - sz mod 4096) = 4096 * q" using mod sz by (simp add: unat_sub)
    have "q < 1048575" using assms sz False by (simp add: fair_request_def)
    with sub have "unat (sz - sz mod 4096 + 4096) = 4096 * q + 4096"
      using unat_plus_of_nat [of "sz - sz mod 4096" 4096] by simp
    moreover have "blocks_of sz = Suc q"
    proof -
      have "unat sz + 4095 = (r - 1) + 4096 * Suc q" using sz False by simp
      moreover have "(r - 1) div 4096 = 0" using r by simp
      ultimately show ?thesis unfolding blocks_of_def by (simp only: div_mult_self2)
    qed
    moreover have "sz mod 4096 \<noteq> 0" using mod False by (metis unat_0)
    ultimately show ?thesis by (simp add: heap_align_value_to_upper_def unat_div)
  qed
qed

lemma blocks_of_bound: "blocks_of sz \<le> 1048576"
  using unat_u32_bound [of sz] by (simp add: blocks_of_def)

lemma sint_small: "unat n < 2147483648 \<Longrightarrow> sint n = int (unat n)" for n :: u32
proof -
  assume "unat n < 2147483648"
  moreover have "uint n = int (unat n)" by (rule uint_nat)
  ultimately show ?thesis by (simp add: sint_u32 del: of_nat_unat)
qed

lemma heap_start_block_search:
  assumes inv: "heap_inv h" and n: "0 < unat n"
  shows "\<exists>r. search_result (ht_entries (heap_tbl h)) (unat n) r \<and>
     heap_get_start_block h n = Inr (if r = - 1 then - ENOMEM else r)"
  using heap_start_loop_result [OF scan_inv_init [OF n], of "ht_entries (heap_tbl h)"] inv
  by (auto simp: heap_get_start_block_def heap_inv_def)

lemma mark_taken_first_fit:
  assumes "free_run (ht_entries (heap_tbl h)) s n" "0 < n"
  shows "heap_mark_blocks_taken h (int s) (int n) =
    Inr (with_entries h (overwrite (ht_entries (heap_tbl h)) s (chunk_bytes n)))"
proof -
  have "(if int n > 1 then (0x01 OR 0x40) OR 0x80 else 0x01 OR 0x40) = chunk_entry n 0"
    using assms(2) by (auto simp: chunk_entry_def)
  with mark_taken_loop_run [of s n "ht_entries (heap_tbl h)" 0 "chunk_entry n 0"] assms show ?thesis
    by (auto simp: heap_mark_blocks_taken_def with_entries_def free_run_def chunk_entry_def)
qed

lemma mark_taken_overrun:
  assumes "s \<le> length (ht_entries (heap_tbl h))" "length (ht_entries (heap_tbl h)) < s + n"
  shows "heap_mark_blocks_taken h (int s) (int n) = Inl OutOfBounds"
  using mark_taken_loop_overrun [of s "ht_entries (heap_tbl h)" "int s + int n - 1"] assms
  by (simp add: heap_mark_blocks_taken_def Let_def)

lemma heap_malloc_blocks_cases:
  assumes inv: "heap_inv h" and n: "0 < unat n" "unat n < 2147483648"
  defines "es \<equiv> ht_entries (heap_tbl h)"
  shows "(\<exists>s. first_fit es (unat n) s \<and>
        heap_malloc_blocks h n = Inr (block_addr h s, with_entries h (overwrite es s (chunk_bytes (unat n)))))
    \<or> no_space es (unat n) \<and> heap_malloc_blocks h n = Inr (0, h)
    \<or> (\<exists>s. short_tail es (unat n) s \<and> heap_malloc_blocks h n = Inl OutOfBounds)"
proof -
  obtain r where r: "search_result es (unat n) r"
    and start: "heap_get_start_block h n = Inr (if r = - 1 then - ENOMEM else r)"
    using heap_start_block_search [OF inv n(1)] unfolding es_def by blast
  from r consider s where "r = int s" "first_fit es (unat n) s"
    | s where "r = int s" "short_tail es (unat n) s" | "r = - 1" "no_space es (unat n)"
    unfolding search_result_def by blast
  then show ?thesis
  proof cases
    case (1 s)
    with mark_taken_first_fit [of h s "unat n"] n start show ?thesis
      by (auto simp: heap_malloc_blocks_def sint_small heap_block_to_address_nat es_def first_fit_def)
  next
    case (2 s)
    with mark_taken_overrun [of s h "unat n"] n start show ?thesis
      by (auto simp: heap_malloc_blocks_def sint_small es_def short_tail_def)
  next
    case 3
    with start show ?thesis by (auto simp: heap_malloc_blocks_def)
  qed
qed

lemma heap_malloc_cases:
  assumes "heap_inv h" "fair_request sz"
  defines "es \<equiv> ht_entries (heap_tbl h)" and "n \<equiv> blocks_of sz"
  shows "(\<exists>s. first_fit es n s \<and> heap_malloc h sz =
        Inr (block_addr h s, with_entries h (overwrite es s (chunk_bytes n))))
    \<or> no_space es n \<and> heap_malloc h sz = Inr (0, h)
    \<or> (\<exists>s. short_tail es n s \<and> heap_malloc h sz = Inl OutOfBounds)"
proof -
  let ?k = "heap_align_value_to_upper sz div MARROWOS_HEAP_BLOCK_SIZE"
  have k: "unat ?k = n" using request_blocks [OF assms(2)] by (simp add: n_def)
  then have "0 < unat ?k" "unat ?k < 2147483648"
    using blocks_of_pos [OF assms(2)] blocks_of_bound [of sz] by (simp_all add: n_def)
  from heap_malloc_blocks_cases [OF assms(1) this] k show ?thesis
    by (simp add: heap_malloc_def Let_def es_def)
qed

lemma heap_inv_with_entries:
  assumes "heap_inv h" "length es = length (ht_entries (heap_tbl h))" "wf_entries es"
  shows "heap_inv (with_entries h es)"
  using assms by (simp add: heap_inv_def)

lemma heap_inv_take:
  assumes "heap_inv h" "free_run (ht_entries (heap_tbl h)) s n" "0 < n"
  shows "heap_inv (with_entries h (overwrite (ht_entries (heap_tbl h)) s (chunk_bytes n)))"
proof -
  have "s + length (chunk_bytes n) \<le> length (ht_entries (heap_tbl h))"
    using assms(2) by (simp add: free_run_def)
  with assms show ?thesis
    by (intro heap_inv_with_entries wf_after_take) (auto simp: heap_inv_def)
qed

lemma heap_live_take:
  assumes "heap_inv h" "free_run (ht_entries (heap_tbl h)) s n" "0 < n"
  shows "heap_live (with_entries h (overwrite (ht_entries (heap_tbl h)) s (chunk_bytes n))) q m
    \<longleftrightarrow> heap_live h q m \<or> q = block_addr h s \<and> m = n"
  using allocated_after_take [OF assms(2,3)] by (auto simp: heap_live_def)

lemma heap_address_to_block_addr:
  assumes "heap_inv h" "s \<le> length (ht_entries (heap_tbl h))"
  shows "heap_address_to_block h (block_addr h s) = int s"
proof -
  have "4096 * s < 2147483648" using assms by (auto simp: heap_inv_def)
  then have "sint (of_nat (4096 * s) :: u32) = int (4096 * s)"
    using unat_of_nat_u32 [of "4096 * s"] by (subst sint_small) (simp_all del: of_nat_mult)
  then show ?thesis
    by (simp add: heap_address_to_block_def block_addr_def signed_divide_int_def del: of_nat_mult)
      (simp add: sgn_if)
qed

lemma heap_free_allocated:
  assumes inv: "heap_inv h" and al: "allocated (ht_entries (heap_tbl h)) s n"
  shows "heap_free h (block_addr h s) =
    Inr (with_entries h (overwrite (ht_entries (heap_tbl h)) s (replicate n HEAP_BLOCK_TABLE_ENTRY_FREE)))"
proof -
  let ?es = "ht_entries (heap_tbl h)"
  have s: "s + n \<le> length ?es" "0 < n" using al by (simp_all add: allocated_def)
  have tot: "sint (ht_total (heap_tbl h)) = int (length ?es)"
    using inv by (subst sint_small) (auto simp: heap_inv_def)
  have "mark_free_loop ?es (int (s + 0)) (int (length ?es))
      = Inr (overwrite ?es (s + 0) (replicate (n - 0) HEAP_BLOCK_TABLE_ENTRY_FREE))"
    using s al by (intro mark_free_loop_chunk) (auto simp: allocated_def)
  then show ?thesis
    using heap_address_to_block_addr [OF inv, of s] s tot
    by (simp add: heap_free_def heap_mark_blocks_free_def with_entries_def)
qed

lemma heap_inv_free:
  assumes "heap_inv h" "allocated (ht_entries (heap_tbl h)) s n"
  shows "heap_inv (with_entries h (overwrite (ht_entries (heap_tbl h)) s (replicate n 0)))"
proof -
  have "s + length (replicate n (0 :: u8)) \<le> length (ht_entries (heap_tbl h))"
    using assms(2) by (simp add: allocated_def)
  with assms show ?thesis
    by (intro heap_inv_with_entries wf_after_free) (auto simp: heap_inv_def)
qed

lemma heap_live_free:
  assumes "heap_inv h" "allocated (ht_entries (heap_tbl h)) s n"
  shows "heap_live (with_entries h (overwrite (ht_entries (heap_tbl h)) s (replicate n 0))) q m
    \<longleftrightarrow> heap_live h q m \<and> q \<noteq> block_addr h s"
proof -
  have "s \<le> length (ht_entries (heap_tbl h))" using assms(2) by (simp add: allocated_def)
  moreover have "t \<le> length (ht_entries (heap_tbl h))"
    if "allocated (ht_entries (heap_tbl h)) t m" for t
    using that by (simp add: allocated_def)
  ultimately show ?thesis
    using allocated_after_free [OF assms(2)] block_addr_inj [OF assms(1)]
    by (auto simp: heap_live_def)
qed

text \<open>Zero blocks (a request of 0 bytes, or one whose rounding wraps) leave the table alone.\<close>

lemma heap_start_loop_any:
  "i \<le> length es \<Longrightarrow> - 1 \<le> bs \<Longrightarrow> \<exists>r. heap_start_loop es (length es) n i bc bs = Inr r \<and> - 1 \<le> r"
proof (induction "length es - i" arbitrary: i bc bs)
  case 0
  then show ?case by (simp add: heap_start_loop.simps [of es])
next
  case (Suc k)
  then have "i < length es" "k = length es - Suc i" by simp_all
  with Suc.hyps(1) [OF this(2)] Suc.prems show ?case
    by (simp add: heap_start_loop.simps [of es _ _ i] list_get_nat Let_def)
qed

lemma heap_malloc_blocks_0:
  assumes "heap_inv h" "n = 0"
  shows "\<exists>p. heap_malloc_blocks h n = Inr (p, h)"
proof -
  obtain r where "heap_get_start_block h n = Inr r" "r = - ENOMEM \<or> - 1 < r"
    using heap_start_loop_any [of 0 "ht_entries (heap_tbl h)" "- 1" n 0] assms(1)
    by (auto simp: heap_get_start_block_def heap_inv_def)
  moreover have "heap_mark_blocks_taken h r 0 = Inr h" for r
    by (simp add: heap_mark_blocks_taken_def mark_taken_loop.simps)
  ultimately show ?thesis using assms(2) by (auto simp: heap_malloc_blocks_def)
qed

lemma heap_malloc_unfair:
  assumes "heap_inv h" "\<not> fair_request sz"
  shows "\<exists>p. heap_malloc h sz = Inr (p, h)"
proof -
  have "heap_align_value_to_upper sz div MARROWOS_HEAP_BLOCK_SIZE = 0"
  proof (cases "unat sz = 0")
    case True
    then show ?thesis by (simp add: heap_align_value_to_upper_def unat_eq_zero)
  next
    case False
    with assms(2) have big: "4294963200 < unat sz" by (simp add: fair_request_def)
    define r where "r = unat sz - 4294963200"
    have r: "unat sz = 4294963200 + r" "0 < r" "r < 4096"
      using big unat_u32_bound [of sz] by (simp_all add: r_def)
    then have "unat sz mod 4096 = (r + 4096 * 1048575) mod 4096" by (simp add: add.commute)
    also have "\<dots> = r" using r(3) by (simp only: mod_mult_self2) simp
    finally have mod: "unat (sz mod 4096) = r" by (simp add: unat_mod)
    then have "unat (sz - sz mod 4096) = 4294963200"
      using r by (simp add: unat_sub word_le_nat_alt)
    then have "sz - sz mod 4096 = 4294963200" by (simp add: word_unat_eq_iff)
    moreover have "sz mod 4096 \<noteq> 0" using mod r by (metis unat_0 less_irrefl)
    ultimately show ?thesis by (simp add: heap_align_value_to_upper_def)
  qed
  with heap_malloc_blocks_0 [OF assms(1)] show ?thesis by (simp add: heap_malloc_def)
qed

lemma block_addr_apart:
  assumes "heap_inv h" "s + n \<le> t \<or> t + m \<le> s"
    "s + n \<le> length (ht_entries (heap_tbl h))" "t + m \<le> length (ht_entries (heap_tbl h))"
  shows "apart (block_addr h s) n (block_addr h t) m"
  using assms unat_block_addr [OF assms(1), of s] unat_block_addr [OF assms(1), of t]
  by (auto simp: apart_def)

lemma heap_live_bounds:
  assumes "heap_inv h" "heap_live h p n"
  shows "0 < n \<and> 0 < unat p \<and> unat p mod 4096 = 0 \<and> unat p + 4096 * n \<le> 2147483648"
proof -
  obtain s where s: "p = block_addr h s" "0 < n" "s + n \<le> length (ht_entries (heap_tbl h))"
    using assms(2) by (auto simp: heap_live_def allocated_def)
  with unat_block_addr [OF assms(1), of s] assms(1) show ?thesis
    by (auto simp: heap_inv_def)
qed

lemma heap_live_apart:
  assumes "heap_inv h" "heap_live h p n" "heap_live h q m"
  shows "p = q \<and> n = m \<or> apart p n q m"
proof -
  obtain s t where s: "p = block_addr h s" "allocated (ht_entries (heap_tbl h)) s n"
    and t: "q = block_addr h t" "allocated (ht_entries (heap_tbl h)) t m"
    using assms by (auto simp: heap_live_def)
  have len: "0 < n" "0 < m" "s + n \<le> length (ht_entries (heap_tbl h))"
      "t + m \<le> length (ht_entries (heap_tbl h))"
    using s t by (auto simp: allocated_def)
  show ?thesis
  proof (cases "t + m \<le> s \<or> s + n \<le> t")
    case True
    with block_addr_apart [OF assms(1) _ len(3,4)] s t show ?thesis by blast
  next
    case False
    with len obtain k where "s \<le> k" "k < s + n" "t \<le> k" "k < t + m"
      using intervals_meet by blast
    with allocated_overlap [OF s(2) t(2)] s t show ?thesis by blast
  qed
qed

lemma heap_malloc_success:
  assumes "heap_inv h" "fair_request sz" "heap_malloc h sz = Inr (p, h')" "p \<noteq> 0"
  obtains s where "first_fit (ht_entries (heap_tbl h)) (blocks_of sz) s" "p = block_addr h s"
    "h' = with_entries h (overwrite (ht_entries (heap_tbl h)) s (chunk_bytes (blocks_of sz)))"
  using heap_malloc_cases [OF assms(1,2)] assms(3,4) by auto

lemma heap_malloc_null:
  assumes "heap_inv h" "heap_malloc h sz = Inr (0, h')"
  shows "h' = h"
proof (cases "fair_request sz")
  case True
  have "block_addr h s \<noteq> 0" if "first_fit (ht_entries (heap_tbl h)) (blocks_of sz) s" for s
    using that unat_block_addr [OF assms(1), of s] assms(1)
    by (auto simp: first_fit_def free_run_def heap_inv_def word_unat_eq_iff)
  with heap_malloc_cases [OF assms(1) True] assms(2) show ?thesis by fastforce
next
  case False
  with heap_malloc_unfair [OF assms(1)] assms(2) show ?thesis by fastforce
qed

lemma heap_malloc_one_page:
  assumes "heap_inv h" "0 < free_count (ht_entries (heap_tbl h))" "0 < unat sz" "unat sz \<le> 4096"
  shows "\<exists>p h'. heap_malloc h sz = Inr (p, h') \<and> p \<noteq> 0 \<and>
    free_count (ht_entries (heap_tbl h')) = free_count (ht_entries (heap_tbl h)) - 1"
proof -
  let ?es = "ht_entries (heap_tbl h)"
  have fair: "fair_request sz" "blocks_of sz = 1"
    using assms(3,4) by (auto simp: fair_request_def blocks_of_def)
  obtain s0 where "free_run ?es s0 1" using assms(2) free_count_pos by blast
  then have "\<not> no_space ?es 1" "\<And>s. \<not> short_tail ?es 1 s"
    by (auto simp: no_space_def short_tail_def)
  with heap_malloc_cases [OF assms(1) fair(1)] fair obtain s where s: "first_fit ?es 1 s"
    and eq: "heap_malloc h sz = Inr (block_addr h s, with_entries h (overwrite ?es s (chunk_bytes 1)))"
    by auto
  from s have run: "free_run ?es s 1" by (simp add: first_fit_def)
  then have "unat (block_addr h s) \<noteq> 0"
    using unat_block_addr [OF assms(1), of s] assms(1) by (auto simp: free_run_def heap_inv_def)
  with eq free_count_take [OF run] show ?thesis by auto
qed

interpretation kheap_pages: page_allocator heap_inv heap_live heap_malloc heap_free
  "\<lambda>h. free_count (ht_entries (heap_tbl h))"
proof unfold_locales
  fix h sz p h' assume inv: "heap_inv h" and eq: "heap_malloc h sz = Inr (p, h')"
  show "heap_inv h'"
  proof (cases "fair_request sz \<and> p \<noteq> 0")
    case True
    with inv eq obtain s where "first_fit (ht_entries (heap_tbl h)) (blocks_of sz) s"
      "h' = with_entries h (overwrite (ht_entries (heap_tbl h)) s (chunk_bytes (blocks_of sz)))"
      by (auto elim: heap_malloc_success)
    with inv True blocks_of_pos show ?thesis by (auto intro: heap_inv_take simp: first_fit_def)
  next
    case False
    with heap_malloc_null [OF inv, of sz] heap_malloc_unfair [OF inv, of sz] eq inv show ?thesis by auto
  qed
next
  fix h sz p h' q n
  assume inv: "heap_inv h" and fair: "fair_request sz" and eq: "heap_malloc h sz = Inr (p, h')"
    and p: "p \<noteq> 0"
  from heap_malloc_success [OF inv fair eq p] obtain s where
    s: "first_fit (ht_entries (heap_tbl h)) (blocks_of sz) s" "p = block_addr h s"
      "h' = with_entries h (overwrite (ht_entries (heap_tbl h)) s (chunk_bytes (blocks_of sz)))" by blast
  then have run: "free_run (ht_entries (heap_tbl h)) s (blocks_of sz)" by (simp add: first_fit_def)
  from heap_live_take [OF inv run blocks_of_pos [OF fair]] s
  show "heap_live h' q n = (heap_live h q n \<or> q = p \<and> n = blocks_of sz)" by simp
  assume "heap_live h q n"
  then obtain t where t: "q = block_addr h t" "allocated (ht_entries (heap_tbl h)) t n"
    by (auto simp: heap_live_def)
  with allocated_apart_of_free [OF run t(2) blocks_of_pos [OF fair]] run s(2)
  show "apart p (blocks_of sz) q n"
    by (auto intro!: block_addr_apart [OF inv] simp: free_run_def allocated_def)
next
  fix h sz h' assume "heap_inv h" "heap_malloc h sz = Inr (0, h')"
  then show "heap_live h' = heap_live h" using heap_malloc_null by blast
next
  fix h p n assume inv: "heap_inv h" and live: "heap_live h p n"
  then obtain s where s: "p = block_addr h s" "allocated (ht_entries (heap_tbl h)) s n"
    by (auto simp: heap_live_def)
  show "\<exists>h'. heap_free h p = Inr h'" using heap_free_allocated [OF inv s(2)] s by simp
  fix h' assume eq: "heap_free h p = Inr h'"
  with heap_free_allocated [OF inv s(2)] s
  have h': "h' = with_entries h (overwrite (ht_entries (heap_tbl h)) s (replicate n 0))" by simp
  from heap_inv_free [OF inv s(2)] h' show "heap_inv h'" by simp
  from heap_live_free [OF inv s(2)] h' s(1)
  show "heap_live h' q m = (heap_live h q m \<and> q \<noteq> p)" for q m by simp
  from free_count_free [OF s(2)] h'
  show "free_count (ht_entries (heap_tbl h')) = free_count (ht_entries (heap_tbl h)) + n" by simp
qed (use heap_live_bounds heap_live_apart heap_malloc_one_page in \<open>blast+\<close>)

subsection \<open>Properties of the heap\<close>

text \<open>A heap of \<open>n\<close> free blocks at \<open>a\<close>; a heap of four blocks serves the examples.\<close>

definition fresh_heap :: "nat \<Rightarrow> u32 \<Rightarrow> heap" where
  "fresh_heap n a = \<lparr>heap_tbl = \<lparr>ht_entries = replicate n 0, ht_total = of_nat n\<rparr>, saddr = a\<rparr>"

lemma entry_free_0 [simp]: "entry_free 0"
  by (simp add: entry_free_def heap_get_entry_type_def)

lemma fresh_heap_inv:
  assumes "0 < unat a" "unat a mod 4096 = 0" "unat a + 4096 * n \<le> 2147483648"
  shows "heap_inv (fresh_heap n a)"
proof -
  have "unat (of_nat n :: u32) = n" using assms(3) by (intro unat_of_nat_u32) simp
  moreover have "wf_entries (replicate n 0)" by (simp add: wf_entries_def)
  ultimately show ?thesis using assms by (simp add: heap_inv_def fresh_heap_def)
qed

lemma fresh_heap_live: "\<not> heap_live (fresh_heap n a) p m"
proof
  assume "heap_live (fresh_heap n a) p m"
  then obtain s where al: "allocated (replicate n 0) s m"
    by (auto simp: heap_live_def fresh_heap_def)
  then have "replicate n 0 ! (s + 0) = chunk_entry m 0" "s < n"
    unfolding allocated_def by auto
  then show False using chunk_entry_bits(5) [of m 0] by simp
qed

lemma fresh_heap_free_count: "free_count (ht_entries (heap_tbl (fresh_heap n a))) = n"
  by (simp add: fresh_heap_def free_count_parts)

abbreviation four_blocks :: heap where "four_blocks \<equiv> fresh_heap 4 0x01000000"

lemma four_blocks_inv: "heap_inv four_blocks"
  by (rule fresh_heap_inv) simp_all

lemma four_blocks_malloc:
  "heap_malloc four_blocks 5000 = Inr (0x01000000, with_entries four_blocks [0xC1, 0x01, 0, 0])"
  by code_simp

text \<open>C4: \<open>heap_malloc\<close> has exactly three outcomes on a well-formed heap: the first run of enough
  free blocks, marked with the first/next bytes of the table and returned by address; NULL and an
  unchanged heap when there is none and the last block is taken; and, when there is none but the table ends in free
  blocks, a write past the end of the entry table.\<close>

theorem heap_malloc_outcomes:
  assumes "heap_inv h" "fair_request sz"
  shows "(\<exists>s. first_fit (ht_entries (heap_tbl h)) (blocks_of sz) s \<and> heap_malloc h sz =
        Inr (block_addr h s, with_entries h
          (overwrite (ht_entries (heap_tbl h)) s (chunk_bytes (blocks_of sz)))))
    \<or> no_space (ht_entries (heap_tbl h)) (blocks_of sz) \<and> heap_malloc h sz = Inr (0, h)
    \<or> (\<exists>s. short_tail (ht_entries (heap_tbl h)) (blocks_of sz) s \<and> heap_malloc h sz = Inl OutOfBounds)"
  using assms by (rule heap_malloc_cases)

lemma heap_malloc_outcomes_witness:
  "heap_malloc four_blocks 5000 = Inr (0x01000000, with_entries four_blocks [0xC1, 0x01, 0, 0])"
proof -
  have es: "ht_entries (heap_tbl four_blocks) = [0, 0, 0, 0]"
    by (simp add: fresh_heap_def numeral_eq_Suc)
  have n: "blocks_of 5000 = 2" "fair_request 5000" by (simp_all add: blocks_of_def fair_request_def)
  have run: "free_run [0, 0, 0, 0] 0 2" by (simp add: free_run_def nth_Cons' numeral_eq_Suc less_Suc_eq)
  then have "first_fit [0, 0, 0, 0] 2 s \<longleftrightarrow> s = 0" for s
    by (auto simp: first_fit_def)
  moreover have "\<not> no_space [0, 0, 0, 0] 2" "\<not> short_tail [0, 0, 0, 0] 2 s" for s
    using run by (auto simp: no_space_def short_tail_def)
  moreover have "chunk_bytes 2 = [0xC1, 0x01]"
    by (simp add: chunk_bytes_def chunk_entry_def numeral_2_eq_2)
  ultimately show ?thesis
    using heap_malloc_outcomes [OF four_blocks_inv n(2)] unfolding es n(1)
    by (simp add: overwrite_def block_addr_def fresh_heap_def)
qed

text \<open>C11: a successful \<open>heap_malloc\<close> adds one allocation to the live ones, of as many blocks as the
  request needs, page aligned, inside the pool, apart from every live allocation, and keeps the
  table well formed.\<close>

theorem heap_malloc_refines:
  assumes "heap_inv h" "fair_request sz" "heap_malloc h sz = Inr (p, h')" "p \<noteq> 0"
  shows "heap_inv h' \<and> unat sz \<le> 4096 * blocks_of sz \<and> unat p mod 4096 = 0 \<and>
    unat (saddr h) \<le> unat p \<and>
    unat p + 4096 * blocks_of sz \<le> unat (saddr h) + 4096 * length (ht_entries (heap_tbl h)) \<and>
    (\<forall>q n. heap_live h' q n = (heap_live h q n \<or> q = p \<and> n = blocks_of sz)) \<and>
    (\<forall>q n. heap_live h q n \<longrightarrow> apart p (blocks_of sz) q n)"
proof -
  obtain s where "free_run (ht_entries (heap_tbl h)) s (blocks_of sz)" "p = block_addr h s"
    using heap_malloc_success [OF assms] unfolding first_fit_def by metis
  moreover from this have "unat p = unat (saddr h) + 4096 * s"
    using unat_block_addr [OF assms(1), of s] by (simp add: free_run_def)
  moreover have "unat p mod 4096 = 0"
    using kheap_pages.live_bounds [OF kheap_pages.alloc_inv [OF assms(1,3)]
        kheap_pages.alloc_is_live [OF assms]] by simp
  ultimately show ?thesis
    using kheap_pages.alloc_inv [OF assms(1,3)] kheap_pages.alloc_live [OF assms]
      kheap_pages.alloc_fresh [OF assms] blocks_of_covers [of sz]
    by (auto simp: free_run_def)
qed


abbreviation two_taken :: heap where "two_taken \<equiv> with_entries four_blocks [0xC1, 0x01, 0, 0]"

lemma heap_malloc_refines_witness:
  "heap_live two_taken 0x01000000 2 \<and> heap_inv two_taken"
proof -
  have fair: "fair_request 5000" "blocks_of 5000 = 2" by (simp_all add: fair_request_def blocks_of_def)
  show ?thesis
    using heap_malloc_refines [OF four_blocks_inv fair(1) four_blocks_malloc] fair(2) by simp
qed

lemma heap_free_after_malloc:
  assumes "heap_inv h" "fair_request sz" "heap_malloc h sz = Inr (p, h')" "p \<noteq> 0"
  shows "heap_free h' p = Inr h"
proof -
  let ?es = "ht_entries (heap_tbl h)" and ?n = "blocks_of sz"
  obtain s where s: "first_fit ?es ?n s" "p = block_addr h s"
      "h' = with_entries h (overwrite ?es s (chunk_bytes ?n))"
    using heap_malloc_success [OF assms] by blast
  have run: "free_run ?es s ?n" using s(1) by (simp add: first_fit_def)
  have len: "s + ?n \<le> length ?es" using run by (simp add: free_run_def)
  have zero: "take ?n (drop s ?es) = replicate ?n 0"
    using assms(1) len run by (intro wf_free_run_zero) (auto simp: heap_inv_def)
  have "allocated (ht_entries (heap_tbl h')) s ?n"
    using s allocated_after_take [OF run blocks_of_pos [OF assms(2)]] by simp
  from heap_free_allocated [OF kheap_pages.alloc_inv [OF assms(1,3)] this] s
  have "heap_free h' p = Inr (with_entries h (overwrite (overwrite ?es s (chunk_bytes ?n)) s (replicate ?n 0)))"
    by simp
  also have "overwrite (overwrite ?es s (chunk_bytes ?n)) s (replicate ?n 0) = ?es"
    using len zero overwrite_same [of s ?n ?es] by (simp add: overwrite_overwrite)
  finally show ?thesis by simp
qed

text \<open>C14: a block obtained from \<open>heap_malloc\<close> and given to \<open>heap_free\<close> restores the heap exactly,
  every byte of the table included.\<close>

theorem heap_malloc_free_restores:
  assumes "heap_inv h" "fair_request sz" "heap_malloc h sz = Inr (p, h')" "p \<noteq> 0"
  shows "heap_free h' p = Inr h"
  by (rule heap_free_after_malloc [OF assms])

lemma heap_malloc_free_restores_witness: "heap_free two_taken 0x01000000 = Inr four_blocks"
proof -
  have fair: "fair_request 5000" by (simp add: fair_request_def)
  show ?thesis
    using heap_malloc_free_restores [OF four_blocks_inv fair four_blocks_malloc] by simp
qed

text \<open>C19: \<open>heap_free\<close> of a live allocation succeeds, removes that allocation and no other, gives
  back all its blocks and keeps the table well formed.\<close>

theorem heap_free_refines:
  assumes "heap_inv h" "heap_live h p n"
  shows "\<exists>h'. heap_free h p = Inr h' \<and> heap_inv h' \<and>
    (\<forall>q m. heap_live h' q m = (heap_live h q m \<and> q \<noteq> p)) \<and>
    free_count (ht_entries (heap_tbl h')) = free_count (ht_entries (heap_tbl h)) + n"
  using kheap_pages.free_ok [OF assms] kheap_pages.free_inv [OF assms] kheap_pages.free_live [OF assms]
    kheap_pages.free_avail [OF assms] by blast

lemma two_taken_live: "heap_inv two_taken" "heap_live two_taken 0x01000000 2"
proof -
  have fair: "fair_request 5000" "blocks_of 5000 = 2" by (simp_all add: fair_request_def blocks_of_def)
  then show "heap_live two_taken 0x01000000 2"
    using kheap_pages.alloc_is_live [OF four_blocks_inv fair(1) four_blocks_malloc] by simp
  show "heap_inv two_taken" using kheap_pages.alloc_inv [OF four_blocks_inv four_blocks_malloc] .
qed

lemma heap_free_refines_witness:
  "\<exists>h'. heap_free two_taken 0x01000000 = Inr h' \<and> \<not> heap_live h' 0x01000000 2"
  using heap_free_refines [OF two_taken_live] by blast

lemma heap_create_fresh:
  assumes "0 < unat a" "unat a mod 4096 = 0" "unat a + 4096 * n \<le> 2147483648" "length es = n"
  shows "heap_create h a (a + of_nat (4096 * n)) \<lparr>ht_entries = es, ht_total = of_nat n\<rparr>
    = Inr (0, fresh_heap n a)"
proof -
  have e: "unat (a + of_nat (4096 * n)) = unat a + 4096 * n"
    using assms(3) by (intro unat_plus_of_nat) simp
  have al: "heap_validate_alignment a" "heap_validate_alignment (a + of_nat (4096 * n))"
    using assms(2) e by (simp_all add: heap_validate_alignment_def word_unat_eq_iff unat_mod del: of_nat_mult)
  have n: "unat (of_nat n :: u32) = n" using assms(3) by (intro unat_of_nat_u32) simp
  have "unat (of_nat (4096 * n) :: u32) = 4096 * n" using assms(3) by (intro unat_of_nat_u32) simp
  then have "(of_nat (4096 * n) :: u32) div 4096 = of_nat n"
    by (simp add: word_unat_eq_iff unat_div n del: of_nat_mult)
  then have "heap_validate_table a (a + of_nat (4096 * n)) \<lparr>ht_entries = es, ht_total = of_nat n\<rparr> = 0"
    by (simp add: heap_validate_table_def Let_def del: of_nat_mult)
  then show ?thesis
    using al n assms(4) by (simp add: heap_create_def Let_def fresh_heap_def del: of_nat_mult)
qed

text \<open>On a pool whose bounds are block aligned and whose table has one entry per block,
  \<open>heap_create\<close> answers 0 and the heap is well formed, with every block free and nothing live,
  whatever bytes the table held.\<close>

theorem heap_create_all_free:
  assumes "0 < unat a" "unat a mod 4096 = 0" "unat a + 4096 * n \<le> 2147483648" "length es = n"
  shows "heap_create h a (a + of_nat (4096 * n)) \<lparr>ht_entries = es, ht_total = of_nat n\<rparr>
      = Inr (0, fresh_heap n a)
    \<and> heap_inv (fresh_heap n a) \<and> (\<forall>p m. \<not> heap_live (fresh_heap n a) p m)
    \<and> free_count (ht_entries (heap_tbl (fresh_heap n a))) = n"
  using heap_create_fresh [OF assms] fresh_heap_inv [OF assms(1-3)] fresh_heap_live fresh_heap_free_count by blast

lemma heap_create_all_free_witness:
  "heap_create two_taken 0x01000000 0x01004000 \<lparr>ht_entries = [7, 0, 0xFF, 1], ht_total = 4\<rparr>
     = Inr (0, four_blocks)"
  using heap_create_all_free [of "0x01000000" 4 "[7, 0, 0xFF, 1]" two_taken] by simp

text \<open>On a heap whose blocks are all free, a request for more blocks than there are does not
  return NULL: the search answers the start of the too short run and marking it writes past the entry table.\<close>

theorem heap_malloc_overrun:
  assumes "0 < unat a" "unat a mod 4096 = 0" "unat a + 4096 * n \<le> 2147483648" "0 < n"
    and "fair_request sz" "n < blocks_of sz"
  shows "heap_malloc (fresh_heap n a) sz = Inl OutOfBounds"
proof -
  have "\<not> free_run (replicate n 0) s (blocks_of sz)" for s
    using assms(6) by (simp add: free_run_def)
  then have "\<not> first_fit (replicate n 0) (blocks_of sz) s" "\<not> no_space (replicate n 0) (blocks_of sz)" for s
    using assms(4) by (auto simp: first_fit_def no_space_def)
  with heap_malloc_cases [OF fresh_heap_inv [OF assms(1-3)] assms(5)] show ?thesis
    by (auto simp: fresh_heap_def)
qed

lemma heap_malloc_overrun_witness: "heap_malloc four_blocks 20000 = Inl OutOfBounds"
  by (rule heap_malloc_overrun) (simp_all add: fair_request_def blocks_of_def)

text \<open>A request of 0 bytes, or of more than 4294963200 (whose rounding wraps), takes no block:
  the heap does not change, whatever address is returned.\<close>

theorem heap_malloc_takes_nothing:
  assumes "heap_inv h" "\<not> fair_request sz"
  shows "\<exists>p. heap_malloc h sz = Inr (p, h)"
  using assms by (rule heap_malloc_unfair)

lemma heap_malloc_takes_nothing_witness:
  "(\<exists>p. heap_malloc four_blocks 0 = Inr (p, four_blocks)) \<and>
   (\<exists>p. heap_malloc four_blocks 0xFFFFFFFF = Inr (p, four_blocks))"
  using heap_malloc_takes_nothing [OF four_blocks_inv, of 0]
    heap_malloc_takes_nothing [OF four_blocks_inv, of "0xFFFFFFFF"]
  by (simp add: fair_request_def)

end
