(* ===== verification/CString.thy ===== *)
theory CString
  imports CMem
begin

text \<open>
  The string routines of src/string/string.c. A \<open>char *\<close> that is read is the list of
  the bytes from the pointer to the end of its array; a \<open>char *\<close> that is written is the whole array
  with the pointer's offset. Reading or writing past the array is \<open>OutOfBounds\<close>, so each routine
  shows when its argument must be NUL-terminated or long enough. \<open>cstring b\<close> is the string that
  an array holds.
\<close>

subsection \<open>string.c\<close>

definition tolower :: "u8 \<Rightarrow> u8" where
  "tolower s1 = (if 65 \<le> s1 \<and> s1 \<le> 90 then s1 + 32 else s1)"

fun strlen_loop :: "int \<Rightarrow> u8 list \<Rightarrow> int res" where
  "strlen_loop i [] = Inl OutOfBounds"
| "strlen_loop i (c # ptr) = (if c \<noteq> 0 then strlen_loop (i + 1) ptr else Inr i)"

definition strlen :: "u8 list \<Rightarrow> int res" where
  "strlen ptr = strlen_loop 0 ptr"

function strnlen_loop :: "u8 list \<Rightarrow> int \<Rightarrow> int \<Rightarrow> int res" where
  "strnlen_loop ptr i mx =
     (if i < mx then
        bind_res (list_get ptr i) (\<lambda>c. if c = 0 then Inr i else strnlen_loop ptr (i + 1) mx)
      else Inr i)"
  by pat_completeness auto
termination
  by (relation "measure (\<lambda>(ptr, i, mx). nat (mx - i))") auto

declare strnlen_loop.simps [simp del]

definition strnlen :: "u8 list \<Rightarrow> int \<Rightarrow> int res" where
  "strnlen ptr mx = strnlen_loop ptr 0 mx"

definition isDigit :: "u8 \<Rightarrow> bool" where
  "isDigit c \<longleftrightarrow> 48 \<le> sint c \<and> sint c \<le> 57"

text \<open>\<open>while (n-- > 0)\<close>: the counter is the last argument.\<close>

fun istrncmp :: "u8 list \<Rightarrow> u8 list \<Rightarrow> nat \<Rightarrow> int res" where
  "istrncmp s1 s2 0 = Inr 0"
| "istrncmp (u1 # s1) (u2 # s2) (Suc n) =
     (if u1 \<noteq> u2 \<and> tolower u1 \<noteq> tolower u2 then Inr (uint u1 - uint u2)
      else if u1 = 0 then Inr 0
      else istrncmp s1 s2 n)"
| "istrncmp _ _ (Suc n) = Inl OutOfBounds"

fun strncmp :: "u8 list \<Rightarrow> u8 list \<Rightarrow> nat \<Rightarrow> int res" where
  "strncmp str1 str2 0 = Inr 0"
| "strncmp (u1 # str1) (u2 # str2) (Suc n) =
     (if u1 \<noteq> u2 then Inr (uint u1 - uint u2)
      else if u1 = 0 then Inr 0
      else strncmp str1 str2 n)"
| "strncmp _ _ (Suc n) = Inl OutOfBounds"

function strnlen_terminator_loop :: "u8 list \<Rightarrow> int \<Rightarrow> int \<Rightarrow> u8 \<Rightarrow> int res" where
  "strnlen_terminator_loop str i mx terminator =
     (if i < mx then
        bind_res (list_get str i) (\<lambda>c.
          if c = 0 \<or> c = terminator then Inr i
          else strnlen_terminator_loop str (i + 1) mx terminator)
      else Inr i)"
  by pat_completeness auto
termination
  by (relation "measure (\<lambda>(str, i, mx, t). nat (mx - i))") auto

declare strnlen_terminator_loop.simps [simp del]

definition strnlen_terminator :: "u8 list \<Rightarrow> int \<Rightarrow> u8 \<Rightarrow> int res" where
  "strnlen_terminator str mx terminator = strnlen_terminator_loop str 0 mx terminator"

text \<open>\<open>strcpy(dest + off, src)\<close>; the result is the array \<open>dest\<close> afterwards.\<close>

fun strcpy :: "u8 list \<Rightarrow> int \<Rightarrow> u8 list \<Rightarrow> u8 list res" where
  "strcpy dest off [] = Inl OutOfBounds"
| "strcpy dest off (c # src) =
     (if c \<noteq> 0 then bind_res (list_set dest off c) (\<lambda>dest. strcpy dest (off + 1) src)
      else list_set dest off 0)"

text \<open>\<open>strncpy(dest + off, src, count)\<close>: at most \<open>count - 1\<close> bytes, then a NUL.\<close>

function strncpy_loop :: "u8 list \<Rightarrow> int \<Rightarrow> u8 list \<Rightarrow> int \<Rightarrow> int \<Rightarrow> u8 list res" where
  "strncpy_loop dest off src i count =
     (if i < count - 1 then
        bind_res (list_get src i) (\<lambda>c.
          if c = 0 then list_set dest (off + i) 0
          else bind_res (list_set dest (off + i) c)
                 (\<lambda>dest. strncpy_loop dest off src (i + 1) count))
      else list_set dest (off + i) 0)"
  by pat_completeness auto
termination
  by (relation "measure (\<lambda>(dest, off, src, i, count). nat (count - 1 - i))") auto

declare strncpy_loop.simps [simp del]

definition strncpy :: "u8 list \<Rightarrow> int \<Rightarrow> u8 list \<Rightarrow> int \<Rightarrow> u8 list res" where
  "strncpy dest off src count = strncpy_loop dest off src 0 count"

definition tonumericdigit :: "u8 \<Rightarrow> int" where
  "tonumericdigit c = sint c - 48"

subsection \<open>The string an array holds\<close>

definition cstring :: "u8 list \<Rightarrow> u8 list" where
  "cstring b = takeWhile (\<lambda>c. c \<noteq> 0) b"

text \<open>String literals of the source: ASCII bytes and the NUL.\<close>

definition c_literal :: "string \<Rightarrow> u8 list" where
  "c_literal s = map (\<lambda>c. of_nat (of_char c)) s @ [0]"

lemma cstring_simps [simp]:
  "cstring [] = []" "cstring (c # b) = (if c = 0 then [] else c # cstring b)"
  by (simp_all add: cstring_def)

lemma cstring_no_nul: "0 \<notin> set (cstring b)"
  by (auto simp: cstring_def dest: set_takeWhileD)

lemma cstring_append_nul: "0 \<notin> set s \<Longrightarrow> cstring (s @ 0 # r) = s"
  by (induction s) auto

lemma cstring_length: "length (cstring b) \<le> length b"
  by (simp add: cstring_def length_takeWhile_le)

lemma cstring_terminated_less: "0 \<in> set b \<Longrightarrow> length (cstring b) < length b"
  by (induction b) auto

lemma strlen_loop_eq:
  "strlen_loop i b = (if 0 \<in> set b then Inr (i + int (length (cstring b))) else Inl OutOfBounds)"
  by (induction i b rule: strlen_loop.induct) auto

lemma strlen_eq:
  "strlen b = (if 0 \<in> set b then Inr (int (length (cstring b))) else Inl OutOfBounds)"
  by (simp add: strlen_def strlen_loop_eq)

lemma strnlen_loop_eq:
  assumes "i \<le> length b" "int (length b) \<ge> mx \<or> 0 \<in> set (drop i b)" "int i \<le> mx"
  shows "strnlen_loop b (int i) mx = Inr (min mx (int i + int (length (cstring (drop i b)))))"
  using assms
proof (induction "length b - i" arbitrary: i)
  case 0
  then show ?case by (simp add: strnlen_loop.simps [of b])
next
  case (Suc k)
  then have i: "i < length b" and k: "k = length b - Suc i" by simp_all
  have d: "drop i b = b ! i # drop (Suc i) b" using i by (rule Cons_nth_drop_Suc [symmetric])
  show ?case
  proof (cases "int i < mx \<and> b ! i \<noteq> 0")
    case True
    then have "strnlen_loop b (int i) mx = strnlen_loop b (int (Suc i)) mx"
      using i by (simp add: strnlen_loop.simps [of b "int i"] list_get_nat add.commute)
    also have "\<dots> = Inr (min mx (int (Suc i) + int (length (cstring (drop (Suc i) b)))))"
      using True Suc.prems i d by (intro Suc.hyps(1) [OF k]) auto
    finally show ?thesis using True d by simp
  next
    case False
    then show ?thesis
      using Suc.prems i d by (auto simp: strnlen_loop.simps [of b "int i"] list_get_nat)
  qed
qed

lemma strnlen_eq:
  "0 \<le> mx \<Longrightarrow> 0 \<in> set b \<or> mx \<le> int (length b) \<Longrightarrow>
     strnlen b mx = Inr (min mx (int (length (cstring b))))"
  using strnlen_loop_eq [of 0 b mx] by (auto simp: strnlen_def)

subsection \<open>Copies\<close>

lemma strcpy_fits:
  assumes "0 \<in> set src" "off + length (cstring src) < length dest"
  shows "strcpy dest (int off) src = Inr (overwrite dest off (cstring src @ [0]))"
  using assms
proof (induction src arbitrary: dest off)
  case Nil
  then show ?case by simp
next
  case (Cons c src)
  show ?case
  proof (cases "c = 0")
    case True
    with Cons.prems show ?thesis
      by (auto simp: list_set_nat overwrite_single)
  next
    case False
    with Cons.prems have "strcpy dest (int off) (c # src) = strcpy (dest[off := c]) (int (Suc off)) src"
      by (simp add: list_set_nat add.commute)
    also have "\<dots> = Inr (overwrite (dest[off := c]) (Suc off) (cstring src @ [0]))"
      using Cons.prems False by (intro Cons.IH) auto
    also have "overwrite (dest[off := c]) (Suc off) (cstring src @ [0])
        = overwrite dest off (cstring (c # src) @ [0])"
      using Cons.prems False by (simp add: overwrite_step)
    finally show ?thesis .
  qed
qed

lemma strcpy_overflows:
  assumes "off \<le> length dest" "length dest \<le> off + length (cstring src)"
  shows "strcpy dest (int off) src = Inl OutOfBounds"
  using assms
proof (induction src arbitrary: dest off)
  case Nil
  then show ?case by simp
next
  case (Cons c src)
  show ?case
  proof (cases "c \<noteq> 0 \<and> off < length dest")
    case True
    with Cons.IH [of "Suc off" "dest[off := c]"] Cons.prems show ?thesis
      by (simp add: list_set_nat add.commute)
  next
    case False
    with Cons.prems show ?thesis by (auto simp: list_set_oob split: if_splits)
  qed
qed

lemma strncpy_loop_fits:
  assumes "i \<le> length src" "int i < count \<or> count = 1 \<and> i = 0"
    and "0 \<in> set (drop i src) \<or> count - 1 \<le> int (length src)"
    and "xs = take (nat (count - 1) - i) (cstring (drop i src))"
    and "off + i + length xs < length dest"
  shows "strncpy_loop dest (int off) src (int i) count = Inr (overwrite dest (off + i) (xs @ [0]))"
  using assms
proof (induction "length src - i" arbitrary: i dest xs)
  case 0
  then show ?case
    by (auto simp: strncpy_loop.simps [of dest] list_set_def nat_int_add
        intro!: nth_equalityI simp: nth_overwrite nth_list_update)
next
  case (Suc k)
  then have i: "i < length src" and k: "k = length src - Suc i" by simp_all
  have d: "drop i src = src ! i # drop (Suc i) src" using i by (rule Cons_nth_drop_Suc [symmetric])
  show ?case
  proof (cases "int i < count - 1 \<and> src ! i \<noteq> 0")
    case True
    define ys where "ys = take (nat (count - 1) - Suc i) (cstring (drop (Suc i) src))"
    have "\<not> nat count \<le> Suc i" using True by (simp add: nat_le_iff)
    then have xs: "xs = src ! i # ys"
      using True Suc.prems(4) d by (simp add: ys_def take_Cons' Suc_diff_Suc nat_diff_distrib)
    have "strncpy_loop dest (int off) src (int i) count
        = strncpy_loop (dest[off + i := src ! i]) (int off) src (int (Suc i)) count"
      using True i Suc.prems xs
      by (simp add: strncpy_loop.simps [of dest] list_get_nat list_set_def nat_int_add add.commute)
    also have "\<dots> = Inr (overwrite (dest[off + i := src ! i]) (off + Suc i) (ys @ [0]))"
      using True Suc.prems i d xs by (intro Suc.hyps(1) [OF k]) (auto simp: ys_def)
    also have "overwrite (dest[off + i := src ! i]) (off + Suc i) (ys @ [0])
        = overwrite dest (off + i) (xs @ [0])"
      using Suc.prems(5) xs by (simp add: overwrite_step)
    finally show ?thesis .
  next
    case False
    then have "xs = []" using Suc.prems(4) d by auto
    moreover have "list_set dest (int off + int i) 0 = Inr (dest[off + i := 0])"
      using Suc.prems(5) list_set_nat [of "off + i" dest 0] by simp
    moreover have "off + i < length dest" using Suc.prems(5) by simp
    ultimately show ?thesis using False i
      by (simp add: strncpy_loop.simps [of dest] list_get_nat overwrite_single)
  qed
qed

lemma strncpy_fits:
  assumes "1 \<le> count" "0 \<in> set src \<or> count - 1 \<le> int (length src)"
    and "off + min (nat (count - 1)) (length (cstring src)) < length dest"
  shows "strncpy dest (int off) src count
    = Inr (overwrite dest off (take (nat (count - 1)) (cstring src) @ [0]))"
  using strncpy_loop_fits [of 0 src count _ off dest] assms
  by (simp add: strncpy_def min.commute)

text \<open>What the string at \<open>dest + off\<close> is after a copy that fits.\<close>

lemma cstring_overwrite:
  assumes "0 \<notin> set s" "off + length s < length dest"
  shows "cstring (drop off (overwrite dest off (s @ [0]))) = s"
  using assms cstring_append_nul [OF assms(1)] by (simp add: overwrite_def)

subsection \<open>Comparisons\<close>

lemma tolower_0 [simp]: "tolower 0 = 0" "tolower c = 0 \<longleftrightarrow> c = 0"
proof -
  show "tolower 0 = 0" by (simp add: tolower_def)
  have "c + 32 \<noteq> 0" if "c \<le> 90"
  proof
    assume "c + 32 = 0"
    then have "c = - 32" by (simp only: eq_neg_iff_add_eq_0)
    with that show False by simp
  qed
  then show "tolower c = 0 \<longleftrightarrow> c = 0" by (auto simp: tolower_def)
qed

lemma istrncmp_eq_0:
  assumes "0 \<in> set a" "0 \<in> set b"
  shows "istrncmp a b n = Inr 0 \<longleftrightarrow> map tolower (take n (cstring a)) = map tolower (take n (cstring b))"
  using assms
proof (induction a b n rule: istrncmp.induct)
  case (2 u1 s1 u2 s2 n)
  then show ?case by (cases "u1 = 0"; cases "u2 = 0") (auto simp: word_uint_eq_iff [symmetric] uint_0_iff)
qed auto

lemma istrncmp_total: "0 \<in> set a \<Longrightarrow> 0 \<in> set b \<Longrightarrow> \<exists>r. istrncmp a b n = Inr r"
  by (induction a b n rule: istrncmp.induct) auto

lemma strncmp_eq_0:
  assumes "0 \<in> set a" "0 \<in> set b"
  shows "strncmp a b n = Inr 0 \<longleftrightarrow> take n (cstring a) = take n (cstring b)"
  using assms
proof (induction a b n rule: strncmp.induct)
  case (2 u1 s1 u2 s2 n)
  then show ?case by (cases "u1 = 0"; cases "u2 = 0") (auto simp: word_uint_eq_iff [symmetric] uint_0_iff)
qed auto

subsection \<open>Properties of the string routines\<close>

text \<open>\<open>strncpy\<close> with a bound of at least 1 and room in the destination writes the first
  \<open>count - 1\<close> characters of the source string and a NUL, nothing else: afterwards the
  destination holds exactly that string.\<close>

theorem strncpy_truncates:
  assumes "1 \<le> count" "0 \<in> set src" "off + min (nat (count - 1)) (length (cstring src)) < length dest"
  shows "\<exists>d. strncpy dest (int off) src count = Inr d \<and> length d = length dest \<and>
    cstring (drop off d) = take (nat (count - 1)) (cstring src) \<and>
    take off d = take off dest \<and>
    (\<forall>k. off + min (nat (count - 1)) (length (cstring src)) < k \<and> k < length dest \<longrightarrow> d ! k = dest ! k)"
proof -
  let ?s = "take (nat (count - 1)) (cstring src)"
  let ?d = "overwrite dest off (?s @ [0])"
  have room: "off + length ?s < length dest" using assms(3) by (simp add: min.commute)
  have "0 \<notin> set ?s" using cstring_no_nul [of src] in_set_takeD by metis
  from cstring_overwrite [OF this room] have "cstring (drop off ?d) = ?s" .
  moreover have "strncpy dest (int off) src count = Inr ?d"
    using assms by (intro strncpy_fits) auto
  moreover have "length ?d = length dest" "take off ?d = take off dest"
    using room by (simp_all add: overwrite_def)
  moreover have "?d ! k = dest ! k"
    if "off + min (nat (count - 1)) (length (cstring src)) < k" "k < length dest" for k
    using that room by (subst nth_overwrite) (auto simp: min.commute)
  ultimately show ?thesis by blast
qed

lemma strncpy_truncates_witness:
  "\<exists>d. strncpy (replicate 8 0xFF) (int 1) (c_literal ''marrow'') 4 = Inr d \<and>
     cstring (drop 1 d) = [109, 97, 114] \<and> d ! 7 = 0xFF"
proof -
  have s: "cstring (c_literal ''marrow'') = [109, 97, 114, 114, 111, 119]" "0 \<in> set (c_literal ''marrow'')"
    by (simp_all add: c_literal_def)
  show ?thesis
    using strncpy_truncates [of 4 "c_literal ''marrow''" 1 "replicate 8 0xFF"] s
    by (auto simp: numeral_eq_Suc)
qed

text \<open>\<open>strcpy\<close> stays inside the destination exactly when the string and its NUL fit; otherwise
  it writes past the array's end.\<close>

theorem strcpy_in_bounds:
  assumes "0 \<in> set src" "off \<le> length dest"
  shows "strcpy dest (int off) src =
    (if off + length (cstring src) < length dest
     then Inr (take off dest @ cstring src @ [0] @ drop (off + length (cstring src) + 1) dest)
     else Inl OutOfBounds)"
  using strcpy_fits [OF assms(1), of off dest] strcpy_overflows [OF assms(2), of src]
  by (simp add: overwrite_def)

lemma strcpy_in_bounds_witness:
  "strcpy [1, 2, 3, 4] (int 1) [97, 98, 0] = Inr [1, 97, 98, 0] \<and>
   strcpy [1, 2, 3, 4] (int 2) [97, 98, 0] = Inl OutOfBounds"
  using strcpy_in_bounds [of "[97, 98, 0]" 1 "[1, 2, 3, 4]"]
    strcpy_in_bounds [of "[97, 98, 0]" 2 "[1, 2, 3, 4]"] by simp

text \<open>\<open>istrncmp\<close> on terminated strings always answers, and answers 0 exactly when the first
  \<open>n\<close> characters agree up to ASCII case.\<close>

theorem istrncmp_ignores_case:
  assumes "0 \<in> set a" "0 \<in> set b"
  shows "\<exists>r. istrncmp a b n = Inr r \<and>
    (r = 0) = (map tolower (take n (cstring a)) = map tolower (take n (cstring b)))"
  using istrncmp_total [OF assms, of n] istrncmp_eq_0 [OF assms, of n] by auto

lemma istrncmp_ignores_case_witness:
  "istrncmp (c_literal ''HELLO.TXT'') (c_literal ''hello.txt'') 108 = Inr 0"
  using istrncmp_ignores_case [of "c_literal ''HELLO.TXT''" "c_literal ''hello.txt''" 108]
  by (simp add: c_literal_def tolower_def)

end
