(* ===== verification/Terminal.thy ===== *)
theory Terminal
  imports CString
begin

text \<open>
  The text terminal of src/kernel.c. The state is the memory of the text adapter that \<open>video_mem\<close> points to and the globals \<open>terminal_row\<close>
  and \<open>terminal_col\<close>. The adapter answers the addresses 0xB8000 to 0xBFFFF, which are 16384 cells of 16 bits and none of the machine's RAM.
  The code computes the index of a cell without looking at a bound and never scrolls: a write outside these cells is the fault
  \<open>OutOfBounds\<close>. \<open>terminal_writechar\<close> and \<open>terminal_backspace\<close> call each other as they do in the source.
\<close>

abbreviation (input) VGA_WIDTH :: int where "VGA_WIDTH \<equiv> 80"
abbreviation (input) VGA_HEIGHT :: int where "VGA_HEIGHT \<equiv> 20"
abbreviation (input) VIDEO_CELLS :: int where "VIDEO_CELLS \<equiv> 16384"

record tstate =
  video_mem :: "int \<Rightarrow> u16" \<comment> \<open>read and written at 0, ..., 16383 only\<close>
  terminal_row :: u16
  terminal_col :: u16

text \<open>\<open>(color << 8) | c\<close> on promoted \<open>char\<close>s, which are signed on this target.\<close>

definition terminal_make_char :: "u8 \<Rightarrow> u8 \<Rightarrow> u16" where
  "terminal_make_char c color = push_bit 8 (scast color) OR scast c"

definition terminal_putchar :: "int \<Rightarrow> int \<Rightarrow> u8 \<Rightarrow> u8 \<Rightarrow> 'a tstate_scheme \<Rightarrow> 'a tstate_scheme res" where
  "terminal_putchar x y c color s =
     (let i = y * VGA_WIDTH + x
      in if 0 \<le> i \<and> i < VIDEO_CELLS then Inr (s\<lparr>video_mem := (video_mem s)(i := terminal_make_char c color)\<rparr>)
         else Inl OutOfBounds)"

function (sequential) terminal_writechar :: "u8 \<Rightarrow> u8 \<Rightarrow> 'a tstate_scheme \<Rightarrow> 'a tstate_scheme res"
  and terminal_backspace :: "'a tstate_scheme \<Rightarrow> 'a tstate_scheme res" where
  "terminal_writechar c color s =
     (if c = 10 then Inr (s\<lparr>terminal_row := terminal_row s + 1, terminal_col := 0\<rparr>)
      else if c = 8 then terminal_backspace s
      else
        bind_res (terminal_putchar (uint (terminal_col s)) (uint (terminal_row s)) c color s) (\<lambda>s.
          let s = s\<lparr>terminal_col := terminal_col s + 1\<rparr>
          in if VGA_WIDTH \<le> uint (terminal_col s)
             then Inr (s\<lparr>terminal_col := 0, terminal_row := terminal_row s + 1\<rparr>) else Inr s))"
| "terminal_backspace s =
     (if terminal_row s = 0 \<and> terminal_col s = 0 then Inr s
      else
        let s = (if terminal_col s = 0
                 then s\<lparr>terminal_row := terminal_row s - 1, terminal_col := 80\<rparr> else s);
            s = s\<lparr>terminal_col := terminal_col s - 1\<rparr>
        in bind_res (terminal_writechar 32 15 s) (\<lambda>s. Inr (s\<lparr>terminal_col := terminal_col s - 1\<rparr>)))"
  by pat_completeness auto
termination
  by (relation "measure (case_sum (\<lambda>(c, color, s). if c = 8 then 2 else 0) (\<lambda>s. 1))") auto

declare terminal_writechar.simps [simp del] terminal_backspace.simps [simp del]

text \<open>The two nested clearing loops of \<open>terminal_initialize\<close>, with the number of rounds left.\<close>

fun clear_row_loop :: "int \<Rightarrow> int \<Rightarrow> nat \<Rightarrow> 'a tstate_scheme \<Rightarrow> 'a tstate_scheme res" where
  "clear_row_loop y x 0 s = Inr s"
| "clear_row_loop y x (Suc n) s = bind_res (terminal_putchar x y 32 0 s) (clear_row_loop y (x + 1) n)"

fun clear_loop :: "int \<Rightarrow> nat \<Rightarrow> 'a tstate_scheme \<Rightarrow> 'a tstate_scheme res" where
  "clear_loop y 0 s = Inr s"
| "clear_loop y (Suc n) s = bind_res (clear_row_loop y 0 (nat VGA_WIDTH) s) (clear_loop (y + 1) n)"

definition terminal_initialize :: "'a tstate_scheme \<Rightarrow> 'a tstate_scheme res" where
  "terminal_initialize s = clear_loop 0 (nat VGA_HEIGHT) (s\<lparr>terminal_row := 0, terminal_col := 0\<rparr>)"

text \<open>\<open>for (int i = 0; i < len; i++) terminal_writechar(str[i], 15);\<close>\<close>

fun print_loop :: "u8 list \<Rightarrow> int \<Rightarrow> nat \<Rightarrow> 'a tstate_scheme \<Rightarrow> 'a tstate_scheme res" where
  "print_loop str i 0 s = Inr s"
| "print_loop str i (Suc n) s =
     bind_res (list_get str i) (\<lambda>c. bind_res (terminal_writechar c 15 s) (print_loop str (i + 1) n))"

definition print :: "u8 list \<Rightarrow> 'a tstate_scheme \<Rightarrow> 'a tstate_scheme res" where
  "print str s = bind_res (strlen str) (\<lambda>len. print_loop str 0 (nat len) s)"

text \<open>\<open>panic\<close> prints and then loops for ever.\<close>

definition panic :: "string \<Rightarrow> 'a res" where
  "panic msg = Inl (Panic msg)"

subsection \<open>The cursor\<close>

definition on_screen :: "'a tstate_scheme \<Rightarrow> bool" where
  "on_screen s \<longleftrightarrow> uint (terminal_col s) < VGA_WIDTH"

text \<open>The cursor as a position in the stream of cells.\<close>

definition cursor :: "'a tstate_scheme \<Rightarrow> int" where
  "cursor s = uint (terminal_row s) * VGA_WIDTH + uint (terminal_col s)"

lemma uint_plus1_u16: "uint a < 65535 \<Longrightarrow> uint (a + 1) = uint a + 1" for a :: u16
  by (simp add: uint_word_ariths)

lemma uint_minus1_u16: "0 < uint a \<Longrightarrow> uint (a - 1) = uint a - 1" for a :: u16
  using uint_bounded [of a] by (simp add: uint_word_ariths)

lemma writechar_plain:
  assumes "c \<noteq> 10" "c \<noteq> 8" "on_screen s" "cursor s < VIDEO_CELLS"
  obtains s' where "terminal_writechar c color s = Inr s'" "cursor s' = cursor s + 1" "on_screen s'"
    "video_mem s' = (video_mem s)(cursor s := terminal_make_char c color)"
proof -
  have "0 \<le> uint (terminal_col s)" "0 \<le> uint (terminal_row s)" by simp_all
  then have "uint (terminal_row s) < 65535" "uint (terminal_col s) < 65535" "0 \<le> cursor s"
    using assms(3,4) unfolding cursor_def on_screen_def by linarith+
  then show ?thesis
    using assms by (intro that [of "if uint (terminal_col s) = 79
        then s\<lparr>video_mem := (video_mem s)(cursor s := terminal_make_char c color), terminal_col := 0, terminal_row := terminal_row s + 1\<rparr>
        else s\<lparr>video_mem := (video_mem s)(cursor s := terminal_make_char c color), terminal_col := terminal_col s + 1\<rparr>"])
      (auto simp: terminal_writechar.simps [of c] terminal_putchar_def cursor_def on_screen_def Let_def uint_plus1_u16)
qed

lemma writechar_newline:
  "terminal_writechar 10 color s = Inr (s\<lparr>terminal_row := terminal_row s + 1, terminal_col := 0\<rparr>)"
  by (simp add: terminal_writechar.simps [of 10])

lemma space_is_plain: "(32 :: u8) \<noteq> 8" "(32 :: u8) \<noteq> 10"
  by simp_all

lemma backspace_inside:
  assumes "on_screen s" "0 < uint (terminal_col s)" "cursor s \<le> VIDEO_CELLS"
  shows "terminal_writechar 8 color s = Inr (s\<lparr>
      video_mem := (video_mem s)(cursor s - 1 := terminal_make_char 32 15), terminal_col := terminal_col s - 1\<rparr>)"
proof -
  have col: "terminal_col s \<noteq> 0" using assms(2) by auto
  have u: "uint (terminal_col s - 1) = uint (terminal_col s) - 1"
    using assms(2) by (rule uint_minus1_u16)
  have lt: "uint (terminal_col s) < 80" using assms(1) by (simp add: on_screen_def)
  have "0 \<le> uint (terminal_row s)" by simp
  then have "0 \<le> cursor s - 1" using assms(2) unfolding cursor_def by linarith
  then show ?thesis
    using col u lt assms(3)
    by (simp add: terminal_writechar.simps [of 8] terminal_backspace.simps [of s]
        terminal_writechar.simps [of 32] Let_def terminal_putchar_def cursor_def space_is_plain
        add_diff_eq)
qed

lemma backspace_line_start:
  assumes "terminal_col s = 0" "terminal_row s \<noteq> 0" "cursor s \<le> VIDEO_CELLS"
  shows "terminal_writechar 8 color s = Inr (s\<lparr>
    video_mem := (video_mem s)(cursor s - 1 := terminal_make_char 32 15), terminal_col := 65535\<rparr>)"
proof -
  have pos: "0 < uint (terminal_row s)"
    using assms(2) uint_bounded [of "terminal_row s"] by (simp add: less_le uint_0_iff)
  then have "uint (terminal_row s - 1) = uint (terminal_row s) - 1" by (rule uint_minus1_u16)
  with assms pos show ?thesis
    by (simp add: terminal_writechar.simps [of 8] terminal_backspace.simps [of s]
        terminal_writechar.simps [of 32] Let_def terminal_putchar_def cursor_def space_is_plain
        left_diff_distrib)
qed

subsection \<open>Properties of the terminal\<close>

text \<open>The characters of a string one after the other.\<close>

fun writechars :: "u8 list \<Rightarrow> 'a tstate_scheme \<Rightarrow> 'a tstate_scheme res" where
  "writechars [] s = Inr s"
| "writechars (c # cs) s = bind_res (terminal_writechar c 15 s) (writechars cs)"

lemma writechars_append: "writechars (xs @ ys) s = bind_res (writechars xs s) (writechars ys)"
  by (induction xs arbitrary: s) (auto simp: bind_res_assoc intro!: arg_cong [where f = "bind_res _"])

lemma print_loop_writechars:
  fixes s :: "'a tstate_scheme"
  shows "i + length w \<le> length str \<Longrightarrow> take (length w) (drop i str) = w \<Longrightarrow> print_loop str (int i) (length w) s = writechars w s"
proof (induction w arbitrary: i s)
  case (Cons c w)
  have "drop i str = str ! i # drop (Suc i) str" using Cons.prems(1) by (intro Cons_nth_drop_Suc [symmetric]) simp
  then have c: "str ! i = c" "take (length w) (drop (Suc i) str) = w" using Cons.prems(2) by simp_all
  have "list_get str (int i) = Inr c" using Cons.prems(1) c(1) by (simp add: access_simps)
  moreover have "print_loop str (int (Suc i)) (length w) u = writechars w u" for u :: "'a tstate_scheme"
    using Cons.prems(1) c(2) by (intro Cons.IH) simp_all
  then have "print_loop str (int i + 1) (length w) = (writechars w :: 'a tstate_scheme \<Rightarrow> _)" by (intro ext) (simp add: ac_simps)
  ultimately show ?case by simp
qed simp

lemma print_writechars:
  assumes "0 \<in> set str"
  shows "print str s = writechars (cstring str) s"
proof -
  have "take (length (cstring str)) (drop 0 str) = cstring str" unfolding cstring_def by (simp flip: takeWhile_eq_take)
  moreover have "length (cstring str) \<le> length str" unfolding cstring_def by (rule length_takeWhile_le)
  ultimately show ?thesis
    using print_loop_writechars [of 0 "cstring str" str s] assms by (simp add: print_def strlen_eq)
qed

lemma writechars_plain:
  assumes "\<forall>c\<in>set xs. c \<noteq> 10 \<and> c \<noteq> 8" "on_screen s" "cursor s + int (length xs) \<le> VIDEO_CELLS"
  shows "\<exists>s'. writechars xs s = Inr s' \<and> cursor s' = cursor s + int (length xs) \<and> on_screen s' \<and>
    (\<forall>i. video_mem s' i = (if cursor s \<le> i \<and> i < cursor s + int (length xs)
       then terminal_make_char (xs ! nat (i - cursor s)) 15 else video_mem s i))"
  using assms
proof (induction xs arbitrary: s)
  case (Cons c xs)
  obtain u where u: "terminal_writechar c 15 s = Inr u" "cursor u = cursor s + 1" "on_screen u"
    "video_mem u = (video_mem s)(cursor s := terminal_make_char c 15)"
    using writechar_plain [of c s 15] Cons.prems by auto
  obtain s' where s': "writechars xs u = Inr s'" "cursor s' = cursor u + int (length xs)" "on_screen s'"
    "\<forall>i. video_mem s' i = (if cursor u \<le> i \<and> i < cursor u + int (length xs)
       then terminal_make_char (xs ! nat (i - cursor u)) 15 else video_mem u i)"
    using Cons.IH [of u] Cons.prems u by auto
  have "(c # xs) ! nat (i - cursor s) = xs ! nat (i - (cursor s + 1))" if "cursor s + 1 \<le> i" for i
  proof -
    have "nat (i - cursor s) = Suc (nat (i - (cursor s + 1)))" using that by simp
    then show ?thesis by simp
  qed
  then show ?case using s' u by (intro exI [of _ s']) auto
qed auto

lemma writechar_leaves:
  assumes "c \<noteq> 10" "c \<noteq> 8" "VIDEO_CELLS \<le> cursor s"
  shows "terminal_writechar c color s = Inl OutOfBounds"
  using assms by (simp add: terminal_writechar.simps [of c] terminal_putchar_def cursor_def)

text \<open>A string that does not fit behind the cursor runs out of the memory of the adapter.\<close>

lemma writechars_leave:
  assumes "\<forall>c\<in>set xs. c \<noteq> 10 \<and> c \<noteq> 8" "on_screen s" "cursor s \<le> VIDEO_CELLS" "VIDEO_CELLS < cursor s + int (length xs)"
  shows "writechars xs s = Inl OutOfBounds"
proof -
  define n where "n = nat (VIDEO_CELLS - cursor s)"
  have n: "n < length xs" "cursor s + int n = VIDEO_CELLS" using assms(3,4) by (auto simp: n_def)
  obtain c ys where c: "drop n xs = c # ys" using n(1) by (cases "drop n xs") auto
  then have xs: "xs = take n xs @ c # ys" using append_take_drop_id [of n xs] by simp
  then have "c \<in> set xs" using in_set_conv_decomp by metis
  have "\<forall>c\<in>set (take n xs). c \<noteq> 10 \<and> c \<noteq> 8" using assms(1) set_take_subset by fast
  then obtain s' where "writechars (take n xs) s = Inr s'" "cursor s' = VIDEO_CELLS"
    using writechars_plain [of "take n xs" s] assms(2) n by auto
  moreover have "terminal_writechar c 15 s' = Inl OutOfBounds"
    using assms(1) \<open>c \<in> set xs\<close> calculation(2) by (intro writechar_leaves) auto
  ultimately show ?thesis by (subst xs) (simp add: writechars_append)
qed

text \<open>\<open>terminal_initialize\<close> always returns, with the cursor at the top left and the cells of the 20 lines cleared.\<close>

lemma clear_row_cells:
  assumes "0 \<le> y * VGA_WIDTH + x" "y * VGA_WIDTH + x + int n \<le> VIDEO_CELLS"
  shows "clear_row_loop y x n s = Inr (s\<lparr>video_mem := (\<lambda>i. if y * VGA_WIDTH + x \<le> i \<and> i < y * VGA_WIDTH + x + int n
      then terminal_make_char 32 0 else video_mem s i)\<rparr>)"
  using assms
proof (induction n arbitrary: x s)
  case (Suc n)
  then have "terminal_putchar x y 32 0 s = Inr (s\<lparr>video_mem := (video_mem s)(y * VGA_WIDTH + x := terminal_make_char 32 0)\<rparr>)"
    by (simp add: terminal_putchar_def)
  then show ?case using Suc.IH [of "x + 1"] Suc.prems by (auto intro!: arg_cong [where f = "\<lambda>v. s\<lparr>video_mem := v\<rparr>"])
next
  case (0 x s)
  have "\<not> (a \<le> i \<and> i < a)" for a i :: int by simp
  then show ?case by (cases s) (auto simp: fun_eq_iff)
qed

lemma clear_cells:
  assumes "0 \<le> y" "(y + int n) * VGA_WIDTH \<le> VIDEO_CELLS"
  shows "clear_loop y n s = Inr (s\<lparr>video_mem := (\<lambda>i. if y * VGA_WIDTH \<le> i \<and> i < (y + int n) * VGA_WIDTH
      then terminal_make_char 32 0 else video_mem s i)\<rparr>)"
  using assms
proof (induction n arbitrary: y s)
  case (Suc n)
  have "clear_row_loop y 0 80 s = Inr (s\<lparr>video_mem := (\<lambda>i. if y * VGA_WIDTH \<le> i \<and> i < y * VGA_WIDTH + 80
      then terminal_make_char 32 0 else video_mem s i)\<rparr>)"
    using clear_row_cells [of y 0 80 s] Suc.prems by (simp add: algebra_simps)
  then show ?case using Suc.IH [of "y + 1"] Suc.prems
    by (auto simp: algebra_simps intro!: arg_cong [where f = "\<lambda>v. s\<lparr>video_mem := v\<rparr>"])
next
  case (0 y s)
  have "\<not> (a \<le> i \<and> i < a)" for a i :: int by simp
  then show ?case by (cases s) (auto simp: fun_eq_iff)
qed

lemma terminal_initialize_cells:
  "terminal_initialize s = Inr (s\<lparr>terminal_row := 0, terminal_col := 0, video_mem := (\<lambda>i. if 0 \<le> i \<and> i < 1600
      then terminal_make_char 32 0 else video_mem s i)\<rparr>)"
  by (simp add: terminal_initialize_def clear_cells cong: if_cong)

subsection \<open>The terminal in the state around it\<close>

text \<open>What is written touches the three globals only, and depends on nothing else.\<close>

definition with_screen :: "tstate \<Rightarrow> 'a tstate_scheme \<Rightarrow> 'a tstate_scheme" where
  "with_screen v s = s\<lparr>video_mem := video_mem v, terminal_row := terminal_row v, terminal_col := terminal_col v\<rparr>"

lemma with_screen_simps [simp]:
  "tstate.truncate (with_screen v s) = v" "with_screen v (with_screen u s) = with_screen v s" "with_screen (tstate.truncate s) s = s"
  by (simp_all add: with_screen_def tstate.truncate_def)

lemma truncate_terminal [simp]:
  "on_screen (tstate.truncate s) = on_screen s" "cursor (tstate.truncate s) = cursor s" "video_mem (tstate.truncate s) = video_mem s"
  by (simp_all add: on_screen_def cursor_def tstate.truncate_def)

lemma writechar_screen:
  "terminal_writechar c k s = bind_res (terminal_writechar c k (tstate.truncate s)) (\<lambda>v. Inr (with_screen v s))"
  by (cases s) (simp add: with_screen_def tstate.truncate_def terminal_writechar.simps [of c] terminal_backspace.simps
    terminal_writechar.simps [of 32] terminal_putchar_def Let_def space_is_plain)

lemma writechars_screen:
  "writechars w s = bind_res (writechars w (tstate.truncate s)) (\<lambda>v. Inr (with_screen v s))"
proof (induction w arbitrary: s)
  case (Cons c w)
  show ?case
  proof (cases "terminal_writechar c 15 (tstate.truncate s)")
    case (Inr u)
    then show ?thesis using Cons.IH [of "with_screen u s"] writechar_screen [of c 15 s] by (simp add: bind_res_assoc)
  qed (simp add: writechar_screen [of c 15 s])
qed simp

subsection \<open>What the functions write\<close>

text \<open>C40: \<open>print\<close> of a string without newline or backspace that fits into the adapter's memory behind the cursor puts its characters, white
  on black, into the cells from the cursor on, advances the cursor by its length across line ends, and touches no other cell. A string that does not fit runs out of it.\<close>

lemma print_writes_cells:
  assumes "0 \<in> set str" "\<forall>c\<in>set (cstring str). c \<noteq> 10 \<and> c \<noteq> 8" "on_screen s" "cursor s \<le> VIDEO_CELLS"
  shows "if cursor s + int (length (cstring str)) \<le> VIDEO_CELLS
    then \<exists>s'. print str s = Inr s' \<and> on_screen s' \<and> cursor s' = cursor s + int (length (cstring str)) \<and>
      (\<forall>i. video_mem s' i = (if cursor s \<le> i \<and> i < cursor s + int (length (cstring str))
         then terminal_make_char (cstring str ! nat (i - cursor s)) 15 else video_mem s i))
    else print str s = Inl OutOfBounds"
  using print_writechars [OF assms(1), of s] writechars_plain [OF assms(2,3)] writechars_leave [OF assms(2-4)] by auto

lemma print_writes_cells_witness:
  "\<exists>s'. print (c_literal ''ok'') \<lparr>video_mem = (\<lambda>_. 0), terminal_row = 3, terminal_col = 79\<rparr> = Inr s' \<and>
     cursor s' = 321 \<and> video_mem s' 319 = 0x0F6F \<and> video_mem s' 320 = 0x0F6B"
  using print_writes_cells [of "c_literal ''ok''" "\<lparr>video_mem = (\<lambda>_. 0), terminal_row = 3, terminal_col = 79\<rparr>"]
  by (auto simp: c_literal_def on_screen_def cursor_def terminal_make_char_def)

text \<open>A backspace at the start of a line (not the first) blanks the last cell of the line
  above, but leaves the cursor on the current row with column 65535: the column is off the screen.\<close>

lemma backspace_at_line_start:
  assumes "terminal_col s = 0" "terminal_row s \<noteq> 0" "cursor s \<le> VIDEO_CELLS"
  shows "\<exists>s'. terminal_writechar 8 color s = Inr s' \<and> s' = s\<lparr>
      video_mem := (video_mem s)(cursor s - 1 := terminal_make_char 32 15), terminal_col := 65535\<rparr> \<and> \<not> on_screen s'"
  using backspace_line_start [OF assms, of color] by (simp add: on_screen_def)

lemma backspace_at_line_start_witness:
  "\<exists>s'. terminal_writechar 8 15 \<lparr>video_mem = (\<lambda>_. 0), terminal_row = 1, terminal_col = 0\<rparr> = Inr s' \<and> terminal_col s' = 65535"
  using backspace_at_line_start [of "\<lparr>video_mem = (\<lambda>_. 0), terminal_row = 1, terminal_col = 0\<rparr>" 15]
  by (simp add: cursor_def)

text \<open>A backspace inside a line blanks the cell before the cursor and moves the cursor to it.\<close>

lemma backspace_erases:
  assumes "on_screen s" "0 < uint (terminal_col s)" "cursor s \<le> VIDEO_CELLS"
  shows "\<exists>s'. terminal_writechar 8 color s = Inr s' \<and> cursor s' = cursor s - 1 \<and> on_screen s' \<and>
    video_mem s' = (video_mem s)(cursor s - 1 := terminal_make_char 32 15)"
  using backspace_inside [OF assms, of color] uint_minus1_u16 [OF assms(2)] assms(1) by (simp add: cursor_def on_screen_def)

lemma backspace_erases_witness:
  "\<exists>s'. terminal_writechar 8 15 \<lparr>video_mem = (\<lambda>_. 0), terminal_row = 1, terminal_col = 5\<rparr> = Inr s' \<and> cursor s' = 84"
  using backspace_erases [of "\<lparr>video_mem = (\<lambda>_. 0), terminal_row = 1, terminal_col = 5\<rparr>" 15]
  by (auto simp: on_screen_def cursor_def)

end
