(* ===== verification/KHeap.thy ===== *)
theory KHeap
  imports Heap Terminal
begin

text \<open>
  The kernel heap of src/memory/heap/kheap.c: the global \<open>kernel_heap\<close> and the byte memory of
  the machine join the terminal in the state record \<open>mstate\<close>, which the components above extend.
  \<open>kzalloc\<close>/\<open>kfree\<close> are the allocator every kernel component calls; the contract they
  satisfy is the locale \<open>zeroing_allocator\<close>, interpreted here.
\<close>

record mstate = tstate +
  kheap :: heap \<comment> \<open>\<open>kernel_heap\<close> and \<open>kernel_heap_table\<close>\<close>
  mem :: memory

text \<open>The entry array starts at \<open>MARROWOS_HEAP_TABLE_ADDRESS\<close>, over whatever bytes are there.\<close>

definition heap_table_at :: "memory \<Rightarrow> nat \<Rightarrow> u8 list" where
  "heap_table_at m n = map (\<lambda>i. m (0x00007E00 + of_nat i)) [0..<n]"

definition kheap_init :: "'a mstate_scheme \<Rightarrow> 'a mstate_scheme res" where
  "kheap_init s =
     (let total_table_entries = MARROWOS_HEAP_SIZE_BYTES div MARROWOS_HEAP_BLOCK_SIZE;
          table = \<lparr>ht_entries = heap_table_at (mem s) (unat total_table_entries),
                   ht_total = total_table_entries\<rparr>;
          endp = MARROWOS_HEAP_ADDRESS + MARROWOS_HEAP_SIZE_BYTES
      in bind_res (heap_create (kheap s) MARROWOS_HEAP_ADDRESS endp table) (\<lambda>(res, h).
           let s = s\<lparr>kheap := h\<rparr>
           in if res < 0 then print (c_literal (''Failed to create heap.'' @ [CHR 0x0A])) s else Inr s))"

definition kmalloc :: "'a mstate_scheme \<Rightarrow> u32 \<Rightarrow> (u32 \<times> 'a mstate_scheme) res" where
  "kmalloc s sz = bind_res (heap_malloc (kheap s) sz) (\<lambda>(ptr, h). Inr (ptr, s\<lparr>kheap := h\<rparr>))"

definition kzalloc :: "'a mstate_scheme \<Rightarrow> u32 \<Rightarrow> (u32 \<times> 'a mstate_scheme) res" where
  "kzalloc s sz =
     bind_res (kmalloc s sz) (\<lambda>(ptr, s).
       if ptr = 0 then Inr (0, s) else Inr (ptr, s\<lparr>mem := memset (mem s) ptr 0 sz\<rparr>))"

definition kfree :: "'a mstate_scheme \<Rightarrow> u32 \<Rightarrow> 'a mstate_scheme res" where
  "kfree s ptr = bind_res (heap_free (kheap s) ptr) (\<lambda>h. Inr (s\<lparr>kheap := h\<rparr>))"

subsection \<open>The contract of the kernel heap\<close>

text \<open>An allocator of zeroed memory: what it does to the bytes.\<close>

locale zeroing_allocator = page_allocator inv live alloc free avail
  for inv :: "'s \<Rightarrow> bool" and live alloc free avail +
  fixes memory_of :: "'s \<Rightarrow> memory"
  assumes alloc_bytes: "inv s \<Longrightarrow> fair_request sz \<Longrightarrow> alloc s sz = Inr (p, s') \<Longrightarrow> p \<noteq> 0 \<Longrightarrow>
      memory_of s' a = (if addr_in a p (unat sz) then 0 else memory_of s a)"
    and alloc_null_bytes: "alloc s sz = Inr (0, s') \<Longrightarrow> memory_of s' = memory_of s"
    and free_bytes: "free s p = Inr s' \<Longrightarrow> memory_of s' = memory_of s"
begin

lemma alloc_keeps_bytes:
  assumes "inv s" "fair_request sz" "alloc s sz = Inr (p, s')" "live s q n" "addr_in a q (4096 * n)"
  shows "memory_of s' a = memory_of s a"
proof (cases "p = 0")
  case True
  with assms alloc_null_bytes show ?thesis by metis
next
  case False
  have "apart p (blocks_of sz) q n" using alloc_fresh [OF assms(1-3) False assms(4)] .
  then have "\<not> addr_in a p (unat sz)"
    using assms(5) blocks_of_covers [of sz] by (auto simp: apart_def addr_in_def)
  then show ?thesis using alloc_bytes [OF assms(1-3) False] by simp
qed

lemma alloc_zeroed:
  "inv s \<Longrightarrow> fair_request sz \<Longrightarrow> alloc s sz = Inr (p, s') \<Longrightarrow> p \<noteq> 0 \<Longrightarrow>
     addr_in a p (unat sz) \<Longrightarrow> memory_of s' a = 0"
  by (simp add: alloc_bytes)

end

abbreviation kheap_inv :: "'a mstate_scheme \<Rightarrow> bool" where
  "kheap_inv s \<equiv> heap_inv (kheap s)"

abbreviation klive :: "'a mstate_scheme \<Rightarrow> u32 \<Rightarrow> nat \<Rightarrow> bool" where
  "klive s \<equiv> heap_live (kheap s)"

abbreviation kavail :: "'a mstate_scheme \<Rightarrow> nat" where
  "kavail s \<equiv> free_count (ht_entries (heap_tbl (kheap s)))"

lemma kzalloc_Inr:
  "kzalloc s sz = Inr (p, s') \<longleftrightarrow> (\<exists>h. heap_malloc (kheap s) sz = Inr (p, h) \<and>
     s' = (if p = 0 then s\<lparr>kheap := h\<rparr> else s\<lparr>kheap := h, mem := memset (mem s) p 0 sz\<rparr>))"
  by (auto simp: kzalloc_def kmalloc_def res_simps)

lemma kfree_Inr: "kfree s p = Inr s' \<longleftrightarrow> (\<exists>h. heap_free (kheap s) p = Inr h \<and> s' = s\<lparr>kheap := h\<rparr>)"
  by (auto simp: kfree_def res_simps)

lemma memset_region:
  assumes "heap_inv h" "fair_request sz" "heap_malloc h sz = Inr (p, h')" "p \<noteq> 0"
  shows "unat p + unat sz \<le> 4294967296"
proof -
  have "heap_live h' p (blocks_of sz)" "heap_inv h'"
    using assms kheap_pages.alloc_is_live kheap_pages.alloc_inv by blast+
  then show ?thesis using kheap_pages.live_bounds [of h' p "blocks_of sz"] blocks_of_covers [of sz] by simp
qed

lemma kzalloc_page:
  assumes "kheap_inv s" "0 < kavail s" "0 < unat sz" "unat sz \<le> 4096"
  shows "\<exists>p s'. kzalloc s sz = Inr (p, s') \<and> p \<noteq> 0 \<and> kavail s' = kavail s - 1"
proof -
  from kheap_pages.alloc_page [OF assms] obtain p h where
    "heap_malloc (kheap s) sz = Inr (p, h)" "p \<noteq> 0"
    "free_count (ht_entries (heap_tbl h)) = kavail s - 1" by blast
  then have "kzalloc s sz = Inr (p, s\<lparr>kheap := h, mem := memset (mem s) p 0 sz\<rparr>) \<and> p \<noteq> 0 \<and>
      kavail (s\<lparr>kheap := h, mem := memset (mem s) p 0 sz\<rparr>) = kavail s - 1"
    by (simp add: kzalloc_Inr)
  then show ?thesis by blast
qed

interpretation kz: zeroing_allocator kheap_inv klive kzalloc kfree kavail mem
proof unfold_locales
  show "kheap_inv s \<Longrightarrow> kzalloc s sz = Inr (p, s') \<Longrightarrow> kheap_inv s'" for s :: "'a mstate_scheme" and sz p s'
    by (auto simp: kzalloc_Inr split: if_splits dest: kheap_pages.alloc_inv)
  show "kheap_inv s \<Longrightarrow> fair_request sz \<Longrightarrow> kzalloc s sz = Inr (p, s') \<Longrightarrow> p \<noteq> 0 \<Longrightarrow>
      klive s' q n \<longleftrightarrow> klive s q n \<or> q = p \<and> n = blocks_of sz" for s :: "'a mstate_scheme" and sz p s' q n
    by (auto simp: kzalloc_Inr kheap_pages.alloc_live)
  show "kheap_inv s \<Longrightarrow> kzalloc s sz = Inr (0, s') \<Longrightarrow> klive s' = klive s" for s :: "'a mstate_scheme" and sz s'
    by (auto simp: kzalloc_Inr dest: heap_malloc_null)
  show "kheap_inv s \<Longrightarrow> fair_request sz \<Longrightarrow> kzalloc s sz = Inr (p, s') \<Longrightarrow> p \<noteq> 0 \<Longrightarrow> klive s q n \<Longrightarrow>
      apart p (blocks_of sz) q n" for s :: "'a mstate_scheme" and sz p s' q n
    by (auto simp: kzalloc_Inr dest: kheap_pages.alloc_fresh)
  show "kheap_inv s \<Longrightarrow> klive s p n \<Longrightarrow> klive s q m \<Longrightarrow> p = q \<and> n = m \<or> apart p n q m"
    for s :: "'a mstate_scheme" and p n q m
    by (rule kheap_pages.live_apart)
  show "kheap_inv s \<Longrightarrow> klive s p n \<Longrightarrow>
      0 < n \<and> 0 < unat p \<and> unat p mod 4096 = 0 \<and> unat p + 4096 * n \<le> 2147483648"
    for s :: "'a mstate_scheme" and p n
    by (rule kheap_pages.live_bounds)
  show "kheap_inv s \<Longrightarrow> klive s p n \<Longrightarrow> \<exists>s'. kfree s p = Inr s'" for s :: "'a mstate_scheme" and p n
    by (auto simp: kfree_Inr dest: kheap_pages.free_ok)
  show "kheap_inv s \<Longrightarrow> klive s p n \<Longrightarrow> kfree s p = Inr s' \<Longrightarrow> kheap_inv s'" for s :: "'a mstate_scheme" and p n s'
    by (auto simp: kfree_Inr dest: kheap_pages.free_inv)
  show "kheap_inv s \<Longrightarrow> klive s p n \<Longrightarrow> kfree s p = Inr s' \<Longrightarrow> klive s' q m \<longleftrightarrow> klive s q m \<and> q \<noteq> p"
    for s :: "'a mstate_scheme" and p n s' q m
    using kheap_pages.free_live [of "kheap s" p n _ q m] by (auto simp: kfree_Inr)
  show "kheap_inv s \<Longrightarrow> 0 < kavail s \<Longrightarrow> 0 < unat sz \<Longrightarrow> unat sz \<le> 4096 \<Longrightarrow>
      \<exists>p s'. kzalloc s sz = Inr (p, s') \<and> p \<noteq> 0 \<and> kavail s' = kavail s - 1"
    for s :: "'a mstate_scheme" and sz
    by (rule kzalloc_page)
  show "kheap_inv s \<Longrightarrow> klive s p n \<Longrightarrow> kfree s p = Inr s' \<Longrightarrow> kavail s' = kavail s + n"
    for s :: "'a mstate_scheme" and p n s'
    using kheap_pages.free_avail [of "kheap s" p n] by (auto simp: kfree_Inr)
  show "kheap_inv s \<Longrightarrow> fair_request sz \<Longrightarrow> kzalloc s sz = Inr (p, s') \<Longrightarrow> p \<noteq> 0 \<Longrightarrow>
      mem s' a = (if addr_in a p (unat sz) then 0 else mem s a)" for s :: "'a mstate_scheme" and sz p s' a
    using memset_region by (auto simp: kzalloc_Inr memset_apply)
  show "kzalloc s sz = Inr (0, s') \<Longrightarrow> mem s' = mem s" for s :: "'a mstate_scheme" and sz s'
    by (auto simp: kzalloc_Inr)
  show "kfree s p = Inr s' \<Longrightarrow> mem s' = mem s" for s :: "'a mstate_scheme" and p s'
    by (auto simp: kfree_Inr)
qed

subsection \<open>One page\<close>

lemma page_request: "fair_request 4096" "blocks_of 4096 = 1" "fair_request 4" "blocks_of 4 = 1"
  by (simp_all add: fair_request_def blocks_of_def)

lemma klive_aligned: "kheap_inv s \<Longrightarrow> klive s p n \<Longrightarrow> page_aligned p"
  using kz.live_bounds by (auto simp: page_aligned_def)

text \<open>The blocks lie behind the start of the heap, which an allocation does not move.\<close>

lemma heap_live_above:
  assumes "heap_inv h" "heap_live h p n"
  shows "unat (saddr h) \<le> unat p"
proof -
  obtain b where "p = block_addr h b" "allocated (ht_entries (heap_tbl h)) b n" using assms(2) by (auto simp: heap_live_def)
  moreover from this(2) have "b \<le> length (ht_entries (heap_tbl h))" by (simp add: allocated_def)
  ultimately show ?thesis using unat_block_addr [OF assms(1)] by simp
qed

lemma heap_malloc_saddr: "heap_malloc h sz = Inr (p, h') \<Longrightarrow> saddr h' = saddr h"
  by (auto simp: heap_malloc_def heap_malloc_blocks_def heap_mark_blocks_taken_def Let_def res_simps split: if_splits)

lemma kzalloc_below:
  assumes "kheap_inv s" "fair_request sz" "kzalloc s sz = Inr (p, s')" "p \<noteq> 0"
  shows "saddr (kheap s') = saddr (kheap s)" "unat a < unat (saddr (kheap s)) \<Longrightarrow> mem s' a = mem s a"
proof -
  obtain h where h: "heap_malloc (kheap s) sz = Inr (p, h)" "s' = s\<lparr>kheap := h, mem := memset (mem s) p 0 sz\<rparr>"
    using assms(3,4) by (auto simp: kzalloc_Inr)
  then show sa: "saddr (kheap s') = saddr (kheap s)" using heap_malloc_saddr by simp
  have inv: "kheap_inv s'" using kz.alloc_inv [OF assms(1,3)] .
  have live: "klive s' p (blocks_of sz)" using kz.alloc_is_live [OF assms(1-4)] .
  have "unat p + unat sz \<le> 4294967296"
    using kz.live_bounds [OF inv live] blocks_of_covers [of sz] by simp
  moreover have "\<not> addr_in a p (unat sz)" if "unat a < unat (saddr (kheap s))"
    using heap_live_above [OF inv live] that sa by (simp add: addr_in_def)
  ultimately show "mem s' a = mem s a" if "unat a < unat (saddr (kheap s))"
    using that by (simp add: h(2) memset_apply)
qed

lemma kzalloc_one_page:
  fixes s :: "'a mstate_scheme"
  assumes "kheap_inv s" "0 < kavail s" "0 < unat sz" "unat sz \<le> 4096"
  obtains p s' where "kzalloc s sz = Inr (p, s')" "p \<noteq> 0" "kheap_inv s'" "kavail s' = kavail s - 1"
    "\<And>q n. klive s' q n \<longleftrightarrow> klive s q n \<or> q = p \<and> n = 1" "page_aligned p"
    "\<And>n. \<not> klive s p n"
    "\<And>q n a. klive s q n \<Longrightarrow> addr_in a q (4096 * n) \<Longrightarrow> mem s' a = mem s a"
proof -
  from kz.page_request_fair [OF assms(3,4)] have fair: "fair_request sz" and n: "blocks_of sz = 1"
    by simp_all
  obtain p s' where p: "kzalloc s sz = Inr (p, s')" "p \<noteq> 0" "kavail s' = kavail s - 1"
    using kz.alloc_page [OF assms] by blast
  have inv': "kheap_inv s'" using kz.alloc_inv [OF assms(1) p(1)] .
  have "klive s' p 1" using kz.alloc_is_live [OF assms(1) fair p(1,2)] n by simp
  with klive_aligned [OF inv'] have "page_aligned p" by blast
  with p inv' n show thesis
    using kz.alloc_live [OF assms(1) fair p(1,2)] kz.alloc_was_dead [OF assms(1) fair p(1,2)]
      kz.alloc_keeps_bytes [OF assms(1) fair p(1)]
    by (intro that [of p s']) simp_all
qed

subsection \<open>Properties of the kernel heap\<close>

definition kernel_fresh_heap :: heap where
  "kernel_fresh_heap = fresh_heap 25600 0x01000000"

lemma kernel_fresh_heap_facts:
  "heap_inv kernel_fresh_heap" "\<not> heap_live kernel_fresh_heap p n"
  "free_count (ht_entries (heap_tbl kernel_fresh_heap)) = 25600"
  by (simp_all add: kernel_fresh_heap_def fresh_heap_inv fresh_heap_live fresh_heap_free_count)

lemma kheap_init_eq: "kheap_init s = Inr (s\<lparr>kheap := kernel_fresh_heap\<rparr>)"
proof -
  have "heap_create (kheap s) 0x01000000 (0x01000000 + of_nat (4096 * 25600))
      \<lparr>ht_entries = heap_table_at (mem s) 25600, ht_total = of_nat 25600\<rparr>
      = Inr (0, kernel_fresh_heap)"
    unfolding kernel_fresh_heap_def by (rule heap_create_fresh) (simp_all add: heap_table_at_def)
  then show ?thesis
    by (simp add: kheap_init_def Let_def)
qed

text \<open>\<open>kheap_init\<close> gives a kernel heap of 25600 free blocks at 16 MiB, well formed and with
  nothing allocated, whatever the memory held, and prints nothing.\<close>

theorem kheap_init_ready:
  "\<exists>s'. kheap_init s = Inr s' \<and> kheap_inv s' \<and> kavail s' = 25600 \<and> (\<forall>p n. \<not> klive s' p n) \<and>
     video_mem s' = video_mem s \<and> mem s' = mem s"
  using kernel_fresh_heap_facts by (simp add: kheap_init_eq)

text \<open>A machine just after \<open>kheap_init\<close>, for the examples.\<close>

definition example_state :: mstate where
  "example_state = \<lparr>video_mem = (\<lambda>_. 0), terminal_row = 0, terminal_col = 0,
     kheap = kernel_fresh_heap, mem = (\<lambda>_. 0xAA)\<rparr>"

lemma example_state_facts: "kheap_inv example_state" "\<not> klive example_state p n" "kavail example_state = 25600"
  using kernel_fresh_heap_facts by (simp_all add: example_state_def)

text \<open>\<open>kzalloc\<close> of at most a page, while a block is free, returns a fresh page of zeros: not NULL,
  apart from every live allocation, whose bytes it leaves alone.\<close>

theorem kzalloc_page_zeroed:
  assumes "kheap_inv s" "0 < kavail s" "0 < unat sz" "unat sz \<le> 4096"
  shows "\<exists>p s'. kzalloc s sz = Inr (p, s') \<and> p \<noteq> 0 \<and> kheap_inv s' \<and> kavail s' = kavail s - 1 \<and>
    (\<forall>a. addr_in a p (unat sz) \<longrightarrow> mem s' a = 0) \<and>
    (\<forall>q n. klive s' q n = (klive s q n \<or> q = p \<and> n = 1)) \<and>
    (\<forall>q n a. klive s q n \<and> addr_in a q (4096 * n) \<longrightarrow> mem s' a = mem s a)"
proof -
  obtain p s' where p: "kzalloc s sz = Inr (p, s')" "p \<noteq> 0" "kheap_inv s'" "kavail s' = kavail s - 1"
    "\<And>q n. klive s' q n \<longleftrightarrow> klive s q n \<or> q = p \<and> n = 1"
    "\<And>q n a. klive s q n \<Longrightarrow> addr_in a q (4096 * n) \<Longrightarrow> mem s' a = mem s a"
    using kzalloc_one_page [OF assms] by metis
  have "fair_request sz" using kz.page_request_fair [OF assms(3,4)] by simp
  then have "mem s' a = 0" if "addr_in a p (unat sz)" for a
    using kz.alloc_zeroed [OF assms(1) _ p(1,2)] that by blast
  with p show ?thesis by blast
qed

lemma kzalloc_page_zeroed_witness:
  "\<exists>p s'. kzalloc example_state 108 = Inr (p, s') \<and> p \<noteq> 0 \<and> kavail s' = 25599"
  using kzalloc_page_zeroed [of example_state 108] example_state_facts by auto

text \<open>\<open>kfree(NULL)\<close> on the kernel heap is not a no-op: block \<open>-4096\<close> of the entry
  table is accessed, before the table's first byte.\<close>

theorem kfree_null_out_of_bounds:
  assumes "saddr (kheap s) = 0x01000000" "0 < ht_total (heap_tbl (kheap s))"
    "unat (ht_total (heap_tbl (kheap s))) < 2147483648"
  shows "kfree s 0 = Inl OutOfBounds"
proof -
  have "heap_address_to_block (kheap s) 0 = - 4096"
    by (simp add: heap_address_to_block_def assms(1) sint_u32 signed_divide_int_def)
  moreover have "- 4096 < sint (ht_total (heap_tbl (kheap s)))"
  proof -
    have "- 4096 < int (unat (ht_total (heap_tbl (kheap s))))" by (rule less_le_trans [of _ 0]) simp_all
    then show ?thesis by (simp only: sint_small [OF assms(3)])
  qed
  ultimately show ?thesis
    by (simp add: kfree_def heap_free_def heap_mark_blocks_free_def
        mark_free_loop.simps [of _ "- 4096"] list_get_oob)
qed

lemma kfree_null_out_of_bounds_witness: "kfree example_state 0 = Inl OutOfBounds"
  by (rule kfree_null_out_of_bounds)
    (simp_all add: example_state_def kernel_fresh_heap_def fresh_heap_def)

subsection \<open>Growing and shrinking the kernel heap\<close>

text \<open>
  \<open>grown s s' ps\<close>: from \<open>s\<close> to \<open>s'\<close> the kernel heap has got the fresh one-page allocations \<open>ps\<close>,
  and the bytes of what was allocated in \<open>s\<close> are as they were. It speaks of \<open>kheap\<close> and
  \<open>mem\<close> only, so updates of other components do not disturb it.
\<close>

definition hgrown :: "heap \<Rightarrow> memory \<Rightarrow> heap \<Rightarrow> memory \<Rightarrow> u32 list \<Rightarrow> bool" where
  "hgrown h m h' m' ps \<longleftrightarrow>
     heap_inv h' \<and> distinct ps \<and> (\<forall>p\<in>set ps. p \<noteq> 0 \<and> (\<forall>n. \<not> heap_live h p n)) \<and>
     free_count (ht_entries (heap_tbl h)) = free_count (ht_entries (heap_tbl h')) + length ps \<and>
     (\<forall>q n. heap_live h' q n \<longleftrightarrow> heap_live h q n \<or> q \<in> set ps \<and> n = 1) \<and>
     (\<forall>q n a. heap_live h q n \<and> addr_in a q (4096 * n) \<longrightarrow> m' a = m a)"

abbreviation grown :: "'a mstate_scheme \<Rightarrow> 'a mstate_scheme \<Rightarrow> u32 list \<Rightarrow> bool" where
  "grown s s' ps \<equiv> hgrown (kheap s) (mem s) (kheap s') (mem s') ps"

lemma hgrownD:
  assumes "hgrown h m h' m' ps"
  shows "heap_inv h'" "distinct ps" "p \<in> set ps \<Longrightarrow> p \<noteq> 0" "p \<in> set ps \<Longrightarrow> \<not> heap_live h p n"
    "free_count (ht_entries (heap_tbl h)) = free_count (ht_entries (heap_tbl h')) + length ps"
    "heap_live h' q n \<longleftrightarrow> heap_live h q n \<or> q \<in> set ps \<and> n = 1"
    "heap_live h q n \<Longrightarrow> addr_in a q (4096 * n) \<Longrightarrow> m' a = m a"
  using assms unfolding hgrown_def by blast+

lemma hgrownI:
  assumes "heap_inv h'" "distinct ps" "\<And>p. p \<in> set ps \<Longrightarrow> p \<noteq> 0" "\<And>p n. p \<in> set ps \<Longrightarrow> \<not> heap_live h p n"
    "free_count (ht_entries (heap_tbl h)) = free_count (ht_entries (heap_tbl h')) + length ps"
    "\<And>q n. heap_live h' q n \<longleftrightarrow> heap_live h q n \<or> q \<in> set ps \<and> n = 1"
    "\<And>q n a. heap_live h q n \<Longrightarrow> addr_in a q (4096 * n) \<Longrightarrow> m' a = m a"
  shows "hgrown h m h' m' ps"
  unfolding hgrown_def using assms by blast

lemma hgrown_refl: "heap_inv h \<Longrightarrow> hgrown h m h m []"
  by (simp add: hgrown_def)

lemma hgrown_trans:
  assumes "hgrown h m h1 m1 ps" "hgrown h1 m1 h2 m2 qs"
  shows "hgrown h m h2 m2 (ps @ qs)"
proof (rule hgrownI)
  note a = hgrownD [OF assms(1)] and b = hgrownD [OF assms(2)]
  have "p \<notin> set qs" if "p \<in> set ps" for p
    using b(4) [of p 1] a(6) [of p 1] that by blast
  then show "distinct (ps @ qs)" using a(2) b(2) by auto
  show "p \<noteq> 0" if "p \<in> set (ps @ qs)" for p using a(3) b(3) that by auto
  show "\<not> heap_live h p n" if "p \<in> set (ps @ qs)" for p n using a(4,6) b(4) that by auto
  show "m2 x = m x" if "heap_live h q n" "addr_in x q (4096 * n)" for q n x
    using a(7) [OF that] b(7) [of q n x] a(6) that by simp
qed (use hgrownD [OF assms(1)] hgrownD [OF assms(2)] in auto)

lemma kzalloc_only_heap: "kzalloc s sz = Inr (p, s') \<Longrightarrow> \<exists>h m. s' = s\<lparr>kheap := h, mem := m\<rparr>"
proof -
  assume "kzalloc s sz = Inr (p, s')"
  then obtain h where "s' = s\<lparr>kheap := h\<rparr> \<or> s' = s\<lparr>kheap := h, mem := memset (mem s) p 0 sz\<rparr>"
    by (auto simp: kzalloc_Inr split: if_splits)
  moreover have "s\<lparr>kheap := h\<rparr> = s\<lparr>kheap := h, mem := mem s\<rparr>" by simp
  ultimately show ?thesis by metis
qed

lemma kzalloc_grown:
  fixes s :: "'a mstate_scheme"
  assumes "kheap_inv s" "0 < kavail s" "0 < unat sz" "unat sz \<le> 4096"
  obtains p h m where "kzalloc s sz = Inr (p, s\<lparr>kheap := h, mem := m\<rparr>)" "p \<noteq> 0"
    "hgrown (kheap s) (mem s) h m [p]"
proof (rule kzalloc_one_page [OF assms])
  fix p s'
  assume a: "kzalloc s sz = Inr (p, s')" "p \<noteq> 0" "kheap_inv s'" "kavail s' = kavail s - 1"
    "\<And>q n. klive s' q n \<longleftrightarrow> klive s q n \<or> q = p \<and> n = 1" "page_aligned p" "\<And>n. \<not> klive s p n"
    "\<And>q n a. klive s q n \<Longrightarrow> addr_in a q (4096 * n) \<Longrightarrow> mem s' a = mem s a"
  obtain h m where s': "s' = s\<lparr>kheap := h, mem := m\<rparr>" using kzalloc_only_heap [OF a(1)] by blast
  have "hgrown (kheap s) (mem s) h m [p]"
  proof (rule hgrownI)
    show "m x = mem s x" if "klive s q n" "addr_in x q (4096 * n)" for q n x
      using a(8) [OF that] by (simp add: s')
  qed (use a assms(2) in \<open>auto simp: s'\<close>)
  with a s' show thesis by (intro that) simp_all
qed

text \<open>Giving back one of the pages the heap has grown by.\<close>

lemma kfree_grown:
  fixes s' :: "'a mstate_scheme"
  assumes "hgrown h m (kheap s') (mem s') (ps @ p # qs)"
  obtains h' where "kfree s' p = Inr (s'\<lparr>kheap := h'\<rparr>)" "hgrown h m h' (mem s') (ps @ qs)"
proof -
  note g = hgrownD [OF assms]
  have l: "klive s' p 1" using g(6) by simp
  obtain s'' where s'': "kfree s' p = Inr s''" using kz.free_ok [OF g(1) l] by blast
  then obtain h' where h': "s'' = s'\<lparr>kheap := h'\<rparr>" by (auto simp: kfree_Inr)
  have "hgrown h m h' (mem s') (ps @ qs)"
  proof (rule hgrownI)
    show "heap_live h' q n \<longleftrightarrow> heap_live h q n \<or> q \<in> set (ps @ qs) \<and> n = 1" for q n
      using kz.free_live [OF g(1) l s'', of q n] g(2,4,6) by (auto simp: h')
    show "mem s' x = m x" if "heap_live h q n" "addr_in x q (4096 * n)" for q n x
      using g(7) [OF that] .
  qed (use kz.free_inv [OF g(1) l s''] kz.free_avail [OF g(1) l s''] g(2-5) in \<open>auto simp: h'\<close>)
  with s'' h' show thesis by (intro that) simp_all
qed

end
