(* ===== verification/Paging.thy ===== *)
theory Paging
  imports KHeap
begin

text \<open>
  Page directories of src/memory/paging/paging.c. A directory and its tables are arrays of
  1024 32-bit entries in pages of the kernel heap, so they live in the byte memory and every access of
  the code is a \<open>load32\<close> or \<open>store32\<close> at pointer plus four times the index.
  \<open>struct paging_4gb_chunk\<close> has one field, the directory's address, stored at the chunk.
  The processor's CR0 and CR3, which paging.asm writes, are part of the state.
\<close>

abbreviation (input) PAGING_ACCESS_FROM_ALL :: u32 where "PAGING_ACCESS_FROM_ALL \<equiv> 4"
abbreviation (input) PAGING_IS_WRITABLE :: u32 where "PAGING_IS_WRITABLE \<equiv> 2"
abbreviation (input) PAGING_IS_PRESENT :: u32 where "PAGING_IS_PRESENT \<equiv> 1"
abbreviation (input) PAGING_TOTAL_ENTRIES_PER_TABLE :: u32 where
  "PAGING_TOTAL_ENTRIES_PER_TABLE \<equiv> 1024"
abbreviation (input) PAGING_PAGE_SIZE :: u32 where "PAGING_PAGE_SIZE \<equiv> 4096"

record pgstate = mstate +
  current_directory :: u32
  cr3 :: u32
  cr0 :: u32

subsection \<open>Creating and freeing a directory\<close>

text \<open>\<open>entry[b] = (offset + (b * PAGING_PAGE_SIZE)) | flags\<close> for the 1024 entries of a table.\<close>

definition fill_table :: "memory \<Rightarrow> u32 \<Rightarrow> u32 \<Rightarrow> u8 \<Rightarrow> nat \<Rightarrow> memory" where
  "fill_table m entry offset flags n =
     fold (\<lambda>b m. store32 m (entry + of_nat (4 * b))
       ((offset + of_nat b * PAGING_PAGE_SIZE) OR ucast flags)) [0..<n] m"

function new_tables_loop ::
  "'a mstate_scheme \<Rightarrow> u32 \<Rightarrow> u8 \<Rightarrow> nat \<Rightarrow> u32 \<Rightarrow> 'a mstate_scheme res" where
  "new_tables_loop s directory flags i offset =
     (if i < 1024 then
        bind_res (kzalloc s (4 * PAGING_TOTAL_ENTRIES_PER_TABLE)) (\<lambda>(entry, s).
          let m = fill_table (mem s) entry offset flags 1024;
              offset = offset + PAGING_TOTAL_ENTRIES_PER_TABLE * PAGING_PAGE_SIZE;
              m = store32 m (directory + of_nat (4 * i)) (entry OR ucast flags OR PAGING_IS_WRITABLE)
          in new_tables_loop (s\<lparr>mem := m\<rparr>) directory flags (Suc i) offset)
      else Inr s)"
  by pat_completeness auto
termination
  by (relation "measure (\<lambda>(s, d, f, i, ofs). 1024 - i)") auto

declare new_tables_loop.simps [simp del]

definition paging_new_4gb :: "'a mstate_scheme \<Rightarrow> u8 \<Rightarrow> (u32 \<times> 'a mstate_scheme) res" where
  "paging_new_4gb s flags =
     bind_res (kzalloc s (4 * PAGING_TOTAL_ENTRIES_PER_TABLE)) (\<lambda>(directory, s).
     bind_res (new_tables_loop s directory flags 0 0) (\<lambda>s.
     bind_res (kzalloc s 4) (\<lambda>(chunk_4gb, s).
       Inr (chunk_4gb, s\<lparr>mem := store32 (mem s) chunk_4gb directory\<rparr>))))"

definition paging_4gb_chunk_get_directory :: "'a mstate_scheme \<Rightarrow> u32 \<Rightarrow> u32" where
  "paging_4gb_chunk_get_directory s chunk = load32 (mem s) chunk"

definition paging_load_directory :: "'a pgstate_scheme \<Rightarrow> u32 \<Rightarrow> 'a pgstate_scheme" where
  "paging_load_directory s directory = s\<lparr>cr3 := directory\<rparr>"

definition enable_paging :: "'a pgstate_scheme \<Rightarrow> 'a pgstate_scheme" where
  "enable_paging s = s\<lparr>cr0 := cr0 s OR 0x80000000\<rparr>"

definition paging_switch :: "'a pgstate_scheme \<Rightarrow> u32 \<Rightarrow> 'a pgstate_scheme" where
  "paging_switch s directory =
     (let dir = load32 (mem s) directory;
          s = paging_load_directory s dir
      in s\<lparr>current_directory := dir\<rparr>)"

function free_tables_loop :: "'a mstate_scheme \<Rightarrow> u32 \<Rightarrow> nat \<Rightarrow> 'a mstate_scheme res" where
  "free_tables_loop s chunk i =
     (if i < 1024 then
        let entry = load32 (mem s) (load32 (mem s) chunk + of_nat (4 * i));
            table = entry AND 0xfffff000
        in bind_res (kfree s table) (\<lambda>s. free_tables_loop s chunk (Suc i))
      else Inr s)"
  by pat_completeness auto
termination
  by (relation "measure (\<lambda>(s, c, i). 1024 - i)") auto

declare free_tables_loop.simps [simp del]

definition paging_free_4gb :: "'a mstate_scheme \<Rightarrow> u32 \<Rightarrow> 'a mstate_scheme res" where
  "paging_free_4gb s chunk =
     bind_res (free_tables_loop s chunk 0) (\<lambda>s.
     bind_res (kfree s (load32 (mem s) chunk)) (\<lambda>s.
       kfree s chunk))"

subsection \<open>Addresses\<close>

definition paging_is_aligned :: "u32 \<Rightarrow> bool" where
  "paging_is_aligned addr \<longleftrightarrow> addr mod PAGING_PAGE_SIZE = 0"

text \<open>The out parameters keep their old values \<open>d0\<close>, \<open>t0\<close> when the address is not aligned.\<close>

definition paging_get_indexes :: "u32 \<Rightarrow> u32 \<Rightarrow> u32 \<Rightarrow> int \<times> u32 \<times> u32" where
  "paging_get_indexes virtual_address d0 t0 =
     (if \<not> paging_is_aligned virtual_address then (- EINVARG, d0, t0)
      else (0, virtual_address div (PAGING_TOTAL_ENTRIES_PER_TABLE * PAGING_PAGE_SIZE),
            virtual_address mod (PAGING_TOTAL_ENTRIES_PER_TABLE * PAGING_PAGE_SIZE)
              div PAGING_PAGE_SIZE))"

definition paging_align_address :: "u32 \<Rightarrow> u32" where
  "paging_align_address ptr =
     (if ptr mod PAGING_PAGE_SIZE \<noteq> 0 then ptr + PAGING_PAGE_SIZE - ptr mod PAGING_PAGE_SIZE
      else ptr)"

definition paging_align_to_lower_page :: "u32 \<Rightarrow> u32" where
  "paging_align_to_lower_page addr = addr - addr mod PAGING_PAGE_SIZE"

subsection \<open>Mapping\<close>

definition paging_set :: "memory \<Rightarrow> u32 \<Rightarrow> u32 \<Rightarrow> u32 \<Rightarrow> int \<times> memory" where
  "paging_set m directory virt val =
     (if \<not> paging_is_aligned virt then (- EINVARG, m)
      else
        let (res, directory_index, table_index) = paging_get_indexes virt 0 0
        in if res < 0 then (res, m)
           else
             let entry = load32 m (directory + 4 * directory_index);
                 table = entry AND 0xfffff000
             in (0, store32 m (table + 4 * table_index) val))"

definition paging_get :: "memory \<Rightarrow> u32 \<Rightarrow> u32 \<Rightarrow> u32" where
  "paging_get m directory virt =
     (let (res, directory_index, table_index) = paging_get_indexes virt 0 0;
          entry = load32 m (directory + 4 * directory_index);
          table = entry AND 0xfffff000
      in load32 m (table + 4 * table_index))"

definition paging_map :: "memory \<Rightarrow> u32 \<Rightarrow> u32 \<Rightarrow> u32 \<Rightarrow> u32 \<Rightarrow> int \<times> memory" where
  "paging_map m chunk virt phys flags =
     (if virt mod PAGING_PAGE_SIZE \<noteq> 0 \<or> phys mod PAGING_PAGE_SIZE \<noteq> 0 then (- EINVARG, m)
      else paging_set m (load32 m chunk) virt (phys OR flags))"

fun map_range_loop :: "memory \<Rightarrow> u32 \<Rightarrow> u32 \<Rightarrow> u32 \<Rightarrow> nat \<Rightarrow> u32 \<Rightarrow> int \<Rightarrow> int \<times> memory" where
  "map_range_loop m chunk virt phys 0 flags res = (res, m)"
| "map_range_loop m chunk virt phys (Suc n) flags res =
     (let (res, m) = paging_map m chunk virt phys flags
      in if res < 0 then (res, m)
         else map_range_loop m chunk (virt + PAGING_PAGE_SIZE) (phys + PAGING_PAGE_SIZE) n flags res)"

definition paging_map_range :: "memory \<Rightarrow> u32 \<Rightarrow> u32 \<Rightarrow> u32 \<Rightarrow> int \<Rightarrow> u32 \<Rightarrow> int \<times> memory" where
  "paging_map_range m chunk virt phys count flags =
     map_range_loop m chunk virt phys (nat count) flags 0"

definition paging_map_to :: "memory \<Rightarrow> u32 \<Rightarrow> u32 \<Rightarrow> u32 \<Rightarrow> u32 \<Rightarrow> u32 \<Rightarrow> int \<times> memory" where
  "paging_map_to m chunk virt phys phys_end flags =
     (if virt mod PAGING_PAGE_SIZE \<noteq> 0 then (- EINVARG, m)
      else if phys mod PAGING_PAGE_SIZE \<noteq> 0 then (- EINVARG, m)
      else if phys_end mod PAGING_PAGE_SIZE \<noteq> 0 then (- EINVARG, m)
      else if phys_end < phys then (- EINVARG, m)
      else
        let total_bytes = phys_end - phys;
            total_pages = sint (total_bytes div PAGING_PAGE_SIZE)
        in paging_map_range m chunk virt phys total_pages flags)"

definition paging_get_physical_address :: "memory \<Rightarrow> u32 \<Rightarrow> u32 \<Rightarrow> u32" where
  "paging_get_physical_address m directory virt =
     (let virt_addr_new = paging_align_to_lower_page virt;
          difference = virt - virt_addr_new
      in (paging_get m directory virt_addr_new AND 0xfffff000) + difference)"

subsection \<open>Pages and their cells\<close>

definition pcell :: "u32 \<Rightarrow> nat \<Rightarrow> u32" where
  "pcell t i = t + of_nat (4 * i)"

lemma page_room: "page_aligned t \<Longrightarrow> unat t + 4096 \<le> 4294967296"
proof -
  assume "page_aligned t"
  then have "4096 dvd unat t" by (simp add: page_aligned_def mod_eq_0_iff_dvd)
  then obtain q where q: "unat t = 4096 * q" by (auto elim: dvdE)
  with unat_u32_bound [of t] have "q < 1048576" by simp
  with q show ?thesis by simp
qed

lemma unat_pcell: "page_aligned t \<Longrightarrow> i < 1024 \<Longrightarrow> unat (pcell t i) = unat t + 4 * i"
  unfolding pcell_def using page_room [of t] by (intro unat_plus_of_nat) simp

lemma word_aligned_pcell [simp]: "page_aligned t \<Longrightarrow> i < 1024 \<Longrightarrow> word_aligned (pcell t i)"
proof -
  assume *: "page_aligned t" "i < 1024"
  then have "4096 dvd unat t" by (simp add: page_aligned_def mod_eq_0_iff_dvd)
  then have "4 dvd unat t" by (rule dvd_trans [rotated]) simp
  with unat_pcell [OF *] show ?thesis by (simp add: word_aligned_def mod_eq_0_iff_dvd)
qed

lemma pages_apart:
  "page_aligned t \<Longrightarrow> page_aligned u \<Longrightarrow> t \<noteq> u \<Longrightarrow> unat t + 4096 \<le> unat u \<or> unat u + 4096 \<le> unat t"
proof -
  assume a: "page_aligned t" "page_aligned u" "t \<noteq> u"
  then obtain p q where "unat t = 4096 * p" "unat u = 4096 * q"
    by (auto simp: page_aligned_def mod_eq_0_iff_dvd elim!: dvdE)
  moreover from this a(3) have "p \<noteq> q" by (auto simp: word_unat_eq_iff)
  ultimately show ?thesis by (cases p q rule: linorder_cases) auto
qed

lemma pcell_eq_iff [simp]:
  assumes "page_aligned t" "page_aligned u" "i < 1024" "j < 1024"
  shows "pcell t i = pcell u j \<longleftrightarrow> t = u \<and> i = j"
proof
  assume eq: "pcell t i = pcell u j"
  then have "unat t + 4 * i = unat u + 4 * j" using unat_pcell assms by metis
  with pages_apart [OF assms(1,2)] assms(3,4) show "t = u \<and> i = j"
    by (cases "t = u") auto
qed auto

lemma page_bits: "page_aligned p \<Longrightarrow> bit p n \<Longrightarrow> 12 \<le> n"
proof -
  assume "page_aligned p" "bit p n"
  then have "take_bit 12 p = 0"
    by (simp add: word_unat_eq_iff unsigned_take_bit_eq take_bit_eq_mod unat_mod page_aligned_def)
  then have "\<not> bit (take_bit 12 p) n" by simp
  with \<open>bit p n\<close> show ?thesis by (simp add: bit_take_bit_iff not_less)
qed

lemma small_bits: "unat f < 4096 \<Longrightarrow> bit f n \<Longrightarrow> n < 12" for f :: u32
proof -
  assume "unat f < 4096" "bit f n"
  then have "take_bit 12 f = f"
    by (simp add: word_unat_eq_iff unsigned_take_bit_eq take_bit_eq_mod unat_mod)
  with \<open>bit f n\<close> show ?thesis by (metis bit_take_bit_iff)
qed

lemma page_mask_alt: "(0xfffff000 :: u32) = NOT (mask 12)"
  by (simp add: mask_eq_exp_minus_1)

lemma page_mask_or [simp]:
  assumes "page_aligned p" "unat f < 4096"
  shows "(p OR f) AND 0xfffff000 = p"
  unfolding page_mask_alt
proof (rule bit_word_eqI)
  fix n assume "n < LENGTH(32)"
  then show "bit ((p OR f) AND NOT (mask 12)) n = bit p n"
    using page_bits [OF assms(1), of n] small_bits [OF assms(2), of n]
    by (auto simp: bit_simps)
qed

lemma page_aligned_mask [simp]: "page_aligned (x AND 0xfffff000)"
proof -
  have "take_bit 12 (x AND NOT (mask 12)) = 0"
    by (rule bit_word_eqI) (auto simp: bit_simps)
  then have "unat (take_bit 12 (x AND 0xfffff000)) = 0"
    unfolding page_mask_alt by simp
  then show ?thesis by (simp add: page_aligned_def unsigned_take_bit_eq take_bit_eq_mod unat_mod)
qed

lemma page_mod_iff: "a mod 4096 = 0 \<longleftrightarrow> page_aligned a" for a :: u32
  by (simp add: word_unat_eq_iff unat_mod page_aligned_def del: mod_eq_0_iff_dvd)

subsection \<open>Directories\<close>

text \<open>The table of entry \<open>i\<close>, and the entry the tables hold for page number \<open>k\<close>.\<close>

definition table_of :: "memory \<Rightarrow> u32 \<Rightarrow> nat \<Rightarrow> u32" where
  "table_of m d i = load32 m (pcell d i) AND 0xfffff000"

definition pte_cell :: "memory \<Rightarrow> u32 \<Rightarrow> nat \<Rightarrow> u32" where
  "pte_cell m d k = pcell (table_of m d (k div 1024)) (k mod 1024)"

definition pte :: "memory \<Rightarrow> u32 \<Rightarrow> nat \<Rightarrow> u32" where
  "pte m d k = load32 m (pte_cell m d k)"

definition page_dir :: "memory \<Rightarrow> u32 \<Rightarrow> bool" where
  "page_dir m d \<longleftrightarrow> page_aligned d \<and> (\<forall>i<1024. table_of m d i \<noteq> d) \<and>
     (\<forall>i<1024. \<forall>j<1024. table_of m d i = table_of m d j \<longrightarrow> i = j)"

definition dir_pages :: "memory \<Rightarrow> u32 \<Rightarrow> u32 list" where
  "dir_pages m d = d # map (table_of m d) [0..<1024]"

definition page_no :: "u32 \<Rightarrow> nat" where
  "page_no v = unat v div 4096"

lemma page_no_bound: "page_no v < 1048576"
  using unat_u32_bound [of v] by (simp add: page_no_def less_mult_imp_div_less)

lemma table_of_aligned [simp]: "page_aligned (table_of m d i)"
  by (simp add: table_of_def)

lemma paging_indexes:
  assumes "page_aligned v"
  shows "paging_get_indexes v d0 t0 = (0, of_nat (page_no v div 1024), of_nat (page_no v mod 1024))"
proof -
  obtain k where k: "unat v = 4096 * k"
    using assms by (auto simp: page_aligned_def mod_eq_0_iff_dvd elim!: dvdE)
  with unat_u32_bound [of v] have kb: "k < 1048576" by simp
  have no: "page_no v = k" by (simp add: page_no_def k)
  have "unat (v div 4194304) = k div 1024"
    using div_mult2_eq [of "4096 * k" 4096 1024] by (simp add: unat_div k)
  moreover have "unat (v mod 4194304 div 4096) = k mod 1024"
    using mult_mod_right [of 4096 k 1024] by (simp add: unat_div unat_mod k)
  ultimately have "v div 4194304 = of_nat (k div 1024)" "v mod 4194304 div 4096 = of_nat (k mod 1024)"
    using kb by (simp_all add: word_unat_eq_iff unat_of_nat_u32)
  with no assms show ?thesis by (simp add: paging_get_indexes_def paging_is_aligned_def page_mod_iff)
qed

lemma paging_get_pte: "page_aligned v \<Longrightarrow> paging_get m d v = pte m d (page_no v)"
  by (simp add: paging_get_def paging_indexes pte_def pte_cell_def table_of_def pcell_def)

lemma paging_set_pte:
  "page_aligned v \<Longrightarrow> paging_set m d v val = (0, store32 m (pte_cell m d (page_no v)) val)"
  by (simp add: paging_set_def paging_indexes pte_cell_def table_of_def pcell_def paging_is_aligned_def
      page_mod_iff)

lemma pte_cell_aligned [simp]: "word_aligned (pte_cell m d k)"
  by (simp add: pte_cell_def)

lemma table_of_store:
  assumes "page_aligned d" "i < 1024" "page_aligned t" "j < 1024" "t \<noteq> d"
  shows "table_of (store32 m (pcell t j) v) d i = table_of m d i"
  using assms by (simp add: table_of_def)

lemma page_dir_tables:
  "page_dir m d \<Longrightarrow> page_aligned d" "page_dir m d \<Longrightarrow> i < 1024 \<Longrightarrow> table_of m d i \<noteq> d"
  by (simp_all add: page_dir_def)

text \<open>A write to one entry of a table leaves the tables and every other entry alone.\<close>

lemma pte_store:
  fixes v :: u32
  assumes "page_dir m d" "k < 1048576"
  defines "m' \<equiv> store32 m (pte_cell m d k) v"
  shows "i < 1024 \<Longrightarrow> table_of m' d i = table_of m d i"
    and "page_dir m' d"
    and "j < 1048576 \<Longrightarrow> pte m' d j = (if j = k then v else pte m d j)"
proof -
  have k: "k div 1024 < 1024" "k mod 1024 < 1024" using assms(2) by auto
  show tab: "table_of m' d i = table_of m d i" if "i < 1024" for i
    unfolding m'_def pte_cell_def using that k assms(1)
    by (intro table_of_store) (auto simp: page_dir_tables)
  show "page_dir m' d"
    using assms(1) tab by (auto simp: page_dir_def)
  show "pte m' d j = (if j = k then v else pte m d j)" if j: "j < 1048576" for j
  proof -
    have jb: "j div 1024 < 1024" "j mod 1024 < 1024" using j by auto
    then have cell: "pte_cell m' d j = pte_cell m d j" by (simp add: pte_cell_def tab)
    show ?thesis
    proof (cases "j = k")
      case True
      with cell show ?thesis by (simp add: pte_def m'_def)
    next
      case False
      then have "pte_cell m d j \<noteq> pte_cell m d k"
        using jb k assms(1) unfolding pte_cell_def page_dir_def
        by (metis pcell_eq_iff table_of_aligned div_mult_mod_eq)
      with cell False show ?thesis by (simp add: pte_def m'_def)
    qed
  qed
qed

text \<open>\<dots> and leaves every directory alone whose pages it does not write to.\<close>

lemma pte_store_other:
  fixes v :: u32
  assumes "page_aligned d" "page_aligned t" "i < 1024" "t \<notin> set (dir_pages m d)"
  defines "m' \<equiv> store32 m (pcell t i) v"
  shows "j < 1024 \<Longrightarrow> table_of m' d j = table_of m d j"
    and "k < 1048576 \<Longrightarrow> pte m' d k = pte m d k"
proof -
  show tab: "table_of m' d j = table_of m d j" if "j < 1024" for j
    unfolding m'_def using assms that by (intro table_of_store) (auto simp: dir_pages_def)
  assume "k < 1048576"
  then have k: "k div 1024 < 1024" "k mod 1024 < 1024" by auto
  then have "table_of m d (k div 1024) \<noteq> t" using assms(4) by (auto simp: dir_pages_def)
  with k tab assms show "pte m' d k = pte m d k"
    by (simp add: pte_def pte_cell_def m'_def)
qed

end
