(* ===== verification/Ports.thy ===== *)
theory Ports
  imports Paging
begin

text \<open>
  The port instructions of src/io/io.asm. What a device answers is not under the program's
  control: \<open>hw\<close> is the machine's answer to a read of a port, as a function of every port access made so
  far (the newest first). The program never changes it; each access extends the trace. What the model assumes of a device
  is stated where it is used, as a predicate on \<open>hw\<close>.
\<close>

datatype port_event =
    Out_b u16 u8 \<comment> \<open>\<open>outb(port, val)\<close>\<close>
  | Out_w u16 u16 \<comment> \<open>\<open>outw(port, val)\<close>\<close>
  | In_b u16 \<comment> \<open>\<open>insb(port)\<close>\<close>
  | In_w u16 \<comment> \<open>\<open>insw(port)\<close>\<close>

type_synonym device = "port_event list \<Rightarrow> u16 \<Rightarrow> u16"

record iostate = pgstate +
  hw :: device
  port_trace :: "port_event list"

definition outb :: "u16 \<Rightarrow> u8 \<Rightarrow> 'a iostate_scheme \<Rightarrow> 'a iostate_scheme" where
  "outb port val s = s\<lparr>port_trace := Out_b port val # port_trace s\<rparr>"

definition outw :: "u16 \<Rightarrow> u16 \<Rightarrow> 'a iostate_scheme \<Rightarrow> 'a iostate_scheme" where
  "outw port val s = s\<lparr>port_trace := Out_w port val # port_trace s\<rparr>"

definition insb :: "u16 \<Rightarrow> 'a iostate_scheme \<Rightarrow> u8 \<times> 'a iostate_scheme" where
  "insb port s = (ucast (hw s (port_trace s) port), s\<lparr>port_trace := In_b port # port_trace s\<rparr>)"

definition insw :: "u16 \<Rightarrow> 'a iostate_scheme \<Rightarrow> u16 \<times> 'a iostate_scheme" where
  "insw port s = (hw s (port_trace s) port, s\<lparr>port_trace := In_w port # port_trace s\<rparr>)"

end
