(* ===== verification/Disk.thy ===== *)
theory Disk
  imports Ports
begin

text \<open>
  The disk driver of src/disk/disk.c: programmed I/O from the ATA drive. \<open>struct disk\<close>
  is a record; the only objects of that type are the global \<open>disk\<close> and NULL, so a
  \<open>struct disk *\<close> is a \<open>disk_ref\<close>. The loop that polls the status port for DRQ may never end: it is a
  \<open>partial_function\<close> whose value None is the fault \<open>Hang\<close>. A buffer
  that is written through a pointer is the list of the bytes written to it.
\<close>

subsection \<open>Data (disk.h)\<close>

abbreviation (input) MARROWOS_DISK_TYPE_REAL :: u32 where "MARROWOS_DISK_TYPE_REAL \<equiv> 0"

text \<open>The file-system drivers a \<open>struct filesystem *\<close> can name: \<open>fat16_fs\<close> is the only one.\<close>

datatype filesystem = Fat16_fs

datatype disk_ref = Null_disk | The_disk

record disk =
  dk_type :: u32
  sector_size :: int
  dk_id :: int
  dk_filesystem :: "filesystem option"
  fs_private :: u32

record disk_stream =
  st_pos :: int
  st_disk :: disk_ref

record diskstate = iostate +
  kdisk :: disk \<comment> \<open>the global \<open>disk\<close>\<close>
  streams :: "u32 \<Rightarrow> disk_stream option" \<comment> \<open>the \<open>struct disk_stream\<close> objects of the heap\<close>

subsection \<open>Reading sectors (disk.c)\<close>

text \<open>\<open>while (!(c & 0x08)) c = insb(0x1F7);\<close>\<close>

partial_function (option) wait_drq :: "device \<Rightarrow> u8 \<Rightarrow> port_event list \<Rightarrow> port_event list option" where
  "wait_drq d c tr =
     (if c AND 0x08 \<noteq> 0 then Some tr else wait_drq d (ucast (d tr 0x1F7)) (In_b 0x1F7 # tr))"

text \<open>The inner loop: \<open>n\<close> words from the data port, low byte first in memory.\<close>

fun read_words :: "nat \<Rightarrow> 'a iostate_scheme \<Rightarrow> u8 list \<times> 'a iostate_scheme" where
  "read_words 0 s = ([], s)"
| "read_words (Suc n) s =
     (let (w, s) = insw 0x1F0 s; (bs, s) = read_words n s
      in (ucast w # ucast (drop_bit 8 w) # bs, s))"

fun read_sectors :: "nat \<Rightarrow> 'a iostate_scheme \<Rightarrow> (u8 list \<times> 'a iostate_scheme) res" where
  "read_sectors 0 s = Inr ([], s)"
| "read_sectors (Suc b) s =
     (let (c, s) = insb 0x1F7 s
      in case wait_drq (hw s) c (port_trace s) of
           None \<Rightarrow> Inl Hang
         | Some tr \<Rightarrow>
             (let (bs, s) = read_words 256 (s\<lparr>port_trace := tr\<rparr>)
              in bind_res (read_sectors b s) (\<lambda>(rest, s). Inr (bs @ rest, s))))"

definition disk_read_sector :: "'a iostate_scheme \<Rightarrow> u32 \<Rightarrow> int \<Rightarrow> (int \<times> u8 list \<times> 'a iostate_scheme) res" where
  "disk_read_sector s lba tot =
     (let s = outb 0x1F6 (ucast (drop_bit 24 lba) OR 0xE0) s;
          s = outb 0x1F2 (word_of_int tot) s;
          s = outb 0x1F3 (ucast (lba AND 0xff)) s;
          s = outb 0x1F4 (ucast (drop_bit 8 lba)) s;
          s = outb 0x1F5 (ucast (drop_bit 16 lba)) s;
          s = outb 0x1F7 0x20 s
      in bind_res (read_sectors (nat tot) s) (\<lambda>(bs, s). Inr (0, bs, s)))"

definition disk_get :: "int \<Rightarrow> disk_ref" where
  "disk_get index = (if index \<noteq> 0 then Null_disk else The_disk)"

definition disk_read_block ::
  "'a iostate_scheme \<Rightarrow> disk_ref \<Rightarrow> u32 \<Rightarrow> int \<Rightarrow> (int \<times> u8 list \<times> 'a iostate_scheme) res" where
  "disk_read_block s idisk lba tot =
     (if idisk \<noteq> The_disk then Inr (- EIO, [], s) else disk_read_sector s lba tot)"

subsection \<open>What the drive does\<close>

text \<open>
  The part of the ATA specification the driver relies on. After the writes that select LBA \<open>l\<close>, one sector,
  and the READ SECTORS command, the status eventually shows DRQ however often it is polled; and once a poll
  has shown it, the next 256 reads of the data port give the sector's words.
\<close>

definition ata_setup :: "u32 \<Rightarrow> port_event list \<Rightarrow> port_event list" where
  "ata_setup l tr =
     Out_b 0x1F7 0x20 # Out_b 0x1F5 (ucast (drop_bit 16 l)) # Out_b 0x1F4 (ucast (drop_bit 8 l)) #
     Out_b 0x1F3 (ucast (l AND 0xff)) # Out_b 0x1F2 1 # Out_b 0x1F6 (ucast (drop_bit 24 l) OR 0xE0) # tr"

abbreviation polls :: "nat \<Rightarrow> port_event list \<Rightarrow> port_event list" where
  "polls k tr \<equiv> replicate k (In_b 0x1F7) @ tr"

definition drq :: "device \<Rightarrow> port_event list \<Rightarrow> bool" where
  "drq d tr \<longleftrightarrow> (ucast (d tr 0x1F7) :: u8) AND 0x08 \<noteq> 0"

definition image_word :: "(nat \<Rightarrow> u8) \<Rightarrow> nat \<Rightarrow> u16" where
  "image_word img a = ucast (img a) OR push_bit 8 (ucast (img (Suc a)))"

definition ata_disk :: "device \<Rightarrow> (nat \<Rightarrow> u8) \<Rightarrow> bool" where
  "ata_disk d img \<longleftrightarrow>
     (\<forall>tr l. unat l < 2 ^ 28 \<longrightarrow>
        (\<exists>k. drq d (polls k (ata_setup l tr))) \<and>
        (\<forall>k j. drq d (polls k (ata_setup l tr)) \<and> j < 256 \<longrightarrow>
           d (replicate j (In_w 0x1F0) @ polls (Suc k) (ata_setup l tr)) 0x1F0
             = image_word img (512 * unat l + 2 * j)))"

text \<open>The bytes of the disk from position \<open>p\<close> on.\<close>

definition image_bytes :: "(nat \<Rightarrow> u8) \<Rightarrow> nat \<Rightarrow> nat \<Rightarrow> u8 list" where
  "image_bytes img p n = map img [p..<p + n]"

lemma image_bytes_append: "image_bytes img p (m + n) = image_bytes img p m @ image_bytes img (p + m) n"
  using upt_add_eq_append [of p "p + m" n] by (simp add: image_bytes_def add.assoc)

lemma length_image_bytes [simp]: "length (image_bytes img p n) = n"
  by (simp add: image_bytes_def)

lemma bit_image_word:
  "bit (image_word img a) n \<longleftrightarrow> n < 8 \<and> bit (img a) n \<or> 8 \<le> n \<and> n < 16 \<and> bit (img (Suc a)) (n - 8)"
  using bit_imp_le_length [of "img a" n] bit_imp_le_length [of "img (Suc a)" "n - 8"]
  by (auto simp: image_word_def bit_or_iff bit_push_bit_iff bit_ucast_iff)

lemma image_word_bytes:
  "(ucast (image_word img a) :: u8) = img a"
  "(ucast (drop_bit 8 (image_word img a)) :: u8) = img (Suc a)"
proof -
  show "(ucast (image_word img a) :: u8) = img a"
    by (rule bit_word_eqI) (simp add: bit_ucast_iff bit_image_word)
  show "(ucast (drop_bit 8 (image_word img a)) :: u8) = img (Suc a)"
    by (rule bit_word_eqI) (simp add: bit_ucast_iff bit_drop_bit_eq bit_image_word)
qed

subsection \<open>The driver reads the disk\<close>

lemma wait_drq_ends:
  assumes "drq d (polls k tr)"
  shows "\<exists>k'. wait_drq d c tr = Some (polls k' tr) \<and> (k' = 0 \<and> c AND 0x08 \<noteq> 0 \<or> (\<exists>k''. k' = Suc k'' \<and> drq d (polls k'' tr)))"
  using assms
proof (induction k arbitrary: c tr)
  case 0
  show ?case
  proof (cases "c AND 0x08 \<noteq> 0")
    case True
    then show ?thesis by (subst wait_drq.simps) auto
  next
    case False
    then have "wait_drq d c tr = wait_drq d (ucast (d tr 0x1F7)) (In_b 0x1F7 # tr)"
      by (subst wait_drq.simps) simp
    also have "\<dots> = Some (polls 1 tr)" using 0 by (subst wait_drq.simps) (simp add: drq_def)
    finally show ?thesis using 0 by (intro exI [of _ 1]) simp
  qed
next
  case (Suc k)
  show ?case
  proof (cases "c AND 0x08 \<noteq> 0")
    case True
    then show ?thesis by (subst wait_drq.simps) auto
  next
    case False
    then have eq: "wait_drq d c tr = wait_drq d (ucast (d tr 0x1F7)) (In_b 0x1F7 # tr)"
      by (subst wait_drq.simps) simp
    have pl: "polls k (In_b 0x1F7 # tr) = polls (Suc k) tr" for k
      by (simp add: replicate_app_Cons_same)
    from Suc.IH [of "In_b 0x1F7 # tr" "ucast (d tr 0x1F7)"] Suc.prems obtain k' where
      k': "wait_drq d (ucast (d tr 0x1F7)) (In_b 0x1F7 # tr) = Some (polls (Suc k') tr)"
        "k' = 0 \<and> ucast (d tr 0x1F7) AND (0x08 :: u8) \<noteq> 0 \<or> (\<exists>k''. k' = Suc k'' \<and> drq d (polls (Suc k'') tr))"
      unfolding pl by blast
    then have "drq d (polls k' tr)" by (auto simp: drq_def)
    with eq k'(1) show ?thesis by (intro exI [of _ "Suc k'"]) auto
  qed
qed

lemma read_words_image:
  assumes "\<And>j. j < m + n \<Longrightarrow>
      hw s (replicate j (In_w 0x1F0) @ tr) 0x1F0 = image_word img (p + 2 * j)"
    and "port_trace s = replicate m (In_w 0x1F0) @ tr"
  shows "read_words n s = (image_bytes img (p + 2 * m) (2 * n),
     s\<lparr>port_trace := replicate (m + n) (In_w 0x1F0) @ tr\<rparr>)"
  using assms
proof (induction n arbitrary: m s)
  case 0
  then show ?case by (simp add: image_bytes_def)
next
  case (Suc n)
  let ?s = "s\<lparr>port_trace := replicate (Suc m) (In_w 0x1F0) @ tr\<rparr>"
  have w: "insw 0x1F0 s = (image_word img (p + 2 * m), ?s)"
    using Suc.prems by (simp add: insw_def)
  have "read_words n ?s = (image_bytes img (p + 2 * Suc m) (2 * n),
      ?s\<lparr>port_trace := replicate (Suc m + n) (In_w 0x1F0) @ tr\<rparr>)"
    using Suc.prems by (intro Suc.IH) simp_all
  moreover have "image_bytes img (p + 2 * m) (2 * Suc n)
      = img (p + 2 * m) # img (Suc (p + 2 * m)) # image_bytes img (p + 2 * Suc m) (2 * n)"
    by (simp add: image_bytes_def upt_rec [of "p + 2 * m"] upt_rec [of "Suc (p + 2 * m)"])
  ultimately show ?case using w by (simp add: image_word_bytes)
qed

theorem disk_read_one:
  assumes "ata_disk (hw s) img" "unat l < 2 ^ 28"
  shows "\<exists>tr. disk_read_block s The_disk l 1 =
    Inr (0, image_bytes img (512 * unat l) 512, s\<lparr>port_trace := tr\<rparr>)"
proof -
  let ?d = "hw s" and ?tr = "ata_setup l (port_trace s)"
  obtain k where k: "drq ?d (polls k ?tr)" using assms unfolding ata_disk_def by blast
  let ?c = "ucast (?d ?tr 0x1F7) :: u8"
  have "\<exists>k. drq ?d (polls k ?tr) \<and> wait_drq ?d ?c (polls 1 ?tr) = Some (polls (Suc k) ?tr)"
  proof (cases "drq ?d ?tr")
    case True
    then have "wait_drq ?d ?c (polls 1 ?tr) = Some (polls 1 ?tr)"
      by (subst wait_drq.simps) (simp add: drq_def)
    with True show ?thesis by (intro exI [of _ 0]) simp
  next
    case False
    with k obtain k0 where "k = Suc k0" by (cases k) auto
    with k have "drq ?d (polls k0 (polls 1 ?tr))" by (simp add: replicate_app_Cons_same)
    from wait_drq_ends [OF this, of ?c] False obtain k''
      where "wait_drq ?d ?c (polls 1 ?tr) = Some (polls (Suc k'') (polls 1 ?tr))"
        "drq ?d (polls k'' (polls 1 ?tr))" by (auto simp: drq_def)
    then show ?thesis by (intro exI [of _ "Suc k''"]) (simp add: replicate_app_Cons_same)
  qed
  then obtain k where k: "drq ?d (polls k ?tr)" "wait_drq ?d ?c (polls 1 ?tr) = Some (polls (Suc k) ?tr)"
    by blast
  let ?s = "s\<lparr>port_trace := polls (Suc k) ?tr\<rparr>"
  have "read_words 256 ?s = (image_bytes img (512 * unat l + 2 * 0) (2 * 256),
      ?s\<lparr>port_trace := replicate (0 + 256) (In_w 0x1F0) @ polls (Suc k) ?tr\<rparr>)"
    using assms k(1) by (intro read_words_image) (simp_all add: ata_disk_def)
  then have "disk_read_block s The_disk l 1 =
    Inr (0, image_bytes img (512 * unat l) 512,
      s\<lparr>port_trace := replicate 256 (In_w 0x1F0) @ polls (Suc k) ?tr\<rparr>)"
    using k(2) by (simp add: disk_read_block_def disk_read_sector_def outb_def insb_def ata_setup_def)
  then show ?thesis by blast
qed

end
