(* ===== verification/Room.thy ===== *)
theory Room
  imports KHeap "HOL-Library.Multiset"
begin

text \<open>
  Room for requests of more than one block. A heap with few allocations cannot be fragmented much: its free blocks lie in at most one run more
  than there are allocations, so a request is served as soon as it is smaller than the average run. \<open>hadds\<close> records what an operation
  that allocates such requests did to the heap and to the memory.
\<close>

subsection \<open>Fragmentation\<close>

definition live_set :: "heap \<Rightarrow> (u32 \<times> nat) set" where
  "live_set h = {(p, n). heap_live h p n}"

text \<open>The places where a run of free entries can start: the beginning of the table and the end of every allocation.\<close>

definition run_starts :: "u8 list \<Rightarrow> nat set" where
  "run_starts es = insert 0 ((\<lambda>(s, n). s + n) ` {(s, n). allocated es s n})"

lemma free_entry_run:
  assumes "wf_entries es" "k < length es" "entry_free (es ! k)"
  shows "\<exists>e \<in> run_starts es. e \<le> k \<and> (\<forall>i. e \<le> i \<and> i \<le> k \<longrightarrow> entry_free (es ! i))"
  using assms(2,3)
proof (induction k)
  case 0
  then show ?case by (auto simp: run_starts_def)
next
  case (Suc k)
  show ?case
  proof (cases "entry_free (es ! k)")
    case True
    then obtain e where "e \<in> run_starts es" "e \<le> k" "\<forall>i. e \<le> i \<and> i \<le> k \<longrightarrow> entry_free (es ! i)"
      using Suc by auto
    then show ?thesis using Suc.prems(2) by (intro bexI [of _ e]) (auto simp: le_Suc_eq)
  next
    case False
    then have "es ! k \<noteq> 0" using entry_free_0 by metis
    then obtain s n where a: "allocated es s n" "s \<le> k" "k < s + n"
      using assms(1) Suc.prems(1) unfolding wf_entries_def by (meson Suc_lessD)
    have "\<not> Suc k < s + n" using allocated_not_free [OF a(1), of "Suc k"] a(2) Suc.prems(2) by auto
    then have "s + n = Suc k" using a(3) by simp
    then have "Suc k \<in> run_starts es" using a(1) unfolding run_starts_def by force
    then show ?thesis using Suc.prems(2) by (intro bexI [of _ "Suc k"]) (auto simp: le_antisym)
  qed
qed

lemma allocated_finite: "finite {(s, n). allocated es s n}"
  by (rule finite_subset [of _ "{..length es} \<times> {..length es}"]) (auto simp: allocated_def)

lemma free_count_runs:
  assumes "wf_entries es" "\<And>s. \<not> free_run es s n" "0 < n"
  shows "free_count es \<le> (n - 1) * Suc (card {(s, m). allocated es s m})"
proof -
  have "{k. k < length es \<and> entry_free (es ! k)} \<subseteq> (\<Union>e \<in> run_starts es. {e..<e + (n - 1)})"
  proof
    fix k assume "k \<in> {k. k < length es \<and> entry_free (es ! k)}"
    then have k: "k < length es" "entry_free (es ! k)" by simp_all
    obtain e where e: "e \<in> run_starts es" "e \<le> k" "\<forall>i. e \<le> i \<and> i \<le> k \<longrightarrow> entry_free (es ! i)"
      using free_entry_run [OF assms(1) k] by blast
    have "k < e + (n - 1)"
    proof (rule ccontr)
      assume "\<not> k < e + (n - 1)"
      then have "free_run es e n" using e(3) k(1) assms(3) by (auto simp: free_run_def)
      then show False using assms(2) by blast
    qed
    then show "k \<in> (\<Union>e \<in> run_starts es. {e..<e + (n - 1)})" using e(1,2) by auto
  qed
  moreover have fin: "finite (run_starts es)" by (simp add: run_starts_def allocated_finite)
  ultimately have "free_count es \<le> card (\<Union>e \<in> run_starts es. {e..<e + (n - 1)})"
    unfolding free_count_def length_filter_conv_card by (intro card_mono) auto
  also have "\<dots> \<le> (\<Sum>e \<in> run_starts es. card {e..<e + (n - 1)})" by (rule card_UN_le [OF fin])
  also have "\<dots> = (n - 1) * card (run_starts es)" by simp
  also have "\<dots> \<le> (n - 1) * Suc (card {(s, m). allocated es s m})"
  proof (rule mult_le_mono2)
    have "card (run_starts es) \<le> Suc (card ((\<lambda>(s, n). s + n) ` {(s, n). allocated es s n}))"
      unfolding run_starts_def by (rule card_insert_le_m1) simp_all
    also have "\<dots> \<le> Suc (card {(s, m). allocated es s m})" using card_image_le [OF allocated_finite] by (rule Suc_leI [OF le_imp_less_Suc])
    finally show "card (run_starts es) \<le> Suc (card {(s, m). allocated es s m})" .
  qed
  finally show ?thesis .
qed

lemma live_set_image: "live_set h = (\<lambda>(s, n). (block_addr h s, n)) ` {(s, n). allocated (ht_entries (heap_tbl h)) s n}"
  by (auto simp: live_set_def heap_live_def)

lemma live_set_finite: "finite (live_set h)"
  by (simp add: live_set_image allocated_finite)

lemma card_live_set:
  assumes "heap_inv h"
  shows "card (live_set h) = card {(s, n). allocated (ht_entries (heap_tbl h)) s n}"
  unfolding live_set_image
proof (intro card_image inj_onI)
  fix x y assume a: "x \<in> {(s, n). allocated (ht_entries (heap_tbl h)) s n}" "y \<in> {(s, n). allocated (ht_entries (heap_tbl h)) s n}"
    and e: "(case x of (s, n) \<Rightarrow> (block_addr h s, n)) = (case y of (s, n) \<Rightarrow> (block_addr h s, n))"
  from a have "fst x \<le> length (ht_entries (heap_tbl h))" "fst y \<le> length (ht_entries (heap_tbl h))"
    by (auto simp: allocated_def)
  from block_addr_inj [OF assms this] e show "x = y" by (cases x, cases y) auto
qed

lemma heap_malloc_room:
  assumes "heap_inv h" "fair_request sz" "(blocks_of sz - 1) * Suc (card (live_set h)) < free_count (ht_entries (heap_tbl h))"
  obtains p h' where "heap_malloc h sz = Inr (p, h')" "p \<noteq> 0"
    "free_count (ht_entries (heap_tbl h)) = free_count (ht_entries (heap_tbl h')) + blocks_of sz"
proof -
  let ?es = "ht_entries (heap_tbl h)" and ?n = "blocks_of sz"
  have "0 < ?n" using blocks_of_pos [OF assms(2)] .
  moreover have wf: "wf_entries ?es" using assms(1) by (simp add: heap_inv_def)
  ultimately obtain s0 where "free_run ?es s0 ?n"
    using free_count_runs [of ?es ?n] assms(3) unfolding card_live_set [OF assms(1)] by (metis not_le)
  then have "\<not> no_space ?es ?n" "\<And>s. \<not> short_tail ?es ?n s" by (auto simp: no_space_def short_tail_def)
  with heap_malloc_cases [OF assms(1,2)] obtain s where s: "first_fit ?es ?n s"
    and eq: "heap_malloc h sz = Inr (block_addr h s, with_entries h (overwrite ?es s (chunk_bytes ?n)))"
    by blast
  have run: "free_run ?es s ?n" using s by (simp add: first_fit_def)
  then have "unat (block_addr h s) \<noteq> 0"
    using unat_block_addr [OF assms(1), of s] assms(1) by (auto simp: free_run_def heap_inv_def)
  moreover have "?n - 1 \<le> (?n - 1) * Suc (card (live_set h))" by simp
  then have "?n \<le> free_count ?es" using assms(3) by linarith
  ultimately show thesis using eq free_count_take [OF run] by (intro that) auto
qed

subsection \<open>Adding allocations\<close>

text \<open>
  \<open>hadds h m h' m' xs\<close>: from heap \<open>h\<close> and memory \<open>m\<close> on, exactly the allocations \<open>xs\<close> (an address and its number of blocks) were added, and the
  bytes of what was allocated in \<open>h\<close> are as they were. \<open>hgrown\<close> is the case of single blocks.
\<close>

definition hadds :: "heap \<Rightarrow> memory \<Rightarrow> heap \<Rightarrow> memory \<Rightarrow> (u32 \<times> nat) list \<Rightarrow> bool" where
  "hadds h m h' m' xs \<longleftrightarrow> heap_inv h' \<and> distinct xs \<and> live_set h' = live_set h \<union> set xs \<and> live_set h \<inter> set xs = {} \<and>
     free_count (ht_entries (heap_tbl h)) = free_count (ht_entries (heap_tbl h')) + sum_list (map snd xs) \<and>
     (\<forall>q n a. heap_live h q n \<and> addr_in a q (4096 * n) \<longrightarrow> m' a = m a)"

lemma haddsD:
  assumes "hadds h m h' m' xs"
  shows "heap_inv h'" "distinct xs" "heap_live h' q n \<longleftrightarrow> heap_live h q n \<or> (q, n) \<in> set xs"
    "(q, n) \<in> set xs \<Longrightarrow> \<not> heap_live h q n"
    "free_count (ht_entries (heap_tbl h)) = free_count (ht_entries (heap_tbl h')) + sum_list (map snd xs)"
    "heap_live h q n \<Longrightarrow> addr_in a q (4096 * n) \<Longrightarrow> m' a = m a"
    "card (live_set h') = card (live_set h) + length xs"
proof -
  show "heap_inv h'" "distinct xs" "free_count (ht_entries (heap_tbl h)) = free_count (ht_entries (heap_tbl h')) + sum_list (map snd xs)"
    "heap_live h q n \<Longrightarrow> addr_in a q (4096 * n) \<Longrightarrow> m' a = m a"
    using assms unfolding hadds_def by blast+
  have l: "live_set h' = live_set h \<union> set xs" "live_set h \<inter> set xs = {}" using assms unfolding hadds_def by blast+
  then show "heap_live h' q n \<longleftrightarrow> heap_live h q n \<or> (q, n) \<in> set xs" "(q, n) \<in> set xs \<Longrightarrow> \<not> heap_live h q n"
    by (auto simp: live_set_def set_eq_iff)
  show "card (live_set h') = card (live_set h) + length xs"
    using card_Un_disjoint [OF live_set_finite _ l(2)] l(1) distinct_card [OF \<open>distinct xs\<close>] by simp
qed

lemma haddsI:
  assumes "heap_inv h'" "distinct xs" "\<And>q n. heap_live h' q n \<longleftrightarrow> heap_live h q n \<or> (q, n) \<in> set xs"
    "\<And>q n. (q, n) \<in> set xs \<Longrightarrow> \<not> heap_live h q n"
    "free_count (ht_entries (heap_tbl h)) = free_count (ht_entries (heap_tbl h')) + sum_list (map snd xs)"
    "\<And>q n a. heap_live h q n \<Longrightarrow> addr_in a q (4096 * n) \<Longrightarrow> m' a = m a"
  shows "hadds h m h' m' xs"
  unfolding hadds_def using assms by (auto simp: live_set_def)

lemma hadds_refl: "heap_inv h \<Longrightarrow> hadds h m h m []"
  by (rule haddsI) simp_all

lemma hgrown_hadds: "hgrown h m h' m' ps \<Longrightarrow> hadds h m h' m' (map (\<lambda>p. (p, 1)) ps)"
  by (rule haddsI) (use hgrownD in \<open>auto simp: distinct_map inj_on_def comp_def sum_list_triv\<close>)

lemma hadds_trans:
  assumes "hadds h m h1 m1 xs" "hadds h1 m1 h2 m2 ys"
  shows "hadds h m h2 m2 (xs @ ys)"
proof (rule haddsI)
  note a = haddsD [OF assms(1)] and b = haddsD [OF assms(2)]
  have "set xs \<inter> set ys = {}" using b(4) a(3) by force
  then show "distinct (xs @ ys)" using a(2) b(2) by simp
  show "m2 x = m x" if "heap_live h q n" "addr_in x q (4096 * n)" for q n x
    using a(6) [OF that] b(6) [of q n x] a(3) that by simp
qed (use haddsD [OF assms(1)] haddsD [OF assms(2)] in auto)

text \<open>The order of the allocations does not matter.\<close>

lemma hadds_perm: "hadds h m h' m' xs \<Longrightarrow> mset xs = mset ys \<Longrightarrow> hadds h m h' m' ys"
  unfolding hadds_def by (metis mset_eq_imp_distinct_iff mset_eq_setD mset_map sum_mset_sum_list)

text \<open>Writing inside the added allocations.\<close>

lemma hadds_write_inside:
  assumes "hadds h m h' m' xs" "\<And>a. (\<forall>(p, k) \<in> set xs. \<not> addr_in a p (4096 * k)) \<Longrightarrow> m'' a = m' a"
  shows "hadds h m h' m'' xs"
proof (rule haddsI)
  note a = haddsD [OF assms(1)]
  show "m'' x = m x" if "heap_live h q n" "addr_in x q (4096 * n)" for q n x
  proof -
    have "\<not> addr_in x p (4096 * k)" if pk: "(p, k) \<in> set xs" for p k
    proof -
      have "heap_live h' q n" "heap_live h' p k" using a(3) \<open>heap_live h q n\<close> pk by blast+
      then have "p = q \<and> k = n \<or> apart p k q n" using kheap_pages.live_apart [OF a(1)] by blast
      moreover have "\<not> (p = q \<and> k = n)" using a(4) [OF pk] \<open>heap_live h q n\<close> by blast
      ultimately show ?thesis using \<open>addr_in x q _\<close> by (auto simp: apart_def addr_in_def)
    qed
    then have "m'' x = m' x" by (intro assms(2)) blast
    then show ?thesis using a(6) [OF that] by simp
  qed
qed (use haddsD [OF assms(1)] in auto)

lemma hadds_write:
  assumes "hadds h m h' m' xs" "(p, k) \<in> set xs" "\<And>a. \<not> addr_in a p (4096 * k) \<Longrightarrow> m'' a = m' a"
  shows "hadds h m h' m'' xs"
  by (rule hadds_write_inside [OF assms(1)]) (use assms(2,3) in auto)

lemma kzalloc_adds:
  fixes s :: "'a mstate_scheme"
  assumes "kheap_inv s" "fair_request sz" "(blocks_of sz - 1) * Suc (card (live_set (kheap s))) < kavail s"
  obtains p h m where "kzalloc s sz = Inr (p, s\<lparr>kheap := h, mem := m\<rparr>)" "p \<noteq> 0"
    "hadds (kheap s) (mem s) h m [(p, blocks_of sz)]"
proof -
  obtain p h' where p: "heap_malloc (kheap s) sz = Inr (p, h')" "p \<noteq> 0"
    "kavail s = free_count (ht_entries (heap_tbl h')) + blocks_of sz"
    by (rule heap_malloc_room [OF assms])
  let ?m = "memset (mem s) p 0 sz"
  have z: "kzalloc s sz = Inr (p, s\<lparr>kheap := h', mem := ?m\<rparr>)" using p(1,2) by (simp add: kzalloc_Inr)
  have "hadds (kheap s) (mem s) h' ?m [(p, blocks_of sz)]"
  proof (rule haddsI)
    show "?m a = mem s a" if "klive s q n" "addr_in a q (4096 * n)" for q n a
      using kz.alloc_keeps_bytes [OF assms(1,2) z that(1,2)] by simp
  qed (use kz.alloc_inv [OF assms(1) z] kz.alloc_live [OF assms(1,2) z p(2)] kz.alloc_was_dead [OF assms(1,2) z p(2)] p(3) in auto)
  with z p(2) show thesis by (rule that)
qed

text \<open>Giving back one of the added allocations.\<close>

lemma kfree_adds:
  fixes s' :: "'a mstate_scheme"
  assumes "hadds h m (kheap s') (mem s') (xs @ (p, k) # ys)"
  obtains h' where "kfree s' p = Inr (s'\<lparr>kheap := h'\<rparr>)" "hadds h m h' (mem s') (xs @ ys)"
proof -
  note a = haddsD [OF assms]
  have l: "klive s' p k" using a(3) by simp
  obtain s'' where s'': "kfree s' p = Inr s''" using kz.free_ok [OF a(1) l] by blast
  then obtain h' where h': "s'' = s'\<lparr>kheap := h'\<rparr>" by (auto simp: kfree_Inr)
  have only: "n = k" if "klive s' p n" for n using kz.live_size_unique [OF a(1) l that] by simp
  have "hadds h m h' (mem s') (xs @ ys)"
  proof (rule haddsI)
    show "heap_live h' q n \<longleftrightarrow> heap_live h q n \<or> (q, n) \<in> set (xs @ ys)" for q n
      using kz.free_live [OF a(1) l s'', of q n] a(2) a(3) [of q n] a(4) [of p k] only [of n] by (cases "q = p") (auto simp: h')
    show "mem s' x = m x" if "heap_live h q n" "addr_in x q (4096 * n)" for q n x
      using a(6) [OF that] .
  qed (use kz.free_inv [OF a(1) l s''] kz.free_avail [OF a(1) l s''] a(2,4,5) in \<open>auto simp: h'\<close>)
  with s'' h' show thesis by (intro that) simp_all
qed

lemma hadds_hgrown:
  assumes "hadds h m h' m' (map (\<lambda>p. (p, 1)) ps)"
  shows "hgrown h m h' m' ps"
proof (rule hgrownI)
  note a = haddsD [OF assms]
  fix p assume p: "p \<in> set ps"
  then have l: "heap_live h' p 1" using a(3) by auto
  then show "p \<noteq> 0" using kheap_pages.live_bounds [OF a(1)] by fastforce
  show "\<not> heap_live h p n" for n
  proof
    assume n: "heap_live h p n"
    then have "n = 1" using a(3) kheap_pages.live_size_unique [OF a(1) l] by blast
    then show False using n a(4) [of p 1] p by auto
  qed
qed (use haddsD [OF assms] in \<open>auto simp: distinct_map comp_def sum_list_triv\<close>)

subsection \<open>Requests are served\<close>

text \<open>C12: \<open>heap_malloc\<close> serves every request of \<open>n\<close> blocks on a heap with \<open>a\<close> allocations and more than \<open>(n - 1) * (a + 1)\<close> free blocks, however
  they are spread over the table.\<close>

theorem heap_malloc_serves:
  assumes "heap_inv h" "fair_request sz" "(blocks_of sz - 1) * Suc (card (live_set h)) < free_count (ht_entries (heap_tbl h))"
  shows "\<exists>p h'. heap_malloc h sz = Inr (p, h') \<and> p \<noteq> 0 \<and> heap_live h' p (blocks_of sz) \<and>
    free_count (ht_entries (heap_tbl h)) = free_count (ht_entries (heap_tbl h')) + blocks_of sz"
  by (rule heap_malloc_room [OF assms]) (use kheap_pages.alloc_is_live [OF assms(1,2)] in blast)

text \<open>The whole pool as one request.\<close>

lemma heap_malloc_serves_witness: "\<exists>p h'. heap_malloc kernel_fresh_heap 104857600 = Inr (p, h') \<and> p \<noteq> 0"
proof -
  have "live_set kernel_fresh_heap = {}" by (simp add: live_set_def kernel_fresh_heap_facts)
  then show ?thesis
    using heap_malloc_serves [OF kernel_fresh_heap_facts(1), of 104857600] kernel_fresh_heap_facts(3)
    by (auto simp: fair_request_def blocks_of_def)
qed

end
