(* ===== verification/PagingTables.thy ===== *)
theory PagingTables
  imports Paging Room
begin

text \<open>
  What \<open>paging_new_4gb\<close>, the mapping operations and \<open>paging_free_4gb\<close> do to page tables, proved
  from the contract of the kernel heap: the new directory is an identity map of all 2^20 pages in
  fresh pages, \<open>paging_map_range\<close> changes the entries of its range only, and freeing a directory
  gives back the pages it owns.
\<close>

subsection \<open>Filling a table\<close>

definition identity_entry :: "nat \<Rightarrow> u8 \<Rightarrow> u32" where
  "identity_entry k flags = of_nat (4096 * k) OR ucast flags"

lemma fill_table_Suc:
  "fill_table m e ofs fl (Suc n) =
     store32 (fill_table m e ofs fl n) (pcell e n) ((ofs + of_nat n * 4096) OR ucast fl)"
  by (simp add: fill_table_def pcell_def)

lemma fill_table_cell:
  "page_aligned e \<Longrightarrow> n \<le> 1024 \<Longrightarrow> b < n \<Longrightarrow>
     load32 (fill_table m e ofs fl n) (pcell e b) = (ofs + of_nat b * 4096) OR ucast fl"
  by (induction n) (auto simp: fill_table_Suc less_Suc_eq)

lemma fill_table_outside:
  "page_aligned e \<Longrightarrow> n \<le> 1024 \<Longrightarrow> \<not> addr_in a e 4096 \<Longrightarrow> fill_table m e ofs fl n a = m a"
proof (induction n)
  case 0
  then show ?case by (simp add: fill_table_def)
next
  case (Suc n)
  then have "\<not> addr_in a (pcell e n) 4"
    by (auto simp: addr_in_def unat_pcell)
  moreover have "unat (pcell e n) + 4 \<le> 4294967296"
    using Suc.prems page_room [of e] by (simp add: unat_pcell)
  ultimately show ?case using Suc by (simp add: fill_table_Suc store32_outside)
qed

text \<open>A store into one page leaves the bytes of every other address alone.\<close>

lemma store_cell_outside:
  assumes "page_aligned t" "i < 1024" "\<not> addr_in a t 4096"
  shows "store32 m (pcell t i) v a = m a"
proof -
  have "\<not> addr_in a (pcell t i) 4" using assms by (auto simp: addr_in_def unat_pcell)
  moreover have "unat (pcell t i) + 4 \<le> 4294967296"
    using page_room [OF assms(1)] assms by (simp add: unat_pcell)
  ultimately show ?thesis by (simp add: store32_outside)
qed

lemma pcell_bytes_in:
  assumes "page_aligned t" "i < 1024" "j < 4"
  shows "addr_in (pcell t i + of_nat j) t 4096"
proof -
  have "unat (pcell t i + of_nat j) = unat t + 4 * i + j"
    using unat_pcell [OF assms(1,2)] page_room [OF assms(1)] assms
    by (subst unat_plus_of_nat) auto
  with assms show ?thesis by (simp add: addr_in_def)
qed

lemma load_cell_cong:
  assumes "page_aligned t" "i < 1024" "\<And>a. addr_in a t 4096 \<Longrightarrow> m a = m' a"
  shows "load32 m (pcell t i) = load32 m' (pcell t i)"
  using pcell_bytes_in [OF assms(1,2)] assms(3) by (intro load32_cong) blast

lemma addr_in_page_apart:
  assumes "page_aligned t" "page_aligned u" "t \<noteq> u" "addr_in a t 4096"
  shows "\<not> addr_in a u 4096"
  using pages_apart [OF assms(1-3)] assms(4) by (auto simp: addr_in_def)

subsection \<open>Creating the tables\<close>

text \<open>
  What the loop that builds the tables \<open>i, \<dots>, 1023\<close> establishes: \<open>ts\<close> are the new
  pages, one per table, each filled with its part of the identity map.
\<close>

definition tables_built ::
  "'a mstate_scheme \<Rightarrow> 'a mstate_scheme \<Rightarrow> u32 \<Rightarrow> u8 \<Rightarrow> nat \<Rightarrow> u32 list \<Rightarrow> bool" where
  "tables_built s s' directory flags i ts \<longleftrightarrow>
     kheap_inv s' \<and> i + length ts = 1024 \<and> distinct ts \<and> kavail s' = kavail s - length ts \<and>
     (\<forall>q n. klive s' q n \<longleftrightarrow> klive s q n \<or> q \<in> set ts \<and> n = 1) \<and>
     (\<forall>t\<in>set ts. page_aligned t \<and> t \<noteq> 0 \<and> (\<forall>n. \<not> klive s t n)) \<and>
     (\<forall>j<i. load32 (mem s') (pcell directory j) = load32 (mem s) (pcell directory j)) \<and>
     (\<forall>j<length ts. load32 (mem s') (pcell directory (i + j)) = ts ! j OR (ucast flags OR 2)) \<and>
     (\<forall>j<length ts. \<forall>b<1024. load32 (mem s') (pcell (ts ! j) b) = identity_entry (1024 * (i + j) + b) flags) \<and>
     (\<forall>q n a. klive s q n \<and> q \<noteq> directory \<and> addr_in a q (4096 * n) \<longrightarrow> mem s' a = mem s a)"

lemma tables_builtD:
  assumes "tables_built s s' directory flags i ts"
  shows "kheap_inv s'" "i + length ts = 1024" "distinct ts" "kavail s' = kavail s - length ts"
    "klive s' q n \<longleftrightarrow> klive s q n \<or> q \<in> set ts \<and> n = 1"
    "t \<in> set ts \<Longrightarrow> page_aligned t \<and> t \<noteq> 0 \<and> \<not> klive s t n"
    "j < i \<Longrightarrow> load32 (mem s') (pcell directory j) = load32 (mem s) (pcell directory j)"
    "k < length ts \<Longrightarrow> load32 (mem s') (pcell directory (i + k)) = ts ! k OR (ucast flags OR 2)"
    "k < length ts \<Longrightarrow> b < 1024 \<Longrightarrow>
       load32 (mem s') (pcell (ts ! k) b) = identity_entry (1024 * (i + k) + b) flags"
    "klive s q n \<Longrightarrow> q \<noteq> directory \<Longrightarrow> addr_in a q (4096 * n) \<Longrightarrow> mem s' a = mem s a"
  using assms unfolding tables_built_def by blast+

lemma new_tables_loop_built:
  fixes s :: "'a mstate_scheme"
  assumes "kheap_inv s" "klive s directory 1" "i + n = 1024" "n \<le> kavail s"
    and "offset = of_nat (4194304 * i)"
  shows "\<exists>s' ts. new_tables_loop s directory flags i offset = Inr s' \<and> tables_built s s' directory flags i ts"
  using assms
proof (induction n arbitrary: s i offset)
  case 0
  then have "new_tables_loop s directory flags i offset = Inr s" "tables_built s s directory flags i []"
    by (simp_all add: new_tables_loop.simps tables_built_def)
  then show ?case by blast
next
  case (Suc n)
  have dir: "page_aligned directory" using klive_aligned Suc.prems(1,2) by blast
  have i: "i < 1024" using Suc.prems(3) by simp
  have av: "0 < kavail s" using Suc.prems(4) by simp
  obtain e s1 where e: "kzalloc s 4096 = Inr (e, s1)" "e \<noteq> 0" "kheap_inv s1" "kavail s1 = kavail s - 1"
      "\<And>q m. klive s1 q m \<longleftrightarrow> klive s q m \<or> q = e \<and> m = 1" "page_aligned e" "\<And>m. \<not> klive s e m"
      "\<And>q m a. klive s q m \<Longrightarrow> addr_in a q (4096 * m) \<Longrightarrow> mem s1 a = mem s a"
    by (rule kzalloc_one_page [OF Suc.prems(1) av, of 4096]) auto
  have ed: "e \<noteq> directory" using e(7) Suc.prems(2) by blast
  define m1 where "m1 = fill_table (mem s1) e offset flags 1024"
  define m2 where "m2 = store32 m1 (pcell directory i) (e OR (ucast flags OR 2))"
  define s2 where "s2 = s1\<lparr>mem := m2\<rparr>"
  have s2: "kheap_inv s2" "\<And>q m. klive s2 q m \<longleftrightarrow> klive s q m \<or> q = e \<and> m = 1" "kavail s2 = kavail s - 1"
    using e by (simp_all add: s2_def)
  have bytes: "mem s2 a = mem s a" if "klive s q m" "q \<noteq> directory" "addr_in a q (4096 * m)" for q m a
  proof -
    have "apart q m directory 1" using kz.live_apart [OF Suc.prems(1) that(1) Suc.prems(2)] that(2) by blast
    then have nd: "\<not> addr_in a directory 4096" using that(3) by (auto simp: apart_def addr_in_def)
    have "apart q m e 1" using kz.live_apart [OF e(3), of q m e 1] e(5,7) that(1) by blast
    then have ne: "\<not> addr_in a e 4096" using that(3) by (auto simp: apart_def addr_in_def)
    show ?thesis
      using e(8) [OF that(1,3)] fill_table_outside [OF e(6) _ ne] store_cell_outside [OF dir i nd]
      by (simp add: s2_def m2_def m1_def)
  qed
  have dircell: "load32 (mem s2) (pcell directory j) =
      (if j = i then e OR (ucast flags OR 2) else load32 (mem s) (pcell directory j))" if "j < 1024" for j
  proof (cases "j = i")
    case False
    have "m1 a = mem s a" if "addr_in a directory 4096" for a
      using fill_table_outside [OF e(6) _ addr_in_page_apart [OF dir e(6) ed [symmetric] that]]
        e(8) [OF Suc.prems(2), of a] that by (simp add: m1_def)
    then have "load32 m1 (pcell directory j) = load32 (mem s) (pcell directory j)"
      by (intro load_cell_cong [OF dir \<open>j < 1024\<close>])
    with False show ?thesis using dir i that by (simp add: s2_def m2_def)
  qed (simp add: s2_def m2_def)
  have entries: "load32 (mem s2) (pcell e b) = identity_entry (1024 * i + b) flags" if "b < 1024" for b
  proof -
    have "load32 (mem s2) (pcell e b) = load32 m1 (pcell e b)"
      using dir i ed e(6) that by (simp add: s2_def m2_def)
    also have "\<dots> = (offset + of_nat b * 4096) OR ucast flags"
      using fill_table_cell [OF e(6) _ that] by (simp add: m1_def)
    also have "offset + of_nat b * 4096 = of_nat (4096 * (1024 * i + b))"
      by (simp add: Suc.prems(5) algebra_simps)
    finally show ?thesis by (simp add: identity_entry_def)
  qed
  have "\<exists>s' ts. new_tables_loop s2 directory flags (Suc i) (offset + 4194304) = Inr s' \<and>
      tables_built s2 s' directory flags (Suc i) ts"
    using Suc.prems s2 by (intro Suc.IH) (simp_all add: algebra_simps)
  then obtain s' ts where loop: "new_tables_loop s2 directory flags (Suc i) (offset + 4194304) = Inr s'"
    and built: "tables_built s2 s' directory flags (Suc i) ts" by blast
  note b = tables_builtD [OF built]
  have nin: "e \<notin> set ts" using b(6) [of e 1] s2(2) by blast
  have ebytes: "mem s' a = mem s2 a" if "addr_in a e 4096" for a
    using b(10) [of e 1 a] s2(2) ed that by simp
  have "tables_built s s' directory flags i (e # ts)"
    unfolding tables_built_def
  proof (intro conjI allI impI ballI)
    show "load32 (mem s') (pcell ((e # ts) ! j) c) = identity_entry (1024 * (i + j) + c) flags"
      if "j < length (e # ts)" "c < 1024" for j c
      using that b(9) [of "j - 1" c] entries [of c] load_cell_cong [OF e(6) that(2) ebytes]
      by (cases j) auto
    show "load32 (mem s') (pcell directory (i + j)) = (e # ts) ! j OR (ucast flags OR 2)"
      if "j < length (e # ts)" for j
      using that b(7) [of i] b(8) [of "j - 1"] dircell [OF i] by (cases j) auto
    show "load32 (mem s') (pcell directory j) = load32 (mem s) (pcell directory j)" if "j < i" for j
      using that b(7) [of j] dircell [of j] i by simp
    show "mem s' a = mem s a" if "klive s q m \<and> q \<noteq> directory \<and> addr_in a q (4096 * m)" for q m a
      using that b(10) [of q m a] bytes [of q m a] s2(2) [of q m] by simp
  qed (use b(1-6) nin s2(2,3) e(2,6,7) Suc.prems(3,4) in \<open>auto\<close>)
  moreover have "new_tables_loop s directory flags i offset = Inr s'"
    using e(1) i loop by (simp add: new_tables_loop.simps [of s] Let_def s2_def m2_def m1_def pcell_def or.assoc)
  ultimately show ?case by blast
qed

subsection \<open>A new directory\<close>

lemma unat_take_bit_small: "take_bit 12 x = x \<Longrightarrow> unat x < 4096" for x :: u32
proof -
  assume "take_bit 12 x = x"
  then have "unat x = take_bit 12 (unat x)" by (metis unsigned_take_bit_eq)
  then have "unat x = unat x mod 4096" by (simp add: take_bit_eq_mod)
  moreover have "unat x mod 4096 < 4096" by simp
  ultimately show ?thesis by linarith
qed

lemma ucast_flags_small: "unat (ucast (f :: u8) :: u32) < 4096" "unat (ucast f OR 2 :: u32) < 4096"
  by (rule unat_take_bit_small; rule bit_word_eqI;
      auto simp: bit_simps bit_numeral_rec dest: bit_imp_le_length)+

text \<open>
  The pages of a chunk are its own: the chunk, the directory it names and the directory's tables
  are distinct one-page allocations.
\<close>

definition chunk_dir :: "'a mstate_scheme \<Rightarrow> u32 \<Rightarrow> u32" where
  "chunk_dir s chunk = load32 (mem s) chunk"

definition chunk_pages :: "'a mstate_scheme \<Rightarrow> u32 \<Rightarrow> u32 list" where
  "chunk_pages s chunk = dir_pages (mem s) (chunk_dir s chunk) @ [chunk]"

definition chunk_owned :: "'a mstate_scheme \<Rightarrow> u32 \<Rightarrow> bool" where
  "chunk_owned s chunk \<longleftrightarrow> distinct (chunk_pages s chunk) \<and> (\<forall>p\<in>set (chunk_pages s chunk). klive s p 1)"

lemma chunk_owned_dir:
  assumes "kheap_inv s" "chunk_owned s chunk"
  shows "page_dir (mem s) (chunk_dir s chunk)" "page_aligned chunk"
    "chunk \<notin> set (dir_pages (mem s) (chunk_dir s chunk))"
proof -
  have d: "distinct (map (table_of (mem s) (chunk_dir s chunk)) [0..<1024])"
      "\<And>i. i < 1024 \<Longrightarrow> table_of (mem s) (chunk_dir s chunk) i \<noteq> chunk_dir s chunk"
    using assms(2) by (auto simp: chunk_owned_def chunk_pages_def dir_pages_def) (metis atLeast0LessThan imageI lessThan_iff)
  from assms(2) have "klive s (chunk_dir s chunk) 1" "klive s chunk 1"
    by (simp_all add: chunk_owned_def chunk_pages_def dir_pages_def)
  then have al: "page_aligned (chunk_dir s chunk)" "page_aligned chunk"
    using klive_aligned [OF assms(1)] by blast+
  then show "page_aligned chunk" by simp
  have "i = j" if "i < 1024" "j < 1024"
    "table_of (mem s) (chunk_dir s chunk) i = table_of (mem s) (chunk_dir s chunk) j" for i j
    using d(1) that nth_eq_iff_index_eq [OF d(1), of i j] by simp
  with al d(2) show "page_dir (mem s) (chunk_dir s chunk)" by (auto simp: page_dir_def)
  show "chunk \<notin> set (dir_pages (mem s) (chunk_dir s chunk))"
    using assms(2) by (auto simp: chunk_owned_def chunk_pages_def)
qed

lemma page_no_split: "page_aligned v \<Longrightarrow> unat v = 4096 * page_no v"
  using div_mult_mod_eq [of "unat v" 4096] by (simp add: page_aligned_def page_no_def)

text \<open>An address of a page, as the processor splits it.\<close>

lemma page_offset:
  assumes "page_aligned v" "k < 4096"
  shows "unat (v + of_nat k) = unat v + k" "drop_bit 22 (v + of_nat k) = of_nat (page_no v div 1024)"
    "drop_bit 12 (v + of_nat k) AND 0x3ff = of_nat (page_no v mod 1024)" "(v + of_nat k) AND 0xfff = of_nat k" "page_no (v + of_nat k) = page_no v"
proof -
  show u: "unat (v + of_nat k) = unat v + k" using page_room [OF assms(1)] assms(2) by (intro unat_plus_of_nat) simp
  have n: "unat v + k = 4096 * page_no v + k" using page_no_split [OF assms(1)] by simp
  have b: "page_no v < 1048576" by (rule page_no_bound)
  have d: "(4096 * page_no v + k) div 4096 = page_no v" using assms(2) by simp
  then show "page_no (v + of_nat k) = page_no v" unfolding page_no_def [of "v + of_nat k"] u n .
  have "(4096 * page_no v + k) div 4194304 = page_no v div 1024"
    using div_mult2_eq [of "4096 * page_no v + k" 4096 1024] d by simp
  then show "drop_bit 22 (v + of_nat k) = of_nat (page_no v div 1024)"
    using b by (simp add: word_unat_eq_iff unat_drop_bit_eq drop_bit_eq_div unat_div unat_mod u n unat_of_nat_u32)
  have m: "x AND 0x3ff = take_bit 10 x" "x AND 0xfff = take_bit 12 x" for x :: u32 by (simp_all add: take_bit_eq_mask mask_eq_exp_minus_1)
  then show "drop_bit 12 (v + of_nat k) AND 0x3ff = of_nat (page_no v mod 1024)" "(v + of_nat k) AND 0xfff = of_nat k"
    unfolding m using assms(2) d by (simp_all add: word_unat_eq_iff unsigned_take_bit_eq take_bit_eq_mod unat_drop_bit_eq
      drop_bit_eq_div unat_div unat_mod u n unat_of_nat_u32)
qed

text \<open>
  The entries an address goes through in the address space of a chunk: of its table in the directory, and of its page in the table. The
  processor allows what both allow.
\<close>

definition pde :: "memory \<Rightarrow> u32 \<Rightarrow> nat \<Rightarrow> u32" where
  "pde m chunk i = load32 m (pcell (load32 m chunk) i)"

definition page_entry :: "memory \<Rightarrow> u32 \<Rightarrow> nat \<Rightarrow> u32" where
  "page_entry m chunk k = pte m (load32 m chunk) k"

definition page_rights :: "memory \<Rightarrow> u32 \<Rightarrow> u32 \<Rightarrow> u32" where
  "page_rights m chunk v = pde m chunk (page_no v div 1024) AND page_entry m chunk (page_no v) AND 7"

lemma page_low_bits: "page_aligned t \<Longrightarrow> (t OR f) AND 7 = f AND 7" for t f :: u32
proof (rule bit_word_eqI)
  fix n assume t: "page_aligned t"
  have "(7 :: u32) = mask 3" by (simp add: mask_eq_exp_minus_1)
  then have "bit (7 :: u32) n \<Longrightarrow> n < 3" by (simp add: bit_mask_iff)
  then show "bit ((t OR f) AND 7) n \<longleftrightarrow> bit (f AND 7) n"
    using page_bits [OF t, of n] by (auto simp: bit_simps)
qed

lemma page_rights_cong:
  assumes "\<And>i. i < 1024 \<Longrightarrow> pde m' chunk i = pde m chunk i" "page_entry m' chunk (page_no v) = page_entry m chunk (page_no v)"
  shows "page_rights m' chunk v = page_rights m chunk v"
  using assms(1) [of "page_no v div 1024"] assms(2) page_no_bound [of v] by (simp add: page_rights_def)

lemma new_4gb_built:
  fixes s :: "'a mstate_scheme"
  assumes "kheap_inv s" "1026 \<le> kavail s"
  obtains chunk s' where "paging_new_4gb s flags = Inr (chunk, s')" "kheap_inv s'"
    "kavail s' = kavail s - 1026" "chunk_owned s' chunk"
    "\<And>q n. klive s' q n \<longleftrightarrow> klive s q n \<or> q \<in> set (chunk_pages s' chunk) \<and> n = 1"
    "\<And>p n. p \<in> set (chunk_pages s' chunk) \<Longrightarrow> \<not> klive s p n"
    "\<And>k. k < 1048576 \<Longrightarrow> pte (mem s') (chunk_dir s' chunk) k = identity_entry k flags"
    "\<And>q n a. klive s q n \<Longrightarrow> addr_in a q (4096 * n) \<Longrightarrow> mem s' a = mem s a"
    "\<And>i. i < 1024 \<Longrightarrow> \<exists>t. page_aligned t \<and> pde (mem s') chunk i = t OR (ucast flags OR 2)"
proof -
  have av: "0 < kavail s" using assms by simp
  obtain d s1 where d: "kzalloc s 4096 = Inr (d, s1)" "d \<noteq> 0" "kheap_inv s1" "kavail s1 = kavail s - 1"
      "\<And>q n. klive s1 q n \<longleftrightarrow> klive s q n \<or> q = d \<and> n = 1" "page_aligned d" "\<And>n. \<not> klive s d n"
      "\<And>q n a. klive s q n \<Longrightarrow> addr_in a q (4096 * n) \<Longrightarrow> mem s1 a = mem s a"
    by (rule kzalloc_one_page [OF assms(1) av, of 4096]) auto
  have "klive s1 d 1" "1024 \<le> kavail s1" using d(4,5) assms(2) by auto
  then obtain s2 ts where loop: "new_tables_loop s1 d flags 0 0 = Inr s2"
      and built: "tables_built s1 s2 d flags 0 ts"
    using new_tables_loop_built [OF d(3), of d 0 1024 0 flags] by auto
  note b = tables_builtD [OF built]
  have len: "length ts = 1024" using b(2) by simp
  have av2: "0 < kavail s2" using b(4) d(4) len assms(2) by simp
  obtain c s3 where c: "kzalloc s2 4 = Inr (c, s3)" "c \<noteq> 0" "kheap_inv s3" "kavail s3 = kavail s2 - 1"
      "\<And>q n. klive s3 q n \<longleftrightarrow> klive s2 q n \<or> q = c \<and> n = 1" "page_aligned c" "\<And>n. \<not> klive s2 c n"
      "\<And>q n a. klive s2 q n \<Longrightarrow> addr_in a q (4096 * n) \<Longrightarrow> mem s3 a = mem s2 a"
    by (rule kzalloc_one_page [OF b(1) av2, of 4]) auto
  define s' where "s' = s3\<lparr>mem := store32 (mem s3) c d\<rparr>"
  have c0: "c = pcell c 0" by (simp add: pcell_def)
  have live2: "klive s2 q n \<longleftrightarrow> klive s q n \<or> q = d \<and> n = 1 \<or> q \<in> set ts \<and> n = 1" for q n
    using b(5) d(5) by auto
  have bytes: "mem s' a = mem s2 a" if "klive s2 q n" "addr_in a q (4096 * n)" for q n a
  proof -
    have "apart q n c 1" using kz.live_apart [OF c(3), of q n c 1] c(5,7) that(1) by blast
    then have "\<not> addr_in a c 4096" using that(2) by (auto simp: apart_def addr_in_def)
    then have "store32 (mem s3) (pcell c 0) d a = mem s3 a"
      by (intro store_cell_outside [OF c(6)]) simp_all
    then show ?thesis using c(8) [OF that] c0 by (simp add: s'_def)
  qed
  have page_bytes: "load32 (mem s') (pcell q i) = load32 (mem s2) (pcell q i)"
    if "klive s2 q 1" "page_aligned q" "i < 1024" for q i
    using bytes [OF that(1)] by (intro load_cell_cong [OF that(2,3)]) simp
  have dir: "chunk_dir s' c = d" by (simp add: chunk_dir_def s'_def)
  have tab: "table_of (mem s') d j = ts ! j" if "j < 1024" for j
  proof -
    have "load32 (mem s') (pcell d j) = ts ! j OR (ucast flags OR 2)"
      using page_bytes [of d j] live2 d(6) that b(8) [of j] len by simp
    moreover have "page_aligned (ts ! j)" using b(6) [of "ts ! j"] that len by simp
    ultimately show ?thesis unfolding table_of_def by (simp add: ucast_flags_small)
  qed
  have "map (table_of (mem s') d) [0..<1024] = ts"
    by (rule nth_equalityI) (auto simp: tab len)
  then have pages: "chunk_pages s' c = d # ts @ [c]"
    by (simp add: chunk_pages_def dir dir_pages_def)
  have "pte (mem s') d k = identity_entry k flags" if k: "k < 1048576" for k
  proof -
    have t: "ts ! (k div 1024) \<in> set ts" using k len by simp
    have "pte (mem s') d k = load32 (mem s2) (pcell (ts ! (k div 1024)) (k mod 1024))"
      using k tab [of "k div 1024"] t b(6) live2
      by (simp add: pte_def pte_cell_def page_bytes)
    with k len b(9) [of "k div 1024" "k mod 1024"] show ?thesis by simp
  qed
  moreover have "paging_new_4gb s flags = Inr (c, s')"
    by (simp add: paging_new_4gb_def d(1) loop c(1) s'_def)
  moreover have "chunk_owned s' c"
    using b(3) b(6) [of d 1] d(5) b(6) [of _ 1] c(7) [of 1] live2 c(5)
    unfolding chunk_owned_def pages by (auto simp: s'_def)
  moreover have "klive s' q n \<longleftrightarrow> klive s q n \<or> q \<in> set (chunk_pages s' c) \<and> n = 1" for q n
    unfolding pages using c(5) live2 by (auto simp: s'_def)
  moreover have "\<not> klive s p n" if "p \<in> set (chunk_pages s' c)" for p n
    using that unfolding pages using d(7) b(6) d(5) c(7) live2 by auto
  moreover have "mem s' a = mem s a" if q: "klive s q n" "addr_in a q (4096 * n)" for q n a
  proof -
    have "q \<noteq> d" using d(7) q(1) by blast
    then show ?thesis
      using bytes [of q n a] b(10) [of q n a] d(8) [OF q] live2 d(5) q by simp
  qed
  moreover have "kheap_inv s'" "kavail s' = kavail s - 1026"
    using c(3,4) b(4) d(4) len by (simp_all add: s'_def)
  moreover have "\<exists>t. page_aligned t \<and> pde (mem s') c i = t OR (ucast flags OR 2)" if "i < 1024" for i
  proof -
    have "pde (mem s') c i = ts ! i OR (ucast flags OR 2)"
      using page_bytes [of d i] live2 d(6) that b(8) [of i] len dir by (simp add: pde_def chunk_dir_def)
    moreover have "page_aligned (ts ! i)" using b(6) [of "ts ! i"] that len by simp
    ultimately show ?thesis by blast
  qed
  ultimately show thesis using dir by (intro that [of c s']) auto
qed

subsection \<open>Mapping a range\<close>

definition chunk_ok :: "memory \<Rightarrow> u32 \<Rightarrow> bool" where
  "chunk_ok m chunk \<longleftrightarrow> page_aligned chunk \<and> page_dir m (load32 m chunk) \<and>
     chunk \<notin> set (dir_pages m (load32 m chunk))"

text \<open>The allocations of a new directory are its pages.\<close>

lemma length_chunk_pages: "length (chunk_pages s chunk) = 1026"
  by (simp add: chunk_pages_def dir_pages_def)

lemma new_4gb_adds:
  fixes s :: "'a mstate_scheme"
  assumes "kheap_inv s" "1026 \<le> kavail s"
  obtains chunk s' where "paging_new_4gb s flags = Inr (chunk, s')" "chunk_owned s' chunk"
    "\<And>k. k < 1048576 \<Longrightarrow> pte (mem s') (chunk_dir s' chunk) k = identity_entry k flags"
    "hadds (kheap s) (mem s) (kheap s') (mem s') (map (\<lambda>q. (q, 1)) (chunk_pages s' chunk))"
    "\<And>i. i < 1024 \<Longrightarrow> \<exists>t. page_aligned t \<and> pde (mem s') chunk i = t OR (ucast flags OR 2)"
proof (rule new_4gb_built [OF assms, of flags])
  fix chunk s'
  assume a: "paging_new_4gb s flags = Inr (chunk, s')" "kheap_inv s'" "kavail s' = kavail s - 1026" "chunk_owned s' chunk"
    "\<And>q n. klive s' q n \<longleftrightarrow> klive s q n \<or> q \<in> set (chunk_pages s' chunk) \<and> n = 1"
    "\<And>p n. p \<in> set (chunk_pages s' chunk) \<Longrightarrow> \<not> klive s p n"
    "\<And>k. k < 1048576 \<Longrightarrow> pte (mem s') (chunk_dir s' chunk) k = identity_entry k flags"
    "\<And>q n a. klive s q n \<Longrightarrow> addr_in a q (4096 * n) \<Longrightarrow> mem s' a = mem s a"
    "\<And>i. i < 1024 \<Longrightarrow> \<exists>t. page_aligned t \<and> pde (mem s') chunk i = t OR (ucast flags OR 2)"
  have "hadds (kheap s) (mem s) (kheap s') (mem s') (map (\<lambda>q. (q, 1)) (chunk_pages s' chunk))"
  proof (rule haddsI)
    show "distinct (map (\<lambda>q. (q, 1 :: nat)) (chunk_pages s' chunk))"
      using a(4) by (simp add: chunk_owned_def distinct_map inj_on_def)
    have "sum_list (map snd (map (\<lambda>q. (q, 1 :: nat)) (chunk_pages s' chunk))) = 1026"
      by (simp add: comp_def sum_list_triv length_chunk_pages)
    then show "kavail s = kavail s' + sum_list (map snd (map (\<lambda>q. (q, 1)) (chunk_pages s' chunk)))"
      using a(3) assms(2) by linarith
  qed (use a(2,5,6,8) in auto)
  with a(1,4,7,9) show thesis by (intro that)
qed

lemma chunk_owned_ok: "kheap_inv s \<Longrightarrow> chunk_owned s chunk \<Longrightarrow> chunk_ok (mem s) chunk"
  using chunk_owned_dir [of s chunk] by (simp add: chunk_ok_def chunk_dir_def)

text \<open>A byte that lies in none of the pages \<open>ps\<close>.\<close>

definition outside_pages :: "u32 list \<Rightarrow> u32 \<Rightarrow> bool" where
  "outside_pages ps a \<longleftrightarrow> (\<forall>p\<in>set ps. \<not> addr_in a p 4096)"

lemma dir_pages_cong:
  "(\<And>i. i < 1024 \<Longrightarrow> table_of m' d i = table_of m d i) \<Longrightarrow> dir_pages m' d = dir_pages m d"
  by (simp add: dir_pages_def)

lemma paging_map_step:
  assumes "chunk_ok m chunk" "page_aligned virt" "page_aligned phys"
  shows "\<exists>m'. paging_map m chunk virt phys flags = (0, m') \<and> chunk_ok m' chunk \<and>
    load32 m' chunk = load32 m chunk \<and>
    dir_pages m' (load32 m chunk) = dir_pages m (load32 m chunk) \<and>
    (\<forall>k<1048576. pte m' (load32 m chunk) k =
       (if k = page_no virt then phys OR flags else pte m (load32 m chunk) k)) \<and>
    (\<forall>a. outside_pages (dir_pages m (load32 m chunk)) a \<longrightarrow> m' a = m a)"
proof -
  let ?d = "load32 m chunk" and ?k = "page_no virt"
  let ?m = "store32 m (pte_cell m ?d ?k) (phys OR flags)"
  have c: "page_aligned chunk" "page_dir m ?d" "chunk \<notin> set (dir_pages m ?d)"
    using assms(1) by (auto simp: chunk_ok_def)
  have k: "?k < 1048576" by (rule page_no_bound)
  then have kb: "?k div 1024 < 1024" "?k mod 1024 < 1024" by auto
  note st = pte_store [OF c(2) k, where v = "phys OR flags"]
  have t: "table_of m ?d (?k div 1024) \<in> set (dir_pages m ?d)"
    using kb by (simp add: dir_pages_def)
  with c(3) have "table_of m ?d (?k div 1024) \<noteq> chunk" by metis
  moreover have "chunk = pcell chunk 0" by (simp add: pcell_def)
  ultimately have ch: "load32 ?m chunk = ?d"
    using c(1) kb unfolding pte_cell_def
    by (metis load32_store32_other word_aligned_pcell pcell_eq_iff table_of_aligned zero_less_numeral)
  have pages: "dir_pages ?m ?d = dir_pages m ?d" by (rule dir_pages_cong) (rule st(1))
  have "?m a = m a" if "outside_pages (dir_pages m ?d) a" for a
    unfolding pte_cell_def using that t kb
    by (intro store_cell_outside) (auto simp: outside_pages_def)
  moreover have "chunk_ok ?m chunk" using c ch pages st(2) by (simp add: chunk_ok_def)
  moreover have "paging_map m chunk virt phys flags = (0, ?m)"
    using assms(2,3) by (simp add: paging_map_def page_mod_iff paging_set_pte)
  ultimately show ?thesis using ch pages st(3) by blast
qed

lemma page_no_next:
  assumes "page_aligned v" "Suc (page_no v) < 1048576"
  shows "page_aligned (v + 4096)" "page_no (v + 4096) = Suc (page_no v)"
proof -
  note v = page_no_split [OF assms(1)]
  then have "unat (v + 4096) = 4096 * Suc (page_no v)"
    using assms(2) unat_plus_of_nat [of v 4096] by simp
  then show "page_aligned (v + 4096)" "page_no (v + 4096) = Suc (page_no v)"
    by (simp_all add: page_aligned_def page_no_def)
qed

lemma page_aligned_next: "page_aligned p \<Longrightarrow> page_aligned (p + 4096)"
  using mod_mod_cancel [of 4096 4294967296 "unat p + 4096"]
  by (simp add: page_aligned_def unat_word_ariths)

lemma map_range_loop_maps:
  assumes "chunk_ok m chunk" "page_aligned virt" "page_aligned phys" "page_no virt + n \<le> 1048576"
  shows "\<exists>m'. map_range_loop m chunk virt phys n flags 0 = (0, m') \<and> chunk_ok m' chunk \<and>
    load32 m' chunk = load32 m chunk \<and>
    dir_pages m' (load32 m chunk) = dir_pages m (load32 m chunk) \<and>
    (\<forall>k<1048576. pte m' (load32 m chunk) k =
       (if page_no virt \<le> k \<and> k < page_no virt + n then (phys + of_nat (4096 * (k - page_no virt))) OR flags
        else pte m (load32 m chunk) k)) \<and>
    (\<forall>a. outside_pages (dir_pages m (load32 m chunk)) a \<longrightarrow> m' a = m a)"
  using assms
proof (induction n arbitrary: m virt phys)
  case 0
  then show ?case by auto
next
  case (Suc n)
  let ?d = "load32 m chunk"
  obtain m1 where m1: "paging_map m chunk virt phys flags = (0, m1)" "chunk_ok m1 chunk"
      "load32 m1 chunk = ?d" "dir_pages m1 ?d = dir_pages m ?d"
      "\<And>k. k < 1048576 \<Longrightarrow> pte m1 ?d k = (if k = page_no virt then phys OR flags else pte m ?d k)"
      "\<And>a. outside_pages (dir_pages m ?d) a \<Longrightarrow> m1 a = m a"
    using paging_map_step [OF Suc.prems(1-3), of flags] by blast
  show ?case
  proof (cases n)
    case 0
    then show ?thesis using m1 by auto
  next
    case (Suc n')
    then have "Suc (page_no virt) < 1048576" using Suc.prems(4) by simp
    note nx = page_no_next [OF Suc.prems(2) this]
    obtain m2 where m2: "map_range_loop m1 chunk (virt + 4096) (phys + 4096) n flags 0 = (0, m2)"
        "chunk_ok m2 chunk" "load32 m2 chunk = ?d" "dir_pages m2 ?d = dir_pages m ?d"
        "\<And>k. k < 1048576 \<Longrightarrow> pte m2 ?d k =
           (if Suc (page_no virt) \<le> k \<and> k < Suc (page_no virt) + n
            then (phys + 4096 + of_nat (4096 * (k - Suc (page_no virt)))) OR flags else pte m1 ?d k)"
        "\<And>a. outside_pages (dir_pages m ?d) a \<Longrightarrow> m2 a = m1 a"
      using Suc.IH [OF m1(2) nx(1) page_aligned_next [OF Suc.prems(3)], unfolded m1(3,4) nx(2)] Suc.prems(4)
      by (metis add_Suc_shift)
    have shift: "(phys + 4096) + of_nat (4096 * (k - Suc (page_no virt))) = phys + of_nat (4096 * (k - page_no virt))"
      if "Suc (page_no virt) \<le> k" for k
    proof -
      have "k - page_no virt = Suc (k - Suc (page_no virt))" using that by simp
      then show ?thesis by (simp add: algebra_simps)
    qed
    have "pte m2 ?d k = (if page_no virt \<le> k \<and> k < page_no virt + Suc n
        then (phys + of_nat (4096 * (k - page_no virt))) OR flags else pte m ?d k)" if "k < 1048576" for k
    proof (cases "Suc (page_no virt) \<le> k")
      case True
      show ?thesis unfolding m2(5) [OF that] m1(5) [OF that] shift [OF True] using True by auto
    next
      case False
      then show ?thesis unfolding m2(5) [OF that] m1(5) [OF that] by auto
    qed
    then show ?thesis using m1 m2 by (auto simp del: of_nat_mult)
  qed
qed

lemma total_pages:
  assumes "phys \<le> phys_end" "page_aligned phys" "page_aligned phys_end"
  shows "nat (sint ((phys_end - phys) div 4096)) = page_no phys_end - page_no phys"
proof -
  have u: "unat (phys_end - phys) = unat phys_end - unat phys" using assms(1) by (simp add: unat_sub)
  note q = page_no_split [OF assms(3)] page_no_split [OF assms(2)]
  have "unat ((phys_end - phys) div 4096) = page_no phys_end - page_no phys"
    unfolding unat_div u q by (simp flip: diff_mult_distrib2)
  then have "uint ((phys_end - phys) div 4096) = int (page_no phys_end - page_no phys)"
    by (simp add: uint_nat)
  with page_no_bound [of phys_end] show ?thesis
    unfolding sint_u32 by simp
qed


subsection \<open>Freeing a directory\<close>

text \<open>\<open>kfree\<close> does not touch the bytes, so the loop reads the tables the chunk had at the start.\<close>

lemma free_tables_loop_frees:
  fixes s :: "'a mstate_scheme"
  defines "tab \<equiv> \<lambda>s chunk. table_of (mem s) (chunk_dir s chunk)"
  assumes "kheap_inv s" "i + n = 1024"
    and "distinct (map (tab s chunk) [i..<1024])" "\<And>j. i \<le> j \<Longrightarrow> j < 1024 \<Longrightarrow> klive s (tab s chunk j) 1"
  shows "\<exists>s'. free_tables_loop s chunk i = Inr s' \<and> kheap_inv s' \<and> mem s' = mem s \<and>
    kavail s' = kavail s + n \<and>
    (\<forall>q m. klive s' q m \<longleftrightarrow> klive s q m \<and> q \<notin> tab s chunk ` {i..<1024})"
  using assms(2-)
proof (induction n arbitrary: s i)
  case 0
  then show ?case by (simp add: free_tables_loop.simps)
next
  case (Suc n)
  then have i: "i < 1024" "[i..<1024] = i # [Suc i..<1024]" by (simp_all add: upt_conv_Cons)
  have l: "klive s (tab s chunk i) 1" using Suc.prems(4) i by simp
  obtain s1 where s1: "kfree s (tab s chunk i) = Inr s1" using kz.free_ok [OF Suc.prems(1) l] by blast
  have inv1: "kheap_inv s1" by (rule kz.free_inv [OF Suc.prems(1) l s1])
  have mem1: "mem s1 = mem s" by (rule kz.free_bytes [OF s1])
  have live1: "klive s1 q m \<longleftrightarrow> klive s q m \<and> q \<noteq> tab s chunk i" for q m
    by (rule kz.free_live [OF Suc.prems(1) l s1])
  have tab1: "tab s1 chunk = tab s chunk" by (simp add: tab_def chunk_dir_def mem1)
  have d: "tab s chunk i \<notin> set (map (tab s chunk) [Suc i..<1024])"
      "distinct (map (tab s chunk) [Suc i..<1024])"
    using Suc.prems(3) unfolding i(2) by simp_all
  have "klive s1 (tab s1 chunk j) 1" if "Suc i \<le> j" "j < 1024" for j
  proof -
    have "tab s chunk j \<in> set (map (tab s chunk) [Suc i..<1024])" using that by simp
    with d(1) have "tab s chunk j \<noteq> tab s chunk i" by metis
    with that Suc.prems(4) [of j] show ?thesis unfolding tab1 live1 by simp
  qed
  then obtain s' where s': "free_tables_loop s1 chunk (Suc i) = Inr s'" "kheap_inv s'" "mem s' = mem s1"
      "kavail s' = kavail s1 + n" "\<And>q m. klive s' q m \<longleftrightarrow> klive s1 q m \<and> q \<notin> tab s chunk ` {Suc i..<1024}"
    using Suc.IH [OF inv1, of "Suc i"] Suc.prems(2) d(2) unfolding tab1 by auto
  have "free_tables_loop s chunk i = Inr s'"
    using i s1 s'(1) by (simp add: free_tables_loop.simps [of s] tab_def table_of_def chunk_dir_def pcell_def)
  moreover have "kavail s1 = kavail s + 1" by (rule kz.free_avail [OF Suc.prems(1) l s1])
  moreover have "{i..<1024} = insert i {Suc i..<1024}" using i(1) by auto
  ultimately show ?case using s' mem1 live1 by auto
qed

lemma free_4gb_frees:
  fixes s :: "'a mstate_scheme"
  assumes "kheap_inv s" "chunk_owned s chunk"
  shows "\<exists>s'. paging_free_4gb s chunk = Inr s' \<and> kheap_inv s' \<and> mem s' = mem s \<and>
    kavail s' = kavail s + 1026 \<and>
    (\<forall>q m. klive s' q m \<longleftrightarrow> klive s q m \<and> q \<notin> set (chunk_pages s chunk))"
proof -
  let ?d = "chunk_dir s chunk" and ?t = "table_of (mem s) (chunk_dir s chunk)"
  have o: "distinct (map ?t [0..<1024])" "?d \<notin> ?t ` {0..<1024}" "chunk \<notin> ?t ` {0..<1024}" "chunk \<noteq> ?d"
      "klive s ?d 1" "klive s chunk 1" "\<And>j. j < 1024 \<Longrightarrow> klive s (?t j) 1"
    using assms(2) by (auto simp: chunk_owned_def chunk_pages_def dir_pages_def)
  obtain s1 where s1: "free_tables_loop s chunk 0 = Inr s1" "kheap_inv s1" "mem s1 = mem s"
      "kavail s1 = kavail s + 1024" "\<And>q m. klive s1 q m \<longleftrightarrow> klive s q m \<and> q \<notin> ?t ` {0..<1024}"
    using free_tables_loop_frees [OF assms(1), of 0 1024 chunk] o(1,7) by auto
  have l1: "klive s1 ?d 1" using o s1(5) by simp
  obtain s2 where s2: "kfree s1 ?d = Inr s2" using kz.free_ok [OF s1(2) l1] by blast
  note f2 = kz.free_inv [OF s1(2) l1 s2] kz.free_bytes [OF s2] kz.free_avail [OF s1(2) l1 s2]
    kz.free_live [OF s1(2) l1 s2]
  have l2: "klive s2 chunk 1" using o s1(5) f2(4) by simp
  obtain s3 where s3: "kfree s2 chunk = Inr s3" using kz.free_ok [OF f2(1) l2] by blast
  note f3 = kz.free_inv [OF f2(1) l2 s3] kz.free_bytes [OF s3] kz.free_avail [OF f2(1) l2 s3]
    kz.free_live [OF f2(1) l2 s3]
  have "paging_free_4gb s chunk = Inr s3"
    using s1(1,3) s2 s3 by (simp add: paging_free_4gb_def chunk_dir_def)
  then show ?thesis
    using f2 f3 s1 by (auto simp: chunk_pages_def dir_pages_def)
qed

subsection \<open>Physical addresses\<close>

lemma unat_align_lower: "unat (paging_align_to_lower_page v) = 4096 * page_no v"
proof -
  have "v mod 4096 \<le> v" by (simp add: word_le_nat_alt unat_mod)
  then have "unat (paging_align_to_lower_page v) = unat v - unat v mod 4096"
    by (simp add: paging_align_to_lower_page_def unat_sub unat_mod)
  then show ?thesis by (simp add: page_no_def minus_mod_eq_mult_div)
qed

lemma align_lower_page:
  "page_aligned (paging_align_to_lower_page v)" "page_no (paging_align_to_lower_page v) = page_no v"
  by (simp_all add: page_aligned_def page_no_def [of "paging_align_to_lower_page v"] unat_align_lower)

lemma physical_address:
  "paging_get_physical_address m d v = (pte m d (page_no v) AND 0xfffff000) + v mod 4096"
  by (simp add: paging_get_physical_address_def paging_get_pte align_lower_page)
    (simp add: paging_align_to_lower_page_def)

lemma identity_entry_page:
  assumes "k < 1048576"
  shows "identity_entry k flags AND 0xfffff000 = of_nat (4096 * k)"
  unfolding identity_entry_def
proof (rule page_mask_or)
  show "page_aligned (of_nat (4096 * k))"
    using assms unat_of_nat_u32 [of "4096 * k"] by (simp add: page_aligned_def)
qed (rule ucast_flags_small(1))

lemma identity_physical_address:
  assumes "\<And>k. k < 1048576 \<Longrightarrow> pte m d k = identity_entry k flags"
  shows "paging_get_physical_address m d v = v"
proof -
  have "paging_align_to_lower_page v = of_nat (4096 * page_no v)"
    by (simp flip: unat_align_lower del: of_nat_mult)
  then have "of_nat (4096 * page_no v) + v mod 4096 = v"
    by (metis paging_align_to_lower_page_def diff_add_cancel)
  then show ?thesis
    using assms [OF page_no_bound [of v]] identity_entry_page [OF page_no_bound [of v]]
    by (simp only: physical_address)
qed

subsection \<open>Mapping a range\<close>

lemma map_to_range:
  assumes "chunk_ok m chunk" "page_aligned virt" "page_aligned phys" "page_aligned phys_end"
    and "phys \<le> phys_end" "page_no virt + (page_no phys_end - page_no phys) \<le> 1048576"
  obtains m' where "paging_map_to m chunk virt phys phys_end flags = (0, m')" "chunk_ok m' chunk"
    "load32 m' chunk = load32 m chunk" "dir_pages m' (load32 m chunk) = dir_pages m (load32 m chunk)"
    "\<And>k. k < 1048576 \<Longrightarrow> pte m' (load32 m chunk) k =
       (if page_no virt \<le> k \<and> k < page_no virt + (page_no phys_end - page_no phys)
        then (phys + of_nat (4096 * (k - page_no virt))) OR flags
        else pte m (load32 m chunk) k)"
    "\<And>a. outside_pages (dir_pages m (load32 m chunk)) a \<Longrightarrow> m' a = m a"
proof -
  have "paging_map_to m chunk virt phys phys_end flags =
      map_range_loop m chunk virt phys (page_no phys_end - page_no phys) flags 0"
    using assms(2-5) total_pages [OF assms(5,3,4)]
    by (simp add: paging_map_to_def page_mod_iff paging_map_range_def Let_def)
  with map_range_loop_maps [OF assms(1-3,6), of flags] that show thesis by metis
qed

subsection \<open>Properties of paging\<close>

text \<open>C15: with 1026 free blocks \<open>paging_new_4gb\<close> succeeds: the chunk it returns owns 1026 fresh
  one-page allocations, its directory maps each of the 2^20 pages to itself with the given flags,
  every address translates to itself, and the bytes of what was allocated before are unchanged.\<close>

theorem paging_new_4gb_identity_map:
  assumes "kheap_inv s" "1026 \<le> kavail s"
  shows "\<exists>chunk s'. paging_new_4gb s flags = Inr (chunk, s') \<and> kheap_inv s' \<and> chunk_owned s' chunk \<and>
    kavail s' = kavail s - 1026 \<and>
    (\<forall>p\<in>set (chunk_pages s' chunk). \<forall>n. \<not> klive s p n) \<and>
    (\<forall>k<1048576. pte (mem s') (paging_4gb_chunk_get_directory s' chunk) k = identity_entry k flags) \<and>
    (\<forall>v. paging_get_physical_address (mem s') (paging_4gb_chunk_get_directory s' chunk) v = v) \<and>
    (\<forall>q n a. klive s q n \<and> addr_in a q (4096 * n) \<longrightarrow> mem s' a = mem s a)"
proof -
  obtain chunk s' where c: "paging_new_4gb s flags = Inr (chunk, s')" "kheap_inv s'"
    "kavail s' = kavail s - 1026" "chunk_owned s' chunk"
    "\<And>p n. p \<in> set (chunk_pages s' chunk) \<Longrightarrow> \<not> klive s p n"
    "\<And>k. k < 1048576 \<Longrightarrow> pte (mem s') (chunk_dir s' chunk) k = identity_entry k flags"
    "\<And>q n a. klive s q n \<Longrightarrow> addr_in a q (4096 * n) \<Longrightarrow> mem s' a = mem s a"
    using new_4gb_built [OF assms, of flags] by metis
  have d: "paging_4gb_chunk_get_directory s' chunk = chunk_dir s' chunk"
    by (simp add: paging_4gb_chunk_get_directory_def chunk_dir_def)
  have "paging_get_physical_address (mem s') (chunk_dir s' chunk) v = v" for v
    by (rule identity_physical_address) (rule c(6))
  with c d show ?thesis by (intro exI [of _ chunk] exI [of _ s']) (simp, blast)
qed

lemma paging_new_4gb_identity_map_witness:
  "\<exists>chunk s'. paging_new_4gb example_state 7 = Inr (chunk, s') \<and> kavail s' = 24574 \<and>
     paging_get_physical_address (mem s') (paging_4gb_chunk_get_directory s' chunk) 0xB8123 = 0xB8123"
  using paging_new_4gb_identity_map [of example_state 7] example_state_facts by auto

text \<open>C16: \<open>paging_map_to\<close> on page-aligned bounds maps exactly the pages of the range: page
  \<open>virt + i\<close> gets the entry \<open>(phys + 4096 * i) | flags\<close>, every other entry and every byte outside the
  directory's own pages stays as it was, and the answer is 0.\<close>

theorem paging_map_to_maps_range:
  assumes "chunk_ok m chunk" "page_aligned virt" "page_aligned phys" "page_aligned phys_end"
    and "phys \<le> phys_end" "page_no virt + (page_no phys_end - page_no phys) \<le> 1048576"
  shows "\<exists>m'. paging_map_to m chunk virt phys phys_end flags = (0, m') \<and> chunk_ok m' chunk \<and>
    load32 m' chunk = load32 m chunk \<and>
    (\<forall>k<1048576. pte m' (load32 m chunk) k =
       (if page_no virt \<le> k \<and> k < page_no virt + (page_no phys_end - page_no phys)
        then (phys + of_nat (4096 * (k - page_no virt))) OR flags
        else pte m (load32 m chunk) k)) \<and>
    (\<forall>a. outside_pages (dir_pages m (load32 m chunk)) a \<longrightarrow> m' a = m a)"
  by (rule map_to_range [OF assms, of flags]) blast


text \<open>The example machine with one directory, mapped to itself with flags 7.\<close>

lemma example_chunk:
  obtains chunk s' where "paging_new_4gb example_state 7 = Inr (chunk, s')" "kheap_inv s'"
    "chunk_owned s' chunk" "chunk_ok (mem s') chunk" "1026 \<le> kavail s'"
proof -
  have av: "1026 \<le> kavail example_state" by (simp add: example_state_facts)
  obtain chunk s' where "paging_new_4gb example_state 7 = Inr (chunk, s')" "kheap_inv s'"
    "kavail s' = kavail example_state - 1026" "chunk_owned s' chunk"
    using new_4gb_built [OF example_state_facts(1) av, of 7] by metis
  with chunk_owned_ok show thesis by (intro that [of chunk s']) (auto simp: example_state_facts)
qed

lemma paging_map_to_maps_range_witness:
  "\<exists>chunk s' m'. paging_new_4gb example_state 7 = Inr (chunk, s') \<and>
     paging_map_to (mem s') chunk 0x00400000 0x01000000 0x01002000 7 = (0, m') \<and>
     pte m' (load32 (mem s') chunk) 1025 = 0x01001007"
proof -
  obtain chunk s' where c: "paging_new_4gb example_state 7 = Inr (chunk, s')" "chunk_ok (mem s') chunk"
    using example_chunk by metis
  have al: "page_aligned 0x00400000" "page_aligned 0x01000000" "page_aligned 0x01002000"
    by (simp_all add: page_aligned_def)
  have no: "page_no 0x00400000 = 1024" "page_no 0x01000000 = 4096" "page_no 0x01002000 = 4098"
    by (simp_all add: page_no_def)
  obtain m' where "paging_map_to (mem s') chunk 0x00400000 0x01000000 0x01002000 7 = (0, m')"
    "\<forall>k<1048576. pte m' (load32 (mem s') chunk) k =
       (if 1024 \<le> k \<and> k < 1026 then (0x01000000 + of_nat (4096 * (k - 1024))) OR 7
        else pte (mem s') (load32 (mem s') chunk) k)"
    using paging_map_to_maps_range [OF c(2) al, of 7] unfolding no by auto
  moreover from this(2) have "pte m' (load32 (mem s') chunk) 1025 = 0x01001007" by simp
  ultimately show ?thesis using c(1) by blast
qed

lemma map_range_loop_frame:
  assumes "chunk_ok m chunk"
  shows "\<exists>r m'. map_range_loop m chunk virt phys n flags res = (r, m') \<and> chunk_ok m' chunk \<and>
    load32 m' chunk = load32 m chunk \<and>
    dir_pages m' (load32 m chunk) = dir_pages m (load32 m chunk) \<and>
    (\<forall>a. outside_pages (dir_pages m (load32 m chunk)) a \<longrightarrow> m' a = m a)"
  using assms
proof (induction n arbitrary: m virt phys res)
  case 0
  then show ?case by simp
next
  case (Suc n)
  show ?case
  proof (cases "page_aligned virt \<and> page_aligned phys")
    case True
    then obtain m1 where m1: "paging_map m chunk virt phys flags = (0, m1)" "chunk_ok m1 chunk"
        "load32 m1 chunk = load32 m chunk" "dir_pages m1 (load32 m chunk) = dir_pages m (load32 m chunk)"
        "\<forall>a. outside_pages (dir_pages m (load32 m chunk)) a \<longrightarrow> m1 a = m a"
      using paging_map_step [OF Suc.prems, of virt phys flags] by metis
    from Suc.IH [OF m1(2), of "virt + 4096" "phys + 4096" 0, unfolded m1(3,4)] m1 show ?thesis
      by auto
  next
    case False
    then have "paging_map m chunk virt phys flags = (- EINVARG, m)"
      by (auto simp: paging_map_def page_mod_iff)
    with Suc.prems show ?thesis by simp
  qed
qed

lemma paging_map_to_frame:
  assumes "chunk_ok m chunk"
  shows "\<exists>r m'. paging_map_to m chunk virt phys phys_end flags = (r, m') \<and> chunk_ok m' chunk \<and>
    load32 m' chunk = load32 m chunk \<and> dir_pages m' (load32 m chunk) = dir_pages m (load32 m chunk) \<and>
    (\<forall>a. outside_pages (dir_pages m (load32 m chunk)) a \<longrightarrow> m' a = m a)"
proof -
  define n where "n = nat (sint ((phys_end - phys) div 4096))"
  obtain r m' where "map_range_loop m chunk virt phys n flags 0 = (r, m')" "chunk_ok m' chunk"
    "load32 m' chunk = load32 m chunk" "dir_pages m' (load32 m chunk) = dir_pages m (load32 m chunk)"
    "\<forall>a. outside_pages (dir_pages m (load32 m chunk)) a \<longrightarrow> m' a = m a"
    using map_range_loop_frame [OF assms] by metis
  with assms show ?thesis
    by (simp add: paging_map_to_def paging_map_range_def Let_def flip: n_def)
qed

text \<open>Mapping never writes to the directory itself.\<close>

lemma paging_map_pdes:
  assumes "chunk_ok m chunk" "paging_map m chunk virt phys flags = (r, m')" "i < 1024"
  shows "pde m' chunk i = pde m chunk i"
proof (cases "page_aligned virt \<and> page_aligned phys")
  case True
  let ?d = "load32 m chunk" and ?k = "page_no virt"
  have m': "m' = store32 m (pte_cell m ?d ?k) (phys OR flags)"
    using assms(2) True by (simp add: paging_map_def page_mod_iff paging_set_pte)
  have d: "page_aligned ?d" "table_of m ?d (?k div 1024) \<noteq> ?d"
    using assms(1) page_no_bound [of virt] by (auto simp: chunk_ok_def page_dir_def)
  obtain m1 where "paging_map m chunk virt phys flags = (0, m1)" "load32 m1 chunk = ?d"
    using paging_map_step [OF assms(1), of virt phys flags] True by blast
  then have "load32 m' chunk = ?d" using assms(2) by simp
  moreover have "load32 m' (pcell ?d i) = load32 m (pcell ?d i)"
    unfolding m' pte_cell_def using d assms(3) by simp
  ultimately show ?thesis by (simp add: pde_def)
next
  case False
  then have "paging_map m chunk virt phys flags = (- EINVARG, m)" by (auto simp: paging_map_def page_mod_iff)
  then show ?thesis using assms(2) by simp
qed

lemma map_range_loop_pdes:
  assumes "chunk_ok m chunk" "map_range_loop m chunk virt phys n flags res = (r, m')" "i < 1024"
  shows "pde m' chunk i = pde m chunk i"
  using assms(1,2)
proof (induction n arbitrary: m virt phys res)
  case (Suc n)
  obtain r1 m1 where m1: "paging_map m chunk virt phys flags = (r1, m1)" by (cases "paging_map m chunk virt phys flags")
  have "chunk_ok m1 chunk"
  proof (cases "page_aligned virt \<and> page_aligned phys")
    case True
    then show ?thesis using paging_map_step [OF Suc.prems(1), of virt phys flags] m1 by auto
  next
    case False
    then have "paging_map m chunk virt phys flags = (- EINVARG, m)" by (auto simp: paging_map_def page_mod_iff)
    then show ?thesis using m1 Suc.prems(1) by simp
  qed
  then show ?case
    using Suc.IH [of m1] Suc.prems(2) m1 paging_map_pdes [OF Suc.prems(1) m1 assms(3)] by (auto split: if_splits)
qed simp

lemma paging_map_to_pdes:
  "chunk_ok m chunk \<Longrightarrow> paging_map_to m chunk virt phys phys_end flags = (r, m') \<Longrightarrow> i < 1024 \<Longrightarrow> pde m' chunk i = pde m chunk i"
  using map_range_loop_pdes by (auto simp: paging_map_to_def paging_map_range_def Let_def split: if_splits)

text \<open>A change outside the pages of a chunk changes none of its translations.\<close>

lemma translations_cong:
  assumes ok: "chunk_ok m chunk"
    and same: "\<And>p a. p \<in> set (dir_pages m (load32 m chunk) @ [chunk]) \<Longrightarrow> addr_in a p 4096 \<Longrightarrow> m' a = m a"
  shows "load32 m' chunk = load32 m chunk"
    and "k < 1048576 \<Longrightarrow> pte m' (load32 m chunk) k = pte m (load32 m chunk) k"
    and "i < 1024 \<Longrightarrow> table_of m' (load32 m chunk) i = table_of m (load32 m chunk) i"
    and "i < 1024 \<Longrightarrow> pde m' chunk i = pde m chunk i"
proof -
  let ?d = "load32 m chunk"
  have al: "page_aligned chunk" "page_aligned ?d" using ok by (auto simp: chunk_ok_def page_dir_def)
  have cell: "load32 m' (pcell p i) = load32 m (pcell p i)"
    if "p \<in> set (dir_pages m ?d @ [chunk])" "page_aligned p" "i < 1024" for p i
    using same [OF that(1)] by (intro load_cell_cong [OF that(2,3)]) simp
  have "load32 m' (pcell chunk 0) = load32 m (pcell chunk 0)" using al by (intro cell) simp_all
  then show ch: "load32 m' chunk = ?d" by (simp add: pcell_def)
  show "pde m' chunk i = pde m chunk i" if "i < 1024" for i
    unfolding pde_def ch using al that by (intro cell) (simp_all add: dir_pages_def)
  show t: "table_of m' ?d i = table_of m ?d i" if "i < 1024" for i
    using al that unfolding table_of_def by (subst cell) (simp_all add: dir_pages_def)
  assume "k < 1048576"
  then have k: "k div 1024 < 1024" "k mod 1024 < 1024" by auto
  have "pte_cell m' ?d k = pte_cell m ?d k" using t [OF k(1)] by (simp add: pte_cell_def)
  then show "pte m' ?d k = pte m ?d k"
    unfolding pte_def pte_cell_def using k by (simp add: cell dir_pages_def)
qed

text \<open>A chunk keeps its pages and stays owned while the live bytes and the allocations stay.\<close>

lemma chunk_owned_kept:
  fixes s s' :: "'a mstate_scheme"
  assumes "kheap_inv s" "chunk_owned s c"
    and bytes: "\<And>q n x. klive s q n \<Longrightarrow> addr_in x q (4096 * n) \<Longrightarrow> mem s' x = mem s x"
    and live: "\<And>q n. klive s q n \<Longrightarrow> klive s' q n"
  shows "chunk_pages s' c = chunk_pages s c" "chunk_owned s' c"
proof -
  have ok: "chunk_ok (mem s) c" by (rule chunk_owned_ok [OF assms(1,2)])
  have pages: "dir_pages (mem s) (load32 (mem s) c) @ [c] = chunk_pages s c"
    by (simp add: chunk_pages_def chunk_dir_def)
  have same: "mem s' x = mem s x"
    if "p \<in> set (dir_pages (mem s) (load32 (mem s) c) @ [c])" "addr_in x p 4096" for p x
    using bytes [of p 1 x] assms(2) that unfolding pages chunk_owned_def by simp
  note tr = translations_cong [OF ok same]
  show eq: "chunk_pages s' c = chunk_pages s c"
    using tr(1,3) by (simp add: chunk_pages_def chunk_dir_def dir_pages_def)
  with assms(2) live show "chunk_owned s' c" by (simp add: chunk_owned_def)
qed

text \<open>C13: two address spaces that share no page are isolated: whatever arguments
  \<open>paging_map_to\<close> gets for the first, aligned or not, every translation of the second is unchanged.\<close>

theorem paging_map_to_isolated:
  assumes "kheap_inv s" "chunk_owned s a" "chunk_owned s b"
    and "set (chunk_pages s a) \<inter> set (chunk_pages s b) = {}"
  shows "\<exists>r m'. paging_map_to (mem s) a virt phys phys_end flags = (r, m') \<and>
    load32 m' b = load32 (mem s) b \<and>
    (\<forall>v. paging_get_physical_address m' (load32 m' b) v
       = paging_get_physical_address (mem s) (load32 (mem s) b) v)"
proof -
  obtain r m' where m': "paging_map_to (mem s) a virt phys phys_end flags = (r, m')"
    and frame: "\<And>x. outside_pages (dir_pages (mem s) (load32 (mem s) a)) x \<Longrightarrow> m' x = mem s x"
    using paging_map_to_frame [OF chunk_owned_ok [OF assms(1,2)]] by metis
  have ok: "chunk_ok (mem s) b" by (rule chunk_owned_ok [OF assms(1,3)])
  have same: "m' x = mem s x"
    if p: "p \<in> set (dir_pages (mem s) (load32 (mem s) b) @ [b])" and x: "addr_in x p 4096" for p x
  proof (rule frame, unfold outside_pages_def, intro ballI)
    fix q assume "q \<in> set (dir_pages (mem s) (load32 (mem s) a))"
    then have q: "q \<in> set (chunk_pages s a)" by (simp add: chunk_pages_def chunk_dir_def)
    have pb: "p \<in> set (chunk_pages s b)" using p by (simp add: chunk_pages_def chunk_dir_def)
    have "page_aligned p" "page_aligned q" "p \<noteq> q"
      using klive_aligned [OF assms(1)] assms(2-4) q pb unfolding chunk_owned_def by blast+
    with x show "\<not> addr_in x q 4096" by (intro addr_in_page_apart [of p q]) simp_all
  qed
  note tr = translations_cong [OF ok same]
  have "paging_get_physical_address m' (load32 (mem s) b) v
      = paging_get_physical_address (mem s) (load32 (mem s) b) v" for v
    using tr(2) [OF _ _ page_no_bound [of v]] by (simp add: physical_address)
  with m' tr(1) show ?thesis by simp
qed

lemma two_example_chunks:
  obtains a b and s :: mstate where "kheap_inv s" "chunk_owned s a" "chunk_owned s b"
    "set (chunk_pages s a) \<inter> set (chunk_pages s b) = {}"
proof -
  obtain a and s1 :: mstate where a: "kheap_inv s1" "chunk_owned s1 a" "1026 \<le> kavail s1"
    using example_chunk by metis
  obtain b and s2 :: mstate where b0: "paging_new_4gb s1 7 = Inr (b, s2)" and b1: "kheap_inv s2"
    and b2: "kavail s2 = kavail s1 - 1026" and b3: "chunk_owned s2 b"
    and b4: "\<And>q n. klive s2 q n \<longleftrightarrow> klive s1 q n \<or> q \<in> set (chunk_pages s2 b) \<and> n = 1"
    and b5: "\<And>p n. p \<in> set (chunk_pages s2 b) \<Longrightarrow> \<not> klive s1 p n"
    and b6: "\<And>k. k < 1048576 \<Longrightarrow> pte (mem s2) (chunk_dir s2 b) k = identity_entry k 7"
    and b7: "\<And>q n x. klive s1 q n \<Longrightarrow> addr_in x q (4096 * n) \<Longrightarrow> mem s2 x = mem s1 x"
    by (rule new_4gb_built [OF a(1,3), of 7]) (rule that)
  note b = b1 b3 b4 b5 b7
  have live: "\<And>q n. klive s1 q n \<Longrightarrow> klive s2 q n" using b4 by blast
  have kept: "chunk_pages s2 a = chunk_pages s1 a" "chunk_owned s2 a"
    by (rule chunk_owned_kept [OF a(1,2)]; erule b7 live; assumption?)+
  have "p \<notin> set (chunk_pages s2 b)" if "p \<in> set (chunk_pages s2 a)" for p
    using b(4) [of p 1] a(2) that unfolding kept(1) chunk_owned_def by blast
  then have "set (chunk_pages s2 a) \<inter> set (chunk_pages s2 b) = {}" by blast
  with kept b(1,2) show thesis by (intro that) 
qed

lemma paging_map_to_isolated_witness:
  "\<exists>(s :: mstate) a b m'. chunk_owned s a \<and> chunk_owned s b \<and> a \<noteq> b \<and>
     paging_map_to (mem s) a 0x00400000 0x01000000 0x01002000 7 = (0, m') \<and>
     (\<forall>v. paging_get_physical_address m' (load32 m' b) v
       = paging_get_physical_address (mem s) (load32 (mem s) b) v)"
proof -
  obtain a b and s :: mstate where s: "kheap_inv s" "chunk_owned s a" "chunk_owned s b"
    "set (chunk_pages s a) \<inter> set (chunk_pages s b) = {}"
    using two_example_chunks by metis
  have al: "page_aligned 0x00400000" "page_aligned 0x01000000" "page_aligned 0x01002000"
    "page_no 0x00400000 = 1024" "page_no 0x01000000 = 4096" "page_no 0x01002000 = 4098"
    by (simp_all add: page_aligned_def page_no_def)
  have "fst (paging_map_to (mem s) a 0x00400000 0x01000000 0x01002000 7) = 0"
    using map_range_loop_maps [OF chunk_owned_ok [OF s(1,2)] al(1,2), of 2 7] total_pages [OF _ al(2,3)] al
    by (auto simp: paging_map_to_def page_mod_iff paging_map_range_def Let_def)
  with paging_map_to_isolated [OF s, of "0x00400000" "0x01000000" "0x01002000" 7]
  obtain m' where "paging_map_to (mem s) a 0x00400000 0x01000000 0x01002000 7 = (0, m')"
    "\<forall>v. paging_get_physical_address m' (load32 m' b) v
       = paging_get_physical_address (mem s) (load32 (mem s) b) v" by auto
  moreover have "a \<noteq> b" using s(4) by (auto simp: chunk_pages_def)
  ultimately show ?thesis using s(2,3) by blast
qed

text \<open>C18: \<open>paging_free_4gb\<close> on the chunk \<open>paging_new_4gb\<close> returned gives all 1026 pages back: the
  allocations that are live afterwards are those that were live before, and the invariant holds.\<close>

theorem paging_free_after_new:
  assumes "kheap_inv s" "1026 \<le> kavail s"
  shows "\<exists>chunk s1 s2. paging_new_4gb s flags = Inr (chunk, s1) \<and> paging_free_4gb s1 chunk = Inr s2 \<and>
    kheap_inv s2 \<and> kavail s2 = kavail s \<and> (\<forall>q n. klive s2 q n = klive s q n)"
proof -
  obtain chunk s1 where c: "paging_new_4gb s flags = Inr (chunk, s1)" "kheap_inv s1"
    "kavail s1 = kavail s - 1026" "chunk_owned s1 chunk"
    "\<And>q n. klive s1 q n \<longleftrightarrow> klive s q n \<or> q \<in> set (chunk_pages s1 chunk) \<and> n = 1"
    "\<And>p n. p \<in> set (chunk_pages s1 chunk) \<Longrightarrow> \<not> klive s p n"
    using new_4gb_built [OF assms, of flags] by metis
  obtain s2 where f: "paging_free_4gb s1 chunk = Inr s2" "kheap_inv s2" "kavail s2 = kavail s1 + 1026"
    "\<And>q m. klive s2 q m \<longleftrightarrow> klive s1 q m \<and> q \<notin> set (chunk_pages s1 chunk)"
    using free_4gb_frees [OF c(2,4)] by metis
  have "klive s2 q n = klive s q n" for q n using c(5,6) f(4) by blast
  with c(1,3) f(1-3) assms(2) show ?thesis by auto
qed

lemma paging_free_after_new_witness:
  "\<exists>chunk s1 s2. paging_new_4gb example_state 7 = Inr (chunk, s1) \<and> paging_free_4gb s1 chunk = Inr s2 \<and>
     kavail s2 = 25600"
  using paging_free_after_new [of example_state 7] example_state_facts by auto

text \<open>\<open>paging_map_to\<close> with an address that is not page aligned, or an end below the start,
  answers \<open>-EINVARG\<close> and changes nothing.\<close>

theorem paging_map_to_invalid:
  assumes "\<not> page_aligned virt \<or> \<not> page_aligned phys \<or> \<not> page_aligned phys_end \<or> phys_end < phys"
  shows "paging_map_to m chunk virt phys phys_end flags = (- EINVARG, m)"
  using assms by (auto simp: paging_map_to_def page_mod_iff)

lemma paging_map_to_invalid_witness:
  "paging_map_to (\<lambda>_. 0) 0 0x00400000 0x01000000 0x01000FFF 7 = (- 2, (\<lambda>_. 0))"
  by (rule paging_map_to_invalid) (simp add: page_aligned_def)

end
