(* ===== verification/Streamer.thy ===== *)
theory Streamer
  imports Disk PagingTables
begin

text \<open>
  Byte streams over the disk, src/disk/streamer.c. A \<open>struct disk_stream\<close> is a
  heap object: \<open>streams\<close> maps the addresses where one lives to its fields, an access elsewhere is
  \<open>NullDeref\<close>, and closing a stream removes it. \<open>disk_streamer_read\<close> recurses as the source does; its second result is the
  list of the bytes written at \<open>out\<close>. The contract FAT16 uses is the
  locale \<open>byte_stream\<close>, interpreted on the streamer over a drive that serves the bytes \<open>img\<close>.
\<close>

text \<open>Access to an object of a typed store.\<close>

definition obj_get :: "(u32 \<Rightarrow> 'o option) \<Rightarrow> u32 \<Rightarrow> 'o res" where
  "obj_get objs p = (case objs p of None \<Rightarrow> Inl NullDeref | Some x \<Rightarrow> Inr x)"

lemma obj_get_Inr [res_simps]: "obj_get objs p = Inr x \<longleftrightarrow> objs p = Some x"
  by (simp add: obj_get_def split: option.splits)

lemma obj_get_Some [simp]: "objs p = Some x \<Longrightarrow> obj_get objs p = Inr x"
  by (simp add: obj_get_def)

definition disk_streamer_new :: "'a diskstate_scheme \<Rightarrow> int \<Rightarrow> (u32 \<times> 'a diskstate_scheme) res" where
  "disk_streamer_new s disk_id =
     (let d = disk_get disk_id
      in if d = Null_disk then Inr (0, s)
         else bind_res (kzalloc s 8) (\<lambda>(streamer, s).
           if streamer = 0 then Inl NullDeref
           else Inr (streamer, s\<lparr>streams := (streams s)(streamer \<mapsto> \<lparr>st_pos = 0, st_disk = d\<rparr>)\<rparr>)))"

definition disk_streamer_seek :: "'a diskstate_scheme \<Rightarrow> u32 \<Rightarrow> int \<Rightarrow> (int \<times> 'a diskstate_scheme) res" where
  "disk_streamer_seek s stream pos =
     bind_res (obj_get (streams s) stream) (\<lambda>st.
       Inr (0, s\<lparr>streams := (streams s)(stream \<mapsto> st\<lparr>st_pos := pos\<rparr>)\<rparr>))"

text \<open>\<open>for (i = 0; i < n; i++) *out++ = buf[offset + i];\<close>\<close>

fun copy_bytes :: "u8 list \<Rightarrow> int \<Rightarrow> nat \<Rightarrow> u8 list res" where
  "copy_bytes buf ofs 0 = Inr []"
| "copy_bytes buf ofs (Suc n) =
     bind_res (list_get buf ofs) (\<lambda>c. bind_res (copy_bytes buf (ofs + 1) n) (\<lambda>cs. Inr (c # cs)))"

function disk_streamer_read ::
  "'a diskstate_scheme \<Rightarrow> u32 \<Rightarrow> int \<Rightarrow> (int \<times> u8 list \<times> 'a diskstate_scheme) res" where
  "disk_streamer_read s stream tot =
     bind_res (obj_get (streams s) stream) (\<lambda>st.
       let sector = st_pos st sdiv MARROWOS_SECTOR_SIZE;
           offset = st_pos st smod MARROWOS_SECTOR_SIZE;
           overflow = MARROWOS_SECTOR_SIZE \<le> offset + tot;
           total_to_read = (if overflow then tot - ((offset + tot) - MARROWOS_SECTOR_SIZE) else tot)
       in bind_res (disk_read_block s (st_disk st) (word_of_int sector) 1) (\<lambda>(res, buf, s).
            if res < 0 then Inr (res, [], s)
            else bind_res (copy_bytes buf offset (nat total_to_read)) (\<lambda>bytes.
              let s = s\<lparr>streams := (streams s)(stream \<mapsto> st\<lparr>st_pos := st_pos st + total_to_read\<rparr>)\<rparr>
              in if overflow
                 then bind_res (disk_streamer_read s stream (tot - total_to_read))
                        (\<lambda>(res, rest, s). Inr (res, bytes @ rest, s))
                 else Inr (res, bytes, s))))"
  by pat_completeness auto
termination
proof (relation "measure (\<lambda>(s, stream, tot). nat tot)", goal_cases)
  case (2 s stream tot st sector offset overflow total_to_read x res y buf s' bytes s'')
  have "st_pos st smod 512 < 512"
    using smod_int_range [of 512 "st_pos st"] by simp
  with 2 show ?case by auto
qed simp

declare disk_streamer_read.simps [simp del]

definition disk_streamer_close :: "'a diskstate_scheme \<Rightarrow> u32 \<Rightarrow> 'a diskstate_scheme res" where
  "disk_streamer_close s stream =
     bind_res (kfree s stream) (\<lambda>s. Inr (s\<lparr>streams := (streams s)(stream := None)\<rparr>))"


subsection \<open>What a stream does\<close>

text \<open>
  The contract: \<open>seek\<close> moves the stream, \<open>read\<close> on a drive that serves \<open>img\<close> answers 0 with the bytes
  from the position on and advances it; neither changes anything but stream positions (\<open>moved\<close>).
\<close>

locale byte_stream =
  fixes drive :: "'s \<Rightarrow> bool"
    and pos_of :: "'s \<Rightarrow> u32 \<Rightarrow> int option"
    and seek :: "'s \<Rightarrow> u32 \<Rightarrow> int \<Rightarrow> (int \<times> 's) res"
    and read :: "'s \<Rightarrow> u32 \<Rightarrow> int \<Rightarrow> (int \<times> u8 list \<times> 's) res"
    and img :: "nat \<Rightarrow> u8"
    and moved :: "'s \<Rightarrow> 's \<Rightarrow> bool"
  assumes seek_ok: "pos_of s p = Some k \<Longrightarrow>
      \<exists>s'. seek s p j = Inr (0, s') \<and> pos_of s' p = Some j \<and> moved s s'"
    and read_ok: "drive s \<Longrightarrow> pos_of s p = Some (int i) \<Longrightarrow> i + n < 2147483648 \<Longrightarrow>
      \<exists>s'. read s p (int n) = Inr (0, image_bytes img i n, s') \<and> pos_of s' p = Some (int (i + n)) \<and> moved s s'"
    and moved_trans: "moved s s' \<Longrightarrow> moved s' s'' \<Longrightarrow> moved s s''"
    and moved_drive: "moved s s' \<Longrightarrow> drive s' = drive s"
    and moved_streams: "moved s s' \<Longrightarrow> (pos_of s' p = None) = (pos_of s p = None)"
begin

lemma seek_read:
  assumes "drive s" "pos_of s p \<noteq> None" "i + n < 2147483648"
  shows "\<exists>s1 s2. seek s p (int i) = Inr (0, s1) \<and> read s1 p (int n) = Inr (0, image_bytes img i n, s2) \<and>
    pos_of s2 p = Some (int (i + n)) \<and> moved s s2"
proof -
  obtain s1 where s1: "seek s p (int i) = Inr (0, s1)" "pos_of s1 p = Some (int i)" "moved s s1"
    using seek_ok assms(2) by blast
  then have "drive s1" using moved_drive assms(1) by blast
  with read_ok [OF this s1(2) assms(3)] s1 moved_trans show ?thesis by blast
qed

lemma read_twice:
  assumes "drive s" "pos_of s p = Some (int i)" "i + m + n < 2147483648"
  shows "\<exists>s1 s2 bs cs. read s p (int m) = Inr (0, bs, s1) \<and> read s1 p (int n) = Inr (0, cs, s2) \<and>
    bs @ cs = image_bytes img i (m + n) \<and> moved s s2"
proof -
  have "i + m < 2147483648" using assms(3) by simp
  from read_ok [OF assms(1,2) this] obtain s1 where
    s1: "read s p (int m) = Inr (0, image_bytes img i m, s1)" "pos_of s1 p = Some (int (i + m))" "moved s s1"
    by blast
  then have "drive s1" using moved_drive assms(1) by blast
  from read_ok [OF this s1(2) assms(3)] obtain s2 where
    s2: "read s1 p (int n) = Inr (0, image_bytes img (i + m) n, s2)" "moved s1 s2" by blast
  have "moved s s2" by (rule moved_trans [OF s1(3) s2(2)])
  moreover have "image_bytes img i m @ image_bytes img (i + m) n = image_bytes img i (m + n)"
    by (simp only: image_bytes_append)
  ultimately show ?thesis using s1(1) s2(1) by blast
qed

end

subsection \<open>The streamer is a byte stream\<close>

definition drive_serves :: "(nat \<Rightarrow> u8) \<Rightarrow> 'a iostate_scheme \<Rightarrow> bool" where
  "drive_serves img s \<longleftrightarrow> ata_disk (hw s) img"

text \<open>The position of a stream on the disk; None where no stream lives.\<close>

definition stream_pos :: "'a diskstate_scheme \<Rightarrow> u32 \<Rightarrow> int option" where
  "stream_pos s p = (case streams s p of
     Some st \<Rightarrow> if st_disk st = The_disk then Some (st_pos st) else None | None \<Rightarrow> None)"

definition stream_moved :: "'a diskstate_scheme \<Rightarrow> 'a diskstate_scheme \<Rightarrow> bool" where
  "stream_moved s s' \<longleftrightarrow>
     (\<exists>tr sm. s' = s\<lparr>port_trace := tr, streams := sm\<rparr> \<and>
        (\<forall>p. map_option st_disk (sm p) = map_option st_disk (streams s p)))"

lemma stream_movedI:
  assumes "\<And>p. map_option st_disk (sm p) = map_option st_disk (streams s p)"
  shows "stream_moved s (s\<lparr>port_trace := tr, streams := sm\<rparr>)"
  using assms by (auto simp: stream_moved_def)

lemma stream_moved_streamsI:
  assumes "\<And>p. map_option st_disk (sm p) = map_option st_disk (streams s p)"
  shows "stream_moved s (s\<lparr>streams := sm\<rparr>)"
  unfolding stream_moved_def
  by (intro exI [of _ "port_trace s"] exI [of _ sm]) (use assms in simp)

lemma stream_movedE:
  assumes "stream_moved s s'"
  obtains tr sm where "s' = s\<lparr>port_trace := tr, streams := sm\<rparr>"
    "\<And>p. map_option st_disk (sm p) = map_option st_disk (streams s p)"
  using assms by (auto simp: stream_moved_def)

lemma stream_moved_trans: "stream_moved s s' \<Longrightarrow> stream_moved s' s'' \<Longrightarrow> stream_moved s s''"
  by (elim stream_movedE) (simp add: stream_movedI)

lemma stream_moved_keeps:
  assumes "stream_moved s s'"
  shows "hw s' = hw s" "kheap s' = kheap s" "mem s' = mem s" "kdisk s' = kdisk s"
    "(stream_pos s' p = None) = (stream_pos s p = None)"
proof -
  from assms show "(stream_pos s' p = None) = (stream_pos s p = None)"
  proof (rule stream_movedE)
    fix tr sm assume s': "s' = s\<lparr>port_trace := tr, streams := sm\<rparr>"
      and eq: "\<And>p. map_option st_disk (sm p) = map_option st_disk (streams s p)"
    from eq [of p] show ?thesis
      by (cases "sm p"; cases "streams s p") (simp_all add: s' stream_pos_def)
  qed
qed (use assms in \<open>auto elim: stream_movedE\<close>)

lemma copy_bytes_image:
  "p + k + n \<le> p + length bs \<Longrightarrow> k + n \<le> length bs \<Longrightarrow> copy_bytes bs (int k) n = Inr (take n (drop k bs))"
proof (induction n arbitrary: k)
  case (Suc n)
  then have "k < length bs" by simp
  with Suc Suc.IH [of "Suc k"] show ?case
    by (simp add: list_get_nat add.commute Cons_nth_drop_Suc [symmetric])
qed simp

lemma image_bytes_part:
  "k + n \<le> m \<Longrightarrow> take n (drop k (image_bytes img p m)) = image_bytes img (p + k) n"
  by (rule nth_equalityI) (auto simp: image_bytes_def add.assoc)

lemma streamer_read_unfold:
  assumes "streams s p = Some st"
    and "disk_read_block s (st_disk st) (word_of_int (st_pos st sdiv 512)) 1 = Inr (0, buf, u)"
    and "t = (if 512 \<le> st_pos st smod 512 + tot then tot - ((st_pos st smod 512 + tot) - 512) else tot)"
    and "copy_bytes buf (st_pos st smod 512) (nat t) = Inr bytes"
    and "v = u\<lparr>streams := (streams u)(p \<mapsto> st\<lparr>st_pos := st_pos st + t\<rparr>)\<rparr>"
  shows "disk_streamer_read s p tot =
    (if 512 \<le> st_pos st smod 512 + tot
     then bind_res (disk_streamer_read v p (tot - t)) (\<lambda>(res, rest, s). Inr (res, bytes @ rest, s))
     else Inr (0, bytes, v))"
proof -
  have "obj_get (streams s) p = Inr st" using assms(1) by simp
  then show ?thesis
    unfolding disk_streamer_read.simps [of s p tot] Let_def
    by (simp only: bind_res.simps assms(2) prod.case assms(3) [symmetric] assms(4) assms(5) [symmetric]) simp
qed

lemma streamer_read_image:
  assumes "drive_serves img s" "stream_pos s p = Some (int i)" "i + n < 2147483648"
  shows "\<exists>s'. disk_streamer_read s p (int n) = Inr (0, image_bytes img i n, s') \<and>
    stream_pos s' p = Some (int (i + n)) \<and> stream_moved s s'"
  using assms
proof (induction n arbitrary: s i rule: less_induct)
  case (less n)
  obtain st where st: "streams s p = Some st" "st_disk st = The_disk" "st_pos st = int i"
    using less.prems(2) by (auto simp: stream_pos_def split: option.splits if_splits)
  define r where "r = i mod 512"
  have r: "r < 512" "i = 512 * (i div 512) + r" by (simp_all add: r_def)
  have sec: "int i sdiv 512 = int (i div 512)" "int i smod 512 = int r"
    by (simp_all add: signed_divide_int_def signed_modulo_int_def r_def zdiv_int zmod_int sgn_if)
  have lba: "unat (of_nat (i div 512) :: u32) = i div 512"
    using less.prems(3) by (intro unat_of_nat_u32) simp
  have "unat (of_nat (i div 512) :: u32) < 2 ^ 28" unfolding lba using less.prems(3) by simp
  from disk_read_one [OF _ this, of s img] less.prems(1) obtain tr where
    tr: "disk_read_block s The_disk (of_nat (i div 512)) 1 =
      Inr (0, image_bytes img (512 * (i div 512)) 512, s\<lparr>port_trace := tr\<rparr>)"
    unfolding drive_serves_def lba by blast
  let ?t = "if 512 \<le> r + n then 512 - r else n"
  let ?s = "s\<lparr>port_trace := tr, streams := (streams s)(p \<mapsto> st\<lparr>st_pos := int (i + ?t)\<rparr>)\<rparr>"
  have cp: "copy_bytes (image_bytes img (512 * (i div 512)) 512) (int r) ?t = Inr (image_bytes img i ?t)"
  proof -
    have "r + ?t \<le> 512" using r(1) by auto
    then show ?thesis
      using copy_bytes_image [of 0 r ?t "image_bytes img (512 * (i div 512)) 512"]
        image_bytes_part [of r ?t 512 img "512 * (i div 512)"] by (simp only: length_image_bytes flip: r(2))
  qed
  have mv: "stream_moved s ?s" using st by (intro stream_movedI) simp
  have ps: "stream_pos ?s p = Some (int (i + ?t))" using st by (simp add: stream_pos_def)
  have nat: "nat (if 512 \<le> int r + int n then int n - (int r + int n - 512) else int n) = ?t"
    "(if 512 \<le> int r + int n then int n - (int r + int n - 512) else int n) = int ?t"
    using r(1) by auto
  have cond: "512 \<le> int r + int n \<longleftrightarrow> 512 \<le> r + n" by presburger
  have tot: "int ?t = (if 512 \<le> st_pos st smod 512 + int n
      then int n - ((st_pos st smod 512 + int n) - 512) else int n)"
    unfolding st(3) sec using nat(2) by simp
  have "disk_read_block s (st_disk st) (word_of_int (st_pos st sdiv 512)) 1
      = Inr (0, image_bytes img (512 * (i div 512)) 512, s\<lparr>port_trace := tr\<rparr>)"
    unfolding st sec using tr by simp
  moreover have "copy_bytes (image_bytes img (512 * (i div 512)) 512) (st_pos st smod 512) (nat (int ?t))
      = Inr (image_bytes img i ?t)"
    unfolding st(3) sec nat_int by (rule cp)
  moreover have "?s = s\<lparr>port_trace := tr\<rparr>\<lparr>streams := (streams (s\<lparr>port_trace := tr\<rparr>))
      (p \<mapsto> st\<lparr>st_pos := st_pos st + int ?t\<rparr>)\<rparr>"
    using st(3) by simp
  ultimately have "disk_streamer_read s p (int n) =
      (if 512 \<le> st_pos st smod 512 + int n then bind_res (disk_streamer_read ?s p (int n - int ?t))
         (\<lambda>(res, rest, s). Inr (res, image_bytes img i ?t @ rest, s))
       else Inr (0, image_bytes img i ?t, ?s))"
    by (intro streamer_read_unfold [OF st(1) _ tot])
  then have step: "disk_streamer_read s p (int n) =
      (if 512 \<le> r + n then bind_res (disk_streamer_read ?s p (int n - int ?t))
         (\<lambda>(res, rest, s). Inr (res, image_bytes img i ?t @ rest, s))
       else Inr (0, image_bytes img i ?t, ?s))"
    unfolding st(3) sec cond .
  show ?case
  proof (cases "512 \<le> r + n")
    case False
    with step have "disk_streamer_read s p (int n) = Inr (0, image_bytes img i n, ?s)" by simp
    with mv ps False show ?thesis by auto
  next
    case True
    with r have "n - (512 - r) < n" "drive_serves img ?s"
      "i + (512 - r) + (n - (512 - r)) = i + n"
      using less.prems(1) by (auto simp: drive_serves_def)
    from less.IH [OF this(1,2), of "i + (512 - r)"] True ps less.prems(3) this(3) obtain s' where
      s': "disk_streamer_read ?s p (int (n - (512 - r))) = Inr (0, image_bytes img (i + (512 - r)) (n - (512 - r)), s')"
        "stream_pos s' p = Some (int (i + n))" "stream_moved ?s s'" by auto
    have "int n - int ?t = int (n - (512 - r))" using True r by simp
    moreover have "image_bytes img i (512 - r) @ image_bytes img (i + (512 - r)) (n - (512 - r)) = image_bytes img i n"
      using True r image_bytes_append [of img i "512 - r" "n - (512 - r)"] by simp
    ultimately have "disk_streamer_read s p (int n) = Inr (0, image_bytes img i n, s')"
      unfolding step using True s'(1) by simp
    moreover have "stream_moved s s'"
      using mv s'(3) by (rule stream_moved_trans)
    ultimately show ?thesis using s'(2) by blast
  qed
qed

interpretation ds: byte_stream "drive_serves img" stream_pos disk_streamer_seek disk_streamer_read img stream_moved
  for img
proof unfold_locales
  fix s :: "'a diskstate_scheme" and p i j
  assume "stream_pos s p = Some i"
  then obtain st where st: "streams s p = Some st" "st_disk st = The_disk"
    by (auto simp: stream_pos_def split: option.splits if_splits)
  let ?s = "s\<lparr>streams := (streams s)(p \<mapsto> st\<lparr>st_pos := j\<rparr>)\<rparr>"
  have "stream_moved s ?s" using st by (intro stream_moved_streamsI) simp
  with st show "\<exists>s'. disk_streamer_seek s p j = Inr (0, s') \<and> stream_pos s' p = Some j \<and> stream_moved s s'"
    by (auto simp: disk_streamer_seek_def stream_pos_def)
next
  show "stream_moved s s' \<Longrightarrow> stream_moved s' s'' \<Longrightarrow> stream_moved s s''" for s s' s'' :: "'a diskstate_scheme"
    by (rule stream_moved_trans)
next
  show "drive_serves img s \<Longrightarrow> stream_pos s p = Some (int i) \<Longrightarrow> i + n < 2147483648 \<Longrightarrow>
      \<exists>s'. disk_streamer_read s p (int n) = Inr (0, image_bytes img i n, s') \<and>
        stream_pos s' p = Some (int (i + n)) \<and> stream_moved s s'" for s :: "'a diskstate_scheme" and p i n
    by (rule streamer_read_image)
  show "stream_moved s s' \<Longrightarrow> drive_serves img s' = drive_serves img s" for s s' :: "'a diskstate_scheme"
    by (simp add: drive_serves_def stream_moved_keeps)
  show "stream_moved s s' \<Longrightarrow> (stream_pos s' p = None) = (stream_pos s p = None)"
    for s s' :: "'a diskstate_scheme" and p by (rule stream_moved_keeps)
qed

subsection \<open>A drive\<close>

text \<open>A device that behaves as \<open>ata_disk\<close> asks: always ready, it decodes the LBA from the last register
  writes and counts the words read since. It shows that the assumption can hold.\<close>

definition setup_lba :: "port_event list \<Rightarrow> u32" where
  "setup_lba tr = (case tr of
     _ # Out_b _ b2 # Out_b _ b1 # Out_b _ b0 # _ # Out_b _ b3 # _ \<Rightarrow>
       ucast b0 OR push_bit 8 (ucast b1) OR push_bit 16 (ucast b2) OR push_bit 24 (ucast (b3 AND 0x0F))
   | _ \<Rightarrow> 0)"

definition example_device :: "(nat \<Rightarrow> u8) \<Rightarrow> device" where
  "example_device img tr port =
     (if port = 0x1F7 then 8
      else image_word img
        (512 * unat (setup_lba (dropWhile (\<lambda>e. e = In_w 0x1F0 \<or> e = In_b 0x1F7) tr)) +
         2 * length (takeWhile (\<lambda>e. e = In_w 0x1F0) tr)))"

lemma bit_small_u32: "unat l < 2 ^ k \<Longrightarrow> bit l n \<Longrightarrow> n < k" for l :: u32
proof -
  assume "unat l < 2 ^ k" "bit l n"
  then have "take_bit k l = l" 
    by (simp add: word_unat_eq_iff unsigned_take_bit_eq take_bit_nat_eq_self)
  with \<open>bit l n\<close> show ?thesis by (metis bit_take_bit_iff)
qed

lemma setup_lba_setup: "unat l < 2 ^ 28 \<Longrightarrow> setup_lba (ata_setup l tr) = l"
proof (rule bit_word_eqI)
  fix n assume l: "unat l < 2 ^ 28" and n: "n < LENGTH(32)"
  have n28: "bit l n \<Longrightarrow> n < 28" using bit_small_u32 [OF l] .
  have byte: "bit (push_bit k (ucast (ucast (drop_bit k l) :: u8)) :: u32) n \<longleftrightarrow> k \<le> n \<and> n < k + 8 \<and> bit l n" for k
    using n by (auto simp: bit_push_bit_iff byte_bit)
  have b0: "bit (ucast (ucast (l AND 0xff) :: u8) :: u32) n \<longleftrightarrow> n < 8 \<and> bit l n"
  proof -
    have m: "(0xff :: u32) = mask 8" by (simp add: mask_eq_exp_minus_1)
    show ?thesis unfolding m using n by (auto simp: bit_simps)
  qed
  have b3: "bit (push_bit 24 (ucast ((ucast (drop_bit 24 l) OR 0xE0 :: u8) AND 0x0F)) :: u32) n
      \<longleftrightarrow> 24 \<le> n \<and> n < 28 \<and> bit l n"
  proof -
    have m: "(0x0F :: u8) = mask 4" "(0xE0 :: u8) = NOT (mask 5)"
      by (simp_all add: mask_eq_exp_minus_1)
    show ?thesis unfolding m using n by (auto simp: bit_simps)
  qed
  show "bit (setup_lba (ata_setup l tr)) n = bit l n"
    using byte [of 8] byte [of 16] b0 b3 n28
    by (auto simp: setup_lba_def ata_setup_def bit_or_iff)
qed

lemma example_device_serves: "ata_disk (example_device img) img"
  unfolding ata_disk_def
proof (intro allI impI conjI)
  fix tr l assume l: "unat (l :: u32) < 2 ^ 28"
  let ?p = "\<lambda>e. e = In_w 0x1F0 \<or> e = In_b 0x1F7"
  show "\<exists>k. drq (example_device img) (polls k (ata_setup l tr))"
    by (simp add: drq_def example_device_def)
  fix k j :: nat
  have "dropWhile ?p (ata_setup l tr) = ata_setup l tr" by (simp add: ata_setup_def)
  then have "dropWhile ?p (replicate j (In_w 0x1F0) @ polls (Suc k) (ata_setup l tr)) = ata_setup l tr"
    by (simp add: dropWhile_append)
  moreover have "takeWhile (\<lambda>e. e = In_w 0x1F0) (replicate j (In_w 0x1F0) @ polls (Suc k) (ata_setup l tr))
      = replicate j (In_w 0x1F0)"
    by (simp add: takeWhile_append)
  ultimately show "example_device img (replicate j (In_w 0x1F0) @ polls (Suc k) (ata_setup l tr)) 0x1F0
      = image_word img (512 * unat l + 2 * j)"
    by (simp add: example_device_def setup_lba_setup [OF l])
qed

subsection \<open>Properties of the disk driver and the streams\<close>

text \<open>C20: on a drive that behaves as the ATA specification says, the driver's polling ends and reading sector
  \<open>l\<close> answers 0 with its 512 bytes; only the port trace changes.\<close>

theorem disk_read_block_reads:
  assumes "ata_disk (hw s) img" "unat l < 2 ^ 28"
  shows "\<exists>tr. disk_read_block s The_disk l 1 =
    Inr (0, map img [512 * unat l..<512 * unat l + 512], s\<lparr>port_trace := tr\<rparr>)"
  using disk_read_one [OF assms] by (simp add: image_bytes_def)

definition example_disk_state :: "(nat \<Rightarrow> u8) \<Rightarrow> diskstate" where
  "example_disk_state img = \<lparr>video_mem = (\<lambda>_. 0), terminal_row = 0, terminal_col = 0,
     kheap = kernel_fresh_heap, mem = (\<lambda>_. 0xAA), current_directory = 0, cr3 = 0, cr0 = 0,
     hw = example_device img, port_trace = [],
     kdisk = \<lparr>dk_type = 0, sector_size = 512, dk_id = 0, dk_filesystem = None, fs_private = 0\<rparr>,
     streams = [0x01000000 \<mapsto> \<lparr>st_pos = 510, st_disk = The_disk\<rparr>]\<rparr>"

lemma disk_read_block_reads_witness:
  "\<exists>tr. disk_read_block (example_disk_state of_nat) The_disk 2 1 =
    Inr (0, map of_nat [1024..<1536], (example_disk_state of_nat)\<lparr>port_trace := tr\<rparr>)"
  using disk_read_block_reads [of "example_disk_state of_nat" of_nat 2] example_device_serves
  by (simp add: example_disk_state_def)

lemma example_bytes: "map of_nat [510..<514] = [254 :: u8, 255, 0, 1]"
  by code_simp

text \<open>\<open>disk_streamer_read\<close> returns exactly the disk's bytes from the stream's position on, across sector
  boundaries, advances the position by their number, and changes nothing but stream positions and the trace.\<close>

theorem disk_streamer_read_bytes:
  assumes "ata_disk (hw s) img" "streams s p = Some \<lparr>st_pos = int i, st_disk = The_disk\<rparr>" "i + n < 2 ^ 31"
  shows "\<exists>s'. disk_streamer_read s p (int n) = Inr (0, map img [i..<i + n], s') \<and>
    stream_pos s' p = Some (int (i + n)) \<and> stream_moved s s'"
  using ds.read_ok [of img s p i n] assms
  by (simp add: drive_serves_def stream_pos_def image_bytes_def)

lemma disk_streamer_read_bytes_witness:
  "\<exists>s'. disk_streamer_read (example_disk_state of_nat) 0x01000000 (int 4) = Inr (0, [254, 255, 0, 1], s') \<and>
     stream_pos s' 0x01000000 = Some 514"
proof -
  have "\<exists>s'. disk_streamer_read (example_disk_state of_nat) 0x01000000 (int 4)
      = Inr (0, map of_nat [510..<510 + 4], s') \<and>
    stream_pos s' 0x01000000 = Some (int (510 + 4)) \<and> stream_moved (example_disk_state of_nat) s'"
    by (rule disk_streamer_read_bytes) (simp_all add: example_disk_state_def example_device_serves)
  then show ?thesis by (auto simp: example_bytes)
qed

text \<open>C21: streams are sequential: reading \<open>m\<close> bytes and then \<open>n\<close> bytes gives, one after the other, the bytes that one read of \<open>m + n\<close> bytes gives from
  the same place, which are those of the disk image; and both ways leave the stream \<open>m + n\<close> bytes further on.\<close>

theorem disk_streamer_read_split:
  assumes "ata_disk (hw s) img" "streams s p = Some \<lparr>st_pos = int i, st_disk = The_disk\<rparr>" "i + m + n < 2 ^ 31"
  shows "\<exists>s1 s2 s3 bs cs. disk_streamer_read s p (int m) = Inr (0, bs, s1) \<and> disk_streamer_read s1 p (int n) = Inr (0, cs, s2) \<and>
    disk_streamer_read s p (int (m + n)) = Inr (0, bs @ cs, s3) \<and> bs @ cs = map img [i..<i + m + n] \<and>
    streams s2 p = Some \<lparr>st_pos = int (i + m + n), st_disk = The_disk\<rparr> \<and> streams s3 p = streams s2 p"
proof -
  have s: "drive_serves img s" "stream_pos s p = Some (int i)" "i + m < 2147483648" "i + m + n < 2147483648" "i + (m + n) < 2147483648"
    using assms by (simp_all add: drive_serves_def stream_pos_def)
  obtain s1 where s1: "disk_streamer_read s p (int m) = Inr (0, image_bytes img i m, s1)" "stream_pos s1 p = Some (int (i + m))"
    "stream_moved s s1" using streamer_read_image [OF s(1-3)] by blast
  have "drive_serves img s1" using s(1) s1(3) by (simp add: drive_serves_def stream_moved_keeps)
  from streamer_read_image [OF this s1(2) s(4)] obtain s2 where
    s2: "disk_streamer_read s1 p (int n) = Inr (0, image_bytes img (i + m) n, s2)" "stream_pos s2 p = Some (int (i + m + n))" by blast
  obtain s3 where s3: "disk_streamer_read s p (int (m + n)) = Inr (0, image_bytes img i (m + n), s3)" "stream_pos s3 p = Some (int (i + (m + n)))"
    using streamer_read_image [OF s(1,2,5)] by blast
  have pos: "streams u p = Some \<lparr>st_pos = k, st_disk = The_disk\<rparr>" if "stream_pos u p = Some k" for u :: "'a diskstate_scheme" and k
    using that by (auto simp: stream_pos_def split: option.splits if_splits)
  have bytes: "image_bytes img i m @ image_bytes img (i + m) n = image_bytes img i (m + n)"
    using upt_add_eq_append [of i "i + m" n] by (simp add: image_bytes_def add.assoc flip: map_append)
  show ?thesis
    by (rule exI [of _ s1], rule exI [of _ s2], rule exI [of _ s3], rule exI [of _ "image_bytes img i m"], rule exI [of _ "image_bytes img (i + m) n"])
      (use s1(1) s2 s3 bytes pos [OF s2(2)] pos [OF s3(2)] in \<open>simp add: image_bytes_def add.assoc\<close>)
qed

lemma disk_streamer_read_split_witness:
  "\<exists>s1 s2 s3 bs cs. disk_streamer_read (example_disk_state of_nat) 0x01000000 (int 1) = Inr (0, bs, s1) \<and>
    disk_streamer_read s1 0x01000000 (int 3) = Inr (0, cs, s2) \<and>
    disk_streamer_read (example_disk_state of_nat) 0x01000000 (int (1 + 3)) = Inr (0, bs @ cs, s3) \<and> bs @ cs = [254, 255, 0, 1] \<and>
    streams s2 0x01000000 = Some \<lparr>st_pos = int (510 + 1 + 3), st_disk = The_disk\<rparr> \<and> streams s3 0x01000000 = streams s2 0x01000000"
proof -
  have "map of_nat [510..<510 + 1 + 3] = [254 :: u8, 255, 0, 1]" by code_simp
  moreover have "\<exists>s1 s2 s3 bs cs. disk_streamer_read (example_disk_state of_nat) 0x01000000 (int 1) = Inr (0, bs, s1) \<and>
    disk_streamer_read s1 0x01000000 (int 3) = Inr (0, cs, s2) \<and>
    disk_streamer_read (example_disk_state of_nat) 0x01000000 (int (1 + 3)) = Inr (0, bs @ cs, s3) \<and> bs @ cs = map of_nat [510..<510 + 1 + 3] \<and>
    streams s2 0x01000000 = Some \<lparr>st_pos = int (510 + 1 + 3), st_disk = The_disk\<rparr> \<and> streams s3 0x01000000 = streams s2 0x01000000"
    by (rule disk_streamer_read_split) (simp_all add: example_disk_state_def example_device_serves)
  ultimately show ?thesis by metis
qed

end
