(* ===== verification/PathParser.thy ===== *)
theory PathParser
  imports Streamer
begin

text \<open>
  The path parser of src/fs/pparser.c: \<open>0:/dir/file\<close> becomes a drive number and a linked list of
  parts. The nodes, the root and the character arrays of the parts are heap objects in the typed
  stores \<open>path_parts\<close>, \<open>path_roots\<close> and \<open>kbufs\<close>. A \<open>const char **path\<close> is the list of the bytes from the
  pointer on, returned advanced. The abstract value of a path is
  \<open>path_components\<close>: what stands between the slashes, up to the first empty component.
\<close>

subsection \<open>Data (pparser.h)\<close>

record path_part =
  part :: u32 \<comment> \<open>address of the character array\<close>
  pp_next :: u32

record path_root =
  drive_no :: int
  path_first :: u32

record pathstate = diskstate +
  kbufs :: "u32 \<Rightarrow> u8 list option" \<comment> \<open>character arrays of the heap\<close>
  path_parts :: "u32 \<Rightarrow> path_part option"
  path_roots :: "u32 \<Rightarrow> path_root option"

subsection \<open>Operations (pparser.c)\<close>

definition pathparser_path_valid_format :: "u8 list \<Rightarrow> bool res" where
  "pathparser_path_valid_format filename =
     bind_res (strnlen filename MARROWOS_MAX_PATH) (\<lambda>len.
       if \<not> 3 \<le> len then Inr False
       else bind_res (list_get filename 0) (\<lambda>c.
         if \<not> isDigit c then Inr False
         else bind_res (memcmp (drop 1 filename) (c_literal '':/'') 2) (\<lambda>r. Inr (r = 0))))"

definition pathparser_get_drive_by_path :: "u8 list \<Rightarrow> (int \<times> u8 list) res" where
  "pathparser_get_drive_by_path path =
     bind_res (pathparser_path_valid_format path) (\<lambda>ok.
       if \<not> ok then Inr (- EBADPATH, path)
       else bind_res (list_get path 0) (\<lambda>c. Inr (tonumericdigit c, drop 3 path)))"

definition pathparser_create_root :: "'a pathstate_scheme \<Rightarrow> int \<Rightarrow> (u32 \<times> 'a pathstate_scheme) res" where
  "pathparser_create_root s drive_number =
     bind_res (kzalloc s 8) (\<lambda>(path_r, s).
       if path_r = 0 then Inr (0, s)
       else Inr (path_r, s\<lparr>path_roots :=
              (path_roots s)(path_r \<mapsto> \<lparr>drive_no = drive_number, path_first = 0\<rparr>)\<rparr>))"

text \<open>\<open>while (**path != '/' && **path != 0x00)\<close>: the array, the index and the path move along.\<close>

fun part_loop :: "u8 list \<Rightarrow> int \<Rightarrow> u8 list \<Rightarrow> (u8 list \<times> int \<times> u8 list) res" where
  "part_loop buf i [] = Inl OutOfBounds"
| "part_loop buf i (c # path) =
     (if c \<noteq> 47 \<and> c \<noteq> 0 then bind_res (list_set buf i c) (\<lambda>buf. part_loop buf (i + 1) path)
      else Inr (buf, i, c # path))"

definition pathparser_get_path_part ::
  "'a pathstate_scheme \<Rightarrow> u8 list \<Rightarrow> (u32 \<times> u8 list \<times> 'a pathstate_scheme) res" where
  "pathparser_get_path_part s path =
     bind_res (kzalloc s 108) (\<lambda>(result_path_part, s).
       if result_path_part = 0 then Inr (0, path, s)
       else bind_res (part_loop (replicate 108 0) 0 path) (\<lambda>(buf, i, path).
         let s = s\<lparr>kbufs := (kbufs s)(result_path_part \<mapsto> buf)\<rparr>
         in bind_res (list_get path 0) (\<lambda>c.
           let path = (if c = 47 then drop 1 path else path)
           in if i = 0
              then bind_res (kfree s result_path_part) (\<lambda>s.
                     Inr (0, path, s\<lparr>kbufs := (kbufs s)(result_path_part := None)\<rparr>))
              else Inr (result_path_part, path, s))))"

definition pathparser_parser_path_part ::
  "'a pathstate_scheme \<Rightarrow> u32 \<Rightarrow> u8 list \<Rightarrow> (u32 \<times> u8 list \<times> 'a pathstate_scheme) res" where
  "pathparser_parser_path_part s last_part path =
     bind_res (pathparser_get_path_part s path) (\<lambda>(path_part_str, path, s).
       if path_part_str = 0 then Inr (0, path, s)
       else bind_res (kzalloc s 8) (\<lambda>(p, s).
         if p = 0
         then bind_res (kfree s path_part_str) (\<lambda>s.
                Inr (0, path, s\<lparr>kbufs := (kbufs s)(path_part_str := None)\<rparr>))
         else
           let s = s\<lparr>path_parts := (path_parts s)(p \<mapsto> \<lparr>part = path_part_str, pp_next = 0\<rparr>)\<rparr>
           in if last_part \<noteq> 0
              then bind_res (obj_get (path_parts s) last_part) (\<lambda>l.
                     Inr (p, path, s\<lparr>path_parts := (path_parts s)(last_part \<mapsto> l\<lparr>pp_next := p\<rparr>)\<rparr>))
              else Inr (p, path, s)))"

text \<open>The loop of \<open>pathparser_free\<close> follows the list it frees; None is a list that never ends.\<close>

definition free_part :: "'a pathstate_scheme \<Rightarrow> u32 \<Rightarrow> (u32 \<times> 'a pathstate_scheme) res" where
  "free_part s p =
     bind_res (obj_get (path_parts s) p) (\<lambda>x.
     bind_res (kfree s (part x)) (\<lambda>s.
     let s = s\<lparr>kbufs := (kbufs s)(part x := None)\<rparr>
     in bind_res (kfree s p) (\<lambda>s.
          Inr (pp_next x, s\<lparr>path_parts := (path_parts s)(p := None)\<rparr>))))"

partial_function (option) free_parts_loop ::
  "'a pathstate_scheme \<Rightarrow> u32 \<Rightarrow> 'a pathstate_scheme res option" where
  "free_parts_loop s p =
     (if p = 0 then Some (Inr s)
      else case free_part s p of Inl e \<Rightarrow> Some (Inl e) | Inr (nx, s) \<Rightarrow> free_parts_loop s nx)"

definition pathparser_free :: "'a pathstate_scheme \<Rightarrow> u32 \<Rightarrow> 'a pathstate_scheme res" where
  "pathparser_free s root =
     bind_res (obj_get (path_roots s) root) (\<lambda>r.
       case free_parts_loop s (path_first r) of
         None \<Rightarrow> Inl Hang
       | Some res \<Rightarrow> bind_res res (\<lambda>s. bind_res (kfree s root) (\<lambda>s.
           Inr (s\<lparr>path_roots := (path_roots s)(root := None)\<rparr>))))"

lemma part_loop_shrinks:
  "part_loop buf i path = Inr (buf', j, path') \<Longrightarrow> length path' + nat (j - i) = length path \<and> i \<le> j"
proof (induction path arbitrary: buf i)
  case (Cons c path)
  show ?case
  proof (cases "c \<noteq> 47 \<and> c \<noteq> 0")
    case True
    with Cons.prems obtain b where "part_loop b (i + 1) path = Inr (buf', j, path')"
      by (auto simp: res_simps)
    from Cons.IH [OF this] show ?thesis by auto
  qed (use Cons.prems in auto)
qed simp

lemma get_path_part_shrinks:
  "pathparser_get_path_part s path = Inr (p, path', s') \<Longrightarrow> p \<noteq> 0 \<Longrightarrow> length path' < length path"
  by (auto simp: pathparser_get_path_part_def res_simps Let_def split: if_splits
      dest!: part_loop_shrinks)

lemma parser_path_part_shrinks:
  "pathparser_parser_path_part s l path = Inr (p, path', s') \<Longrightarrow> p \<noteq> 0 \<Longrightarrow> length path' < length path"
  by (auto simp: pathparser_parser_path_part_def res_simps Let_def split: if_splits
      dest!: get_path_part_shrinks)

text \<open>\<open>while (part) part = pathparser_parser_path_part(part, &temp_path);\<close>\<close>

function parse_rest :: "'a pathstate_scheme \<Rightarrow> u32 \<Rightarrow> u8 list \<Rightarrow> 'a pathstate_scheme res" where
  "parse_rest s p path =
     (if p = 0 then Inr s
      else bind_res (pathparser_parser_path_part s p path) (\<lambda>(p, path', s).
        if p = 0 then Inr s else parse_rest s p path'))"
  by pat_completeness auto
termination
  by (relation "measure (\<lambda>(s, p, path). length path)") (auto dest: parser_path_part_shrinks)

declare parse_rest.simps [simp del]

definition pathparser_parse :: "'a pathstate_scheme \<Rightarrow> u8 list \<Rightarrow> (u32 \<times> 'a pathstate_scheme) res" where
  "pathparser_parse s path =
     bind_res (strlen path) (\<lambda>len.
       if MARROWOS_MAX_PATH < len then Inr (0, s)
       else bind_res (pathparser_get_drive_by_path path) (\<lambda>(res, temp_path).
         if res < 0 then Inr (0, s)
         else bind_res (pathparser_create_root s res) (\<lambda>(root, s).
           if root = 0 then Inr (0, s)
           else bind_res (pathparser_parser_path_part s 0 temp_path) (\<lambda>(first_part, temp_path, s).
             if first_part = 0
             then bind_res (kfree s root) (\<lambda>s. Inr (0, s\<lparr>path_roots := (path_roots s)(root := None)\<rparr>))
             else
               let s = s\<lparr>path_roots := (path_roots s)(root \<mapsto> \<lparr>drive_no = res, path_first = first_part\<rparr>)\<rparr>
               in bind_res (pathparser_parser_path_part s first_part temp_path) (\<lambda>(p, temp_path, s).
                    bind_res (parse_rest s p temp_path) (\<lambda>s. Inr (root, s)))))))"

subsection \<open>The components of a path\<close>

function path_components :: "u8 list \<Rightarrow> u8 list list" where
  "path_components t =
     (let c = takeWhile (\<lambda>x. x \<noteq> 47) t
      in if c = [] then [] else c # path_components (drop (Suc (length c)) t))"
  by pat_completeness auto
termination
proof (relation "measure length", goal_cases)
  case (2 t c)
  then have "t \<noteq> []" by auto
  then show ?case by simp
qed simp

declare path_components.simps [simp del]

text \<open>
  \<open>linked s p ps cs\<close>: from \<open>p\<close> the heap holds a list of parts whose character arrays hold the
  strings \<open>cs\<close>; \<open>ps\<close> are the addresses of the arrays and the nodes.
\<close>

fun linked :: "'a pathstate_scheme \<Rightarrow> u32 \<Rightarrow> u32 list \<Rightarrow> u8 list list \<Rightarrow> bool" where
  "linked s p [] [] \<longleftrightarrow> p = 0"
| "linked s p (b # a # ps) (c # cs) \<longleftrightarrow>
     p = a \<and> a \<noteq> 0 \<and>
     (\<exists>nx buf. path_parts s a = Some \<lparr>part = b, pp_next = nx\<rparr> \<and> kbufs s b = Some buf \<and>
        cstring buf = c \<and> 0 \<in> set buf \<and> linked s nx ps cs)"
| "linked s p _ _ \<longleftrightarrow> False"

lemma part_loop_copies:
  assumes "0 \<notin> set t" "k + length (takeWhile (\<lambda>x. x \<noteq> 47) t) \<le> length buf"
  shows "part_loop buf (int k) (t @ 0 # r) =
    Inr (overwrite buf k (takeWhile (\<lambda>x. x \<noteq> 47) t), int (k + length (takeWhile (\<lambda>x. x \<noteq> 47) t)),
      drop (length (takeWhile (\<lambda>x. x \<noteq> 47) t)) t @ 0 # r)"
  using assms
proof (induction t arbitrary: k buf)
  case Nil
  then show ?case by (simp add: overwrite_def)
next
  case (Cons c t)
  show ?case
  proof (cases "c = 47")
    case True
    then show ?thesis by (simp add: overwrite_def)
  next
    case False
    with Cons.prems have k: "k < length buf" by simp
    have "part_loop (buf[k := c]) (int (Suc k)) (t @ 0 # r) =
      Inr (overwrite (buf[k := c]) (Suc k) (takeWhile (\<lambda>x. x \<noteq> 47) t),
        int (Suc k + length (takeWhile (\<lambda>x. x \<noteq> 47) t)),
        drop (length (takeWhile (\<lambda>x. x \<noteq> 47) t)) t @ 0 # r)"
      using Cons.prems False by (intro Cons.IH) simp_all
    with False Cons.prems k show ?thesis
      by (simp add: list_set_nat overwrite_step add.commute)
  qed
qed

text \<open>One part: its array is a fresh page holding the component; an empty one takes nothing.\<close>

lemma get_path_part_ok:
  fixes s :: "'a pathstate_scheme"
  assumes "kheap_inv s" "0 < kavail s" "0 \<notin> set t"
  defines "c \<equiv> takeWhile (\<lambda>x. x \<noteq> 47) t"
  assumes "length c < 108"
  obtains p h m kb where "pathparser_get_path_part s (t @ 0 # r) =
      Inr (if c = [] then 0 else p, drop (Suc (length c)) t @ 0 # r, s\<lparr>kheap := h, mem := m, kbufs := kb\<rparr>)"
    "hgrown (kheap s) (mem s) h m (if c = [] then [] else [p])" "p \<noteq> 0"
    "c \<noteq> [] \<Longrightarrow> \<exists>buf. kb p = Some buf \<and> cstring buf = c \<and> 0 \<in> set buf"
    "\<And>q n. klive s q n \<Longrightarrow> kb q = kbufs s q"
proof -
  obtain p h m where z: "kzalloc s 108 = Inr (p, s\<lparr>kheap := h, mem := m\<rparr>)" "p \<noteq> 0"
      "hgrown (kheap s) (mem s) h m [p]"
    by (rule kzalloc_grown [OF assms(1,2), of 108]) auto
  have dead: "\<not> klive s p n" for n using hgrownD(4) [OF z(3)] by simp
  have c0: "0 \<notin> set c" using assms(3) by (auto simp: c_def dest: set_takeWhileD)
  let ?buf = "overwrite (replicate 108 0) 0 c"
  have loop: "part_loop (replicate 108 0) 0 (t @ 0 # r) = Inr (?buf, int (length c), drop (length c) t @ 0 # r)"
    using part_loop_copies [of t 0 "replicate 108 0" r] assms(3,5) by (simp add: c_def)
  have "replicate (108 - length c) 0 = (0 :: u8) # replicate (107 - length c) 0"
    using assms(5) by (cases "108 - length c") auto
  then have "?buf = c @ 0 # replicate (107 - length c) 0" by (simp add: overwrite_def)
  then have buf: "cstring ?buf = c" "0 \<in> set ?buf" using cstring_append_nul [OF c0] by simp_all
  obtain x xs w where x: "drop (length c) t @ 0 # r = x # xs" and w: "w = drop (Suc (length c)) t @ 0 # r"
    and nxt: "(if x = 47 then xs else x # xs) = w"
  proof (cases "drop (length c) t")
    case Nil
    then show thesis by (intro that [of 0 r "0 # r"]) simp_all
  next
    case (Cons y ys)
    then have "y = 47" using dropWhile_eq_drop hd_dropWhile [of "\<lambda>x. x \<noteq> 47" t]
      by (metis c_def list.discI list.sel(1))
    moreover have "drop (Suc (length c)) t = ys" by (metis Cons drop_Suc drop_tl list.sel(3))
    ultimately show thesis using Cons by (intro that [of 47 "ys @ 0 # r" "ys @ 0 # r"]) simp_all
  qed
  note loop = loop [unfolded x]
  show thesis
  proof (cases "c = []")
    case False
    then have "pathparser_get_path_part s (t @ 0 # r) = Inr (p, w,
        s\<lparr>kheap := h, mem := m, kbufs := (kbufs s)(p \<mapsto> ?buf)\<rparr>)"
      unfolding nxt [symmetric] using z loop by (cases "x = 47") (simp_all add: pathparser_get_path_part_def Let_def list_get_def)
    with False z buf dead show thesis unfolding w by (intro that [of p "(kbufs s)(p \<mapsto> ?buf)" m h]) auto
  next
    case True
    have "hgrown (kheap s) (mem s) (kheap (s\<lparr>kheap := h, mem := m, kbufs := (kbufs s)(p \<mapsto> ?buf)\<rparr>))
        (mem (s\<lparr>kheap := h, mem := m, kbufs := (kbufs s)(p \<mapsto> ?buf)\<rparr>)) ([] @ p # [])"
      using z(3) by simp
    then obtain h' where f: "kfree (s\<lparr>kheap := h, mem := m, kbufs := (kbufs s)(p \<mapsto> ?buf)\<rparr>) p =
        Inr (s\<lparr>kheap := h, mem := m, kbufs := (kbufs s)(p \<mapsto> ?buf)\<rparr>\<lparr>kheap := h'\<rparr>)"
      "hgrown (kheap s) (mem s) h' m []" by (rule kfree_grown) simp_all
    then have "pathparser_get_path_part s (t @ 0 # r) = Inr (0, w,
        s\<lparr>kheap := h', mem := m, kbufs := (kbufs s)(p := None)\<rparr>)"
      unfolding nxt [symmetric] using True z loop by (cases "x = 47") (simp_all add: pathparser_get_path_part_def Let_def list_get_def)
    with True f(2) z(2) dead show thesis unfolding w by (intro that [of p "(kbufs s)(p := None)" m h']) auto
  qed
qed

text \<open>A part in the list: a fresh array and a fresh node, linked behind \<open>lst\<close>.\<close>

lemma parser_path_part_none:
  fixes s :: "'a pathstate_scheme"
  assumes "kheap_inv s" "0 < kavail s" "0 \<notin> set t" "takeWhile (\<lambda>x. x \<noteq> 47) t = []"
  obtains h m kb where "pathparser_parser_path_part s lst (t @ 0 # r) =
      Inr (0, drop 1 t @ 0 # r, s\<lparr>kheap := h, mem := m, kbufs := kb\<rparr>)"
    "hgrown (kheap s) (mem s) h m []"
    "\<And>q n. klive s q n \<Longrightarrow> kb q = kbufs s q"
proof (rule get_path_part_ok [OF assms(1-3), of r])
  show "length (takeWhile (\<lambda>x. x \<noteq> 47) t) < 108" using assms(4) by simp
  fix p h m kb
  assume "pathparser_get_path_part s (t @ 0 # r) =
      Inr (if takeWhile (\<lambda>x. x \<noteq> 47) t = [] then 0 else p,
        drop (Suc (length (takeWhile (\<lambda>x. x \<noteq> 47) t))) t @ 0 # r, s\<lparr>kheap := h, mem := m, kbufs := kb\<rparr>)"
    "hgrown (kheap s) (mem s) h m (if takeWhile (\<lambda>x. x \<noteq> 47) t = [] then [] else [p])"
    "\<And>q n. klive s q n \<Longrightarrow> kb q = kbufs s q"
  then show thesis using assms(4)
    by (intro that [of kb m h]) (auto simp: pathparser_parser_path_part_def)
qed

lemma parser_path_part_some:
  fixes s :: "'a pathstate_scheme"
  assumes "kheap_inv s" "2 \<le> kavail s" "0 \<notin> set t"
  defines "c \<equiv> takeWhile (\<lambda>x. x \<noteq> 47) t"
  assumes "c \<noteq> []" "length c < 108" and lst: "lst = 0 \<or> path_parts s lst = Some l \<and> klive s lst 1"
  obtains a b h m kb where "pathparser_parser_path_part s lst (t @ 0 # r) =
      Inr (a, drop (Suc (length c)) t @ 0 # r, s\<lparr>kheap := h, mem := m, kbufs := kb,
        path_parts := if lst = 0 then (path_parts s)(a \<mapsto> \<lparr>part = b, pp_next = 0\<rparr>)
          else (path_parts s)(a \<mapsto> \<lparr>part = b, pp_next = 0\<rparr>, lst \<mapsto> l\<lparr>pp_next := a\<rparr>)\<rparr>)"
    "hgrown (kheap s) (mem s) h m [b, a]" "a \<noteq> lst"
    "\<exists>buf. kb b = Some buf \<and> cstring buf = c \<and> 0 \<in> set buf"
    "\<And>q n. klive s q n \<Longrightarrow> kb q = kbufs s q"
proof -
  have av: "0 < kavail s" using assms(2) by simp
  obtain b h1 m1 kb where b: "pathparser_get_path_part s (t @ 0 # r) =
      Inr (b, drop (Suc (length c)) t @ 0 # r, s\<lparr>kheap := h1, mem := m1, kbufs := kb\<rparr>)"
      "hgrown (kheap s) (mem s) h1 m1 [b]" "b \<noteq> 0"
      "\<exists>buf. kb b = Some buf \<and> cstring buf = c \<and> 0 \<in> set buf"
      "\<And>q n. klive s q n \<Longrightarrow> kb q = kbufs s q"
  proof (rule get_path_part_ok [OF assms(1) av assms(3), of r])
    show "length (takeWhile (\<lambda>x. x \<noteq> 47) t) < 108" using assms(4,6) by simp
  next
    fix p h m kb
    assume "pathparser_get_path_part s (t @ 0 # r) =
        Inr (if takeWhile (\<lambda>x. x \<noteq> 47) t = [] then 0 else p,
          drop (Suc (length (takeWhile (\<lambda>x. x \<noteq> 47) t))) t @ 0 # r, s\<lparr>kheap := h, mem := m, kbufs := kb\<rparr>)"
      "hgrown (kheap s) (mem s) h m (if takeWhile (\<lambda>x. x \<noteq> 47) t = [] then [] else [p])" "p \<noteq> 0"
      "takeWhile (\<lambda>x. x \<noteq> 47) t \<noteq> [] \<Longrightarrow>
        \<exists>buf. kb p = Some buf \<and> cstring buf = takeWhile (\<lambda>x. x \<noteq> 47) t \<and> 0 \<in> set buf"
      "\<And>q n. klive s q n \<Longrightarrow> kb q = kbufs s q"
    then show thesis using assms(4,5)
      by (intro that [of p kb m h]) (auto simp: c_def)
  qed
  let ?s = "s\<lparr>kheap := h1, mem := m1, kbufs := kb\<rparr>"
  note g = hgrownD [OF b(2)]
  have inv: "kheap_inv ?s" "0 < kavail ?s" using g(1,5) assms(2) by simp_all
  obtain a h m where a: "kzalloc ?s 8 = Inr (a, ?s\<lparr>kheap := h, mem := m\<rparr>)" "a \<noteq> 0"
      "hgrown (kheap ?s) (mem ?s) h m [a]"
    by (rule kzalloc_grown [OF inv, of 8]) auto
  have "hgrown (kheap s) (mem s) h m ([b] @ [a])"
    using a(3) by (intro hgrown_trans [OF b(2)]) simp
  moreover have "a \<noteq> lst" using lst hgrownD(4) [OF a(3), of a 1] a(2) g(6) [of a 1] by auto
  moreover have "pathparser_parser_path_part s lst (t @ 0 # r) =
      Inr (a, drop (Suc (length c)) t @ 0 # r, s\<lparr>kheap := h, mem := m, kbufs := kb,
        path_parts := if lst = 0 then (path_parts s)(a \<mapsto> \<lparr>part = b, pp_next = 0\<rparr>)
          else (path_parts s)(a \<mapsto> \<lparr>part = b, pp_next = 0\<rparr>, lst \<mapsto> l\<lparr>pp_next := a\<rparr>)\<rparr>)"
    using b(1,3) a(1,2) lst \<open>a \<noteq> lst\<close> by (auto simp: pathparser_parser_path_part_def Let_def)
  ultimately show thesis using b(4,5) by (intro that [of a b kb m h]) auto
qed

text \<open>The loop appends the remaining components behind the node \<open>p\<close>.\<close>

lemma parse_rest_links:
  fixes s :: "'a pathstate_scheme"
  assumes "kheap_inv s" "2 * length (path_components t) < kavail s" "0 \<notin> set t" "length t < 108"
    "path_parts s p = Some \<lparr>part = b, pp_next = 0\<rparr>" "klive s p 1"
  shows "\<exists>h m kb pp ps nx. parse_rest s p (t @ 0 # r) =
      Inr (s\<lparr>kheap := h, mem := m, kbufs := kb, path_parts := pp\<rparr>) \<and>
    hgrown (kheap s) (mem s) h m ps \<and> length ps = 2 * length (path_components t) \<and>
    pp p = Some \<lparr>part = b, pp_next = nx\<rparr> \<and>
    linked (s\<lparr>kheap := h, mem := m, kbufs := kb, path_parts := pp\<rparr>) nx ps (path_components t) \<and>
    (\<forall>q n. klive s q n \<longrightarrow> kb q = kbufs s q \<and> (q \<noteq> p \<longrightarrow> pp q = path_parts s q))"
  using assms
proof (induction "length t" arbitrary: s p b t rule: less_induct)
  case less
  let ?c = "takeWhile (\<lambda>x. x \<noteq> 47) t"
  have p0: "p \<noteq> 0" using kz.live_not_null [OF less.prems(1,6)] by simp
  have av: "0 < kavail s" using less.prems(2) by simp
  show ?case
  proof (cases "?c = []")
    case True
    then have comps: "path_components t = []" by (simp add: path_components.simps)
    obtain h m kb where r: "pathparser_parser_path_part s p (t @ 0 # r) =
        Inr (0, drop 1 t @ 0 # r, s\<lparr>kheap := h, mem := m, kbufs := kb\<rparr>)"
        "hgrown (kheap s) (mem s) h m []" "\<And>q n. klive s q n \<Longrightarrow> kb q = kbufs s q"
      by (rule parser_path_part_none [OF less.prems(1) av less.prems(3) True]) (rule that)
    then have "parse_rest s p (t @ 0 # r) = Inr (s\<lparr>kheap := h, mem := m, kbufs := kb, path_parts := path_parts s\<rparr>)"
      using p0 by (simp add: parse_rest.simps [of s])
    then show ?thesis using r(2,3) less.prems(5) comps
      by (intro exI [of _ h] exI [of _ m] exI [of _ kb] exI [of _ "path_parts s"] exI [of _ "[]"]
          exI [of _ 0]) auto
  next
    case False
    let ?t = "drop (Suc (length ?c)) t"
    have comps: "path_components t = ?c # path_components ?t"
      using False by (simp add: path_components.simps [of t] Let_def)
    have len: "length ?c \<le> length t" by (rule length_takeWhile_le)
    have c108: "length ?c < 108" "2 \<le> kavail s" using len less.prems(2,4) by (simp_all add: comps)
    obtain a b' h1 m1 kb1 where a: "pathparser_parser_path_part s p (t @ 0 # r) =
        Inr (a, ?t @ 0 # r, s\<lparr>kheap := h1, mem := m1, kbufs := kb1,
          path_parts := if p = 0 then (path_parts s)(a \<mapsto> \<lparr>part = b', pp_next = 0\<rparr>)
            else (path_parts s)(a \<mapsto> \<lparr>part = b', pp_next = 0\<rparr>, p \<mapsto> \<lparr>part = b, pp_next = 0\<rparr>\<lparr>pp_next := a\<rparr>)\<rparr>)"
        "hgrown (kheap s) (mem s) h1 m1 [b', a]" "a \<noteq> p"
        "\<exists>buf. kb1 b' = Some buf \<and> cstring buf = ?c \<and> 0 \<in> set buf"
        "\<And>q n. klive s q n \<Longrightarrow> kb1 q = kbufs s q"
      by (rule parser_path_part_some [OF less.prems(1) c108(2) less.prems(3) False c108(1),
            of p "\<lparr>part = b, pp_next = 0\<rparr>" r]) (use less.prems(5,6) in blast, rule that)
    define s1 where "s1 = s\<lparr>kheap := h1, mem := m1, kbufs := kb1, path_parts :=
        (path_parts s)(a \<mapsto> \<lparr>part = b', pp_next = 0\<rparr>, p \<mapsto> \<lparr>part = b, pp_next = a\<rparr>)\<rparr>"
    note g = hgrownD [OF a(2)]
    have a0: "a \<noteq> 0" "b' \<noteq> a" using g(2) g(3) [of a] by simp_all
    have s1: "kheap_inv s1" "2 * length (path_components ?t) < kavail s1" "path_parts s1 a = Some \<lparr>part = b', pp_next = 0\<rparr>"
        "klive s1 a 1"
      using g(1,5) g(6) [of a 1] less.prems(2) a(3) by (simp_all add: s1_def comps)
    have "t \<noteq> []" using False by auto
    then have lt: "length ?t < length t" by simp
    have t0: "0 \<notin> set ?t" using less.prems(3) by (auto dest: in_set_dropD)
    obtain h m kb pp ps nx where ih: "parse_rest s1 a (?t @ 0 # r) =
          Inr (s1\<lparr>kheap := h, mem := m, kbufs := kb, path_parts := pp\<rparr>)"
        "hgrown (kheap s1) (mem s1) h m ps" "length ps = 2 * length (path_components ?t)"
        "pp a = Some \<lparr>part = b', pp_next = nx\<rparr>"
        "linked (s1\<lparr>kheap := h, mem := m, kbufs := kb, path_parts := pp\<rparr>) nx ps (path_components ?t)"
        "\<forall>q n. klive s1 q n \<longrightarrow> kb q = kbufs s1 q \<and> (q \<noteq> a \<longrightarrow> pp q = path_parts s1 q)"
      using less.hyps [OF lt s1(1,2) t0 _ s1(3,4)] lt less.prems(4) by auto
    have live1: "klive s1 q n \<longleftrightarrow> klive s q n \<or> q \<in> {b', a} \<and> n = 1" for q n
      using g(6) by (simp add: s1_def)
    have "parse_rest s p (t @ 0 # r) = Inr (s\<lparr>kheap := h, mem := m, kbufs := kb, path_parts := pp\<rparr>)"
      using p0 a(1) a0 ih(1) by (simp add: parse_rest.simps [of s] s1_def)
    moreover have "hgrown (kheap s) (mem s) h m ([b', a] @ ps)"
      using ih(2) by (intro hgrown_trans [OF a(2)]) (simp add: s1_def)
    moreover have "kb b' = kb1 b'"
    proof -
      have "klive s1 b' 1" using live1 by simp
      then have "kb b' = kbufs s1 b'" using ih(6) by blast
      then show ?thesis by (simp add: s1_def)
    qed
    moreover have "pp p = Some \<lparr>part = b, pp_next = a\<rparr>"
    proof -
      have "klive s1 p 1" using live1 less.prems(6) by simp
      then have "pp p = path_parts s1 p" using ih(6) a(3) by blast
      then show ?thesis by (simp add: s1_def)
    qed
    moreover have "kb q = kbufs s q \<and> (q \<noteq> p \<longrightarrow> pp q = path_parts s q)" if "klive s q n" for q n
    proof -
      have "q \<noteq> a" using g(4) [of a n] that by auto
      then show ?thesis using ih(6) live1 [of q n] that a(5) [OF that] by (auto simp: s1_def)
    qed
    moreover have "linked (s\<lparr>kheap := h, mem := m, kbufs := kb, path_parts := pp\<rparr>) a ([b', a] @ ps) (path_components t)"
      using ih(4,5) a(4) a0 \<open>kb b' = kb1 b'\<close> by (simp add: comps s1_def)
    ultimately show ?thesis using ih(3) comps
      by (intro exI [of _ h] exI [of _ m] exI [of _ kb] exI [of _ pp] exI [of _ "[b', a] @ ps"]
          exI [of _ a]) auto
  qed
qed

subsection \<open>Parsing a whole path\<close>

lemma cstring_split: "0 \<in> set b \<Longrightarrow> \<exists>r. b = cstring b @ 0 # r"
  by (induction b) auto

lemma valid_format:
  assumes "cstring path = d # 58 # 47 # t" "0 \<in> set path" "isDigit d"
  shows "pathparser_get_drive_by_path path = Inr (tonumericdigit d, drop 3 path)"
proof -
  obtain r where path: "path = d # 58 # 47 # t @ 0 # r"
    using cstring_split [OF assms(2)] assms(1) by auto
  have "strnlen path 108 = Inr (min 108 (int (length t) + 3))"
    using strnlen_eq [of 108 path] assms(1,2) by (simp add: algebra_simps)
  then show ?thesis
    using assms(3) by (simp add: path pathparser_get_drive_by_path_def pathparser_path_valid_format_def
        list_get_def c_literal_def numeral_2_eq_2)
qed

lemma linked_cong:
  "(\<And>q. q \<in> set ps \<Longrightarrow> path_parts s' q = path_parts s q \<and> kbufs s' q = kbufs s q) \<Longrightarrow>
     linked s' p ps cs = linked s p ps cs"
  by (induction s p ps cs rule: linked.induct) auto

lemma parse_builds:
  fixes s :: "'a pathstate_scheme"
  assumes "kheap_inv s" "2 * length (path_components t) + 2 \<le> kavail s"
    and "cstring path = d # 58 # 47 # t" "0 \<in> set path" "isDigit d" "length t \<le> 105"
    and "path_components t \<noteq> []"
  obtains root h m kb pp nx ps where "pathparser_parse s path = Inr (root, s\<lparr>kheap := h, mem := m, kbufs := kb,
      path_parts := pp, path_roots := (path_roots s)(root \<mapsto> \<lparr>drive_no = tonumericdigit d, path_first = nx\<rparr>)\<rparr>)"
    "root \<noteq> 0" "hgrown (kheap s) (mem s) h m (root # ps)"
    "linked (s\<lparr>kheap := h, mem := m, kbufs := kb, path_parts := pp,
      path_roots := (path_roots s)(root \<mapsto> \<lparr>drive_no = tonumericdigit d, path_first = nx\<rparr>)\<rparr>) nx ps (path_components t)"
    "\<And>q n. klive s q n \<Longrightarrow> kb q = kbufs s q \<and> pp q = path_parts s q"
    "length ps = 2 * length (path_components t)"
proof -
  let ?c = "takeWhile (\<lambda>x. x \<noteq> 47) t" and ?t = "drop (Suc (length (takeWhile (\<lambda>x. x \<noteq> 47) t))) t"
  have c: "?c \<noteq> []" "path_components t = ?c # path_components ?t"
    using assms(7) by (simp_all add: path_components.simps [of t] Let_def split: if_splits)
  have len: "length ?c \<le> length t" by (rule length_takeWhile_le)
  obtain r where path: "path = d # 58 # 47 # t @ 0 # r"
    using cstring_split [OF assms(4)] assms(3) by auto
  have t0: "0 \<notin> set t" using cstring_no_nul [of path] unfolding assms(3) by auto
  have "strlen path = Inr (int (length t) + 3)" using assms(3,4) by (simp add: strlen_eq algebra_simps)
  then have slen: "\<exists>n. strlen path = Inr n \<and> \<not> 108 < n" using assms(6) by simp
  have d0: "\<not> tonumericdigit d < 0" using assms(5) by (simp add: tonumericdigit_def isDigit_def)
  have av: "0 < kavail s" using assms(2) by simp
  obtain root h0 m0 where root: "kzalloc s 8 = Inr (root, s\<lparr>kheap := h0, mem := m0\<rparr>)" "root \<noteq> 0"
      "hgrown (kheap s) (mem s) h0 m0 [root]"
    by (rule kzalloc_grown [OF assms(1) av, of 8]) auto
  define s0 where "s0 = s\<lparr>kheap := h0, mem := m0,
      path_roots := (path_roots s)(root \<mapsto> \<lparr>drive_no = tonumericdigit d, path_first = 0\<rparr>)\<rparr>"
  have create: "pathparser_create_root s (tonumericdigit d) = Inr (root, s0)"
    using root(1,2) by (simp add: pathparser_create_root_def s0_def)
  note g0 = hgrownD [OF root(3)]
  have inv0: "kheap_inv s0" "2 \<le> kavail s0" using g0(1,5) assms(2) c(2) by (simp_all add: s0_def)
  have c108: "length ?c < 108" using len assms(6) by simp
  obtain a b h1 m1 kb1 where a: "pathparser_parser_path_part s0 0 (t @ 0 # r) =
      Inr (a, ?t @ 0 # r, s0\<lparr>kheap := h1, mem := m1, kbufs := kb1,
        path_parts := if (0 :: u32) = 0 then (path_parts s0)(a \<mapsto> \<lparr>part = b, pp_next = 0\<rparr>)
          else (path_parts s0)(a \<mapsto> \<lparr>part = b, pp_next = 0\<rparr>, 0 \<mapsto> undefined\<lparr>pp_next := a\<rparr>)\<rparr>)"
      "hgrown (kheap s0) (mem s0) h1 m1 [b, a]" "a \<noteq> 0"
      "\<exists>buf. kb1 b = Some buf \<and> cstring buf = ?c \<and> 0 \<in> set buf"
      "\<And>q n. klive s0 q n \<Longrightarrow> kb1 q = kbufs s0 q"
    by (rule parser_path_part_some [OF inv0 t0 c(1) c108, of 0 undefined r]) (blast, rule that)
  define s1 where "s1 = s\<lparr>kheap := h1, mem := m1, kbufs := kb1,
      path_parts := (path_parts s)(a \<mapsto> \<lparr>part = b, pp_next = 0\<rparr>),
      path_roots := (path_roots s)(root \<mapsto> \<lparr>drive_no = tonumericdigit d, path_first = a\<rparr>)\<rparr>"
  have g1: "hgrown (kheap s) (mem s) h1 m1 ([root] @ [b, a])"
    using a(2) by (intro hgrown_trans [OF root(3)]) (simp add: s0_def)
  note g = hgrownD [OF g1]
  have ab: "a \<noteq> b" using g(2) by auto
  have live1: "klive s1 q n \<longleftrightarrow> klive s q n \<or> q \<in> {root, b, a} \<and> n = 1" for q n
    using g(6) by (auto simp: s1_def)
  have s1: "kheap_inv s1" "2 * length (path_components ?t) < kavail s1" "0 \<notin> set ?t" "length ?t < 108"
      "path_parts s1 a = Some \<lparr>part = b, pp_next = 0\<rparr>" "klive s1 a 1"
    using g(1,5) assms(2,6) c(2) t0 live1 by (auto simp: s1_def dest: in_set_dropD)
  obtain h m kb pp ps nx where rest: "parse_rest s1 a (?t @ 0 # r) =
        Inr (s1\<lparr>kheap := h, mem := m, kbufs := kb, path_parts := pp\<rparr>)"
      "hgrown (kheap s1) (mem s1) h m ps" "length ps = 2 * length (path_components ?t)"
      "pp a = Some \<lparr>part = b, pp_next = nx\<rparr>"
      "linked (s1\<lparr>kheap := h, mem := m, kbufs := kb, path_parts := pp\<rparr>) nx ps (path_components ?t)"
      "\<forall>q n. klive s1 q n \<longrightarrow> kb q = kbufs s1 q \<and> (q \<noteq> a \<longrightarrow> pp q = path_parts s1 q)"
    using parse_rest_links [OF s1, of r] by blast
  let ?s = "s\<lparr>kheap := h, mem := m, kbufs := kb, path_parts := pp,
      path_roots := (path_roots s)(root \<mapsto> \<lparr>drive_no = tonumericdigit d, path_first = a\<rparr>)\<rparr>"
  have seq: "bind_res (pathparser_parser_path_part s1 a (?t @ 0 # r)) (\<lambda>(p, temp_path, s).
      bind_res (parse_rest s p temp_path) (\<lambda>s. Inr (root, s))) = Inr (root, ?s)"
  proof -
    have "parse_rest s 0 x = Inr s" for s :: "'a pathstate_scheme" and x
      by (simp add: parse_rest.simps)
    then have "bind_res (pathparser_parser_path_part s1 a (?t @ 0 # r)) (\<lambda>(p, temp_path, s).
        bind_res (parse_rest s p temp_path) (\<lambda>s. Inr (root, s)))
      = bind_res (parse_rest s1 a (?t @ 0 # r)) (\<lambda>s. Inr (root, s))"
      using a(3) by (subst (2) parse_rest.simps)
        (auto simp: bind_res_assoc split_def intro!: bind_res_cong)
    with rest(1) show ?thesis by (simp add: s1_def)
  qed
  have d3: "drop 3 path = t @ 0 # r" by (simp add: path numeral_3_eq_3)
  have fin: "pathparser_parse s path = Inr (root, ?s)"
    using slen valid_format [OF assms(3-5)] d0 create root(2) a(1,3) seq
    by (auto simp: pathparser_parse_def d3 s0_def s1_def)
  have kb_b: "kb b = kb1 b"
  proof -
    have "klive s1 b 1" using live1 by simp
    then have "kb b = kbufs s1 b" using rest(6) by blast
    then show ?thesis by (simp add: s1_def)
  qed
  have keep: "kb q = kbufs s q \<and> pp q = path_parts s q" if "klive s q n" for q n
  proof -
    have l0: "klive s0 q n" and l1: "klive s1 q n" using that g0(6) live1 by (simp_all add: s0_def)
    moreover have "q \<noteq> a" using g(4) [of a n] that by auto
    ultimately show ?thesis using rest(6) a(5) [OF l0] by (auto simp: s0_def s1_def)
  qed
  have "linked (s1\<lparr>kheap := h, mem := m, kbufs := kb, path_parts := pp\<rparr>) nx ps (path_components ?t)
      = linked ?s nx ps (path_components ?t)"
    by (rule linked_cong) simp
  then have lk: "linked ?s a ([b, a] @ ps) (path_components t)"
    using rest(4,5) a(3,4) kb_b by (simp add: c(2))
  have "hgrown (kheap s) (mem s) h m ([root, b, a] @ ps)"
    using hgrown_trans [OF g1, of h m ps] rest(2) by (simp add: s1_def)
  with fin root(2) lk keep rest(3) c(2) show thesis
    by (intro that [of root a pp kb m h "[b, a] @ ps"]) auto
qed

subsection \<open>Freeing a path\<close>

lemma free_parts_frees:
  fixes s :: "'a pathstate_scheme"
  assumes "linked s p ps cs" "hgrown h0 m0 (kheap s) (mem s) (qs @ ps)"
  shows "\<exists>h kb pp. free_parts_loop s p = Some (Inr (s\<lparr>kheap := h, kbufs := kb, path_parts := pp\<rparr>)) \<and>
    hgrown h0 m0 h (mem s) qs"
  using assms
proof (induction cs arbitrary: s p ps)
  case Nil
  then have "p = 0" "ps = []" by (cases ps rule: remdups_adj.cases; simp)+
  moreover have "s = s\<lparr>kheap := kheap s, kbufs := kbufs s, path_parts := path_parts s\<rparr>" by simp
  ultimately show ?case using Nil.prems(2)
    by (intro exI [of _ "kheap s"] exI [of _ "kbufs s"] exI [of _ "path_parts s"])
      (simp add: free_parts_loop.simps)
next
  case (Cons c cs)
  then obtain b ps' where ps: "ps = b # p # ps'"
    by (cases ps rule: remdups_adj.cases) auto
  from Cons.prems(1) obtain nx where nx: "p \<noteq> 0" "path_parts s p = Some \<lparr>part = b, pp_next = nx\<rparr>"
      "linked s nx ps' cs" by (auto simp: ps)
  have g: "hgrown h0 m0 (kheap s) (mem s) (qs @ b # p # ps')" using Cons.prems(2) by (simp add: ps)
  obtain h1 where f1: "kfree s b = Inr (s\<lparr>kheap := h1\<rparr>)" "hgrown h0 m0 h1 (mem s) (qs @ p # ps')"
    by (rule kfree_grown [OF g])
  let ?s1 = "s\<lparr>kheap := h1, kbufs := (kbufs s)(b := None)\<rparr>"
  have "hgrown h0 m0 (kheap ?s1) (mem ?s1) (qs @ p # ps')" using f1(2) by simp
  then obtain h2 where f2: "kfree ?s1 p = Inr (?s1\<lparr>kheap := h2\<rparr>)" "hgrown h0 m0 h2 (mem ?s1) (qs @ ps')"
    by (rule kfree_grown)
  let ?s2 = "s\<lparr>kheap := h2, kbufs := (kbufs s)(b := None), path_parts := (path_parts s)(p := None)\<rparr>"
  have step: "free_part s p = Inr (nx, ?s2)"
    using nx(2) f1(1) f2(1) by (simp add: free_part_def Let_def)
  have "distinct (qs @ b # p # ps')" by (rule hgrownD(2) [OF g])
  then have "linked ?s2 nx ps' cs = linked s nx ps' cs" by (intro linked_cong) auto
  with nx(3) have "linked ?s2 nx ps' cs" by simp
  moreover have "hgrown h0 m0 (kheap ?s2) (mem ?s2) (qs @ ps')" using f2(2) by simp
  ultimately obtain h kb pp where ih: "free_parts_loop ?s2 nx =
      Some (Inr (?s2\<lparr>kheap := h, kbufs := kb, path_parts := pp\<rparr>))" "hgrown h0 m0 h (mem ?s2) qs"
    using Cons.IH by blast
  have "free_parts_loop s p = Some (Inr (s\<lparr>kheap := h, kbufs := kb, path_parts := pp\<rparr>))"
    using nx(1) step ih(1) by (simp add: free_parts_loop.simps [of s])
  with ih(2) show ?case by auto
qed

lemma pathparser_free_frees:
  fixes s :: "'a pathstate_scheme"
  assumes "path_roots s root = Some \<lparr>drive_no = d, path_first = p\<rparr>" "linked s p ps cs"
    and "hgrown h0 m0 (kheap s) (mem s) (root # ps)"
  shows "\<exists>s'. pathparser_free s root = Inr s' \<and> hgrown h0 m0 (kheap s') (mem s') []"
proof -
  have "hgrown h0 m0 (kheap s) (mem s) ([root] @ ps)" using assms(3) by simp
  from free_parts_frees [OF assms(2) this] obtain h kb pp where
    l: "free_parts_loop s p = Some (Inr (s\<lparr>kheap := h, kbufs := kb, path_parts := pp\<rparr>))"
      "hgrown h0 m0 h (mem s) [root]" by blast
  let ?s = "s\<lparr>kheap := h, kbufs := kb, path_parts := pp\<rparr>"
  have "hgrown h0 m0 (kheap ?s) (mem ?s) ([] @ root # [])" using l(2) by simp
  then obtain h' where "kfree ?s root = Inr (?s\<lparr>kheap := h'\<rparr>)" "hgrown h0 m0 h' (mem ?s) ([] @ [])"
    by (rule kfree_grown)
  with assms(1) l(1) show ?thesis by (simp add: pathparser_free_def)
qed


subsection \<open>Properties of the path parser\<close>

text \<open>A machine after \<open>kheap_init\<close> with empty stores, for the examples.\<close>

definition example_path_state :: pathstate where
  "example_path_state = \<lparr>video_mem = (\<lambda>_. 0), terminal_row = 0, terminal_col = 0,
     kheap = kernel_fresh_heap, mem = (\<lambda>_. 0xAA), current_directory = 0, cr3 = 0, cr0 = 0,
     hw = (\<lambda>_ _. 0), port_trace = [],
     kdisk = \<lparr>dk_type = 0, sector_size = 512, dk_id = 0, dk_filesystem = None, fs_private = 0\<rparr>,
     streams = (\<lambda>_. None), kbufs = (\<lambda>_. None), path_parts = (\<lambda>_. None), path_roots = (\<lambda>_. None)\<rparr>"

lemma example_path_state_facts: "kheap_inv example_path_state" "kavail example_path_state = 25600"
  using kernel_fresh_heap_facts by (simp_all add: example_path_state_def)

lemma example_components:
  "path_components [98, 105, 110, 47, 97, 46, 101] = [[98, 105, 110], [97, 46, 101]]"
  by (simp add: path_components.simps)

text \<open>C6: on a path \<open>d:/...\<close> of at most 108 characters whose first component is not empty,
  \<open>pathparser_parse\<close> returns a root with the drive number and a linked list of exactly the components
  up to the first empty one, in fresh pages; the strings and nodes of what was live are as before.\<close>

theorem pathparser_parse_components:
  fixes s :: "'a pathstate_scheme"
  assumes "kheap_inv s" "2 * length (path_components t) + 2 \<le> kavail s"
    and "cstring path = d # 58 # 47 # t" "0 \<in> set path" "isDigit d" "length t \<le> 105"
    and "path_components t \<noteq> []"
  shows "\<exists>root s' ps nx. pathparser_parse s path = Inr (root, s') \<and> root \<noteq> 0 \<and>
    path_roots s' root = Some \<lparr>drive_no = sint d - 48, path_first = nx\<rparr> \<and>
    linked s' nx ps (path_components t) \<and> grown s s' (root # ps) \<and>
    (\<forall>q n. klive s q n \<longrightarrow> kbufs s' q = kbufs s q \<and> path_parts s' q = path_parts s q)"
proof -
  obtain root h m kb pp nx ps where p: "pathparser_parse s path = Inr (root, s\<lparr>kheap := h, mem := m, kbufs := kb,
      path_parts := pp, path_roots := (path_roots s)(root \<mapsto> \<lparr>drive_no = tonumericdigit d, path_first = nx\<rparr>)\<rparr>)"
    "root \<noteq> 0" "hgrown (kheap s) (mem s) h m (root # ps)"
    "linked (s\<lparr>kheap := h, mem := m, kbufs := kb, path_parts := pp,
      path_roots := (path_roots s)(root \<mapsto> \<lparr>drive_no = tonumericdigit d, path_first = nx\<rparr>)\<rparr>) nx ps (path_components t)"
    "\<And>q n. klive s q n \<Longrightarrow> kb q = kbufs s q \<and> pp q = path_parts s q"
    by (rule parse_builds [OF assms]) (rule that)
  show ?thesis
    by (intro exI [of _ root] exI [of _ "s\<lparr>kheap := h, mem := m, kbufs := kb, path_parts := pp,
      path_roots := (path_roots s)(root \<mapsto> \<lparr>drive_no = tonumericdigit d, path_first = nx\<rparr>)\<rparr>"]
        exI [of _ ps] exI [of _ nx]) (use p in \<open>simp add: tonumericdigit_def\<close>)
qed

lemma pathparser_parse_components_witness:
  "\<exists>root s' ps nx. pathparser_parse example_path_state (c_literal ''0:/bin/a.e'') = Inr (root, s') \<and>
     path_roots s' root = Some \<lparr>drive_no = 0, path_first = nx\<rparr> \<and>
     linked s' nx ps [[98, 105, 110], [97, 46, 101]]"
  using pathparser_parse_components [of example_path_state "[98, 105, 110, 47, 97, 46, 101]"
      "c_literal ''0:/bin/a.e''" 48] example_path_state_facts
  by (auto simp: example_components c_literal_def isDigit_def)

text \<open>C17: \<open>pathparser_free\<close> of the root that \<open>pathparser_parse\<close> returned gives back every page the
  parse took: the live allocations and their bytes are those before the parse.\<close>

theorem pathparser_free_after_parse:
  fixes s :: "'a pathstate_scheme"
  assumes "kheap_inv s" "2 * length (path_components t) + 2 \<le> kavail s"
    and "cstring path = d # 58 # 47 # t" "0 \<in> set path" "isDigit d" "length t \<le> 105"
    and "path_components t \<noteq> []"
  shows "\<exists>root s' s''. pathparser_parse s path = Inr (root, s') \<and> pathparser_free s' root = Inr s'' \<and>
    grown s s'' []"
proof -
  obtain root h m kb pp nx ps where p: "pathparser_parse s path = Inr (root, s\<lparr>kheap := h, mem := m, kbufs := kb,
      path_parts := pp, path_roots := (path_roots s)(root \<mapsto> \<lparr>drive_no = tonumericdigit d, path_first = nx\<rparr>)\<rparr>)"
    "hgrown (kheap s) (mem s) h m (root # ps)"
    "linked (s\<lparr>kheap := h, mem := m, kbufs := kb, path_parts := pp,
      path_roots := (path_roots s)(root \<mapsto> \<lparr>drive_no = tonumericdigit d, path_first = nx\<rparr>)\<rparr>) nx ps (path_components t)"
    by (rule parse_builds [OF assms]) (rule that)
  let ?s = "s\<lparr>kheap := h, mem := m, kbufs := kb, path_parts := pp,
      path_roots := (path_roots s)(root \<mapsto> \<lparr>drive_no = tonumericdigit d, path_first = nx\<rparr>)\<rparr>"
  have "path_roots ?s root = Some \<lparr>drive_no = tonumericdigit d, path_first = nx\<rparr>"
    "hgrown (kheap s) (mem s) (kheap ?s) (mem ?s) (root # ps)" using p(2) by simp_all
  from pathparser_free_frees [OF this(1) p(3) this(2)] p(1) show ?thesis by blast
qed

lemma pathparser_free_after_parse_witness:
  "\<exists>root s' s''. pathparser_parse example_path_state (c_literal ''0:/bin/a.e'') = Inr (root, s') \<and>
     pathparser_free s' root = Inr s'' \<and> kavail s'' = 25600"
  using pathparser_free_after_parse [of example_path_state "[98, 105, 110, 47, 97, 46, 101]"
      "c_literal ''0:/bin/a.e''" 48] example_path_state_facts
  by (fastforce simp: example_components c_literal_def isDigit_def dest: hgrownD(5))

text \<open>A path that is too long, or does not start with a digit and \<open>:/\<close>, is answered with
  NULL and changes nothing.\<close>

theorem pathparser_rejects:
  assumes "0 \<in> set path"
    and "108 < length (cstring path) \<or> length (cstring path) < 3 \<or> \<not> isDigit (cstring path ! 0) \<or>
      cstring path ! 1 \<noteq> 58 \<or> cstring path ! 2 \<noteq> 47"
  shows "pathparser_parse s path = Inr (0, s)"
proof (cases "108 < length (cstring path)")
  case True
  then show ?thesis using assms(1) by (simp add: pathparser_parse_def strlen_eq)
next
  case False
  obtain r where path: "path = cstring path @ 0 # r" using cstring_split [OF assms(1)] by blast
  have "strnlen path 108 = Inr (int (length (cstring path)))"
    using strnlen_eq [of 108 path] assms(1) False by simp
  moreover have "pathparser_path_valid_format path = Inr False"
  proof (cases "3 \<le> length (cstring path)")
    case short: False
    with calculation show ?thesis by (simp add: pathparser_path_valid_format_def)
  next
    case True
    then obtain a b c t where abc: "cstring path = a # b # c # t"
      by (metis One_nat_def Suc_le_length_iff numeral_3_eq_3)
    then have "path = a # b # c # t @ 0 # r" using path by simp
    with abc calculation assms(2) False show ?thesis
      by (auto simp: pathparser_path_valid_format_def list_get_def c_literal_def numeral_2_eq_2)
  qed
  ultimately show ?thesis
    using assms(1) False by (simp add: pathparser_parse_def strlen_eq pathparser_get_drive_by_path_def)
qed

lemma pathparser_rejects_witness:
  "pathparser_parse example_path_state (c_literal ''a:/x'') = Inr (0, example_path_state)"
  by (rule pathparser_rejects) (simp_all add: c_literal_def isDigit_def)

end
