(* ===== verification/Fat16.thy ===== *)
theory Fat16
  imports PathParser
begin

text \<open>
  The FAT16 driver of src/fs/fat/fat16.c: its on-disk structures, decoded from the bytes
  the streams deliver, its heap objects in typed stores, and all its operations. \<open>struct disk *\<close> is
  always the global \<open>disk\<close>, so it is the state's \<open>kdisk\<close>. Arrays of directory items live in
  \<open>item_arrays\<close>; a copy of one item is an array of one. The loops whose end depends on
  the disk are \<open>partial_function\<close>s. The status constants and the widths of all C conversions are kept.
\<close>

subsection \<open>On-disk data\<close>

record fat_header =
  short_jump_ins :: "u8 list"
  oem_identifier :: "u8 list"
  bytes_per_sector :: u16
  sectors_per_cluster :: u8
  reserved_sectors :: u16
  fat_copies :: u8
  root_dir_entries :: u16
  number_of_sectors :: u16
  media_type :: u8
  sectors_per_fat :: u16
  sectors_per_track :: u16
  number_of_heads :: u16
  hidden_sectors :: u32
  sectors_big :: u32

record fat_header_extended =
  drive_number :: u8
  win_nt_bit :: u8
  signature :: u8
  volume_id :: u32
  volume_id_string :: "u8 list"
  system_id_string :: "u8 list"

record fat_h =
  primary_header :: fat_header
  extended_header :: fat_header_extended

record fat_directory_item =
  filename :: "u8 list"
  ext :: "u8 list"
  attribute :: u8
  reserved :: u8
  creation_time_tenths_of_a_sec :: u8
  creation_time :: u16
  creation_date :: u16
  last_access :: u16
  high_16_bits_first_cluster :: u16
  last_mod_time :: u16
  last_mod_date :: u16
  low_16_bits_first_cluster :: u16
  filesize :: u32

text \<open>Fields of a packed structure in memory order, little endian.\<close>

definition byte_at :: "u8 list \<Rightarrow> nat \<Rightarrow> u8" where
  "byte_at bs k = (if k < length bs then bs ! k else 0)"

definition le16 :: "u8 list \<Rightarrow> nat \<Rightarrow> u16" where
  "le16 bs k = ucast (byte_at bs k) OR push_bit 8 (ucast (byte_at bs (k + 1)))"

definition le32 :: "u8 list \<Rightarrow> nat \<Rightarrow> u32" where
  "le32 bs k = ucast (le16 bs k) OR push_bit 16 (ucast (le16 bs (k + 2)))"

definition bytes_at :: "u8 list \<Rightarrow> nat \<Rightarrow> nat \<Rightarrow> u8 list" where
  "bytes_at bs k n = map (\<lambda>i. byte_at bs (k + i)) [0..<n]"

definition fat_h_of_bytes :: "u8 list \<Rightarrow> fat_h" where
  "fat_h_of_bytes bs =
     \<lparr>primary_header = \<lparr>short_jump_ins = bytes_at bs 0 3, oem_identifier = bytes_at bs 3 8,
        bytes_per_sector = le16 bs 11, sectors_per_cluster = byte_at bs 13,
        reserved_sectors = le16 bs 14, fat_copies = byte_at bs 16, root_dir_entries = le16 bs 17,
        number_of_sectors = le16 bs 19, media_type = byte_at bs 21, sectors_per_fat = le16 bs 22,
        sectors_per_track = le16 bs 24, number_of_heads = le16 bs 26, hidden_sectors = le32 bs 28,
        sectors_big = le32 bs 32\<rparr>,
      extended_header = \<lparr>drive_number = byte_at bs 36, win_nt_bit = byte_at bs 37,
        signature = byte_at bs 38, volume_id = le32 bs 39, volume_id_string = bytes_at bs 43 11,
        system_id_string = bytes_at bs 54 8\<rparr>\<rparr>"

definition item_of_bytes :: "u8 list \<Rightarrow> fat_directory_item" where
  "item_of_bytes bs =
     \<lparr>filename = bytes_at bs 0 8, ext = bytes_at bs 8 3, attribute = byte_at bs 11,
      reserved = byte_at bs 12, creation_time_tenths_of_a_sec = byte_at bs 13,
      creation_time = le16 bs 14, creation_date = le16 bs 16, last_access = le16 bs 18,
      high_16_bits_first_cluster = le16 bs 20, last_mod_time = le16 bs 22,
      last_mod_date = le16 bs 24, low_16_bits_first_cluster = le16 bs 26, filesize = le32 bs 28\<rparr>"

definition items_of_bytes :: "u8 list \<Rightarrow> fat_directory_item list" where
  "items_of_bytes bs = map (\<lambda>i. item_of_bytes (take 32 (drop (32 * i) bs))) [0..<length bs div 32]"

abbreviation (input) FAT_FILE_READ_ONLY :: u8 where "FAT_FILE_READ_ONLY \<equiv> 0x01"
abbreviation (input) FAT_FILE_SUBDIRECTORY :: u8 where "FAT_FILE_SUBDIRECTORY \<equiv> 0x10"
abbreviation (input) FAT_ITEM_TYPE_DIRECTORY :: u32 where "FAT_ITEM_TYPE_DIRECTORY \<equiv> 0"
abbreviation (input) FAT_ITEM_TYPE_FILE :: u32 where "FAT_ITEM_TYPE_FILE \<equiv> 1"

subsection \<open>Heap objects\<close>

record fat_directory =
  fd_item :: u32
  fd_total :: int
  sector_pos :: int
  ending_sector_pos :: int

text \<open>The union of \<open>item\<close> and \<open>directory\<close> is one address.\<close>

record fat_item =
  fi_ptr :: u32
  fi_type :: u32

record fat_file_descriptor =
  fdesc_item :: u32
  fdesc_pos :: u32

record fat_private =
  header :: fat_h
  root_directory :: fat_directory
  cluster_read_stream :: u32
  fat_read_stream :: u32
  directory_stream :: u32

record file_stat =
  stat_flags :: u32
  stat_filesize :: u32

record fatstate = pathstate +
  fat_privs :: "u32 \<Rightarrow> fat_private option"
  fat_dirs :: "u32 \<Rightarrow> fat_directory option"
  item_arrays :: "u32 \<Rightarrow> fat_directory_item list option"
  fat_items :: "u32 \<Rightarrow> fat_item option"
  fat_descs :: "u32 \<Rightarrow> fat_file_descriptor option"

abbreviation get_private :: "'a fatstate_scheme \<Rightarrow> fat_private res" where
  "get_private s \<equiv> obj_get (fat_privs s) (fs_private (kdisk s))"

subsection \<open>Resolving\<close>

definition fat16_init_private :: "'a fatstate_scheme \<Rightarrow> u32 \<Rightarrow> 'a fatstate_scheme res" where
  "fat16_init_private s private =
     (if private = 0 then Inl NullDeref
      else
        let zero = \<lparr>header = fat_h_of_bytes [], root_directory = \<lparr>fd_item = 0, fd_total = 0, sector_pos = 0,
              ending_sector_pos = 0\<rparr>, cluster_read_stream = 0, fat_read_stream = 0, directory_stream = 0\<rparr>;
            did = dk_id (kdisk s)
        in bind_res (disk_streamer_new (s\<lparr>fat_privs := (fat_privs s)(private \<mapsto> zero)\<rparr>) did) (\<lambda>(a, s).
           bind_res (disk_streamer_new s did) (\<lambda>(b, s).
           bind_res (disk_streamer_new s did) (\<lambda>(c, s).
             Inr (s\<lparr>fat_privs := (fat_privs s)(private \<mapsto> zero\<lparr>cluster_read_stream := a,
               fat_read_stream := b, directory_stream := c\<rparr>)\<rparr>)))))"

definition fat16_sector_to_absolute :: "'a fatstate_scheme \<Rightarrow> int \<Rightarrow> int" where
  "fat16_sector_to_absolute s sector = sector * sector_size (kdisk s)"

text \<open>The \<open>while (1)\<close> over the items of a directory; None is a directory that never ends.\<close>

partial_function (option) count_items_loop ::
  "'a fatstate_scheme \<Rightarrow> u32 \<Rightarrow> int \<Rightarrow> (int \<times> 'a fatstate_scheme) res option" where
  "count_items_loop s stream i =
     (case disk_streamer_read s stream 32 of
        Inl e \<Rightarrow> Some (Inl e)
      | Inr (r, bs, s) \<Rightarrow>
          if r \<noteq> 0 then Some (Inr (- EIO, s))
          else if byte_at bs 0 = 0 then Some (Inr (i, s))
          else if byte_at bs 0 = 0xE5 then count_items_loop s stream i
          else count_items_loop s stream (i + 1))"

definition fat16_get_total_items_for_directory ::
  "'a fatstate_scheme \<Rightarrow> u32 \<Rightarrow> (int \<times> 'a fatstate_scheme) res" where
  "fat16_get_total_items_for_directory s directory_start_sector =
     bind_res (get_private s) (\<lambda>fat_private.
       let directory_start_pos = sint (directory_start_sector * word_of_int (sector_size (kdisk s)));
           stream = directory_stream fat_private
       in bind_res (disk_streamer_seek s stream directory_start_pos) (\<lambda>(r, s).
            if r \<noteq> 0 then Inr (- EIO, s)
            else case count_items_loop s stream 0 of None \<Rightarrow> Inl Hang | Some x \<Rightarrow> x))"

definition fat16_get_root_directory ::
  "'a fatstate_scheme \<Rightarrow> u32 \<Rightarrow> (int \<times> 'a fatstate_scheme) res" where
  "fat16_get_root_directory s private =
     bind_res (obj_get (fat_privs s) private) (\<lambda>fp.
       let ph = primary_header (header fp);
           root_dir_sector_pos = uint (fat_copies ph) * uint (sectors_per_fat ph) + uint (reserved_sectors ph);
           root_dir_size = uint (root_dir_entries ph) * 32;
           ss = sector_size (kdisk s)
       in if ss = 0 then Inl DivideError
          else
          let total_sectors = root_dir_size sdiv ss;
              total_sectors = (if root_dir_size smod ss \<noteq> 0 then total_sectors + 1 else total_sectors)
          in bind_res (fat16_get_total_items_for_directory s (word_of_int root_dir_sector_pos)) (\<lambda>(total_items, s).
             bind_res (kzalloc s (word_of_int root_dir_size)) (\<lambda>(dir, s).
             if dir = 0 then Inr (- ENOMEM, s)
             else
               let s = s\<lparr>item_arrays := (item_arrays s)(dir \<mapsto> [])\<rparr>;
                   fail = (\<lambda>e s. bind_res (kfree s dir) (\<lambda>s.
                      Inr (e, s\<lparr>item_arrays := (item_arrays s)(dir := None)\<rparr>)))
               in bind_res (disk_streamer_seek s (directory_stream fp)
                     (fat16_sector_to_absolute s root_dir_sector_pos)) (\<lambda>(r, s).
                  if r \<noteq> 0 then fail (- EIO) s
                  else bind_res (disk_streamer_read s (directory_stream fp) root_dir_size) (\<lambda>(r, bs, s).
                    if r \<noteq> 0 then fail (- EIO) s
                    else Inr (0, s\<lparr>item_arrays := (item_arrays s)(dir \<mapsto> items_of_bytes bs),
                      fat_privs := (fat_privs s)(private \<mapsto> fp\<lparr>root_directory := \<lparr>fd_item = dir,
                        fd_total = total_items, sector_pos = root_dir_sector_pos,
                        ending_sector_pos = root_dir_sector_pos + total_sectors\<rparr>\<rparr>)\<rparr>))))))"

definition fat16_resolve :: "'a fatstate_scheme \<Rightarrow> (int \<times> 'a fatstate_scheme) res" where
  "fat16_resolve s =
     bind_res (kzalloc s 92) (\<lambda>(private, s).
     bind_res (fat16_init_private s private) (\<lambda>s.
       let s = s\<lparr>kdisk := (kdisk s)\<lparr>fs_private := private, dk_filesystem := Some Fat16_fs\<rparr>\<rparr>;
           fail = (\<lambda>e s. bind_res (kfree s private) (\<lambda>s.
             Inr (e, s\<lparr>fat_privs := (fat_privs s)(private := None),
               kdisk := (kdisk s)\<lparr>fs_private := 0\<rparr>\<rparr>)))
       in bind_res (disk_streamer_new s (dk_id (kdisk s))) (\<lambda>(stream, s).
            if stream = 0 then fail (- ENOMEM) s
            else
              bind_res (disk_streamer_read s stream 62) (\<lambda>(r, bs, s).
              bind_res (obj_get (fat_privs s) private) (\<lambda>fp.
              let s = s\<lparr>fat_privs := (fat_privs s)(private \<mapsto> fp\<lparr>header := fat_h_of_bytes bs\<rparr>)\<rparr>
              in bind_res
                   (if r \<noteq> 0 then Inr (- EIO, s)
                    else if signature (extended_header (fat_h_of_bytes bs)) \<noteq> 0x29 then Inr (- EFSNOTUS, s)
                    else bind_res (fat16_get_root_directory s private) (\<lambda>(r, s).
                      if r \<noteq> 0 then Inr (- EIO, s) else Inr (0, s)))
                   (\<lambda>(r, s). bind_res (disk_streamer_close s stream) (\<lambda>s.
                      if r < 0 then fail r s else Inr (r, s))))))))"

subsection \<open>Names\<close>

text \<open>The out pointer is an offset into the array \<open>buf\<close>; \<open>i\<close> is compared with \<open>size - 1\<close>.\<close>

fun proper_string_loop :: "u8 list \<Rightarrow> int \<Rightarrow> u8 list \<Rightarrow> nat \<Rightarrow> nat \<Rightarrow> (u8 list \<times> int) res" where
  "proper_string_loop buf ofs [] i sz = Inl OutOfBounds"
| "proper_string_loop buf ofs (c # cs) i sz =
     (if c \<noteq> 0 \<and> c \<noteq> 0x20 then
        bind_res (list_set buf ofs c) (\<lambda>buf.
          if sz - 1 \<le> i then Inr (buf, ofs + 1) else proper_string_loop buf (ofs + 1) cs (Suc i) sz)
      else Inr (buf, ofs))"

definition fat16_to_proper_string :: "u8 list \<Rightarrow> int \<Rightarrow> u8 list \<Rightarrow> nat \<Rightarrow> (u8 list \<times> int) res" where
  "fat16_to_proper_string buf ofs inp sz =
     bind_res (proper_string_loop buf ofs inp 0 sz) (\<lambda>(buf, ofs).
     bind_res (list_set buf ofs 0) (\<lambda>buf. Inr (buf, ofs)))"

text \<open>\<open>out\<close> is an array of \<open>max_len\<close> bytes, cleared first.\<close>

definition fat16_get_full_relative_filename :: "fat_directory_item \<Rightarrow> nat \<Rightarrow> u8 list res" where
  "fat16_get_full_relative_filename item max_len =
     bind_res (fat16_to_proper_string (replicate max_len 0) 0 (filename item) 8) (\<lambda>(buf, ofs).
     bind_res (list_get (ext item) 0) (\<lambda>e.
       if e \<noteq> 0 \<and> e \<noteq> 0x20 then
         bind_res (list_set buf ofs 46) (\<lambda>buf.
         bind_res (fat16_to_proper_string buf (ofs + 1) (ext item) 3) (\<lambda>(buf, ofs). Inr buf))
       else Inr buf))"

definition fat16_clone_directory_item ::
  "'a fatstate_scheme \<Rightarrow> fat_directory_item \<Rightarrow> int \<Rightarrow> (u32 \<times> 'a fatstate_scheme) res" where
  "fat16_clone_directory_item s item sz =
     (if sz < 32 then Inr (0, s)
      else bind_res (kzalloc s (word_of_int sz)) (\<lambda>(item_copy, s).
        if item_copy = 0 then Inr (0, s)
        else Inr (item_copy, s\<lparr>item_arrays := (item_arrays s)(item_copy \<mapsto> [item])\<rparr>)))"

subsection \<open>Clusters\<close>

definition fat16_get_first_cluster :: "fat_directory_item \<Rightarrow> u32" where
  "fat16_get_first_cluster item =
     push_bit 16 (ucast (high_16_bits_first_cluster item)) OR ucast (low_16_bits_first_cluster item)"

definition fat16_cluster_to_sector :: "fat_private \<Rightarrow> int \<Rightarrow> int" where
  "fat16_cluster_to_sector private cluster =
     ending_sector_pos (root_directory private) +
       (cluster - 2) * uint (sectors_per_cluster (primary_header (header private)))"

definition fat16_get_first_fat_sector :: "fat_private \<Rightarrow> u32" where
  "fat16_get_first_fat_sector private = ucast (reserved_sectors (primary_header (header private)))"

definition fat16_get_fat_entry :: "'a fatstate_scheme \<Rightarrow> int \<Rightarrow> (int \<times> 'a fatstate_scheme) res" where
  "fat16_get_fat_entry s cluster =
     bind_res (get_private s) (\<lambda>private.
       let stream = fat_read_stream private
       in if stream = 0 then Inr (- 1, s)
          else
            let fat_table_position = fat16_get_first_fat_sector private * word_of_int (sector_size (kdisk s))
            in bind_res (disk_streamer_seek s stream
                   (sint (fat_table_position + word_of_int (cluster * 2)))) (\<lambda>(r, s).
               if r < 0 then Inr (r, s)
               else bind_res (disk_streamer_read s stream 2) (\<lambda>(r, bs, s).
                 if r < 0 then Inr (r, s) else Inr (uint (le16 bs 0), s))))"

definition fat_entry_error :: "int \<Rightarrow> bool" where
  "fat_entry_error entry \<longleftrightarrow> entry = 0xFFF8 \<or> entry = 0xFFFF \<or> entry = 0xFF7 \<or>
     entry = 0xFF0 \<or> entry = 0xFF6 \<or> entry = 0x00"

fun cluster_ahead_loop :: "'a fatstate_scheme \<Rightarrow> int \<Rightarrow> nat \<Rightarrow> (int \<times> 'a fatstate_scheme) res" where
  "cluster_ahead_loop s cluster_to_use 0 = Inr (cluster_to_use, s)"
| "cluster_ahead_loop s cluster_to_use (Suc n) =
     bind_res (fat16_get_fat_entry s cluster_to_use) (\<lambda>(entry, s).
       if fat_entry_error entry then Inr (- EIO, s) else cluster_ahead_loop s entry n)"

definition fat16_get_cluster_for_offset ::
  "'a fatstate_scheme \<Rightarrow> int \<Rightarrow> int \<Rightarrow> (int \<times> 'a fatstate_scheme) res" where
  "fat16_get_cluster_for_offset s starting_cluster offset =
     bind_res (get_private s) (\<lambda>private.
       let size_of_cluster_bytes =
             uint (sectors_per_cluster (primary_header (header private))) * sector_size (kdisk s)
       in if size_of_cluster_bytes = 0 then Inl DivideError
          else cluster_ahead_loop s starting_cluster (nat (offset sdiv size_of_cluster_bytes)))"

text \<open>One cluster's part of a read: the result, the bytes and \<open>total_to_read\<close>.\<close>

definition read_cluster_part ::
  "'a fatstate_scheme \<Rightarrow> u32 \<Rightarrow> int \<Rightarrow> int \<Rightarrow> int \<Rightarrow> (int \<times> u8 list \<times> int \<times> 'a fatstate_scheme) res" where
  "read_cluster_part s stream cluster offset tot =
     bind_res (get_private s) (\<lambda>private.
     bind_res (fat16_get_cluster_for_offset s cluster offset) (\<lambda>(cluster_to_use, s).
       if cluster_to_use < 0 then Inr (cluster_to_use, [], 0, s)
       else
         let size_of_cluster_bytes =
               uint (sectors_per_cluster (primary_header (header private))) * sector_size (kdisk s);
             offset_from_cluster = offset smod size_of_cluster_bytes;
             starting_sector = fat16_cluster_to_sector private cluster_to_use;
             starting_pos = starting_sector * sector_size (kdisk s) + offset_from_cluster;
             total_to_read = (if tot > size_of_cluster_bytes then size_of_cluster_bytes else tot)
         in bind_res (disk_streamer_seek s stream starting_pos) (\<lambda>(r, s).
              if r \<noteq> 0 then Inr (r, [], 0, s)
              else bind_res (disk_streamer_read s stream total_to_read) (\<lambda>(r, bs, s).
                     Inr (r, bs, total_to_read, s)))))"

text \<open>The recursion of the source; None is a recursion that never returns.\<close>

partial_function (option) fat16_read_internal_from_stream ::
  "'a fatstate_scheme \<Rightarrow> u32 \<Rightarrow> int \<Rightarrow> int \<Rightarrow> int \<Rightarrow> (int \<times> u8 list \<times> 'a fatstate_scheme) res option" where
  "fat16_read_internal_from_stream s stream cluster offset tot =
     (case read_cluster_part s stream cluster offset tot of
        Inl e \<Rightarrow> Some (Inl e)
      | Inr (r, bs, n, s) \<Rightarrow>
          if r \<noteq> 0 then Some (Inr (r, bs, s))
          else if tot - n > 0
          then Option.bind (fat16_read_internal_from_stream s stream cluster (offset + n) (tot - n))
                 (\<lambda>x. Some (bind_res x (\<lambda>(r, rest, s). Inr (r, bs @ rest, s))))
          else Some (Inr (r, bs, s)))"

definition fat16_read_internal ::
  "'a fatstate_scheme \<Rightarrow> int \<Rightarrow> int \<Rightarrow> int \<Rightarrow> (int \<times> u8 list \<times> 'a fatstate_scheme) res" where
  "fat16_read_internal s starting_cluster offset tot =
     bind_res (get_private s) (\<lambda>private.
       case fat16_read_internal_from_stream s (cluster_read_stream private) starting_cluster offset tot of
         None \<Rightarrow> Inl Hang | Some x \<Rightarrow> x)"

subsection \<open>Directories and items\<close>

definition fat16_free_directory :: "'a fatstate_scheme \<Rightarrow> u32 \<Rightarrow> 'a fatstate_scheme res" where
  "fat16_free_directory s directory =
     (if directory = 0 then Inr s
      else bind_res (obj_get (fat_dirs s) directory) (\<lambda>d.
        bind_res
          (if fd_item d \<noteq> 0
           then bind_res (kfree s (fd_item d)) (\<lambda>s.
                  Inr (s\<lparr>item_arrays := (item_arrays s)(fd_item d := None)\<rparr>))
           else Inr s)
          (\<lambda>s. bind_res (kfree s directory) (\<lambda>s.
             Inr (s\<lparr>fat_dirs := (fat_dirs s)(directory := None)\<rparr>)))))"

definition fat16_fat_item_free :: "'a fatstate_scheme \<Rightarrow> u32 \<Rightarrow> 'a fatstate_scheme res" where
  "fat16_fat_item_free s item =
     bind_res (obj_get (fat_items s) item) (\<lambda>it.
     bind_res
       (if fi_type it = FAT_ITEM_TYPE_DIRECTORY then fat16_free_directory s (fi_ptr it)
        else if fi_type it = FAT_ITEM_TYPE_FILE
        then bind_res (kfree s (fi_ptr it)) (\<lambda>s.
               Inr (s\<lparr>item_arrays := (item_arrays s)(fi_ptr it := None)\<rparr>))
        else Inr s)
       (\<lambda>s. bind_res (kfree s item) (\<lambda>s. Inr (s\<lparr>fat_items := (fat_items s)(item := None)\<rparr>))))"

definition fat16_load_fat_directory ::
  "'a fatstate_scheme \<Rightarrow> fat_directory_item \<Rightarrow> (u32 \<times> 'a fatstate_scheme) res" where
  "fat16_load_fat_directory s item =
     bind_res (get_private s) (\<lambda>fat_private.
       if attribute item AND FAT_FILE_SUBDIRECTORY = 0 then Inr (0, s)
       else bind_res (kzalloc s 16) (\<lambda>(directory, s).
         if directory = 0 then Inr (0, s)
         else
           let s = s\<lparr>fat_dirs := (fat_dirs s)(directory \<mapsto>
                     \<lparr>fd_item = 0, fd_total = 0, sector_pos = 0, ending_sector_pos = 0\<rparr>)\<rparr>;
               cluster = sint (fat16_get_first_cluster item);
               cluster_sector = fat16_cluster_to_sector fat_private cluster
           in bind_res (fat16_get_total_items_for_directory s (word_of_int cluster_sector)) (\<lambda>(total_items, s).
              let directory_size = sint (word_of_int total_items * 32 :: u32)
              in bind_res (kzalloc s (word_of_int directory_size)) (\<lambda>(items, s).
                 let s = s\<lparr>fat_dirs := (fat_dirs s)(directory \<mapsto>
                           \<lparr>fd_item = items, fd_total = total_items, sector_pos = 0, ending_sector_pos = 0\<rparr>)\<rparr>
                 in if items = 0
                    then bind_res (fat16_free_directory s directory) (\<lambda>s. Inr (directory, s))
                    else
                      let s = s\<lparr>item_arrays := (item_arrays s)(items \<mapsto> [])\<rparr>
                      in bind_res (fat16_read_internal s cluster 0 directory_size) (\<lambda>(r, bs, s).
                           let s = s\<lparr>item_arrays := (item_arrays s)(items \<mapsto> items_of_bytes bs)\<rparr>
                           in if r \<noteq> 0
                              then bind_res (fat16_free_directory s directory) (\<lambda>s. Inr (directory, s))
                              else Inr (directory, s))))))"

definition fat16_new_fat_item_for_directory_item ::
  "'a fatstate_scheme \<Rightarrow> fat_directory_item \<Rightarrow> (u32 \<times> 'a fatstate_scheme) res" where
  "fat16_new_fat_item_for_directory_item s item =
     bind_res (kzalloc s 8) (\<lambda>(f_item, s).
       if f_item = 0 then Inr (0, s)
       else if attribute item AND FAT_FILE_SUBDIRECTORY \<noteq> 0 then
         bind_res (fat16_load_fat_directory s item) (\<lambda>(d, s).
           Inr (f_item, s\<lparr>fat_items := (fat_items s)(f_item \<mapsto>
             \<lparr>fi_ptr = d, fi_type = FAT_ITEM_TYPE_DIRECTORY\<rparr>)\<rparr>))
       else
         bind_res (fat16_clone_directory_item s item 32) (\<lambda>(c, s).
           Inr (f_item, s\<lparr>fat_items := (fat_items s)(f_item \<mapsto>
             \<lparr>fi_ptr = c, fi_type = FAT_ITEM_TYPE_FILE\<rparr>)\<rparr>)))"

text \<open>\<open>for (i = 0; i < directory->total; i++)\<close>, counted down from \<open>total - i\<close>.\<close>

fun find_item_loop ::
  "'a fatstate_scheme \<Rightarrow> fat_directory_item list \<Rightarrow> u8 list \<Rightarrow> nat \<Rightarrow> nat \<Rightarrow> (u32 \<times> 'a fatstate_scheme) res" where
  "find_item_loop s items name i 0 = Inr (0, s)"
| "find_item_loop s items name i (Suc n) =
     bind_res (list_get items (int i)) (\<lambda>item.
     bind_res (fat16_get_full_relative_filename item 108) (\<lambda>tmp_filename.
     bind_res (istrncmp tmp_filename name 108) (\<lambda>r.
       if r = 0 then fat16_new_fat_item_for_directory_item s item
       else find_item_loop s items name (Suc i) n)))"

definition fat16_find_item_in_directory ::
  "'a fatstate_scheme \<Rightarrow> fat_directory \<Rightarrow> u8 list \<Rightarrow> (u32 \<times> 'a fatstate_scheme) res" where
  "fat16_find_item_in_directory s directory name =
     (if fd_total directory \<le> 0 then Inr (0, s)
      else bind_res (obj_get (item_arrays s) (fd_item directory)) (\<lambda>items.
        find_item_loop s items name 0 (nat (fd_total directory))))"

definition part_name :: "'a pathstate_scheme \<Rightarrow> u32 \<Rightarrow> (u8 list \<times> u32) res" where
  "part_name s p =
     bind_res (obj_get (path_parts s) p) (\<lambda>x.
     bind_res (obj_get (kbufs s) (part x)) (\<lambda>name. Inr (name, pp_next x)))"

text \<open>One turn of the loop: None is the \<open>break\<close>.\<close>

definition directory_entry_step ::
  "'a fatstate_scheme \<Rightarrow> u32 \<Rightarrow> u32 \<Rightarrow> ((u32 \<times> u32) option \<times> 'a fatstate_scheme) res" where
  "directory_entry_step s current_item next_part =
     bind_res (obj_get (fat_items s) current_item) (\<lambda>it.
       if fi_type it \<noteq> FAT_ITEM_TYPE_DIRECTORY then Inr (None, s)
       else bind_res (obj_get (fat_dirs s) (fi_ptr it)) (\<lambda>d.
            bind_res (part_name s next_part) (\<lambda>(name, nx).
            bind_res (fat16_find_item_in_directory s d name) (\<lambda>(tmp_item, s).
            bind_res (fat16_fat_item_free s current_item) (\<lambda>s.
              Inr (Some (tmp_item, nx), s))))))"

partial_function (option) directory_entry_loop ::
  "'a fatstate_scheme \<Rightarrow> u32 \<Rightarrow> u32 \<Rightarrow> (u32 \<times> 'a fatstate_scheme) res option" where
  "directory_entry_loop s current_item next_part =
     (if next_part = 0 then Some (Inr (current_item, s))
      else case directory_entry_step s current_item next_part of
        Inl e \<Rightarrow> Some (Inl e)
      | Inr (None, s) \<Rightarrow> Some (Inr (0, s))
      | Inr (Some (c, nx), s) \<Rightarrow> directory_entry_loop s c nx)"

definition fat16_get_directory_entry ::
  "'a fatstate_scheme \<Rightarrow> u32 \<Rightarrow> (u32 \<times> 'a fatstate_scheme) res" where
  "fat16_get_directory_entry s path =
     bind_res (get_private s) (\<lambda>fat_private.
     bind_res (part_name s path) (\<lambda>(name, nx).
     bind_res (fat16_find_item_in_directory s (root_directory fat_private) name) (\<lambda>(root_item, s).
       if root_item = 0 then Inr (0, s)
       else case directory_entry_loop s root_item nx of None \<Rightarrow> Inl Hang | Some x \<Rightarrow> x)))"

subsection \<open>The driver's file operations\<close>

abbreviation (input) FILE_MODE_READ :: u32 where "FILE_MODE_READ \<equiv> 0"
abbreviation (input) SEEK_SET :: u32 where "SEEK_SET \<equiv> 0"
abbreviation (input) SEEK_CUR :: u32 where "SEEK_CUR \<equiv> 1"
abbreviation (input) SEEK_END :: u32 where "SEEK_END \<equiv> 2"

definition fat16_open :: "'a fatstate_scheme \<Rightarrow> u32 \<Rightarrow> u32 \<Rightarrow> (u32 \<times> 'a fatstate_scheme) res" where
  "fat16_open s path mode =
     (if mode \<noteq> FILE_MODE_READ then Inr (ERROR_ptr (- ERDONLY), s)
      else bind_res (kzalloc s 8) (\<lambda>(descriptor, s).
        if descriptor = 0 then Inr (ERROR_ptr (- ENOMEM), s)
        else bind_res (fat16_get_directory_entry s path) (\<lambda>(item, s).
          if item = 0
          then bind_res (kfree s descriptor) (\<lambda>s. Inr (ERROR_ptr (- EIO), s))
          else Inr (descriptor, s\<lparr>fat_descs := (fat_descs s)(descriptor \<mapsto>
                 \<lparr>fdesc_item = item, fdesc_pos = 0\<rparr>)\<rparr>))))"

definition fat16_close :: "'a fatstate_scheme \<Rightarrow> u32 \<Rightarrow> (int \<times> 'a fatstate_scheme) res" where
  "fat16_close s private =
     bind_res (obj_get (fat_descs s) private) (\<lambda>desc.
     bind_res (fat16_fat_item_free s (fdesc_item desc)) (\<lambda>s.
     bind_res (kfree s private) (\<lambda>s.
       Inr (0, s\<lparr>fat_descs := (fat_descs s)(private := None)\<rparr>))))"

text \<open>\<open>*stat\<close> is written only on success: None otherwise.\<close>

definition fat16_stat :: "'a fatstate_scheme \<Rightarrow> u32 \<Rightarrow> (int \<times> file_stat option) res" where
  "fat16_stat s private =
     bind_res (obj_get (fat_descs s) private) (\<lambda>descriptor.
     bind_res (obj_get (fat_items s) (fdesc_item descriptor)) (\<lambda>desc_item.
       if fi_type desc_item \<noteq> FAT_ITEM_TYPE_FILE then Inr (- EINVARG, None)
       else bind_res (obj_get (item_arrays s) (fi_ptr desc_item)) (\<lambda>items.
            bind_res (list_get items 0) (\<lambda>ritem.
              Inr (0, Some \<lparr>stat_flags = (if attribute ritem AND FAT_FILE_READ_ONLY \<noteq> 0 then 1 else 0),
                            stat_filesize = filesize ritem\<rparr>)))))"

fun fat16_read_loop ::
  "'a fatstate_scheme \<Rightarrow> int \<Rightarrow> int \<Rightarrow> int \<Rightarrow> nat \<Rightarrow> (int \<times> u8 list \<times> int \<times> 'a fatstate_scheme) res" where
  "fat16_read_loop s cluster offset sz 0 = Inr (0, [], offset, s)"
| "fat16_read_loop s cluster offset sz (Suc n) =
     bind_res (fat16_read_internal s cluster offset sz) (\<lambda>(r, bs, s).
       if r < 0 then Inr (r, bs, offset, s)
       else bind_res (fat16_read_loop s cluster (offset + sz) sz n) (\<lambda>(r, rest, ofs, s).
              Inr (r, bs @ rest, ofs, s)))"

definition fat16_read ::
  "'a fatstate_scheme \<Rightarrow> u32 \<Rightarrow> u32 \<Rightarrow> u32 \<Rightarrow> (int \<times> u8 list \<times> 'a fatstate_scheme) res" where
  "fat16_read s descriptor sz nmemb =
     bind_res (obj_get (fat_descs s) descriptor) (\<lambda>fat_desc.
     bind_res (obj_get (fat_items s) (fdesc_item fat_desc)) (\<lambda>it.
     bind_res (obj_get (item_arrays s) (fi_ptr it)) (\<lambda>items.
     bind_res (list_get items 0) (\<lambda>item.
     bind_res (fat16_read_loop s (sint (fat16_get_first_cluster item)) (sint (fdesc_pos fat_desc))
         (sint sz) (unat nmemb)) (\<lambda>(r, bs, offset, s).
       if r < 0 then Inr (r, bs, s)
       else Inr (sint nmemb, bs, s\<lparr>fat_descs := (fat_descs s)(descriptor \<mapsto>
              fat_desc\<lparr>fdesc_pos := word_of_int offset\<rparr>)\<rparr>))))))"

definition fat16_seek :: "'a fatstate_scheme \<Rightarrow> u32 \<Rightarrow> u32 \<Rightarrow> u32 \<Rightarrow> (int \<times> 'a fatstate_scheme) res" where
  "fat16_seek s private offset seek_mode =
     bind_res (obj_get (fat_descs s) private) (\<lambda>desc.
     bind_res (obj_get (fat_items s) (fdesc_item desc)) (\<lambda>desc_item.
       if fi_type desc_item \<noteq> FAT_ITEM_TYPE_FILE then Inr (- EINVARG, s)
       else bind_res (obj_get (item_arrays s) (fi_ptr desc_item)) (\<lambda>items.
            bind_res (list_get items 0) (\<lambda>ritem.
              if filesize ritem \<le> offset then Inr (- EIO, s)
              else if seek_mode = SEEK_SET
              then Inr (0, s\<lparr>fat_descs := (fat_descs s)(private \<mapsto> desc\<lparr>fdesc_pos := offset\<rparr>)\<rparr>)
              else if seek_mode = SEEK_END then Inr (- EUNIMP, s)
              else if seek_mode = SEEK_CUR
              then Inr (0, s\<lparr>fat_descs := (fat_descs s)(private \<mapsto> desc\<lparr>fdesc_pos := fdesc_pos desc + offset\<rparr>)\<rparr>)
              else Inr (- EINVARG, s)))))"

end
