(* ===== verification/Fat16Read.thy ===== *)
theory Fat16Read
  imports Fat16
begin

text \<open>
  What the FAT16 driver reads. \<open>mounted\<close> is the state after a successful resolve: the drive serves the image
  \<open>img\<close>, the private data is \<open>fp\<close> and its streams are open. \<open>fat_entry\<close>, \<open>chain\<close> and \<open>file_byte\<close> are the file
  system's own meaning of the image; the driver's table lookups, its walk along the chain and
  its reads are proved equal to them from the contract of the streams.
\<close>

subsection \<open>The file system in the image\<close>

abbreviation fat_geometry :: "fat_private \<Rightarrow> fat_header" where
  "fat_geometry fp \<equiv> primary_header (header fp)"

definition cluster_size :: "fat_private \<Rightarrow> nat" where
  "cluster_size fp = unat (sectors_per_cluster (fat_geometry fp)) * 512"

definition fat_entry :: "(nat \<Rightarrow> u8) \<Rightarrow> fat_private \<Rightarrow> nat \<Rightarrow> nat" where
  "fat_entry img fp c = unat (image_word img (512 * unat (reserved_sectors (fat_geometry fp)) + 2 * c))"

text \<open>The cluster \<open>n\<close> steps behind \<open>c\<close>; None where the driver answers an error.\<close>

fun chain :: "(nat \<Rightarrow> u8) \<Rightarrow> fat_private \<Rightarrow> nat \<Rightarrow> nat \<Rightarrow> nat option" where
  "chain img fp c 0 = Some c"
| "chain img fp c (Suc n) =
     (if fat_entry_error (int (fat_entry img fp c)) then None else chain img fp (fat_entry img fp c) n)"

definition cluster_pos :: "fat_private \<Rightarrow> nat \<Rightarrow> nat" where
  "cluster_pos fp c = 512 * nat (ending_sector_pos (root_directory fp)) + (c - 2) * cluster_size fp"

text \<open>Byte \<open>i\<close> of the file whose first cluster is \<open>c\<close>.\<close>

definition file_byte :: "(nat \<Rightarrow> u8) \<Rightarrow> fat_private \<Rightarrow> nat \<Rightarrow> nat \<Rightarrow> u8" where
  "file_byte img fp c i = (case chain img fp c (i div cluster_size fp) of
     Some d \<Rightarrow> img (cluster_pos fp d + i mod cluster_size fp) | None \<Rightarrow> 0)"

definition mounted :: "(nat \<Rightarrow> u8) \<Rightarrow> fat_private \<Rightarrow> 'a fatstate_scheme \<Rightarrow> bool" where
  "mounted img fp s \<longleftrightarrow> drive_serves img s \<and> fat_privs s (fs_private (kdisk s)) = Some fp \<and>
     sector_size (kdisk s) = 512 \<and> 0 < cluster_size fp \<and> 0 \<le> ending_sector_pos (root_directory fp) \<and>
     fat_read_stream fp \<noteq> 0 \<and> stream_pos s (fat_read_stream fp) \<noteq> None \<and>
     stream_pos s (cluster_read_stream fp) \<noteq> None \<and> stream_pos s (directory_stream fp) \<noteq> None"

lemma mounted_moved: "mounted img fp s \<Longrightarrow> stream_moved s s' \<Longrightarrow> mounted img fp s'"
proof -
  assume m: "mounted img fp s" and mv: "stream_moved s s'"
  from mv obtain tr sm where "s' = s\<lparr>port_trace := tr, streams := sm\<rparr>" by (rule stream_movedE)
  then have "fat_privs s' = fat_privs s" by simp
  with m show ?thesis
    using stream_moved_keeps [OF mv] by (simp add: mounted_def drive_serves_def)
qed

subsection \<open>Table lookups\<close>

lemma le16_image: "le16 (image_bytes img p n) k = image_word img (p + k)" if "k + 2 \<le> n"
  using that by (simp add: le16_def byte_at_def image_bytes_def image_word_def)

lemma fat_entry_bound: "fat_entry img fp c < 65536"
  using unsigned_less [of "image_word img (512 * unat (reserved_sectors (fat_geometry fp)) + 2 * c)", where 'a = nat]
  by (simp add: fat_entry_def)

lemma sint_nat_pos: "n < 2147483648 \<Longrightarrow> sint (of_nat n :: u32) = int n"
  using unat_of_nat_u32 [of n] by (subst sint_small) simp_all

lemma get_fat_entry_reads:
  assumes "mounted img fp s" "c < 65536"
  shows "\<exists>s'. fat16_get_fat_entry s (int c) = Inr (int (fat_entry img fp c), s') \<and> stream_moved s s'"
proof -
  let ?r = "unat (reserved_sectors (fat_geometry fp))" and ?st = "fat_read_stream fp"
  have r: "?r < 65536" using unsigned_less [of "reserved_sectors (fat_geometry fp)", where 'a = nat] by simp
  have "(ucast (reserved_sectors (fat_geometry fp)) :: u32) = of_nat ?r"
    by (simp add: word_unat_eq_iff unsigned_ucast_eq take_bit_nat_eq_self unat_of_nat_u32 r)
  then have "ucast (reserved_sectors (fat_geometry fp)) * 512 + of_nat c * 2 = (of_nat (512 * ?r + 2 * c) :: u32)"
    by simp
  then have pos: "sint (ucast (reserved_sectors (fat_geometry fp)) * 512 + of_nat c * 2 :: u32) = int (512 * ?r + 2 * c)"
    using r assms(2) by (simp only:) (intro sint_nat_pos, simp)
  have "512 * ?r + 2 * c + 2 < 2147483648" using r assms(2) by simp
  then obtain s1 s2 where s12: "disk_streamer_seek s ?st (int (512 * ?r + 2 * c)) = Inr (0, s1)"
      "disk_streamer_read s1 ?st (int 2) = Inr (0, image_bytes img (512 * ?r + 2 * c) 2, s2)" "stream_moved s s2"
    using ds.seek_read [of img s ?st "512 * ?r + 2 * c" 2] assms(1) unfolding mounted_def by blast
  have "le16 (image_bytes img (512 * ?r + 2 * c) 2) 0 = image_word img (512 * ?r + 2 * c)"
    by (simp add: le16_image)
  moreover have "get_private s = Inr fp" "sector_size (kdisk s) = 512" "fat_read_stream fp \<noteq> 0"
    using assms(1) by (simp_all add: mounted_def)
  ultimately have "fat16_get_fat_entry s (int c) = Inr (int (fat_entry img fp c), s2)"
    using s12 pos by (simp add: fat16_get_fat_entry_def fat16_get_first_fat_sector_def Let_def fat_entry_def)
  with s12(3) show ?thesis by blast
qed

lemma cluster_ahead_reads:
  assumes "mounted img fp s" "c < 65536"
  shows "\<exists>s'. cluster_ahead_loop s (int c) n =
    Inr (case chain img fp c n of Some d \<Rightarrow> int d | None \<Rightarrow> - EIO, s') \<and> stream_moved s s'"
  using assms
proof (induction n arbitrary: s c)
  case 0
  have "stream_moved s s" using stream_moved_streamsI [of "streams s" s] by simp
  then show ?case by simp
next
  case (Suc n)
  obtain s1 where s1: "fat16_get_fat_entry s (int c) = Inr (int (fat_entry img fp c), s1)" "stream_moved s s1"
    using get_fat_entry_reads [OF Suc.prems] by blast
  from Suc.IH [OF mounted_moved [OF Suc.prems(1) s1(2)] fat_entry_bound] obtain s2 where
    "cluster_ahead_loop s1 (int (fat_entry img fp c)) n =
      Inr (case chain img fp (fat_entry img fp c) n of Some d \<Rightarrow> int d | None \<Rightarrow> - EIO, s2)" "stream_moved s1 s2"
    by blast
  with s1 show ?case
    by (cases "fat_entry_error (int (fat_entry img fp c))") (auto intro: stream_moved_trans)
qed

lemma cluster_size_int:
  "mounted img fp s \<Longrightarrow> uint (sectors_per_cluster (fat_geometry fp)) * sector_size (kdisk s) = int (cluster_size fp)"
  by (simp add: mounted_def cluster_size_def)

lemma sdiv_nat: "int a sdiv int b = int (a div b)" "int a smod int b = int (a mod b)"
  by (cases "b = 0"; simp add: signed_divide_int_def signed_modulo_int_def zdiv_int zmod_int sgn_if)+

lemma cluster_for_offset_reads:
  assumes "mounted img fp s" "c < 65536"
  shows "\<exists>s'. fat16_get_cluster_for_offset s (int c) (int ofs) =
    Inr (case chain img fp c (ofs div cluster_size fp) of Some d \<Rightarrow> int d | None \<Rightarrow> - EIO, s') \<and> stream_moved s s'"
proof -
  have "get_private s = Inr fp" "uint (sectors_per_cluster (fat_geometry fp)) \<noteq> 0" "sector_size (kdisk s) = 512"
    using assms(1) by (auto simp: mounted_def cluster_size_def uint_0_iff)
  then show ?thesis
    using cluster_ahead_reads [OF assms] cluster_size_int [OF assms(1)]
    by (simp add: fat16_get_cluster_for_offset_def sdiv_nat)
qed

subsection \<open>Reading a file\<close>

text \<open>What one part of a read does: up to one cluster's length, contiguous on the disk from the
  offset's place in its cluster.\<close>

lemma cluster_sector_pos:
  assumes "mounted img fp s" "2 \<le> c"
  shows "fat16_cluster_to_sector fp (int c) * 512 + int k = int (cluster_pos fp c + k)"
proof -
  have "0 \<le> ending_sector_pos (root_directory fp)" using assms(1) by (simp add: mounted_def)
  moreover obtain e where "c = e + 2" using assms(2) by (metis le_Suc_ex add.commute)
  ultimately show ?thesis
    by (simp add: fat16_cluster_to_sector_def cluster_pos_def cluster_size_def algebra_simps)
qed

lemma read_part:
  fixes n :: nat
  assumes m: "mounted img fp s" and c0: "c0 < 65536"
    and c: "chain img fp c0 (ofs div cluster_size fp) = Some c" "2 \<le> c"
    and room: "cluster_pos fp c + 2 * cluster_size fp < 2147483648"
  defines "k \<equiv> min n (cluster_size fp)"
  shows "\<exists>s'. read_cluster_part s (cluster_read_stream fp) (int c0) (int ofs) (int n) =
    Inr (0, image_bytes img (cluster_pos fp c + ofs mod cluster_size fp) k, int k, s') \<and> stream_moved s s'"
proof -
  have p: "get_private s = Inr fp" "0 < cluster_size fp" using m by (simp_all add: mounted_def)
  obtain s1 where s1: "fat16_get_cluster_for_offset s (int c0) (int ofs) = Inr (int c, s1)" "stream_moved s s1"
    using cluster_for_offset_reads [OF m c0, of ofs] c(1) by auto
  have m1: "mounted img fp s1" by (rule mounted_moved [OF m s1(2)])
  have "ofs mod cluster_size fp < cluster_size fp" using p(2) by simp
  then have "cluster_pos fp c + ofs mod cluster_size fp + k < 2147483648"
    using room unfolding k_def by linarith
  then obtain s2 s3 where s3: "disk_streamer_seek s1 (cluster_read_stream fp)
        (int (cluster_pos fp c + ofs mod cluster_size fp)) = Inr (0, s2)"
      "disk_streamer_read s2 (cluster_read_stream fp) (int k) =
        Inr (0, image_bytes img (cluster_pos fp c + ofs mod cluster_size fp) k, s3)" "stream_moved s1 s3"
    using ds.seek_read [of img s1 "cluster_read_stream fp" "cluster_pos fp c + ofs mod cluster_size fp" k] m1
    unfolding mounted_def by blast
  have sz: "uint (sectors_per_cluster (fat_geometry fp)) * sector_size (kdisk s1) = int (cluster_size fp)"
    by (rule cluster_size_int [OF m1])
  have "sector_size (kdisk s1) = 512" using m1 by (simp add: mounted_def)
  then have pos: "fat16_cluster_to_sector fp (int c) * sector_size (kdisk s1) + int (ofs mod cluster_size fp)
      = int (cluster_pos fp c + ofs mod cluster_size fp)"
    using cluster_sector_pos [OF m c(2)] by simp
  have k: "(if int n > int (cluster_size fp) then int (cluster_size fp) else int n) = int k"
    by (simp add: k_def)
  have "read_cluster_part s (cluster_read_stream fp) (int c0) (int ofs) (int n) =
    Inr (0, image_bytes img (cluster_pos fp c + ofs mod cluster_size fp) k, int k, s3)"
    unfolding read_cluster_part_def p(1) bind_res.simps s1(1) prod.case Let_def sz sdiv_nat pos k s3
    using s3(1,2) by simp
  moreover have "stream_moved s s3" by (rule stream_moved_trans [OF s1(2) s3(3)])
  ultimately show ?thesis by blast
qed

text \<open>A read that starts on a cluster boundary follows the chain.\<close>

lemma image_bytes_file:
  assumes "chain img fp c0 q = Some c" "k \<le> cluster_size fp" "0 < cluster_size fp"
  shows "image_bytes img (cluster_pos fp c) k = map (file_byte img fp c0) [q * cluster_size fp..<q * cluster_size fp + k]"
proof (rule nth_equalityI)
  fix i assume "i < length (image_bytes img (cluster_pos fp c) k)"
  then have "i < k" "i < cluster_size fp" using assms(2) by simp_all
  then show "image_bytes img (cluster_pos fp c) k ! i
      = map (file_byte img fp c0) [q * cluster_size fp..<q * cluster_size fp + k] ! i"
    using assms(1) by (simp add: image_bytes_def file_byte_def)
qed simp

lemma read_aligned:
  assumes "mounted img fp s" "c0 < 65536" "0 < n"
    and "\<And>i. i * cluster_size fp < n \<Longrightarrow> \<exists>c. chain img fp c0 (q + i) = Some c \<and> 2 \<le> c \<and>
      cluster_pos fp c + 2 * cluster_size fp < 2147483648"
  shows "\<exists>s'. fat16_read_internal_from_stream s (cluster_read_stream fp) (int c0) (int (q * cluster_size fp)) (int n) =
    Some (Inr (0, map (file_byte img fp c0) [q * cluster_size fp..<q * cluster_size fp + n], s')) \<and> stream_moved s s'"
  using assms
proof (induction n arbitrary: s q rule: less_induct)
  case (less n)
  let ?cs = "cluster_size fp"
  have cs: "0 < ?cs" using less.prems(1) by (simp add: mounted_def)
  obtain c where c: "chain img fp c0 q = Some c" "2 \<le> c" "cluster_pos fp c + 2 * ?cs < 2147483648"
    using less.prems(4) [of 0] less.prems(3) by auto
  have "q * ?cs div ?cs = q" "q * ?cs mod ?cs = 0" using cs by simp_all
  with c obtain s1 where s1: "read_cluster_part s (cluster_read_stream fp) (int c0) (int (q * ?cs)) (int n) =
      Inr (0, image_bytes img (cluster_pos fp c) (min n ?cs), int (min n ?cs), s1)" "stream_moved s s1"
    using read_part [OF less.prems(1,2), of "q * ?cs" c n] by auto
  have here: "image_bytes img (cluster_pos fp c) (min n ?cs)
      = map (file_byte img fp c0) [q * ?cs..<q * ?cs + min n ?cs]"
    by (rule image_bytes_file [OF c(1) _ cs]) simp
  show ?case
  proof (cases "n \<le> ?cs")
    case True
    then have "fat16_read_internal_from_stream s (cluster_read_stream fp) (int c0) (int (q * ?cs)) (int n) =
        Some (Inr (0, map (file_byte img fp c0) [q * ?cs..<q * ?cs + n], s1))"
      using s1(1) here by (subst fat16_read_internal_from_stream.simps) simp
    with s1(2) show ?thesis by blast
  next
    case False
    then have lt: "n - ?cs < n" "0 < n - ?cs" using cs by simp_all
    have "\<exists>c. chain img fp c0 (Suc q + i) = Some c \<and> 2 \<le> c \<and> cluster_pos fp c + 2 * ?cs < 2147483648"
      if "i * ?cs < n - ?cs" for i
      using less.prems(4) [of "Suc i"] that by simp
    from less.IH [OF lt(1) mounted_moved [OF less.prems(1) s1(2)] less.prems(2) lt(2) this] obtain s2 where
      s2: "fat16_read_internal_from_stream s1 (cluster_read_stream fp) (int c0) (int (Suc q * ?cs)) (int (n - ?cs)) =
        Some (Inr (0, map (file_byte img fp c0) [Suc q * ?cs..<Suc q * ?cs + (n - ?cs)], s2))" "stream_moved s1 s2"
      by blast
    have eqs: "int (q * ?cs) + int (min n ?cs) = int (Suc q * ?cs)" "int n - int (min n ?cs) = int (n - ?cs)"
      "0 < int (n - ?cs)" using False lt by simp_all
    have "[q * ?cs..<q * ?cs + ?cs] @ [Suc q * ?cs..<Suc q * ?cs + (n - ?cs)] = [q * ?cs..<q * ?cs + n]"
      using False upt_add_eq_append [of "q * ?cs" "q * ?cs + ?cs" "n - ?cs"] by (simp add: add.commute)
    then have app: "map (file_byte img fp c0) [q * ?cs..<q * ?cs + min n ?cs] @
        map (file_byte img fp c0) [Suc q * ?cs..<Suc q * ?cs + (n - ?cs)]
        = map (file_byte img fp c0) [q * ?cs..<q * ?cs + n]"
      using False by (simp add: min_def flip: map_append)
    have "fat16_read_internal_from_stream s (cluster_read_stream fp) (int c0) (int (q * ?cs)) (int n) =
        Some (Inr (0, map (file_byte img fp c0) [q * ?cs..<q * ?cs + n], s2))"
      apply (subst fat16_read_internal_from_stream.simps)
      unfolding s1(1) sum.case prod.case eqs
      using s2(1) eqs(3) app here by simp
    moreover have "stream_moved s s2" by (rule stream_moved_trans [OF s1(2) s2(2)])
    ultimately show ?thesis by blast
  qed
qed

subsection \<open>Reading through a descriptor\<close>

text \<open>Descriptor \<open>d\<close> is open at position \<open>p\<close> on the file \<open>item\<close>.\<close>

definition open_file :: "'a fatstate_scheme \<Rightarrow> u32 \<Rightarrow> u32 \<Rightarrow> fat_directory_item \<Rightarrow> bool" where
  "open_file s d p item \<longleftrightarrow> (\<exists>it a rest. fat_descs s d = Some \<lparr>fdesc_item = it, fdesc_pos = p\<rparr> \<and>
     fat_items s it = Some \<lparr>fi_ptr = a, fi_type = FAT_ITEM_TYPE_FILE\<rparr> \<and>
     item_arrays s a = Some (item # rest))"

definition set_pos :: "'a fatstate_scheme \<Rightarrow> u32 \<Rightarrow> u32 \<Rightarrow> 'a fatstate_scheme" where
  "set_pos s d p = s\<lparr>fat_descs := (fat_descs s)(d := map_option (\<lambda>x. x\<lparr>fdesc_pos := p\<rparr>) (fat_descs s d))\<rparr>"

lemma moved_fat:
  assumes "stream_moved s s'"
  shows "fat_descs s' = fat_descs s" "fat_items s' = fat_items s" "item_arrays s' = item_arrays s"
    "fat_dirs s' = fat_dirs s" "fat_privs s' = fat_privs s"
  using assms by (auto elim: stream_movedE)

lemma fat16_read_one:
  assumes "open_file s d p item" "unat (fat16_get_first_cluster item) = c0" "c0 < 65536"
    and "unat p < 2147483648" "n < 2147483648" "unat p + n < 2147483648"
    and "fat16_read_internal s (int c0) (int (unat p)) (int n) = Inr (0, bs, s')" "stream_moved s s'"
  shows "fat16_read s d (of_nat n) 1 = Inr (1, bs, set_pos s' d (p + of_nat n))"
proof -
  have c: "sint (fat16_get_first_cluster item) = int c0"
    using assms(2,3) by (subst sint_small) simp_all
  have pn: "sint p = int (unat p)" "sint (of_nat n :: u32) = int n"
    using assms(4,5) sint_small [of p] sint_nat_pos [of n] by simp_all
  have "word_of_int (int (unat p) + int n) = p + of_nat n" by simp
  with assms(1,7) c pn moved_fat(1) [OF assms(8)] show ?thesis
    by (auto simp: open_file_def fat16_read_def list_get_def set_pos_def)
qed

lemma read_internal_stream:
  assumes "mounted img fp s"
  shows "fat16_read_internal s c ofs n =
    (case fat16_read_internal_from_stream s (cluster_read_stream fp) c ofs n of None \<Rightarrow> Inl Hang | Some x \<Rightarrow> x)"
  using assms by (simp add: fat16_read_internal_def mounted_def)

lemma read_follows_chain:
  assumes "mounted img fp s" "open_file s d p item" "unat (fat16_get_first_cluster item) = c0" "c0 < 65536"
    and "0 < n" "unat p + n < 2147483648" "unat p = q * cluster_size fp"
    and "\<And>i. i * cluster_size fp < n \<Longrightarrow> \<exists>c. chain img fp c0 (q + i) = Some c \<and> 2 \<le> c \<and>
      cluster_pos fp c + 2 * cluster_size fp < 2147483648"
  shows "\<exists>s'. fat16_read s d (of_nat n) 1 =
      Inr (1, map (file_byte img fp c0) [unat p..<unat p + n], set_pos s' d (p + of_nat n)) \<and> stream_moved s s'"
proof -
  obtain s' where s': "fat16_read_internal_from_stream s (cluster_read_stream fp) (int c0) (int (unat p)) (int n) =
      Some (Inr (0, map (file_byte img fp c0) [unat p..<unat p + n], s'))" "stream_moved s s'"
    using read_aligned [OF assms(1,4,5,8)] unfolding assms(7) by blast
  then have "fat16_read_internal s (int c0) (int (unat p)) (int n) =
      Inr (0, map (file_byte img fp c0) [unat p..<unat p + n], s')"
    by (simp add: read_internal_stream [OF assms(1)])
  from fat16_read_one [OF assms(2-4) _ _ assms(6) this s'(2)] assms(6) s'(2) show ?thesis by auto
qed

text \<open>C5: a read through a descriptor that stands on a cluster boundary returns the file's bytes, following the
  allocation chain cluster by cluster, answers the number of elements and advances the position.\<close>

theorem fat16_read_contents:
  assumes "mounted img fp s" "open_file s d p item" "unat (fat16_get_first_cluster item) = c0" "c0 < 65536"
    and "0 < n" "unat p + n < 2147483648" "unat p = q * cluster_size fp"
    and "\<And>i. i * cluster_size fp < n \<Longrightarrow> \<exists>c. chain img fp c0 (q + i) = Some c \<and> 2 \<le> c \<and>
      cluster_pos fp c + 2 * cluster_size fp < 2147483648"
  shows "\<exists>s'. fat16_read s d (of_nat n) 1 =
      Inr (1, map (file_byte img fp c0) [unat p..<unat p + n], set_pos s' d (p + of_nat n)) \<and> stream_moved s s'"
  by (rule read_follows_chain [OF assms])

text \<open>C22: a read of at most a cluster's length that does not start on a cluster boundary takes its bytes from one
  contiguous run of the disk: behind the end of the cluster it goes on with the physically next one, not
  with the next of the chain.\<close>

theorem fat16_read_unaligned:
  assumes "mounted img fp s" "open_file s d p item" "unat (fat16_get_first_cluster item) = c0" "c0 < 65536"
    and "n \<le> cluster_size fp" "unat p + n < 2147483648"
    and "chain img fp c0 (unat p div cluster_size fp) = Some c" "2 \<le> c"
    and "cluster_pos fp c + 2 * cluster_size fp < 2147483648"
  shows "\<exists>s'. fat16_read s d (of_nat n) 1 =
      Inr (1, map img [cluster_pos fp c + unat p mod cluster_size fp..<cluster_pos fp c + unat p mod cluster_size fp + n],
        set_pos s' d (p + of_nat n)) \<and> stream_moved s s'"
proof -
  have k: "min n (cluster_size fp) = n" using assms(5) by simp
  obtain s' where s': "read_cluster_part s (cluster_read_stream fp) (int c0) (int (unat p)) (int n) =
      Inr (0, image_bytes img (cluster_pos fp c + unat p mod cluster_size fp) n, int n, s')" "stream_moved s s'"
    using read_part [OF assms(1,4,7,8,9), of n] unfolding k by blast
  then have "fat16_read_internal s (int c0) (int (unat p)) (int n) =
      Inr (0, image_bytes img (cluster_pos fp c + unat p mod cluster_size fp) n, s')"
    by (simp add: read_internal_stream [OF assms(1)] fat16_read_internal_from_stream.simps)
  from fat16_read_one [OF assms(2-4) _ _ assms(6) this s'(2)] assms(6) s'(2) show ?thesis
    by (auto simp: image_bytes_def)
qed

subsection \<open>A file system for the examples\<close>

text \<open>One sector per cluster, one reserved sector, data from sector 10 on. Cluster 2 is followed by cluster 5,
  which is the last; the first byte of cluster 3 is 0xAA, the first of cluster 5 is 0xBB.\<close>

definition example_image :: "nat \<Rightarrow> u8" where
  "example_image a = (if a = 516 then 5 else if a = 522 \<or> a = 523 then 0xFF else if a = 5632 then 0xAA
     else if a = 6656 then 0xBB else 0)"

definition example_private :: fat_private where
  "example_private = \<lparr>header = \<lparr>primary_header = (primary_header (fat_h_of_bytes []))
       \<lparr>sectors_per_cluster := 1, reserved_sectors := 1\<rparr>, extended_header = extended_header (fat_h_of_bytes [])\<rparr>,
     root_directory = \<lparr>fd_item = 0x01004000, fd_total = 1, sector_pos = 6, ending_sector_pos = 10\<rparr>,
     cluster_read_stream = 0x01001000, fat_read_stream = 0x01002000, directory_stream = 0x01003000\<rparr>"

definition example_item :: fat_directory_item where
  "example_item = (item_of_bytes [])\<lparr>filename := [66, 73, 71, 32, 32, 32, 32, 32], ext := [66, 73, 78],
     low_16_bits_first_cluster := 2, filesize := 1024\<rparr>"

definition example_fat_state :: "u32 \<Rightarrow> fatstate" where
  "example_fat_state p = \<lparr>video_mem = (\<lambda>_. 0), terminal_row = 0, terminal_col = 0,
     kheap = kernel_fresh_heap, mem = (\<lambda>_. 0xAA), current_directory = 0, cr3 = 0, cr0 = 0,
     hw = example_device example_image, port_trace = [],
     kdisk = \<lparr>dk_type = 0, sector_size = 512, dk_id = 0, dk_filesystem = Some Fat16_fs, fs_private = 0x01000000\<rparr>,
     streams = (\<lambda>a. if a \<in> {0x01001000, 0x01002000, 0x01003000} then Some \<lparr>st_pos = 0, st_disk = The_disk\<rparr> else None),
     kbufs = (\<lambda>_. None), path_parts = (\<lambda>_. None), path_roots = (\<lambda>_. None),
     fat_privs = [0x01000000 \<mapsto> example_private], fat_dirs = (\<lambda>_. None),
     item_arrays = [0x01004000 \<mapsto> [example_item], 0x01005000 \<mapsto> [example_item]],
     fat_items = [0x01006000 \<mapsto> \<lparr>fi_ptr = 0x01005000, fi_type = 1\<rparr>],
     fat_descs = [0x01007000 \<mapsto> \<lparr>fdesc_item = 0x01006000, fdesc_pos = p\<rparr>]\<rparr>"

lemma example_cluster_size: "cluster_size example_private = 512"
  by (simp add: cluster_size_def example_private_def)

lemma example_mounted: "mounted example_image example_private (example_fat_state p)"
  unfolding mounted_def example_cluster_size
  by (simp add: drive_serves_def example_device_serves example_fat_state_def stream_pos_def)
    (simp add: example_private_def)

lemma example_open: "open_file (example_fat_state p) 0x01007000 p example_item"
  by (simp add: open_file_def example_fat_state_def)

lemma example_first_cluster: "unat (fat16_get_first_cluster example_item) = 2"
  by (simp add: fat16_get_first_cluster_def example_item_def item_of_bytes_def le16_def byte_at_def)

lemma example_chain:
  "chain example_image example_private 2 0 = Some 2" "chain example_image example_private 2 (Suc 0) = Some 5"
  "cluster_pos example_private 2 = 5120" "cluster_pos example_private 5 = 6656"
proof -
  have "fat_entry example_image example_private 2 = 5"
    by (simp add: fat_entry_def example_private_def example_image_def image_word_def)
  then show "chain example_image example_private 2 (Suc 0) = Some 5" by (simp add: fat_entry_error_def)
  show "cluster_pos example_private 2 = 5120" "cluster_pos example_private 5 = 6656"
    by (simp_all add: cluster_pos_def example_cluster_size) (simp_all add: example_private_def)
qed simp

lemma fat16_read_contents_witness:
  "\<exists>bs s'. fat16_read (example_fat_state 0) 0x01007000 (of_nat 1024) 1 = Inr (1, bs, s') \<and> bs ! 512 = 0xBB"
proof -
  have ch: "\<exists>c. chain example_image example_private 2 (0 + i) = Some c \<and> 2 \<le> c \<and>
      cluster_pos example_private c + 2 * cluster_size example_private < 2147483648"
    if "i * cluster_size example_private < 1024" for i
  proof -
    have "i = 0 \<or> i = Suc 0" using that by (auto simp: example_cluster_size)
    then show ?thesis using example_chain by (auto simp: example_cluster_size)
  qed
  have z: "unat (0 :: u32) = 0 * cluster_size example_private" by simp
  have "\<exists>s'. fat16_read (example_fat_state 0) 0x01007000 (of_nat 1024) 1 = Inr (1,
      map (file_byte example_image example_private 2) [unat (0 :: u32)..<unat (0 :: u32) + 1024],
      set_pos s' 0x01007000 (0 + of_nat 1024)) \<and> stream_moved (example_fat_state 0) s'"
    by (rule fat16_read_contents [OF example_mounted example_open example_first_cluster _ _ _ z ch]) simp_all
  then obtain s' where "fat16_read (example_fat_state 0) 0x01007000 (of_nat 1024) 1 = Inr (1,
      map (file_byte example_image example_private 2) [0..<1024], set_pos s' 0x01007000 (of_nat 1024))"
    by auto
  moreover have "file_byte example_image example_private 2 512 = 0xBB"
    using example_chain by (simp add: file_byte_def example_cluster_size) (simp add: example_image_def)
  ultimately show ?thesis by auto
qed

lemma fat16_read_unaligned_witness:
  "\<exists>s'. fat16_read (example_fat_state 511) 0x01007000 (of_nat 2) 1 = Inr (1, [0, 0xAA], s') \<and>
     map (file_byte example_image example_private 2) [511..<513] = [0, 0xBB]"
proof -
  have c: "chain example_image example_private 2 (unat (511 :: u32) div cluster_size example_private) = Some 2"
    by (simp add: example_cluster_size)
  obtain s' where "fat16_read (example_fat_state 511) 0x01007000 (of_nat 2) 1 = Inr (1,
      map example_image [5631..<5631 + 2], set_pos s' 0x01007000 (511 + of_nat 2))"
    using fat16_read_unaligned [OF example_mounted [of 511] example_open [of 511] example_first_cluster _ _ _ c, of 2]
    by (auto simp: example_cluster_size example_chain)
  moreover have "map example_image [5631..<5631 + 2] = [0, 0xAA]"
    by (simp add: upt_rec example_image_def)
  moreover have "map (file_byte example_image example_private 2) [511..<513] = [0, 0xBB]"
    using example_chain by (simp add: upt_rec file_byte_def example_cluster_size) (simp add: example_image_def)
  ultimately show ?thesis by auto
qed

end
