(* ===== verification/Fat16Dir.thy ===== *)
theory Fat16Dir
  imports Fat16Read
begin

text \<open>
  Directory search of the FAT16 driver: the name the driver forms of an 8.3 entry is
  \<open>dos_name\<close>, and \<open>fat16_find_item_in_directory\<close> picks the first entry whose name equals the wanted one up to ASCII case.
\<close>

subsection \<open>Names\<close>

definition trim_name :: "u8 list \<Rightarrow> u8 list" where
  "trim_name f = takeWhile (\<lambda>c. c \<noteq> 0 \<and> c \<noteq> 0x20) f"

definition dos_name :: "fat_directory_item \<Rightarrow> u8 list" where
  "dos_name item = trim_name (filename item) @ (if trim_name (ext item) = [] then [] else 46 # trim_name (ext item))"

definition item_ok :: "fat_directory_item \<Rightarrow> bool" where
  "item_ok item \<longleftrightarrow> length (filename item) = 8 \<and> length (ext item) = 3"

definition name_matches :: "fat_directory_item \<Rightarrow> u8 list \<Rightarrow> bool" where
  "name_matches item name \<longleftrightarrow> map tolower (dos_name item) = map tolower (cstring name)"

lemma trim_name_simps [simp]:
  "trim_name [] = []" "trim_name (c # f) = (if c \<noteq> 0 \<and> c \<noteq> 0x20 then c # trim_name f else [])"
  by (simp_all add: trim_name_def)

lemma length_trim_name: "length (trim_name f) \<le> length f"
  by (simp add: trim_name_def length_takeWhile_le)

lemma trim_name_no_nul: "0 \<notin> set (trim_name f)"
  by (auto simp: trim_name_def dest: set_takeWhileD)

lemma length_dos_name: "item_ok item \<Longrightarrow> length (dos_name item) \<le> 12"
  using length_trim_name [of "filename item"] length_trim_name [of "ext item"]
  by (auto simp: dos_name_def item_ok_def)

lemma dos_name_no_nul: "0 \<notin> set (dos_name item)"
  using trim_name_no_nul by (simp add: dos_name_def)

lemma item_of_bytes_ok: "item_ok (item_of_bytes bs)"
  by (simp add: item_ok_def item_of_bytes_def bytes_at_def)

lemma items_of_bytes_ok: "item \<in> set (items_of_bytes bs) \<Longrightarrow> item_ok item"
  by (auto simp: items_of_bytes_def item_of_bytes_ok)

text \<open>The out buffer is \<open>p\<close> followed by zeros.\<close>

lemma proper_string_loop_trims:
  assumes "i + length inp = sz" "inp \<noteq> []" "length inp \<le> m"
  shows "proper_string_loop (p @ replicate m 0) (int (length p)) inp i sz =
    Inr (p @ trim_name inp @ replicate (m - length (trim_name inp)) 0, int (length p + length (trim_name inp)))"
  using assms
proof (induction inp arbitrary: p i m)
  case (Cons c cs)
  obtain m' where m: "m = Suc m'" using Cons.prems(3) by (cases m) auto
  have set: "list_set (p @ replicate m 0) (int (length p)) c = Inr ((p @ [c]) @ replicate m' 0)"
    by (simp add: m list_set_nat list_update_append)
  show ?case
  proof (cases "c \<noteq> 0 \<and> c \<noteq> 0x20")
    case True
    show ?thesis
    proof (cases "cs = []")
      case True
      then show ?thesis using \<open>c \<noteq> 0 \<and> c \<noteq> 0x20\<close> set Cons.prems(1) by (simp add: m)
    next
      case False
      then have "proper_string_loop ((p @ [c]) @ replicate m' 0) (int (length (p @ [c]))) cs (Suc i) sz =
          Inr ((p @ [c]) @ trim_name cs @ replicate (m' - length (trim_name cs)) 0,
            int (length (p @ [c]) + length (trim_name cs)))"
        using Cons.prems by (intro Cons.IH) (simp_all add: m)
      moreover have "\<not> sz - 1 \<le> i" using Cons.prems(1) False by (cases cs) auto
      ultimately show ?thesis using \<open>c \<noteq> 0 \<and> c \<noteq> 0x20\<close> set by (simp add: m ac_simps)
    qed
  qed auto
qed simp

lemma proper_string_trims:
  assumes "length inp = sz" "0 < sz" "sz < m"
  shows "fat16_to_proper_string (p @ replicate m 0) (int (length p)) inp sz =
    Inr (p @ trim_name inp @ replicate (m - length (trim_name inp)) 0, int (length p + length (trim_name inp)))"
proof -
  have "length (trim_name inp) < m" using length_trim_name [of inp] assms by linarith
  then obtain k where k: "m - length (trim_name inp) = Suc k" by (cases "m - length (trim_name inp)") auto
  have "proper_string_loop (p @ replicate m 0) (int (length p)) inp 0 sz =
      Inr (p @ trim_name inp @ replicate (m - length (trim_name inp)) 0, int (length p + length (trim_name inp)))"
    using assms by (intro proper_string_loop_trims) auto
  then show ?thesis
    by (simp add: fat16_to_proper_string_def k list_set_def list_update_append nat_add_distrib)
qed

lemma full_relative_filename:
  assumes "item_ok item"
  shows "fat16_get_full_relative_filename item 108 = Inr (dos_name item @ replicate (108 - length (dos_name item)) 0)"
proof -
  let ?f = "trim_name (filename item)" and ?e = "trim_name (ext item)"
  have f: "length ?f \<le> 8" and l: "length (filename item) = 8" "length (ext item) = 3"
    using length_trim_name [of "filename item"] assms by (simp_all add: item_ok_def)
  obtain e es where e: "ext item = e # es" using l(2) by (cases "ext item") auto
  obtain k where k: "108 - length ?f = Suc k" "3 < k" using f by (cases "108 - length ?f") auto
  have one: "fat16_to_proper_string (replicate 108 0) 0 (filename item) 8 =
      Inr (?f @ replicate (Suc k) 0, int (length ?f))"
    using proper_string_trims [of "filename item" 8 108 "[]"] l k by simp
  show ?thesis
  proof (cases "e \<noteq> 0 \<and> e \<noteq> 0x20")
    case True
    have set: "list_set (?f @ replicate (Suc k) 0) (int (length ?f)) 46 = Inr ((?f @ [46]) @ replicate k 0)"
      by (simp add: list_set_nat list_update_append)
    have "fat16_to_proper_string ((?f @ [46]) @ replicate k 0) (int (length (?f @ [46]))) (ext item) 3 =
        Inr ((?f @ [46]) @ ?e @ replicate (k - length ?e) 0, int (length (?f @ [46]) + length ?e))"
      by (rule proper_string_trims) (use l k in simp_all)
    moreover have "108 - length (dos_name item) = k - length ?e" "dos_name item = (?f @ [46]) @ ?e"
      using True k by (simp_all add: dos_name_def e)
    moreover have "int (length ?f) + 1 = int (length (?f @ [46]))" by simp
    ultimately show ?thesis
      using True by (simp only: fat16_get_full_relative_filename_def one set bind_res.simps prod.case)
        (simp add: e list_get_def)
  next
    case False
    then have "dos_name item = ?f" by (auto simp: dos_name_def e)
    with False k show ?thesis
      by (simp only: fat16_get_full_relative_filename_def one bind_res.simps prod.case)
        (auto simp: e list_get_def)
  qed
qed

lemma name_compare:
  assumes "item_ok item" "0 \<in> set name" "length (cstring name) \<le> 108"
  shows "\<exists>buf r. fat16_get_full_relative_filename item 108 = Inr buf \<and> istrncmp buf name 108 = Inr r \<and>
    (r = 0 \<longleftrightarrow> name_matches item name)"
proof -
  let ?b = "dos_name item @ replicate (108 - length (dos_name item)) 0"
  have l: "length (dos_name item) \<le> 12" by (rule length_dos_name [OF assms(1)])
  then obtain k where k: "108 - length (dos_name item) = Suc k" by (cases "108 - length (dos_name item)") auto
  have c: "cstring ?b = dos_name item" by (simp add: k cstring_append_nul [OF dos_name_no_nul])
  have z: "0 \<in> set ?b" by (simp add: k)
  obtain r where r: "istrncmp ?b name 108 = Inr r" using istrncmp_total [OF z assms(2)] by blast
  have "r = 0 \<longleftrightarrow> name_matches item name"
    using istrncmp_eq_0 [OF z assms(2), of 108] r l assms(3) unfolding c by (simp add: name_matches_def)
  then show ?thesis using r full_relative_filename [OF assms(1)] by blast
qed

subsection \<open>Searching a directory\<close>

lemma find_item_loop_first:
  assumes "i + n \<le> length items" "\<forall>item \<in> set items. item_ok item" "0 \<in> set name" "length (cstring name) \<le> 108"
  shows "find_item_loop s items name i n =
    (case free_slot_loop (\<lambda>item. name_matches item name) (take n (drop i items)) i of
       None \<Rightarrow> Inr (0, s) | Some k \<Rightarrow> fat16_new_fat_item_for_directory_item s (items ! k))"
  using assms(1)
proof (induction n arbitrary: i)
  case (Suc n)
  have i: "i < length items" using Suc.prems by simp
  then have tk: "take (Suc n) (drop i items) = items ! i # take n (drop (Suc i) items)"
    by (metis Cons_nth_drop_Suc take_Suc_Cons)
  obtain buf r where "fat16_get_full_relative_filename (items ! i) 108 = Inr buf" "istrncmp buf name 108 = Inr r"
      "r = 0 \<longleftrightarrow> name_matches (items ! i) name"
    using name_compare [OF _ assms(3,4)] assms(2) i nth_mem by metis
  then show ?case using Suc i unfolding tk by (simp add: list_get_nat)
qed simp

text \<open>Opening an entry that is a file: an item and a copy of the entry, in fresh pages.\<close>

lemma new_file_item:
  fixes s :: "'a fatstate_scheme"
  assumes "kheap_inv s" "2 \<le> kavail s" "attribute item AND FAT_FILE_SUBDIRECTORY = 0"
  obtains it c h m where "fat16_new_fat_item_for_directory_item s item = Inr (it, s\<lparr>kheap := h, mem := m,
      item_arrays := (item_arrays s)(c \<mapsto> [item]),
      fat_items := (fat_items s)(it \<mapsto> \<lparr>fi_ptr = c, fi_type = FAT_ITEM_TYPE_FILE\<rparr>)\<rparr>)"
    "it \<noteq> 0" "hgrown (kheap s) (mem s) h m [it, c]"
proof -
  have a: "0 < kavail s" using assms(2) by simp
  obtain it h1 m1 where it: "kzalloc s 8 = Inr (it, s\<lparr>kheap := h1, mem := m1\<rparr>)" "it \<noteq> 0"
      "hgrown (kheap s) (mem s) h1 m1 [it]"
    by (rule kzalloc_grown [OF assms(1) a, of 8]) (simp, simp, rule that)
  let ?s1 = "s\<lparr>kheap := h1, mem := m1\<rparr>"
  have "kheap_inv ?s1" "0 < kavail ?s1" using hgrownD(1,5) [OF it(3)] assms(2) by simp_all
  then obtain c h m where c: "kzalloc ?s1 32 = Inr (c, ?s1\<lparr>kheap := h, mem := m\<rparr>)" "c \<noteq> 0"
      "hgrown (kheap ?s1) (mem ?s1) h m [c]"
    by (rule kzalloc_grown [of ?s1 32]) (simp, simp, rule that)
  have "hgrown (kheap s) (mem s) h m ([it] @ [c])"
    using c(3) by (intro hgrown_trans [OF it(3)]) simp
  moreover have "fat16_new_fat_item_for_directory_item s item = Inr (it, s\<lparr>kheap := h, mem := m,
      item_arrays := (item_arrays s)(c \<mapsto> [item]),
      fat_items := (fat_items s)(it \<mapsto> \<lparr>fi_ptr = c, fi_type = FAT_ITEM_TYPE_FILE\<rparr>)\<rparr>)"
    using it(1,2) c(1,2) assms(3)
    by (simp add: fat16_new_fat_item_for_directory_item_def fat16_clone_directory_item_def)
  ultimately show thesis using it(2) by (intro that) simp_all
qed

text \<open>The first entry of a directory that has the name.\<close>

definition first_match :: "fat_directory_item list \<Rightarrow> nat \<Rightarrow> u8 list \<Rightarrow> nat option" where
  "first_match items n name = free_slot_loop (\<lambda>item. name_matches item name) (take n items) 0"

text \<open>C24: the search of a directory takes the first of its entries whose 8.3 name equals the wanted name up to ASCII
  case, and answers NULL without touching the state when there is none.\<close>

theorem fat16_find_item_first_match:
  assumes "item_arrays s (fd_item d) = Some items" "fd_total d \<le> int (length items)"
    and "\<forall>item \<in> set items. item_ok item" "0 \<in> set name" "length (cstring name) \<le> 108"
  shows "fat16_find_item_in_directory s d name =
    (case first_match items (nat (fd_total d)) name of
       None \<Rightarrow> Inr (0, s) | Some k \<Rightarrow> fat16_new_fat_item_for_directory_item s (items ! k))"
  using find_item_loop_first [of 0 "nat (fd_total d)" items name s] assms
  by (simp add: fat16_find_item_in_directory_def first_match_def)

lemma fat16_find_item_first_match_witness:
  "fat16_find_item_in_directory (example_fat_state 0) (root_directory example_private) (c_literal ''big.bin'') =
     fat16_new_fat_item_for_directory_item (example_fat_state 0) example_item"
proof -
  have "item_ok example_item" by (simp add: item_ok_def example_item_def item_of_bytes_def)
  moreover have "name_matches example_item (c_literal ''big.bin'')"
    by (simp add: name_matches_def dos_name_def example_item_def c_literal_def tolower_def)
  ultimately show ?thesis
    using fat16_find_item_first_match [of "example_fat_state 0" "root_directory example_private" "[example_item]"
        "c_literal ''big.bin''"]
    by (simp add: example_fat_state_def example_private_def c_literal_def first_match_def)
qed

end
