(* ===== verification/File.thy ===== *)
theory File
  imports Fat16Dir
begin

text \<open>
  The virtual file system of src/fs/file.c, with \<open>fat16_init\<close> and \<open>disk_search_and_init\<close>: the table of
  file-system drivers, the table of open descriptors and the operations \<open>fopen\<close> to \<open>fread\<close>. A driver's
  function table is the case distinction of the \<open>fs_*\<close> functions. \<open>struct file_descriptor\<close> objects live in the typed
  store \<open>fds\<close>; the global table holds their addresses. \<open>fread\<close> writes the bytes its driver delivers to memory.
\<close>

subsection \<open>Data (file.h)\<close>

abbreviation (input) FILE_MODE_WRITE :: u32 where "FILE_MODE_WRITE \<equiv> 1"
abbreviation (input) FILE_MODE_INVALID :: u32 where "FILE_MODE_INVALID \<equiv> 3"
abbreviation (input) MARROWOS_MAX_FILESYSTEMS :: nat where "MARROWOS_MAX_FILESYSTEMS \<equiv> 12"
abbreviation (input) MARROWOS_MAX_FILE_DESCRIPTORS :: nat where "MARROWOS_MAX_FILE_DESCRIPTORS \<equiv> 512"

record file_descriptor =
  fdn_index :: int
  fdn_filesystem :: "filesystem option"
  fdn_private :: u32
  fdn_disk :: disk_ref

record filestate = fatstate +
  fs_name :: "u8 list" \<comment> \<open>\<open>fat16_fs.name\<close>, 20 bytes\<close>
  filesystems :: "filesystem option list"
  file_descriptors :: "u32 list"
  fds :: "u32 \<Rightarrow> file_descriptor option"

text \<open>The function table \<open>fat16_fs\<close>; calling through a NULL table is a NULL dereference.\<close>

definition fs_resolve_fn :: "filesystem \<Rightarrow> 'a fatstate_scheme \<Rightarrow> (int \<times> 'a fatstate_scheme) res" where
  "fs_resolve_fn fs = (case fs of Fat16_fs \<Rightarrow> fat16_resolve)"

definition fs_open_fn ::
  "filesystem option \<Rightarrow> 'a fatstate_scheme \<Rightarrow> u32 \<Rightarrow> u32 \<Rightarrow> (u32 \<times> 'a fatstate_scheme) res" where
  "fs_open_fn fs s path mode =
     (case fs of None \<Rightarrow> Inl NullDeref | Some Fat16_fs \<Rightarrow> fat16_open s path mode)"

definition fs_read_fn ::
  "filesystem option \<Rightarrow> 'a fatstate_scheme \<Rightarrow> u32 \<Rightarrow> u32 \<Rightarrow> u32 \<Rightarrow> (int \<times> u8 list \<times> 'a fatstate_scheme) res" where
  "fs_read_fn fs s private sz nmemb =
     (case fs of None \<Rightarrow> Inl NullDeref | Some Fat16_fs \<Rightarrow> fat16_read s private sz nmemb)"

definition fs_seek_fn ::
  "filesystem option \<Rightarrow> 'a fatstate_scheme \<Rightarrow> u32 \<Rightarrow> u32 \<Rightarrow> u32 \<Rightarrow> (int \<times> 'a fatstate_scheme) res" where
  "fs_seek_fn fs s private offset seek_mode =
     (case fs of None \<Rightarrow> Inl NullDeref | Some Fat16_fs \<Rightarrow> fat16_seek s private offset seek_mode)"

definition fs_stat_fn ::
  "filesystem option \<Rightarrow> 'a fatstate_scheme \<Rightarrow> u32 \<Rightarrow> (int \<times> file_stat option) res" where
  "fs_stat_fn fs s private =
     (case fs of None \<Rightarrow> Inl NullDeref | Some Fat16_fs \<Rightarrow> fat16_stat s private)"

definition fs_close_fn ::
  "filesystem option \<Rightarrow> 'a fatstate_scheme \<Rightarrow> u32 \<Rightarrow> (int \<times> 'a fatstate_scheme) res" where
  "fs_close_fn fs s private =
     (case fs of None \<Rightarrow> Inl NullDeref | Some Fat16_fs \<Rightarrow> fat16_close s private)"

subsection \<open>Registering file systems\<close>

definition fat16_init :: "'a filestate_scheme \<Rightarrow> (filesystem option \<times> 'a filestate_scheme) res" where
  "fat16_init s = bind_res (strcpy (fs_name s) 0 (c_literal ''FAT16'')) (\<lambda>b. Inr (Some Fat16_fs, s\<lparr>fs_name := b\<rparr>))"

definition fs_get_free_filesystem :: "'a filestate_scheme \<Rightarrow> nat option" where
  "fs_get_free_filesystem s = free_slot_loop (\<lambda>f. f = None) (filesystems s) 0"

definition fs_insert_filesystem ::
  "'a filestate_scheme \<Rightarrow> filesystem option \<Rightarrow> 'a filestate_scheme res" where
  "fs_insert_filesystem s filesystem =
     (case fs_get_free_filesystem s of
        None \<Rightarrow> bind_res (print (c_literal ''Problem inserting filesystem'') s) (\<lambda>s. Inl Hang)
      | Some i \<Rightarrow> Inr (s\<lparr>filesystems := (filesystems s)[i := filesystem]\<rparr>))"

definition fs_static_load :: "'a filestate_scheme \<Rightarrow> 'a filestate_scheme res" where
  "fs_static_load s = bind_res (fat16_init s) (\<lambda>(fs, s). fs_insert_filesystem s fs)"

definition fs_load :: "'a filestate_scheme \<Rightarrow> 'a filestate_scheme res" where
  "fs_load s = fs_static_load (s\<lparr>filesystems := replicate MARROWOS_MAX_FILESYSTEMS None\<rparr>)"

definition fs_init :: "'a filestate_scheme \<Rightarrow> 'a filestate_scheme res" where
  "fs_init s = fs_load (s\<lparr>file_descriptors := replicate MARROWOS_MAX_FILE_DESCRIPTORS 0\<rparr>)"

fun fs_resolve_loop :: "'a filestate_scheme \<Rightarrow> nat \<Rightarrow> nat \<Rightarrow> (filesystem option \<times> 'a filestate_scheme) res" where
  "fs_resolve_loop s i 0 = Inr (None, s)"
| "fs_resolve_loop s i (Suc n) =
     bind_res (list_get (filesystems s) (int i)) (\<lambda>fs.
       case fs of
         None \<Rightarrow> fs_resolve_loop s (Suc i) n
       | Some f \<Rightarrow> bind_res (fs_resolve_fn f s) (\<lambda>(r, s).
           if r = 0 then Inr (Some f, s) else fs_resolve_loop s (Suc i) n))"

text \<open>\<open>fs_resolve(&disk)\<close>\<close>

definition fs_resolve :: "'a filestate_scheme \<Rightarrow> (filesystem option \<times> 'a filestate_scheme) res" where
  "fs_resolve s = fs_resolve_loop s 0 MARROWOS_MAX_FILESYSTEMS"

definition disk_search_and_init :: "'a filestate_scheme \<Rightarrow> 'a filestate_scheme res" where
  "disk_search_and_init s =
     (let s = s\<lparr>kdisk := \<lparr>dk_type = MARROWOS_DISK_TYPE_REAL, sector_size = MARROWOS_SECTOR_SIZE, dk_id = 0,
                dk_filesystem = None, fs_private = 0\<rparr>\<rparr>
      in bind_res (fs_resolve s) (\<lambda>(fs, s).
           Inr (s\<lparr>kdisk := (kdisk s)\<lparr>dk_filesystem := fs, dk_id := 0\<rparr>\<rparr>)))"

subsection \<open>Descriptors\<close>

definition file_free_descriptor :: "'a filestate_scheme \<Rightarrow> u32 \<Rightarrow> 'a filestate_scheme res" where
  "file_free_descriptor s desc =
     bind_res (obj_get (fds s) desc) (\<lambda>d.
     bind_res (list_set (file_descriptors s) (fdn_index d - 1) 0) (\<lambda>tab.
     bind_res (kfree (s\<lparr>file_descriptors := tab\<rparr>) desc) (\<lambda>s.
       Inr (s\<lparr>fds := (fds s)(desc := None)\<rparr>))))"

text \<open>The result, \<open>*desc_out\<close> (0 where it is not written) and the state.\<close>

definition file_new_descriptor :: "'a filestate_scheme \<Rightarrow> (int \<times> u32 \<times> 'a filestate_scheme) res" where
  "file_new_descriptor s =
     (case free_slot_loop (\<lambda>d. d = 0) (file_descriptors s) 0 of
        None \<Rightarrow> Inr (- ENOMEM, 0, s)
      | Some i \<Rightarrow> bind_res (kzalloc s 16) (\<lambda>(desc, s).
          if desc = 0 then Inl NullDeref
          else Inr (0, desc, s\<lparr>fds := (fds s)(desc \<mapsto> \<lparr>fdn_index = int i + 1, fdn_filesystem = None,
                 fdn_private = 0, fdn_disk = Null_disk\<rparr>),
               file_descriptors := (file_descriptors s)[i := desc]\<rparr>)))"

definition file_get_descriptor :: "'a filestate_scheme \<Rightarrow> int \<Rightarrow> u32 res" where
  "file_get_descriptor s fd =
     (if fd \<le> 0 \<or> int MARROWOS_MAX_FILE_DESCRIPTORS < fd then Inr 0 else list_get (file_descriptors s) (fd - 1))"

subsection \<open>The file interface\<close>

definition file_get_mode_by_string :: "u8 list \<Rightarrow> u32 res" where
  "file_get_mode_by_string str =
     bind_res (strncmp str (c_literal ''r'') 1) (\<lambda>r.
       if r = 0 then Inr FILE_MODE_READ
       else bind_res (strncmp str (c_literal ''w'') 1) (\<lambda>w.
         Inr (if w = 0 then FILE_MODE_WRITE else FILE_MODE_INVALID)))"

text \<open>The exit of \<open>fopen\<close> with a negative result: \<open>desc\<close> is NULL on every path to it.\<close>

definition fopen_error :: "'a filestate_scheme \<Rightarrow> u32 \<Rightarrow> disk_ref \<Rightarrow> u32 \<Rightarrow> (int \<times> 'a filestate_scheme) res" where
  "fopen_error s root_path disk private =
     bind_res (if root_path \<noteq> 0 then pathparser_free s root_path else Inr s) (\<lambda>s.
     bind_res (if disk \<noteq> Null_disk \<and> private \<noteq> 0
               then bind_res (fs_close_fn (dk_filesystem (kdisk s)) s private) (\<lambda>(r, s). Inr s)
               else Inr s) (\<lambda>s.
       Inr (0, s)))"

definition fopen :: "'a filestate_scheme \<Rightarrow> u8 list \<Rightarrow> u8 list \<Rightarrow> (int \<times> 'a filestate_scheme) res" where
  "fopen s path mode_str =
     bind_res (pathparser_parse s path) (\<lambda>(root_path, s).
       if root_path = 0 then fopen_error s root_path Null_disk 0
       else bind_res (obj_get (path_roots s) root_path) (\<lambda>root.
         if path_first root = 0 then fopen_error s root_path Null_disk 0
         else if disk_get (drive_no root) = Null_disk then fopen_error s root_path Null_disk 0
         else if dk_filesystem (kdisk s) = None then fopen_error s root_path The_disk 0
         else bind_res (file_get_mode_by_string mode_str) (\<lambda>mode.
           if mode = FILE_MODE_INVALID then fopen_error s root_path The_disk 0
           else bind_res (fs_open_fn (dk_filesystem (kdisk s)) s (path_first root) mode) (\<lambda>(private, s).
             if ISERR private then fopen_error s root_path The_disk private
             else bind_res (file_new_descriptor s) (\<lambda>(res, desc, s).
               if res < 0 then fopen_error s root_path The_disk private
               else bind_res (obj_get (fds s) desc) (\<lambda>d.
                 Inr (fdn_index d, s\<lparr>fds := (fds s)(desc \<mapsto> d\<lparr>fdn_filesystem := dk_filesystem (kdisk s),
                   fdn_private := private, fdn_disk := The_disk\<rparr>)\<rparr>)))))))"

text \<open>\<open>*stat\<close> is None where it is not written.\<close>

definition fstat :: "'a filestate_scheme \<Rightarrow> int \<Rightarrow> (int \<times> file_stat option) res" where
  "fstat s fd =
     bind_res (file_get_descriptor s fd) (\<lambda>desc.
       if desc = 0 then Inr (- EIO, None)
       else bind_res (obj_get (fds s) desc) (\<lambda>d. fs_stat_fn (fdn_filesystem d) s (fdn_private d)))"

definition fclose :: "'a filestate_scheme \<Rightarrow> int \<Rightarrow> (int \<times> 'a filestate_scheme) res" where
  "fclose s fd =
     bind_res (file_get_descriptor s fd) (\<lambda>desc.
       if desc = 0 then Inr (- EIO, s)
       else bind_res (obj_get (fds s) desc) (\<lambda>d.
         bind_res (fs_close_fn (fdn_filesystem d) s (fdn_private d)) (\<lambda>(res, s).
           if res = MARROWOS_ALL_OK
           then bind_res (file_free_descriptor s desc) (\<lambda>s. Inr (res, s))
           else Inr (res, s))))"

definition fseek :: "'a filestate_scheme \<Rightarrow> int \<Rightarrow> int \<Rightarrow> u32 \<Rightarrow> (int \<times> 'a filestate_scheme) res" where
  "fseek s fd offset whence =
     bind_res (file_get_descriptor s fd) (\<lambda>desc.
       if desc = 0 then Inr (- EIO, s)
       else bind_res (obj_get (fds s) desc) (\<lambda>d.
         fs_seek_fn (fdn_filesystem d) s (fdn_private d) (word_of_int offset) whence))"

text \<open>
  The code lets the driver write each part of the file to where it belongs in \<open>ptr\<close>; here the bytes are written together when the driver returns. That is the
  same as long as \<open>ptr\<close> hits no object the driver works on, none of which is in the byte memory.
\<close>

definition fread :: "'a filestate_scheme \<Rightarrow> u32 \<Rightarrow> u32 \<Rightarrow> u32 \<Rightarrow> int \<Rightarrow> (int \<times> 'a filestate_scheme) res" where
  "fread s ptr sz nmemb fd =
     (if sz = 0 \<or> nmemb = 0 \<or> fd < 1 then Inr (- EINVARG, s)
      else bind_res (file_get_descriptor s fd) (\<lambda>desc.
        if desc = 0 then Inr (- EINVARG, s)
        else bind_res (obj_get (fds s) desc) (\<lambda>d.
          bind_res (fs_read_fn (fdn_filesystem d) s (fdn_private d) sz nmemb) (\<lambda>(res, bs, s).
            Inr (res, s\<lparr>mem := write_bytes (mem s) ptr bs\<rparr>)))))"

end
