(* ===== verification/FileOpen.thy ===== *)
theory FileOpen
  imports File Room
begin

text \<open>
  The file interface end to end: \<open>fopen\<close> of a file of the root directory gives the lowest free descriptor, and
  \<open>fread\<close> through it puts the bytes of the file into memory. The path parser, the kernel heap, the directory search,
  the descriptor table, the cluster chain, the streams and the drive all take part.
\<close>

subsection \<open>Opening\<close>

lemma live_not_err: "kheap_inv s \<Longrightarrow> klive s p n \<Longrightarrow> \<not> ISERR p"
proof -
  assume "kheap_inv s" "klive s p n"
  from kz.live_bounds [OF this] have "unat p < 2 ^ 31" by simp
  then show "\<not> ISERR p" by (simp add: ISERR_iff)
qed

lemma moved_bits: "mounted img fp s \<Longrightarrow> hw s' = hw s \<Longrightarrow> kdisk s' = kdisk s \<Longrightarrow> streams s' = streams s \<Longrightarrow>
    fat_privs s' = fat_privs s \<Longrightarrow> mounted img fp s'"
  by (simp add: mounted_def drive_serves_def stream_pos_def)

lemma single_component: "47 \<notin> set name \<Longrightarrow> name \<noteq> [] \<Longrightarrow> path_components name = [name]"
proof -
  assume a: "47 \<notin> set name" "name \<noteq> []"
  then have tw: "takeWhile (\<lambda>x. x \<noteq> 47) name = name" by (auto simp: takeWhile_eq_all_conv)
  show ?thesis using a(2) unfolding path_components.simps [of name] Let_def tw
    by (simp add: path_components.simps [of "[]"])
qed

text \<open>The descriptor \<open>d\<close> with its item \<open>it\<close> and the copy of the entry at \<open>c\<close>.\<close>

definition open_at :: "'a fatstate_scheme \<Rightarrow> u32 \<Rightarrow> u32 \<Rightarrow> u32 \<Rightarrow> u32 \<Rightarrow> fat_directory_item \<Rightarrow> bool" where
  "open_at s d it c p item \<longleftrightarrow> fat_descs s d = Some \<lparr>fdesc_item = it, fdesc_pos = p\<rparr> \<and>
     fat_items s it = Some \<lparr>fi_ptr = c, fi_type = FAT_ITEM_TYPE_FILE\<rparr> \<and> item_arrays s c = Some [item]"

lemma open_at_file: "open_at s d it c p item \<Longrightarrow> open_file s d p item"
  by (auto simp: open_at_def open_file_def)

text \<open>Opening the path of one part \<open>name\<close>, in the root directory.\<close>

lemma fat16_open_root_file:
  fixes s :: "'a fatstate_scheme"
  assumes "kheap_inv s" "3 \<le> kavail s" "mounted img fp s"
    and "path_parts s pp = Some \<lparr>part = b, pp_next = 0\<rparr>" "kbufs s b = Some buf" "0 \<in> set buf" "length (cstring buf) \<le> 108"
    and "item_arrays s (fd_item (root_directory fp)) = Some items" "fd_total (root_directory fp) \<le> int (length items)"
    and "\<forall>item \<in> set items. item_ok item" "first_match items (nat (fd_total (root_directory fp))) buf = Some k"
    and "attribute (items ! k) AND FAT_FILE_SUBDIRECTORY = 0"
  obtains d it c s' h m ia fi fdsc where "fat16_open s pp 0 = Inr (d, s')" "d \<noteq> 0"
    "s' = s\<lparr>kheap := h, mem := m, item_arrays := ia, fat_items := fi, fat_descs := fdsc\<rparr>"
    "open_at s' d it c 0 (items ! k)" "hgrown (kheap s) (mem s) h m [d, it, c]" "ia = (item_arrays s)(c \<mapsto> [items ! k])"
proof -
  have a: "0 < kavail s" using assms(2) by simp
  obtain d h1 m1 where d: "kzalloc s 8 = Inr (d, s\<lparr>kheap := h1, mem := m1\<rparr>)" "d \<noteq> 0"
      "hgrown (kheap s) (mem s) h1 m1 [d]"
    by (rule kzalloc_grown [OF assms(1) a, of 8]) (simp, simp, rule that)
  let ?s1 = "s\<lparr>kheap := h1, mem := m1\<rparr>"
  have inv1: "kheap_inv ?s1" "2 \<le> kavail ?s1" using hgrownD(1,5) [OF d(3)] assms(2) by simp_all
  obtain it c h m where it: "fat16_new_fat_item_for_directory_item ?s1 (items ! k) = Inr (it, ?s1\<lparr>kheap := h, mem := m,
      item_arrays := (item_arrays ?s1)(c \<mapsto> [items ! k]),
      fat_items := (fat_items ?s1)(it \<mapsto> \<lparr>fi_ptr = c, fi_type = FAT_ITEM_TYPE_FILE\<rparr>)\<rparr>)"
    "it \<noteq> 0" "hgrown (kheap ?s1) (mem ?s1) h m [it, c]"
    by (rule new_file_item [OF inv1 assms(12)]) (rule that)
  have "0 < fd_total (root_directory fp)"
    using assms(11) by (cases "nat (fd_total (root_directory fp))") (auto simp: first_match_def)
  then have "fat16_find_item_in_directory ?s1 (root_directory fp) buf = fat16_new_fat_item_for_directory_item ?s1 (items ! k)"
    using find_item_loop_first [of 0 "nat (fd_total (root_directory fp))" items buf ?s1] assms(6-11)
    by (simp add: fat16_find_item_in_directory_def first_match_def)
  moreover have "get_private ?s1 = Inr fp" using assms(3) by (simp add: mounted_def)
  moreover have "part_name ?s1 pp = Inr (buf, 0)" using assms(4,5) by (simp add: part_name_def)
  ultimately have "fat16_get_directory_entry ?s1 pp = Inr (it, ?s1\<lparr>kheap := h, mem := m,
      item_arrays := (item_arrays ?s1)(c \<mapsto> [items ! k]),
      fat_items := (fat_items ?s1)(it \<mapsto> \<lparr>fi_ptr = c, fi_type = FAT_ITEM_TYPE_FILE\<rparr>)\<rparr>)"
    using it(1,2) by (simp add: fat16_get_directory_entry_def directory_entry_loop.simps)
  then have op: "fat16_open s pp 0 = Inr (d, s\<lparr>kheap := h, mem := m,
      item_arrays := (item_arrays s)(c \<mapsto> [items ! k]),
      fat_items := (fat_items s)(it \<mapsto> \<lparr>fi_ptr = c, fi_type = FAT_ITEM_TYPE_FILE\<rparr>),
      fat_descs := (fat_descs s)(d \<mapsto> \<lparr>fdesc_item = it, fdesc_pos = 0\<rparr>)\<rparr>)"
    using d(1,2) it(2) by (simp add: fat16_open_def)
  have "hgrown (kheap s) (mem s) h m ([d] @ [it, c])"
    using it(3) by (intro hgrown_trans [OF d(3)]) simp
  then have "hgrown (kheap s) (mem s) h m [d, it, c]" by simp
  from that [OF op d(2) refl _ this refl] show thesis by (simp add: open_at_def)
qed

lemma file_new_descriptor_lowest:
  fixes s :: "'a filestate_scheme"
  assumes "kheap_inv s" "0 < kavail s" "free_slot_loop (\<lambda>d. d = 0) (file_descriptors s) 0 = Some j"
  obtains desc h m where "file_new_descriptor s = Inr (0, desc, s\<lparr>kheap := h, mem := m,
      fds := (fds s)(desc \<mapsto> \<lparr>fdn_index = int j + 1, fdn_filesystem = None, fdn_private = 0, fdn_disk = Null_disk\<rparr>),
      file_descriptors := (file_descriptors s)[j := desc]\<rparr>)" "desc \<noteq> 0" "hgrown (kheap s) (mem s) h m [desc]"
proof (rule kzalloc_grown [OF assms(1,2), of 16])
  fix p h m
  assume "kzalloc s 16 = Inr (p, s\<lparr>kheap := h, mem := m\<rparr>)" "p \<noteq> 0" "hgrown (kheap s) (mem s) h m [p]"
  then show thesis by (intro that [of p m h]) (simp_all add: file_new_descriptor_def assms(3))
qed simp_all

lemma fopen_root_file:
  fixes s :: "'a filestate_scheme"
  assumes "kheap_inv s" "7 \<le> kavail s" "mounted img fp s" "dk_filesystem (kdisk s) = Some Fat16_fs"
    and "cstring path = 48 # 58 # 47 # name" "0 \<in> set path" "47 \<notin> set name" "name \<noteq> []" "length name \<le> 105"
    and "item_arrays s (fd_item (root_directory fp)) = Some items" "fd_total (root_directory fp) \<le> int (length items)"
    and "\<forall>item \<in> set items. item_ok item"
    and "first_match items (nat (fd_total (root_directory fp))) (name @ [0]) = Some k"
    and "attribute (items ! k) AND FAT_FILE_SUBDIRECTORY = 0"
    and "free_slot_loop (\<lambda>d. d = 0) (file_descriptors s) 0 = Some j"
  obtains desc d it c s' ps where "fopen s path (c_literal ''r'') = Inr (int j + 1, s')" "desc \<noteq> 0"
    "file_descriptors s' = (file_descriptors s)[j := desc]"
    "fds s' desc = Some \<lparr>fdn_index = int j + 1, fdn_filesystem = Some Fat16_fs, fdn_private = d, fdn_disk = The_disk\<rparr>"
    "open_at s' d it c 0 (items ! k)" "mounted img fp s'" "grown s s' (ps @ [d, it, c, desc])" "length ps = 3"
    "filestate.more s' = filestate.more s" "kdisk s' = kdisk s" "item_arrays s' = (item_arrays s)(c \<mapsto> [items ! k])"
proof -
  have comps: "path_components name = [name]" by (rule single_component [OF assms(7,8)])
  have dig: "isDigit 48" by (simp add: isDigit_def)
  obtain root h1 m1 kb pt nx ps1 where p: "pathparser_parse s path = Inr (root, s\<lparr>kheap := h1, mem := m1, kbufs := kb,
      path_parts := pt, path_roots := (path_roots s)(root \<mapsto> \<lparr>drive_no = tonumericdigit 48, path_first = nx\<rparr>)\<rparr>)"
    "root \<noteq> 0" "hgrown (kheap s) (mem s) h1 m1 (root # ps1)"
    "linked (s\<lparr>kheap := h1, mem := m1, kbufs := kb, path_parts := pt,
      path_roots := (path_roots s)(root \<mapsto> \<lparr>drive_no = tonumericdigit 48, path_first = nx\<rparr>)\<rparr>) nx ps1 (path_components name)"
    "length ps1 = 2 * length (path_components name)"
    by (rule parse_builds [OF assms(1) _ assms(5,6) dig assms(9)]) (use assms(2) comps in simp, simp add: comps, rule that)
  define s1 where "s1 = s\<lparr>kheap := h1, mem := m1, kbufs := kb,
      path_parts := pt, path_roots := (path_roots s)(root \<mapsto> \<lparr>drive_no = tonumericdigit 48, path_first = nx\<rparr>)\<rparr>"
  obtain a b where ps1: "ps1 = [a, b]"
    using p(5) comps by (cases ps1 rule: remdups_adj.cases) auto
  from p(4) obtain buf where nx: "nx \<noteq> 0" "pt nx = Some \<lparr>part = a, pp_next = 0\<rparr>" "kb a = Some buf" "cstring buf = name" "0 \<in> set buf"
    unfolding comps ps1 by auto
  have inv1: "kheap_inv s1" "4 \<le> kavail s1" using hgrownD(1,5) [OF p(3)] assms(2) by (simp_all add: s1_def ps1)
  have n0: "0 \<notin> set name" using cstring_no_nul [of path] unfolding assms(5) by simp
  have fm: "first_match items (nat (fd_total (root_directory fp))) buf = Some k"
    using assms(13) by (simp add: first_match_def name_matches_def nx(4) cstring_append_nul [OF n0])
  have m1: "mounted img fp s1" by (rule moved_bits [OF assms(3)]) (simp_all add: s1_def)
  have pre: "3 \<le> kavail s1" "path_parts s1 nx = Some \<lparr>part = a, pp_next = 0\<rparr>" "kbufs s1 a = Some buf"
      "length (cstring buf) \<le> 108" "item_arrays s1 (fd_item (root_directory fp)) = Some items"
    using inv1(2) nx assms(9,10) by (simp_all add: s1_def)
  obtain d it c s2 h m ia fi fdsc where o: "fat16_open s1 nx 0 = Inr (d, s2)" "d \<noteq> 0"
    "s2 = s1\<lparr>kheap := h, mem := m, item_arrays := ia, fat_items := fi, fat_descs := fdsc\<rparr>"
    "open_at s2 d it c 0 (items ! k)" "hgrown (kheap s1) (mem s1) h m [d, it, c]" "ia = (item_arrays s1)(c \<mapsto> [items ! k])"
    by (rule fat16_open_root_file [OF inv1(1) pre(1) m1 pre(2,3) nx(5) pre(4,5) assms(11,12) fm assms(14)]) (rule that)
  note g2 = o(5)
  have inv2: "kheap_inv s2" "0 < kavail s2" using hgrownD(1,5) [OF g2] inv1(2) by (simp_all add: o(3))
  have "klive s2 d 1" using hgrownD(6) [OF g2, of d 1] by (simp add: o(3))
  then have ok: "\<not> ISERR d" by (rule live_not_err [OF inv2(1)])
  have slot: "free_slot_loop (\<lambda>d. d = 0) (file_descriptors s2) 0 = Some j"
    using assms(15) by (simp add: o(3) s1_def)
  obtain desc h3 m3 where n: "file_new_descriptor s2 = Inr (0, desc, s2\<lparr>kheap := h3, mem := m3,
      fds := (fds s2)(desc \<mapsto> \<lparr>fdn_index = int j + 1, fdn_filesystem = None, fdn_private = 0, fdn_disk = Null_disk\<rparr>),
      file_descriptors := (file_descriptors s2)[j := desc]\<rparr>)" "desc \<noteq> 0" "hgrown (kheap s2) (mem s2) h3 m3 [desc]"
    by (rule file_new_descriptor_lowest [OF inv2 slot]) (rule that)
  define s3 where "s3 = s2\<lparr>kheap := h3, mem := m3,
      fds := (fds s2)(desc \<mapsto> \<lparr>fdn_index = int j + 1, fdn_filesystem = Some Fat16_fs, fdn_private = d, fdn_disk = The_disk\<rparr>),
      file_descriptors := (file_descriptors s2)[j := desc]\<rparr>"
  have mode: "file_get_mode_by_string (c_literal ''r'') = Inr 0"
    by (simp add: file_get_mode_by_string_def c_literal_def)
  have fs: "dk_filesystem (kdisk s1) = Some Fat16_fs" "dk_filesystem (kdisk s2) = Some Fat16_fs"
    using assms(4) by (simp_all add: o(3) s1_def)
  have root: "path_roots s1 root = Some \<lparr>drive_no = 0, path_first = nx\<rparr>"
    by (simp add: s1_def tonumericdigit_def)
  have g12: "hgrown (kheap s) (mem s) h m ((root # ps1) @ [d, it, c])"
    using g2 by (intro hgrown_trans [OF p(3)]) (simp add: s1_def)
  have "fopen s path (c_literal ''r'') = Inr (int j + 1, s3)"
    using p(1,2) nx(1) o(1) n(1) ok
    by (simp add: fopen_def s1_def [symmetric] root disk_get_def fs mode fs_open_fn_def s3_def)
  moreover have "open_at s3 d it c 0 (items ! k)" using o(4) by (simp add: open_at_def s3_def)
  moreover have "mounted img fp s3" by (rule moved_bits [OF m1]) (simp_all add: s3_def o(3))
  moreover have "grown s s3 (((root # ps1) @ [d, it, c]) @ [desc])"
    using hgrown_trans [OF g12, of h3 m3 "[desc]"] n(3) by (simp add: o(3) s3_def)
  ultimately show thesis using n(2)
    by (intro that [of s3 desc d it c "root # ps1"]) (simp_all add: s3_def o(3,6) s1_def ps1)
qed

subsection \<open>Opening and reading\<close>

text \<open>\<open>root_holds s fp name item\<close>: the loaded root directory has the file \<open>item\<close> under \<open>name\<close>.
  \<open>clusters_ok img fp c n\<close>: the chain from \<open>c\<close> reaches over \<open>n\<close> bytes.\<close>

definition root_holds :: "'a fatstate_scheme \<Rightarrow> fat_private \<Rightarrow> u8 list \<Rightarrow> fat_directory_item \<Rightarrow> bool" where
  "root_holds s fp name item \<longleftrightarrow> (\<exists>items k. item_arrays s (fd_item (root_directory fp)) = Some items \<and>
     fd_total (root_directory fp) \<le> int (length items) \<and> (\<forall>item \<in> set items. item_ok item) \<and>
     first_match items (nat (fd_total (root_directory fp))) (name @ [0]) = Some k \<and> items ! k = item \<and>
     attribute item AND FAT_FILE_SUBDIRECTORY = 0)"

definition clusters_ok :: "(nat \<Rightarrow> u8) \<Rightarrow> fat_private \<Rightarrow> nat \<Rightarrow> nat \<Rightarrow> bool" where
  "clusters_ok img fp c n \<longleftrightarrow> c < 65536 \<and> (\<forall>i. i * cluster_size fp < n \<longrightarrow>
     (\<exists>d. chain img fp c i = Some d \<and> 2 \<le> d \<and> cluster_pos fp d + 2 * cluster_size fp < 2147483648))"

text \<open>Reading from the start of an open file.\<close>

lemma fread_open:
  fixes s :: "'a filestate_scheme"
  assumes "mounted img fp s" "open_at s d it c 0 item" "desc \<noteq> 0" "length (file_descriptors s) = 512" "j < 512"
    and "file_descriptors s ! j = desc"
    and "fds s desc = Some \<lparr>fdn_index = int j + 1, fdn_filesystem = Some Fat16_fs, fdn_private = d, fdn_disk = The_disk\<rparr>"
    and "unat (fat16_get_first_cluster item) = c0" "0 < n" "n < 2147483648" "clusters_ok img fp c0 n"
  obtains tr sm fdsc where "fread s ptr (of_nat n) 1 (int j + 1) = Inr (1, s\<lparr>port_trace := tr, streams := sm, fat_descs := fdsc,
      mem := write_bytes (mem s) ptr (map (file_byte img fp c0) [0..<n])\<rparr>)"
    "open_at (s\<lparr>fat_descs := fdsc\<rparr>) d it c (of_nat n) item" "mounted img fp (s\<lparr>port_trace := tr, streams := sm\<rparr>)"
proof -
  obtain s' where rd: "fat16_read s d (of_nat n) 1 = Inr (1, map (file_byte img fp c0) [0..<n], set_pos s' d (of_nat n))"
      "stream_moved s s'"
    using read_follows_chain [OF assms(1) open_at_file [OF assms(2)] assms(8), of n 0] assms(9-11) unfolding clusters_ok_def by auto
  obtain tr sm where mv: "s' = s\<lparr>port_trace := tr, streams := sm\<rparr>" using rd(2) by (rule stream_movedE) blast
  have "unat (of_nat n :: u32) = n" using assms(10) by (intro unat_of_nat_u32) simp
  then have "(of_nat n :: u32) \<noteq> 0" using assms(9) by (metis neq0_conv unat_0)
  then have "fread s ptr (of_nat n) 1 (int j + 1) = Inr (1, (set_pos s' d (of_nat n))
      \<lparr>mem := write_bytes (mem (set_pos s' d (of_nat n))) ptr (map (file_byte img fp c0) [0..<n])\<rparr>)"
    using assms(3-7) rd(1) by (simp add: fread_def file_get_descriptor_def list_get_def fs_read_fn_def)
  moreover have "mounted img fp s'" using mounted_moved [OF assms(1) rd(2)] .
  ultimately show thesis using assms(2)
    by (intro that [where fdsc = "(fat_descs s)(d := map_option (\<lambda>x. x\<lparr>fdesc_pos := of_nat n\<rparr>) (fat_descs s d))"])
      (simp_all add: mv set_pos_def open_at_def)
qed

lemma fstat_open:
  fixes s :: "'a filestate_scheme"
  assumes "open_at s d it c p item" "desc \<noteq> 0" "length (file_descriptors s) = 512" "j < 512" "file_descriptors s ! j = desc"
    and "fds s desc = Some \<lparr>fdn_index = int j + 1, fdn_filesystem = Some Fat16_fs, fdn_private = d, fdn_disk = The_disk\<rparr>"
  obtains st where "fstat s (int j + 1) = Inr (0, Some st)" "stat_filesize st = filesize item"
  using assms by (simp add: fstat_def file_get_descriptor_def list_get_def fs_stat_fn_def fat16_stat_def open_at_def)

text \<open>C3: \<open>fopen\<close> of a file of the root directory returns the lowest free descriptor, and \<open>fread\<close> of \<open>n\<close> bytes through it answers 1 and
  puts the first \<open>n\<close> bytes of the file, along its cluster chain, at \<open>ptr\<close>.\<close>

theorem fopen_fread_contents:
  fixes s :: "'a filestate_scheme"
  assumes "kheap_inv s" "7 \<le> kavail s" "mounted img fp s" "dk_filesystem (kdisk s) = Some Fat16_fs"
    and "cstring path = 48 # 58 # 47 # name" "0 \<in> set path" "47 \<notin> set name" "name \<noteq> []" "length name \<le> 105"
    and "root_holds s fp name item" "unat (fat16_get_first_cluster item) = c0"
    and "length (file_descriptors s) = 512" "j < 512" "file_descriptors s ! j = 0" "\<forall>i < j. file_descriptors s ! i \<noteq> 0"
    and "0 < n" "n < 2147483648" "clusters_ok img fp c0 n"
  shows "\<exists>s1 s2. fopen s path (c_literal ''r'') = Inr (int j + 1, s1) \<and>
    fread s1 ptr (of_nat n) 1 (int j + 1) = Inr (1, s2) \<and>
    read_bytes (mem s2) ptr n = map (file_byte img fp c0) [0..<n]"
proof -
  obtain items k where it: "item_arrays s (fd_item (root_directory fp)) = Some items"
      "fd_total (root_directory fp) \<le> int (length items)" "\<forall>item \<in> set items. item_ok item"
      "first_match items (nat (fd_total (root_directory fp))) (name @ [0]) = Some k" "items ! k = item"
      "attribute (items ! k) AND FAT_FILE_SUBDIRECTORY = 0"
    using assms(10) unfolding root_holds_def by blast
  have slot: "free_slot_loop (\<lambda>d. d = 0) (file_descriptors s) 0 = Some j"
    using free_slot_loop_first [of j "file_descriptors s" "\<lambda>d. d = 0" 0] assms(12-15) by simp
  obtain desc d it' c s1 ps where o: "fopen s path (c_literal ''r'') = Inr (int j + 1, s1)" "desc \<noteq> 0"
    "file_descriptors s1 = (file_descriptors s)[j := desc]"
    "fds s1 desc = Some \<lparr>fdn_index = int j + 1, fdn_filesystem = Some Fat16_fs, fdn_private = d, fdn_disk = The_disk\<rparr>"
    "open_at s1 d it' c 0 (items ! k)" "mounted img fp s1"
    by (rule fopen_root_file [OF assms(1-9) it(1-4,6) slot]) (rule that)
  have fd: "length (file_descriptors s1) = 512" "file_descriptors s1 ! j = desc" using o(3) assms(12,13) by simp_all
  obtain tr sm fdsc where "fread s1 ptr (of_nat n) 1 (int j + 1) = Inr (1, s1\<lparr>port_trace := tr, streams := sm, fat_descs := fdsc,
      mem := write_bytes (mem s1) ptr (map (file_byte img fp c0) [0..<n])\<rparr>)"
    by (rule fread_open [OF o(6) o(5) [unfolded it(5)] o(2) fd(1) assms(13) fd(2) o(4) assms(11,16-18)]) (rule that)
  moreover have "read_bytes (write_bytes m ptr (map (file_byte img fp c0) [0..<n])) ptr n = map (file_byte img fp c0) [0..<n]" for m
    using read_write_bytes [of "map (file_byte img fp c0) [0..<n]" m ptr] assms(17) by simp
  ultimately show ?thesis using o(1) by auto
qed

text \<open>Closing frees the descriptors, the item and its entry.\<close>

lemma fclose_open:
  fixes s :: "'a filestate_scheme"
  assumes "file_descriptors s ! j = desc" "j < 512" "length (file_descriptors s) = 512" "desc \<noteq> 0"
    and "fds s desc = Some \<lparr>fdn_index = int j + 1, fdn_filesystem = Some Fat16_fs, fdn_private = d, fdn_disk = The_disk\<rparr>"
    and "open_at s d it c p item" "hadds h0 m0 (kheap s) (mem s) (xs @ [(d, 1), (it, 1), (c, 1), (desc, 1)])"
  obtains h ia fi fdsc fd where "fclose s (int j + 1) = Inr (0, s\<lparr>kheap := h, item_arrays := ia, fat_items := fi, fat_descs := fdsc,
      file_descriptors := (file_descriptors s)[j := 0], fds := fd\<rparr>)" "hadds h0 m0 h (mem s) xs" "ia = (item_arrays s)(c := None)"
proof -
  note op = assms(6) [unfolded open_at_def]
  have "hadds h0 m0 (kheap s) (mem s) ((xs @ [(d, 1), (it, 1)]) @ (c, 1) # [(desc, 1)])" using assms(7) by simp
  then obtain h1 where c: "kfree s c = Inr (s\<lparr>kheap := h1\<rparr>)" "hadds h0 m0 h1 (mem s) ((xs @ [(d, 1), (it, 1)]) @ [(desc, 1)])"
    by (rule kfree_adds)
  let ?s1 = "s\<lparr>kheap := h1, item_arrays := (item_arrays s)(c := None)\<rparr>"
  have "hadds h0 m0 (kheap ?s1) (mem ?s1) ((xs @ [(d, 1)]) @ (it, 1) # [(desc, 1)])" using c(2) by simp
  then obtain h2 where it: "kfree ?s1 it = Inr (?s1\<lparr>kheap := h2\<rparr>)" "hadds h0 m0 h2 (mem ?s1) ((xs @ [(d, 1)]) @ [(desc, 1)])"
    by (rule kfree_adds)
  let ?s2 = "s\<lparr>item_arrays := (item_arrays s)(c := None), kheap := h2, fat_items := (fat_items s)(it := None)\<rparr>"
  have "hadds h0 m0 (kheap ?s2) (mem ?s2) (xs @ (d, 1) # [(desc, 1)])" using it(2) by simp
  then obtain h3 where d: "kfree ?s2 d = Inr (?s2\<lparr>kheap := h3\<rparr>)" "hadds h0 m0 h3 (mem ?s2) (xs @ [(desc, 1)])"
    by (rule kfree_adds)
  let ?s3 = "s\<lparr>item_arrays := (item_arrays s)(c := None), fat_items := (fat_items s)(it := None), kheap := h3,
      fat_descs := (fat_descs s)(d := None)\<rparr>"
  have close: "fat16_close s d = Inr (0, ?s3)"
    using op c(1) it(1) d(1) by (simp add: fat16_close_def fat16_fat_item_free_def)
  let ?s4 = "?s3\<lparr>file_descriptors := (file_descriptors s)[j := 0]\<rparr>"
  have "hadds h0 m0 (kheap ?s4) (mem ?s4) (xs @ (desc, 1) # [])" using d(2) by simp
  then obtain h4 where f: "kfree ?s4 desc = Inr (?s4\<lparr>kheap := h4\<rparr>)" "hadds h0 m0 h4 (mem ?s4) (xs @ [])"
    by (rule kfree_adds)
  have "fclose s (int j + 1) = Inr (0, ?s4\<lparr>kheap := h4, fds := (fds s)(desc := None)\<rparr>)"
    using assms(1-5) close f(1)
    by (simp add: fclose_def file_get_descriptor_def list_get_def fs_close_fn_def file_free_descriptor_def list_set_def)
  with f(2) show thesis
    by (intro that [where h = h4 and ia = "(item_arrays s)(c := None)" and fi = "(fat_items s)(it := None)"
          and fdsc = "(fat_descs s)(d := None)" and fd = "(fds s)(desc := None)"]) simp_all
qed

text \<open>C23: \<open>fclose\<close> of what \<open>fopen\<close> returned gives the descriptor slot back, and exactly three pages of the heap stay taken: as many as
  the parsed path of a root-directory file has (its root, its part and the name), which \<open>fopen\<close> frees on its error path only.\<close>

theorem fopen_fclose_leaks_path:
  fixes s :: "'a filestate_scheme"
  assumes "kheap_inv s" "7 \<le> kavail s" "mounted img fp s" "dk_filesystem (kdisk s) = Some Fat16_fs"
    and "cstring path = 48 # 58 # 47 # name" "0 \<in> set path" "47 \<notin> set name" "name \<noteq> []" "length name \<le> 105"
    and "root_holds s fp name item"
    and "length (file_descriptors s) = 512" "j < 512" "file_descriptors s ! j = 0" "\<forall>i < j. file_descriptors s ! i \<noteq> 0"
  shows "\<exists>s1 s2 ps. fopen s path (c_literal ''r'') = Inr (int j + 1, s1) \<and> fclose s1 (int j + 1) = Inr (0, s2) \<and>
    file_descriptors s2 = file_descriptors s \<and> grown s s2 ps \<and> length ps = 3 \<and> kavail s2 + 3 = kavail s"
proof -
  obtain items k where it: "item_arrays s (fd_item (root_directory fp)) = Some items"
      "fd_total (root_directory fp) \<le> int (length items)" "\<forall>item \<in> set items. item_ok item"
      "first_match items (nat (fd_total (root_directory fp))) (name @ [0]) = Some k"
      "attribute (items ! k) AND FAT_FILE_SUBDIRECTORY = 0"
    using assms(10) unfolding root_holds_def by blast
  have slot: "free_slot_loop (\<lambda>d. d = 0) (file_descriptors s) 0 = Some j"
    using free_slot_loop_first [of j "file_descriptors s" "\<lambda>d. d = 0" 0] assms(11-14) by simp
  obtain desc d it' c s1 ps where o: "fopen s path (c_literal ''r'') = Inr (int j + 1, s1)" "desc \<noteq> 0"
    "file_descriptors s1 = (file_descriptors s)[j := desc]"
    "fds s1 desc = Some \<lparr>fdn_index = int j + 1, fdn_filesystem = Some Fat16_fs, fdn_private = d, fdn_disk = The_disk\<rparr>"
    "open_at s1 d it' c 0 (items ! k)" "grown s s1 (ps @ [d, it', c, desc])" "length ps = 3"
    by (rule fopen_root_file [OF assms(1-9) it slot]) (rule that)
  have "file_descriptors s1 ! j = desc" "length (file_descriptors s1) = 512"
    using o(3) assms(11,12) by simp_all
  from this(1) assms(12) this(2) o(2,4,5) obtain h ia fi fdsc fd where
    s2: "fclose s1 (int j + 1) = Inr (0, s1\<lparr>kheap := h, item_arrays := ia, fat_items := fi, fat_descs := fdsc,
      file_descriptors := (file_descriptors s1)[j := 0], fds := fd\<rparr>)" "hadds (kheap s) (mem s) h (mem s1) (map (\<lambda>p. (p, 1)) ps)"
    by (rule fclose_open) (use hgrown_hadds [OF o(6)] in simp, rule that, simp_all)
  let ?s2 = "s1\<lparr>kheap := h, item_arrays := ia, fat_items := fi, fat_descs := fdsc, file_descriptors := (file_descriptors s1)[j := 0], fds := fd\<rparr>"
  have g: "grown s ?s2 ps" using hadds_hgrown [OF s2(2)] by simp
  have "(file_descriptors s)[j := 0] = file_descriptors s" using assms(13) by (metis list_update_id)
  then have "file_descriptors ?s2 = file_descriptors s" using o(3) by simp
  moreover have "kavail ?s2 + 3 = kavail s" using hgrownD(5) [OF g] o(7) by simp
  ultimately show ?thesis using o(1,7) s2(1) g by blast
qed

definition example_file_state :: filestate where
  "example_file_state = fatstate.extend (example_fat_state 0)
     (filestate.fields (replicate 20 0) (Some Fat16_fs # replicate 11 None) (0x01008000 # replicate 511 0)
       [0x01008000 \<mapsto> \<lparr>fdn_index = 1, fdn_filesystem = Some Fat16_fs, fdn_private = 0x01007000, fdn_disk = The_disk\<rparr>])"

lemma example_file_facts:
  "kheap_inv example_file_state" "kavail example_file_state = 25600"
  "mounted example_image example_private example_file_state"
  "dk_filesystem (kdisk example_file_state) = Some Fat16_fs"
  "root_holds example_file_state example_private (map of_char ''big.bin'') example_item"
  "file_descriptors example_file_state = 0x01008000 # replicate 511 0"
proof -
  show "mounted example_image example_private example_file_state"
    by (rule moved_bits [OF example_mounted [of 0]])
      (simp_all add: example_file_state_def fatstate.extend_def example_fat_state_def)
  show "root_holds example_file_state example_private (map of_char ''big.bin'') example_item"
    by (simp add: root_holds_def first_match_def item_ok_def name_matches_def dos_name_def tolower_def byte_at_def
      example_file_state_def fatstate.extend_def example_fat_state_def example_private_def example_item_def item_of_bytes_def)
qed (use kernel_fresh_heap_facts in \<open>simp_all add: example_file_state_def fatstate.extend_def filestate.fields_def
    example_fat_state_def\<close>)

lemma example_clusters: "clusters_ok example_image example_private 2 1024"
  unfolding clusters_ok_def
proof (intro conjI allI impI)
  fix i assume "i * cluster_size example_private < 1024"
  then have "i = 0 \<or> i = Suc 0" by (auto simp: example_cluster_size)
  then show "\<exists>d. chain example_image example_private 2 i = Some d \<and> 2 \<le> d \<and>
      cluster_pos example_private d + 2 * cluster_size example_private < 2147483648"
    using example_chain by (auto simp: example_cluster_size)
qed simp

lemma fopen_fread_contents_witness:
  "\<exists>s1 s2. fopen example_file_state (c_literal ''0:/big.bin'') (c_literal ''r'') = Inr (2, s1) \<and>
     fread s1 0x01009000 1024 1 2 = Inr (1, s2) \<and> read_bytes (mem s2) 0x01009000 1024 ! 512 = 0xBB"
proof -
  note f = example_file_facts
  have "file_byte example_image example_private 2 512 = 0xBB"
    using example_chain by (simp add: file_byte_def example_cluster_size) (simp add: example_image_def)
  moreover have "\<exists>s1 s2. fopen example_file_state (c_literal ''0:/big.bin'') (c_literal ''r'') = Inr (int 1 + 1, s1) \<and>
     fread s1 0x01009000 (of_nat 1024) 1 (int 1 + 1) = Inr (1, s2) \<and>
     read_bytes (mem s2) 0x01009000 1024 = map (file_byte example_image example_private 2) [0..<1024]"
    by (rule fopen_fread_contents [OF f(1) _ f(3,4) _ _ _ _ _ f(5) example_first_cluster _ _ _ _ _ _ example_clusters])
      (simp_all add: f(2,6) c_literal_def)
  ultimately show ?thesis by auto
qed

lemma fopen_fclose_leaks_path_witness:
  "\<exists>s1 s2. fopen example_file_state (c_literal ''0:/big.bin'') (c_literal ''r'') = Inr (2, s1) \<and>
     fclose s1 2 = Inr (0, s2) \<and> kavail s2 = 25597"
proof -
  note f = example_file_facts
  have "\<exists>s1 s2 ps. fopen example_file_state (c_literal ''0:/big.bin'') (c_literal ''r'') = Inr (int 1 + 1, s1) \<and>
     fclose s1 (int 1 + 1) = Inr (0, s2) \<and> file_descriptors s2 = file_descriptors example_file_state \<and>
     grown example_file_state s2 ps \<and> length ps = 3 \<and> kavail s2 + 3 = kavail example_file_state"
    by (rule fopen_fclose_leaks_path [OF f(1) _ f(3,4) _ _ _ _ _ f(5)]) (simp_all add: f(2,6) c_literal_def)
  then show ?thesis using f(2) by auto
qed

end
