(* ===== verification/Elf.thy ===== *)
theory Elf
  imports FileOpen
begin

text \<open>
  The ELF loader of src/loader/formats. The image of a loaded file lies in the byte memory; its headers are decoded from there at every
  access, so a pointer to a header is its address. \<open>struct elf_file\<close> objects live in \<open>elf_files\<close>. \<open>kfree\<close> leaves the bytes of
  a block as they are, and \<open>elf_load\<close> reads its \<open>struct elf_file\<close> after freeing it: \<open>elf_files\<close> keeps a freed object.
\<close>

subsection \<open>On-disk data (elf.h)\<close>

record elf32_phdr =
  p_type :: u32
  p_offset :: u32
  p_vaddr :: u32
  p_paddr :: u32
  p_filesz :: u32
  p_memsz :: u32
  p_flags :: u32
  p_align :: u32

record elf32_shdr =
  sh_name :: u32
  sh_type :: u32
  sh_flags :: u32
  sh_addr :: u32
  sh_offset :: u32
  sh_size :: u32
  sh_link :: u32
  sh_info :: u32
  sh_addralign :: u32
  sh_entsize :: u32

record elf_hdr =
  e_ident :: "u8 list"
  e_type :: u16
  e_machine :: u16
  e_version :: u32
  e_entry :: u32
  e_phoff :: u32
  e_shoff :: u32
  e_flags :: u32
  e_ehsize :: u16
  e_phentsize :: u16
  e_phnum :: u16
  e_shentsize :: u16
  e_shnum :: u16
  e_shstrndx :: u16

definition phdr_at :: "memory \<Rightarrow> u32 \<Rightarrow> elf32_phdr" where
  "phdr_at m a = (let bs = read_bytes m a 32 in
     \<lparr>p_type = le32 bs 0, p_offset = le32 bs 4, p_vaddr = le32 bs 8, p_paddr = le32 bs 12,
      p_filesz = le32 bs 16, p_memsz = le32 bs 20, p_flags = le32 bs 24, p_align = le32 bs 28\<rparr>)"

definition shdr_at :: "memory \<Rightarrow> u32 \<Rightarrow> elf32_shdr" where
  "shdr_at m a = (let bs = read_bytes m a 40 in
     \<lparr>sh_name = le32 bs 0, sh_type = le32 bs 4, sh_flags = le32 bs 8, sh_addr = le32 bs 12, sh_offset = le32 bs 16,
      sh_size = le32 bs 20, sh_link = le32 bs 24, sh_info = le32 bs 28, sh_addralign = le32 bs 32, sh_entsize = le32 bs 36\<rparr>)"

definition hdr_at :: "memory \<Rightarrow> u32 \<Rightarrow> elf_hdr" where
  "hdr_at m a = (let bs = read_bytes m a 52 in
     \<lparr>e_ident = bytes_at bs 0 16, e_type = le16 bs 16, e_machine = le16 bs 18, e_version = le32 bs 20,
      e_entry = le32 bs 24, e_phoff = le32 bs 28, e_shoff = le32 bs 32, e_flags = le32 bs 36,
      e_ehsize = le16 bs 40, e_phentsize = le16 bs 42, e_phnum = le16 bs 44, e_shentsize = le16 bs 46,
      e_shnum = le16 bs 48, e_shstrndx = le16 bs 50\<rparr>)"

abbreviation (input) PF_W :: u32 where "PF_W \<equiv> 2"
abbreviation (input) PT_LOAD :: u32 where "PT_LOAD \<equiv> 1"
abbreviation (input) ET_EXEC :: u16 where "ET_EXEC \<equiv> 2"
abbreviation (input) MARROWOS_PROGRAM_VIRTUAL_ADDRESS :: u32 where "MARROWOS_PROGRAM_VIRTUAL_ADDRESS \<equiv> 0x400000"

definition elf_get_entry_ptr :: "memory \<Rightarrow> u32 \<Rightarrow> u32" where
  "elf_get_entry_ptr m hdr = e_entry (hdr_at m hdr)"

definition elf_get_entry :: "memory \<Rightarrow> u32 \<Rightarrow> u32" where
  "elf_get_entry m hdr = e_entry (hdr_at m hdr)"

subsection \<open>A loaded file (elfloader.h)\<close>

record elf_file =
  ef_filename :: "u8 list"
  in_memory_size :: int
  ef_memory :: u32
  virtual_base_address :: u32
  virtual_end_address :: u32
  physical_base_address :: u32
  physical_end_address :: u32

record elfstate = filestate +
  elf_files :: "u32 \<Rightarrow> elf_file option"

definition elf_valid_signature :: "memory \<Rightarrow> u32 \<Rightarrow> bool res" where
  "elf_valid_signature m buffer = bind_res (memcmp (read_bytes m buffer 4) [0x7f, 69, 76, 70] 4) (\<lambda>r. Inr (r = 0))"

definition elf_valid_class :: "elf_hdr \<Rightarrow> bool" where
  "elf_valid_class h \<longleftrightarrow> e_ident h ! 4 = 0 \<or> e_ident h ! 4 = 1"

definition elf_valid_encoding :: "elf_hdr \<Rightarrow> bool" where
  "elf_valid_encoding h \<longleftrightarrow> e_ident h ! 5 = 0 \<or> e_ident h ! 5 = 1"

definition elf_is_executable :: "elf_hdr \<Rightarrow> bool" where
  "elf_is_executable h \<longleftrightarrow> e_type h = ET_EXEC \<and> MARROWOS_PROGRAM_VIRTUAL_ADDRESS \<le> e_entry h"

definition elf_has_program_header :: "elf_hdr \<Rightarrow> bool" where
  "elf_has_program_header h \<longleftrightarrow> e_phoff h \<noteq> 0"

definition elf_memory :: "elf_file \<Rightarrow> u32" where "elf_memory f = ef_memory f"

definition elf_header :: "elf_file \<Rightarrow> u32" where "elf_header f = ef_memory f"

definition elf_sheader :: "memory \<Rightarrow> u32 \<Rightarrow> u32" where
  "elf_sheader m hdr = hdr + e_shoff (hdr_at m hdr)"

definition elf_pheader :: "memory \<Rightarrow> u32 \<Rightarrow> u32" where
  "elf_pheader m hdr = (if e_phoff (hdr_at m hdr) = 0 then 0 else hdr + e_phoff (hdr_at m hdr))"

definition elf_program_header :: "memory \<Rightarrow> u32 \<Rightarrow> int \<Rightarrow> u32" where
  "elf_program_header m hdr index = elf_pheader m hdr + 32 * word_of_int index"

definition elf_section :: "memory \<Rightarrow> u32 \<Rightarrow> int \<Rightarrow> u32" where
  "elf_section m hdr index = elf_sheader m hdr + 40 * word_of_int index"

definition elf_phdr_phys_address :: "elf_file \<Rightarrow> elf32_phdr \<Rightarrow> u32" where
  "elf_phdr_phys_address f phdr = elf_memory f + p_offset phdr"

definition elf_str_table :: "memory \<Rightarrow> u32 \<Rightarrow> u32" where
  "elf_str_table m hdr =
     hdr + sh_offset (shdr_at m (elf_section m hdr (uint (e_shstrndx (hdr_at m hdr)))))"

definition elf_virtual_base :: "elf_file \<Rightarrow> u32" where "elf_virtual_base f = virtual_base_address f"
definition elf_virtual_end :: "elf_file \<Rightarrow> u32" where "elf_virtual_end f = virtual_end_address f"
definition elf_phys_base :: "elf_file \<Rightarrow> u32" where "elf_phys_base f = physical_base_address f"
definition elf_phys_end :: "elf_file \<Rightarrow> u32" where "elf_phys_end f = physical_end_address f"

definition elf_validate_loaded :: "memory \<Rightarrow> u32 \<Rightarrow> int res" where
  "elf_validate_loaded m hdr =
     bind_res (elf_valid_signature m hdr) (\<lambda>sig.
       let h = hdr_at m hdr
       in Inr (if sig \<and> elf_valid_class h \<and> elf_valid_encoding h \<and> elf_has_program_header h \<and> elf_is_executable h
               then MARROWOS_ALL_OK else - EINFORMAT))"

definition elf_process_phdr_pt_load :: "elf_file \<Rightarrow> elf32_phdr \<Rightarrow> int \<times> elf_file" where
  "elf_process_phdr_pt_load f phdr =
     (let f = (if p_vaddr phdr \<le> virtual_base_address f \<or> virtual_base_address f = 0
               then f\<lparr>virtual_base_address := p_vaddr phdr, physical_base_address := elf_memory f + p_offset phdr\<rparr>
               else f);
          end_virtual_address = p_vaddr phdr + p_filesz phdr;
          f = (if virtual_end_address f \<le> end_virtual_address \<or> virtual_end_address f = 0
               then f\<lparr>virtual_end_address := end_virtual_address,
                      physical_end_address := elf_memory f + p_offset phdr + p_filesz phdr\<rparr>
               else f)
      in (0, f))"

definition elf_process_pheader :: "elf_file \<Rightarrow> elf32_phdr \<Rightarrow> int \<times> elf_file" where
  "elf_process_pheader f phdr = (if p_type phdr = PT_LOAD then elf_process_phdr_pt_load f phdr else (0, f))"

text \<open>\<open>for (i = 0; i < header->e_phnum; i++)\<close>, counted down from \<open>e_phnum - i\<close>.\<close>

fun process_pheaders_loop :: "memory \<Rightarrow> u32 \<Rightarrow> elf_file \<Rightarrow> nat \<Rightarrow> nat \<Rightarrow> int \<times> elf_file" where
  "process_pheaders_loop m hdr f i 0 = (0, f)"
| "process_pheaders_loop m hdr f i (Suc n) =
     (let (res, f) = elf_process_pheader f (phdr_at m (elf_program_header m hdr (int i)))
      in if res < 0 then (res, f) else process_pheaders_loop m hdr f (Suc i) n)"

definition elf_process_pheaders :: "memory \<Rightarrow> elf_file \<Rightarrow> int \<times> elf_file" where
  "elf_process_pheaders m f =
     process_pheaders_loop m (elf_header f) f 0 (unat (e_phnum (hdr_at m (elf_header f))))"

definition elf_process_loaded :: "memory \<Rightarrow> elf_file \<Rightarrow> (int \<times> elf_file) res" where
  "elf_process_loaded m f =
     bind_res (elf_validate_loaded m (elf_header f)) (\<lambda>res.
       if res < 0 then Inr (res, f) else Inr (elf_process_pheaders m f))"

subsection \<open>Loading and closing\<close>

definition elf_file_free :: "'a elfstate_scheme \<Rightarrow> u32 \<Rightarrow> 'a elfstate_scheme res" where
  "elf_file_free s elf_file =
     bind_res (obj_get (elf_files s) elf_file) (\<lambda>f.
     bind_res (if ef_memory f \<noteq> 0 then kfree s (ef_memory f) else Inr s) (\<lambda>s. kfree s elf_file))"

definition elf_close :: "'a elfstate_scheme \<Rightarrow> u32 \<Rightarrow> 'a elfstate_scheme res" where
  "elf_close s file =
     (if file = 0 then Inr s
      else bind_res (obj_get (elf_files s) file) (\<lambda>f.
        bind_res (if ef_memory f \<noteq> 0 then kfree s (ef_memory f) else Inr s) (\<lambda>s. kfree s file)))"

definition elf_file_new :: "'a elfstate_scheme \<Rightarrow> (u32 \<times> 'a elfstate_scheme) res" where
  "elf_file_new s =
     bind_res (kzalloc s 132) (\<lambda>(p, s).
       if p = 0 then Inr (0, s)
       else Inr (p, s\<lparr>elf_files := (elf_files s)(p \<mapsto> \<lparr>ef_filename = replicate 108 0, in_memory_size = 0, ef_memory = 0,
              virtual_base_address = 0, virtual_end_address = 0, physical_base_address = 0, physical_end_address = 0\<rparr>)\<rparr>))"

text \<open>The exit of \<open>elf_load\<close>: the result, \<open>*file_out\<close> (0 where it is not written) and the state.\<close>

definition elf_load_out :: "'a elfstate_scheme \<Rightarrow> int \<Rightarrow> u32 \<Rightarrow> int \<Rightarrow> (int \<times> u32 \<times> 'a elfstate_scheme) res" where
  "elf_load_out s fd elf_file res =
     bind_res (fclose s fd) (\<lambda>(r, s).
       if res < 0
       then bind_res (elf_file_free s elf_file) (\<lambda>s. bind_res (elf_close s elf_file) (\<lambda>s. Inr (res, 0, s)))
       else Inr (res, elf_file, s))"

definition elf_load :: "'a elfstate_scheme \<Rightarrow> u8 list \<Rightarrow> (int \<times> u32 \<times> 'a elfstate_scheme) res" where
  "elf_load s path =
     bind_res (elf_file_new s) (\<lambda>(elf_file, s).
       if elf_file = 0 then elf_load_out s 0 elf_file (- ENOMEM)
       else bind_res (fopen s path (c_literal ''r'')) (\<lambda>(fd, s).
         if fd \<le> 0 then elf_load_out s fd elf_file (- EIO)
         else bind_res (fstat s fd) (\<lambda>(res, st).
           if res < 0 then elf_load_out s fd elf_file res
           else case st of None \<Rightarrow> Inl NullDeref
           | Some st \<Rightarrow>
             bind_res (kzalloc s (stat_filesize st)) (\<lambda>(p, s).
             bind_res (obj_get (elf_files s) elf_file) (\<lambda>f.
               let s = s\<lparr>elf_files := (elf_files s)(elf_file \<mapsto> f\<lparr>ef_memory := p\<rparr>)\<rparr>
               in if p = 0 then elf_load_out s fd elf_file (- ENOMEM)
                  else bind_res (fread s p (stat_filesize st) 1 fd) (\<lambda>(n, s).
                    if n \<noteq> 1 then elf_load_out s fd elf_file (- EIO)
                    else bind_res (obj_get (elf_files s) elf_file) (\<lambda>f.
                      bind_res (elf_process_loaded (mem s) f) (\<lambda>(res, f).
                        let s = s\<lparr>elf_files := (elf_files s)(elf_file \<mapsto> f)\<rparr>
                        in elf_load_out s fd elf_file res))))))))"

subsection \<open>The extent of a program\<close>

lemma pt_load_fields:
  "virtual_base_address (snd (elf_process_phdr_pt_load f ph)) =
     (if p_vaddr ph \<le> virtual_base_address f \<or> virtual_base_address f = 0 then p_vaddr ph else virtual_base_address f)"
  "virtual_end_address (snd (elf_process_phdr_pt_load f ph)) =
     (if virtual_end_address f \<le> p_vaddr ph + p_filesz ph \<or> virtual_end_address f = 0
      then p_vaddr ph + p_filesz ph else virtual_end_address f)"
  "fst (elf_process_phdr_pt_load f ph) = 0" "ef_memory (snd (elf_process_phdr_pt_load f ph)) = ef_memory f"
  by (simp_all add: elf_process_phdr_pt_load_def Let_def)

lemma loop_load_step:
  "p_type (phdr_at m (elf_program_header m hdr (int i))) = PT_LOAD \<Longrightarrow> process_pheaders_loop m hdr f i (Suc n) =
     process_pheaders_loop m hdr (snd (elf_process_phdr_pt_load f (phdr_at m (elf_program_header m hdr (int i))))) (Suc i) n"
  using pt_load_fields(3) [of f "phdr_at m (elf_program_header m hdr (int i))"]
  by (cases "elf_process_phdr_pt_load f (phdr_at m (elf_program_header m hdr (int i)))")
    (simp add: elf_process_pheader_def)

text \<open>The loadable headers of the program header table.\<close>

definition load_headers :: "memory \<Rightarrow> u32 \<Rightarrow> nat \<Rightarrow> nat \<Rightarrow> elf32_phdr list" where
  "load_headers m hdr i n =
     filter (\<lambda>ph. p_type ph = PT_LOAD) (map (\<lambda>k. phdr_at m (elf_program_header m hdr (int k))) [i..<i + n])"

lemma load_headers_Suc:
  "load_headers m hdr i (Suc n) =
     (let ph = phdr_at m (elf_program_header m hdr (int i))
      in if p_type ph = PT_LOAD then ph # load_headers m hdr (Suc i) n else load_headers m hdr (Suc i) n)"
proof -
  have "[i..<i + Suc n] = i # [Suc i..<Suc i + n]" by (simp add: upt_rec)
  then show ?thesis by (simp add: load_headers_def Let_def)
qed

lemma loop_extent:
  fixes m :: memory
  assumes "\<forall>ph \<in> set (load_headers m hdr i n). p_vaddr ph \<noteq> 0 \<and> p_vaddr ph + p_filesz ph \<noteq> 0"
    and "virtual_base_address f \<noteq> 0" "virtual_end_address f \<noteq> 0"
  shows "\<exists>f'. process_pheaders_loop m hdr f i n = (0, f') \<and>
    virtual_base_address f' = Min (insert (virtual_base_address f) (p_vaddr ` set (load_headers m hdr i n))) \<and>
    virtual_end_address f' = Max (insert (virtual_end_address f) ((\<lambda>ph. p_vaddr ph + p_filesz ph) ` set (load_headers m hdr i n)))"
  using assms
proof (induction n arbitrary: i f)
  case 0
  then show ?case by (simp add: load_headers_def)
next
  case (Suc n)
  let ?ph = "phdr_at m (elf_program_header m hdr (int i))"
  show ?case
  proof (cases "p_type ?ph = PT_LOAD")
    case False
    then show ?thesis using Suc by (simp add: load_headers_Suc Let_def elf_process_pheader_def)
  next
    case True
    let ?g = "snd (elf_process_phdr_pt_load f ?ph)"
    have hs: "load_headers m hdr i (Suc n) = ?ph # load_headers m hdr (Suc i) n"
      using True by (simp add: load_headers_Suc)
    have g: "virtual_base_address ?g = min (virtual_base_address f) (p_vaddr ?ph)"
      "virtual_end_address ?g = max (virtual_end_address f) (p_vaddr ?ph + p_filesz ?ph)"
      using Suc.prems(2,3) by (auto simp: pt_load_fields min_def max_def)
    moreover have "p_vaddr ?ph \<noteq> 0" "p_vaddr ?ph + p_filesz ?ph \<noteq> 0" using Suc.prems(1) hs by simp_all
    ultimately have "virtual_base_address ?g \<noteq> 0" "virtual_end_address ?g \<noteq> 0"
      using Suc.prems(2,3) by (auto simp: min_def max_def)
    then obtain f' where f': "process_pheaders_loop m hdr ?g (Suc i) n = (0, f')"
        "virtual_base_address f' = Min (insert (virtual_base_address ?g) (p_vaddr ` set (load_headers m hdr (Suc i) n)))"
        "virtual_end_address f' = Max (insert (virtual_end_address ?g)
           ((\<lambda>ph. p_vaddr ph + p_filesz ph) ` set (load_headers m hdr (Suc i) n)))"
      using Suc.IH [of "Suc i" ?g] Suc.prems(1) hs by auto
    have "process_pheaders_loop m hdr f i (Suc n) = (0, f')"
      using f'(1) unfolding loop_load_step [OF True] .
    moreover have "Min (insert (min a b) A) = Min (insert a (insert b A))" "Max (insert (max a b) A) = Max (insert a (insert b A))"
      if "finite A" for a b :: u32 and A
      using that by (cases "A = {}"; simp add: min.assoc max.assoc)+
    ultimately show ?thesis using f'(2,3) g by (simp add: hs)
  qed
qed

text \<open>After the program headers are processed, the virtual base of the file is the least address of its
  loadable segments and the virtual end the greatest end, when no segment starts or ends at address 0.\<close>

theorem elf_extent:
  fixes m :: memory
  defines "loads \<equiv> \<lambda>f. load_headers m (ef_memory f) 0 (unat (e_phnum (hdr_at m (ef_memory f))))"
  assumes "virtual_base_address f = 0" "virtual_end_address f = 0" "loads f \<noteq> []"
    and "\<forall>ph \<in> set (loads f). p_vaddr ph \<noteq> 0 \<and> p_vaddr ph + p_filesz ph \<noteq> 0"
  shows "\<exists>f'. elf_process_pheaders m f = (0, f') \<and>
    virtual_base_address f' = Min (p_vaddr ` set (loads f)) \<and>
    virtual_end_address f' = Max ((\<lambda>ph. p_vaddr ph + p_filesz ph) ` set (loads f))"
proof -
  have "load_headers m hdr i n \<noteq> [] \<Longrightarrow> virtual_base_address f = 0 \<Longrightarrow> virtual_end_address f = 0 \<Longrightarrow>
      \<forall>ph \<in> set (load_headers m hdr i n). p_vaddr ph \<noteq> 0 \<and> p_vaddr ph + p_filesz ph \<noteq> 0 \<Longrightarrow>
      \<exists>f'. process_pheaders_loop m hdr f i n = (0, f') \<and>
        virtual_base_address f' = Min (p_vaddr ` set (load_headers m hdr i n)) \<and>
        virtual_end_address f' = Max ((\<lambda>ph. p_vaddr ph + p_filesz ph) ` set (load_headers m hdr i n))" for hdr i n
  proof (induction n arbitrary: i)
    case (Suc n)
    let ?ph = "phdr_at m (elf_program_header m hdr (int i))"
    show ?case
    proof (cases "p_type ?ph = PT_LOAD")
      case False
      then show ?thesis using Suc by (simp add: load_headers_Suc Let_def elf_process_pheader_def)
    next
      case True
      let ?g = "snd (elf_process_phdr_pt_load f ?ph)"
      have hs: "load_headers m hdr i (Suc n) = ?ph # load_headers m hdr (Suc i) n"
        using True by (simp add: load_headers_Suc)
      have g: "virtual_base_address ?g = p_vaddr ?ph" "virtual_end_address ?g = p_vaddr ?ph + p_filesz ?ph"
        using Suc.prems(2,3) by (simp_all add: pt_load_fields)
      with loop_extent [of m hdr "Suc i" n ?g] Suc.prems(4) show ?thesis
        unfolding loop_load_step [OF True] by (simp add: hs)
    qed
  qed (simp add: load_headers_def)
  then show ?thesis using assms unfolding elf_process_pheaders_def elf_header_def loads_def by blast
qed

text \<open>A header with two loadable segments, the one with the lower address second.\<close>

definition example_elf_mem :: memory where
  "example_elf_mem = (\<lambda>_. 0)(0x0100001C := 52, 0x0100002C := 2,
     0x01000034 := 1, 0x0100003D := 0x10, 0x0100003E := 0x40, 0x01000044 := 16,
     0x01000054 := 1, 0x0100005E := 0x40, 0x01000064 := 32)"

definition example_elf_file :: elf_file where
  "example_elf_file = \<lparr>ef_filename = [], in_memory_size = 0, ef_memory = 0x01000000, virtual_base_address = 0,
     virtual_end_address = 0, physical_base_address = 0, physical_end_address = 0\<rparr>"

lemma byte_at_read: "k < n \<Longrightarrow> byte_at (read_bytes m p n) k = m (p + of_nat k)"
  by (simp add: byte_at_def read_bytes_def)

lemma example_header: "e_phnum (hdr_at example_elf_mem 0x01000000) = 2" "e_phoff (hdr_at example_elf_mem 0x01000000) = 52"
  by (simp_all add: hdr_at_def Let_def le16_def le32_def byte_at_read example_elf_mem_def)

lemma example_phdrs:
  "p_type (phdr_at example_elf_mem 0x01000034) = 1" "p_vaddr (phdr_at example_elf_mem 0x01000034) = 0x401000"
  "p_filesz (phdr_at example_elf_mem 0x01000034) = 16"
  "p_type (phdr_at example_elf_mem 0x01000054) = 1" "p_vaddr (phdr_at example_elf_mem 0x01000054) = 0x400000"
  "p_filesz (phdr_at example_elf_mem 0x01000054) = 32"
  by (simp_all add: phdr_at_def Let_def le16_def le32_def byte_at_read example_elf_mem_def)

lemma example_loads:
  "map (\<lambda>ph. (p_vaddr ph, p_filesz ph)) (load_headers example_elf_mem (ef_memory example_elf_file) 0
     (unat (e_phnum (hdr_at example_elf_mem (ef_memory example_elf_file))))) = [(0x401000, 16), (0x400000, 32)]"
  by (simp add: load_headers_def example_elf_file_def example_header elf_program_header_def elf_pheader_def
      upt_rec example_phdrs)

lemma elf_extent_witness:
  "\<exists>f. elf_process_pheaders example_elf_mem example_elf_file = (0, f) \<and>
     virtual_base_address f = 0x400000 \<and> virtual_end_address f = 0x401010"
proof -
  let ?L = "load_headers example_elf_mem (ef_memory example_elf_file) 0
     (unat (e_phnum (hdr_at example_elf_mem (ef_memory example_elf_file))))"
  obtain a b where ab: "?L = [a, b]" "p_vaddr a = 0x401000" "p_filesz a = 16" "p_vaddr b = 0x400000" "p_filesz b = 32"
    using example_loads by (auto simp: map_eq_Cons_conv)
  have "\<exists>f'. elf_process_pheaders example_elf_mem example_elf_file = (0, f') \<and>
    virtual_base_address f' = Min (p_vaddr ` set ?L) \<and>
    virtual_end_address f' = Max ((\<lambda>ph. p_vaddr ph + p_filesz ph) ` set ?L)"
    by (rule elf_extent, simp add: example_elf_file_def, simp add: example_elf_file_def, simp_all only: ab)
      (simp_all add: ab(2-5))
  then show ?thesis by (simp add: ab)
qed

subsection \<open>Freeing twice\<close>

lemma mark_free_only_zeroes:
  "mark_free_loop es i tot = Inr es' \<Longrightarrow> length es' = length es \<and> (\<forall>k < length es. es' ! k = es ! k \<or> es' ! k = 0) \<and>
     (i < tot \<longrightarrow> 0 \<le> i \<and> i < int (length es) \<and> es' ! nat i = 0)"
proof (induction es i tot rule: mark_free_loop.induct)
  case (1 es i tot)
  show ?case
  proof (cases "i < tot")
    case True
    from 1(2) True obtain e es1 where e: "list_get es i = Inr e" "list_set es i 0 = Inr es1"
      "(if e AND 0x80 = 0 then Inr es1 else mark_free_loop es1 (i + 1) tot) = Inr es'"
      by (subst (asm) mark_free_loop.simps) (auto simp: res_simps)
    then have i: "0 \<le> i" "i < int (length es)" "es1 = es[nat i := 0]"
      by (simp_all add: list_set_Inr_iff)
    show ?thesis
    proof (cases "e AND 0x80 = 0")
      case True
      then show ?thesis using e i by (auto simp: nth_list_update)
    next
      case False
      with e True 1(1) have "length es' = length es1 \<and> (\<forall>k < length es1. es' ! k = es1 ! k \<or> es' ! k = 0)" by auto
      moreover have n: "nat i < length es" using i by simp
      ultimately have l: "length es' = length es" "k < length es \<Longrightarrow> es' ! k = es1 ! k \<or> es' ! k = 0" for k
        using i(3) by simp_all
      then have "es' ! k = es ! k \<or> es' ! k = 0" if "k < length es" for k
        using that l(2) [of k] i(3) by (cases "k = nat i") simp_all
      moreover have "es' ! nat i = 0" using l(2) [OF n] i(3) n by simp
      ultimately show ?thesis using i l(1) by simp
    qed
  next
    case False
    then show ?thesis using 1(2) by (simp add: mark_free_loop.simps [of es])
  qed
qed

definition freed :: "'a mstate_scheme \<Rightarrow> u32 \<Rightarrow> bool" where
  "freed s p \<longleftrightarrow> (let b = heap_address_to_block (kheap s) p; es = ht_entries (heap_tbl (kheap s))
     in b < sint (ht_total (heap_tbl (kheap s))) \<longrightarrow> 0 \<le> b \<and> b < int (length es) \<and> es ! nat b = 0)"

lemma kfree_entries:
  assumes "kfree s p = Inr s'"
  obtains es where "mark_free_loop (ht_entries (heap_tbl (kheap s))) (heap_address_to_block (kheap s) p)
      (sint (ht_total (heap_tbl (kheap s)))) = Inr es"
    "s' = s\<lparr>kheap := (kheap s)\<lparr>heap_tbl := (heap_tbl (kheap s))\<lparr>ht_entries := es\<rparr>\<rparr>\<rparr>"
  using assms by (auto simp: kfree_def heap_free_def heap_mark_blocks_free_def res_simps)

lemma kfree_freed: "kfree s p = Inr s' \<Longrightarrow> freed s' p"
  by (erule kfree_entries) (auto simp: freed_def heap_address_to_block_def dest: mark_free_only_zeroes)

lemma freed_kfree: "freed s p \<Longrightarrow> kfree s p = Inr s"
proof -
  assume f: "freed s p"
  have "mark_free_loop (ht_entries (heap_tbl (kheap s))) (heap_address_to_block (kheap s) p)
      (sint (ht_total (heap_tbl (kheap s)))) = Inr (ht_entries (heap_tbl (kheap s)))"
    using f by (subst mark_free_loop.simps) (auto simp: freed_def Let_def list_get_def list_set_def list_update_same_conv)
  then show ?thesis by (simp add: kfree_def heap_free_def heap_mark_blocks_free_def)
qed

lemma freed_mono:
  assumes "freed s p" "kfree s q = Inr s'"
  shows "freed s' p"
proof -
  let ?es = "ht_entries (heap_tbl (kheap s))"
  obtain es where es: "mark_free_loop ?es (heap_address_to_block (kheap s) q) (sint (ht_total (heap_tbl (kheap s)))) = Inr es"
      "s' = s\<lparr>kheap := (kheap s)\<lparr>heap_tbl := (heap_tbl (kheap s))\<lparr>ht_entries := es\<rparr>\<rparr>\<rparr>"
    by (rule kfree_entries [OF assms(2)]) (rule that)
  have z: "length es = length ?es" "k < length ?es \<Longrightarrow> ?es ! k = 0 \<Longrightarrow> es ! k = 0" for k
    using mark_free_only_zeroes [OF es(1)] by metis+
  have "nat b < length ?es" if "0 \<le> b" "b < int (length ?es)" for b using that by simp
  then show ?thesis
    using assms(1) z by (simp add: freed_def heap_address_to_block_def Let_def es(2))
qed

text \<open>On its error exit \<open>elf_load\<close> frees the file and its image twice, but the second round changes nothing: the heap's table
  marks a block free again without effect.\<close>

theorem elf_load_error_frees_twice:
  assumes "fclose s fd = Inr (r, s0)" "elf_file_free s0 p = Inr s1" "res < 0" "p \<noteq> 0"
  shows "elf_close s1 p = Inr s1 \<and> elf_load_out s fd p res = Inr (res, 0, s1)"
proof -
  obtain f sm where f: "elf_files s0 p = Some f" "(if ef_memory f \<noteq> 0 then kfree s0 (ef_memory f) else Inr s0) = Inr sm"
      "kfree sm p = Inr s1"
    using assms(2) by (auto simp: elf_file_free_def res_simps split: option.splits)
  have "elf_files s1 p = Some f"
    using f by (auto simp: kfree_Inr split: if_splits)
  moreover have "freed s1 p" by (rule kfree_freed [OF f(3)])
  moreover have "freed s1 (ef_memory f)" if "ef_memory f \<noteq> 0"
    using f(2,3) that by (auto intro: freed_mono kfree_freed)
  ultimately have "elf_close s1 p = Inr s1"
    using assms(4) by (simp add: elf_close_def freed_kfree)
  then show ?thesis using assms(1-3) by (simp add: elf_load_out_def)
qed

definition example_elf_state :: elfstate where
  "example_elf_state = filestate.extend example_file_state (elfstate.fields (\<lambda>_. None))"

lemma elf_load_error_frees_twice_witness:
  "\<exists>p s0 s1. elf_file_new example_elf_state = Inr (p, s0) \<and> elf_load_out s0 0 p (- 9) = Inr (- 9, 0, s1) \<and>
     kavail s1 = 25600"
proof -
  have i: "kheap_inv example_elf_state" "kavail example_elf_state = 25600"
    using example_file_facts by (simp_all add: example_elf_state_def filestate.extend_def)
  have a: "0 < kavail example_elf_state" using i(2) by simp
  obtain p h m where p: "kzalloc example_elf_state 132 = Inr (p, example_elf_state\<lparr>kheap := h, mem := m\<rparr>)" "p \<noteq> 0"
      "hgrown (kheap example_elf_state) (mem example_elf_state) h m [p]"
    by (rule kzalloc_grown [OF i(1) a, of 132]) (simp, simp, rule that)
  then obtain f where n: "elf_file_new example_elf_state = Inr (p, example_elf_state\<lparr>kheap := h, mem := m,
      elf_files := (elf_files example_elf_state)(p \<mapsto> f)\<rparr>)" "ef_memory f = 0"
    by (simp add: elf_file_new_def)
  let ?s = "example_elf_state\<lparr>kheap := h, mem := m, elf_files := (elf_files example_elf_state)(p \<mapsto> f)\<rparr>"
  obtain h' where k: "kfree ?s p = Inr (?s\<lparr>kheap := h'\<rparr>)"
      "hgrown (kheap example_elf_state) (mem example_elf_state) h' (mem ?s) []"
    using kfree_grown [of "kheap example_elf_state" "mem example_elf_state" ?s "[]" p "[]"] p(3) by auto
  have "fclose ?s 0 = Inr (- 1, ?s)" by (simp add: fclose_def file_get_descriptor_def)
  moreover have "elf_file_free ?s p = Inr (?s\<lparr>kheap := h'\<rparr>)" using n(2) k(1) by (simp add: elf_file_free_def)
  ultimately have "elf_load_out ?s 0 p (- 9) = Inr (- 9, 0, ?s\<lparr>kheap := h'\<rparr>)"
    using elf_load_error_frees_twice [of ?s 0 "- 1" ?s p "?s\<lparr>kheap := h'\<rparr>" "- 9"] p(2) by simp
  moreover have "kavail (?s\<lparr>kheap := h'\<rparr>) = 25600" using hgrownD(5) [OF k(2)] i(2) by simp
  ultimately show ?thesis using n(1) by blast
qed

end
