(* ===== verification/Task.thy ===== *)
theory Task
  imports Elf
begin

text \<open>
  Tasks: src/task/task.c with the parts of task.asm and kernel.c it uses. \<open>struct task\<close> and \<open>struct process\<close> objects live in the typed
  stores \<open>tasks\<close> and \<open>procs\<close>; the task list is the chain of \<open>t_next\<close> addresses from \<open>task_head\<close>. Code that runs under a task's page
  directory reads memory through the translation of \<open>cr3\<close> (\<open>vload\<close>). \<open>task_return\<close> leaves
  the kernel with \<open>iretd\<close>: what it returns is the user context the processor goes on with, and the functions that end
  in it return that context.
\<close>

subsection \<open>Data (task.h, idt.h, process.h)\<close>

record registers =
  r_edi :: u32
  r_esi :: u32
  r_ebp :: u32
  r_ebx :: u32
  r_edx :: u32
  r_ecx :: u32
  r_eax :: u32
  r_ip :: u32
  r_cs :: u32
  r_flags :: u32
  r_esp :: u32
  r_ss :: u32

record interrupt_frame =
  f_edi :: u32
  f_esi :: u32
  f_ebp :: u32
  f_reserved :: u32
  f_ebx :: u32
  f_edx :: u32
  f_ecx :: u32
  f_eax :: u32
  f_ip :: u32
  f_cs :: u32
  f_flags :: u32
  f_esp :: u32
  f_ss :: u32

record task =
  page_directory :: u32
  regs :: registers
  t_process :: u32
  t_next :: u32
  t_prev :: u32

record process =
  pr_id :: u16
  pr_filename :: "u8 list"
  pr_task :: u32
  pr_allocations :: "(u32 \<times> u32) list" \<comment> \<open>\<open>ptr\<close> and \<open>size\<close>, 1024 of them\<close>
  pr_filetype :: u8
  pr_ptr :: u32 \<comment> \<open>the union of \<open>ptr\<close> and \<open>elf_file\<close>\<close>
  pr_stack :: u32
  pr_size :: u32
  kb_buffer :: "u8 list" \<comment> \<open>1024 bytes\<close>
  kb_tail :: u32
  kb_head :: u32
  pr_argc :: int
  pr_argv :: u32

record taskstate = elfstate +
  tasks :: "u32 \<Rightarrow> task option"
  procs :: "u32 \<Rightarrow> process option"
  current_task :: u32
  task_head :: u32
  task_tail :: u32
  kernel_chunk :: u32
  data_segments :: u16 \<comment> \<open>what DS, ES, FS and GS hold\<close>

abbreviation (input) PROCESS_FILE_TYPE_ELF :: u8 where "PROCESS_FILE_TYPE_ELF \<equiv> 0"
abbreviation (input) PROCESS_FILE_TYPE_BINARY :: u8 where "PROCESS_FILE_TYPE_BINARY \<equiv> 1"

subsection \<open>Address spaces\<close>

lemma obj_get_None [simp]: "objs p = None \<Longrightarrow> obj_get objs p = Inl NullDeref"
  by (simp add: obj_get_def)

text \<open>The processor's translation of a supervisor read: with paging on, both entries must be present.
  CR0.WP is never set, so a supervisor write needs no more than that.\<close>

definition vtrans :: "'a pgstate_scheme \<Rightarrow> u32 \<Rightarrow> u32 res" where
  "vtrans s a =
     (if \<not> bit (cr0 s) 31 then Inr a
      else
        let pde = load32 (mem s) (cr3 s + 4 * drop_bit 22 a);
            entry = load32 (mem s) ((pde AND 0xfffff000) + 4 * (drop_bit 12 a AND 0x3ff))
        in if pde AND 1 = 0 \<or> entry AND 1 = 0 then Inl PageFault
           else Inr ((entry AND 0xfffff000) + (a AND 0xfff)))"

definition vload :: "'a pgstate_scheme \<Rightarrow> u32 \<Rightarrow> u8 res" where
  "vload s a = bind_res (vtrans s a) (\<lambda>p. Inr (mem s p))"

definition vstore :: "'a pgstate_scheme \<Rightarrow> u32 \<Rightarrow> u8 \<Rightarrow> 'a pgstate_scheme res" where
  "vstore s a v = bind_res (vtrans s a) (\<lambda>p. Inr (s\<lparr>mem := (mem s)(p := v)\<rparr>))"

definition vload32 :: "'a pgstate_scheme \<Rightarrow> u32 \<Rightarrow> u32 res" where
  "vload32 s a =
     bind_res (vload s a) (\<lambda>b0. bind_res (vload s (a + 1)) (\<lambda>b1.
     bind_res (vload s (a + 2)) (\<lambda>b2. bind_res (vload s (a + 3)) (\<lambda>b3.
       Inr (ucast b0 OR push_bit 8 (ucast b1) OR push_bit 16 (ucast b2) OR push_bit 24 (ucast b3))))))"

definition kernel_registers :: "'a taskstate_scheme \<Rightarrow> 'a taskstate_scheme" where
  "kernel_registers s = s\<lparr>data_segments := 0x10\<rparr>"

definition user_registers :: "'a taskstate_scheme \<Rightarrow> 'a taskstate_scheme" where
  "user_registers s = s\<lparr>data_segments := 0x23\<rparr>"

definition kernel_page :: "'a taskstate_scheme \<Rightarrow> 'a taskstate_scheme" where
  "kernel_page s = paging_switch (kernel_registers s) (kernel_chunk s)"

subsection \<open>The task list (task.c)\<close>

definition set_task :: "'a taskstate_scheme \<Rightarrow> u32 \<Rightarrow> task \<Rightarrow> 'a taskstate_scheme" where
  "set_task s a t = s\<lparr>tasks := (tasks s)(a \<mapsto> t)\<rparr>"

definition task_current :: "'a taskstate_scheme \<Rightarrow> u32" where
  "task_current s = current_task s"

definition task_get_next :: "'a taskstate_scheme \<Rightarrow> u32 res" where
  "task_get_next s =
     bind_res (obj_get (tasks s) (current_task s)) (\<lambda>t.
       if t_next t = 0 then Inr (task_head s) else Inr (t_next t))"

definition task_list_remove :: "'a taskstate_scheme \<Rightarrow> u32 \<Rightarrow> 'a taskstate_scheme res" where
  "task_list_remove s task =
     bind_res (obj_get (tasks s) task) (\<lambda>t.
     bind_res (if t_prev t \<noteq> 0
               then bind_res (obj_get (tasks s) (t_prev t)) (\<lambda>p. Inr (set_task s (t_prev t) (p\<lparr>t_next := t_next t\<rparr>)))
               else Inr s) (\<lambda>s.
     bind_res (obj_get (tasks s) task) (\<lambda>t.
       let s = (if task = task_head s then s\<lparr>task_head := t_next t\<rparr> else s);
           s = (if task = task_tail s then s\<lparr>task_tail := t_prev t\<rparr> else s)
       in if task = current_task s
          then bind_res (task_get_next s) (\<lambda>n. Inr (s\<lparr>current_task := n\<rparr>))
          else Inr s)))"

definition task_free :: "'a taskstate_scheme \<Rightarrow> u32 \<Rightarrow> 'a taskstate_scheme res" where
  "task_free s task =
     bind_res (obj_get (tasks s) task) (\<lambda>t.
     bind_res (paging_free_4gb s (page_directory t)) (\<lambda>s.
     bind_res (task_list_remove s task) (\<lambda>s.
     bind_res (kfree s task) (\<lambda>s. Inr (s\<lparr>tasks := (tasks s)(task := None)\<rparr>)))))"

abbreviation (input) zero_registers :: registers where
  "zero_registers \<equiv> \<lparr>r_edi = 0, r_esi = 0, r_ebp = 0, r_ebx = 0, r_edx = 0, r_ecx = 0, r_eax = 0, r_ip = 0, r_cs = 0,
     r_flags = 0, r_esp = 0, r_ss = 0\<rparr>"

definition zero_task :: task where
  "zero_task = \<lparr>page_directory = 0, regs = zero_registers, t_process = 0, t_next = 0, t_prev = 0\<rparr>"

abbreviation (input) USER_DATA_SEGMENT :: u32 where "USER_DATA_SEGMENT \<equiv> 0x23"
abbreviation (input) USER_CODE_SEGMENT :: u32 where "USER_CODE_SEGMENT \<equiv> 0x1b"
abbreviation (input) MARROWOS_PROGRAM_VIRTUAL_STACK_ADDRESS_START :: u32 where
  "MARROWOS_PROGRAM_VIRTUAL_STACK_ADDRESS_START \<equiv> 0x3FF000"

definition task_init :: "'a taskstate_scheme \<Rightarrow> u32 \<Rightarrow> u32 \<Rightarrow> (int \<times> 'a taskstate_scheme) res" where
  "task_init s task process =
     (let s = set_task s task zero_task
      in bind_res (paging_new_4gb s 5) (\<lambda>(chunk, s).
           if chunk = 0 then Inr (- EIO, s)
           else bind_res (obj_get (procs s) process) (\<lambda>p.
             bind_res (if pr_filetype p = PROCESS_FILE_TYPE_ELF
                       then bind_res (obj_get (elf_files s) (pr_ptr p)) (\<lambda>f. Inr (e_entry (hdr_at (mem s) (elf_header f))))
                       else Inr MARROWOS_PROGRAM_VIRTUAL_ADDRESS) (\<lambda>ip.
               Inr (0, set_task s task \<lparr>page_directory = chunk,
                 regs = zero_registers\<lparr>r_ip := ip, r_ss := USER_DATA_SEGMENT, r_cs := USER_CODE_SEGMENT,
                   r_esp := MARROWOS_PROGRAM_VIRTUAL_STACK_ADDRESS_START\<rparr>,
                 t_process = process, t_next = 0, t_prev = 0\<rparr>)))))"

definition task_new :: "'a taskstate_scheme \<Rightarrow> u32 \<Rightarrow> (u32 \<times> 'a taskstate_scheme) res" where
  "task_new s process =
     bind_res (kzalloc s 64) (\<lambda>(task, s).
       if task = 0 then bind_res (task_free s task) (\<lambda>s. Inr (ERROR_ptr (- ENOMEM), s))
       else bind_res (task_init s task process) (\<lambda>(res, s).
         if res \<noteq> MARROWOS_ALL_OK
         then if res < 0 then bind_res (task_free s task) (\<lambda>s. Inr (ERROR_ptr res, s)) else Inr (task, s)
         else if task_head s = 0
         then Inr (task, s\<lparr>task_head := task, task_tail := task, current_task := task\<rparr>)
         else bind_res (obj_get (tasks s) (task_tail s)) (\<lambda>l.
           let s = set_task s (task_tail s) (l\<lparr>t_next := task\<rparr>)
           in bind_res (obj_get (tasks s) task) (\<lambda>t.
             let s = set_task s task (t\<lparr>t_prev := task_tail s\<rparr>)
             in Inr (task, s\<lparr>task_tail := task\<rparr>)))))"

subsection \<open>Switching\<close>

definition task_switch :: "'a taskstate_scheme \<Rightarrow> u32 \<Rightarrow> 'a taskstate_scheme res" where
  "task_switch s task =
     bind_res (obj_get (tasks s) task) (\<lambda>t. Inr (paging_switch (s\<lparr>current_task := task\<rparr>) (page_directory t)))"

text \<open>\<open>task_return\<close> of task.asm: it pushes the frame \<open>iretd\<close> pops, with interrupts enabled in the flags,
  and loads the data segment registers with the selector of the stack.\<close>

definition user_context :: "registers \<Rightarrow> registers" where
  "user_context r = r\<lparr>r_flags := r_flags r OR 0x200\<rparr>"

definition task_return :: "'a taskstate_scheme \<Rightarrow> registers \<Rightarrow> registers \<times> 'a taskstate_scheme" where
  "task_return s r = (user_context r, s\<lparr>data_segments := ucast (r_ss r)\<rparr>)"

definition task_next :: "'a taskstate_scheme \<Rightarrow> (registers \<times> 'a taskstate_scheme) res" where
  "task_next s =
     bind_res (task_get_next s) (\<lambda>next_task.
       if next_task = 0 then panic (''No more tasks!'' @ [CHR 0x0A])
       else bind_res (task_switch s next_task) (\<lambda>s.
         bind_res (obj_get (tasks s) next_task) (\<lambda>t. Inr (task_return s (regs t)))))"

definition task_save_state :: "task \<Rightarrow> interrupt_frame \<Rightarrow> task" where
  "task_save_state t frame =
     t\<lparr>regs := \<lparr>r_edi = f_edi frame, r_esi = f_esi frame, r_ebp = f_ebp frame, r_ebx = f_ebx frame,
        r_edx = f_edx frame, r_ecx = f_ecx frame, r_eax = f_eax frame, r_ip = f_ip frame, r_cs = f_cs frame,
        r_flags = f_flags frame, r_esp = f_esp frame, r_ss = f_ss frame\<rparr>\<rparr>"

definition task_current_save_state :: "'a taskstate_scheme \<Rightarrow> interrupt_frame \<Rightarrow> 'a taskstate_scheme res" where
  "task_current_save_state s frame =
     (if current_task s = 0 then panic (''No current task to save'' @ [CHR 0x0A])
      else bind_res (obj_get (tasks s) (current_task s)) (\<lambda>t.
        Inr (set_task s (current_task s) (task_save_state t frame))))"

definition task_page :: "'a taskstate_scheme \<Rightarrow> 'a taskstate_scheme res" where
  "task_page s = task_switch (user_registers s) (current_task s)"

definition task_page_task :: "'a taskstate_scheme \<Rightarrow> u32 \<Rightarrow> 'a taskstate_scheme res" where
  "task_page_task s task =
     bind_res (obj_get (tasks s) task) (\<lambda>t. Inr (paging_switch (user_registers s) (page_directory t)))"

definition task_run_first_ever_task :: "'a taskstate_scheme \<Rightarrow> (registers \<times> 'a taskstate_scheme) res" where
  "task_run_first_ever_task s =
     (if current_task s = 0 then panic (''task run_first_ever_task(): No current task exists! '' @ [CHR 0x0A])
      else bind_res (task_switch s (task_head s)) (\<lambda>s.
        bind_res (obj_get (tasks s) (task_head s)) (\<lambda>t. Inr (task_return s (regs t)))))"

subsection \<open>Reading a task's memory\<close>

definition task_get_stack_item :: "'a taskstate_scheme \<Rightarrow> u32 \<Rightarrow> int \<Rightarrow> (u32 \<times> 'a taskstate_scheme) res" where
  "task_get_stack_item s task index =
     bind_res (obj_get (tasks s) task) (\<lambda>t.
     bind_res (task_page_task s task) (\<lambda>s.
     bind_res (vload32 s (r_esp (regs t) + 4 * word_of_int index)) (\<lambda>result.
       Inr (result, kernel_page s))))"

definition task_virtual_address_to_physical :: "'a taskstate_scheme \<Rightarrow> u32 \<Rightarrow> u32 \<Rightarrow> u32 res" where
  "task_virtual_address_to_physical s task virtual_address =
     bind_res (obj_get (tasks s) task) (\<lambda>t.
       Inr (paging_get_physical_address (mem s) (load32 (mem s) (page_directory t)) virtual_address))"

text \<open>\<open>strncpy(tmp, virtual, max)\<close> under the task's page directory, byte by byte; \<open>n\<close> is \<open>max - 1 - i\<close>.\<close>

fun vstrncpy_loop :: "'a pgstate_scheme \<Rightarrow> u32 \<Rightarrow> u32 \<Rightarrow> nat \<Rightarrow> 'a pgstate_scheme res" where
  "vstrncpy_loop s dest src 0 = vstore s dest 0"
| "vstrncpy_loop s dest src (Suc n) =
     bind_res (vload s src) (\<lambda>c.
       if c = 0 then vstore s dest 0
       else bind_res (vstore s dest c) (\<lambda>s. vstrncpy_loop s (dest + 1) (src + 1) n))"

text \<open>The kernel's buffer \<open>phys\<close> is an array of the caller, returned updated.\<close>

definition copy_string_from_task ::
  "'a taskstate_scheme \<Rightarrow> u32 \<Rightarrow> u32 \<Rightarrow> u8 list \<Rightarrow> nat \<Rightarrow> (int \<times> u8 list \<times> 'a taskstate_scheme) res" where
  "copy_string_from_task s task virt phys mx =
     (if 4096 \<le> mx then Inr (- EINVARG, phys, s)
      else bind_res (kzalloc s (of_nat mx)) (\<lambda>(tmp, s).
        if tmp = 0 then Inr (- ENOMEM, phys, s)
        else bind_res (obj_get (tasks s) task) (\<lambda>t.
          let chunk = page_directory t;
              task_directory = load32 (mem s) chunk;
              old_entry = paging_get (mem s) task_directory tmp;
              s = s\<lparr>mem := snd (paging_map (mem s) chunk tmp tmp 7)\<rparr>;
              s = paging_switch s chunk
          in bind_res (vstrncpy_loop s tmp virt (mx - 1)) (\<lambda>s.
               let s = kernel_page s;
                   (res, m) = paging_set (mem s) task_directory tmp old_entry;
                   s = s\<lparr>mem := m\<rparr>
               in if res < 0
                  then bind_res (kfree s tmp) (\<lambda>s. Inr (- EIO, phys, s))
                  else bind_res (strncpy phys 0 (read_bytes (mem s) tmp mx) (int mx)) (\<lambda>phys.
                    bind_res (kfree s tmp) (\<lambda>s. Inr (res, phys, s)))))))"

end
