(* ===== verification/TaskList.thy ===== *)
theory TaskList
  imports Task
begin

text \<open>
  The task list: \<open>task_list s xs\<close> says that the tasks of \<open>s\<close> are \<open>xs\<close>, in order. \<open>task_new\<close> appends, \<open>task_next\<close> goes round, so that every task
  gets its turn. \<open>task_list_remove\<close> leaves the \<open>prev\<close> pointer of the next task behind.
\<close>

fun task_chain :: "(u32 \<Rightarrow> task option) \<Rightarrow> u32 \<Rightarrow> u32 list \<Rightarrow> bool" where
  "task_chain tk a [] \<longleftrightarrow> a = 0"
| "task_chain tk a (x # xs) \<longleftrightarrow> a = x \<and> x \<noteq> 0 \<and> (\<exists>t. tk x = Some t \<and> task_chain tk (t_next t) xs)"

definition task_ring :: "'a taskstate_scheme \<Rightarrow> u32 list \<Rightarrow> bool" where
  "task_ring s xs \<longleftrightarrow> task_chain (tasks s) (task_head s) xs \<and> distinct xs \<and> current_task s \<in> set xs"

definition task_list :: "'a taskstate_scheme \<Rightarrow> u32 list \<Rightarrow> bool" where
  "task_list s xs \<longleftrightarrow> (if xs = [] then task_head s = 0 else task_ring s xs \<and> task_tail s = List.last xs) \<and>
     (\<forall>x \<in> set xs. klive s x 1)"

lemma task_chain_nth:
  "task_chain tk a xs \<Longrightarrow> i < length xs \<Longrightarrow> xs ! i \<noteq> 0 \<and>
     (\<exists>t. tk (xs ! i) = Some t \<and> t_next t = (if Suc i < length xs then xs ! Suc i else 0))"
proof (induction xs arbitrary: a i)
  case (Cons x xs)
  then obtain t where t: "tk x = Some t" "task_chain tk (t_next t) xs" by auto
  show ?case
  proof (cases i)
    case 0
    with t Cons.prems show ?thesis by (cases xs) auto
  next
    case (Suc j)
    with Cons.IH [OF t(2), of j] Cons.prems show ?thesis by auto
  qed
qed simp

lemma task_chain_head: "task_chain tk a xs \<Longrightarrow> xs \<noteq> [] \<Longrightarrow> a = xs ! 0"
  by (cases xs) auto

lemma task_chain_cong: "(\<And>x. x \<in> set xs \<Longrightarrow> tk' x = tk x) \<Longrightarrow> task_chain tk' a xs = task_chain tk a xs"
  by (induction xs arbitrary: a) auto

lemma task_chain_append:
  assumes "task_chain tk a xs" "xs \<noteq> []" "distinct xs" "y \<notin> set xs" "y \<noteq> 0" "t_next ty = 0"
    and "tk (List.last xs) = Some l"
  shows "task_chain (tk(List.last xs \<mapsto> l\<lparr>t_next := y\<rparr>, y \<mapsto> ty)) a (xs @ [y])"
  using assms
proof (induction xs arbitrary: a)
  case (Cons x xs)
  show ?case
  proof (cases "xs = []")
    case True
    with Cons.prems show ?thesis by auto
  next
    case False
    let ?tk = "tk(List.last xs \<mapsto> l\<lparr>t_next := y\<rparr>, y \<mapsto> ty)"
    from Cons.prems(1) obtain t where t: "a = x" "x \<noteq> 0" "tk x = Some t" "task_chain tk (t_next t) xs" by auto
    have "task_chain ?tk (t_next t) (xs @ [y])"
      using Cons.IH [OF t(4)] Cons.prems False by (simp del: fun_upd_apply)
    moreover have "x \<noteq> List.last xs" using Cons.prems(3) False by auto
    then have "?tk x = Some t" using t(3) Cons.prems(4) by auto
    ultimately show ?thesis using t(1,2) False by (simp del: fun_upd_apply)
  qed
qed simp

subsection \<open>Round robin\<close>

lemma task_next_step:
  assumes "task_ring s xs" "current_task s = xs ! i" "i < length xs"
  defines "y \<equiv> xs ! (Suc i mod length xs)"
  shows "\<exists>t s'. tasks s y = Some t \<and> task_next s = Inr (user_context (regs t), s') \<and> task_ring s' xs \<and>
    current_task s' = y \<and> tasks s' = tasks s \<and> task_head s' = task_head s \<and> cr3 s' = load32 (mem s) (page_directory t)"
proof -
  have ch: "task_chain (tasks s) (task_head s) xs" using assms(1) by (simp add: task_ring_def)
  obtain t where t: "tasks s (xs ! i) = Some t" "t_next t = (if Suc i < length xs then xs ! Suc i else 0)"
    using task_chain_nth [OF ch assms(3)] by blast
  have n0: "xs ! j \<noteq> 0" if "j < length xs" for j using task_chain_nth [OF ch that] by blast
  have nx: "task_get_next s = Inr y"
  proof (cases "Suc i < length xs")
    case True
    then show ?thesis using t n0 [OF True] by (simp add: task_get_next_def assms(2) y_def)
  next
    case False
    then have "Suc i = length xs" using assms(3) by simp
    moreover have "task_head s = xs ! 0" using task_chain_head [OF ch] assms(3) by (cases xs) simp_all
    ultimately show ?thesis using t by (simp add: task_get_next_def assms(2) y_def)
  qed
  have m: "Suc i mod length xs < length xs" using assms(3) by (intro mod_less_divisor) linarith
  then obtain u where u: "tasks s y = Some u" "y \<noteq> 0" "y \<in> set xs"
    using task_chain_nth [OF ch m] unfolding y_def by auto
  have "task_next s = Inr (task_return (paging_switch (s\<lparr>current_task := y\<rparr>) (page_directory u)) (regs u))"
    by (simp add: task_next_def nx u task_switch_def paging_switch_def paging_load_directory_def Let_def)
  moreover have "task_ring (paging_switch (s\<lparr>current_task := y\<rparr>) (page_directory u)) xs"
    using assms(1) u(3) by (simp add: task_ring_def paging_switch_def paging_load_directory_def Let_def)
  ultimately show ?thesis using u(1)
    by (simp add: task_return_def task_ring_def paging_switch_def paging_load_directory_def Let_def)
qed

text \<open>\<open>n\<close> more switches after one.\<close>

fun task_nexts :: "nat \<Rightarrow> 'a taskstate_scheme \<Rightarrow> (registers \<times> 'a taskstate_scheme) res" where
  "task_nexts 0 s = task_next s"
| "task_nexts (Suc n) s = bind_res (task_next s) (\<lambda>(r, s). task_nexts n s)"

lemma task_nexts_nth:
  assumes "task_ring s xs" "current_task s = xs ! i" "i < length xs"
  shows "\<exists>t s'. tasks s (xs ! (Suc (i + n) mod length xs)) = Some t \<and> task_nexts n s = Inr (user_context (regs t), s') \<and>
    task_ring s' xs \<and> current_task s' = xs ! (Suc (i + n) mod length xs)"
  using assms
proof (induction n arbitrary: s i)
  case 0
  from task_next_step [OF this] show ?case by auto
next
  case (Suc n)
  from task_next_step [OF Suc.prems] obtain r s1 where s1: "task_next s = Inr (r, s1)" "task_ring s1 xs"
    "current_task s1 = xs ! (Suc i mod length xs)" "tasks s1 = tasks s" by blast
  have "Suc i mod length xs < length xs" using Suc.prems(3) by (intro mod_less_divisor) linarith
  from Suc.IH [OF s1(2,3) this] have "\<exists>t s'. tasks s (xs ! (Suc (Suc i mod length xs + n) mod length xs)) = Some t \<and>
      task_nexts n s1 = Inr (user_context (regs t), s') \<and> task_ring s' xs \<and>
      current_task s' = xs ! (Suc (Suc i mod length xs + n) mod length xs)" by (simp add: s1(4))
  moreover have "Suc (Suc i mod length xs + n) mod length xs = Suc (i + Suc n) mod length xs"
    using mod_add_left_eq [of "Suc i" "length xs" "Suc n"] by simp
  ultimately show ?case by (simp add: s1(1))
qed

text \<open>C26: round robin. In a state whose task list is \<open>xs\<close>, with the \<open>i\<close>-th task current, the next switches enter the tasks \<open>i + 1\<close>, \<open>i + 2\<close>, ... of the
  list in this order, starting again at its head, each with the registers saved for it, and leave the list as it is. So every task is entered within one round.\<close>

theorem task_next_round_robin:
  assumes "task_ring s xs" "i < length xs" "current_task s = xs ! i"
  shows "(\<forall>n. \<exists>t s'. tasks s (xs ! (Suc (i + n) mod length xs)) = Some t \<and> task_nexts n s = Inr (user_context (regs t), s') \<and>
      current_task s' = xs ! (Suc (i + n) mod length xs) \<and> task_ring s' xs) \<and>
    (\<forall>y \<in> set xs. \<exists>n < length xs. xs ! (Suc (i + n) mod length xs) = y)"
proof (intro conjI allI ballI)
  show "\<exists>t s'. tasks s (xs ! (Suc (i + n) mod length xs)) = Some t \<and> task_nexts n s = Inr (user_context (regs t), s') \<and>
      current_task s' = xs ! (Suc (i + n) mod length xs) \<and> task_ring s' xs" for n
    using task_nexts_nth [OF assms(1,3,2), of n] by blast
next
  fix y assume "y \<in> set xs"
  then obtain j where j: "j < length xs" "y = xs ! j" by (auto simp: in_set_conv_nth)
  define n where "n = (j + length xs - Suc i) mod length xs"
  have "Suc (i + n) mod length xs = (Suc i + (j + length xs - Suc i)) mod length xs"
    by (simp add: n_def mod_add_right_eq flip: add_Suc)
  also have "Suc i + (j + length xs - Suc i) = j + length xs" using assms(2) by simp
  also have "(j + length xs) mod length xs = j" using j(1) by simp
  finally have "Suc (i + n) mod length xs = j" .
  moreover have "n < length xs" unfolding n_def using assms(2) by (intro mod_less_divisor) linarith
  ultimately show "\<exists>n < length xs. xs ! (Suc (i + n) mod length xs) = y" using j(2) by blast
qed

definition example_task :: "u32 \<Rightarrow> u32 \<Rightarrow> task" where
  "example_task nx pv = zero_task\<lparr>t_next := nx, t_prev := pv\<rparr>"

definition example_task_state :: taskstate where
  "example_task_state = elfstate.extend example_elf_state
     (taskstate.fields [0x01010000 \<mapsto> example_task 0x01020000 0, 0x01020000 \<mapsto> example_task 0x01030000 0x01010000,
        0x01030000 \<mapsto> example_task 0 0x01020000] (\<lambda>_. None) 0x01020000 0x01010000 0x01030000 0x01040000 0)"

lemma example_task_ring: "task_ring example_task_state [0x01010000, 0x01020000, 0x01030000]"
  by (simp add: task_ring_def example_task_state_def elfstate.extend_def taskstate.fields_def example_task_def)

lemma task_next_round_robin_witness:
  "\<exists>s'. task_nexts 1 example_task_state = Inr (user_context (regs zero_task), s') \<and> current_task s' = 0x01010000"
proof -
  have t: "tasks example_task_state 0x01010000 = Some (example_task 0x01020000 0)" "current_task example_task_state = 0x01020000"
    by (simp_all add: example_task_state_def elfstate.extend_def taskstate.fields_def)
  have "regs (example_task a b) = regs zero_task" for a b by (simp add: example_task_def)
  then show ?thesis
    using conjunct1 [OF task_next_round_robin [OF example_task_ring, where i = 1], THEN spec, of 1] t by (auto simp del: task_nexts.simps)
qed

subsection \<open>A new task\<close>

lemma new_tables_only_heap:
  "new_tables_loop s d fl i ofs = Inr s' \<Longrightarrow> \<exists>h m. s' = s\<lparr>kheap := h, mem := m\<rparr>"
proof (induction s d fl i ofs arbitrary: s' rule: new_tables_loop.induct)
  case (1 s d fl i ofs)
  show ?case
  proof (cases "i < 1024")
    case False
    with 1(2) have "s' = s\<lparr>kheap := kheap s, mem := mem s\<rparr>" by (simp add: new_tables_loop.simps [of s])
    then show ?thesis by blast
  next
    case True
    from 1(2) True obtain e s1 where s1: "kzalloc s 4096 = Inr (e, s1)"
        "new_tables_loop (s1\<lparr>mem := store32 (fill_table (mem s1) e ofs fl 1024) (d + of_nat (4 * i)) (e OR ucast fl OR 2)\<rparr>)
          d fl (Suc i) (ofs + 4194304) = Inr s'"
      by (subst (asm) new_tables_loop.simps) (auto simp: res_simps Let_def)
    obtain h m where hm: "s1 = s\<lparr>kheap := h, mem := m\<rparr>" using kzalloc_only_heap [OF s1(1)] by blast
    have "\<exists>h m. s' = s1\<lparr>kheap := h, mem := m\<rparr>"
      using 1(1) [OF True, of "(e, s1)" e s1 "fill_table (mem s1) e ofs fl 1024" "ofs + 4194304"
        "store32 (fill_table (mem s1) e ofs fl 1024) (d + of_nat (4 * i)) (e OR ucast fl OR 2)" s'] s1 by simp
    then show ?thesis using hm by auto
  qed
qed

lemma new_4gb_only_heap: "paging_new_4gb s fl = Inr (c, s') \<Longrightarrow> \<exists>h m. s' = s\<lparr>kheap := h, mem := m\<rparr>"
proof -
  assume "paging_new_4gb s fl = Inr (c, s')"
  then obtain d s1 s2 s3 where s: "kzalloc s 4096 = Inr (d, s1)" "new_tables_loop s1 d fl 0 0 = Inr s2"
      "kzalloc s2 4 = Inr (c, s3)" "s' = s3\<lparr>mem := store32 (mem s3) c d\<rparr>"
    by (auto simp: paging_new_4gb_def res_simps)
  obtain h1 m1 h2 m2 h3 m3 where "s1 = s\<lparr>kheap := h1, mem := m1\<rparr>" "s2 = s1\<lparr>kheap := h2, mem := m2\<rparr>"
      "s3 = s2\<lparr>kheap := h3, mem := m3\<rparr>"
    using kzalloc_only_heap [OF s(1)] new_tables_only_heap [OF s(2)] kzalloc_only_heap [OF s(3)] by blast
  then have "s' = s\<lparr>kheap := h3, mem := store32 m3 c d\<rparr>" by (simp add: s(4))
  then show ?thesis by blast
qed

text \<open>The entry point of the program a process holds.\<close>

definition entry_point :: "'a taskstate_scheme \<Rightarrow> u32 \<Rightarrow> u32 option" where
  "entry_point s pr = (case procs s pr of None \<Rightarrow> None
   | Some p \<Rightarrow> if pr_filetype p = PROCESS_FILE_TYPE_ELF
       then map_option (\<lambda>f. e_entry (hdr_at (mem s) (elf_header f))) (elf_files s (pr_ptr p)) else Some 0x400000)"

definition fresh_task :: "u32 \<Rightarrow> u32 \<Rightarrow> u32 \<Rightarrow> u32 \<Rightarrow> task" where
  "fresh_task chunk ip pr pv = \<lparr>page_directory = chunk, regs = zero_registers\<lparr>r_ip := ip, r_ss := 0x23, r_cs := 0x1b,
     r_esp := 0x3FF000\<rparr>, t_process = pr, t_next = 0, t_prev = pv\<rparr>"

lemma task_init_ok:
  fixes s :: "'a taskstate_scheme"
  assumes "kheap_inv s" "1026 \<le> kavail s" "\<And>s' :: 'a taskstate_scheme. procs s' = procs s \<Longrightarrow> elf_files s' = elf_files s \<Longrightarrow> entry_point s' pr \<noteq> None"
  obtains chunk h m ip where "task_init s task pr =
      Inr (0, s\<lparr>kheap := h, mem := m, tasks := (tasks s)(task \<mapsto> fresh_task chunk ip pr 0)\<rparr>)"
    "chunk_owned (s\<lparr>kheap := h, mem := m\<rparr>) chunk" "\<And>v. paging_get_physical_address m (load32 m chunk) v = v"
    "entry_point (s\<lparr>kheap := h, mem := m\<rparr>) pr = Some ip"
    "hadds (kheap s) (mem s) h m (map (\<lambda>q. (q, 1)) (chunk_pages (s\<lparr>kheap := h, mem := m\<rparr>) chunk))"
    "\<And>i. i < 1024 \<Longrightarrow> pde m chunk i AND 7 = 7"
proof -
  let ?t = "set_task s task zero_task"
  have s0: "kheap_inv ?t" "1026 \<le> kavail ?t" using assms(1,2) by (simp_all add: set_task_def)
  obtain chunk s1 where c: "paging_new_4gb ?t 5 = Inr (chunk, s1)" "chunk_owned s1 chunk"
    "\<And>k. k < 1048576 \<Longrightarrow> pte (mem s1) (chunk_dir s1 chunk) k = identity_entry k 5"
    "hadds (kheap ?t) (mem ?t) (kheap s1) (mem s1) (map (\<lambda>q. (q, 1)) (chunk_pages s1 chunk))"
    "\<And>i. i < 1024 \<Longrightarrow> \<exists>t. page_aligned t \<and> pde (mem s1) chunk i = t OR (ucast (5 :: u8) OR 2)"
    by (rule new_4gb_adds [OF s0, of 5]) (rule that)
  obtain h m where s1: "s1 = ?t\<lparr>kheap := h, mem := m\<rparr>" using new_4gb_only_heap [OF c(1)] by blast
  have "klive s1 chunk 1" using c(2) by (simp add: chunk_owned_def chunk_pages_def)
  then have c0: "chunk \<noteq> 0" using kz.live_bounds [OF haddsD(1) [OF c(4)]] by fastforce
  let ?s = "s\<lparr>kheap := h, mem := m\<rparr>"
  obtain ip where ip: "entry_point ?s pr = Some ip" using assms(3) [of ?s] by auto
  then obtain p where p: "procs s pr = Some p" by (auto simp: entry_point_def split: option.splits)
  have "task_init s task pr = Inr (0, s\<lparr>kheap := h, mem := m, tasks := (tasks s)(task \<mapsto> fresh_task chunk ip pr 0)\<rparr>)"
  proof (cases "pr_filetype p = 0")
    case True
    then obtain f where "elf_files s (pr_ptr p) = Some f" "ip = e_entry (hdr_at m (elf_header f))"
      using ip p by (auto simp: entry_point_def)
    then show ?thesis using c(1) c0 p True by (simp add: task_init_def s1 set_task_def fresh_task_def)
  next
    case False
    then have "ip = 0x400000" using ip p by (simp add: entry_point_def)
    then show ?thesis using c(1) c0 p False by (simp add: task_init_def s1 set_task_def fresh_task_def)
  qed
  moreover have pages: "chunk_pages s1 chunk = chunk_pages ?s chunk" "chunk_dir s1 chunk = load32 m chunk"
    by (simp_all add: chunk_pages_def chunk_dir_def s1)
  moreover have "chunk_owned ?s chunk" using c(2) by (simp add: chunk_owned_def pages(1)) (simp add: s1)
  moreover have "paging_get_physical_address m (load32 m chunk) v = v" for v
    using c(3) unfolding pages(2) by (intro identity_physical_address) (simp add: s1)
  moreover have "hadds (kheap s) (mem s) h m (map (\<lambda>q. (q, 1)) (chunk_pages ?s chunk))"
    using c(4) unfolding pages(1) by (simp add: s1 set_task_def)
  moreover have "pde m chunk i AND 7 = 7" if "i < 1024" for i
    using c(5) [OF that] by (auto simp: s1 page_low_bits)
  ultimately show thesis using ip by (intro that) simp_all
qed

text \<open>What the store of tasks looks like after an append.\<close>

definition appended :: "(u32 \<Rightarrow> task option) \<Rightarrow> u32 list \<Rightarrow> u32 \<Rightarrow> task \<Rightarrow> (u32 \<Rightarrow> task option)" where
  "appended tk xs y ty = (if xs = [] then tk(y \<mapsto> ty)
     else tk(List.last xs := map_option (\<lambda>l. l\<lparr>t_next := y\<rparr>) (tk (List.last xs)), y \<mapsto> ty\<lparr>t_prev := List.last xs\<rparr>))"

lemma task_list_appended:
  assumes "task_list s xs" "y \<notin> set xs" "y \<noteq> 0" "t_next ty = 0"
    and "tasks s' = appended (tasks s) xs y ty" "task_head s' = (if xs = [] then y else task_head s)" "task_tail s' = y"
    and "current_task s' = (if xs = [] then y else current_task s)" "\<And>x. x = y \<or> x \<in> set xs \<Longrightarrow> klive s' x 1"
  shows "task_list s' (xs @ [y])"
proof (cases "xs = []")
  case True
  then show ?thesis using assms(3-9) by (simp add: task_list_def task_ring_def appended_def)
next
  case False
  have r: "task_chain (tasks s) (task_head s) xs" "distinct xs" "current_task s \<in> set xs"
    using assms(1) False by (simp_all add: task_list_def task_ring_def)
  have "length xs - 1 < length xs" using False by (cases xs) auto
  then obtain l where l: "tasks s (List.last xs) = Some l"
    using task_chain_nth [OF r(1)] last_conv_nth [OF False] by metis
  have "task_chain (tasks s') (task_head s) (xs @ [y])"
    using task_chain_append [OF r(1) False r(2) assms(2,3) _ l, of "ty\<lparr>t_prev := List.last xs\<rparr>"] assms(4) False
    by (simp add: assms(5) appended_def l)
  then show ?thesis using False r assms(2,6-9) by (auto simp: task_list_def task_ring_def)
qed

lemma task_new_ok:
  fixes s :: "'a taskstate_scheme"
  assumes "kheap_inv s" "1027 \<le> kavail s" "task_list s xs" "procs s pr = Some p"
    and "pr_filetype p = 0 \<longrightarrow> elf_files s (pr_ptr p) \<noteq> None"
  obtains task chunk ip h m tk hd tl cur where "task_new s pr = Inr (task, s\<lparr>kheap := h, mem := m, tasks := tk, task_head := hd,
      task_tail := tl, current_task := cur\<rparr>)" "task \<notin> set xs" "task_list (s\<lparr>kheap := h, tasks := tk, task_head := hd,
      task_tail := tl, current_task := cur\<rparr>) (xs @ [task])"
    "tk task = Some (fresh_task chunk ip pr (if xs = [] then 0 else List.last xs))" "entry_point (s\<lparr>mem := m\<rparr>) pr = Some ip"
    "chunk_owned (s\<lparr>kheap := h, mem := m\<rparr>) chunk" "\<And>v. paging_get_physical_address m (load32 m chunk) v = v"
    "hadds (kheap s) (mem s) h m (map (\<lambda>q. (q, 1)) (task # chunk_pages (s\<lparr>mem := m\<rparr>) chunk))"
    "cur = (if xs = [] then task else current_task s)"
    "\<And>x t. x \<noteq> task \<Longrightarrow> tasks s x = Some t \<Longrightarrow> \<exists>t'. tk x = Some t' \<and> regs t' = regs t \<and> page_directory t' = page_directory t \<and> t_process t' = t_process t"
    "\<And>i. i < 1024 \<Longrightarrow> pde m chunk i AND 7 = 7"
proof -
  have a: "0 < kavail s" using assms(2) by simp
  obtain y h1 m1 where y: "kzalloc s 64 = Inr (y, s\<lparr>kheap := h1, mem := m1\<rparr>)" "y \<noteq> 0"
      "hgrown (kheap s) (mem s) h1 m1 [y]"
    by (rule kzalloc_grown [OF assms(1) a, of 64]) (simp, simp, rule that)
  let ?s1 = "s\<lparr>kheap := h1, mem := m1\<rparr>"
  note g = hgrownD [OF y(3)]
  have inv1: "kheap_inv ?s1" "1026 \<le> kavail ?s1" using g(1,5) assms(2) by simp_all
  have ep: "entry_point t pr \<noteq> None" if "procs t = procs ?s1" "elf_files t = elf_files ?s1" for t :: "'a taskstate_scheme"
    using that assms(4,5) by (auto simp: entry_point_def)
  obtain chunk h m ip where c: "task_init ?s1 y pr =
      Inr (0, ?s1\<lparr>kheap := h, mem := m, tasks := (tasks ?s1)(y \<mapsto> fresh_task chunk ip pr 0)\<rparr>)"
    "chunk_owned (?s1\<lparr>kheap := h, mem := m\<rparr>) chunk" "\<And>v. paging_get_physical_address m (load32 m chunk) v = v"
    "entry_point (?s1\<lparr>kheap := h, mem := m\<rparr>) pr = Some ip"
    "hadds (kheap ?s1) (mem ?s1) h m (map (\<lambda>q. (q, 1)) (chunk_pages (?s1\<lparr>kheap := h, mem := m\<rparr>) chunk))"
    "\<And>i. i < 1024 \<Longrightarrow> pde m chunk i AND 7 = 7"
    by (rule task_init_ok [OF inv1 ep, where task = y]) (assumption, assumption, rule that)
  have fresh: "y \<notin> set xs" using g(4) [of y 1] assms(3) by (auto simp: task_list_def)
  have live: "heap_live h x 1" if "x = y \<or> x \<in> set xs" for x
    using that assms(3) haddsD(3) [OF c(5)] g(6) by (auto simp: task_list_def)
  let ?t = "fresh_task chunk ip pr 0"
  have "\<exists>tk hd tl cur. task_new s pr = Inr (y, s\<lparr>kheap := h, mem := m, tasks := tk, task_head := hd, task_tail := tl, current_task := cur\<rparr>) \<and>
    tk = appended (tasks s) xs y ?t \<and> hd = (if xs = [] then y else task_head s) \<and> tl = y \<and>
    cur = (if xs = [] then y else current_task s)"
  proof (cases "xs = []")
    case True
    then have "task_head s = 0" using assms(3) by (simp add: task_list_def)
    then show ?thesis using True y(1,2) c(1) by (simp add: task_new_def appended_def)
  next
    case False
    have r: "task_chain (tasks s) (task_head s) xs" "task_tail s = List.last xs"
      using assms(3) False by (simp_all add: task_list_def task_ring_def)
    have lt: "length xs - 1 < length xs" using False by (cases xs) auto
    have hd: "task_head s \<noteq> 0" using task_chain_nth [OF r(1), of 0] task_chain_head [OF r(1) False] False by simp
    obtain l where l: "tasks s (List.last xs) = Some l"
      using task_chain_nth [OF r(1) lt] last_conv_nth [OF False] by metis
    have "List.last xs \<noteq> y" using fresh False by auto
    then show ?thesis using False y(1,2) c(1) hd r(2) l
      by (simp add: task_new_def appended_def set_task_def fun_upd_twist)
  qed
  then obtain tk hd tl cur where s': "task_new s pr = Inr (y, s\<lparr>kheap := h, mem := m, tasks := tk, task_head := hd,
      task_tail := tl, current_task := cur\<rparr>)" "tk = appended (tasks s) xs y ?t" "hd = (if xs = [] then y else task_head s)" "tl = y"
    "cur = (if xs = [] then y else current_task s)" by blast
  have "task_list (s\<lparr>kheap := h, tasks := tk, task_head := hd, task_tail := tl, current_task := cur\<rparr>) (xs @ [y])"
    by (rule task_list_appended [OF assms(3) fresh y(2) _, where ty = ?t]) (simp_all add: fresh_task_def s' live del: One_nat_def)
  moreover have "chunk_owned (s\<lparr>kheap := h, mem := m\<rparr>) chunk" using c(2) by (simp add: chunk_owned_def chunk_pages_def chunk_dir_def)
  moreover have "entry_point (s\<lparr>mem := m\<rparr>) pr = Some ip" using c(4) assms(4) by (cases "pr_filetype p = 0") (simp_all add: entry_point_def)
  moreover have "tk y = Some (fresh_task chunk ip pr (if xs = [] then 0 else List.last xs))"
    by (simp add: s'(2) appended_def fresh_task_def)
  moreover have "hadds (kheap s) (mem s) h m (map (\<lambda>q. (q, 1)) (y # chunk_pages (s\<lparr>mem := m\<rparr>) chunk))"
    using hadds_trans [OF hgrown_hadds [OF y(3)], of h m "map (\<lambda>q. (q, 1)) (chunk_pages (s\<lparr>mem := m\<rparr>) chunk)"] c(5)
    by (simp add: chunk_pages_def chunk_dir_def)
  moreover have "\<exists>t'. tk x = Some t' \<and> regs t' = regs t \<and> page_directory t' = page_directory t \<and> t_process t' = t_process t"
    if "x \<noteq> y" "tasks s x = Some t" for x t
    using that by (cases "xs = []"; cases "x = List.last xs") (simp_all add: s'(2) appended_def)
  ultimately show thesis using s'(1,5) fresh c(3,6) by (intro that [where task = y and chunk = chunk and ip = ip and h = h and m = m and tk = tk and hd = hd
      and tl = tl and cur = cur]) simp_all
qed

text \<open>C27: while the heap has a page directory's worth of blocks, \<open>task_new\<close> appends one task to the list: its page directory is its own and maps
  every address to itself, its registers start the program at its entry point in user mode on the user stack.\<close>

theorem task_new_appends:
  fixes s :: "'a taskstate_scheme"
  assumes "kheap_inv s" "1027 \<le> kavail s" "task_list s xs" "procs s pr = Some p"
    and "pr_filetype p = 0 \<longrightarrow> elf_files s (pr_ptr p) \<noteq> None"
  shows "\<exists>task s' chunk ip. task_new s pr = Inr (task, s') \<and> task \<notin> set xs \<and> task_list s' (xs @ [task]) \<and> kheap_inv s' \<and>
    tasks s' task = Some (fresh_task chunk ip pr (if xs = [] then 0 else List.last xs)) \<and> entry_point s' pr = Some ip \<and>
    procs s' = procs s \<and> chunk_owned s' chunk \<and> (\<forall>v. paging_get_physical_address (mem s') (load32 (mem s') chunk) v = v)"
proof -
  obtain task chunk ip h m tk hd tl cur where t: "task_new s pr = Inr (task, s\<lparr>kheap := h, mem := m, tasks := tk, task_head := hd,
      task_tail := tl, current_task := cur\<rparr>)" "task \<notin> set xs" "task_list (s\<lparr>kheap := h, tasks := tk, task_head := hd,
      task_tail := tl, current_task := cur\<rparr>) (xs @ [task])"
    "tk task = Some (fresh_task chunk ip pr (if xs = [] then 0 else List.last xs))" "entry_point (s\<lparr>mem := m\<rparr>) pr = Some ip"
    "chunk_owned (s\<lparr>kheap := h, mem := m\<rparr>) chunk" "\<And>v. paging_get_physical_address m (load32 m chunk) v = v"
    "hadds (kheap s) (mem s) h m (map (\<lambda>q. (q, 1)) (task # chunk_pages (s\<lparr>mem := m\<rparr>) chunk))"
    by (rule task_new_ok [OF assms]) (rule that)
  let ?s = "s\<lparr>kheap := h, mem := m, tasks := tk, task_head := hd, task_tail := tl, current_task := cur\<rparr>"
  have "task_list ?s (xs @ [task])" using t(3) by (simp add: task_list_def task_ring_def)
  moreover have "chunk_owned ?s chunk" using t(6) by (simp add: chunk_owned_def chunk_pages_def chunk_dir_def)
  moreover have "entry_point ?s pr = Some ip" using t(5) assms(4) by (cases "pr_filetype p = 0") (simp_all add: entry_point_def)
  ultimately show ?thesis using t(1,2,4,7) haddsD(1) [OF t(8)] by (intro exI [of _ task] exI [of _ ?s] exI [of _ chunk] exI [of _ ip]) simp
qed

definition example_process :: process where
  "example_process = \<lparr>pr_id = 0, pr_filename = replicate 108 0, pr_task = 0, pr_allocations = replicate 1024 (0, 0),
     pr_filetype = 1, pr_ptr = 0, pr_stack = 0, pr_size = 0, kb_buffer = replicate 1024 0, kb_tail = 0, kb_head = 0,
     pr_argc = 0, pr_argv = 0\<rparr>"

text \<open>The machine of the file examples without tasks and with one process.\<close>

definition example_no_tasks :: taskstate where
  "example_no_tasks = elfstate.extend example_elf_state
     (taskstate.fields (\<lambda>_. None) [0x01050000 \<mapsto> example_process] 0 0 0 0 0)"

lemma example_no_tasks_facts:
  "kheap_inv example_no_tasks" "kavail example_no_tasks = 25600" "task_list example_no_tasks []"
  "procs example_no_tasks 0x01050000 = Some example_process"
  using example_file_facts
  by (simp_all add: example_no_tasks_def elfstate.extend_def taskstate.fields_def example_elf_state_def
      filestate.extend_def task_list_def)

lemma task_new_appends_witness:
  "\<exists>task s' t. task_new example_no_tasks 0x01050000 = Inr (task, s') \<and> task_list s' [task] \<and> tasks s' task = Some t \<and>
     r_ip (regs t) = 0x400000 \<and> r_cs (regs t) = 0x1b"
proof -
  obtain task s' chunk ip where "task_new example_no_tasks 0x01050000 = Inr (task, s')" "task_list s' [task]"
      "tasks s' task = Some (fresh_task chunk ip 0x01050000 0)" "entry_point s' 0x01050000 = Some ip"
      "procs s' = procs example_no_tasks"
    using task_new_appends [OF example_no_tasks_facts(1) _ example_no_tasks_facts(3,4)] example_no_tasks_facts(2)
    by (auto simp: example_process_def)
  moreover from this have "ip = 0x400000"
    using example_no_tasks_facts(4) by (simp add: entry_point_def example_process_def)
  ultimately show ?thesis by (simp add: fresh_task_def)
qed

subsection \<open>Removing a task\<close>

lemma free_tables_only_heap: "free_tables_loop s c i = Inr s' \<Longrightarrow> \<exists>h. s' = s\<lparr>kheap := h\<rparr>"
proof (induction s c i arbitrary: s' rule: free_tables_loop.induct)
  case (1 s c i)
  show ?case
  proof (cases "i < 1024")
    case False
    with 1(2) have "s' = s\<lparr>kheap := kheap s\<rparr>" by (simp add: free_tables_loop.simps [of s])
    then show ?thesis by blast
  next
    case True
    let ?e = "load32 (mem s) (load32 (mem s) c + of_nat (4 * i))"
    from 1(2) True obtain s1 where s1: "kfree s (?e AND 0xfffff000) = Inr s1" "free_tables_loop s1 c (Suc i) = Inr s'"
      by (subst (asm) free_tables_loop.simps) (auto simp: res_simps Let_def)
    then obtain h where "s1 = s\<lparr>kheap := h\<rparr>" by (auto simp: kfree_Inr)
    with 1(1) [OF True refl refl, of s1 s'] s1 show ?thesis by auto
  qed
qed

lemma free_4gb_only_heap: "paging_free_4gb s c = Inr s' \<Longrightarrow> \<exists>h. s' = s\<lparr>kheap := h\<rparr>"
  by (auto simp: paging_free_4gb_def res_simps kfree_Inr dest!: free_tables_only_heap)

text \<open>Freeing the first task of a list leaves the \<open>prev\<close> pointer of the second at it; removing that one next
  accesses the freed task.\<close>

theorem task_list_remove_stale_prev:
  assumes "tasks s a = Some ta" "t_prev ta = 0" "t_next ta = b" "tasks s b = Some tb" "t_prev tb = a" "a \<noteq> b" "a \<noteq> 0"
    and "task_free s a = Inr s'"
  shows "tasks s' a = None \<and> tasks s' b = Some tb \<and> task_list_remove s' b = Inl NullDeref"
proof -
  obtain s1 s2 s3 where s: "paging_free_4gb s (page_directory ta) = Inr s1" "task_list_remove s1 a = Inr s2"
      "kfree s2 a = Inr s3" "s' = s3\<lparr>tasks := (tasks s3)(a := None)\<rparr>"
    using assms(1,8) by (auto simp: task_free_def res_simps)
  obtain h where s1: "s1 = s\<lparr>kheap := h\<rparr>" using free_4gb_only_heap [OF s(1)] by blast
  have "tasks s2 = tasks s"
    using s(2) assms(1,2) by (auto simp: task_list_remove_def s1 Let_def res_simps split: if_splits)
  then have "tasks s' = (tasks s)(a := None)" using s(3,4) by (auto simp: kfree_Inr)
  then have "tasks s' a = None" "tasks s' b = Some tb" using assms(4,6) by simp_all
  then show ?thesis using assms(5,7) by (simp add: task_list_remove_def)
qed

text \<open>Two tasks whose page directories lie behind the heap, where \<open>kfree\<close> does nothing.\<close>

definition example_two_tasks :: taskstate where
  "example_two_tasks = example_task_state\<lparr>mem := (\<lambda>_. 0x7F), task_head := 0x01010000,
     tasks := [0x01010000 \<mapsto> zero_task\<lparr>page_directory := 0x7F000000, t_next := 0x01020000\<rparr>,
       0x01020000 \<mapsto> zero_task\<lparr>page_directory := 0x7F000000, t_prev := 0x01010000\<rparr>]\<rparr>"

lemma kfree_behind_heap:
  assumes "kheap s = kernel_fresh_heap" "0x07400000 \<le> unat p" "unat p < 2147483648"
  shows "kfree s p = Inr s"
proof -
  have "unat (p - 0x01000000) = unat p - 0x01000000"
    using assms(2) by (subst unat_sub) (simp_all add: word_le_nat_alt)
  then have "sint (p - 0x01000000) = int (unat p - 0x01000000)"
    using assms(2,3) by (subst sint_small) simp_all
  moreover have "int (unat p - 0x01000000) sdiv 4096 = int ((unat p - 0x01000000) div 4096)"
    using sdiv_nat(1) [of "unat p - 0x01000000" 4096] by simp
  moreover have "25600 \<le> (unat p - 0x01000000) div 4096" using assms(2) by simp
  ultimately have "\<not> heap_address_to_block (kheap s) p < sint (ht_total (heap_tbl (kheap s)))"
    by (simp add: heap_address_to_block_def assms(1) kernel_fresh_heap_def fresh_heap_def)
  then show ?thesis
    by (simp add: kfree_def heap_free_def heap_mark_blocks_free_def mark_free_loop.simps)
qed

lemma free_tables_behind_heap:
  "kheap s = kernel_fresh_heap \<Longrightarrow> mem s = (\<lambda>_. 0x7F) \<Longrightarrow> free_tables_loop s c i = Inr s"
proof (induction s c i rule: free_tables_loop.induct)
  case (1 s c i)
  have l: "load32 (\<lambda>_. 0x7F) a = 0x7F7F7F7F" for a by (simp add: load32_def)
  have k: "kfree s 0x7F7F7000 = Inr s" by (rule kfree_behind_heap [OF 1(2)]) simp_all
  show ?case
  proof (cases "i < 1024")
    case True
    have "free_tables_loop s c (Suc i) = Inr s" by (rule 1(1) [OF True refl refl _ 1(2,3)]) (simp add: l k 1(3))
    with True k show ?thesis by (subst free_tables_loop.simps) (simp add: l 1(3))
  next
    case False
    then show ?thesis by (subst free_tables_loop.simps) simp
  qed
qed

lemma task_list_remove_stale_prev_witness:
  "\<exists>s'. task_free example_two_tasks 0x01010000 = Inr s' \<and> task_list_remove s' 0x01020000 = Inl NullDeref"
proof -
  have h: "kheap example_two_tasks = kernel_fresh_heap" "mem example_two_tasks = (\<lambda>_. 0x7F)"
    by (simp_all add: example_two_tasks_def example_task_state_def elfstate.extend_def example_elf_state_def
      filestate.extend_def example_file_state_def fatstate.extend_def example_fat_state_def)
  have pg: "paging_free_4gb example_two_tasks 0x7F000000 = Inr example_two_tasks"
  proof -
    have "kfree example_two_tasks 0x7F7F7F7F = Inr example_two_tasks" "kfree example_two_tasks 0x7F000000 = Inr example_two_tasks"
      by (rule kfree_behind_heap [OF h(1)]; simp)+
    moreover have "load32 (mem example_two_tasks) 0x7F000000 = 0x7F7F7F7F" by (simp add: h(2) load32_def)
    ultimately show ?thesis by (simp only: paging_free_4gb_def free_tables_behind_heap [OF h] bind_res.simps)
  qed
  let ?s = "example_two_tasks\<lparr>task_head := 0x01020000\<rparr>"
  let ?a = "zero_task\<lparr>page_directory := 0x7F000000, t_next := 0x01020000\<rparr>"
  let ?b = "zero_task\<lparr>page_directory := 0x7F000000, t_prev := 0x01010000\<rparr>"
  have t: "tasks example_two_tasks 0x01010000 = Some ?a" "tasks example_two_tasks 0x01020000 = Some ?b"
      "task_head example_two_tasks = 0x01010000" "task_tail example_two_tasks = 0x01030000"
      "current_task example_two_tasks = 0x01020000"
    by (simp_all add: example_two_tasks_def example_task_state_def elfstate.extend_def taskstate.fields_def)
  have "heap_address_to_block kernel_fresh_heap 0x01010000 = 16"
    by (simp add: heap_address_to_block_def kernel_fresh_heap_def fresh_heap_def signed_divide_int_def)
  moreover have "\<exists>n. ht_entries (heap_tbl kernel_fresh_heap) = replicate n 0 \<and> 16 < n"
    by (intro exI [of _ 25600]) (simp add: kernel_fresh_heap_def fresh_heap_def)
  ultimately have "freed ?s 0x01010000" by (auto simp: freed_def h(1) Let_def)
  then have k: "kfree ?s 0x01010000 = Inr (?s\<lparr>kheap := kheap ?s\<rparr>)" by (simp add: freed_kfree)
  have "task_list_remove example_two_tasks 0x01010000 = Inr ?s"
    using t by (simp add: task_list_remove_def zero_task_def)
  then have fr: "task_free example_two_tasks 0x01010000 =
      Inr (?s\<lparr>kheap := kheap ?s, tasks := (tasks ?s)(0x01010000 := None)\<rparr>)"
    using t(1) pg k by (simp add: task_free_def)
  from task_list_remove_stale_prev [OF t(1) _ _ t(2) _ _ _ fr] fr show ?thesis by (simp add: zero_task_def)
qed

end
