(* ===== verification/Process.thy ===== *)
theory Process
  imports TaskList
begin

text \<open>
  Processes: src/task/process.c. A process is a \<open>struct process\<close> in \<open>procs\<close>; the table of running processes holds addresses. A pointer
  to a process that is NULL or freed is a NULL dereference. The arguments of a command are a linked list of \<open>struct command_argument\<close> in
  physical memory: 512 bytes and a next pointer. An out parameter \<open>struct process **\<close> is returned, 0 where it is not written or NULL.
\<close>

record procstate = taskstate +
  current_process :: u32
  processes :: "u32 list" \<comment> \<open>12 of them\<close>

abbreviation (input) MARROWOS_MAX_PROCESSES :: int where "MARROWOS_MAX_PROCESSES \<equiv> 12"
abbreviation (input) MARROWOS_USER_PROGRAM_STACK_SIZE :: u32 where "MARROWOS_USER_PROGRAM_STACK_SIZE \<equiv> 16384"
abbreviation (input) MARROWOS_PROGRAM_VIRTUAL_STACK_ADDRESS_END :: u32 where
  "MARROWOS_PROGRAM_VIRTUAL_STACK_ADDRESS_END \<equiv> 0x3FF000 - 16384"

definition set_proc :: "'a taskstate_scheme \<Rightarrow> u32 \<Rightarrow> process \<Rightarrow> 'a taskstate_scheme" where
  "set_proc s a p = s\<lparr>procs := (procs s)(a \<mapsto> p)\<rparr>"

text \<open>\<open>process->task->page_directory\<close>\<close>

definition process_directory :: "'a taskstate_scheme \<Rightarrow> u32 \<Rightarrow> u32 res" where
  "process_directory s process =
     bind_res (obj_get (procs s) process) (\<lambda>p. bind_res (obj_get (tasks s) (pr_task p)) (\<lambda>t. Inr (page_directory t)))"

definition process_init :: "'a taskstate_scheme \<Rightarrow> u32 \<Rightarrow> 'a taskstate_scheme" where
  "process_init s process = set_proc s process
     \<lparr>pr_id = 0, pr_filename = replicate 108 0, pr_task = 0, pr_allocations = replicate 1024 (0, 0), pr_filetype = 0,
      pr_ptr = 0, pr_stack = 0, pr_size = 0, kb_buffer = replicate 1024 0, kb_tail = 0, kb_head = 0, pr_argc = 0, pr_argv = 0\<rparr>"

definition process_current :: "'a procstate_scheme \<Rightarrow> u32" where
  "process_current s = current_process s"

definition process_get :: "'a procstate_scheme \<Rightarrow> int \<Rightarrow> u32 res" where
  "process_get s process_id =
     (if process_id < 0 \<or> MARROWOS_MAX_PROCESSES \<le> process_id then Inr 0 else list_get (processes s) process_id)"

definition process_switch :: "'a procstate_scheme \<Rightarrow> u32 \<Rightarrow> 'a procstate_scheme" where
  "process_switch s process = s\<lparr>current_process := process\<rparr>"

subsection \<open>Allocations of a process\<close>

definition process_find_free_allocation_index :: "process \<Rightarrow> int" where
  "process_find_free_allocation_index p =
     (case free_slot_loop (\<lambda>(ptr, sz). ptr = 0) (pr_allocations p) 0 of None \<Rightarrow> - ENOMEM | Some i \<Rightarrow> int i)"

definition process_malloc :: "'a taskstate_scheme \<Rightarrow> u32 \<Rightarrow> u32 \<Rightarrow> (u32 \<times> 'a taskstate_scheme) res" where
  "process_malloc s process sz =
     bind_res (kzalloc s sz) (\<lambda>(ptr, s).
       if ptr = 0 then Inr (0, s)
       else bind_res (obj_get (procs s) process) (\<lambda>p.
         let index = process_find_free_allocation_index p
         in if index < 0 then bind_res (kfree s ptr) (\<lambda>s. Inr (0, s))
            else bind_res (process_directory s process) (\<lambda>dir.
              let (res, m) = paging_map_to (mem s) dir ptr ptr (paging_align_address (ptr + sz)) 7;
                  s = s\<lparr>mem := m\<rparr>
              in if res < 0 then bind_res (kfree s ptr) (\<lambda>s. Inr (0, s))
                 else Inr (ptr, set_proc s process
                        (p\<lparr>pr_allocations := (pr_allocations p)[nat index := (ptr, sz)]\<rparr>)))))"

definition process_allocation_unjoin :: "process \<Rightarrow> u32 \<Rightarrow> process" where
  "process_allocation_unjoin p ptr =
     p\<lparr>pr_allocations := map (\<lambda>(a, sz). if a = ptr then (0, 0) else (a, sz)) (pr_allocations p)\<rparr>"

definition process_get_allocation_by_addr :: "process \<Rightarrow> u32 \<Rightarrow> (u32 \<times> u32) option" where
  "process_get_allocation_by_addr p addr = find (\<lambda>(a, sz). a = addr) (pr_allocations p)"

definition process_free :: "'a taskstate_scheme \<Rightarrow> u32 \<Rightarrow> u32 \<Rightarrow> 'a taskstate_scheme res" where
  "process_free s process ptr =
     bind_res (obj_get (procs s) process) (\<lambda>p.
       case process_get_allocation_by_addr p ptr of
         None \<Rightarrow> Inr s
       | Some (a, sz) \<Rightarrow>
           bind_res (process_directory s process) (\<lambda>dir.
             let (res, m) = paging_map_to (mem s) dir a a (paging_align_address (a + sz)) 0;
                 s = s\<lparr>mem := m\<rparr>
             in if res < 0 then Inr s
                else kfree (set_proc s process (process_allocation_unjoin p ptr)) ptr))"

text \<open>\<open>for (i = 0; i < 1024; i++)\<close> over the table as it is when it is read.\<close>

fun terminate_allocations_loop :: "'a taskstate_scheme \<Rightarrow> u32 \<Rightarrow> nat \<Rightarrow> nat \<Rightarrow> 'a taskstate_scheme res" where
  "terminate_allocations_loop s process i 0 = Inr s"
| "terminate_allocations_loop s process i (Suc n) =
     bind_res (obj_get (procs s) process) (\<lambda>p.
     bind_res (list_get (pr_allocations p) (int i)) (\<lambda>(a, sz).
     bind_res (if a \<noteq> 0 then process_free s process a else Inr s) (\<lambda>s.
       terminate_allocations_loop s process (Suc i) n)))"

definition process_terminate_allocations :: "'a taskstate_scheme \<Rightarrow> u32 \<Rightarrow> 'a taskstate_scheme res" where
  "process_terminate_allocations s process = terminate_allocations_loop s process 0 1024"

subsection \<open>Freeing a process\<close>

definition process_free_binary_data :: "'a taskstate_scheme \<Rightarrow> process \<Rightarrow> 'a taskstate_scheme res" where
  "process_free_binary_data s p = (if pr_ptr p \<noteq> 0 then kfree s (pr_ptr p) else Inr s)"

definition process_free_elf_data :: "'a taskstate_scheme \<Rightarrow> process \<Rightarrow> 'a taskstate_scheme res" where
  "process_free_elf_data s p = (if pr_ptr p \<noteq> 0 then elf_close s (pr_ptr p) else Inr s)"

definition process_free_program_data :: "'a taskstate_scheme \<Rightarrow> u32 \<Rightarrow> (int \<times> 'a taskstate_scheme) res" where
  "process_free_program_data s process =
     bind_res (obj_get (procs s) process) (\<lambda>p.
       if pr_filetype p = PROCESS_FILE_TYPE_BINARY then bind_res (process_free_binary_data s p) (\<lambda>s. Inr (0, s))
       else if pr_filetype p = PROCESS_FILE_TYPE_ELF then bind_res (process_free_elf_data s p) (\<lambda>s. Inr (0, s))
       else Inr (- EINVARG, s))"

definition process_switch_to_any :: "'a procstate_scheme \<Rightarrow> 'a procstate_scheme res" where
  "process_switch_to_any s =
     (case find (\<lambda>p. p \<noteq> 0) (processes s) of
        None \<Rightarrow> panic (''No processes to switch too '' @ [CHR 0x0A])
      | Some p \<Rightarrow> Inr (process_switch s p))"

definition process_unlink :: "'a procstate_scheme \<Rightarrow> u32 \<Rightarrow> 'a procstate_scheme res" where
  "process_unlink s process =
     bind_res (obj_get (procs s) process) (\<lambda>p.
     bind_res (list_set (processes s) (uint (pr_id p)) 0) (\<lambda>ps.
       let s = s\<lparr>processes := ps\<rparr>
       in if current_process s = process then process_switch_to_any s else Inr s))"

definition process_free_process :: "'a taskstate_scheme \<Rightarrow> u32 \<Rightarrow> 'a taskstate_scheme res" where
  "process_free_process s process =
     bind_res (process_terminate_allocations s process) (\<lambda>s.
     bind_res (process_free_program_data s process) (\<lambda>(r, s).
     bind_res (obj_get (procs s) process) (\<lambda>p.
     bind_res (if pr_stack p \<noteq> 0
               then bind_res (kfree s (pr_stack p)) (\<lambda>s. Inr (set_proc s process (p\<lparr>pr_stack := 0\<rparr>)))
               else Inr s) (\<lambda>s.
     bind_res (obj_get (procs s) process) (\<lambda>p.
     bind_res (if pr_task p \<noteq> 0
               then bind_res (task_free s (pr_task p)) (\<lambda>s. Inr (set_proc s process (p\<lparr>pr_task := 0\<rparr>)))
               else Inr s) (\<lambda>s.
     bind_res (kfree s process) (\<lambda>s. Inr (s\<lparr>procs := (procs s)(process := None)\<rparr>))))))))"

definition process_terminate :: "'a procstate_scheme \<Rightarrow> u32 \<Rightarrow> 'a procstate_scheme res" where
  "process_terminate s process = bind_res (process_unlink s process) (\<lambda>s. process_free_process s process)"

subsection \<open>Arguments\<close>

definition process_get_arguments :: "process \<Rightarrow> int \<times> u32" where
  "process_get_arguments p = (pr_argc p, pr_argv p)"

definition arg_bytes :: "memory \<Rightarrow> u32 \<Rightarrow> u8 list" where "arg_bytes m a = read_bytes m a 512"
definition arg_next :: "memory \<Rightarrow> u32 \<Rightarrow> u32" where "arg_next m a = load32 m (a + 512)"

text \<open>None is a list that never ends.\<close>

partial_function (option) count_arguments_loop :: "memory \<Rightarrow> u32 \<Rightarrow> int \<Rightarrow> int option" where
  "count_arguments_loop m cur i = (if cur = 0 then Some i else count_arguments_loop m (arg_next m cur) (i + 1))"

definition process_count_command_arguments :: "memory \<Rightarrow> u32 \<Rightarrow> int res" where
  "process_count_command_arguments m root_argument =
     (case count_arguments_loop m root_argument 0 of None \<Rightarrow> Inl Hang | Some n \<Rightarrow> Inr n)"

partial_function (option) inject_loop ::
  "'a taskstate_scheme \<Rightarrow> u32 \<Rightarrow> u32 \<Rightarrow> u32 \<Rightarrow> u32 \<Rightarrow> (int \<times> 'a taskstate_scheme) res option" where
  "inject_loop s process argv cur i =
     (if cur = 0 then Some (Inr (0, s))
      else case process_malloc s process 512 of
        Inl e \<Rightarrow> Some (Inl e)
      | Inr (argument_str, s) \<Rightarrow>
          if argument_str = 0 then Some (Inr (- ENOMEM, s))
          else case strncpy (read_bytes (mem s) argument_str 512) 0 (arg_bytes (mem s) cur) 512 of
            Inl e \<Rightarrow> Some (Inl e)
          | Inr buf \<Rightarrow>
              let m = write_bytes (mem s) argument_str buf;
                  m = store32 m (argv + 4 * i) argument_str
              in inject_loop (s\<lparr>mem := m\<rparr>) process argv (arg_next m cur) (i + 1))"

definition process_inject_arguments :: "'a taskstate_scheme \<Rightarrow> u32 \<Rightarrow> u32 \<Rightarrow> (int \<times> 'a taskstate_scheme) res" where
  "process_inject_arguments s process root_argument =
     bind_res (process_count_command_arguments (mem s) root_argument) (\<lambda>argc.
       if argc = 0 then Inr (- EIO, s)
       else bind_res (process_malloc s process (4 * word_of_int argc)) (\<lambda>(argv, s).
         if argv = 0 then Inr (- ENOMEM, s)
         else case inject_loop s process argv root_argument 0 of
           None \<Rightarrow> Inl Hang
         | Some r \<Rightarrow> bind_res r (\<lambda>(res, s).
             if res < 0 then Inr (res, s)
             else bind_res (obj_get (procs s) process) (\<lambda>p.
               Inr (0, set_proc s process (p\<lparr>pr_argc := argc, pr_argv := argv\<rparr>))))))"

end
