(* ===== verification/ProcessLoad.thy ===== *)
theory ProcessLoad
  imports Process
begin

text \<open>
  Loading a program: the second half of src/task/process.c. A program file is an ELF file or, when the ELF loader
  answers \<open>-EINFORMAT\<close>, a flat binary; its memory and a stack are mapped into the address space of a new task.
\<close>

definition process_load_binary :: "'a taskstate_scheme \<Rightarrow> u8 list \<Rightarrow> u32 \<Rightarrow> (int \<times> 'a taskstate_scheme) res" where
  "process_load_binary s path process =
     bind_res (fopen s path (c_literal ''r'')) (\<lambda>(fd, s).
       let out = (\<lambda>s (res :: int) ptr.
             bind_res (if res < 0 \<and> ptr \<noteq> 0 then kfree s ptr else Inr s) (\<lambda>s.
             bind_res (fclose s fd) (\<lambda>(r, s). Inr (res, s))))
       in if fd = 0 then out s (- EIO) 0
          else bind_res (fstat s fd) (\<lambda>(res, st).
            if res \<noteq> MARROWOS_ALL_OK then out s res 0
            else case st of None \<Rightarrow> Inl NullDeref
            | Some st \<Rightarrow> bind_res (kzalloc s (stat_filesize st)) (\<lambda>(program_data_ptr, s).
                if program_data_ptr = 0 then out s (- ENOMEM) 0
                else bind_res (fread s program_data_ptr (stat_filesize st) 1 fd) (\<lambda>(n, s).
                  if n \<noteq> 1 then out s (- EIO) program_data_ptr
                  else bind_res (obj_get (procs s) process) (\<lambda>p.
                    out (set_proc s process (p\<lparr>pr_filetype := PROCESS_FILE_TYPE_BINARY, pr_ptr := program_data_ptr,
                      pr_size := stat_filesize st\<rparr>)) 0 program_data_ptr)))))"

definition process_get_free_slot :: "'a procstate_scheme \<Rightarrow> int" where
  "process_get_free_slot s =
     (case free_slot_loop (\<lambda>p. p = 0) (processes s) 0 of None \<Rightarrow> - EISTKN | Some i \<Rightarrow> int i)"

definition process_load_elf :: "'a taskstate_scheme \<Rightarrow> u8 list \<Rightarrow> u32 \<Rightarrow> (int \<times> 'a taskstate_scheme) res" where
  "process_load_elf s path process =
     bind_res (elf_load s path) (\<lambda>(res, elf_file, s).
       if res < 0 then Inr (res, s)
       else bind_res (obj_get (procs s) process) (\<lambda>p.
         Inr (res, set_proc s process (p\<lparr>pr_filetype := PROCESS_FILE_TYPE_ELF, pr_ptr := elf_file\<rparr>))))"

definition process_load_data :: "'a taskstate_scheme \<Rightarrow> u8 list \<Rightarrow> u32 \<Rightarrow> (int \<times> 'a taskstate_scheme) res" where
  "process_load_data s path process =
     bind_res (process_load_elf s path process) (\<lambda>(res, s).
       if res = - EINFORMAT then process_load_binary s path process else Inr (res, s))"

subsection \<open>Mapping\<close>

definition process_map_binary :: "'a taskstate_scheme \<Rightarrow> u32 \<Rightarrow> (int \<times> 'a taskstate_scheme) res" where
  "process_map_binary s process =
     bind_res (obj_get (procs s) process) (\<lambda>p.
     bind_res (process_directory s process) (\<lambda>dir.
       let (res, m) = paging_map_to (mem s) dir MARROWOS_PROGRAM_VIRTUAL_ADDRESS (pr_ptr p)
             (paging_align_address (pr_ptr p + pr_size p)) 7
       in Inr (res, s\<lparr>mem := m\<rparr>)))"

text \<open>One segment: the result and the memory.\<close>

definition map_segment :: "memory \<Rightarrow> u32 \<Rightarrow> elf_file \<Rightarrow> elf32_phdr \<Rightarrow> int \<times> memory" where
  "map_segment m dir f phdr =
     (let phdr_phys_address = elf_phdr_phys_address f phdr;
          flags = (if p_flags phdr AND PF_W \<noteq> 0 then 5 OR 2 else 5)
      in paging_map_to m dir (paging_align_to_lower_page (p_vaddr phdr)) (paging_align_to_lower_page phdr_phys_address)
           (paging_align_address (phdr_phys_address + p_memsz phdr)) flags)"

fun map_elf_loop :: "memory \<Rightarrow> u32 \<Rightarrow> elf_file \<Rightarrow> u32 \<Rightarrow> nat \<Rightarrow> nat \<Rightarrow> int \<Rightarrow> int \<times> memory" where
  "map_elf_loop m dir f phdrs i 0 res = (res, m)"
| "map_elf_loop m dir f phdrs i (Suc n) res =
     (let (res, m) = map_segment m dir f (phdr_at m (phdrs + 32 * of_nat i))
      in if res < 0 then (res, m) else map_elf_loop m dir f phdrs (Suc i) n res)"

definition process_map_elf :: "'a taskstate_scheme \<Rightarrow> u32 \<Rightarrow> (int \<times> 'a taskstate_scheme) res" where
  "process_map_elf s process =
     bind_res (obj_get (procs s) process) (\<lambda>p.
     bind_res (obj_get (elf_files s) (pr_ptr p)) (\<lambda>f.
     bind_res (process_directory s process) (\<lambda>dir.
       let hdr = elf_header f;
           (res, m) = map_elf_loop (mem s) dir f (elf_pheader (mem s) hdr) 0 (unat (e_phnum (hdr_at (mem s) hdr))) 0
       in Inr (res, s\<lparr>mem := m\<rparr>))))"

definition process_map_memory :: "'a taskstate_scheme \<Rightarrow> u32 \<Rightarrow> (int \<times> 'a taskstate_scheme) res" where
  "process_map_memory s process =
     bind_res (obj_get (procs s) process) (\<lambda>p.
     bind_res (if pr_filetype p = PROCESS_FILE_TYPE_ELF then process_map_elf s process
               else if pr_filetype p = PROCESS_FILE_TYPE_BINARY then process_map_binary s process
               else panic ''process_map_memory: Invalid filetype'') (\<lambda>(res, s).
       if res < 0 then Inr (res, s)
       else bind_res (process_directory s process) (\<lambda>dir.
         let (r, m) = paging_map_to (mem s) dir MARROWOS_PROGRAM_VIRTUAL_STACK_ADDRESS_END (pr_stack p)
               (paging_align_address (pr_stack p + MARROWOS_USER_PROGRAM_STACK_SIZE)) 7
         in Inr (res, s\<lparr>mem := m\<rparr>))))"

subsection \<open>Loading\<close>

definition process_load_out :: "'a taskstate_scheme \<Rightarrow> int \<Rightarrow> u32 \<Rightarrow> (int \<times> u32 \<times> 'a taskstate_scheme) res" where
  "process_load_out s res process =
     (if process \<noteq> 0 then bind_res (process_free_process s process) (\<lambda>s. Inr (res, 0, s)) else Inr (res, 0, s))"

definition process_load_for_slot ::
  "'a procstate_scheme \<Rightarrow> u8 list \<Rightarrow> int \<Rightarrow> (int \<times> u32 \<times> 'a procstate_scheme) res" where
  "process_load_for_slot s path process_slot =
     bind_res (process_get s process_slot) (\<lambda>old.
       if old \<noteq> 0 then process_load_out s (- EISTKN) 0
       else bind_res (kzalloc s 9364) (\<lambda>(process, s).
         if process = 0 then process_load_out s (- ENOMEM) 0
         else bind_res (process_load_data (process_init s process) path process) (\<lambda>(res, s).
           if res < 0 then process_load_out s res process
           else bind_res (kzalloc s MARROWOS_USER_PROGRAM_STACK_SIZE) (\<lambda>(stack, s).
           bind_res (obj_get (procs s) process) (\<lambda>p.
             let s = set_proc s process (p\<lparr>pr_stack := stack\<rparr>)
             in if stack = 0 then process_load_out s (- ENOMEM) process
                else bind_res (strncpy (pr_filename p) 0 path 108) (\<lambda>name.
                  let s = set_proc s process (p\<lparr>pr_stack := stack, pr_filename := name, pr_id := word_of_int process_slot\<rparr>)
                  in bind_res (task_new s process) (\<lambda>(task, s).
                     bind_res (obj_get (procs s) process) (\<lambda>p.
                       if ERROR_I task < 0
                       then process_load_out (set_proc s process (p\<lparr>pr_task := 0\<rparr>)) (ERROR_I task) process
                       else bind_res (process_map_memory (set_proc s process (p\<lparr>pr_task := task\<rparr>)) process) (\<lambda>(res, s).
                         if res < 0 then process_load_out s res process
                         else bind_res (list_set (processes s) process_slot process) (\<lambda>ps.
                           Inr (res, process, s\<lparr>processes := ps\<rparr>)))))))))))"

definition process_load :: "'a procstate_scheme \<Rightarrow> u8 list \<Rightarrow> (int \<times> u32 \<times> 'a procstate_scheme) res" where
  "process_load s path =
     (let process_slot = process_get_free_slot s
      in if process_slot < 0 then Inr (- EISTKN, 0, s) else process_load_for_slot s path process_slot)"

definition process_load_switch :: "'a procstate_scheme \<Rightarrow> u8 list \<Rightarrow> (int \<times> u32 \<times> 'a procstate_scheme) res" where
  "process_load_switch s path =
     bind_res (process_load s path) (\<lambda>(res, process, s).
       Inr (res, process, if res = 0 then process_switch s process else s))"

end
