(* ===== verification/ProcessAlloc.thy ===== *)
theory ProcessAlloc
  imports ProcessLoad
begin

text \<open>
  Memory of a process: \<open>process_malloc\<close> gives a fresh zeroed page that the process may write, \<open>process_free\<close> takes it back and out of the
  address space. \<open>proc_ok\<close> is the invariant of a process with a task and its own page directory.
\<close>

definition proc_ok :: "'a taskstate_scheme \<Rightarrow> u32 \<Rightarrow> process \<Rightarrow> u32 \<Rightarrow> bool" where
  "proc_ok s pr p dir \<longleftrightarrow> kheap_inv s \<and> procs s pr = Some p \<and>
     (\<exists>t. tasks s (pr_task p) = Some t \<and> page_directory t = dir) \<and> chunk_owned s dir \<and>
     (\<forall>(a, sz) \<in> set (pr_allocations p). a \<noteq> 0 \<longrightarrow> (\<exists>n. klive s a n))"

lemma align_end:
  assumes "page_aligned ptr" "0 < unat sz" "unat sz \<le> 4096" "unat ptr + 4096 \<le> 2147483648"
  shows "paging_align_address (ptr + sz) = ptr + 4096" "page_aligned (ptr + 4096)" "ptr \<le> ptr + 4096"
    "page_no (ptr + 4096) = Suc (page_no ptr)"
proof -
  have u: "unat (ptr + sz) = unat ptr + unat sz"
    using assms(3,4) by (subst unat_plus_if') simp
  have u': "unat (ptr + 4096) = unat ptr + 4096" using assms(4) unat_plus_of_nat [of ptr 4096] by simp
  show "page_aligned (ptr + 4096)" by (rule page_aligned_next [OF assms(1)])
  show "ptr \<le> ptr + 4096" by (simp add: word_le_nat_alt u')
  show "page_no (ptr + 4096) = Suc (page_no ptr)" by (simp add: page_no_def u')
  have md: "unat ((ptr + sz) mod 4096) = unat sz mod 4096"
    using assms(1) by (simp add: unat_mod u page_aligned_def) (metis add.commute mod_add_right_eq add_0_right)
  show "paging_align_address (ptr + sz) = ptr + 4096"
  proof (cases "unat sz = 4096")
    case True
    then have "sz = 4096" by (simp add: word_unat_eq_iff)
    then show ?thesis using md by (simp add: paging_align_address_def unat_eq_zero)
  next
    case False
    then have "unat ((ptr + sz) mod 4096) = unat sz" using md assms(3) by simp
    then have "(ptr + sz) mod 4096 = sz" by (simp add: word_unat_eq_iff)
    moreover have "sz \<noteq> 0" using assms(2) by auto
    ultimately show ?thesis by (simp add: paging_align_address_def)
  qed
qed

lemma map_one_page:
  assumes "chunk_ok m c" "page_aligned ptr" "unat ptr + 4096 \<le> 2147483648"
  shows "\<exists>m'. paging_map_to m c ptr ptr (ptr + 4096) flags = (0, m') \<and> load32 m' c = load32 m c \<and>
    dir_pages m' (load32 m c) = dir_pages m (load32 m c) \<and>
    (\<forall>k<1048576. page_entry m' c k = (if k = page_no ptr then ptr OR flags else page_entry m c k)) \<and>
    (\<forall>a. outside_pages (dir_pages m (load32 m c)) a \<longrightarrow> m' a = m a)"
proof -
  note e = align_end(2-4) [OF assms(2) _ _ assms(3), of 1]
  have e: "page_aligned (ptr + 4096)" "ptr \<le> ptr + 4096" "page_no (ptr + 4096) = Suc (page_no ptr)"
    using e by simp_all
  have "page_no ptr + 1 \<le> 1048576" using page_no_bound [of "ptr"] by simp
  from map_range_loop_maps [OF assms(1,2,2) this, of flags] obtain m' where
    m': "map_range_loop m c ptr ptr 1 flags 0 = (0, m')" "load32 m' c = load32 m c"
      "dir_pages m' (load32 m c) = dir_pages m (load32 m c)"
      "\<forall>k<1048576. pte m' (load32 m c) k = (if page_no ptr \<le> k \<and> k < page_no ptr + 1
        then (ptr + of_nat (4096 * (k - page_no ptr))) OR flags else pte m (load32 m c) k)"
      "\<forall>a. outside_pages (dir_pages m (load32 m c)) a \<longrightarrow> m' a = m a" by blast
  have "nat (sint ((ptr + 4096 - ptr) div 4096)) = 1"
    using total_pages [OF e(2) assms(2) e(1)] e(3) by simp
  moreover have "ptr mod 4096 = 0" "(ptr + 4096) mod 4096 = 0" "\<not> ptr + 4096 < ptr"
    using assms(2) e(1,2) by (simp_all add: page_mod_iff)
  ultimately have "paging_map_to m c ptr ptr (ptr + 4096) flags = (0, m')"
    using m'(1) by (simp add: paging_map_to_def paging_map_range_def Let_def)
  moreover have "page_entry m' c k = (if k = page_no ptr then ptr OR flags else page_entry m c k)" if "k < 1048576" for k
    using m'(4) that unfolding page_entry_def m'(2) by (cases "k = page_no ptr") auto
  ultimately show ?thesis using m'(2,3,5) by blast
qed

lemma proc_ok_allocated:
  assumes "proc_ok s pr p dir" "kheap_inv s1" "chunk_owned s1 dir" "tasks s1 = tasks s" "\<And>q n. klive s q n \<Longrightarrow> klive s1 q n"
    and "procs s1 pr = Some (p\<lparr>pr_allocations := (pr_allocations p)[i := (ptr, sz)]\<rparr>)" "klive s1 ptr m"
  shows "proc_ok s1 pr (p\<lparr>pr_allocations := (pr_allocations p)[i := (ptr, sz)]\<rparr>) dir"
proof -
  have "\<exists>n. klive s1 (fst x) n" if "x \<in> set ((pr_allocations p)[i := (ptr, sz)])" "fst x \<noteq> 0" for x
  proof -
    have "x = (ptr, sz) \<or> x \<in> set (pr_allocations p)" using that(1) set_update_subset_insert by fastforce
    then show ?thesis
    proof
      assume "x \<in> set (pr_allocations p)"
      then have "\<exists>n. klive s (fst x) n" using assms(1) that(2) by (auto simp: proc_ok_def split_def)
      then show ?thesis using assms(5) by blast
    qed (use assms(7) in auto)
  qed
  then show ?thesis using assms by (auto simp: proc_ok_def split_def)
qed

lemma process_malloc_page:
  fixes s :: "'a taskstate_scheme"
  assumes "proc_ok s pr p dir" "0 < kavail s" "0 < unat sz" "unat sz \<le> 4096"
    and "free_slot_loop (\<lambda>(a, sz). a = 0) (pr_allocations p) 0 = Some i"
  obtains ptr s1 where "process_malloc s pr sz = Inr (ptr, s1)" "ptr \<noteq> 0" "\<And>n. \<not> klive s ptr n"
    "\<And>q n. klive s1 q n \<longleftrightarrow> klive s q n \<or> q = ptr \<and> n = 1" "kavail s1 = kavail s - 1" "kheap_inv s1"
    "procs s1 = (procs s)(pr \<mapsto> p\<lparr>pr_allocations := (pr_allocations p)[i := (ptr, sz)]\<rparr>)" "tasks s1 = tasks s"
    "\<And>k. k < 1048576 \<Longrightarrow> page_entry (mem s1) dir k = (if k = page_no ptr then ptr OR 7 else page_entry (mem s) dir k)"
    "\<And>a. addr_in a ptr (unat sz) \<Longrightarrow> mem s1 a = 0" "chunk_owned s1 dir" "page_aligned ptr" "unat ptr + 4096 \<le> 2147483648"
    "\<And>q n a. klive s q n \<Longrightarrow> q \<notin> set (chunk_pages s dir) \<Longrightarrow> addr_in a q (4096 * n) \<Longrightarrow> mem s1 a = mem s a"
    "\<exists>h m. s1 = s\<lparr>kheap := h, mem := m, procs := (procs s)(pr \<mapsto> p\<lparr>pr_allocations := (pr_allocations p)[i := (ptr, sz)]\<rparr>)\<rparr>"
    "chunk_pages s1 dir = chunk_pages s dir" "saddr (kheap s1) = saddr (kheap s)"
    "\<And>a. unat a < unat (saddr (kheap s)) \<Longrightarrow> mem s1 a = mem s a" "\<And>j. j < 1024 \<Longrightarrow> pde (mem s1) dir j = pde (mem s) dir j"
proof -
  from assms(1) obtain t where ok: "kheap_inv s" "procs s pr = Some p" "tasks s (pr_task p) = Some t"
      "page_directory t = dir" "chunk_owned s dir" by (auto simp: proc_ok_def)
  obtain ptr s' where z: "kzalloc s sz = Inr (ptr, s')" "ptr \<noteq> 0" "kheap_inv s'" "kavail s' = kavail s - 1"
      "\<And>q n. klive s' q n \<longleftrightarrow> klive s q n \<or> q = ptr \<and> n = 1" "page_aligned ptr" "\<And>n. \<not> klive s ptr n"
      "\<And>q n a. klive s q n \<Longrightarrow> addr_in a q (4096 * n) \<Longrightarrow> mem s' a = mem s a"
    by (rule kzalloc_one_page [OF ok(1) assms(2-4)]) (rule that)
  obtain h m where s': "s' = s\<lparr>kheap := h, mem := m\<rparr>" using kzalloc_only_heap [OF z(1)] by blast
  have own: "chunk_pages s' dir = chunk_pages s dir" "chunk_owned s' dir"
    by (rule chunk_owned_kept [OF ok(1,5)]; (rule z(8); assumption | simp add: z(5)))+
  have lp: "klive s' ptr 1" using z(5) by simp
  have bnd: "unat ptr + 4096 \<le> 2147483648" using kz.live_bounds [OF z(3) lp] by simp
  note al = align_end [OF z(6) assms(3,4) bnd]
  obtain m' where m': "paging_map_to (mem s') dir ptr ptr (ptr + 4096) 7 = (0, m')" "load32 m' dir = load32 (mem s') dir"
      "dir_pages m' (load32 (mem s') dir) = dir_pages (mem s') (load32 (mem s') dir)"
      "\<forall>k<1048576. page_entry m' dir k = (if k = page_no ptr then ptr OR 7 else page_entry (mem s') dir k)"
      "\<forall>a. outside_pages (dir_pages (mem s') (load32 (mem s') dir)) a \<longrightarrow> m' a = mem s' a"
    using map_one_page [OF chunk_owned_ok [OF z(3) own(2)] z(6) bnd, of 7] by blast
  define s1 where "s1 = s\<lparr>kheap := h, mem := m', procs := (procs s)(pr \<mapsto> p\<lparr>pr_allocations := (pr_allocations p)[i := (ptr, sz)]\<rparr>)\<rparr>"
  have pages1: "chunk_pages s1 dir = chunk_pages s' dir"
    using m'(2,3) by (simp add: chunk_pages_def chunk_dir_def s1_def s')
  have same: "m' a = mem s' a" if "klive s' q n" "q \<notin> set (chunk_pages s dir)" "addr_in a q (4096 * n)" for q n a
  proof -
    have "\<not> addr_in a c 4096" if "c \<in> set (dir_pages (mem s') (load32 (mem s') dir))" for c
    proof -
      have c: "c \<in> set (chunk_pages s' dir)" using that by (simp add: chunk_pages_def chunk_dir_def)
      then have "klive s' c 1" "q \<noteq> c" using own \<open>q \<notin> _\<close> by (auto simp: chunk_owned_def)
      then have "apart q n c 1" using kz.live_apart [OF z(3) \<open>klive s' q n\<close>, of c 1] by blast
      then show ?thesis using \<open>addr_in a q _\<close> by (auto simp: apart_def addr_in_def)
    qed
    then show ?thesis using m'(5) by (simp add: outside_pages_def)
  qed
  have pn: "ptr \<notin> set (chunk_pages s dir)" using ok(5) z(7) [of 1] by (auto simp: chunk_owned_def)
  have "process_malloc s pr sz = Inr (ptr, s1)"
    using z(1,2) ok(2-4) m'(1) al(1) assms(5)
    by (simp add: process_malloc_def process_directory_def process_find_free_allocation_index_def s' set_proc_def s1_def)
  moreover have "mem s1 a = 0" if "addr_in a ptr (unat sz)" for a
  proof -
    have "fair_request sz" using kz.page_request_fair [OF assms(3,4)] by simp
    then have "mem s' a = 0" using kz.alloc_zeroed [OF ok(1) _ z(1,2) that] by blast
    moreover have "addr_in a ptr (4096 * 1)" using that assms(4) by (auto simp: addr_in_def)
    ultimately show ?thesis using same [OF lp pn] by (simp add: s1_def)
  qed
  moreover have same_dir: "mem s' x = mem s x" if "q \<in> set (dir_pages (mem s) (load32 (mem s) dir) @ [dir])" "addr_in x q 4096" for q x
    using z(8) [of q 1 x] that ok(5) by (auto simp: chunk_owned_def chunk_pages_def chunk_dir_def)
  note tr = translations_cong [OF chunk_owned_ok [OF ok(1,5)] same_dir]
  have "page_entry (mem s1) dir k = (if k = page_no ptr then ptr OR 7 else page_entry (mem s) dir k)" if "k < 1048576" for k
    using tr(1,2) m'(4) that by (simp add: s1_def page_entry_def)
  moreover have "pde (mem s1) dir j = pde (mem s) dir j" if "j < 1024" for j
    using paging_map_to_pdes [OF chunk_owned_ok [OF z(3) own(2)] m'(1) that] tr(4) [OF _ _ that] by (simp add: s1_def)
  moreover have "mem s1 a = mem s a" if "klive s q n" "q \<notin> set (chunk_pages s dir)" "addr_in a q (4096 * n)" for q n a
    using same [of q n a] z(5) [of q n] z(8) [OF that(1,3)] that by (simp add: s1_def)
  moreover have "chunk_owned s1 dir" using own(2) pages1 by (simp add: chunk_owned_def) (simp add: s1_def s')
  moreover have "chunk_pages s1 dir = chunk_pages s dir" using pages1 own(1) by simp
  moreover have fair: "fair_request sz" using kz.page_request_fair [OF assms(3,4)] by simp
  note below = kzalloc_below [OF ok(1) fair z(1,2)]
  have "saddr (kheap s1) = saddr (kheap s)" using below(1) by (simp add: s1_def s')
  moreover have "mem s1 a = mem s a" if "unat a < unat (saddr (kheap s))" for a
  proof -
    have "outside_pages (dir_pages (mem s') (load32 (mem s') dir)) a"
      unfolding outside_pages_def
    proof
      fix c assume "c \<in> set (dir_pages (mem s') (load32 (mem s') dir))"
      then have "klive s' c 1" using own(2) by (simp add: chunk_owned_def chunk_pages_def chunk_dir_def)
      from heap_live_above [OF z(3) this] show "\<not> addr_in a c 4096" using that below(1) by (simp add: addr_in_def)
    qed
    then show ?thesis using m'(5) below(2) [OF that] by (simp add: s1_def)
  qed
  moreover have "\<exists>h m. s1 = s\<lparr>kheap := h, mem := m, procs := (procs s)(pr \<mapsto> p\<lparr>pr_allocations := (pr_allocations p)[i := (ptr, sz)]\<rparr>)\<rparr>"
    unfolding s1_def by blast
  ultimately show thesis using z bnd
    by (intro that [of ptr s1]) (simp_all add: s1_def s')
qed

text \<open>Freeing what a process has at \<open>ptr\<close>.\<close>

lemma process_free_page:
  fixes s :: "'a taskstate_scheme"
  assumes "proc_ok s pr p dir" "klive s ptr 1" "ptr \<noteq> 0" "0 < unat sz" "unat sz \<le> 4096"
    and "find (\<lambda>(a, z). a = ptr) (pr_allocations p) = Some (ptr, sz)"
  obtains s1 where "process_free s pr ptr = Inr s1" "procs s1 = (procs s)(pr \<mapsto> process_allocation_unjoin p ptr)"
    "\<And>q n. klive s1 q n \<longleftrightarrow> klive s q n \<and> q \<noteq> ptr" "kavail s1 = kavail s + 1" "kheap_inv s1" "tasks s1 = tasks s"
    "\<And>k. k < 1048576 \<Longrightarrow> page_entry (mem s1) dir k = (if k = page_no ptr then ptr else page_entry (mem s) dir k)"
proof -
  from assms(1) obtain t where ok: "kheap_inv s" "procs s pr = Some p" "tasks s (pr_task p) = Some t"
      "page_directory t = dir" "chunk_owned s dir" by (auto simp: proc_ok_def)
  have al: "page_aligned ptr" by (rule klive_aligned [OF ok(1) assms(2)])
  have bnd: "unat ptr + 4096 \<le> 2147483648" using kz.live_bounds [OF ok(1) assms(2)] by simp
  obtain m' where m': "paging_map_to (mem s) dir ptr ptr (ptr + 4096) 0 = (0, m')"
      "\<forall>k<1048576. page_entry m' dir k = (if k = page_no ptr then ptr OR 0 else page_entry (mem s) dir k)"
    using map_one_page [OF chunk_owned_ok [OF ok(1,5)] al bnd, of 0] by blast
  let ?s = "set_proc (s\<lparr>mem := m'\<rparr>) pr (process_allocation_unjoin p ptr)"
  have l: "klive ?s ptr 1" "kheap_inv ?s" using assms(2) ok(1) by (simp_all add: set_proc_def)
  obtain s1 where k: "kfree ?s ptr = Inr s1" using kz.free_ok [OF l(2,1)] by blast
  then obtain h where s1: "s1 = ?s\<lparr>kheap := h\<rparr>" by (auto simp: kfree_Inr)
  have "process_free s pr ptr = Inr s1"
    using ok(2-4) assms(6) m'(1) k align_end(1) [OF al assms(4,5) bnd]
    by (simp add: process_free_def process_get_allocation_by_addr_def process_directory_def)
  moreover have "klive s1 q n \<longleftrightarrow> klive s q n \<and> q \<noteq> ptr" for q n
    using kz.free_live [OF l(2,1) k, of q n] by (simp add: set_proc_def)
  moreover have "kavail s1 = kavail s + 1" using kz.free_avail [OF l(2,1) k] by (simp add: set_proc_def)
  moreover have "kheap_inv s1" by (rule kz.free_inv [OF l(2,1) k])
  ultimately show thesis using m'(2) by (intro that [of s1]) (simp_all add: s1 set_proc_def)
qed

text \<open>C28: \<open>process_malloc\<close> of at most a page gives a process a fresh page of zeros, mapped to itself and user writable in its address
  space and in no other entry, and records it in the first free slot of the allocation table.\<close>

theorem process_malloc_maps_fresh_page:
  fixes s :: "'a taskstate_scheme"
  assumes "proc_ok s pr p dir" "0 < kavail s" "0 < unat sz" "unat sz \<le> 4096"
    and "i < length (pr_allocations p)" "fst (pr_allocations p ! i) = 0" "\<forall>j < i. fst (pr_allocations p ! j) \<noteq> 0"
  shows "\<exists>ptr s1. process_malloc s pr sz = Inr (ptr, s1) \<and> ptr \<noteq> 0 \<and> (\<forall>n. \<not> klive s ptr n) \<and>
    proc_ok s1 pr (p\<lparr>pr_allocations := (pr_allocations p)[i := (ptr, sz)]\<rparr>) dir \<and>
    (\<forall>a. addr_in a ptr (unat sz) \<longrightarrow> mem s1 a = 0) \<and>
    (\<forall>k<1048576. page_entry (mem s1) dir k = (if k = page_no ptr then ptr OR 7 else page_entry (mem s) dir k))"
proof -
  have fr: "free_slot_loop (\<lambda>(a, sz). a = 0) (pr_allocations p) 0 = Some i"
    using free_slot_loop_first [of i "pr_allocations p" "\<lambda>(a, sz). a = 0" 0] assms(5-7) by (auto simp: split_def)
  obtain ptr s1 where z: "process_malloc s pr sz = Inr (ptr, s1)" "ptr \<noteq> 0" "\<And>n. \<not> klive s ptr n"
    "\<And>q n. klive s1 q n \<longleftrightarrow> klive s q n \<or> q = ptr \<and> n = 1" "kheap_inv s1"
    "procs s1 = (procs s)(pr \<mapsto> p\<lparr>pr_allocations := (pr_allocations p)[i := (ptr, sz)]\<rparr>)" "tasks s1 = tasks s"
    "\<And>k. k < 1048576 \<Longrightarrow> page_entry (mem s1) dir k = (if k = page_no ptr then ptr OR 7 else page_entry (mem s) dir k)"
    "chunk_owned s1 dir" "\<And>a. addr_in a ptr (unat sz) \<Longrightarrow> mem s1 a = 0"
    by (rule process_malloc_page [OF assms(1-4) fr]) (rule that)
  have "proc_ok s1 pr (p\<lparr>pr_allocations := (pr_allocations p)[i := (ptr, sz)]\<rparr>) dir"
    by (rule proc_ok_allocated [OF assms(1) z(5,9,7), where m = 1]) (use z(4,6) in simp_all)
  with z show ?thesis by blast
qed

text \<open>A process with an empty allocation table and an address space of its own.\<close>

lemma example_proc:
  obtains s :: taskstate and p dir where "proc_ok s 0x01050000 p dir" "0 < kavail s"
    "0 < length (pr_allocations p)" "fst (pr_allocations p ! 0) = 0" "pr_allocations p = replicate 1024 (0, 0)" "10 \<le> kavail s"
proof -
  note f = example_no_tasks_facts
  have "1026 \<le> kavail example_no_tasks" by (simp add: f(2))
  then obtain c s1 where c: "paging_new_4gb example_no_tasks 5 = Inr (c, s1)" "kheap_inv s1" "chunk_owned s1 c"
      "kavail s1 = kavail example_no_tasks - 1026"
    by (rule new_4gb_built [OF f(1), of 5]) (rule that)
  let ?s = "s1\<lparr>tasks := [0x01060000 \<mapsto> zero_task\<lparr>page_directory := c\<rparr>],
      procs := [0x01050000 \<mapsto> example_process\<lparr>pr_task := 0x01060000\<rparr>]\<rparr>"
  have "chunk_owned ?s c" using c(3) by (simp add: chunk_owned_def chunk_pages_def chunk_dir_def)
  then have "proc_ok ?s 0x01050000 (example_process\<lparr>pr_task := 0x01060000\<rparr>) c"
    using c(2) by (auto simp: proc_ok_def example_process_def)
  moreover have "0 < kavail ?s" "10 \<le> kavail ?s" using c(4) by (simp_all add: f(2))
  moreover have "0 < length (pr_allocations (example_process\<lparr>pr_task := 0x01060000\<rparr>))"
      "fst (pr_allocations (example_process\<lparr>pr_task := 0x01060000\<rparr>) ! 0) = 0"
      "pr_allocations (example_process\<lparr>pr_task := 0x01060000\<rparr>) = replicate 1024 (0, 0)"
    by (simp_all add: example_process_def)
  ultimately show thesis by (intro that)
qed

lemma process_malloc_maps_fresh_page_witness:
  "\<exists>(s :: taskstate) ptr s1. process_malloc s 0x01050000 100 = Inr (ptr, s1) \<and> ptr \<noteq> 0 \<and> mem s1 ptr = 0"
proof -
  obtain s :: taskstate and p dir where e: "proc_ok s 0x01050000 p dir" "0 < kavail s"
    "0 < length (pr_allocations p)" "fst (pr_allocations p ! 0) = 0" by (rule example_proc) (rule that)
  obtain ptr s1 where m: "process_malloc s 0x01050000 100 = Inr (ptr, s1)" "ptr \<noteq> 0"
      "\<And>a. addr_in a ptr (unat (100 :: u32)) \<Longrightarrow> mem s1 a = 0"
    using process_malloc_maps_fresh_page [OF e(1,2) _ _ e(3,4), of 100] by auto
  have "addr_in ptr ptr (unat (100 :: u32))" by (simp add: addr_in_def)
  from m(3) [OF this] m(1,2) show ?thesis by blast
qed

lemma find_updated:
  assumes "i < length xs" "\<forall>x \<in> set xs. fst x \<noteq> ptr"
  shows "find (\<lambda>(a, z). a = ptr) (xs[i := (ptr, sz)]) = Some (ptr, sz)"
  using assms
proof (induction xs arbitrary: i)
  case (Cons x xs)
  then show ?case by (cases i) (auto simp: split_def)
qed simp

lemma unjoin_updated:
  assumes "i < length xs" "\<forall>x \<in> set xs. fst x \<noteq> ptr"
  shows "map (\<lambda>(a, sz). if a = ptr then (0, 0) else (a, sz)) (xs[i := (ptr, sz)]) = xs[i := (0, 0)]"
proof -
  have "map (\<lambda>(a, sz). if a = ptr then (0, 0) else (a, sz)) xs = xs"
    using assms(2) by (intro map_idI) auto
  then show ?thesis by (simp add: map_update)
qed

text \<open>C30: \<open>process_free\<close> of what \<open>process_malloc\<close> returned empties the slot, gives the page back to the kernel heap and takes it
  out of the address space: its entry is no longer present.\<close>

theorem process_malloc_free:
  fixes s :: "'a taskstate_scheme"
  assumes "proc_ok s pr p dir" "0 < kavail s" "0 < unat sz" "unat sz \<le> 4096"
    and "i < length (pr_allocations p)" "fst (pr_allocations p ! i) = 0" "\<forall>j < i. fst (pr_allocations p ! j) \<noteq> 0"
  shows "\<exists>ptr s1 s2. process_malloc s pr sz = Inr (ptr, s1) \<and> process_free s1 pr ptr = Inr s2 \<and>
    procs s2 = (procs s)(pr \<mapsto> p\<lparr>pr_allocations := (pr_allocations p)[i := (0, 0)]\<rparr>) \<and>
    kheap_inv s2 \<and> kavail s2 = kavail s \<and> (\<forall>q n. klive s2 q n = klive s q n) \<and>
    \<not> bit (page_entry (mem s2) dir (page_no ptr)) 0"
proof -
  have fr: "free_slot_loop (\<lambda>(a, sz). a = 0) (pr_allocations p) 0 = Some i"
    using free_slot_loop_first [of i "pr_allocations p" "\<lambda>(a, sz). a = 0" 0] assms(5-7) by (auto simp: split_def)
  obtain ptr s1 where z: "process_malloc s pr sz = Inr (ptr, s1)" "ptr \<noteq> 0" "\<And>n. \<not> klive s ptr n"
    "\<And>q n. klive s1 q n \<longleftrightarrow> klive s q n \<or> q = ptr \<and> n = 1" "kavail s1 = kavail s - 1" "kheap_inv s1"
    "procs s1 = (procs s)(pr \<mapsto> p\<lparr>pr_allocations := (pr_allocations p)[i := (ptr, sz)]\<rparr>)" "tasks s1 = tasks s"
    "chunk_owned s1 dir" "page_aligned ptr"
    by (rule process_malloc_page [OF assms(1-4) fr]) (rule that)
  let ?p = "p\<lparr>pr_allocations := (pr_allocations p)[i := (ptr, sz)]\<rparr>"
  have no: "\<forall>x \<in> set (pr_allocations p). fst x \<noteq> ptr"
    using assms(1) z(2,3) by (fastforce simp: proc_ok_def)
  have ok1: "proc_ok s1 pr ?p dir"
    by (rule proc_ok_allocated [OF assms(1) z(6,9,8), where m = 1]) (use z(4,7) in simp_all)
  have lp: "klive s1 ptr 1" using z(4) by simp
  obtain s2 where f: "process_free s1 pr ptr = Inr s2" "procs s2 = (procs s1)(pr \<mapsto> process_allocation_unjoin ?p ptr)"
    "\<And>q n. klive s2 q n \<longleftrightarrow> klive s1 q n \<and> q \<noteq> ptr" "kavail s2 = kavail s1 + 1" "kheap_inv s2"
    "\<And>k. k < 1048576 \<Longrightarrow> page_entry (mem s2) dir k = (if k = page_no ptr then ptr else page_entry (mem s1) dir k)"
    by (rule process_free_page [OF ok1 lp z(2) assms(3,4)])
      (use find_updated [OF assms(5) no, of sz] in simp, rule that)
  have "page_entry (mem s2) dir (page_no ptr) = ptr" using f(6) [OF page_no_bound] by simp
  moreover have "4096 dvd unat ptr" using z(10) by (simp add: page_aligned_def mod_eq_0_iff_dvd)
  then have "even (unat ptr)" by (rule dvd_trans [rotated]) simp
  then have "\<not> bit ptr 0" using bit_unsigned_iff [of ptr 0, where 'a = nat] by (simp add: bit_0)
  moreover have "procs s2 = (procs s)(pr \<mapsto> p\<lparr>pr_allocations := (pr_allocations p)[i := (0, 0)]\<rparr>)"
    using unjoin_updated [OF assms(5) no, of sz] by (simp add: f(2) z(7) process_allocation_unjoin_def)
  moreover have "klive s2 q n = klive s q n" for q n using f(3) z(3,4) by auto
  ultimately show ?thesis using z(1) f(1,4,5) z(5) assms(2) by auto
qed

lemma process_malloc_free_witness:
  "\<exists>(s :: taskstate) ptr s1 s2. process_malloc s 0x01050000 100 = Inr (ptr, s1) \<and>
     process_free s1 0x01050000 ptr = Inr s2 \<and> kavail s2 = kavail s"
proof -
  obtain s :: taskstate and p dir where e: "proc_ok s 0x01050000 p dir" "0 < kavail s"
    "0 < length (pr_allocations p)" "fst (pr_allocations p ! 0) = 0" by (rule example_proc) (rule that)
  from process_malloc_free [OF e(1,2) _ _ e(3,4), of 100] show ?thesis by auto
qed

end
