(* ===== verification/Gdt.thy ===== *)
theory Gdt
  imports CMem Terminal
begin

text \<open>
  Segment descriptors: src/gdt/gdt.c and the table of kernel.c. \<open>encodeGdtEntry\<close> fills the eight bytes of a descriptor; \<open>gdt_base\<close> and
  \<open>gdt_limit\<close> are how the processor reads them (Intel SDM, volume 3A, 3.4.5), and decoding gives back what was encoded.
\<close>

record gdt_structured =
  gs_base :: u32
  gs_limit :: u32
  gs_type :: u8

definition encodeGdtEntry :: "u8 list \<Rightarrow> gdt_structured \<Rightarrow> u8 list res" where
  "encodeGdtEntry target source =
     (if 65536 < gs_limit source \<and> gs_limit source AND 0xFFF \<noteq> 0xFFF
      then panic (''encodedGdtEntry: Invalid argument.'' @ [CHR 0x0A])
      else
        bind_res (list_set target 6 0x40) (\<lambda>target.
        bind_res (if 65536 < gs_limit source
                  then bind_res (list_set target 6 0xC0) (\<lambda>target.
                         Inr (target, source\<lparr>gs_limit := drop_bit 12 (gs_limit source)\<rparr>))
                  else Inr (target, source)) (\<lambda>(target, source).
        bind_res (list_set target 0 (ucast (gs_limit source AND 0xFF))) (\<lambda>target.
        bind_res (list_set target 1 (ucast (drop_bit 8 (gs_limit source) AND 0xFF))) (\<lambda>target.
        bind_res (list_get target 6) (\<lambda>t6.
        bind_res (list_set target 6 (t6 OR ucast (drop_bit 16 (gs_limit source) AND 0x0F))) (\<lambda>target.
        bind_res (list_set target 2 (ucast (gs_base source AND 0xFF))) (\<lambda>target.
        bind_res (list_set target 3 (ucast (drop_bit 8 (gs_base source) AND 0xFF))) (\<lambda>target.
        bind_res (list_set target 4 (ucast (drop_bit 16 (gs_base source) AND 0xFF))) (\<lambda>target.
        bind_res (list_set target 7 (ucast (drop_bit 24 (gs_base source) AND 0xFF))) (\<lambda>target.
          list_set target 5 (gs_type source))))))))))))"

fun gdt_structured_to_gdt :: "u8 list list \<Rightarrow> gdt_structured list \<Rightarrow> nat \<Rightarrow> nat \<Rightarrow> u8 list list res" where
  "gdt_structured_to_gdt gdt sgdt i 0 = Inr gdt"
| "gdt_structured_to_gdt gdt sgdt i (Suc n) =
     bind_res (list_get gdt (int i)) (\<lambda>target.
     bind_res (list_get sgdt (int i)) (\<lambda>source.
     bind_res (encodeGdtEntry target source) (\<lambda>target.
     bind_res (list_set gdt (int i) target) (\<lambda>gdt. gdt_structured_to_gdt gdt sgdt (Suc i) n))))"

text \<open>The table of kernel.c; the address of the TSS is the linker's.\<close>

definition gdt_structured_table :: "u32 \<Rightarrow> gdt_structured list" where
  "gdt_structured_table tss =
     [\<lparr>gs_base = 0, gs_limit = 0, gs_type = 0\<rparr>, \<lparr>gs_base = 0, gs_limit = 0xffffffff, gs_type = 0x9a\<rparr>,
      \<lparr>gs_base = 0, gs_limit = 0xffffffff, gs_type = 0x92\<rparr>, \<lparr>gs_base = 0, gs_limit = 0xffffffff, gs_type = 0xF8\<rparr>,
      \<lparr>gs_base = 0, gs_limit = 0xffffffff, gs_type = 0xF2\<rparr>, \<lparr>gs_base = tss, gs_limit = 108, gs_type = 0xE9\<rparr>]"

subsection \<open>What the processor reads\<close>

definition gdt_base :: "u8 list \<Rightarrow> u32" where
  "gdt_base d = ucast (d ! 2) OR push_bit 8 (ucast (d ! 3)) OR push_bit 16 (ucast (d ! 4)) OR push_bit 24 (ucast (d ! 7))"

definition gdt_limit :: "u8 list \<Rightarrow> u32" where
  "gdt_limit d =
     (let raw = ucast (d ! 0) OR push_bit 8 (ucast (d ! 1)) OR push_bit 16 (ucast (d ! 6 AND 0x0F))
      in if bit (d ! 6) 7 then push_bit 12 raw OR 0xFFF else raw)"

lemma mask_byte: "v AND 0xFF = take_bit 8 v" for v :: u32
  using take_bit_eq_mask [of 8 v] by (simp add: mask_eq_exp_minus_1)

lemma byte_ucast: "ucast (v AND 0xFF) = (ucast v :: u8)" for v :: u32
  by (rule bit_word_eqI) (simp add: bit_ucast_iff mask_byte bit_take_bit_iff)

lemma limit_bytes:
  fixes v :: u32
  assumes "unat v < 2 ^ 20" "t = 0x40 \<or> t = (0xC0 :: u8)"
  shows "ucast (ucast v :: u8) OR push_bit 8 (ucast (ucast (drop_bit 8 v) :: u8)) OR
    push_bit 16 (ucast ((t OR ucast (drop_bit 16 v AND 0x0F)) AND 0x0F)) = v"
proof (rule bit_word_eqI)
  fix n assume n: "n < LENGTH(32)"
  have "unat (take_bit 20 v) = unat v" using assms(1) by (simp add: unsigned_take_bit_eq take_bit_nat_eq_self)
  then have "take_bit 20 v = v" by (rule unsigned_word_eqI)
  then have v: "bit v n \<Longrightarrow> n < 20" by (metis bit_take_bit_iff)
  have m: "x AND 0x0F = take_bit 4 x" for x :: "'a::len word"
    using take_bit_eq_mask [of 4 x] by (simp add: mask_eq_exp_minus_1)
  have t: "take_bit 4 t = 0" using assms(2) by auto
  have "take_bit 4 (t OR ucast (take_bit 4 (drop_bit 16 v))) = (ucast (take_bit 4 (drop_bit 16 v)) :: u8)"
    by (rule bit_word_eqI) (use t in \<open>auto simp: bit_take_bit_iff bit_or_iff bit_ucast_iff\<close>)
  then show "bit (ucast (ucast v :: u8) OR push_bit 8 (ucast (ucast (drop_bit 8 v) :: u8)) OR
      push_bit 16 (ucast ((t OR ucast (drop_bit 16 v AND 0x0F)) AND 0x0F)) :: u32) n = bit v n"
    using n v by (auto simp: m bit_or_iff bit_push_bit_iff bit_ucast_iff bit_take_bit_iff bit_drop_bit_eq)
qed

lemma encode_bytes:
  assumes "length target = 8" "gs_limit src \<le> 65536 \<or> gs_limit src AND 0xFFF = 0xFFF"
  defines "l \<equiv> if 65536 < gs_limit src then drop_bit 12 (gs_limit src) else gs_limit src"
    and "t6 \<equiv> if 65536 < gs_limit src then 0xC0 else (0x40 :: u8)" and "b \<equiv> gs_base src"
  shows "encodeGdtEntry target src = Inr [ucast l, ucast (drop_bit 8 l), ucast b, ucast (drop_bit 8 b),
    ucast (drop_bit 16 b), gs_type src, t6 OR ucast (drop_bit 16 l AND 0x0F), ucast (drop_bit 24 b)]"
proof -
  obtain a0 a1 a2 a3 a4 a5 a6 a7 where t: "target = [a0, a1, a2, a3, a4, a5, a6, a7]"
    using assms(1) by (auto simp: length_Suc_conv numeral_eq_Suc)
  show ?thesis
  proof (cases "65536 < gs_limit src")
    case True
    then have "gs_limit src AND 0xFFF = 0xFFF" using assms(2) by (simp add: not_le [symmetric])
    with True show ?thesis
      by (simp add: encodeGdtEntry_def t list_set_def list_get_def byte_ucast l_def t6_def b_def not_le)
  next
    case False
    then show ?thesis
      by (simp add: encodeGdtEntry_def t list_set_def list_get_def byte_ucast l_def t6_def b_def)
  qed
qed

lemma scaled_limit:
  fixes v :: u32
  assumes "v AND 0xFFF = 0xFFF"
  shows "push_bit 12 (drop_bit 12 v) OR 0xFFF = v"
proof -
  have "push_bit 12 (drop_bit 12 v) OR (v AND 0xFFF) = v"
  proof (rule bit_word_eqI)
    fix n assume n: "n < LENGTH(32)"
    have "v AND 0xFFF = take_bit 12 v" using take_bit_eq_mask [of 12 v] by (simp add: mask_eq_exp_minus_1)
    then show "bit (push_bit 12 (drop_bit 12 v) OR (v AND 0xFFF)) n = bit v n"
      using n by (auto simp: bit_or_iff bit_push_bit_iff bit_drop_bit_eq bit_take_bit_iff)
  qed
  then show ?thesis by (simp add: assms)
qed

lemma encode_decode:
  assumes "length target = 8" "gs_limit src \<le> 65536 \<or> gs_limit src AND 0xFFF = 0xFFF"
  shows "\<exists>d. encodeGdtEntry target src = Inr d \<and> gdt_base d = gs_base src \<and>
    gdt_limit d = gs_limit src \<and> d ! 5 = gs_type src"
proof -
  define l where "l = (if 65536 < gs_limit src then drop_bit 12 (gs_limit src) else gs_limit src)"
  define t6 :: u8 where "t6 = (if 65536 < gs_limit src then 0xC0 else 0x40)"
  have "unat (drop_bit 12 (gs_limit src)) < 2 ^ 20"
  proof -
    have "unat (gs_limit src) < 2 ^ 32" using unsigned_less [of "gs_limit src", where 'a = nat] by simp
    then have "unat (gs_limit src) div 4096 < 2 ^ 20" by simp
    with \<open>unat (gs_limit src) < 2 ^ 32\<close> show ?thesis
      unfolding unsigned_drop_bit_eq by (simp add: drop_bit_eq_div take_bit_nat_eq_self)
  qed
  moreover have "\<not> 65536 < gs_limit src \<Longrightarrow> unat (gs_limit src) < 2 ^ 20"
    by (simp add: word_less_nat_alt)
  ultimately have l: "unat l < 2 ^ 20" by (simp add: l_def)
  have t: "t6 = 0x40 \<or> t6 = 0xC0" by (simp add: t6_def)
  have "bit (t6 OR ucast (drop_bit 16 l AND 0x0F)) 7 \<longleftrightarrow> 65536 < gs_limit src"
  proof -
    have "drop_bit 16 l AND 0x0F = take_bit 4 (drop_bit 16 l)"
      using take_bit_eq_mask [of 4 "drop_bit 16 l"] by (simp add: mask_eq_exp_minus_1)
    then have "\<not> bit (ucast (drop_bit 16 l AND 0x0F) :: u8) 7" by (simp add: bit_ucast_iff bit_take_bit_iff)
    then show ?thesis by (simp add: bit_or_iff t6_def)
  qed
  moreover have "push_bit 12 (drop_bit 12 (gs_limit src)) OR 0xFFF = gs_limit src" if "65536 < gs_limit src"
    using assms(2) that by (intro scaled_limit) (simp add: not_le [symmetric])
  ultimately show ?thesis
    using encode_bytes [OF assms] limit_bytes [OF l t] bytes_of_u32 [of "gs_base src"]
    by (simp add: l_def [symmetric] t6_def [symmetric] gdt_base_def gdt_limit_def Let_def) (simp add: l_def)
qed

text \<open>C39: a descriptor read back the way the processor reads it has the base, the limit and the type
  it was encoded from, for every limit \<open>encodeGdtEntry\<close> takes.\<close>

theorem gdt_encode_decode:
  assumes "length target = 8" "gs_limit src \<le> 65536 \<or> gs_limit src AND 0xFFF = 0xFFF"
  shows "\<exists>d. encodeGdtEntry target src = Inr d \<and> gdt_base d = gs_base src \<and>
    gdt_limit d = gs_limit src \<and> d ! 5 = gs_type src"
  by (rule encode_decode [OF assms])

lemma gdt_encode_decode_witness:
  "\<exists>d. encodeGdtEntry (replicate 8 0) \<lparr>gs_base = 0x7e00, gs_limit = 0xffffffff, gs_type = 0xF8\<rparr> = Inr d \<and>
    gdt_base d = 0x7e00 \<and> gdt_limit d = 0xffffffff \<and> d ! 5 = 0xF8"
  using gdt_encode_decode [of "replicate 8 0" "\<lparr>gs_base = 0x7e00, gs_limit = 0xffffffff, gs_type = 0xF8\<rparr>"] by simp

end
