(* ===== verification/Idt.thy ===== *)
theory Idt
  imports ProcessAlloc Gdt
begin

text \<open>
  The interrupt descriptor table: the tables of src/idt/idt.c and how they are filled. A callback and a system
  command are C function pointers into a fixed set of functions: a datatype of their names, None for NULL. The addresses of the
  assembly routines are the linker's and arguments here. The handlers that run through these tables are in Interrupts.
\<close>

subsection \<open>Data (idt.h, idt.c, isr80h.h)\<close>

record idt_desc =
  offset_1 :: u16
  selector :: u16
  id_zero :: u8
  type_attr :: u8
  offset_2 :: u16

record idtr_desc =
  idtr_limit :: u16
  idtr_base :: u32

datatype INTERRUPT_CALLBACK_FUNCTION =
    Idt_handle_exception
  | Idt_clock
  | Classic_keyboard_handle_interrupt

datatype ISR80H_COMMAND =
    Isr80h_command0_sum
  | Isr80h_command1_print
  | Isr80h_command2_getkey
  | Isr80h_command3_putchar
  | Isr80h_command4_malloc
  | Isr80h_command5_free
  | Isr80h_command6_process_load_start
  | Isr80h_command7_invoke_system_command
  | Isr80h_command8_get_program_arguments
  | Isr80h_command9_exit

record idtstate = procstate +
  idtr_descriptors :: "idt_desc list" \<comment> \<open>512 of them\<close>
  idtr_descriptor :: idtr_desc
  idtr :: idtr_desc \<comment> \<open>the processor's register\<close>
  interrupt_callbacks :: "INTERRUPT_CALLBACK_FUNCTION option list" \<comment> \<open>512 of them\<close>
  isr80h_commands :: "ISR80H_COMMAND option list" \<comment> \<open>1024 of them\<close>

abbreviation (input) MARROWOS_TOTAL_INTERRUPTS :: int where "MARROWOS_TOTAL_INTERRUPTS \<equiv> 512"
abbreviation (input) MARROWOS_MAX_ISR80H_COMMANDS :: int where "MARROWOS_MAX_ISR80H_COMMANDS \<equiv> 1024"
abbreviation (input) KERNEL_CODE_SELECTOR :: u16 where "KERNEL_CODE_SELECTOR \<equiv> 8"

subsection \<open>Filling the tables\<close>

definition idt_set :: "'a idtstate_scheme \<Rightarrow> int \<Rightarrow> u32 \<Rightarrow> 'a idtstate_scheme res" where
  "idt_set s interrupt_no address =
     bind_res (list_set (idtr_descriptors s) interrupt_no
       \<lparr>offset_1 = ucast (address AND 0x0000ffff), selector = KERNEL_CODE_SELECTOR, id_zero = 0, type_attr = 0xEE,
        offset_2 = ucast (drop_bit 16 address)\<rparr>) (\<lambda>ds. Inr (s\<lparr>idtr_descriptors := ds\<rparr>))"

definition idt_register_interrupt_callback ::
  "'a idtstate_scheme \<Rightarrow> int \<Rightarrow> INTERRUPT_CALLBACK_FUNCTION \<Rightarrow> (int \<times> 'a idtstate_scheme) res" where
  "idt_register_interrupt_callback s interrupt interrupt_callback =
     (if interrupt < 0 \<or> MARROWOS_TOTAL_INTERRUPTS \<le> interrupt then Inr (- EINVARG, s)
      else bind_res (list_set (interrupt_callbacks s) interrupt (Some interrupt_callback)) (\<lambda>cs.
        Inr (MARROWOS_ALL_OK, s\<lparr>interrupt_callbacks := cs\<rparr>)))"

fun idt_set_loop :: "'a idtstate_scheme \<Rightarrow> u32 list \<Rightarrow> nat \<Rightarrow> nat \<Rightarrow> 'a idtstate_scheme res" where
  "idt_set_loop s interrupt_pointer_table i 0 = Inr s"
| "idt_set_loop s interrupt_pointer_table i (Suc n) =
     bind_res (list_get interrupt_pointer_table (int i)) (\<lambda>a.
     bind_res (idt_set s (int i) a) (\<lambda>s. idt_set_loop s interrupt_pointer_table (Suc i) n))"

fun register_exceptions_loop :: "'a idtstate_scheme \<Rightarrow> nat \<Rightarrow> nat \<Rightarrow> 'a idtstate_scheme res" where
  "register_exceptions_loop s i 0 = Inr s"
| "register_exceptions_loop s i (Suc n) =
     bind_res (idt_register_interrupt_callback s (int i) Idt_handle_exception) (\<lambda>(r, s).
       register_exceptions_loop s (Suc i) n)"

text \<open>\<open>idt_load\<close> of idt.asm.\<close>

definition idt_load :: "'a idtstate_scheme \<Rightarrow> idtr_desc \<Rightarrow> 'a idtstate_scheme" where
  "idt_load s d = s\<lparr>idtr := d\<rparr>"

text \<open>\<open>memset\<close> of the table, the limit and base (an array of 8-byte descriptors at \<open>base\<close>), then the vectors.\<close>

definition idt_init :: "'a idtstate_scheme \<Rightarrow> u32 \<Rightarrow> u32 list \<Rightarrow> u32 \<Rightarrow> u32 \<Rightarrow> 'a idtstate_scheme res" where
  "idt_init s base interrupt_pointer_table idt_zero isr80h_wrapper =
     (let s = s\<lparr>idtr_descriptors := replicate (length (idtr_descriptors s))
                  \<lparr>offset_1 = 0, selector = 0, id_zero = 0, type_attr = 0, offset_2 = 0\<rparr>,
                idtr_descriptor := \<lparr>idtr_limit = of_nat (8 * length (idtr_descriptors s)) - 1, idtr_base = base\<rparr>\<rparr>
      in bind_res (idt_set_loop s interrupt_pointer_table 0 512) (\<lambda>s.
         bind_res (idt_set s 0 idt_zero) (\<lambda>s.
         bind_res (idt_set s 0x80 isr80h_wrapper) (\<lambda>s.
         bind_res (register_exceptions_loop s 0 0x20) (\<lambda>s.
         bind_res (idt_register_interrupt_callback s 0x20 Idt_clock) (\<lambda>(r, s).
           Inr (idt_load s (idtr_descriptor s))))))))"

definition isr80h_register_command :: "'a idtstate_scheme \<Rightarrow> int \<Rightarrow> ISR80H_COMMAND \<Rightarrow> 'a idtstate_scheme res" where
  "isr80h_register_command s command_id command =
     (if command_id < 0 \<or> MARROWOS_MAX_ISR80H_COMMANDS \<le> command_id
      then panic (''The command is out of bounds'' @ [CHR 0x0A])
      else bind_res (list_get (isr80h_commands s) command_id) (\<lambda>old.
        if old \<noteq> None then panic (''You are attempting to overwrite an existing command'' @ [CHR 0x0A])
        else bind_res (list_set (isr80h_commands s) command_id (Some command)) (\<lambda>cs. Inr (s\<lparr>isr80h_commands := cs\<rparr>))))"

definition isr80h_register_commands :: "'a idtstate_scheme \<Rightarrow> 'a idtstate_scheme res" where
  "isr80h_register_commands s =
     bind_res (isr80h_register_command s 0 Isr80h_command0_sum) (\<lambda>s.
     bind_res (isr80h_register_command s 1 Isr80h_command1_print) (\<lambda>s.
     bind_res (isr80h_register_command s 2 Isr80h_command2_getkey) (\<lambda>s.
     bind_res (isr80h_register_command s 3 Isr80h_command3_putchar) (\<lambda>s.
     bind_res (isr80h_register_command s 4 Isr80h_command4_malloc) (\<lambda>s.
     bind_res (isr80h_register_command s 5 Isr80h_command5_free) (\<lambda>s.
     bind_res (isr80h_register_command s 6 Isr80h_command6_process_load_start) (\<lambda>s.
     bind_res (isr80h_register_command s 7 Isr80h_command7_invoke_system_command) (\<lambda>s.
     bind_res (isr80h_register_command s 8 Isr80h_command8_get_program_arguments) (\<lambda>s.
       isr80h_register_command s 9 Isr80h_command9_exit)))))))))"

subsection \<open>What the tables hold\<close>

text \<open>The address the processor jumps to through a gate.\<close>

definition gate_address :: "idt_desc \<Rightarrow> u32" where
  "gate_address d = push_bit 16 (ucast (offset_2 d)) OR ucast (offset_1 d)"

definition kernel_gate :: "u32 \<Rightarrow> idt_desc" where
  "kernel_gate a = \<lparr>offset_1 = ucast (a AND 0x0000ffff), selector = 8, id_zero = 0, type_attr = 0xEE,
     offset_2 = ucast (drop_bit 16 a)\<rparr>"

lemma gate_address_kernel_gate [simp]: "gate_address (kernel_gate a) = a"
proof (rule bit_word_eqI)
  fix n assume n: "n < LENGTH(32)"
  have "a AND 0xffff = take_bit 16 a" using take_bit_eq_mask [of 16 a] by (simp add: mask_eq_exp_minus_1)
  then show "bit (gate_address (kernel_gate a)) n = bit a n"
    using n by (auto simp: gate_address_def kernel_gate_def bit_or_iff bit_push_bit_iff bit_ucast_iff bit_take_bit_iff
      bit_drop_bit_eq)
qed

lemma idt_set_gate:
  "i < length (idtr_descriptors s) \<Longrightarrow>
     idt_set s (int i) a = Inr (s\<lparr>idtr_descriptors := (idtr_descriptors s)[i := kernel_gate a]\<rparr>)"
  by (simp add: idt_set_def kernel_gate_def list_set_def)

lemma map_if_none: "map (\<lambda>k. if i \<le> k \<and> k < i then f k else xs ! k) [0..<length xs] = xs"
  by (rule nth_equalityI) auto

lemma idt_set_loop_gates:
  "i + n \<le> length (idtr_descriptors s) \<Longrightarrow> i + n \<le> length tbl \<Longrightarrow>
     idt_set_loop s tbl i n = Inr (s\<lparr>idtr_descriptors :=
       map (\<lambda>k. if i \<le> k \<and> k < i + n then kernel_gate (tbl ! k) else idtr_descriptors s ! k) [0..<length (idtr_descriptors s)]\<rparr>)"
proof (induction n arbitrary: s i)
  case 0
  then show ?case by (simp add: map_if_none)
next
  case (Suc n)
  let ?s = "s\<lparr>idtr_descriptors := (idtr_descriptors s)[i := kernel_gate (tbl ! i)]\<rparr>"
  have "idt_set_loop s tbl i (Suc n) = idt_set_loop ?s tbl (Suc i) n"
    using Suc.prems by (simp add: list_get_def idt_set_gate)
  also have "\<dots> = Inr (?s\<lparr>idtr_descriptors := map (\<lambda>k. if Suc i \<le> k \<and> k < Suc i + n then kernel_gate (tbl ! k)
      else idtr_descriptors ?s ! k) [0..<length (idtr_descriptors ?s)]\<rparr>)"
    using Suc.prems by (intro Suc.IH) simp_all
  also have "map (\<lambda>k. if Suc i \<le> k \<and> k < Suc i + n then kernel_gate (tbl ! k) else idtr_descriptors ?s ! k)
      [0..<length (idtr_descriptors ?s)] =
    map (\<lambda>k. if i \<le> k \<and> k < i + Suc n then kernel_gate (tbl ! k) else idtr_descriptors s ! k) [0..<length (idtr_descriptors s)]"
    using Suc.prems by (auto simp: nth_list_update)
  finally show ?case by simp
qed

lemma register_exceptions_loop_all:
  "i + n \<le> length (interrupt_callbacks s) \<Longrightarrow> length (interrupt_callbacks s) = 512 \<Longrightarrow>
     register_exceptions_loop s i n = Inr (s\<lparr>interrupt_callbacks :=
       map (\<lambda>k. if i \<le> k \<and> k < i + n then Some Idt_handle_exception else interrupt_callbacks s ! k) [0..<512]\<rparr>)"
proof (induction n arbitrary: s i)
  case 0
  then show ?case using map_if_none [of i "\<lambda>k. Some Idt_handle_exception" "interrupt_callbacks s"] by simp
next
  case (Suc n)
  let ?s = "s\<lparr>interrupt_callbacks := (interrupt_callbacks s)[i := Some Idt_handle_exception]\<rparr>"
  have "register_exceptions_loop s i (Suc n) = register_exceptions_loop ?s (Suc i) n"
    using Suc.prems by (simp add: idt_register_interrupt_callback_def list_set_def)
  also have "\<dots> = Inr (?s\<lparr>interrupt_callbacks := map (\<lambda>k. if Suc i \<le> k \<and> k < Suc i + n then Some Idt_handle_exception
      else interrupt_callbacks ?s ! k) [0..<512]\<rparr>)"
    using Suc.prems by (intro Suc.IH) simp_all
  also have "map (\<lambda>k. if Suc i \<le> k \<and> k < Suc i + n then Some Idt_handle_exception else interrupt_callbacks ?s ! k) [0..<512] =
    map (\<lambda>k. if i \<le> k \<and> k < i + Suc n then Some Idt_handle_exception else interrupt_callbacks s ! k) [0..<512]"
    using Suc.prems by (auto simp: nth_list_update)
  finally show ?case by simp
qed


definition callbacks_at_boot :: "INTERRUPT_CALLBACK_FUNCTION option list" where
  "callbacks_at_boot = map (\<lambda>i. if i < 0x20 then Some Idt_handle_exception else if i = 0x20 then Some Idt_clock else None) [0..<512]"

lemma idt_init_run:
  assumes "length (idtr_descriptors s) = 512" "interrupt_callbacks s = replicate 512 None" "length tbl = 512"
  obtains ds where "idt_init s base tbl zero wrapper = Inr (s\<lparr>idtr_descriptors := ds,
      idtr_descriptor := \<lparr>idtr_limit = 4095, idtr_base = base\<rparr>, idtr := \<lparr>idtr_limit = 4095, idtr_base = base\<rparr>,
      interrupt_callbacks := callbacks_at_boot\<rparr>)" "length ds = 512"
    "\<And>i. i < 512 \<Longrightarrow> ds ! i = kernel_gate (if i = 0 then zero else if i = 0x80 then wrapper else tbl ! i)"
proof -
  define zd where "zd = replicate 512 \<lparr>offset_1 = 0, selector = 0, id_zero = 0, type_attr = 0, offset_2 = 0\<rparr>"
  define r where "r = \<lparr>idtr_limit = 4095 :: u16, idtr_base = base\<rparr>"
  define s1 where "s1 = s\<lparr>idtr_descriptors := zd, idtr_descriptor := r\<rparr>"
  define ds where "ds = map (\<lambda>k. if k < 512 then kernel_gate (tbl ! k) else zd ! k) [0..<512]"
  have lz: "length zd = 512" by (simp add: zd_def)
  define ds' where "ds' = ds[0 := kernel_gate zero, 0x80 := kernel_gate wrapper]"
  define cs where "cs = map (\<lambda>k. if k < 32 then Some Idt_handle_exception else interrupt_callbacks s ! k) [0..<512]"
  define s2 where "s2 = s\<lparr>idtr_descriptors := ds', idtr_descriptor := r\<rparr>"
  have "idt_set_loop s1 tbl 0 512 = Inr (s1\<lparr>idtr_descriptors := ds\<rparr>)"
    using idt_set_loop_gates [of 0 512 s1 tbl] assms(3) by (simp add: s1_def ds_def lz)
  moreover have ld: "length ds = 512" by (simp add: ds_def)
  ultimately have "bind_res (idt_set_loop s1 tbl 0 512) (\<lambda>s. bind_res (idt_set s 0 zero) (\<lambda>s. idt_set s 0x80 wrapper)) = Inr s2"
    using idt_set_gate [where i = 0 and s = "s1\<lparr>idtr_descriptors := ds\<rparr>" and a = zero]
      idt_set_gate [where i = "0x80" and s = "s1\<lparr>idtr_descriptors := ds[0 := kernel_gate zero]\<rparr>" and a = wrapper]
    by (simp add: s2_def s1_def ds'_def)
  moreover have "register_exceptions_loop s2 0 0x20 = Inr (s2\<lparr>interrupt_callbacks := cs\<rparr>)"
    using register_exceptions_loop_all [of 0 32 s2] assms(2) by (simp add: s2_def cs_def)
  moreover have lc: "length cs = 512" by (simp add: cs_def)
  moreover have "idt_register_interrupt_callback (s2\<lparr>interrupt_callbacks := cs\<rparr>) 0x20 Idt_clock =
      Inr (0, s2\<lparr>interrupt_callbacks := cs[0x20 := Some Idt_clock]\<rparr>)"
    using lc by (simp add: idt_register_interrupt_callback_def list_set_def)
  ultimately have run: "idt_init s base tbl zero wrapper = Inr (idt_load (s2\<lparr>interrupt_callbacks := cs[0x20 := Some Idt_clock]\<rparr>) r)"
    by (auto simp: idt_init_def Let_def assms(1) zd_def [symmetric] r_def [symmetric] s1_def [symmetric] res_simps s2_def)
  have "cs[0x20 := Some Idt_clock] = callbacks_at_boot"
    by (rule nth_equalityI) (use lc in \<open>auto simp: cs_def nth_list_update assms(2) callbacks_at_boot_def\<close>)
  then show ?thesis
    using run ld by (intro that [of ds']) (auto simp: s2_def r_def idt_load_def ds'_def nth_list_update ds_def)
qed

text \<open>After \<open>idt_init\<close> the processor's table register covers the whole table, every vector is a gate to its entry
  of the pointer table, but 0 and 0x80, which go to \<open>idt_zero\<close> and \<open>isr80h_wrapper\<close>; the 32 exceptions and the clock have their callbacks, the
  others none.\<close>

theorem idt_init_vectors:
  assumes "length (idtr_descriptors s) = 512" "interrupt_callbacks s = replicate 512 None" "length tbl = 512"
  shows "\<exists>s'. idt_init s base tbl zero wrapper = Inr s' \<and> idtr_base (idtr s') = base \<and> idtr_limit (idtr s') = 4095 \<and>
    (\<forall>i < 512. gate_address (idtr_descriptors s' ! i) = (if i = 0 then zero else if i = 0x80 then wrapper else tbl ! i) \<and>
       selector (idtr_descriptors s' ! i) = 8 \<and> type_attr (idtr_descriptors s' ! i) = 0xEE \<and>
       interrupt_callbacks s' ! i =
         (if i < 0x20 then Some Idt_handle_exception else if i = 0x20 then Some Idt_clock else None))"
proof -
  obtain ds where "idt_init s base tbl zero wrapper = Inr (s\<lparr>idtr_descriptors := ds,
      idtr_descriptor := \<lparr>idtr_limit = 4095, idtr_base = base\<rparr>, idtr := \<lparr>idtr_limit = 4095, idtr_base = base\<rparr>,
      interrupt_callbacks := callbacks_at_boot\<rparr>)"
    and "\<And>i. i < 512 \<Longrightarrow> ds ! i = kernel_gate (if i = 0 then zero else if i = 0x80 then wrapper else tbl ! i)"
    by (rule idt_init_run [OF assms]) (rule that)
  then show ?thesis by (auto simp: callbacks_at_boot_def) (simp_all add: kernel_gate_def)
qed

definition example_idt_state :: idtstate where
  "example_idt_state = procstate.extend (taskstate.extend example_task_state (procstate.fields 0 (replicate 12 0)))
     (idtstate.fields (replicate 512 \<lparr>offset_1 = 0, selector = 0, id_zero = 0, type_attr = 0, offset_2 = 0\<rparr>)
        \<lparr>idtr_limit = 0, idtr_base = 0\<rparr> \<lparr>idtr_limit = 0, idtr_base = 0\<rparr> (replicate 512 None) (replicate 1024 None))"

lemma example_idt_tables:
  "length (idtr_descriptors example_idt_state) = 512" "interrupt_callbacks example_idt_state = replicate 512 None"
  "isr80h_commands example_idt_state = replicate 1024 None"
  by (simp_all add: example_idt_state_def procstate.extend_def idtstate.fields_def)

lemma idt_init_vectors_witness:
  "\<exists>s'. idt_init example_idt_state 0x9000 (replicate 512 0x5000) 0x6000 0x7000 = Inr s' \<and>
     gate_address (idtr_descriptors s' ! 0x80) = 0x7000 \<and> gate_address (idtr_descriptors s' ! 0x21) = 0x5000 \<and>
     interrupt_callbacks s' ! 0xD = Some Idt_handle_exception"
proof -
  obtain s' where s': "idt_init example_idt_state 0x9000 (replicate 512 0x5000) 0x6000 0x7000 = Inr s'"
      "\<forall>i < 512. gate_address (idtr_descriptors s' ! i) =
         (if i = 0 then 0x6000 else if i = 0x80 then 0x7000 else replicate 512 0x5000 ! i) \<and>
       interrupt_callbacks s' ! i =
         (if i < 0x20 then Some Idt_handle_exception else if i = 0x20 then Some Idt_clock else None)"
    using idt_init_vectors [OF example_idt_tables(1,2), of "replicate 512 0x5000" "0x9000" "0x6000" "0x7000"] by force
  show ?thesis
    using s'(1) s'(2) [rule_format, of "0x80"] s'(2) [rule_format, of "0x21"] s'(2) [rule_format, of "0xD"] by simp
qed

subsection \<open>The command table\<close>

definition kernel_commands :: "ISR80H_COMMAND list" where
  "kernel_commands = [Isr80h_command0_sum, Isr80h_command1_print, Isr80h_command2_getkey, Isr80h_command3_putchar,
     Isr80h_command4_malloc, Isr80h_command5_free, Isr80h_command6_process_load_start,
     Isr80h_command7_invoke_system_command, Isr80h_command8_get_program_arguments, Isr80h_command9_exit]"

definition commands_upto :: "'a idtstate_scheme \<Rightarrow> nat \<Rightarrow> 'a idtstate_scheme" where
  "commands_upto s n = s\<lparr>isr80h_commands := map Some (take n kernel_commands) @ replicate (1024 - n) None\<rparr>"

lemma register_command_next:
  assumes "n < 10"
  shows "isr80h_register_command (commands_upto s n) (int n) (kernel_commands ! n) = Inr (commands_upto s (n + 1))"
proof -
  have l: "length kernel_commands = 10" by (simp add: kernel_commands_def)
  have "1024 - n = Suc (1024 - (n + 1))" using assms by simp
  then have r: "replicate (1024 - n) None = None # replicate (1024 - (n + 1)) (None :: ISR80H_COMMAND option)"
    by (simp only: replicate_Suc)
  have lt: "length (map Some (take n kernel_commands)) = n" using assms l by simp
  have "isr80h_register_command (commands_upto s n) (int n) (kernel_commands ! n) =
      Inr (s\<lparr>isr80h_commands := (map Some (take n kernel_commands) @ None # replicate (1024 - (n + 1)) None)
        [n := Some (kernel_commands ! n)]\<rparr>)"
    using assms lt nth_append_length [of "map Some (take n kernel_commands)" None "replicate (1024 - (n + 1)) None"]
    unfolding isr80h_register_command_def commands_upto_def r by (simp add: list_get_def list_set_def)
  also have "(map Some (take n kernel_commands) @ None # replicate (1024 - (n + 1)) None)[n := Some (kernel_commands ! n)] =
      map Some (take (n + 1) kernel_commands) @ replicate (1024 - (n + 1)) None"
    using lt l assms by (simp add: take_Suc_conv_app_nth list_update_append)
  finally show ?thesis by (simp add: commands_upto_def)
qed

lemma register_commands_table:
  assumes "isr80h_commands s = replicate 1024 None"
  shows "isr80h_register_commands s = Inr (s\<lparr>isr80h_commands := map Some kernel_commands @ replicate 1014 None\<rparr>)"
proof -
  have c: "isr80h_register_command (commands_upto s n) (int n) (kernel_commands ! n) = Inr (commands_upto s (n + 1))" if "n < 10" for n
    using that by (rule register_command_next)
  have "commands_upto s 0 = s" using assms by (simp add: commands_upto_def)
  moreover have "commands_upto s 10 = s\<lparr>isr80h_commands := map Some kernel_commands @ replicate 1014 None\<rparr>"
    by (simp add: commands_upto_def kernel_commands_def)
  ultimately show ?thesis
    using c [of 0] c [of 1] c [of 2] c [of 3] c [of 4] c [of 5] c [of 6] c [of 7] c [of 8] c [of 9]
    by (simp add: isr80h_register_commands_def kernel_commands_def del: One_nat_def)
qed

end
