(* ===== verification/Keyboard.thy ===== *)
theory Keyboard
  imports Idt
begin

text \<open>
  The keyboard: src/keyboard/keyboard.c and classic.c. The only keyboard object is the static \<open>classic_keyboard\<close>; the list of keyboards holds
  references to it. Each process has a ring of 1024 characters (\<open>struct keyboard_buffer\<close>); \<open>push_char\<close>, \<open>pop_char\<close> are what
  \<open>keyboard_push\<close> and \<open>keyboard_pop\<close> do to it. The ring is a FIFO queue as long as it is not full (locale \<open>char_queue\<close>).
\<close>

subsection \<open>Keyboards (keyboard.h, keyboard.c)\<close>

datatype KEYBOARD_INIT_FUNCTION = Classic_keyboard_init
datatype keyboard_ref = Classic_keyboard

record keyboard =
  kbd_init :: "KEYBOARD_INIT_FUNCTION option"
  kbd_name :: "u8 list"
  capslock_state :: int
  kbd_next :: "keyboard_ref option"

record kbstate = idtstate +
  keyboards :: "keyboard_ref \<Rightarrow> keyboard"
  keyboard_list_head :: "keyboard_ref option"
  keyboard_list_last :: "keyboard_ref option"

abbreviation (input) KEYBOARD_CAPS_LOCK_ON :: int where "KEYBOARD_CAPS_LOCK_ON \<equiv> 0"
abbreviation (input) KEYBOARD_CAPS_LOCK_OFF :: int where "KEYBOARD_CAPS_LOCK_OFF \<equiv> 1"

definition keyboard_set_capslock :: "'a kbstate_scheme \<Rightarrow> keyboard_ref \<Rightarrow> int \<Rightarrow> 'a kbstate_scheme" where
  "keyboard_set_capslock s k state = s\<lparr>keyboards := (keyboards s)(k := (keyboards s k)\<lparr>capslock_state := state\<rparr>)\<rparr>"

definition keyboard_get_capslock :: "'a kbstate_scheme \<Rightarrow> keyboard_ref \<Rightarrow> int" where
  "keyboard_get_capslock s k = capslock_state (keyboards s k)"

subsection \<open>The ring of a process\<close>

definition keyboard_get_tail_index :: "process \<Rightarrow> int" where
  "keyboard_get_tail_index p = uint (kb_tail p mod 1024)"

definition keyboard_backspace :: "process \<Rightarrow> process res" where
  "keyboard_backspace p =
     (let p = p\<lparr>kb_tail := kb_tail p - 1\<rparr>
      in bind_res (list_set (kb_buffer p) (keyboard_get_tail_index p) 0) (\<lambda>b. Inr (p\<lparr>kb_buffer := b\<rparr>)))"

definition push_char :: "process \<Rightarrow> u8 \<Rightarrow> process res" where
  "push_char p c =
     bind_res (list_set (kb_buffer p) (keyboard_get_tail_index p) c) (\<lambda>b.
       Inr (p\<lparr>kb_buffer := b, kb_tail := kb_tail p + 1\<rparr>))"

definition pop_char :: "process \<Rightarrow> (u8 \<times> process) res" where
  "pop_char p =
     bind_res (list_get (kb_buffer p) (uint (kb_head p mod 1024))) (\<lambda>c.
       if c = 0 then Inr (0, p)
       else bind_res (list_set (kb_buffer p) (uint (kb_head p mod 1024)) 0) (\<lambda>b.
         Inr (c, p\<lparr>kb_buffer := b, kb_head := kb_head p + 1\<rparr>)))"

definition keyboard_push :: "'a procstate_scheme \<Rightarrow> u8 \<Rightarrow> 'a procstate_scheme res" where
  "keyboard_push s c =
     (if process_current s = 0 then Inr s
      else if c = 0 then Inr s
      else bind_res (obj_get (procs s) (process_current s)) (\<lambda>p.
        bind_res (push_char p c) (\<lambda>p. Inr (set_proc s (process_current s) p))))"

definition keyboard_pop :: "'a procstate_scheme \<Rightarrow> (u8 \<times> 'a procstate_scheme) res" where
  "keyboard_pop s =
     (if task_current s = 0 then Inr (0, s)
      else bind_res (obj_get (tasks s) (task_current s)) (\<lambda>t.
        bind_res (obj_get (procs s) (t_process t)) (\<lambda>p.
        bind_res (pop_char p) (\<lambda>(c, p). Inr (c, set_proc s (t_process t) p)))))"

subsection \<open>The PS/2 keyboard (classic.c)\<close>

definition keyboard_scan_set_one :: "u8 list" where
  "keyboard_scan_set_one =
     [0x00, 0x1B, 49, 50, 51, 52, 53,
      54, 55, 56, 57, 48, 45, 61,
      0x08, 9, 81, 87, 69, 82, 84,
      89, 85, 73, 79, 80, 91, 93,
      0x0d, 0x00, 65, 83, 68, 70, 71,
      72, 74, 75, 76, 59, 39, 96,
      0x00, 92, 90, 88, 67, 86, 66,
      78, 77, 44, 46, 47, 0x00, 42,
      0x00, 0x20, 0x00, 0x00, 0x00, 0x00,
      0x00, 0x00, 0x00, 0x00, 0x00, 0x00,
      0x00, 55, 56, 57, 45, 52, 53,
      54, 43, 49, 50, 51, 48, 46]"

abbreviation (input) PS2_PORT :: u16 where "PS2_PORT \<equiv> 0x64"
abbreviation (input) PS2_COMMAND_ENABLE_FIRST_PORT :: u8 where "PS2_COMMAND_ENABLE_FIRST_PORT \<equiv> 0xAE"
abbreviation (input) CLASSIC_KEYBOARD_KEY_RELEASED :: u8 where "CLASSIC_KEYBOARD_KEY_RELEASED \<equiv> 0x80"
abbreviation (input) CLASSIC_KEYBOARD_CAPSLOCK :: u8 where "CLASSIC_KEYBOARD_CAPSLOCK \<equiv> 0x3A"
abbreviation (input) ISR_KEYBOARD_INTERRUPT :: int where "ISR_KEYBOARD_INTERRUPT \<equiv> 0x21"
abbreviation (input) KEYBOARD_INPUT_PORT :: u16 where "KEYBOARD_INPUT_PORT \<equiv> 0x60"

definition classic_keyboard :: keyboard where
  "classic_keyboard = \<lparr>kbd_init = Some Classic_keyboard_init, kbd_name = c_literal ''Classic'' @ replicate 12 0,
     capslock_state = 0, kbd_next = None\<rparr>"

definition classic_init :: keyboard_ref where "classic_init = Classic_keyboard"

definition classic_keyboard_init :: "'a kbstate_scheme \<Rightarrow> (int \<times> 'a kbstate_scheme) res" where
  "classic_keyboard_init s =
     bind_res (idt_register_interrupt_callback s ISR_KEYBOARD_INTERRUPT Classic_keyboard_handle_interrupt) (\<lambda>(r, s).
       Inr (0, outb PS2_PORT PS2_COMMAND_ENABLE_FIRST_PORT
                 (keyboard_set_capslock s Classic_keyboard KEYBOARD_CAPS_LOCK_OFF)))"

fun run_keyboard_init :: "KEYBOARD_INIT_FUNCTION \<Rightarrow> 'a kbstate_scheme \<Rightarrow> (int \<times> 'a kbstate_scheme) res" where
  "run_keyboard_init Classic_keyboard_init s = classic_keyboard_init s"

definition keyboard_insert :: "'a kbstate_scheme \<Rightarrow> keyboard_ref \<Rightarrow> (int \<times> 'a kbstate_scheme) res" where
  "keyboard_insert s k =
     (case kbd_init (keyboards s k) of
        None \<Rightarrow> Inr (- EINVARG, s)
      | Some f \<Rightarrow>
          run_keyboard_init f
            (case keyboard_list_last s of
               Some l \<Rightarrow> s\<lparr>keyboards := (keyboards s)(l := (keyboards s l)\<lparr>kbd_next := Some k\<rparr>), keyboard_list_last := Some k\<rparr>
             | None \<Rightarrow> s\<lparr>keyboard_list_head := Some k, keyboard_list_last := Some k\<rparr>))"

definition keyboard_init :: "'a kbstate_scheme \<Rightarrow> 'a kbstate_scheme res" where
  "keyboard_init s = bind_res (keyboard_insert s classic_init) (\<lambda>(r, s). Inr s)"

definition classic_keyboard_scancode_to_char :: "'a kbstate_scheme \<Rightarrow> u8 \<Rightarrow> u8 res" where
  "classic_keyboard_scancode_to_char s scancode =
     (let size_of_keyboard_set_one = length keyboard_scan_set_one
      in if size_of_keyboard_set_one < unat scancode then Inr 0
         else bind_res (list_get keyboard_scan_set_one (uint scancode)) (\<lambda>c.
           Inr (if keyboard_get_capslock s Classic_keyboard = KEYBOARD_CAPS_LOCK_OFF \<and> 65 \<le> c \<and> c \<le> 90 then c + 32 else c)))"

definition classic_keyboard_handle_interrupt :: "'a kbstate_scheme \<Rightarrow> 'a kbstate_scheme res" where
  "classic_keyboard_handle_interrupt s =
     (let s = kernel_page s;
          (scancode, s) = insb KEYBOARD_INPUT_PORT s;
          (r, s) = insb KEYBOARD_INPUT_PORT s
      in if scancode AND CLASSIC_KEYBOARD_KEY_RELEASED \<noteq> 0 then Inr s
         else
           let s = (if scancode = CLASSIC_KEYBOARD_CAPSLOCK
                    then keyboard_set_capslock s Classic_keyboard
                      (if keyboard_get_capslock s Classic_keyboard = KEYBOARD_CAPS_LOCK_ON
                       then KEYBOARD_CAPS_LOCK_OFF else KEYBOARD_CAPS_LOCK_ON)
                    else s)
           in bind_res (classic_keyboard_scancode_to_char s scancode) (\<lambda>c.
              bind_res (if c \<noteq> 0 then keyboard_push s c else Inr s) (\<lambda>s. task_page s)))"

subsection \<open>Queues of characters\<close>

text \<open>What a client relies on: until the queue is full, what goes in comes out in the same order, and an empty queue
  answers \<open>null\<close>.\<close>

locale char_queue =
  fixes enq :: "'q \<Rightarrow> 'c \<Rightarrow> 'q res" and deq :: "'q \<Rightarrow> ('c \<times> 'q) res"
    and contents :: "'q \<Rightarrow> 'c list" and ok :: "'q \<Rightarrow> bool" and null :: 'c and capacity :: nat
  assumes enq_ok: "ok q \<Longrightarrow> c \<noteq> null \<Longrightarrow> length (contents q) < capacity \<Longrightarrow>
      \<exists>q'. enq q c = Inr q' \<and> ok q' \<and> contents q' = contents q @ [c]"
    and deq_empty: "ok q \<Longrightarrow> contents q = [] \<Longrightarrow> 0 < capacity \<Longrightarrow> deq q = Inr (null, q)"
    and deq_first: "ok q \<Longrightarrow> contents q = c # cs \<Longrightarrow> \<exists>q'. deq q = Inr (c, q') \<and> ok q' \<and> contents q' = cs"
begin

fun enqs :: "'q \<Rightarrow> 'c list \<Rightarrow> 'q res" where
  "enqs q [] = Inr q"
| "enqs q (c # cs) = bind_res (enq q c) (\<lambda>q. enqs q cs)"

fun deqs :: "nat \<Rightarrow> 'q \<Rightarrow> ('c list \<times> 'q) res" where
  "deqs 0 q = Inr ([], q)"
| "deqs (Suc n) q = bind_res (deq q) (\<lambda>(c, q). bind_res (deqs n q) (\<lambda>(cs, q). Inr (c # cs, q)))"

lemma enqs_contents:
  "ok q \<Longrightarrow> null \<notin> set cs \<Longrightarrow> length (contents q) + length cs \<le> capacity \<Longrightarrow>
     \<exists>q'. enqs q cs = Inr q' \<and> ok q' \<and> contents q' = contents q @ cs"
proof (induction cs arbitrary: q)
  case (Cons c cs)
  then have "length (contents q) < capacity" "c \<noteq> null" by auto
  from enq_ok [OF Cons.prems(1) this(2,1)] obtain q1 where "enq q c = Inr q1" "ok q1" "contents q1 = contents q @ [c]" by blast
  then show ?case using Cons.IH [of q1] Cons.prems by simp
qed simp

lemma deqs_contents:
  "ok q \<Longrightarrow> n \<le> length (contents q) \<Longrightarrow>
     \<exists>q'. deqs n q = Inr (take n (contents q), q') \<and> ok q' \<and> contents q' = drop n (contents q)"
proof (induction n arbitrary: q)
  case (Suc n)
  then obtain c cs where c: "contents q = c # cs" by (cases "contents q") simp_all
  from deq_first [OF Suc.prems(1) c] obtain q1 where "deq q = Inr (c, q1)" "ok q1" "contents q1 = cs" by blast
  then show ?case using Suc.IH [of q1] Suc.prems c by auto
qed simp

lemma fifo:
  assumes "ok q" "contents q = []" "null \<notin> set cs" "length cs \<le> capacity"
  shows "\<exists>q' q''. enqs q cs = Inr q' \<and> deqs (length cs) q' = Inr (cs, q'') \<and> ok q'' \<and> contents q'' = []"
proof -
  obtain q' where q': "enqs q cs = Inr q'" "ok q'" "contents q' = cs"
    using enqs_contents [OF assms(1,3)] assms(2,4) by auto
  then show ?thesis using deqs_contents [OF q'(2), of "length cs"] by auto
qed

end

subsection \<open>The ring is a queue\<close>

definition kb_count :: "process \<Rightarrow> nat" where
  "kb_count p = unat (kb_tail p - kb_head p)"

text \<open>The \<open>i\<close>th slot from the head on.\<close>

definition kb_slot :: "process \<Rightarrow> nat \<Rightarrow> u8" where
  "kb_slot p i = kb_buffer p ! ((unat (kb_head p) + i) mod 1024)"

definition kb_queue :: "process \<Rightarrow> u8 list" where
  "kb_queue p = map (kb_slot p) [0..<kb_count p]"

definition kb_ok :: "process \<Rightarrow> bool" where
  "kb_ok p \<longleftrightarrow> length (kb_buffer p) = 1024 \<and> kb_count p \<le> 1024 \<and> (\<forall>i < 1024. kb_slot p i \<noteq> 0 \<longleftrightarrow> i < kb_count p)"

lemma ring_index_inj:
  fixes i j h :: nat
  assumes "i < 1024" "j < 1024"
  shows "(h + i) mod 1024 = (h + j) mod 1024 \<longleftrightarrow> i = j"
proof
  assume "(h + i) mod 1024 = (h + j) mod 1024"
  then obtain r where r: "(h + i) mod 1024 = r" "(h + j) mod 1024 = r" by simp
  have "h + i = r + 1024 * ((h + i) div 1024)" "h + j = r + 1024 * ((h + j) div 1024)"
    using r mult_div_mod_eq [of 1024 "h + i"] mult_div_mod_eq [of 1024 "h + j"] by simp_all
  then show "i = j" using assms by (cases "(h + i) div 1024" "(h + j) div 1024" rule: linorder_cases) linarith+
qed simp

lemma unat_add_mod_1024: "unat (h + of_nat i :: u32) mod 1024 = (unat h + i) mod 1024"
proof -
  have "unat (h + of_nat i) = (unat h + unat (of_nat i :: u32)) mod 2 ^ 32" by (simp add: unat_word_ariths)
  also have "unat (of_nat i :: u32) = i mod 2 ^ 32" by (simp add: unat_of_nat)
  finally have "unat (h + of_nat i) = (unat h + i) mod 2 ^ 32" by (simp add: mod_add_right_eq)
  moreover have "(x mod 2 ^ 32) mod 1024 = x mod (1024 :: nat)" for x
    by (rule mod_mod_cancel) simp
  ultimately show ?thesis by simp
qed

lemma ring_word_index: "uint (k mod 1024 :: u32) = int (unat k mod 1024)"
  by (simp add: uint_mod zmod_int)

lemma tail_index: "unat (kb_tail p) mod 1024 = (unat (kb_head p) + kb_count p) mod 1024"
  using unat_add_mod_1024 [of "kb_head p" "kb_count p"] by (simp add: kb_count_def)

lemma slot_update:
  assumes "length (kb_buffer p) = 1024" "i < 1024" "j < 1024"
  shows "(kb_buffer p)[(unat (kb_head p) + j) mod 1024 := c] ! ((unat (kb_head p) + i) mod 1024) = (if i = j then c else kb_slot p i)"
  using assms by (auto simp: kb_slot_def nth_list_update ring_index_inj)

lemma push_char_queue:
  assumes ok: "kb_ok p" and c: "c \<noteq> 0" and n: "kb_count p < 1024"
  shows "\<exists>p'. push_char p c = Inr p' \<and> kb_ok p' \<and> kb_queue p' = kb_queue p @ [c]"
proof -
  let ?b = "(kb_buffer p)[(unat (kb_head p) + kb_count p) mod 1024 := c]"
  let ?p = "p\<lparr>kb_buffer := ?b, kb_tail := kb_tail p + 1\<rparr>"
  have l: "length (kb_buffer p) = 1024" using ok by (simp add: kb_ok_def)
  have "push_char p c = Inr ?p"
    using l by (simp add: push_char_def keyboard_get_tail_index_def ring_word_index tail_index list_set_def)
  moreover have cnt: "kb_count ?p = Suc (kb_count p)"
  proof -
    have "kb_tail p + 1 - kb_head p = (kb_tail p - kb_head p) + 1" by (simp add: algebra_simps)
    then have "unat (kb_tail p + 1 - kb_head p) = (unat (kb_tail p - kb_head p) + 1) mod 2 ^ 32"
      by (simp only: unat_word_ariths) simp
    then have "unat (kb_tail p + 1 - kb_head p) = kb_count p + 1" using n by (simp add: kb_count_def)
    then show ?thesis by (simp add: kb_count_def)
  qed
  moreover have slot: "kb_slot ?p i = (if i = kb_count p then c else kb_slot p i)" if "i < 1024" for i
    using slot_update [OF l that n, of c] by (simp add: kb_slot_def)
  moreover have "kb_ok ?p" unfolding kb_ok_def cnt using ok l n c slot by (auto simp: kb_ok_def)
  moreover have "kb_queue ?p = kb_queue p @ [c]"
    unfolding kb_queue_def cnt using slot n by simp
  ultimately show ?thesis by blast
qed

lemma pop_char_empty:
  assumes "kb_ok p" "kb_queue p = []"
  shows "pop_char p = Inr (0, p)"
proof -
  have "kb_count p = 0" using assms(2) by (simp add: kb_queue_def)
  then have "kb_slot p 0 = 0" "length (kb_buffer p) = 1024" using assms(1) by (auto simp: kb_ok_def)
  then show ?thesis by (simp add: pop_char_def ring_word_index list_get_def kb_slot_def)
qed

lemma pop_char_queue:
  assumes ok: "kb_ok p" and q: "kb_queue p = c # cs"
  shows "\<exists>p'. pop_char p = Inr (c, p') \<and> kb_ok p' \<and> kb_queue p' = cs"
proof -
  let ?b = "(kb_buffer p)[(unat (kb_head p) + 0) mod 1024 := 0]"
  let ?p = "p\<lparr>kb_buffer := ?b, kb_head := kb_head p + 1\<rparr>"
  have l: "length (kb_buffer p) = 1024" and le: "kb_count p \<le> 1024" using ok by (simp_all add: kb_ok_def)
  obtain n where n: "kb_count p = Suc n" using q by (cases "kb_count p") (simp_all add: kb_queue_def)
  have hd: "c = kb_slot p 0" and tl: "cs = map (kb_slot p) [Suc 0..<Suc n]"
    using q upt_conv_Cons [of 0 "Suc n"] by (simp_all add: kb_queue_def n del: upt_Suc)
  have "c \<noteq> 0" using ok n by (simp add: hd kb_ok_def)
  then have "pop_char p = Inr (c, ?p)"
    using l hd by (simp add: pop_char_def ring_word_index list_get_def list_set_def kb_slot_def)
  moreover have cnt: "kb_count ?p = n"
  proof -
    have ne: "kb_tail p - kb_head p \<noteq> 0" using n by (auto simp: kb_count_def)
    have "kb_count ?p = unat (kb_tail p - kb_head p - 1)" by (simp add: kb_count_def diff_diff_eq)
    also have "\<dots> = kb_count p - 1" unfolding kb_count_def by (rule unat_minus_one [OF ne])
    finally show ?thesis using n by simp
  qed
  moreover have slot: "kb_slot ?p i = (if i = 1023 then 0 else kb_slot p (Suc i))" if "i < 1024" for i
  proof -
    have "(unat (kb_head p + 1) + i) mod 1024 = (unat (kb_head p + of_nat 1) mod 1024 + i) mod 1024"
      by (simp add: mod_add_left_eq)
    also have "\<dots> = (unat (kb_head p) + Suc i) mod 1024" unfolding unat_add_mod_1024 by (simp add: mod_add_left_eq)
    finally have "kb_slot ?p i = ?b ! ((unat (kb_head p) + Suc i) mod 1024)" by (simp add: kb_slot_def)
    moreover have "?b ! ((unat (kb_head p) + 1024) mod 1024) = 0" using l by simp
    ultimately show ?thesis using slot_update [OF l _ _, of "Suc i" 0 0] that by (cases "i = 1023") simp_all
  qed
  moreover have "kb_ok ?p" unfolding kb_ok_def cnt using ok l n le slot by (auto simp: kb_ok_def)
  moreover have "kb_queue ?p = cs"
    unfolding kb_queue_def cnt tl map_Suc_upt [symmetric] using slot n le by simp
  ultimately show ?thesis by blast
qed

text \<open>The ring implements the interface.\<close>

interpretation ring: char_queue push_char pop_char kb_queue kb_ok 0 1024
proof
  fix p and c :: u8 assume "kb_ok p" "c \<noteq> 0" "length (kb_queue p) < 1024"
  then show "\<exists>p'. push_char p c = Inr p' \<and> kb_ok p' \<and> kb_queue p' = kb_queue p @ [c]"
    by (intro push_char_queue) (simp_all add: kb_queue_def)
qed (simp_all add: pop_char_empty pop_char_queue)


subsection \<open>Typing and reading\<close>

fun keyboard_pushes :: "'a procstate_scheme \<Rightarrow> u8 list \<Rightarrow> 'a procstate_scheme res" where
  "keyboard_pushes s [] = Inr s"
| "keyboard_pushes s (c # cs) = bind_res (keyboard_push s c) (\<lambda>s. keyboard_pushes s cs)"

fun keyboard_pops :: "nat \<Rightarrow> 'a procstate_scheme \<Rightarrow> (u8 list \<times> 'a procstate_scheme) res" where
  "keyboard_pops 0 s = Inr ([], s)"
| "keyboard_pops (Suc n) s =
     bind_res (keyboard_pop s) (\<lambda>(c, s). bind_res (keyboard_pops n s) (\<lambda>(cs, s). Inr (c # cs, s)))"

text \<open>The current process is the one of the current task, with its object at \<open>a\<close>.\<close>

definition reads_keyboard :: "'a procstate_scheme \<Rightarrow> u32 \<Rightarrow> bool" where
  "reads_keyboard s a \<longleftrightarrow> a \<noteq> 0 \<and> current_process s = a \<and> current_task s \<noteq> 0 \<and>
     (\<exists>t. tasks s (current_task s) = Some t \<and> t_process t = a)"

lemma reads_keyboard_set_proc [simp]: "reads_keyboard (set_proc s a p) b = reads_keyboard s b"
  by (simp add: reads_keyboard_def set_proc_def)

lemma set_proc_simps [simp]:
  "procs (set_proc s a p) a = Some p" "set_proc (set_proc s a p) a q = set_proc s a q"
  "procs s a = Some p \<Longrightarrow> set_proc s a p = s"
  by (simp_all add: set_proc_def fun_upd_idem)

lemma keyboard_pushes_ring:
  assumes "reads_keyboard s a" "procs s a = Some p" "0 \<notin> set cs" "ring.enqs p cs = Inr p'"
  shows "keyboard_pushes s cs = Inr (set_proc s a p')"
  using assms
proof (induction cs arbitrary: s p)
  case (Cons c cs)
  from Cons.prems(4) obtain p1 where p1: "push_char p c = Inr p1" "ring.enqs p1 cs = Inr p'" by (auto simp: res_simps)
  have "process_current s = a" "a \<noteq> 0" using Cons.prems(1) by (simp_all add: reads_keyboard_def process_current_def)
  then have "keyboard_push s c = Inr (set_proc s a p1)"
    using Cons.prems(2,3) p1(1) by (auto simp: keyboard_push_def obj_get_def)
  moreover have "keyboard_pushes (set_proc s a p1) cs = Inr (set_proc (set_proc s a p1) a p')"
    using Cons.prems(1,3) p1(2) by (intro Cons.IH) simp_all
  ultimately show ?case by simp
qed simp

lemma keyboard_pop_ring:
  assumes "reads_keyboard s a" "procs s a = Some p" "pop_char p = Inr (c, p')"
  shows "keyboard_pop s = Inr (c, set_proc s a p')"
  using assms by (auto simp: reads_keyboard_def keyboard_pop_def task_current_def obj_get_def)

lemma keyboard_pops_ring:
  assumes "reads_keyboard s a" "procs s a = Some p" "ring.deqs n p = Inr (cs, p')"
  shows "keyboard_pops n s = Inr (cs, set_proc s a p')"
  using assms
proof (induction n arbitrary: s p cs)
  case (Suc n)
  from Suc.prems(3) obtain c p1 ds where p1: "pop_char p = Inr (c, p1)" "ring.deqs n p1 = Inr (ds, p')" "cs = c # ds"
    by (auto simp: res_simps)
  have "keyboard_pops n (set_proc s a p1) = Inr (ds, set_proc (set_proc s a p1) a p')"
    using Suc.prems(1) p1(2) by (intro Suc.IH) simp_all
  then show ?case using keyboard_pop_ring [OF Suc.prems(1,2) p1(1)] p1(3) by simp
qed simp

text \<open>C34: up to 1024 typed characters come out of \<open>keyboard_pop\<close> in the order they were pushed, and then it answers 0,
  wherever head and tail stand in the ring.\<close>

theorem keyboard_fifo:
  assumes "reads_keyboard s a" "procs s a = Some p" "kb_ok p" "kb_queue p = []" "0 \<notin> set cs" "length cs \<le> 1024"
  shows "\<exists>s' s''. keyboard_pushes s cs = Inr s' \<and> keyboard_pops (length cs) s' = Inr (cs, s'') \<and>
    keyboard_pop s'' = Inr (0, s'')"
proof -
  obtain p' p'' where r: "ring.enqs p cs = Inr p'" "ring.deqs (length cs) p' = Inr (cs, p'')" "kb_ok p''" "kb_queue p'' = []"
    using ring.fifo [OF assms(3-6)] by blast
  let ?s = "set_proc s a p'" let ?t = "set_proc ?s a p''"
  have "keyboard_pushes s cs = Inr ?s" by (rule keyboard_pushes_ring [OF assms(1,2,5) r(1)])
  moreover have "keyboard_pops (length cs) ?s = Inr (cs, ?t)"
    using assms(1) r(2) by (intro keyboard_pops_ring) simp_all
  moreover have "keyboard_pop ?t = Inr (0, set_proc ?t a p'')"
    using assms(1) ring.deq_empty [OF r(3,4)] by (intro keyboard_pop_ring [where p = p'']) simp_all
  ultimately show ?thesis by simp
qed

definition example_keyboard_state :: kbstate where
  "example_keyboard_state = idtstate.extend
     (example_idt_state\<lparr>current_process := 0x01040000, current_task := 0x01010000,
        tasks := [0x01010000 \<mapsto> zero_task\<lparr>t_process := 0x01040000\<rparr>],
        procs := [0x01040000 \<mapsto> example_process\<lparr>kb_buffer := replicate 1024 0, kb_tail := 1020, kb_head := 1020\<rparr>]\<rparr>)
     (kbstate.fields (\<lambda>_. classic_keyboard) None None)"

lemma example_reads_keyboard:
  "reads_keyboard example_keyboard_state 0x01040000"
  "procs example_keyboard_state 0x01040000 =
     Some (example_process\<lparr>kb_buffer := replicate 1024 0, kb_tail := 1020, kb_head := 1020\<rparr>)"
  by (simp_all add: reads_keyboard_def example_keyboard_state_def idtstate.extend_def kbstate.fields_def)

lemma keyboard_fifo_witness:
  "\<exists>s' s''. keyboard_pushes example_keyboard_state [104, 101, 108, 108, 111] = Inr s' \<and>
     keyboard_pops 5 s' = Inr ([104, 101, 108, 108, 111], s'') \<and> keyboard_pop s'' = Inr (0, s'')"
proof -
  let ?p = "example_process\<lparr>kb_buffer := replicate 1024 0, kb_tail := 1020, kb_head := 1020\<rparr>"
  have "kb_ok ?p" "kb_queue ?p = []" by (simp_all add: kb_ok_def kb_queue_def kb_count_def kb_slot_def)
  moreover have "length [104, 101, 108, 108, 111 :: u8] = 5" by simp
  ultimately show ?thesis
    using keyboard_fifo [OF example_reads_keyboard, of "[104, 101, 108, 108, 111]"]
    by (simp del: keyboard_pushes.simps keyboard_pops.simps list.size)
qed

text \<open>When the ring is full, the next character overwrites the oldest one and is read first.\<close>

theorem keyboard_full_overwrites:
  assumes "reads_keyboard s a" "procs s a = Some p" "kb_ok p" "length (kb_queue p) = 1024" "c \<noteq> 0"
  shows "\<exists>s' s''. keyboard_push s c = Inr s' \<and> keyboard_pop s' = Inr (c, s'')"
proof -
  let ?i = "unat (kb_head p) mod 1024"
  let ?p = "p\<lparr>kb_buffer := (kb_buffer p)[?i := c], kb_tail := kb_tail p + 1\<rparr>"
  have l: "length (kb_buffer p) = 1024" and n: "kb_count p = 1024"
    using assms(3,4) by (simp_all add: kb_ok_def kb_queue_def)
  have "unat (kb_tail p) mod 1024 = ?i" using tail_index [of p] by (simp add: n)
  then have "push_char p c = Inr ?p"
    using l by (simp add: push_char_def keyboard_get_tail_index_def ring_word_index list_set_def)
  moreover have "process_current s = a" "a \<noteq> 0" using assms(1) by (simp_all add: reads_keyboard_def process_current_def)
  ultimately have "keyboard_push s c = Inr (set_proc s a ?p)"
    using assms(2,5) by (simp add: keyboard_push_def obj_get_def)
  moreover obtain p' where "pop_char ?p = Inr (c, p')"
    using l assms(5) by (simp add: pop_char_def ring_word_index list_get_def list_set_def)
  then have "keyboard_pop (set_proc s a ?p) = Inr (c, set_proc (set_proc s a ?p) a p')"
    using assms(1) by (intro keyboard_pop_ring [where p = ?p]) simp_all
  ultimately show ?thesis by blast
qed

definition example_full_state :: kbstate where
  "example_full_state = example_keyboard_state\<lparr>procs :=
     [0x01040000 \<mapsto> example_process\<lparr>kb_buffer := replicate 1024 97, kb_tail := 1034, kb_head := 10\<rparr>]\<rparr>"

lemma keyboard_full_overwrites_witness:
  "\<exists>s' s''. keyboard_push example_full_state 98 = Inr s' \<and> keyboard_pop s' = Inr (98, s'')"
proof (rule keyboard_full_overwrites)
  show "reads_keyboard example_full_state 0x01040000"
    using example_reads_keyboard(1) by (simp add: reads_keyboard_def example_full_state_def)
  show "procs example_full_state 0x01040000 =
      Some (example_process\<lparr>kb_buffer := replicate 1024 97, kb_tail := 1034, kb_head := 10\<rparr>)"
    by (simp add: example_full_state_def)
qed (simp_all add: kb_ok_def kb_queue_def kb_count_def kb_slot_def)

end
