(* ===== verification/Syscalls.thy ===== *)
theory Syscalls
  imports Keyboard
begin

text \<open>
  The system commands: src/isr80h/heap.c, io.c, misc.c and process.c. A command returns a value to the process that asked or, by
  \<open>task_return\<close>, leaves the kernel for another process and never returns: \<open>command_result\<close> says which. A local array a command
  only writes up to its terminator starts as zeros; its other bytes are never read.
\<close>

datatype command_result =
    Result u32 \<comment> \<open>the value for EAX\<close>
  | Enter_user registers \<comment> \<open>\<open>task_return\<close> with this context\<close>

text \<open>\<open>task_current()->process\<close>\<close>

definition current_task_process :: "'a taskstate_scheme \<Rightarrow> u32 res" where
  "current_task_process s = bind_res (obj_get (tasks s) (task_current s)) (\<lambda>t. Inr (t_process t))"

subsection \<open>misc.c, io.c, heap.c\<close>

definition isr80h_command0_sum :: "'a taskstate_scheme \<Rightarrow> (command_result \<times> 'a taskstate_scheme) res" where
  "isr80h_command0_sum s =
     bind_res (task_get_stack_item s (task_current s) 1) (\<lambda>(v2, s).
     bind_res (task_get_stack_item s (task_current s) 0) (\<lambda>(v1, s). Inr (Result (v1 + v2), s)))"

definition isr80h_command1_print :: "'a taskstate_scheme \<Rightarrow> (command_result \<times> 'a taskstate_scheme) res" where
  "isr80h_command1_print s =
     bind_res (task_get_stack_item s (task_current s) 0) (\<lambda>(user_space_msg_buffer, s).
     bind_res (copy_string_from_task s (task_current s) user_space_msg_buffer (replicate 1024 0) 1024) (\<lambda>(res, buf, s).
     bind_res (print buf s) (\<lambda>s. Inr (Result 0, s))))"

definition isr80h_command2_getkey :: "'a procstate_scheme \<Rightarrow> (command_result \<times> 'a procstate_scheme) res" where
  "isr80h_command2_getkey s = bind_res (keyboard_pop s) (\<lambda>(c, s). Inr (Result (scast c), s))"

definition isr80h_command3_putchar :: "'a taskstate_scheme \<Rightarrow> (command_result \<times> 'a taskstate_scheme) res" where
  "isr80h_command3_putchar s =
     bind_res (task_get_stack_item s (task_current s) 0) (\<lambda>(v, s).
     bind_res (terminal_writechar (ucast v) 15 s) (\<lambda>s. Inr (Result 0, s)))"

definition isr80h_command4_malloc :: "'a taskstate_scheme \<Rightarrow> (command_result \<times> 'a taskstate_scheme) res" where
  "isr80h_command4_malloc s =
     bind_res (task_get_stack_item s (task_current s) 0) (\<lambda>(sz, s).
     bind_res (current_task_process s) (\<lambda>process.
     bind_res (process_malloc s process sz) (\<lambda>(ptr, s). Inr (Result ptr, s))))"

definition isr80h_command5_free :: "'a taskstate_scheme \<Rightarrow> (command_result \<times> 'a taskstate_scheme) res" where
  "isr80h_command5_free s =
     bind_res (task_get_stack_item s (task_current s) 0) (\<lambda>(ptr_to_free, s).
     bind_res (current_task_process s) (\<lambda>process.
     bind_res (process_free s process ptr_to_free) (\<lambda>s. Inr (Result 0, s))))"

subsection \<open>process.c\<close>

text \<open>\<open>task_switch(process->task); task_return(&process->task->registers)\<close>\<close>

definition enter_process :: "'a taskstate_scheme \<Rightarrow> u32 \<Rightarrow> (command_result \<times> 'a taskstate_scheme) res" where
  "enter_process s process =
     bind_res (obj_get (procs s) process) (\<lambda>p.
     bind_res (task_switch s (pr_task p)) (\<lambda>s.
     bind_res (obj_get (tasks s) (pr_task p)) (\<lambda>t.
       let (r, s) = task_return s (regs t) in Inr (Enter_user r, s))))"

definition isr80h_command6_process_load_start :: "'a procstate_scheme \<Rightarrow> (command_result \<times> 'a procstate_scheme) res" where
  "isr80h_command6_process_load_start s =
     bind_res (task_get_stack_item s (task_current s) 0) (\<lambda>(filename_user_ptr, s).
     bind_res (copy_string_from_task s (task_current s) filename_user_ptr (replicate 108 0) 108) (\<lambda>(res, name, s).
       if res < 0 then Inr (Result 0, s)
       else bind_res (strcpy (replicate 108 0) 0 (c_literal ''0:/'')) (\<lambda>path.
         bind_res (strcpy path 3 name) (\<lambda>path.
         bind_res (process_load_switch s path) (\<lambda>(res, process, s).
           if res < 0 then Inr (Result 0, s) else enter_process s process)))))"

definition isr80h_command7_invoke_system_command :: "'a procstate_scheme \<Rightarrow> (command_result \<times> 'a procstate_scheme) res" where
  "isr80h_command7_invoke_system_command s =
     bind_res (task_get_stack_item s (task_current s) 0) (\<lambda>(v, s).
     bind_res (task_virtual_address_to_physical s (task_current s) v) (\<lambda>arguments.
     bind_res (if arguments = 0 then Inr 0 else strlen (arg_bytes (mem s) arguments)) (\<lambda>len.
       if len = 0 then Inr (Result (ERROR_ptr (- EINVARG)), s)
       else bind_res (strcpy (replicate 108 0) 0 (c_literal ''0:/'')) (\<lambda>path.
         bind_res (strncpy path 3 (arg_bytes (mem s) arguments) 108) (\<lambda>path.
         bind_res (process_load_switch s path) (\<lambda>(res, process, s).
           if res < 0 then Inr (Result (ERROR_ptr res), s)
           else bind_res (process_inject_arguments s process arguments) (\<lambda>(res, s).
             if res < 0 then Inr (Result (ERROR_ptr res), s) else enter_process s process)))))))"

definition isr80h_command8_get_program_arguments :: "'a taskstate_scheme \<Rightarrow> (command_result \<times> 'a taskstate_scheme) res" where
  "isr80h_command8_get_program_arguments s =
     bind_res (current_task_process s) (\<lambda>process.
     bind_res (task_get_stack_item s (task_current s) 0) (\<lambda>(v, s).
     bind_res (task_virtual_address_to_physical s (task_current s) v) (\<lambda>arguments.
     bind_res (obj_get (procs s) process) (\<lambda>p.
       let (argc, argv) = process_get_arguments p
       in Inr (Result 0, s\<lparr>mem := store32 (store32 (mem s) arguments (word_of_int argc)) (arguments + 4) argv\<rparr>)))))"

definition isr80h_command9_exit :: "'a procstate_scheme \<Rightarrow> (command_result \<times> 'a procstate_scheme) res" where
  "isr80h_command9_exit s =
     bind_res (current_task_process s) (\<lambda>process.
     bind_res (process_terminate s process) (\<lambda>s.
     bind_res (task_next s) (\<lambda>(r, s). Inr (Enter_user r, s))))"

end
