(* ===== verification/Interrupts.thy ===== *)
theory Interrupts
  imports Syscalls
begin

text \<open>
  Interrupts: the handlers of src/idt/idt.c, entered through the routines of idt.asm. \<open>interrupt_entry\<close> and \<open>isr80h_wrapper\<close> are those
  routines: what they return is the user context their \<open>iret\<close> goes on with. A handler that leaves the kernel by \<open>task_return\<close> never comes
  back to them.
\<close>

subsection \<open>Callbacks (idt.c)\<close>

definition idt_handle_exception :: "'a procstate_scheme \<Rightarrow> (registers option \<times> 'a procstate_scheme) res" where
  "idt_handle_exception s =
     bind_res (current_task_process s) (\<lambda>process.
     bind_res (process_terminate s process) (\<lambda>s.
     bind_res (task_next s) (\<lambda>(r, s). Inr (Some r, s))))"

definition idt_clock :: "'a taskstate_scheme \<Rightarrow> (registers option \<times> 'a taskstate_scheme) res" where
  "idt_clock s = bind_res (task_next (outb 0x20 0x20 s)) (\<lambda>(r, s). Inr (Some r, s))"

fun run_callback :: "INTERRUPT_CALLBACK_FUNCTION \<Rightarrow> 'a kbstate_scheme \<Rightarrow> (registers option \<times> 'a kbstate_scheme) res" where
  "run_callback Idt_handle_exception s = idt_handle_exception s"
| "run_callback Idt_clock s = idt_clock s"
| "run_callback Classic_keyboard_handle_interrupt s = bind_res (classic_keyboard_handle_interrupt s) (\<lambda>s. Inr (None, s))"

definition idt_zero_handler :: "'a tstate_scheme \<Rightarrow> 'a tstate_scheme res" where
  "idt_zero_handler s = print (c_literal (''Divide by zero error.'' @ [CHR 0x0A])) s"

definition no_interrupt_handler :: "'a iostate_scheme \<Rightarrow> 'a iostate_scheme" where
  "no_interrupt_handler s = outb 0x20 0x20 s"

definition interrupt_handler ::
  "'a kbstate_scheme \<Rightarrow> int \<Rightarrow> interrupt_frame \<Rightarrow> (registers option \<times> 'a kbstate_scheme) res" where
  "interrupt_handler s interrupt frame =
     (let s = kernel_page s
      in bind_res (list_get (interrupt_callbacks s) interrupt) (\<lambda>callback.
         bind_res (case callback of
                     None \<Rightarrow> Inr (None, s)
                   | Some f \<Rightarrow> bind_res (task_current_save_state s frame) (run_callback f)) (\<lambda>(r, s).
           if r \<noteq> None then Inr (r, s)
           else bind_res (task_page s) (\<lambda>s. Inr (None, outb 0x20 0x20 s)))))"

subsection \<open>System commands\<close>

fun run_command :: "ISR80H_COMMAND \<Rightarrow> 'a procstate_scheme \<Rightarrow> (command_result \<times> 'a procstate_scheme) res" where
  "run_command Isr80h_command0_sum s = isr80h_command0_sum s"
| "run_command Isr80h_command1_print s = isr80h_command1_print s"
| "run_command Isr80h_command2_getkey s = isr80h_command2_getkey s"
| "run_command Isr80h_command3_putchar s = isr80h_command3_putchar s"
| "run_command Isr80h_command4_malloc s = isr80h_command4_malloc s"
| "run_command Isr80h_command5_free s = isr80h_command5_free s"
| "run_command Isr80h_command6_process_load_start s = isr80h_command6_process_load_start s"
| "run_command Isr80h_command7_invoke_system_command s = isr80h_command7_invoke_system_command s"
| "run_command Isr80h_command8_get_program_arguments s = isr80h_command8_get_program_arguments s"
| "run_command Isr80h_command9_exit s = isr80h_command9_exit s"

definition isr80h_handle_command :: "'a idtstate_scheme \<Rightarrow> int \<Rightarrow> (command_result \<times> 'a idtstate_scheme) res" where
  "isr80h_handle_command s command =
     (if command < 0 \<or> MARROWOS_MAX_ISR80H_COMMANDS \<le> command then Inr (Result 0, s)
      else bind_res (list_get (isr80h_commands s) command) (\<lambda>command_func.
        case command_func of None \<Rightarrow> Inr (Result 0, s) | Some f \<Rightarrow> run_command f s))"

definition isr80h_handler ::
  "'a idtstate_scheme \<Rightarrow> int \<Rightarrow> interrupt_frame \<Rightarrow> (command_result \<times> 'a idtstate_scheme) res" where
  "isr80h_handler s command frame =
     bind_res (task_current_save_state (kernel_page s) frame) (\<lambda>s.
     bind_res (isr80h_handle_command s command) (\<lambda>(res, s).
       case res of
         Result v \<Rightarrow> bind_res (task_page s) (\<lambda>s. Inr (Result v, s))
       | Enter_user r \<Rightarrow> Inr (Enter_user r, s)))"

subsection \<open>Entry and exit (idt.asm)\<close>

text \<open>What \<open>popad\<close> and \<open>iret\<close> restore from a frame.\<close>

definition frame_registers :: "interrupt_frame \<Rightarrow> registers" where
  "frame_registers f =
     \<lparr>r_edi = f_edi f, r_esi = f_esi f, r_ebp = f_ebp f, r_ebx = f_ebx f, r_edx = f_edx f, r_ecx = f_ecx f,
      r_eax = f_eax f, r_ip = f_ip f, r_cs = f_cs f, r_flags = f_flags f, r_esp = f_esp f, r_ss = f_ss f\<rparr>"

text \<open>
  The stub of a vector in \<open>interrupt_pointer_table\<close>, entered with the words \<open>frame\<close> that lie on the stack after its \<open>pushad\<close>. For an interrupt
  without error code these are the registers of the interrupted code.
\<close>

definition interrupt_entry :: "'a kbstate_scheme \<Rightarrow> int \<Rightarrow> interrupt_frame \<Rightarrow> (registers \<times> 'a kbstate_scheme) res" where
  "interrupt_entry s interrupt frame =
     bind_res (interrupt_handler s interrupt frame) (\<lambda>(r, s).
       Inr (case r of None \<Rightarrow> frame_registers frame | Some r \<Rightarrow> r, s))"

text \<open>
  The exceptions for which the processor pushes an error code last. The stub does not know about it: what it hands on, saves, and returns with
  has every word of the processor's part one place too low.
\<close>

definition pushes_error_code :: "int \<Rightarrow> bool" where
  "pushes_error_code vector \<longleftrightarrow> vector \<in> {8, 10, 11, 12, 13, 14, 17, 21, 29, 30}"

definition error_frame :: "u32 \<Rightarrow> interrupt_frame \<Rightarrow> interrupt_frame" where
  "error_frame e f = f\<lparr>f_ip := e, f_cs := f_ip f, f_flags := f_cs f, f_esp := f_flags f, f_ss := f_esp f\<rparr>"

definition isr80h_wrapper :: "'a idtstate_scheme \<Rightarrow> interrupt_frame \<Rightarrow> (registers \<times> 'a idtstate_scheme) res" where
  "isr80h_wrapper s frame =
     bind_res (isr80h_handler s (sint (f_eax frame)) frame) (\<lambda>(res, s).
       Inr (case res of Result v \<Rightarrow> (frame_registers frame)\<lparr>r_eax := v\<rparr> | Enter_user r \<Rightarrow> r, s))"

subsection \<open>Dispatch\<close>

text \<open>C33: with the kernel's commands registered, a command number below 10 runs that command and any other
  number, negative ones included, answers 0 and changes nothing.\<close>

theorem isr80h_dispatch:
  assumes "isr80h_commands s = replicate 1024 None" "isr80h_register_commands s = Inr s'"
  shows "isr80h_handle_command s' command =
    (if 0 \<le> command \<and> command < 10 then run_command (kernel_commands ! nat command) s' else Inr (Result 0, s'))"
proof -
  have s': "isr80h_commands s' = map Some kernel_commands @ replicate 1014 None"
    using register_commands_table [OF assms(1)] assms(2) by auto
  have l: "length kernel_commands = 10" by (simp add: kernel_commands_def)
  have "0 \<le> command \<Longrightarrow> command < 1024 \<Longrightarrow> list_get (isr80h_commands s') command =
      Inr (if command < 10 then Some (kernel_commands ! nat command) else None)"
    by (simp add: s' list_get_def l nth_append nat_less_iff)
  then show ?thesis by (auto simp: isr80h_handle_command_def)
qed

lemma isr80h_dispatch_witness:
  "\<exists>s'. isr80h_register_commands example_idt_state = Inr s' \<and>
     isr80h_handle_command s' 10 = Inr (Result 0, s') \<and> isr80h_handle_command s' (- 1) = Inr (Result 0, s') \<and>
     isr80h_handle_command s' 2 = isr80h_command2_getkey s'"
proof -
  obtain s' where "isr80h_register_commands example_idt_state = Inr s'"
    using register_commands_table [OF example_idt_tables(3)] by blast
  then show ?thesis
    using isr80h_dispatch [OF example_idt_tables(3)] by (simp add: kernel_commands_def)
qed

subsection \<open>A system call\<close>

lemma vtrans_cong: "mem s' = mem s \<Longrightarrow> cr3 s' = cr3 s \<Longrightarrow> cr0 s' = cr0 s \<Longrightarrow> vtrans s' a = vtrans s a"
  by (simp add: vtrans_def)

lemma vload32_cong: "mem s' = mem s \<Longrightarrow> cr3 s' = cr3 s \<Longrightarrow> cr0 s' = cr0 s \<Longrightarrow> vload32 s' a = vload32 s a"
  using vtrans_cong [of s' s] by (simp add: vload32_def vload_def)

lemma task_get_stack_item_word:
  assumes "tasks s a = Some t"
    and "vload32 (s\<lparr>cr3 := load32 (mem s) (page_directory t)\<rparr>) (r_esp (regs t) + 4 * word_of_int i) = Inr v"
  shows "\<exists>d. task_get_stack_item s a i = Inr (v, kernel_page (s\<lparr>current_directory := d, data_segments := 0x23\<rparr>))"
proof -
  let ?u = "paging_switch (user_registers s) (page_directory t)"
  have "vload32 ?u (r_esp (regs t) + 4 * word_of_int i) = Inr v"
    unfolding assms(2) [symmetric]
    by (rule vload32_cong) (simp_all add: paging_switch_def paging_load_directory_def user_registers_def Let_def)
  then have "task_get_stack_item s a i = Inr (v, kernel_page ?u)"
    using assms(1) by (simp add: task_get_stack_item_def obj_get_def task_page_task_def)
  moreover have "kernel_page ?u = kernel_page (s\<lparr>current_directory := current_directory ?u, data_segments := 0x23\<rparr>)"
    by (simp add: kernel_page_def kernel_registers_def paging_switch_def paging_load_directory_def user_registers_def Let_def)
  ultimately show ?thesis by auto
qed

text \<open>The state a command starts from: the caller's registers are saved and the kernel's page directory is in use.\<close>

definition command_entry :: "'a idtstate_scheme \<Rightarrow> task \<Rightarrow> interrupt_frame \<Rightarrow> 'a idtstate_scheme" where
  "command_entry s t frame = set_task (kernel_page s) (current_task s) (task_save_state t frame)"

lemma command_entry_simps [simp]:
  "tasks (command_entry s t frame) = (tasks s)(current_task s \<mapsto> task_save_state t frame)" "mem (command_entry s t frame) = mem s"
  "cr0 (command_entry s t frame) = cr0 s" "current_task (command_entry s t frame) = current_task s"
  "isr80h_commands (command_entry s t frame) = isr80h_commands s" "procs (command_entry s t frame) = procs s"
  by (simp_all add: command_entry_def set_task_def kernel_page_def kernel_registers_def paging_switch_def paging_load_directory_def Let_def)

lemma kernel_page_simps:
  "tasks (kernel_page s) = tasks s" "mem (kernel_page s) = mem s" "cr0 (kernel_page s) = cr0 s" "current_task (kernel_page s) = current_task s"
  "procs (kernel_page s) = procs s"
  by (simp_all add: kernel_page_def kernel_registers_def paging_switch_def paging_load_directory_def Let_def)

lemma saved_task_simps [simp]:
  "page_directory (task_save_state t frame) = page_directory t" "r_esp (regs (task_save_state t frame)) = f_esp frame"
  "t_process (task_save_state t frame) = t_process t"
  by (simp_all add: task_save_state_def)

text \<open>The state a command that leaves the memory \<open>m\<close> and touches nothing else of the kernel returns to user mode in.\<close>

definition served :: "'a idtstate_scheme \<Rightarrow> task \<Rightarrow> interrupt_frame \<Rightarrow> memory \<Rightarrow> 'a idtstate_scheme" where
  "served s t frame m =
     s\<lparr>tasks := (tasks s)(current_task s \<mapsto> task_save_state t frame), mem := m, cr3 := load32 m (page_directory t),
       current_directory := load32 m (page_directory t), data_segments := 0x23\<rparr>"

lemma served_simps [simp]:
  "tasks (served s t frame m) = (tasks s)(current_task s \<mapsto> task_save_state t frame)" "mem (served s t frame m) = m"
  "cr3 (served s t frame m) = load32 m (page_directory t)" "cr0 (served s t frame m) = cr0 s" "kheap (served s t frame m) = kheap s"
  "current_task (served s t frame m) = current_task s" "procs (served s t frame m) = procs s"
  "isr80h_commands (served s t frame m) = isr80h_commands s" "tstate.truncate (served s t frame m) = tstate.truncate s"
  by (simp_all add: served_def tstate.truncate_def)

lemma served_kernel_page:
  "(kernel_page ((command_entry s t frame)\<lparr>current_directory := d, data_segments := g\<rparr>))\<lparr>mem := m, cr3 := load32 m (page_directory t),
     current_directory := load32 m (page_directory t), data_segments := 0x23\<rparr> = served s t frame m"
  by (cases s) (simp add: served_def command_entry_def set_task_def kernel_page_def kernel_registers_def paging_switch_def paging_load_directory_def Let_def)

text \<open>A command that answers \<open>v\<close> returns it to the caller, under the page directory of the task that is current then.\<close>

lemma command_leaves:
  assumes "current_task s \<noteq> 0" "tasks s (current_task s) = Some t" "length (isr80h_commands s) = 1024" "sint (f_eax frame) = int i" "i < 1024"
    and "isr80h_commands s ! i = Some c" "run_command c (command_entry s t frame) = Inr (Result v, u)" "tasks u (current_task u) = Some t'"
    and "load32 (mem u) (page_directory t') = d"
  shows "isr80h_wrapper s frame = Inr ((frame_registers frame)\<lparr>r_eax := v\<rparr>, u\<lparr>cr3 := d, current_directory := d, data_segments := 0x23\<rparr>)"
proof -
  have "task_current_save_state (kernel_page s) frame = Inr (command_entry s t frame)"
    using assms(1,2) by (simp add: task_current_save_state_def command_entry_def obj_get_def kernel_page_simps)
  moreover have "isr80h_handle_command (command_entry s t frame) (int i) = Inr (Result v, u)"
    using assms(3,5-7) by (simp add: isr80h_handle_command_def list_get_def)
  ultimately have "isr80h_wrapper s frame = Inr ((frame_registers frame)\<lparr>r_eax := v\<rparr>, paging_switch (user_registers u) (page_directory t'))"
    using assms(4,8) by (simp add: isr80h_wrapper_def isr80h_handler_def task_page_def task_switch_def obj_get_def user_registers_def)
  moreover have "paging_switch (user_registers u) (page_directory t') = u\<lparr>cr3 := d, current_directory := d, data_segments := 0x23\<rparr>"
    using assms(9) by (cases u) (simp add: paging_switch_def paging_load_directory_def user_registers_def Let_def)
  ultimately show ?thesis by simp
qed

lemma command_faults:
  assumes "current_task s \<noteq> 0" "tasks s (current_task s) = Some t" "length (isr80h_commands s) = 1024" "sint (f_eax frame) = int i" "i < 1024"
    and "isr80h_commands s ! i = Some c" "run_command c (command_entry s t frame) = Inl e"
  shows "isr80h_wrapper s frame = Inl e"
proof -
  have "task_current_save_state (kernel_page s) frame = Inr (command_entry s t frame)"
    using assms(1,2) by (simp add: task_current_save_state_def command_entry_def obj_get_def kernel_page_simps)
  moreover have "isr80h_handle_command (command_entry s t frame) (int i) = Inl e"
    using assms(3,5-7) by (simp add: isr80h_handle_command_def list_get_def)
  ultimately show ?thesis using assms(4) by (simp add: isr80h_wrapper_def isr80h_handler_def)
qed

lemma command_returns:
  assumes "current_task s \<noteq> 0" "tasks s (current_task s) = Some t" "length (isr80h_commands s) = 1024" "sint (f_eax frame) = int i" "i < 1024"
    and "isr80h_commands s ! i = Some c" "run_command c (command_entry s t frame) = Inr (Result v, u)" "tasks u (current_task u) = Some t'"
  shows "\<exists>s'. isr80h_wrapper s frame = Inr ((frame_registers frame)\<lparr>r_eax := v\<rparr>, s') \<and> mem s' = mem u \<and>
    cr3 s' = load32 (mem u) (page_directory t') \<and> current_task s' = current_task u \<and> cr0 s' = cr0 u \<and> data_segments s' = 0x23"
  using command_leaves [OF assms refl] by simp

text \<open>Reading the caller's stack from a command.\<close>

lemma caller_stack_item:
  assumes "vload32 (s\<lparr>cr3 := load32 (mem s) (page_directory t)\<rparr>) (f_esp frame + 4 * word_of_int i) = Inr v"
    and "tasks u a = Some (task_save_state t frame)" "mem u = mem s" "cr0 u = cr0 s"
  shows "\<exists>d. task_get_stack_item u a i = Inr (v, kernel_page (u\<lparr>current_directory := d, data_segments := 0x23\<rparr>))"
proof (rule task_get_stack_item_word [OF assms(2)])
  show "vload32 (u\<lparr>cr3 := load32 (mem u) (page_directory (task_save_state t frame))\<rparr>) (r_esp (regs (task_save_state t frame)) + 4 * word_of_int i) = Inr v"
    unfolding saved_task_simps assms(1) [symmetric] by (rule vload32_cong) (simp_all add: assms(3,4))
qed

text \<open>\<open>int 0x80\<close> with command 0 gives the sum of the two words on top of the caller's stack in EAX: the process goes on after the
  instruction with every other register as it was, under its own page directory.\<close>

theorem syscall_sum:
  assumes "current_task s \<noteq> 0" "tasks s (current_task s) = Some t"
    and "length (isr80h_commands s) = 1024" "isr80h_commands s ! 0 = Some Isr80h_command0_sum" "f_eax frame = 0"
    and "vload32 (s\<lparr>cr3 := load32 (mem s) (page_directory t)\<rparr>) (f_esp frame) = Inr v1"
    and "vload32 (s\<lparr>cr3 := load32 (mem s) (page_directory t)\<rparr>) (f_esp frame + 4) = Inr v2"
  shows "\<exists>s'. isr80h_wrapper s frame = Inr ((frame_registers frame)\<lparr>r_eax := v1 + v2\<rparr>, s') \<and> mem s' = mem s \<and>
    cr3 s' = load32 (mem s) (page_directory t) \<and> current_task s' = current_task s \<and> data_segments s' = 0x23"
proof -
  let ?a = "current_task s" and ?s1 = "command_entry s t frame"
  obtain d where v2: "task_get_stack_item ?s1 ?a 1 = Inr (v2, kernel_page (?s1\<lparr>current_directory := d, data_segments := 0x23\<rparr>))"
    using caller_stack_item [of s t frame 1 v2 ?s1 ?a] assms(7) by auto
  define s2 where "s2 = kernel_page (?s1\<lparr>current_directory := d, data_segments := 0x23\<rparr>)"
  obtain e where v1: "task_get_stack_item s2 ?a 0 = Inr (v1, kernel_page (s2\<lparr>current_directory := e, data_segments := 0x23\<rparr>))"
    using caller_stack_item [of s t frame 0 v1 s2 ?a] assms(6) by (auto simp: s2_def kernel_page_simps)
  define s3 where "s3 = kernel_page (s2\<lparr>current_directory := e, data_segments := 0x23\<rparr>)"
  have "run_command Isr80h_command0_sum ?s1 = Inr (Result (v1 + v2), s3)"
    by (simp add: isr80h_command0_sum_def task_current_def v2 s2_def [symmetric] v1 s3_def) (simp add: s2_def v1 [unfolded s2_def] kernel_page_simps)
  from command_returns [OF assms(1-3) _ _ assms(4) this, of "task_save_state t frame"] assms(5)
  show ?thesis by (auto simp: s3_def s2_def kernel_page_simps)
qed

lemma word_aligned_next:
  assumes "word_aligned a"
  shows "word_aligned (a + 4)" "a + 4 \<noteq> a"
proof -
  have "unat (a + 4) = (unat a + 4) mod 4294967296" by (simp add: unat_word_ariths)
  then show "word_aligned (a + 4)" using assms by (simp add: word_aligned_def mod_mod_cancel)
qed simp

text \<open>
  \<open>int 0x80\<close> with command 8 stores the number of arguments and the address of their array in the structure the caller's stack points
  to, at whatever physical address the caller's page directory gives for it, and answers 0.
\<close>

lemma syscall_get_arguments:
  assumes "current_task s \<noteq> 0" "tasks s (current_task s) = Some t" "procs s (t_process t) = Some p"
    and "length (isr80h_commands s) = 1024" "isr80h_commands s ! 8 = Some Isr80h_command8_get_program_arguments" "f_eax frame = 8"
    and "vload32 (s\<lparr>cr3 := load32 (mem s) (page_directory t)\<rparr>) (f_esp frame) = Inr v"
    and "paging_get_physical_address (mem s) (load32 (mem s) (page_directory t)) v = a"
  shows "isr80h_wrapper s frame = Inr ((frame_registers frame)\<lparr>r_eax := 0\<rparr>,
    served s t frame (store32 (store32 (mem s) a (word_of_int (pr_argc p))) (a + 4) (pr_argv p)))"
proof -
  let ?a = "current_task s" and ?s1 = "command_entry s t frame"
  let ?m = "store32 (store32 (mem s) a (word_of_int (pr_argc p))) (a + 4) (pr_argv p)"
  obtain d where d: "task_get_stack_item ?s1 ?a 0 = Inr (v, kernel_page (?s1\<lparr>current_directory := d, data_segments := 0x23\<rparr>))"
    using caller_stack_item [of s t frame 0 v ?s1 ?a] assms(7) by auto
  define s2 where "s2 = kernel_page (?s1\<lparr>current_directory := d, data_segments := 0x23\<rparr>)"
  have "task_virtual_address_to_physical s2 ?a v = Inr a"
    using assms(8) by (simp add: s2_def task_virtual_address_to_physical_def obj_get_def kernel_page_simps)
  moreover have "obj_get (procs s2) (t_process t) = Inr p"
    using assms(3) by (simp add: s2_def obj_get_def kernel_page_simps)
  moreover have "mem s2 = mem s" "current_task s2 = ?a" by (simp_all add: s2_def kernel_page_simps)
  ultimately have "run_command Isr80h_command8_get_program_arguments ?s1 = Inr (Result 0, s2\<lparr>mem := ?m\<rparr>)"
    using d by (simp add: isr80h_command8_get_program_arguments_def current_task_process_def task_current_def obj_get_def
      process_get_arguments_def s2_def [symmetric])
  from command_leaves [OF assms(1,2,4) _ _ assms(5) this, of "task_save_state t frame"] assms(6)
  show ?thesis unfolding served_kernel_page [where s = s and t = t and frame = frame and d = d and g = "0x23" and m = ?m, symmetric] by (simp add: s2_def kernel_page_simps)
qed

text \<open>A process with one page of stack at \<open>0x5000\<close>, held in the page frame \<open>0x8000\<close>; paging is on.\<close>

definition example_call_state :: kbstate where
  "example_call_state = example_keyboard_state\<lparr>cr0 := 0x80000001,
     mem := store32 (store32 (store32 (store32 (store32 (\<lambda>_. 0) 0x1000 0x2000) 0x2000 0x3007) 0x3014 0x8007) 0x8f00 40) 0x8f04 2,
     tasks := [0x01010000 \<mapsto> zero_task\<lparr>page_directory := 0x1000\<rparr>],
     isr80h_commands := map Some kernel_commands @ replicate 1014 None\<rparr>"

definition example_frame :: "u32 \<Rightarrow> interrupt_frame" where
  "example_frame ip = \<lparr>f_edi = 1, f_esi = 2, f_ebp = 3, f_reserved = 0, f_ebx = 4, f_edx = 5, f_ecx = 6, f_eax = 0,
     f_ip = ip, f_cs = 0x1b, f_flags = 0x202, f_esp = 0x5f00, f_ss = 0x23\<rparr>"

lemma syscall_sum_witness:
  "\<exists>s'. isr80h_wrapper example_call_state (example_frame 0x400010) =
     Inr ((frame_registers (example_frame 0x400010))\<lparr>r_eax := 42\<rparr>, s')"
proof -
  have b: "current_task example_call_state = 0x01010000"
    "tasks example_call_state 0x01010000 = Some (zero_task\<lparr>page_directory := 0x1000\<rparr>)"
    "length (isr80h_commands example_call_state) = 1024"
    "isr80h_commands example_call_state ! 0 = Some Isr80h_command0_sum"
    by (simp_all add: example_call_state_def example_keyboard_state_def idtstate.extend_def kbstate.fields_def
      kernel_commands_def)
  have m: "mem example_call_state = store32 (store32 (store32 (store32 (store32 (\<lambda>_. 0) 0x1000 0x2000) 0x2000 0x3007)
      0x3014 0x8007) 0x8f00 40) 0x8f04 2" "cr0 example_call_state = 0x80000001"
    by (simp_all add: example_call_state_def)
  have v: "vload32 (example_call_state\<lparr>cr3 := load32 (mem example_call_state) 0x1000\<rparr>) 0x5f00 = Inr 40"
      "vload32 (example_call_state\<lparr>cr3 := load32 (mem example_call_state) 0x1000\<rparr>) 0x5f04 = Inr 2"
    by (simp_all add: m vload32_def vload_def vtrans_def load32_def store32_def)
  show ?thesis
    using syscall_sum [of example_call_state "zero_task\<lparr>page_directory := 0x1000\<rparr>" "example_frame 0x400010" 40 2] b v
    by (simp add: example_frame_def) blast
qed

subsection \<open>Preemption\<close>

text \<open>Clock interrupts, each with the frame of the task it stops; the contexts entered.\<close>

fun clock_ticks :: "'a kbstate_scheme \<Rightarrow> interrupt_frame list \<Rightarrow> (registers list \<times> 'a kbstate_scheme) res" where
  "clock_ticks s [] = Inr ([], s)"
| "clock_ticks s (f # fs) =
     bind_res (interrupt_entry s 0x20 f) (\<lambda>(r, s). bind_res (clock_ticks s fs) (\<lambda>(rs, s). Inr (r # rs, s)))"

text \<open>A kernel whose tasks are \<open>xs\<close>, with the \<open>i\<close>th of them running and the clock callback registered.\<close>

definition runs :: "'a kbstate_scheme \<Rightarrow> u32 list \<Rightarrow> nat \<Rightarrow> bool" where
  "runs s xs i \<longleftrightarrow> task_ring s xs \<and> i < length xs \<and> current_task s = xs ! i \<and>
     length (interrupt_callbacks s) = 512 \<and> interrupt_callbacks s ! 0x20 = Some Idt_clock"

definition saved :: "'a taskstate_scheme \<Rightarrow> u32 \<Rightarrow> registers option" where
  "saved s a = map_option regs (tasks s a)"

lemma task_next_same:
  assumes "task_next s = Inr (r, s')"
  shows "interrupt_callbacks s' = interrupt_callbacks s"
  using assms by (auto simp: task_next_def res_simps task_switch_def task_return_def paging_switch_def paging_load_directory_def
    panic_def Let_def split: if_splits)

lemma clock_tick:
  assumes "runs s xs i"
  shows "\<exists>r s'. interrupt_entry s 0x20 f = Inr (user_context r, s') \<and> runs s' xs (Suc i mod length xs) \<and>
    saved s' = (saved s)(xs ! i \<mapsto> frame_registers f) \<and> saved s' (xs ! (Suc i mod length xs)) = Some r"
proof -
  let ?x = "xs ! i"
  obtain t where t: "tasks s ?x = Some t" and x0: "?x \<noteq> 0"
    using task_chain_nth [of "tasks s" "task_head s" xs i] assms by (auto simp: runs_def task_ring_def)
  define s1 where "s1 = set_task (kernel_page s) ?x (task_save_state t f)"
  have cur: "current_task (kernel_page s) = ?x" "tasks (kernel_page s) = tasks s"
      "interrupt_callbacks (kernel_page s) = interrupt_callbacks s" "task_head (kernel_page s) = task_head s"
    using assms by (simp_all add: runs_def kernel_page_def kernel_registers_def paging_switch_def paging_load_directory_def Let_def)
  have save: "task_current_save_state (kernel_page s) f = Inr s1"
    using t x0 by (simp add: task_current_save_state_def s1_def cur obj_get_def)
  have chain: "task_chain ((tasks s)(?x \<mapsto> task_save_state t f)) a ys = task_chain (tasks s) a ys" for a ys
  proof (induction ys arbitrary: a)
    case (Cons y ys)
    have n: "t_next (task_save_state t f) = t_next t" by (simp add: task_save_state_def)
    show ?case using t by (cases "y = ?x") (simp_all add: Cons.IH n del: fun_upd_apply, simp_all add: n)
  qed simp
  define s2 where "s2 = outb 0x20 0x20 s1"
  have s2: "task_ring s2 xs" "current_task s2 = ?x" "tasks s2 = (tasks s)(?x \<mapsto> task_save_state t f)"
      "interrupt_callbacks s2 = interrupt_callbacks s"
    using assms cur by (simp_all add: s2_def s1_def outb_def set_task_def task_ring_def runs_def chain)
  have i: "i < length xs" using assms by (simp add: runs_def)
  obtain u s' where u: "tasks s2 (xs ! (Suc i mod length xs)) = Some u" "task_next s2 = Inr (user_context (regs u), s')"
      "task_ring s' xs" "current_task s' = xs ! (Suc i mod length xs)" "tasks s' = tasks s2"
    using task_next_step [OF s2(1,2) i] by blast
  have "Suc i mod length xs < length xs" using i by (intro mod_less_divisor) linarith
  then have "runs s' xs (Suc i mod length xs)"
    using u(3,4) task_next_same [OF u(2)] s2(4) assms by (simp add: runs_def)
  moreover have "interrupt_entry s 0x20 f = Inr (user_context (regs u), s')"
    using assms u(2) save by (simp add: interrupt_entry_def interrupt_handler_def Let_def cur list_get_def runs_def idt_clock_def s2_def)
  moreover have "regs (task_save_state t f) = frame_registers f" by (simp add: task_save_state_def frame_registers_def)
  then have "saved s' = (saved s)(?x \<mapsto> frame_registers f)" by (simp add: fun_eq_iff saved_def u(5) s2(3))
  moreover have "saved s' (xs ! (Suc i mod length xs)) = Some (regs u)" by (simp add: saved_def u(1,5))
  ultimately show ?thesis by blast
qed

text \<open>Until the turn of \<open>x\<close> comes, the other tasks' turns leave its registers alone.\<close>

lemma clock_ticks_back:
  assumes "runs s xs ((i + j) mod length xs)" "i < length xs" "saved s (xs ! i) = Some r" "0 < j"
    and "j + length fs = length xs" "fs \<noteq> []"
  shows "\<exists>rs s'. clock_ticks s fs = Inr (rs, s') \<and> List.last rs = user_context r \<and> rs \<noteq> [] \<and> runs s' xs i"
  using assms
proof (induction fs arbitrary: s j)
  case (Cons f fs)
  let ?k = "(i + j) mod length xs"
  have d: "distinct xs" using Cons.prems(1) by (simp add: runs_def task_ring_def)
  have ne: "?k \<noteq> i"
  proof
    assume "?k = i"
    moreover have "(i + j) mod length xs = (if i + j < length xs then i + j else i + j - length xs)"
      using Cons.prems(2,5) by (simp add: mod_if)
    ultimately show False using Cons.prems(4,5) by (auto split: if_splits)
  qed
  then have x: "xs ! ?k \<noteq> xs ! i"
    using Cons.prems(1,2) d by (simp add: runs_def nth_eq_iff_index_eq)
  obtain r' s' where s': "interrupt_entry s 0x20 f = Inr (user_context r', s')" "runs s' xs (Suc ?k mod length xs)"
      "saved s' = (saved s)(xs ! ?k \<mapsto> frame_registers f)" "saved s' (xs ! (Suc ?k mod length xs)) = Some r'"
    using clock_tick [OF Cons.prems(1)] by blast
  have si: "saved s' (xs ! i) = Some r" using s'(3) x Cons.prems(3) by simp
  have k: "Suc ?k mod length xs = (i + Suc j) mod length xs" by (simp add: mod_Suc_eq)
  show ?case
  proof (cases "fs = []")
    case True
    then have "i + Suc j = i + length xs" using Cons.prems(5) by simp
    then have "Suc ?k mod length xs = i" unfolding k using Cons.prems(2) by simp
    then show ?thesis using True s' si by simp
  next
    case False
    then obtain rs s'' where "clock_ticks s' fs = Inr (rs, s'')" "List.last rs = user_context r" "rs \<noteq> []" "runs s'' xs i"
      using Cons.IH [of s' "Suc j"] s'(2) k si Cons.prems(2,5) by auto
    then show ?thesis using s'(1) by simp
  qed
qed simp

text \<open>C31: a task stopped by the clock goes on, after one turn of each task, with exactly the registers it was stopped with
  (and interrupts enabled), whatever the registers were with which each of the others was stopped. Between the ticks the user code makes no system call.\<close>

theorem preempted_task_resumes:
  assumes "runs s xs i" "length fs = length xs"
  shows "\<exists>rs s'. clock_ticks s fs = Inr (rs, s') \<and> List.last rs = user_context (frame_registers (hd fs)) \<and> runs s' xs i"
proof -
  have i: "i < length xs" using assms(1) by (simp add: runs_def)
  then obtain f gs where fs: "fs = f # gs" using assms(2) by (cases fs) auto
  obtain r s' where s': "interrupt_entry s 0x20 f = Inr (user_context r, s')" "runs s' xs (Suc i mod length xs)"
      "saved s' = (saved s)(xs ! i \<mapsto> frame_registers f)" "saved s' (xs ! (Suc i mod length xs)) = Some r"
    using clock_tick [OF assms(1)] by blast
  show ?thesis
  proof (cases "gs = []")
    case True
    then have "length xs = 1" using assms(2) fs by simp
    then have "i = 0" "Suc i mod length xs = 0" using i by simp_all
    then show ?thesis using s' fs True by simp
  next
    case False
    have "saved s' (xs ! i) = Some (frame_registers f)" using s'(3) by simp
    then obtain rs s'' where "clock_ticks s' gs = Inr (rs, s'')" "List.last rs = user_context (frame_registers f)" "rs \<noteq> []"
        "runs s'' xs i"
      using clock_ticks_back [of s' xs i 1 "frame_registers f" gs] s'(2) i assms(2) fs False by auto
    then show ?thesis using s'(1) fs by simp
  qed
qed

definition example_clock_state :: kbstate where
  "example_clock_state = example_keyboard_state\<lparr>task_head := 0x01010000, current_task := 0x01020000,
     tasks := [0x01010000 \<mapsto> example_task 0x01020000 0, 0x01020000 \<mapsto> example_task 0x01030000 0x01010000,
       0x01030000 \<mapsto> example_task 0 0x01020000],
     interrupt_callbacks := (replicate 512 None)[0x20 := Some Idt_clock]\<rparr>"

lemma preempted_task_resumes_witness:
  "\<exists>rs s'. clock_ticks example_clock_state [example_frame 0x400010, example_frame 0x400020, example_frame 0x400030] =
     Inr (rs, s') \<and> List.last rs = user_context (frame_registers (example_frame 0x400010))"
proof -
  have "runs example_clock_state [0x01010000, 0x01020000, 0x01030000] 1"
    by (simp add: runs_def task_ring_def example_clock_state_def example_task_def)
  from preempted_task_resumes [OF this, of "[example_frame 0x400010, example_frame 0x400020, example_frame 0x400030]"]
  show ?thesis by (auto simp del: clock_ticks.simps)
qed

end
