(* ===== verification/Kernel.thy ===== *)
theory Kernel
  imports Interrupts
begin

text \<open>
  Booting: \<open>kernel_main\<close> of src/kernel.c with the descriptor tables it loads. What the linker decides (the addresses of static
  objects and of assembly routines, and the stack slot of the local \<open>argument\<close>) is a \<open>layout\<close>.
\<close>

record tss =
  tss_link :: u32
  esp0 :: u32
  ss0 :: u32
  tss_rest :: "u32 list" \<comment> \<open>the 24 words after \<open>ss0\<close>\<close>

record table_register =
  tr_base :: u32
  tr_limit :: u16

record kernelstate = kbstate +
  gdt_real :: "u8 list list" \<comment> \<open>6 descriptors of 8 bytes\<close>
  gdtr :: table_register
  kernel_tss :: tss
  task_register :: u16

record layout =
  tss_address :: u32
  gdt_real_address :: u32
  idtr_descriptors_address :: u32
  interrupt_pointer_table :: "u32 list"
  idt_zero_address :: u32
  isr80h_wrapper_address :: u32
  argument_address :: u32

abbreviation (input) MARROWOS_TOTAL_GDT_SEGMENTS :: nat where "MARROWOS_TOTAL_GDT_SEGMENTS \<equiv> 6"
abbreviation (input) KERNEL_DATA_SELECTOR :: u32 where "KERNEL_DATA_SELECTOR \<equiv> 0x10"

text \<open>\<open>gdt_load\<close> of gdt.asm: the low 16 bits of the size are the limit.\<close>

definition gdt_load :: "'a kernelstate_scheme \<Rightarrow> u32 \<Rightarrow> u32 \<Rightarrow> 'a kernelstate_scheme" where
  "gdt_load s gdt sz = s\<lparr>gdtr := \<lparr>tr_base = gdt, tr_limit = ucast sz\<rparr>\<rparr>"

text \<open>\<open>tss_load\<close> of tss.asm.\<close>

definition tss_load :: "'a kernelstate_scheme \<Rightarrow> u16 \<Rightarrow> 'a kernelstate_scheme" where
  "tss_load s tss_segment = s\<lparr>task_register := tss_segment\<rparr>"

text \<open>\<open>strcpy(argument.argument, str); argument.next = 0x00; process_inject_arguments(process, &argument)\<close>\<close>

definition inject_argument :: "'a taskstate_scheme \<Rightarrow> u32 \<Rightarrow> u32 \<Rightarrow> string \<Rightarrow> 'a taskstate_scheme res" where
  "inject_argument s argument process str =
     bind_res (strcpy (arg_bytes (mem s) argument) 0 (c_literal str)) (\<lambda>bs.
     bind_res (process_inject_arguments (s\<lparr>mem := store32 (write_bytes (mem s) argument bs) (argument + 512) 0\<rparr>) process argument)
       (\<lambda>(r, s). Inr s))"

definition kernel_init :: "'a kernelstate_scheme \<Rightarrow> layout \<Rightarrow> 'a kernelstate_scheme res" where
  "kernel_init s l =
     bind_res (terminal_initialize s) (\<lambda>s.
     bind_res (gdt_structured_to_gdt (replicate MARROWOS_TOTAL_GDT_SEGMENTS (replicate 8 0))
             (gdt_structured_table (tss_address l)) 0 MARROWOS_TOTAL_GDT_SEGMENTS) (\<lambda>gdt.
           let s = gdt_load (s\<lparr>gdt_real := gdt\<rparr>) (gdt_real_address l) (8 * of_nat MARROWOS_TOTAL_GDT_SEGMENTS - 1)
           in bind_res (kheap_init s) (\<lambda>s.
              bind_res (fs_init s) (\<lambda>s.
              bind_res (disk_search_and_init s) (\<lambda>s.
              bind_res (idt_init s (idtr_descriptors_address l) (interrupt_pointer_table l) (idt_zero_address l)
                (isr80h_wrapper_address l)) (\<lambda>s.
                let s = tss_load (s\<lparr>kernel_tss := \<lparr>tss_link = 0, esp0 = 0x600000, ss0 = KERNEL_DATA_SELECTOR,
                          tss_rest = replicate 24 0\<rparr>\<rparr>) 0x28
                in bind_res (paging_new_4gb s 7) (\<lambda>(chunk, s).
                     let s = enable_paging (paging_switch (s\<lparr>kernel_chunk := chunk\<rparr>) chunk)
                     in bind_res (isr80h_register_commands s) keyboard_init)))))))"

definition kernel_main :: "'a kernelstate_scheme \<Rightarrow> layout \<Rightarrow> (registers \<times> 'a kernelstate_scheme) res" where
  "kernel_main s l =
     bind_res (kernel_init s l) (\<lambda>s.
     bind_res (process_load_switch s (c_literal ''0:/blank.elf'')) (\<lambda>(res, process, s).
       if res \<noteq> MARROWOS_ALL_OK then panic (''Failed to load shell file.'' @ [CHR 0x0A])
       else bind_res (inject_argument s (argument_address l) process ''Testing!'') (\<lambda>s.
         bind_res (process_load_switch s (c_literal ''0:/blank.elf'')) (\<lambda>(res, process, s).
           if res \<noteq> MARROWOS_ALL_OK then panic (''Failed to load shell file.'' @ [CHR 0x0A])
           else bind_res (inject_argument s (argument_address l) process ''ABC!'') task_run_first_ever_task))))"

subsection \<open>The segments of the kernel\<close>

text \<open>The table \<open>kernel_main\<close> loads describes flat 4 GB kernel and user segments and the TSS, with the access bytes of the source.\<close>

lemma kernel_gdt_segments:
  "\<exists>gdt. gdt_structured_to_gdt (replicate 6 (replicate 8 0)) (gdt_structured_table tss) 0 6 = Inr gdt \<and>
     map gdt_base gdt = [0, 0, 0, 0, 0, tss] \<and>
     map gdt_limit gdt = [0, 0xffffffff, 0xffffffff, 0xffffffff, 0xffffffff, 108] \<and>
     map (\<lambda>d. d ! 5) gdt = [0, 0x9a, 0x92, 0xF8, 0xF2, 0xE9]"
proof -
  define z where "z = replicate 8 (0 :: u8)"
  have six: "(6 :: nat) = Suc (Suc (Suc (Suc (Suc (Suc 0)))))" by simp
  have e: "\<exists>d. encodeGdtEntry z \<lparr>gs_base = b, gs_limit = l, gs_type = ty\<rparr> = Inr d \<and> gdt_base d = b \<and>
      gdt_limit d = l \<and> d ! 5 = ty" if "l \<le> 65536 \<or> l AND 0xFFF = 0xFFF" for b l ty
    using encode_decode [of z "\<lparr>gs_base = b, gs_limit = l, gs_type = ty\<rparr>"] that by (simp add: z_def)
  obtain n where n: "encodeGdtEntry z \<lparr>gs_base = 0, gs_limit = 0, gs_type = 0\<rparr> = Inr n" "gdt_base n = 0"
      "gdt_limit n = 0" "n ! 5 = 0" using e [of 0 0 0] by auto
  obtain k where k: "\<And>ty. encodeGdtEntry z \<lparr>gs_base = 0, gs_limit = 0xffffffff, gs_type = ty\<rparr> = Inr (k ty)"
      "\<And>ty. gdt_base (k ty) = 0" "\<And>ty. gdt_limit (k ty) = 0xffffffff" "\<And>ty. k ty ! 5 = ty"
    using e [of "0xffffffff" 0] by simp metis
  obtain t where t: "encodeGdtEntry z \<lparr>gs_base = tss, gs_limit = 108, gs_type = 0xE9\<rparr> = Inr t" "gdt_base t = tss"
      "gdt_limit t = 108" "t ! 5 = 0xE9" using e [of 108 tss "0xE9"] by auto
  show ?thesis
    unfolding z_def [symmetric] six by (simp add: gdt_structured_table_def list_get_def list_set_def n k t)
qed

end
