(* ===== verification/Frames.thy ===== *)
theory Frames
  imports Elf
begin

text \<open>
  Invariants through the fault monad, and what the layers below tasks leave alone. \<open>keeps\<close> says that a computation that returns
  establishes a predicate of its state. Everything up to the ELF loader works on its own stores: \<open>upper\<close> is the
  terminal, CR0, the start of the heap, the sizes of the lower tables and all the state above (tasks, processes, interrupt tables). In the locale \<open>upper_invariant\<close> each
  operation of these layers keeps every predicate that reads only \<open>upper\<close>.
\<close>

subsection \<open>Invariants of computations\<close>

text \<open>The state is the last component of what a function returns.\<close>

definition keeps :: "('s \<Rightarrow> bool) \<Rightarrow> 's res \<Rightarrow> bool" where
  "keeps I m \<longleftrightarrow> (\<forall>s. m = Inr s \<longrightarrow> I s)"

definition keeps2 :: "('s \<Rightarrow> bool) \<Rightarrow> ('a \<times> 's) res \<Rightarrow> bool" where
  "keeps2 I m \<longleftrightarrow> (\<forall>a s. m = Inr (a, s) \<longrightarrow> I s)"

definition keeps3 :: "('s \<Rightarrow> bool) \<Rightarrow> ('a \<times> 'b \<times> 's) res \<Rightarrow> bool" where
  "keeps3 I m \<longleftrightarrow> (\<forall>a b s. m = Inr (a, b, s) \<longrightarrow> I s)"

definition keeps4 :: "('s \<Rightarrow> bool) \<Rightarrow> ('a \<times> 'b \<times> 'c \<times> 's) res \<Rightarrow> bool" where
  "keeps4 I m \<longleftrightarrow> (\<forall>a b c s. m = Inr (a, b, c, s) \<longrightarrow> I s)"

lemmas keeps_defs = keeps_def keeps2_def keeps3_def keeps4_def

lemma keeps_return [simp]:
  "keeps I (Inr s) = I s" "keeps2 I (Inr (a, s)) = I s" "keeps3 I (Inr (a, b, s)) = I s" "keeps4 I (Inr (a, b, c, s)) = I s"
  "keeps I (Inl e)" "keeps2 I (Inl e)" "keeps3 I (Inl e)" "keeps4 I (Inl e)"
  by (auto simp: keeps_defs)

lemma keeps_bind:
  "keeps I m \<Longrightarrow> (\<And>s. m = Inr s \<Longrightarrow> I s \<Longrightarrow> keeps I (f s)) \<Longrightarrow> keeps I (bind_res m f)"
  "keeps I m \<Longrightarrow> (\<And>s. m = Inr s \<Longrightarrow> I s \<Longrightarrow> keeps2 I (f2 s)) \<Longrightarrow> keeps2 I (bind_res m f2)"
  "keeps I m \<Longrightarrow> (\<And>s. m = Inr s \<Longrightarrow> I s \<Longrightarrow> keeps3 I (f3 s)) \<Longrightarrow> keeps3 I (bind_res m f3)"
  "keeps I m \<Longrightarrow> (\<And>s. m = Inr s \<Longrightarrow> I s \<Longrightarrow> keeps4 I (f4 s)) \<Longrightarrow> keeps4 I (bind_res m f4)"
  by (auto simp: keeps_defs res_simps)

lemma keeps2_bind:
  "keeps2 I m \<Longrightarrow> (\<And>a s. m = Inr (a, s) \<Longrightarrow> I s \<Longrightarrow> keeps I (f (a, s))) \<Longrightarrow> keeps I (bind_res m f)"
  "keeps2 I m \<Longrightarrow> (\<And>a s. m = Inr (a, s) \<Longrightarrow> I s \<Longrightarrow> keeps2 I (f2 (a, s))) \<Longrightarrow> keeps2 I (bind_res m f2)"
  "keeps2 I m \<Longrightarrow> (\<And>a s. m = Inr (a, s) \<Longrightarrow> I s \<Longrightarrow> keeps3 I (f3 (a, s))) \<Longrightarrow> keeps3 I (bind_res m f3)"
  "keeps2 I m \<Longrightarrow> (\<And>a s. m = Inr (a, s) \<Longrightarrow> I s \<Longrightarrow> keeps4 I (f4 (a, s))) \<Longrightarrow> keeps4 I (bind_res m f4)"
  by (fastforce simp: keeps_defs res_simps)+

lemma keeps3_bind:
  "keeps3 I m \<Longrightarrow> (\<And>a b s. m = Inr (a, b, s) \<Longrightarrow> I s \<Longrightarrow> keeps I (f (a, b, s))) \<Longrightarrow> keeps I (bind_res m f)"
  "keeps3 I m \<Longrightarrow> (\<And>a b s. m = Inr (a, b, s) \<Longrightarrow> I s \<Longrightarrow> keeps2 I (f2 (a, b, s))) \<Longrightarrow> keeps2 I (bind_res m f2)"
  "keeps3 I m \<Longrightarrow> (\<And>a b s. m = Inr (a, b, s) \<Longrightarrow> I s \<Longrightarrow> keeps3 I (f3 (a, b, s))) \<Longrightarrow> keeps3 I (bind_res m f3)"
  "keeps3 I m \<Longrightarrow> (\<And>a b s. m = Inr (a, b, s) \<Longrightarrow> I s \<Longrightarrow> keeps4 I (f4 (a, b, s))) \<Longrightarrow> keeps4 I (bind_res m f4)"
  by (fastforce simp: keeps_defs res_simps)+

lemma keeps4_bind:
  "keeps4 I m \<Longrightarrow> (\<And>a b c s. m = Inr (a, b, c, s) \<Longrightarrow> I s \<Longrightarrow> keeps3 I (f3 (a, b, c, s))) \<Longrightarrow> keeps3 I (bind_res m f3)"
  "keeps4 I m \<Longrightarrow> (\<And>a b c s. m = Inr (a, b, c, s) \<Longrightarrow> I s \<Longrightarrow> keeps4 I (f4 (a, b, c, s))) \<Longrightarrow> keeps4 I (bind_res m f4)"
  by (fastforce simp: keeps_defs res_simps)+

text \<open>A computation without a state.\<close>

lemma keeps_value:
  "(\<And>x. m = Inr x \<Longrightarrow> keeps I (f x)) \<Longrightarrow> keeps I (bind_res m f)"
  "(\<And>x. m = Inr x \<Longrightarrow> keeps2 I (f2 x)) \<Longrightarrow> keeps2 I (bind_res m f2)"
  "(\<And>x. m = Inr x \<Longrightarrow> keeps3 I (f3 x)) \<Longrightarrow> keeps3 I (bind_res m f3)"
  "(\<And>x. m = Inr x \<Longrightarrow> keeps4 I (f4 x)) \<Longrightarrow> keeps4 I (bind_res m f4)"
  by (auto simp: keeps_defs res_simps)

lemma keeps_if:
  "(b \<Longrightarrow> keeps I m) \<Longrightarrow> (\<not> b \<Longrightarrow> keeps I n) \<Longrightarrow> keeps I (if b then m else n)"
  "(b \<Longrightarrow> keeps2 I m2) \<Longrightarrow> (\<not> b \<Longrightarrow> keeps2 I n2) \<Longrightarrow> keeps2 I (if b then m2 else n2)"
  "(b \<Longrightarrow> keeps3 I m3) \<Longrightarrow> (\<not> b \<Longrightarrow> keeps3 I n3) \<Longrightarrow> keeps3 I (if b then m3 else n3)"
  "(b \<Longrightarrow> keeps4 I m4) \<Longrightarrow> (\<not> b \<Longrightarrow> keeps4 I n4) \<Longrightarrow> keeps4 I (if b then m4 else n4)"
  by simp_all

lemma keeps_pair:
  "(\<And>a b. x = (a, b) \<Longrightarrow> keeps I (f a b)) \<Longrightarrow> keeps I (case x of (a, b) \<Rightarrow> f a b)"
  "(\<And>a b. x = (a, b) \<Longrightarrow> keeps2 I (f2 a b)) \<Longrightarrow> keeps2 I (case x of (a, b) \<Rightarrow> f2 a b)"
  "(\<And>a b. x = (a, b) \<Longrightarrow> keeps3 I (f3 a b)) \<Longrightarrow> keeps3 I (case x of (a, b) \<Rightarrow> f3 a b)"
  "(\<And>a b. x = (a, b) \<Longrightarrow> keeps4 I (f4 a b)) \<Longrightarrow> keeps4 I (case x of (a, b) \<Rightarrow> f4 a b)"
  by (auto split: prod.split)

lemma keeps_option:
  "keeps I m \<Longrightarrow> (\<And>x. z = Some x \<Longrightarrow> keeps I (f x)) \<Longrightarrow> keeps I (case z of None \<Rightarrow> m | Some x \<Rightarrow> f x)"
  "keeps2 I m2 \<Longrightarrow> (\<And>x. z = Some x \<Longrightarrow> keeps2 I (f2 x)) \<Longrightarrow> keeps2 I (case z of None \<Rightarrow> m2 | Some x \<Rightarrow> f2 x)"
  "keeps3 I m3 \<Longrightarrow> (\<And>x. z = Some x \<Longrightarrow> keeps3 I (f3 x)) \<Longrightarrow> keeps3 I (case z of None \<Rightarrow> m3 | Some x \<Rightarrow> f3 x)"
  by (auto split: option.split)

lemmas keeps_intros = keeps_if keeps_bind keeps2_bind keeps3_bind keeps4_bind

named_theorems frames "operations that keep an invariant"
named_theorems upd "updates an invariant does not see"

subsection \<open>What lies above the lower layers\<close>

abbreviation heap_entries :: "heap \<Rightarrow> u8 list" where "heap_entries h \<equiv> ht_entries (heap_tbl h)"

definition upper :: "'a elfstate_scheme \<Rightarrow> tstate \<times> u32 \<times> u32 \<times> nat \<times> int \<times> nat \<times> nat \<times> 'a" where
  "upper s = (tstate.truncate s, cr0 s, saddr (kheap s), length (heap_entries (kheap s)), sector_size (kdisk s), length (filesystems s),
     length (file_descriptors s), elfstate.more s)"

lemma mark_taken_length: "mark_taken_loop es i e b = Inr es' \<Longrightarrow> length es' = length es"
proof (induction es i e b rule: mark_taken_loop.induct)
  case (1 es i e b)
  show ?case
  proof (cases "i \<le> e")
    case True
    with 1(2) obtain es1 where "list_set es i b = Inr es1"
        "mark_taken_loop es1 (i + 1) e (if i \<noteq> e - 1 then 1 OR 128 else 1) = Inr es'"
      by (subst (asm) mark_taken_loop.simps) (auto simp: res_simps)
    with 1(1) [OF True this] show ?thesis by (simp add: list_set_Inr_iff)
  qed (use 1(2) in \<open>subst (asm) mark_taken_loop.simps, simp\<close>)
qed

lemma mark_free_length: "mark_free_loop es i n = Inr es' \<Longrightarrow> length es' = length es"
proof (induction es i n rule: mark_free_loop.induct)
  case (1 es i n)
  from 1(2) show ?case
    by (subst (asm) mark_free_loop.simps) (auto simp: res_simps split: if_split_asm dest!: 1(1) simp: list_set_Inr_iff)
qed

lemma heap_malloc_entries: "heap_malloc h sz = Inr (p, h') \<Longrightarrow> length (heap_entries h') = length (heap_entries h)"
  by (auto simp: heap_malloc_def heap_malloc_blocks_def heap_mark_blocks_taken_def Let_def res_simps
      dest!: mark_taken_length split: if_splits)

lemma heap_free_entries:
  "heap_free h p = Inr h' \<Longrightarrow> length (heap_entries h') = length (heap_entries h) \<and> saddr h' = saddr h"
  by (auto simp: heap_free_def heap_mark_blocks_free_def res_simps dest!: mark_free_length)

locale upper_invariant =
  fixes I :: "'a elfstate_scheme \<Rightarrow> bool"
  assumes upper_cong: "upper s' = upper s \<Longrightarrow> I s' = I s"
begin

lemma lower_updates [upd]:
  "I (s\<lparr>mem := m\<rparr>) = I s" "I (s\<lparr>current_directory := w\<rparr>) = I s" "I (s\<lparr>cr3 := w\<rparr>) = I s"
  "I (s\<lparr>port_trace := tr\<rparr>) = I s" "I (s\<lparr>streams := st\<rparr>) = I s"
  by (auto intro!: upper_cong simp: upper_def tstate.truncate_def)

lemma fs_updates [upd]:
  "I (s\<lparr>kbufs := a\<rparr>) = I s" "I (s\<lparr>path_parts := b\<rparr>) = I s" "I (s\<lparr>path_roots := c\<rparr>) = I s"
  "I (s\<lparr>fat_privs := d\<rparr>) = I s" "I (s\<lparr>fat_dirs := e\<rparr>) = I s" "I (s\<lparr>item_arrays := f\<rparr>) = I s"
  "I (s\<lparr>fat_items := g\<rparr>) = I s" "I (s\<lparr>fat_descs := h\<rparr>) = I s" "I (s\<lparr>fs_name := n\<rparr>) = I s"
  "I (s\<lparr>fds := i\<rparr>) = I s" "I (s\<lparr>elf_files := j\<rparr>) = I s"
  by (auto intro!: upper_cong simp: upper_def tstate.truncate_def)

lemma table_updates [upd]:
  "length es = length (file_descriptors s) \<Longrightarrow> I (s\<lparr>file_descriptors := es\<rparr>) = I s"
  "length fs = length (filesystems s) \<Longrightarrow> I (s\<lparr>filesystems := fs\<rparr>) = I s"
  "sector_size d = sector_size (kdisk s) \<Longrightarrow> I (s\<lparr>kdisk := d\<rparr>) = I s"
  "length (heap_entries h) = length (heap_entries (kheap s)) \<Longrightarrow> saddr h = saddr (kheap s) \<Longrightarrow> I (s\<lparr>kheap := h\<rparr>) = I s"
  by (auto intro!: upper_cong simp: upper_def tstate.truncate_def)

subsection \<open>Ports and heap\<close>

lemma port_kept [upd]: "I (outb p v s) = I s" "insb p s = (b, s') \<Longrightarrow> I s' = I s" "insw p s = (w, s') \<Longrightarrow> I s' = I s"
  by (auto simp: outb_def insb_def insw_def upd)

lemma kmalloc_kept [frames]: "I s \<Longrightarrow> keeps2 I (kmalloc s sz)"
  by (auto simp: kmalloc_def keeps2_def res_simps upd heap_malloc_entries heap_malloc_saddr)

lemma kzalloc_kept [frames]: "I s \<Longrightarrow> keeps2 I (kzalloc s sz)"
  unfolding kzalloc_def by (rule keeps_intros frames | simp only: prod.case | rule keeps_value keeps_pair keeps_option | simp add: upd)+

lemma kfree_kept [frames]: "I s \<Longrightarrow> keeps I (kfree s p)"
  by (auto simp: kfree_def keeps_def res_simps upd heap_free_entries)

lemma new_tables_kept [frames]: "I s \<Longrightarrow> keeps I (new_tables_loop s d f i ofs)"
proof (induction s d f i ofs rule: new_tables_loop.induct)
  case (1 s d f i ofs)
  show ?case
    by (subst new_tables_loop.simps) (use 1(2) in \<open>auto intro!: keeps2_bind kzalloc_kept 1(1) simp: Let_def upd\<close>)
qed

lemma new_4gb_kept [frames]: "I s \<Longrightarrow> keeps2 I (paging_new_4gb s f)"
  unfolding paging_new_4gb_def by (rule keeps_intros frames | simp only: prod.case | rule keeps_value keeps_pair keeps_option | simp add: upd)+

lemma free_tables_kept [frames]: "I s \<Longrightarrow> keeps I (free_tables_loop s c i)"
proof (induction s c i rule: free_tables_loop.induct)
  case (1 s c i)
  show ?case
    by (subst free_tables_loop.simps) (use 1(2) in \<open>auto intro!: keeps_bind kfree_kept 1(1) simp: Let_def\<close>)
qed

lemma free_4gb_kept [frames]: "I s \<Longrightarrow> keeps I (paging_free_4gb s c)"
  unfolding paging_free_4gb_def by (rule keeps_intros frames | simp only: prod.case | rule keeps_value keeps_pair keeps_option | simp add: upd)+

lemma switch_kept [upd]: "I (paging_switch s d) = I s"
  by (simp add: paging_switch_def paging_load_directory_def Let_def upd)

subsection \<open>Disk\<close>

lemma read_words_kept: "read_words n s = (bs, s') \<Longrightarrow> I s' = I s"
  by (induction n arbitrary: s bs) (auto simp: insw_def Let_def upd split: prod.splits)

lemma read_sectors_kept [frames]: "I s \<Longrightarrow> keeps2 I (read_sectors n s)"
proof (induction n arbitrary: s)
  case (Suc n)
  then show ?case
    by (auto simp: Let_def insb_def upd read_words_kept split: prod.split option.split intro!: keeps2_bind)
qed simp

lemma disk_read_block_kept [frames]: "I s \<Longrightarrow> keeps3 I (disk_read_block s d l n)"
  unfolding disk_read_block_def disk_read_sector_def Let_def by (rule keeps_intros frames | simp only: prod.case | rule keeps_value keeps_pair keeps_option | simp add: upd)+

lemma streamer_new_kept [frames]: "I s \<Longrightarrow> keeps2 I (disk_streamer_new s d)"
  unfolding disk_streamer_new_def Let_def by (rule keeps_intros frames | simp only: prod.case | rule keeps_value keeps_pair keeps_option | simp add: upd)+

lemma streamer_seek_kept [frames]: "I s \<Longrightarrow> keeps2 I (disk_streamer_seek s p k)"
  unfolding disk_streamer_seek_def by (rule keeps_value) (simp add: upd)

lemma streamer_read_kept [frames]: "I s \<Longrightarrow> keeps3 I (disk_streamer_read s p n)"
proof (induction s p n rule: disk_streamer_read.induct)
  case (1 s p n)
  show ?case
    unfolding disk_streamer_read.simps [of s p n] Let_def
    by (rule keeps_intros frames | simp only: prod.case | rule keeps_value keeps_pair keeps_option | simp add: upd 1)+
qed

lemma streamer_close_kept [frames]: "I s \<Longrightarrow> keeps I (disk_streamer_close s p)"
  unfolding disk_streamer_close_def by (rule keeps_intros frames | simp only: prod.case | rule keeps_value keeps_pair keeps_option | simp add: upd)+

subsection \<open>Paths\<close>

lemma get_path_part_kept [frames]: "I s \<Longrightarrow> keeps3 I (pathparser_get_path_part s path)"
  unfolding pathparser_get_path_part_def Let_def
  by (rule keeps_intros frames | simp only: prod.case | rule keeps_value keeps_pair keeps_option | simp add: upd)+

lemma parser_path_part_kept [frames]: "I s \<Longrightarrow> keeps3 I (pathparser_parser_path_part s l path)"
  unfolding pathparser_parser_path_part_def Let_def
  by (rule keeps_intros frames | simp only: prod.case | rule keeps_value keeps_pair keeps_option | simp add: upd)+

lemma parse_rest_kept [frames]: "I s \<Longrightarrow> keeps I (parse_rest s p path)"
proof (induction s p path rule: parse_rest.induct)
  case (1 s p path)
  show ?case
    unfolding parse_rest.simps [of s p path]
    by (rule keeps_intros frames | simp only: prod.case | simp add: 1)+
qed

lemma pathparser_parse_kept [frames]: "I s \<Longrightarrow> keeps2 I (pathparser_parse s path)"
  unfolding pathparser_parse_def pathparser_create_root_def Let_def by (rule keeps_intros frames | simp only: prod.case | rule keeps_value keeps_pair keeps_option | simp add: upd)+

lemma free_part_kept [frames]: "I s \<Longrightarrow> keeps2 I (free_part s p)"
  unfolding free_part_def Let_def by (rule keeps_intros frames | simp only: prod.case | rule keeps_value keeps_pair keeps_option | simp add: upd)+

lemma free_parts_kept:
  assumes "free_parts_loop s p = Some r" "I s"
  shows "keeps I r"
proof -
  have "I s \<longrightarrow> keeps I r"
    by (rule free_parts_loop.raw_induct [OF _ assms(1), where P = "\<lambda>s p r. I s \<longrightarrow> keeps I r"])
      (auto split: if_split_asm sum.split_asm dest!: free_part_kept [unfolded keeps2_def, rule_format, rotated])
  then show ?thesis using assms(2) by blast
qed

lemma pathparser_free_kept [frames]: "I s \<Longrightarrow> keeps I (pathparser_free s root)"
  unfolding pathparser_free_def
  by (rule keeps_intros frames | rule keeps_value keeps_option | erule free_parts_kept | simp add: upd)+

subsection \<open>FAT16\<close>

lemma fat16_init_private_kept [frames]: "I s \<Longrightarrow> keeps I (fat16_init_private s p)"
  unfolding fat16_init_private_def Let_def by (rule keeps_intros frames | simp only: prod.case | rule keeps_value keeps_pair keeps_option | simp add: upd)+

lemma count_items_kept:
  assumes "count_items_loop s st i = Some r" "I s"
  shows "keeps2 I r"
proof -
  have "I s \<longrightarrow> keeps2 I r"
    by (rule count_items_loop.raw_induct [OF _ assms(1), where P = "\<lambda>s st i r. I s \<longrightarrow> keeps2 I r"])
      (auto split: if_split_asm sum.split_asm dest!: streamer_read_kept [unfolded keeps3_def, rule_format, rotated])
  then show ?thesis using assms(2) by blast
qed

lemma total_items_kept [frames]: "I s \<Longrightarrow> keeps2 I (fat16_get_total_items_for_directory s d)"
  unfolding fat16_get_total_items_for_directory_def Let_def
  by (rule keeps_intros frames | simp only: prod.case | rule keeps_value keeps_option | erule count_items_kept | simp)+

lemma root_directory_kept [frames]: "I s \<Longrightarrow> keeps2 I (fat16_get_root_directory s p)"
  unfolding fat16_get_root_directory_def Let_def by (rule keeps_intros frames | simp only: prod.case | rule keeps_value keeps_pair keeps_option | simp add: upd)+

lemma fat16_resolve_kept [frames]: "I s \<Longrightarrow> keeps2 I (fat16_resolve s)"
  unfolding fat16_resolve_def Let_def by (rule keeps_intros frames | simp only: prod.case | rule keeps_value keeps_pair keeps_option | simp add: upd)+

lemma clone_item_kept [frames]: "I s \<Longrightarrow> keeps2 I (fat16_clone_directory_item s item sz)"
  unfolding fat16_clone_directory_item_def by (rule keeps_intros frames | simp only: prod.case | rule keeps_value keeps_pair keeps_option | simp add: upd)+

lemma fat_entry_kept [frames]: "I s \<Longrightarrow> keeps2 I (fat16_get_fat_entry s c)"
  unfolding fat16_get_fat_entry_def Let_def by (rule keeps_intros frames | simp only: prod.case | rule keeps_value keeps_pair keeps_option | simp add: upd)+

lemma cluster_ahead_kept [frames]: "I s \<Longrightarrow> keeps2 I (cluster_ahead_loop s c n)"
proof (induction n arbitrary: s c)
  case (Suc n)
  show ?case unfolding cluster_ahead_loop.simps
    by (rule keeps_intros frames Suc | simp only: prod.case | simp)+
qed simp

lemma cluster_for_offset_kept [frames]: "I s \<Longrightarrow> keeps2 I (fat16_get_cluster_for_offset s c ofs)"
  unfolding fat16_get_cluster_for_offset_def Let_def by (rule keeps_intros frames | simp only: prod.case | rule keeps_value keeps_pair keeps_option | simp add: upd)+

lemma cluster_part_kept [frames]: "I s \<Longrightarrow> keeps4 I (read_cluster_part s st c ofs n)"
  unfolding read_cluster_part_def Let_def by (rule keeps_intros frames | simp only: prod.case | rule keeps_value keeps_pair keeps_option | simp add: upd)+

lemma read_stream_kept:
  assumes "fat16_read_internal_from_stream s st c ofs n = Some r" "I s"
  shows "keeps3 I r"
proof -
  have "I s \<longrightarrow> keeps3 I r"
    by (rule fat16_read_internal_from_stream.raw_induct [OF _ assms(1), where P = "\<lambda>s st c ofs n r. I s \<longrightarrow> keeps3 I r"])
      (auto split: if_split_asm sum.split_asm simp: bind_eq_Some_conv intro!: keeps3_bind dest!: cluster_part_kept [unfolded keeps4_def, rule_format, rotated])
  then show ?thesis using assms(2) by blast
qed

lemma read_internal_kept [frames]: "I s \<Longrightarrow> keeps3 I (fat16_read_internal s c ofs n)"
  unfolding fat16_read_internal_def
  by (rule keeps_intros | rule keeps_value keeps_option | erule read_stream_kept | simp)+

lemma free_directory_kept [frames]: "I s \<Longrightarrow> keeps I (fat16_free_directory s d)"
  unfolding fat16_free_directory_def by (rule keeps_intros frames | simp only: prod.case | rule keeps_value keeps_pair keeps_option | simp add: upd)+

lemma fat_item_free_kept [frames]: "I s \<Longrightarrow> keeps I (fat16_fat_item_free s it)"
  unfolding fat16_fat_item_free_def by (rule keeps_intros frames | simp only: prod.case | rule keeps_value keeps_pair keeps_option | simp add: upd)+

lemma load_directory_kept [frames]: "I s \<Longrightarrow> keeps2 I (fat16_load_fat_directory s item)"
  unfolding fat16_load_fat_directory_def Let_def by (rule keeps_intros frames | simp only: prod.case | rule keeps_value keeps_pair keeps_option | simp add: upd)+

lemma new_fat_item_kept [frames]: "I s \<Longrightarrow> keeps2 I (fat16_new_fat_item_for_directory_item s item)"
  unfolding fat16_new_fat_item_for_directory_item_def by (rule keeps_intros frames | simp only: prod.case | rule keeps_value keeps_pair keeps_option | simp add: upd)+

lemma find_item_loop_kept [frames]: "I s \<Longrightarrow> keeps2 I (find_item_loop s items name i n)"
proof (induction n arbitrary: i)
  case (Suc n)
  show ?case unfolding find_item_loop.simps
    by (rule keeps_intros new_fat_item_kept Suc | rule keeps_value)+
qed simp

lemma find_item_kept [frames]: "I s \<Longrightarrow> keeps2 I (fat16_find_item_in_directory s d name)"
  unfolding fat16_find_item_in_directory_def by (rule keeps_intros frames | simp only: prod.case | rule keeps_value keeps_pair keeps_option | simp add: upd)+

lemma directory_entry_step_kept [frames]: "I s \<Longrightarrow> keeps2 I (directory_entry_step s it p)"
  unfolding directory_entry_step_def by (rule keeps_intros frames | simp only: prod.case | rule keeps_value keeps_pair keeps_option | simp add: upd)+

lemma directory_entry_loop_kept:
  assumes "directory_entry_loop s it p = Some r" "I s"
  shows "keeps2 I r"
proof -
  have "I s \<longrightarrow> keeps2 I r"
    by (rule directory_entry_loop.raw_induct [OF _ assms(1), where P = "\<lambda>s it p r. I s \<longrightarrow> keeps2 I r"])
      (auto split: if_split_asm sum.split_asm option.split_asm
        dest!: directory_entry_step_kept [unfolded keeps2_def, rule_format, rotated])
  then show ?thesis using assms(2) by blast
qed

lemma get_directory_entry_kept [frames]: "I s \<Longrightarrow> keeps2 I (fat16_get_directory_entry s p)"
  unfolding fat16_get_directory_entry_def
  by (rule keeps_intros frames | simp only: prod.case | rule keeps_value keeps_pair keeps_option | erule directory_entry_loop_kept | simp)+

lemma fat16_open_kept [frames]: "I s \<Longrightarrow> keeps2 I (fat16_open s p mode)"
  unfolding fat16_open_def by (rule keeps_intros frames | simp only: prod.case | rule keeps_value keeps_pair keeps_option | simp add: upd)+

lemma fat16_close_kept [frames]: "I s \<Longrightarrow> keeps2 I (fat16_close s p)"
  unfolding fat16_close_def by (rule keeps_intros frames | simp only: prod.case | rule keeps_value keeps_pair keeps_option | simp add: upd)+

lemma fat16_read_loop_kept [frames]: "I s \<Longrightarrow> keeps4 I (fat16_read_loop s c ofs sz n)"
proof (induction n arbitrary: s ofs)
  case (Suc n)
  show ?case unfolding fat16_read_loop.simps
    by (rule keeps_intros frames Suc | simp only: prod.case | simp)+
qed simp

lemma fat16_read_kept [frames]: "I s \<Longrightarrow> keeps3 I (fat16_read s d sz n)"
  unfolding fat16_read_def by (rule keeps_intros frames | simp only: prod.case | rule keeps_value keeps_pair keeps_option | simp add: upd)+

lemma fat16_seek_kept [frames]: "I s \<Longrightarrow> keeps2 I (fat16_seek s d ofs mode)"
  unfolding fat16_seek_def by (rule keeps_intros frames | simp only: prod.case | rule keeps_value keeps_pair keeps_option | simp add: upd)+

subsection \<open>Files\<close>

lemma driver_kept [frames]:
  "I s \<Longrightarrow> keeps2 I (fs_resolve_fn f s)" "I s \<Longrightarrow> keeps2 I (fs_open_fn fs s p mode)"
  "I s \<Longrightarrow> keeps3 I (fs_read_fn fs s d sz n)" "I s \<Longrightarrow> keeps2 I (fs_seek_fn fs s d ofs mode)"
  "I s \<Longrightarrow> keeps2 I (fs_close_fn fs s d)"
  by (auto simp: fs_resolve_fn_def fs_open_fn_def fs_read_fn_def fs_seek_fn_def fs_close_fn_def frames
      split: option.split filesystem.split)

lemma fs_resolve_loop_kept [frames]: "I s \<Longrightarrow> keeps2 I (fs_resolve_loop s i n)"
proof (induction n arbitrary: s i)
  case (Suc n)
  show ?case unfolding fs_resolve_loop.simps
    by (rule keeps_intros frames Suc | simp only: prod.case | rule keeps_value keeps_option | simp)+
qed simp

lemma free_descriptor_kept [frames]: "I s \<Longrightarrow> keeps I (file_free_descriptor s d)"
  unfolding file_free_descriptor_def by (rule keeps_intros frames | simp only: prod.case | rule keeps_value keeps_pair keeps_option | simp add: upd list_set_Inr_iff)+

lemma new_descriptor_kept [frames]: "I s \<Longrightarrow> keeps3 I (file_new_descriptor s)"
  unfolding file_new_descriptor_def by (rule keeps_intros frames | simp only: prod.case | rule keeps_value keeps_pair keeps_option | simp add: upd)+

lemma fopen_error_kept [frames]: "I s \<Longrightarrow> keeps2 I (fopen_error s r d p)"
  unfolding fopen_error_def by (rule keeps_intros frames | simp only: prod.case | rule keeps_value keeps_pair keeps_option | simp add: upd)+

lemma fopen_kept [frames]: "I s \<Longrightarrow> keeps2 I (fopen s path mode)"
  unfolding fopen_def by (rule keeps_intros frames | simp only: prod.case | rule keeps_value keeps_pair keeps_option | simp add: upd)+

lemma fclose_kept [frames]: "I s \<Longrightarrow> keeps2 I (fclose s fd)"
  unfolding fclose_def by (rule keeps_intros frames | simp only: prod.case | rule keeps_value keeps_pair keeps_option | simp add: upd)+

lemma fseek_kept [frames]: "I s \<Longrightarrow> keeps2 I (fseek s fd ofs mode)"
  unfolding fseek_def by (rule keeps_intros frames | simp only: prod.case | rule keeps_value keeps_pair keeps_option | simp add: upd)+

lemma fread_kept [frames]: "I s \<Longrightarrow> keeps2 I (fread s p sz n fd)"
  unfolding fread_def by (rule keeps_intros frames | simp only: prod.case | rule keeps_value keeps_pair keeps_option | simp add: upd)+

subsection \<open>ELF files\<close>

lemma elf_file_free_kept [frames]: "I s \<Longrightarrow> keeps I (elf_file_free s f)"
  unfolding elf_file_free_def by (rule keeps_intros frames | simp only: prod.case | rule keeps_value keeps_pair keeps_option | simp add: upd)+

lemma elf_close_kept [frames]: "I s \<Longrightarrow> keeps I (elf_close s f)"
  unfolding elf_close_def by (rule keeps_intros frames | simp only: prod.case | rule keeps_value keeps_pair keeps_option | simp add: upd)+

lemma elf_file_new_kept [frames]: "I s \<Longrightarrow> keeps2 I (elf_file_new s)"
  unfolding elf_file_new_def by (rule keeps_intros frames | simp only: prod.case | rule keeps_value keeps_pair keeps_option | simp add: upd)+

lemma elf_load_out_kept [frames]: "I s \<Longrightarrow> keeps3 I (elf_load_out s r f fd)"
  unfolding elf_load_out_def by (rule keeps_intros frames | simp only: prod.case | rule keeps_value keeps_pair keeps_option | simp add: upd)+

lemma elf_load_kept [frames]: "I s \<Longrightarrow> keeps3 I (elf_load s path)"
  unfolding elf_load_def Let_def by (rule keeps_intros frames | simp only: prod.case | rule keeps_value keeps_pair keeps_option | simp add: upd)+

end

subsection \<open>Predicates that do not see the terminal\<close>

locale terminal_invariant = upper_invariant I for I :: "'a elfstate_scheme \<Rightarrow> bool" +
  assumes screen_cong: "I (with_screen v s) = I s"
begin

lemma writechar_kept [frames]: "I s \<Longrightarrow> keeps I (terminal_writechar c color s)"
  unfolding writechar_screen [of c color s] by (rule keeps_value) (simp add: screen_cong)

lemma print_kept [frames]: "I s \<Longrightarrow> keeps I (print str s)"
  unfolding print_def
proof (rule keeps_value)
  fix n assume "I s"
  have "keeps I (print_loop str i k u)" if "I u" for i k u
    using that by (induction k arbitrary: i u) (auto intro!: keeps_value [where m = "list_get str _"] keeps_bind writechar_kept)
  then show "keeps I (print_loop str 0 (nat n) s)" using \<open>I s\<close> .
qed

end

end
