(* ===== verification/Invariant.thy ===== *)
theory Invariant
  imports Kernel Frames
begin

text \<open>
  Invariants of the running kernel. A predicate of the kernel's state that does not see the fields tasks and memory live in, that asks of
  processes no more than their declared sizes, and that reads only \<open>upper\<close> of the layers below, is kept by everything that makes, loads, starts
  and ends processes: the locale \<open>loader_invariant\<close>. When it does not see the terminal either, every interrupt and every
  system call keeps it: the locale \<open>kernel_invariant\<close> states this contract and proves it once for all handlers.
\<close>

definition process_typed :: "process \<Rightarrow> bool" where
  "process_typed p \<longleftrightarrow> length (pr_filename p) = 108 \<and> length (pr_allocations p) = 1024 \<and> length (kb_buffer p) = 1024"

lemma process_typed_updates [simp]:
  "process_typed (p\<lparr>pr_id := a\<rparr>) = process_typed p" "process_typed (p\<lparr>pr_task := b\<rparr>) = process_typed p"
  "process_typed (p\<lparr>pr_filetype := c\<rparr>) = process_typed p" "process_typed (p\<lparr>pr_ptr := d\<rparr>) = process_typed p"
  "process_typed (p\<lparr>pr_stack := e\<rparr>) = process_typed p" "process_typed (p\<lparr>pr_size := f\<rparr>) = process_typed p"
  "process_typed (p\<lparr>kb_tail := g\<rparr>) = process_typed p" "process_typed (p\<lparr>kb_head := h\<rparr>) = process_typed p"
  "process_typed (p\<lparr>pr_argc := i\<rparr>) = process_typed p" "process_typed (p\<lparr>pr_argv := j\<rparr>) = process_typed p"
  "process_typed (p\<lparr>pr_filename := n\<rparr>) \<longleftrightarrow> length n = 108 \<and> length (pr_allocations p) = 1024 \<and> length (kb_buffer p) = 1024"
  "length as = length (pr_allocations p) \<Longrightarrow> process_typed (p\<lparr>pr_allocations := as\<rparr>) = process_typed p"
  "length bs = length (kb_buffer p) \<Longrightarrow> process_typed (p\<lparr>kb_buffer := bs\<rparr>) = process_typed p"
  by (auto simp: process_typed_def)

lemma strncpy_length: "strncpy buf ofs src n = Inr buf' \<Longrightarrow> length buf' = length buf"
proof -
  have "strncpy_loop buf ofs src i n = Inr buf' \<Longrightarrow> length buf' = length buf" for i
  proof (induction buf ofs src i n rule: strncpy_loop.induct)
    case (1 d ofs src i n)
    from 1(2) show ?case
      by (subst (asm) strncpy_loop.simps) (auto simp: res_simps list_set_Inr_iff split: if_split_asm dest!: 1(1))
  qed
  then show "strncpy buf ofs src n = Inr buf' \<Longrightarrow> length buf' = length buf" by (simp add: strncpy_def)
qed

lemma ring_typed:
  "push_char p c = Inr p' \<Longrightarrow> process_typed p' = process_typed p" "pop_char p = Inr (c, p') \<Longrightarrow> process_typed p' = process_typed p"
  by (auto simp: push_char_def pop_char_def res_simps list_set_Inr_iff split: if_split_asm)

lemma keeps_command_result:
  "(\<And>v. r = Result v \<Longrightarrow> keeps2 I (f v)) \<Longrightarrow> (\<And>x. r = Enter_user x \<Longrightarrow> keeps2 I (g x)) \<Longrightarrow>
     keeps2 I (case r of Result v \<Rightarrow> f v | Enter_user x \<Rightarrow> g x)"
  by (cases r) auto

locale loader_invariant = upper_invariant I for I :: "'a kernelstate_scheme \<Rightarrow> bool" +
  assumes task_state: "I (s\<lparr>tasks := a, current_task := b, task_head := c, task_tail := d, data_segments := e\<rparr>) = I s"
    and current_process_state: "I (s\<lparr>current_process := b\<rparr>) = I s"
    and proc_types: "I s \<Longrightarrow> procs s x = Some p \<Longrightarrow> process_typed p"
    and set_proc_kept: "I s \<Longrightarrow> process_typed p \<Longrightarrow> I (set_proc s x p)"
    and free_proc_kept: "I s \<Longrightarrow> I (s\<lparr>procs := (procs s)(x := None)\<rparr>)"
    and processes_kept: "length ps = length (processes s) \<Longrightarrow> I (s\<lparr>processes := ps\<rparr>) = I s"
    and capslock_kept: "I s \<Longrightarrow> state \<in> {0, 1} \<Longrightarrow> I (keyboard_set_capslock s Classic_keyboard state)"
begin

lemma task_fields_kept [upd]:
  "I (s\<lparr>tasks := a\<rparr>) = I s" "I (s\<lparr>current_task := b\<rparr>) = I s" "I (s\<lparr>task_head := c\<rparr>) = I s" "I (s\<lparr>task_tail := d\<rparr>) = I s"
  "I (s\<lparr>data_segments := e\<rparr>) = I s" "I (set_task s x t) = I s"
  using task_state [where s = s and a = a and b = "current_task s" and c = "task_head s" and d = "task_tail s" and e = "data_segments s"]
    task_state [where s = s and a = "tasks s" and b = b and c = "task_head s" and d = "task_tail s" and e = "data_segments s"]
    task_state [where s = s and a = "tasks s" and b = "current_task s" and c = c and d = "task_tail s" and e = "data_segments s"]
    task_state [where s = s and a = "tasks s" and b = "current_task s" and c = "task_head s" and d = d and e = "data_segments s"]
    task_state [where s = s and a = "tasks s" and b = "current_task s" and c = "task_head s" and d = "task_tail s" and e = e]
    task_state [where s = s and a = "(tasks s)(x \<mapsto> t)" and b = "current_task s" and c = "task_head s" and d = "task_tail s"
      and e = "data_segments s"]
  by (simp_all add: set_task_def)

lemmas proc_fields_kept [upd] = current_process_state set_proc_kept free_proc_kept processes_kept capslock_kept

lemma keeps_proc:
  "I s \<Longrightarrow> (\<And>p. procs s x = Some p \<Longrightarrow> process_typed p \<Longrightarrow> keeps I (f p)) \<Longrightarrow> keeps I (bind_res (obj_get (procs s) x) f)"
  "I s \<Longrightarrow> (\<And>p. procs s x = Some p \<Longrightarrow> process_typed p \<Longrightarrow> keeps2 I (f2 p)) \<Longrightarrow> keeps2 I (bind_res (obj_get (procs s) x) f2)"
  "I s \<Longrightarrow> (\<And>p. procs s x = Some p \<Longrightarrow> process_typed p \<Longrightarrow> keeps3 I (f3 p)) \<Longrightarrow> keeps3 I (bind_res (obj_get (procs s) x) f3)"
  by (auto simp: keeps_defs res_simps dest: proc_types)

lemmas typed_intros = keeps_if keeps_bind keeps2_bind keeps3_bind keeps4_bind keeps_proc

subsection \<open>Tasks\<close>

lemma pages_kept [upd]: "I (kernel_page s) = I s" "I (user_registers s) = I s"
  by (simp_all add: kernel_page_def kernel_registers_def user_registers_def upd)

lemma task_list_remove_kept [frames]: "I s \<Longrightarrow> keeps I (task_list_remove s a)"
  unfolding task_list_remove_def Let_def by (rule typed_intros frames | simp only: prod.case | rule keeps_value keeps_pair keeps_option | simp add: upd)+

lemma task_free_kept [frames]: "I s \<Longrightarrow> keeps I (task_free s a)"
  unfolding task_free_def by (rule typed_intros frames | simp only: prod.case | rule keeps_value keeps_pair keeps_option | simp add: upd)+

lemma task_init_kept [frames]: "I s \<Longrightarrow> keeps2 I (task_init s a p)"
  unfolding task_init_def Let_def by (rule typed_intros frames | simp only: prod.case | rule keeps_value keeps_pair keeps_option | simp add: upd)+

lemma task_new_kept [frames]: "I s \<Longrightarrow> keeps2 I (task_new s p)"
  unfolding task_new_def Let_def by (rule typed_intros frames | simp only: prod.case | rule keeps_value keeps_pair keeps_option | simp add: upd)+

lemma task_switch_kept [frames]: "I s \<Longrightarrow> keeps I (task_switch s a)"
  unfolding task_switch_def by (rule typed_intros frames | simp only: prod.case | rule keeps_value keeps_pair keeps_option | simp add: upd)+

lemma task_next_kept [frames]: "I s \<Longrightarrow> keeps2 I (task_next s)"
  unfolding task_next_def task_return_def Let_def panic_def by (rule typed_intros frames | simp only: prod.case | rule keeps_value keeps_pair keeps_option | simp add: upd)+

lemma task_save_kept [frames]: "I s \<Longrightarrow> keeps I (task_current_save_state s f)"
  unfolding task_current_save_state_def panic_def by (rule typed_intros frames | simp only: prod.case | rule keeps_value keeps_pair keeps_option | simp add: upd)+

lemma task_page_kept [frames]: "I s \<Longrightarrow> keeps I (task_page s)"
  unfolding task_page_def by (rule typed_intros frames | simp only: prod.case | rule keeps_value keeps_pair keeps_option | simp add: upd)+

lemma task_page_task_kept [frames]: "I s \<Longrightarrow> keeps I (task_page_task s a)"
  unfolding task_page_task_def by (rule typed_intros frames | simp only: prod.case | rule keeps_value keeps_pair keeps_option | simp add: upd)+

lemma first_task_kept [frames]: "I s \<Longrightarrow> keeps2 I (task_run_first_ever_task s)"
  unfolding task_run_first_ever_task_def task_return_def Let_def panic_def by (rule typed_intros frames | simp only: prod.case | rule keeps_value keeps_pair keeps_option | simp add: upd)+

lemma stack_item_kept [frames]: "I s \<Longrightarrow> keeps2 I (task_get_stack_item s a i)"
  unfolding task_get_stack_item_def by (rule typed_intros frames | simp only: prod.case | rule keeps_value keeps_pair keeps_option | simp add: upd)+

lemma vstrncpy_kept [frames]: "I s \<Longrightarrow> keeps I (vstrncpy_loop s d src n)"
proof (induction n arbitrary: s d src)
  case 0
  then show ?case by (simp add: vstore_def) (rule keeps_value, simp add: upd)
next
  case (Suc n)
  have store: "keeps I (vstore s d c)" for c using Suc(2) unfolding vstore_def by (intro keeps_value) (simp add: upd)
  show ?case unfolding vstrncpy_loop.simps by (rule keeps_intros store Suc(1) | rule keeps_value | assumption)+
qed

lemma copy_string_typed [frames]: "I s \<Longrightarrow> keeps3 I (copy_string_from_task s a v b n)"
  unfolding copy_string_from_task_def Let_def by (rule typed_intros frames | simp only: prod.case | rule keeps_value keeps_pair keeps_option | simp add: upd)+

subsection \<open>Processes\<close>

lemma process_init_kept [frames]: "I s \<Longrightarrow> I (process_init s a)"
  unfolding process_init_def by (rule typed_intros frames | simp only: prod.case | rule keeps_value keeps_pair keeps_option | simp add: upd process_typed_def)+

lemma process_malloc_kept [frames]: "I s \<Longrightarrow> keeps2 I (process_malloc s a sz)"
  unfolding process_malloc_def Let_def by (rule typed_intros frames | simp only: prod.case | rule keeps_value keeps_pair keeps_option | simp add: upd)+

lemma process_free_kept [frames]: "I s \<Longrightarrow> keeps I (process_free s a q)"
  unfolding process_free_def Let_def process_allocation_unjoin_def by (rule typed_intros frames | simp only: prod.case | rule keeps_value keeps_pair keeps_option | simp add: upd)+

lemma terminate_loop_kept [frames]: "I s \<Longrightarrow> keeps I (terminate_allocations_loop s a i n)"
proof (induction n arbitrary: s i)
  case (Suc n)
  show ?case unfolding terminate_allocations_loop.simps
    by (rule typed_intros frames Suc | rule keeps_value keeps_pair | simp)+
qed simp

lemma process_free_process_typed [frames]: "I s \<Longrightarrow> keeps I (process_free_process s a)"
  unfolding process_free_process_def process_terminate_allocations_def
    process_free_program_data_def process_free_binary_data_def process_free_elf_data_def by (rule typed_intros frames | simp only: prod.case | rule keeps_value keeps_pair keeps_option | simp add: upd)+

lemma process_switch_kept [frames]: "I s \<Longrightarrow> I (process_switch s a)"
  unfolding process_switch_def by (rule typed_intros frames | simp only: prod.case | rule keeps_value keeps_pair keeps_option | simp add: upd)+

lemma process_unlink_kept [frames]: "I s \<Longrightarrow> keeps I (process_unlink s a)"
  unfolding process_unlink_def process_switch_to_any_def panic_def Let_def by (rule typed_intros frames | simp only: prod.case | rule keeps_value keeps_pair keeps_option | simp add: upd list_set_Inr_iff process_switch_def)+

lemma process_terminate_kept [frames]: "I s \<Longrightarrow> keeps I (process_terminate s a)"
  unfolding process_terminate_def by (rule typed_intros frames | simp only: prod.case | rule keeps_value keeps_pair keeps_option | simp add: upd)+

lemma inject_loop_kept:
  assumes "inject_loop s p argv cur i = Some r" "I s"
  shows "keeps2 I r"
proof -
  have "I s \<longrightarrow> keeps2 I r"
    by (rule inject_loop.raw_induct [OF _ assms(1), where P = "\<lambda>s p argv cur i r. I s \<longrightarrow> keeps2 I r"])
      (auto split: if_split_asm sum.split_asm simp: Let_def upd
        dest!: process_malloc_kept [unfolded keeps2_def, rule_format, rotated])
  then show ?thesis using assms(2) by blast
qed

lemma inject_arguments_kept [frames]: "I s \<Longrightarrow> keeps2 I (process_inject_arguments s p a)"
  unfolding process_inject_arguments_def
  by (rule typed_intros frames | simp only: prod.case | rule keeps_value keeps_option | erule inject_loop_kept | simp add: upd)+

subsection \<open>Loading\<close>

lemma load_binary_kept [frames]: "I s \<Longrightarrow> keeps2 I (process_load_binary s path p)"
  unfolding process_load_binary_def Let_def by (rule typed_intros frames | simp only: prod.case | rule keeps_value keeps_pair keeps_option | simp add: upd)+

lemma load_elf_kept [frames]: "I s \<Longrightarrow> keeps2 I (process_load_elf s path p)"
  unfolding process_load_elf_def by (rule typed_intros frames | simp only: prod.case | rule keeps_value keeps_pair keeps_option | simp add: upd)+

lemma load_data_kept [frames]: "I s \<Longrightarrow> keeps2 I (process_load_data s path p)"
  unfolding process_load_data_def by (rule typed_intros frames | simp only: prod.case | rule keeps_value keeps_pair keeps_option | simp add: upd)+

lemma map_memory_kept [frames]: "I s \<Longrightarrow> keeps2 I (process_map_memory s p)"
  unfolding process_map_memory_def process_map_elf_def process_map_binary_def panic_def Let_def by (rule typed_intros frames | simp only: prod.case | rule keeps_value keeps_pair keeps_option | simp add: upd)+

lemma load_for_slot_kept [frames]: "I s \<Longrightarrow> keeps3 I (process_load_for_slot s path i)"
  unfolding process_load_for_slot_def process_load_out_def Let_def by (rule typed_intros frames | simp only: prod.case | rule keeps_value keeps_pair keeps_option | simp add: upd strncpy_length process_typed_def list_set_Inr_iff)+

lemma process_load_kept [frames]: "I s \<Longrightarrow> keeps3 I (process_load s path)"
  unfolding process_load_def Let_def by (rule typed_intros frames | simp only: prod.case | rule keeps_value keeps_pair keeps_option | simp add: upd)+

lemma load_switch_kept [frames]: "I s \<Longrightarrow> keeps3 I (process_load_switch s path)"
  unfolding process_load_switch_def by (rule typed_intros frames | simp only: prod.case | rule keeps_value keeps_pair keeps_option | simp add: upd process_switch_kept)+

subsection \<open>Keyboard\<close>

lemma keyboard_push_kept [frames]: "I s \<Longrightarrow> keeps I (keyboard_push s c)"
  unfolding keyboard_push_def by (rule typed_intros frames | simp only: prod.case | rule keeps_value keeps_pair keeps_option | simp add: upd ring_typed)+

lemma keyboard_pop_kept [frames]: "I s \<Longrightarrow> keeps2 I (keyboard_pop s)"
  unfolding keyboard_pop_def by (rule typed_intros frames | simp only: prod.case | rule keeps_value keeps_pair keeps_option | simp add: upd ring_typed)+

lemma keyboard_interrupt_kept [frames]: "I s \<Longrightarrow> keeps I (classic_keyboard_handle_interrupt s)"
  unfolding classic_keyboard_handle_interrupt_def insb_def Let_def prod.case by (rule typed_intros frames | simp only: prod.case | rule keeps_value keeps_pair keeps_option | simp add: upd)+

subsection \<open>Booting\<close>

lemma inject_argument_kept [frames]: "I s \<Longrightarrow> keeps I (inject_argument s a p str)"
  unfolding inject_argument_def
  by (rule typed_intros frames | simp only: prod.case | rule keeps_value keeps_pair keeps_option | simp add: upd)+

end

subsection \<open>System calls and interrupts\<close>

text \<open>The handlers write to the terminal, too.\<close>

locale kernel_invariant = loader_invariant I + terminal_invariant I for I :: "'a kernelstate_scheme \<Rightarrow> bool"
begin

lemma enter_process_typed [frames]: "I s \<Longrightarrow> keeps2 I (enter_process s p)"
  unfolding enter_process_def task_return_def Let_def by (rule typed_intros frames | simp only: prod.case | rule keeps_value keeps_pair keeps_option | simp add: upd)+

lemma command0_kept [frames]: "I s \<Longrightarrow> keeps2 I (isr80h_command0_sum s)"
  unfolding isr80h_command0_sum_def by (rule typed_intros frames | simp only: prod.case | rule keeps_value keeps_pair keeps_option | simp add: upd)+

lemma command1_kept [frames]: "I s \<Longrightarrow> keeps2 I (isr80h_command1_print s)"
  unfolding isr80h_command1_print_def by (rule typed_intros frames | simp only: prod.case | rule keeps_value keeps_pair keeps_option | simp add: upd)+

lemma command2_kept [frames]: "I s \<Longrightarrow> keeps2 I (isr80h_command2_getkey s)"
  unfolding isr80h_command2_getkey_def by (rule typed_intros frames | simp only: prod.case | rule keeps_value keeps_pair keeps_option | simp add: upd)+

lemma command3_kept [frames]: "I s \<Longrightarrow> keeps2 I (isr80h_command3_putchar s)"
  unfolding isr80h_command3_putchar_def by (rule typed_intros frames | simp only: prod.case | rule keeps_value keeps_pair keeps_option | simp add: upd)+

lemma command4_kept [frames]: "I s \<Longrightarrow> keeps2 I (isr80h_command4_malloc s)"
  unfolding isr80h_command4_malloc_def by (rule typed_intros frames | simp only: prod.case | rule keeps_value keeps_pair keeps_option | simp add: upd)+

lemma command5_kept [frames]: "I s \<Longrightarrow> keeps2 I (isr80h_command5_free s)"
  unfolding isr80h_command5_free_def by (rule typed_intros frames | simp only: prod.case | rule keeps_value keeps_pair keeps_option | simp add: upd)+

lemma command6_kept [frames]: "I s \<Longrightarrow> keeps2 I (isr80h_command6_process_load_start s)"
  unfolding isr80h_command6_process_load_start_def by (rule typed_intros frames | simp only: prod.case | rule keeps_value keeps_pair keeps_option | simp add: upd)+

lemma command7_kept [frames]: "I s \<Longrightarrow> keeps2 I (isr80h_command7_invoke_system_command s)"
  unfolding isr80h_command7_invoke_system_command_def by (rule typed_intros frames | simp only: prod.case | rule keeps_value keeps_pair keeps_option | simp add: upd)+

lemma command8_kept [frames]: "I s \<Longrightarrow> keeps2 I (isr80h_command8_get_program_arguments s)"
  unfolding isr80h_command8_get_program_arguments_def Let_def by (rule typed_intros frames | simp only: prod.case | rule keeps_value keeps_pair keeps_option | simp add: upd)+

lemma command9_kept [frames]: "I s \<Longrightarrow> keeps2 I (isr80h_command9_exit s)"
  unfolding isr80h_command9_exit_def by (rule typed_intros frames | simp only: prod.case | rule keeps_value keeps_pair keeps_option | simp add: upd)+

lemma run_command_kept [frames]: "I s \<Longrightarrow> keeps2 I (run_command c s)"
  by (cases c) (simp_all add: frames)

lemma handle_command_kept [frames]: "I s \<Longrightarrow> keeps2 I (isr80h_handle_command s c)"
  unfolding isr80h_handle_command_def by (rule typed_intros frames | simp only: prod.case | rule keeps_value keeps_pair keeps_option | simp add: upd)+

lemma callback_kept [frames]: "I s \<Longrightarrow> keeps2 I (run_callback f s)"
  by (cases f) (simp_all add: idt_handle_exception_def idt_clock_def,
    (rule typed_intros frames | simp only: prod.case | rule keeps_value | simp add: upd)+)

lemma interrupt_handler_kept [frames]: "I s \<Longrightarrow> keeps2 I (interrupt_handler s i f)"
  unfolding interrupt_handler_def Let_def by (rule typed_intros frames | simp only: prod.case | rule keeps_value keeps_pair keeps_option | simp add: upd)+

lemma isr80h_handler_kept [frames]: "I s \<Longrightarrow> keeps2 I (isr80h_handler s c f)"
  unfolding isr80h_handler_def
  by (rule typed_intros frames keeps_command_result | simp only: prod.case | rule keeps_value | simp add: upd)+

lemma interrupt_entry_kept [frames]: "I s \<Longrightarrow> keeps2 I (interrupt_entry s i f)"
  unfolding interrupt_entry_def by (rule typed_intros frames | simp only: prod.case | rule keeps_value keeps_pair keeps_option | simp add: upd)+

lemma isr80h_wrapper_kept [frames]: "I s \<Longrightarrow> keeps2 I (isr80h_wrapper s f)"
  unfolding isr80h_wrapper_def by (rule typed_intros frames | simp only: prod.case | rule keeps_value keeps_pair keeps_option | simp add: upd)+

end

end
