(* ===== verification/Typed.thy ===== *)
theory Typed
  imports Invariant
begin

text \<open>
  The types of the kernel's objects as an invariant. The model keeps a C array as a list, so the sizes the declarations of the source
  give are facts about the state: \<open>well_typed\<close> is all of them. Booting establishes it, and every interrupt and system call keeps it.
\<close>

definition well_typed :: "'a kernelstate_scheme \<Rightarrow> bool" where
  "well_typed s \<longleftrightarrow>
     length (heap_entries (kheap s)) = 25600 \<and> saddr (kheap s) = 0x01000000 \<and> sector_size (kdisk s) = 512 \<and> length (filesystems s) = 12 \<and>
     length (file_descriptors s) = 512 \<and> (\<forall>a p. procs s a = Some p \<longrightarrow> process_typed p) \<and> length (processes s) = 12 \<and>
     length (idtr_descriptors s) = 512 \<and> length (interrupt_callbacks s) = 512 \<and> length (isr80h_commands s) = 1024 \<and>
     capslock_state (keyboards s Classic_keyboard) \<in> {0, 1} \<and> length (gdt_real s) = 6"

lemma well_typed_upper: "upper s' = upper s \<Longrightarrow> well_typed s' = well_typed s"
  by (cases s, cases s') (simp add: well_typed_def upper_def)

interpretation typed: kernel_invariant "well_typed :: 'a kernelstate_scheme \<Rightarrow> bool"
proof unfold_locales
  show "upper s' = upper s \<Longrightarrow> well_typed s' = well_typed s" for s s' :: "'a kernelstate_scheme" by (rule well_typed_upper)
qed (auto simp: well_typed_def set_proc_def keyboard_set_capslock_def with_screen_def split: if_split_asm)

subsection \<open>Booting\<close>

text \<open>What C promises of the static objects when \<open>kernel_main\<close> starts: they have their declared sizes and are zero.\<close>

definition static_objects :: "'a kernelstate_scheme \<Rightarrow> bool" where
  "static_objects s \<longleftrightarrow> procs s = Map.empty \<and> tasks s = Map.empty \<and> current_task s = 0 \<and> task_head s = 0 \<and> task_tail s = 0 \<and>
     current_process s = 0 \<and> processes s = replicate 12 0 \<and> length (idtr_descriptors s) = 512 \<and>
     interrupt_callbacks s = replicate 512 None \<and> isr80h_commands s = replicate 1024 None \<and>
     keyboards s Classic_keyboard = classic_keyboard \<and> keyboard_list_head s = None \<and> keyboard_list_last s = None \<and>
     length (fs_name s) = 20"

lemma table_fields_typed [upd]:
  "length ds = length (idtr_descriptors s) \<Longrightarrow> well_typed (s\<lparr>idtr_descriptors := ds\<rparr>) = well_typed s"
  "length cs = length (interrupt_callbacks s) \<Longrightarrow> well_typed (s\<lparr>interrupt_callbacks := cs\<rparr>) = well_typed s"
  "length ks = length (isr80h_commands s) \<Longrightarrow> well_typed (s\<lparr>isr80h_commands := ks\<rparr>) = well_typed s"
  "well_typed (s\<lparr>idtr := d\<rparr>) = well_typed s" "well_typed (s\<lparr>idtr_descriptor := d\<rparr>) = well_typed s"
  "well_typed (s\<lparr>gdtr := g\<rparr>) = well_typed s" "well_typed (s\<lparr>kernel_tss := t\<rparr>) = well_typed s"
  "well_typed (s\<lparr>task_register := r\<rparr>) = well_typed s" "well_typed (s\<lparr>kernel_chunk := c\<rparr>) = well_typed s"
  "well_typed (s\<lparr>keyboard_list_head := h\<rparr>) = well_typed s" "well_typed (s\<lparr>keyboard_list_last := h\<rparr>) = well_typed s"
  by (simp_all add: well_typed_def)

lemma idt_set_typed [frames]: "well_typed s \<Longrightarrow> keeps well_typed (idt_set s i a)"
  unfolding idt_set_def by (rule typed.typed_intros frames | simp only: prod.case | rule keeps_value keeps_pair keeps_option | simp add: upd list_set_Inr_iff)+

lemma register_callback_typed [frames]: "well_typed s \<Longrightarrow> keeps2 well_typed (idt_register_interrupt_callback s i c)"
  unfolding idt_register_interrupt_callback_def by (rule typed.typed_intros frames | simp only: prod.case | rule keeps_value keeps_pair keeps_option | simp add: upd list_set_Inr_iff)+

lemma register_command_typed [frames]: "well_typed s \<Longrightarrow> keeps well_typed (isr80h_register_command s i c)"
  unfolding isr80h_register_command_def panic_def by (rule typed.typed_intros frames | simp only: prod.case | rule keeps_value keeps_pair keeps_option | simp add: upd list_set_Inr_iff)+

lemma idt_set_loop_typed [frames]: "well_typed s \<Longrightarrow> keeps well_typed (idt_set_loop s tab i n)"
proof (induction n arbitrary: s i)
  case (Suc n)
  show ?case unfolding idt_set_loop.simps by (rule typed.typed_intros frames Suc | rule keeps_value | simp)+
qed simp

lemma exceptions_loop_typed [frames]: "well_typed s \<Longrightarrow> keeps well_typed (register_exceptions_loop s i n)"
proof (induction n arbitrary: s i)
  case (Suc n)
  show ?case unfolding register_exceptions_loop.simps by (rule typed.typed_intros frames Suc | simp only: prod.case | simp)+
qed simp

lemma idt_init_typed [frames]: "well_typed s \<Longrightarrow> keeps well_typed (idt_init s b tab z w)"
  unfolding idt_init_def idt_load_def Let_def by (rule typed.typed_intros frames | simp only: prod.case | rule keeps_value keeps_pair keeps_option | simp add: upd)+

lemma register_commands_typed [frames]: "well_typed s \<Longrightarrow> keeps well_typed (isr80h_register_commands s)"
  unfolding isr80h_register_commands_def by (rule typed.typed_intros frames | simp only: prod.case | rule keeps_value keeps_pair keeps_option | simp add: upd)+

lemma keyboard_links_typed [upd]:
  "well_typed (s\<lparr>keyboards := (keyboards s)(k := (keyboards s k)\<lparr>kbd_next := n\<rparr>)\<rparr>) = well_typed s"
  by (cases k) (simp add: well_typed_def)

lemma run_keyboard_init_typed [frames]: "well_typed s \<Longrightarrow> keeps2 well_typed (run_keyboard_init f s)"
  by (cases f; simp only: run_keyboard_init.simps classic_keyboard_init_def)
    (rule typed.typed_intros frames | simp only: prod.case | simp add: upd)+

lemma keyboard_init_typed [frames]: "well_typed s \<Longrightarrow> keeps well_typed (keyboard_init s)"
  unfolding keyboard_init_def keyboard_insert_def
  by (rule typed.typed_intros frames | simp only: prod.case | rule keeps_option | simp add: upd split: option.split)+

text \<open>The tables \<open>kernel_init\<close> sets up itself.\<close>

lemma gdt_table_length: "gdt_structured_to_gdt gdt sg i n = Inr gdt' \<Longrightarrow> length gdt' = length gdt"
  by (induction n arbitrary: gdt i) (auto simp: res_simps list_set_Inr_iff)

lemma fs_init_tables:
  assumes "fs_init s = Inr s'"
  obtains n fs where "length fs = 12" "s' = s\<lparr>file_descriptors := replicate 512 0, fs_name := n, filesystems := fs\<rparr>"
proof -
  from assms obtain n i where
    "s' = s\<lparr>file_descriptors := replicate 512 0, fs_name := n, filesystems := (replicate 12 None)[i := Some Fat16_fs]\<rparr>"
    by (auto simp: fs_init_def fs_load_def fs_static_load_def fat16_init_def fs_insert_filesystem_def res_simps
        split: option.split_asm)
  then show ?thesis by (intro that) simp_all
qed

lemma disk_search_typed:
  assumes "well_typed (s\<lparr>kdisk := (kdisk s)\<lparr>sector_size := 512\<rparr>\<rparr>)"
  shows "keeps well_typed (disk_search_and_init s)"
proof -
  define s1 where "s1 = s\<lparr>kdisk := \<lparr>dk_type = MARROWOS_DISK_TYPE_REAL, sector_size = 512, dk_id = 0, dk_filesystem = None,
    fs_private = 0\<rparr>\<rparr>"
  have s1: "well_typed s1" using assms by (simp add: well_typed_def s1_def)
  show ?thesis unfolding disk_search_and_init_def fs_resolve_def Let_def s1_def [symmetric]
    by (rule keeps_intros frames | simp only: prod.case | simp add: upd s1)+
qed

lemma enable_paging_typed [upd]: "well_typed (enable_paging s) = well_typed s"
  by (simp add: well_typed_def enable_paging_def)

lemma kernel_init_typed [frames]:
  assumes "static_objects s"
  shows "keeps well_typed (kernel_init s l)"
proof -
  obtain v where t: "terminal_initialize s = Inr (s\<lparr>terminal_row := 0, terminal_col := 0, video_mem := v\<rparr>)"
    using terminal_initialize_cells by blast
  define s0 where "s0 = s\<lparr>terminal_row := 0, terminal_col := 0, video_mem := v\<rparr>"
  have typed: "keeps well_typed (disk_search_and_init s')"
    if g: "gdt_structured_to_gdt (replicate 6 (replicate 8 0)) sg 0 6 = Inr g"
      and s': "fs_init (s0\<lparr>gdt_real := g, gdtr := r, kheap := kernel_fresh_heap\<rparr>) = Inr s'" for sg g r s'
  proof -
    have len: "length g = 6" using gdt_table_length [OF g] by (simp only: length_replicate)
    obtain n fs where "length fs = 12" "s' = s0\<lparr>gdt_real := g, gdtr := r, kheap := kernel_fresh_heap\<rparr>
        \<lparr>file_descriptors := replicate 512 0, fs_name := n, filesystems := fs\<rparr>"
      by (rule fs_init_tables [OF s'])
    then show ?thesis using assms len unfolding s0_def
      by (intro disk_search_typed)
        (simp add: static_objects_def well_typed_def kernel_fresh_heap_def fresh_heap_def classic_keyboard_def)
  qed
  show ?thesis
    unfolding kernel_init_def t s0_def [symmetric] Let_def kheap_init_eq bind_res.simps gdt_load_def
    by (rule keeps_value, rule keeps_value, rule keeps_bind, erule (1) typed)
      (rule typed.typed_intros frames | simp only: prod.case | simp add: upd tss_load_def)+
qed

lemma kernel_main_typed: "static_objects s \<Longrightarrow> keeps2 well_typed (kernel_main s l)"
  unfolding kernel_main_def panic_def
  by (rule typed.typed_intros frames | simp only: prod.case | assumption | simp add: upd)+

text \<open>Making, loading and starting processes writes nothing to the terminal: what \<open>kernel_main\<close> does after \<open>kernel_init\<close> leaves it as it is.\<close>

interpretation screen: loader_invariant "\<lambda>s :: 'a kernelstate_scheme. well_typed s \<and> tstate.truncate s = v" for v :: tstate
proof unfold_locales
  show "upper s' = upper s \<Longrightarrow> (well_typed s' \<and> tstate.truncate s' = v) = (well_typed s \<and> tstate.truncate s = v)"
    for s s' :: "'a kernelstate_scheme" using well_typed_upper [of s' s] by (simp add: upper_def)
qed (auto simp: well_typed_def set_proc_def keyboard_set_capslock_def tstate.truncate_def split: if_split_asm)

lemma kernel_main_screen:
  assumes "kernel_init s l = Inr s1" "well_typed s1" "kernel_main s l = Inr (r, s2)"
  shows "tstate.truncate s2 = tstate.truncate s1"
proof -
  have I: "well_typed s1 \<and> tstate.truncate s1 = tstate.truncate s1" using assms(2) by simp
  have "keeps2 (\<lambda>s. well_typed s \<and> tstate.truncate s = tstate.truncate s1) (kernel_main s l)"
    unfolding kernel_main_def assms(1) bind_res.simps panic_def
    by (rule screen.typed_intros screen.load_switch_kept screen.inject_argument_kept screen.first_task_kept I
      | simp only: prod.case | assumption | simp)+
  then show ?thesis using assms(3) by (simp add: keeps2_def)
qed

end
