(* ===== verification/System.thy ===== *)
theory System
  imports Typed
begin

text \<open>
  The running system: user code, interrupts and system calls interleaved as steps of a relation on the registers and the state. The processor
  enters the kernel with the interrupted registers in a frame and goes on with what the kernel's exit restores. What holds in every reachable state
  is proved by rule induction over the invariants of Invariant and Typed.
\<close>

subsection \<open>Steps\<close>

text \<open>
  User code changes its registers as it likes and memory where both page table entries have the present, writable
  and user bits.
\<close>

definition user_writable :: "'a pgstate_scheme \<Rightarrow> u32 \<Rightarrow> bool" where
  "user_writable s a \<longleftrightarrow>
     (\<exists>v. let pde = load32 (mem s) (cr3 s + 4 * drop_bit 22 v);
              entry = load32 (mem s) ((pde AND 0xfffff000) + 4 * (drop_bit 12 v AND 0x3ff))
          in pde AND 7 = 7 \<and> entry AND 7 = 7 \<and> a = (entry AND 0xfffff000) + (v AND 0xfff))"

text \<open>
  A step is a piece of user code or one entry into the kernel, and ends in a state or in the fault the kernel's code ran into. The stub of a vector
  can be entered without an error code (by a device or by the instruction \<open>int\<close>, which all gates allow) and, for the exceptions that have one, with it.
  The gate of vector 0 leads to \<open>idt_zero\<close>, which saves no register: what the compiled handler leaves in EAX, ECX and EDX is not known.
\<close>

inductive kernel_step :: "registers \<times> 'a kernelstate_scheme \<Rightarrow> (registers \<times> 'a kernelstate_scheme) res \<Rightarrow> bool" where
  user: "(\<And>a. m a \<noteq> mem s a \<Longrightarrow> user_writable s a) \<Longrightarrow> kernel_step (r, s) (Inr (r', s\<lparr>mem := m\<rparr>))"
| interrupt: "frame_registers f = r \<Longrightarrow> 0 \<le> i \<Longrightarrow> i < 256 \<Longrightarrow> i \<noteq> 0 \<Longrightarrow> i \<noteq> 0x80 \<Longrightarrow> interrupt_entry s i f = x \<Longrightarrow> kernel_step (r, s) x"
| exception: "frame_registers f = r \<Longrightarrow> pushes_error_code i \<Longrightarrow> interrupt_entry s i (error_frame e f) = x \<Longrightarrow> kernel_step (r, s) x"
| divide: "idt_zero_handler s = x \<Longrightarrow> kernel_step (r, s) (bind_res x (\<lambda>s'. Inr (r\<lparr>r_eax := eax, r_ecx := ecx, r_edx := edx\<rparr>, s')))"
| command: "frame_registers f = r \<Longrightarrow> isr80h_wrapper s f = x \<Longrightarrow> kernel_step (r, s) x"

inductive_cases kernel_stepE: "kernel_step (r, s) x"

inductive kernel_run :: "registers \<times> 'a kernelstate_scheme \<Rightarrow> registers \<times> 'a kernelstate_scheme \<Rightarrow> bool" for c0 where
  start: "kernel_run c0 c0"
| step: "kernel_run c0 c \<Longrightarrow> kernel_step c (Inr c') \<Longrightarrow> kernel_run c0 c'"

context kernel_invariant
begin

lemma step_kept: "kernel_step c x \<Longrightarrow> I (snd c) \<Longrightarrow> keeps2 I x"
proof (induction rule: kernel_step.induct)
  case (user s m r r')
  then show ?case by (simp add: upd)
next
  case (interrupt f r i s x)
  then show ?case using interrupt_entry_kept [of s i f] by simp
next
  case (exception f r i s e x)
  then show ?case using interrupt_entry_kept [of s i "error_frame e f"] by simp
next
  case (divide s x r eax ecx edx)
  then show ?case using print_kept [of s] by (auto simp: idt_zero_handler_def intro: keeps_bind)
next
  case (command f r s x)
  then show ?case using isr80h_wrapper_kept [of s f] by simp
qed

lemma run_kept: "kernel_run c0 c \<Longrightarrow> I (snd c0) \<Longrightarrow> I (snd c)"
  by (induction rule: kernel_run.induct) (auto dest: step_kept simp: keeps2_def)

end

subsection \<open>Every reachable state is well typed\<close>

lemma well_typed_tables:
  assumes "well_typed s"
  shows "process_get s k = Inr (if 0 \<le> k \<and> k < 12 then processes s ! nat k else 0)"
    and "file_get_descriptor s k = Inr (if 0 < k \<and> k \<le> 512 then file_descriptors s ! nat (k - 1) else 0)"
    and "isr80h_handle_command s k = (case if 0 \<le> k \<and> k < 1024 then isr80h_commands s ! nat k else None of
        None \<Rightarrow> Inr (Result 0, s) | Some c \<Rightarrow> run_command c s)"
  using assms by (simp_all add: well_typed_def list_get_def process_get_def file_get_descriptor_def isr80h_handle_command_def)

lemma well_typed_ring:
  assumes "well_typed s" "procs s a = Some p"
  shows "push_char p c = Inr (p\<lparr>kb_buffer := (kb_buffer p)[unat (kb_tail p) mod 1024 := c], kb_tail := kb_tail p + 1\<rparr>)"
    and "pop_char p = Inr (let c = kb_buffer p ! (unat (kb_head p) mod 1024) in (c, if c = 0 then p
        else p\<lparr>kb_buffer := (kb_buffer p)[unat (kb_head p) mod 1024 := 0], kb_head := kb_head p + 1\<rparr>))"
proof -
  have p: "length (kb_buffer p) = 1024" using assms by (auto simp: well_typed_def process_typed_def)
  have i: "uint (k mod 1024) = int (unat k mod 1024)" for k :: u32
    by (simp add: uint_mod of_nat_mod)
  show "push_char p c = Inr (p\<lparr>kb_buffer := (kb_buffer p)[unat (kb_tail p) mod 1024 := c], kb_tail := kb_tail p + 1\<rparr>)"
    by (simp add: push_char_def keyboard_get_tail_index_def i access_simps p)
  show "pop_char p = Inr (let c = kb_buffer p ! (unat (kb_head p) mod 1024) in (c, if c = 0 then p
        else p\<lparr>kb_buffer := (kb_buffer p)[unat (kb_head p) mod 1024 := 0], kb_head := kb_head p + 1\<rparr>))"
    by (simp add: pop_char_def i access_simps p Let_def)
qed

subsection \<open>Every exit of the kernel\<close>

text \<open>The processor runs under the page directory of the current task.\<close>

definition own_address_space :: "'a taskstate_scheme \<Rightarrow> bool" where
  "own_address_space s \<longleftrightarrow> (\<exists>t. tasks s (current_task s) = Some t \<and> cr3 s = load32 (mem s) (page_directory t))"

text \<open>The registers are the saved ones of the current task.\<close>

definition resumes :: "registers \<Rightarrow> 'a taskstate_scheme \<Rightarrow> bool" where
  "resumes r s \<longleftrightarrow> (\<exists>t. tasks s (current_task s) = Some t \<and> r = user_context (regs t) \<and> data_segments s = ucast (r_ss (regs t)))"

lemma task_switch_own: "task_switch s a = Inr s' \<Longrightarrow> own_address_space s' \<and> current_task s' = a"
  by (auto simp: task_switch_def res_simps own_address_space_def paging_switch_def paging_load_directory_def Let_def)

lemma task_page_own: "task_page s = Inr s' \<Longrightarrow> own_address_space s' \<and> current_task s' = current_task s \<and> data_segments s' = 0x23"
  using task_switch_own [of "user_registers s" "current_task s" s']
  by (auto simp: task_page_def task_switch_def user_registers_def res_simps paging_switch_def paging_load_directory_def Let_def)

lemma task_return_own:
  assumes "task_switch s n = Inr s1" "tasks s1 n = Some t"
  shows "own_address_space (snd (task_return s1 (regs t))) \<and> resumes (fst (task_return s1 (regs t))) (snd (task_return s1 (regs t)))"
  using task_switch_own [OF assms(1)] assms(2) by (auto simp: task_return_def own_address_space_def resumes_def)

lemma task_next_own:
  assumes "task_next s = Inr (r, s')"
  shows "own_address_space s' \<and> resumes r s'"
proof -
  from assms obtain n s1 t where "task_switch s n = Inr s1" "tasks s1 n = Some t" "task_return s1 (regs t) = (r, s')"
    by (auto simp: task_next_def res_simps panic_def split: if_split_asm)
  then show ?thesis using task_return_own by fastforce
qed

lemma enter_process_own:
  assumes "enter_process s p = Inr (Enter_user r, s')"
  shows "own_address_space s' \<and> resumes r s'"
proof -
  from assms obtain n s1 t where "task_switch s n = Inr s1" "tasks s1 n = Some t" "task_return s1 (regs t) = (r, s')"
    by (auto simp: enter_process_def res_simps Let_def task_return_def)
  then show ?thesis using task_return_own by fastforce
qed

lemma entering_command:
  assumes "run_command c s = Inr (Enter_user r, s')"
  shows "(\<exists>s1 p. enter_process s1 p = Inr (Enter_user r, s')) \<or> (\<exists>s1. task_next s1 = Inr (r, s'))"
proof (cases c)
  case Isr80h_command6_process_load_start
  then show ?thesis using assms by (auto simp: isr80h_command6_process_load_start_def res_simps split: if_split_asm)
next
  case Isr80h_command7_invoke_system_command
  then show ?thesis using assms
    by (auto simp: isr80h_command7_invoke_system_command_def res_simps simp del: strlen_def split: if_split_asm)
qed (use assms in \<open>auto simp: res_simps isr80h_command0_sum_def isr80h_command1_print_def isr80h_command2_getkey_def
    isr80h_command3_putchar_def isr80h_command4_malloc_def isr80h_command5_free_def isr80h_command8_get_program_arguments_def
    isr80h_command9_exit_def process_get_arguments_def\<close>)

lemma handler_own:
  assumes "interrupt_handler s i f = Inr (r, s')"
  shows "own_address_space s' \<and> (case r of None \<Rightarrow> data_segments s' = 0x23 | Some r \<Rightarrow> resumes r s')"
proof (cases r)
  case None
  with assms obtain s1 s2 where "task_page s1 = Inr s2" "s' = outb 0x20 0x20 s2"
    by (auto simp: interrupt_handler_def res_simps Let_def split: if_split_asm)
  then show ?thesis using task_page_own [of s1 s2] None by (auto simp: own_address_space_def outb_def)
next
  case (Some r')
  with assms obtain g s1 where "run_callback g s1 = Inr (Some r', s')"
    by (auto simp: interrupt_handler_def res_simps Let_def split: if_split_asm option.split_asm)
  then obtain s2 where "task_next s2 = Inr (r', s')"
    by (cases g) (auto simp: idt_handle_exception_def idt_clock_def res_simps)
  then show ?thesis using task_next_own Some by fastforce
qed

lemma command_own:
  assumes "isr80h_handler s n f = Inr (x, s')"
  shows "own_address_space s' \<and> (case x of Result v \<Rightarrow> data_segments s' = 0x23 | Enter_user r \<Rightarrow> resumes r s')"
proof -
  obtain s1 c s2 where c: "isr80h_handle_command s1 n = Inr (c, s2)"
      "(case c of Result v \<Rightarrow> bind_res (task_page s2) (\<lambda>s. Inr (Result v, s)) | Enter_user r \<Rightarrow> Inr (Enter_user r, s2)) = Inr (x, s')"
    using assms by (auto simp: isr80h_handler_def res_simps)
  show ?thesis
  proof (cases c)
    case (Result v)
    with c(2) have "task_page s2 = Inr s'" "x = Result v" by (simp_all add: res_simps)
    then show ?thesis using task_page_own [of s2 s'] by auto
  next
    case (Enter_user u)
    with c have h: "isr80h_handle_command s1 n = Inr (Enter_user u, s')" "x = Enter_user u" by simp_all
    obtain d where "run_command d s1 = Inr (Enter_user u, s')"
      using h(1) by (auto simp: isr80h_handle_command_def res_simps split: if_split_asm option.split_asm)
    then have "own_address_space s' \<and> resumes u s'"
      using entering_command [of d s1 u s'] enter_process_own task_next_own by blast
    then show ?thesis using h(2) by simp
  qed
qed

text \<open>C9: what the kernel leaves behind at the end of an interrupt that enters through the stubs of \<open>interrupt_pointer_table\<close>, and of a system call. Both end
  under the page directory of the task that is current then. Either the registers are this task's saved ones, or they are the interrupted ones, with the user's
  data segments; a system call has put the answer of its command into EAX, an interrupt has changed none of them. (A division by zero enters through \<open>idt_zero\<close>,
  which neither saves registers nor changes the address space.)\<close>

theorem kernel_exit_registers:
  "(interrupt_entry s i f = Inr (r, s') \<longrightarrow>
      own_address_space s' \<and> (resumes r s' \<or> r = frame_registers f \<and> data_segments s' = 0x23)) \<and>
   (isr80h_wrapper s f = Inr (r, s') \<longrightarrow> own_address_space s' \<and> (resumes r s' \<or>
      (\<exists>v. isr80h_handler s (sint (f_eax f)) f = Inr (Result v, s') \<and> r = (frame_registers f)\<lparr>r_eax := v\<rparr>) \<and> data_segments s' = 0x23))"
proof (intro conjI impI)
  assume "interrupt_entry s i f = Inr (r, s')"
  then obtain r1 where "interrupt_handler s i f = Inr (r1, s')" "r = (case r1 of None \<Rightarrow> frame_registers f | Some r \<Rightarrow> r)"
    by (auto simp: interrupt_entry_def res_simps)
  then show "own_address_space s'" "resumes r s' \<or> r = frame_registers f \<and> data_segments s' = 0x23"
    using handler_own [of s i f r1 s'] by (auto split: option.split_asm)
next
  assume "isr80h_wrapper s f = Inr (r, s')"
  then obtain x where x: "isr80h_handler s (sint (f_eax f)) f = Inr (x, s')"
      "r = (case x of Result v \<Rightarrow> (frame_registers f)\<lparr>r_eax := v\<rparr> | Enter_user r \<Rightarrow> r)"
    by (auto simp: isr80h_wrapper_def res_simps)
  then show "own_address_space s'" "resumes r s' \<or>
      (\<exists>v. isr80h_handler s (sint (f_eax f)) f = Inr (Result v, s') \<and> r = (frame_registers f)\<lparr>r_eax := v\<rparr>) \<and> data_segments s' = 0x23"
    using command_own [OF x(1)] by (auto split: command_result.split_asm)
qed

lemma example_clock_runs: "runs example_clock_state [0x01010000, 0x01020000, 0x01030000] 1"
  by (simp add: runs_def task_ring_def example_clock_state_def example_task_def)

lemma kernel_exit_registers_witness:
  "\<exists>r s'. interrupt_entry example_clock_state 0x20 (example_frame 0x400010) = Inr (r, s') \<and> own_address_space s'"
proof -
  obtain r s' where "interrupt_entry example_clock_state 0x20 (example_frame 0x400010) = Inr (r, s')"
    using clock_tick [OF example_clock_runs] by blast
  then show ?thesis using kernel_exit_registers by blast
qed

subsection \<open>What only booting sets\<close>

text \<open>The tables of the kernel, which the model keeps apart from the bytes of memory, are set while booting only: no other operation assigns to them.\<close>

definition same_tables :: "'a kernelstate_scheme \<Rightarrow> 'a kernelstate_scheme \<Rightarrow> bool" where
  "same_tables s0 s \<longleftrightarrow> well_typed s \<and> cr0 s = cr0 s0 \<and> kernel_chunk s = kernel_chunk s0 \<and> isr80h_commands s = isr80h_commands s0 \<and>
     interrupt_callbacks s = interrupt_callbacks s0 \<and> idtr_descriptors s = idtr_descriptors s0 \<and> idtr s = idtr s0 \<and>
     gdt_real s = gdt_real s0 \<and> gdtr s = gdtr s0 \<and> kernel_tss s = kernel_tss s0 \<and> task_register s = task_register s0"

interpretation tables: kernel_invariant "same_tables s0" for s0 :: "'a kernelstate_scheme"
proof unfold_locales
  show "upper s' = upper s \<Longrightarrow> same_tables s0 s' = same_tables s0 s" for s s' :: "'a kernelstate_scheme"
    by (cases s, cases s') (simp add: same_tables_def well_typed_def upper_def)
qed (auto simp: same_tables_def well_typed_def set_proc_def keyboard_set_capslock_def with_screen_def split: if_split_asm)

text \<open>Three tasks with the clock running, in a kernel whose tables have their sizes; the clock interrupts the second task.\<close>

definition example_system :: kernelstate where
  "example_system = kbstate.extend
     (example_clock_state\<lparr>kheap := kernel_fresh_heap, kdisk := (kdisk example_clock_state)\<lparr>sector_size := 512\<rparr>,
        filesystems := replicate 12 None, file_descriptors := replicate 512 0, procs := Map.empty\<rparr>)
     (kernelstate.fields (replicate 6 (replicate 8 0)) \<lparr>tr_base = 0, tr_limit = 47\<rparr>
        \<lparr>tss_link = 0, esp0 = 0x600000, ss0 = 0x10, tss_rest = replicate 24 0\<rparr> 0x28)"

lemma example_system_facts:
  "well_typed example_system" "runs example_system [0x01010000, 0x01020000, 0x01030000] 1"
  by (simp_all add: example_system_def kbstate.extend_def kernelstate.fields_def runs_def task_ring_def example_clock_state_def
    example_task_def well_typed_def kernel_fresh_heap_def fresh_heap_def example_keyboard_state_def idtstate.extend_def
    kbstate.fields_def example_idt_state_def procstate.extend_def idtstate.fields_def classic_keyboard_def taskstate.extend_def
    procstate.fields_def)

lemma example_system_runs:
  obtains r s where "kernel_run (frame_registers (example_frame 0x400010), example_system) (r, s)"
    "interrupt_entry example_system 0x20 (example_frame 0x400010) = Inr (r, s)"
proof -
  obtain r s where s: "interrupt_entry example_system 0x20 (example_frame 0x400010) = Inr (r, s)"
    using clock_tick [OF example_system_facts(2)] by blast
  have "kernel_step (frame_registers (example_frame 0x400010), example_system) (Inr (r, s))"
    by (rule kernel_step.interrupt [OF refl _ _ _ _ s]) simp_all
  then show ?thesis using kernel_run.step [OF kernel_run.start] s that by blast
qed



end
