(* ===== verification/Mount.thy ===== *)
theory Mount
  imports FileOpen
begin

text \<open>
  Mounting a FAT16 volume: \<open>fat16_resolve\<close> on a drive that serves a FAT16 image finds it, reads its root directory and leaves the
  file system \<open>mounted\<close>, as the reads of Fat16Read and the opens of FileOpen ask.
\<close>

subsection \<open>Streams\<close>

text \<open>A new stream is at position 0 of the disk.\<close>

lemma streamer_new_grown:
  fixes s :: "'a diskstate_scheme"
  assumes "kheap_inv s" "0 < kavail s"
  obtains p h m where "disk_streamer_new s 0 = Inr (p, s\<lparr>kheap := h, mem := m,
      streams := (streams s)(p \<mapsto> \<lparr>st_pos = 0, st_disk = The_disk\<rparr>)\<rparr>)" "p \<noteq> 0" "hgrown (kheap s) (mem s) h m [p]"
proof -
  obtain p h m where "kzalloc s 8 = Inr (p, s\<lparr>kheap := h, mem := m\<rparr>)" "p \<noteq> 0" "hgrown (kheap s) (mem s) h m [p]"
    by (rule kzalloc_grown [OF assms, of 8]) (simp, simp, rule that)
  then show ?thesis by (intro that) (simp_all add: disk_streamer_new_def disk_get_def)
qed

lemma stream_open: "stream_pos s q \<noteq> None \<longleftrightarrow> map_option st_disk (streams s q) = Some The_disk"
  by (cases "streams s q") (simp_all add: stream_pos_def)

subsection \<open>The geometry of an image\<close>

definition image_header :: "(nat \<Rightarrow> u8) \<Rightarrow> fat_h" where
  "image_header img = fat_h_of_bytes (image_bytes img 0 62)"

text \<open>The first sector of the root directory, its size in bytes and the first sector behind it.\<close>

definition root_sector :: "fat_h \<Rightarrow> nat" where
  "root_sector h = unat (fat_copies (primary_header h)) * unat (sectors_per_fat (primary_header h)) +
     unat (reserved_sectors (primary_header h))"

definition root_size :: "fat_h \<Rightarrow> nat" where
  "root_size h = 32 * unat (root_dir_entries (primary_header h))"

definition root_end :: "fat_h \<Rightarrow> nat" where
  "root_end h = root_sector h + root_size h div 512 + (if root_size h mod 512 = 0 then 0 else 1)"

text \<open>The entries in use before the first one whose name starts with 0, which is entry \<open>n\<close>.\<close>

definition entry_mark :: "(nat \<Rightarrow> u8) \<Rightarrow> nat \<Rightarrow> nat \<Rightarrow> u8" where
  "entry_mark img pos i = img (pos + 32 * i)"

definition used_entries :: "(nat \<Rightarrow> u8) \<Rightarrow> nat \<Rightarrow> nat \<Rightarrow> nat" where
  "used_entries img pos n = length (filter (\<lambda>i. entry_mark img pos i \<noteq> 0xE5) [0..<n])"

subsection \<open>Counting the entries of a directory\<close>

lemma count_items_counts:
  fixes s :: "'a fatstate_scheme"
  assumes "drive_serves img s" "stream_pos s st = Some (int pos)" "pos + 32 * Suc n < 2147483648"
    and "\<forall>i < n. entry_mark img pos i \<noteq> 0" "entry_mark img pos n = 0"
  shows "\<exists>s'. count_items_loop s st k = Some (Inr (k + int (used_entries img pos n), s')) \<and> stream_moved s s'"
  using assms
proof (induction n arbitrary: s pos k)
  case 0
  obtain s' where s': "disk_streamer_read s st (int 32) = Inr (0, image_bytes img pos 32, s')" "stream_moved s s'"
    using ds.read_ok [OF 0(1,2), of 32] 0(3) by auto
  then show ?case
    using 0(5) by (subst count_items_loop.simps)
      (simp add: byte_at_def image_bytes_def entry_mark_def used_entries_def)
next
  case (Suc n)
  obtain s1 where s1: "disk_streamer_read s st (int 32) = Inr (0, image_bytes img pos 32, s1)" "stream_moved s s1"
      "stream_pos s1 st = Some (int (pos + 32))"
    using ds.read_ok [OF Suc.prems(1,2), of 32] Suc.prems(3) by auto
  have shift: "entry_mark img (pos + 32) i = entry_mark img pos (Suc i)" for i by (simp add: entry_mark_def algebra_simps)
  have d: "drive_serves img s1" using Suc.prems(1) ds.moved_drive [OF s1(2)] by simp
  define k' where "k' = (if entry_mark img pos 0 = 0xE5 then k else k + 1)"
  have used: "k' + int (used_entries img (pos + 32) n) = k + int (used_entries img pos (Suc n))"
    by (simp add: used_entries_def k'_def shift upt_conv_Cons map_Suc_upt [symmetric] filter_map comp_def del: upt_Suc)
  obtain s' where s': "count_items_loop s1 st k' = Some (Inr (k' + int (used_entries img (pos + 32) n), s'))" "stream_moved s1 s'"
    using Suc.IH [OF d s1(3), of k'] Suc.prems(3-5) by (auto simp: shift)
  have "byte_at (image_bytes img pos 32) 0 = entry_mark img pos 0" by (simp add: byte_at_def image_bytes_def entry_mark_def)
  then have "count_items_loop s st k = count_items_loop s1 st k'"
    using Suc.prems(4) s1(1) by (subst count_items_loop.simps) (auto simp: k'_def)
  then show ?case using s' used stream_moved_trans [OF s1(2) s'(2)] by auto
qed

lemma total_items_counts:
  fixes s :: "'a fatstate_scheme"
  assumes "drive_serves img s" "fat_privs s (fs_private (kdisk s)) = Some fp" "sector_size (kdisk s) = 512"
    and "stream_pos s (directory_stream fp) \<noteq> None" "512 * sec + 32 * Suc n < 2147483648"
    and "\<forall>i < n. entry_mark img (512 * sec) i \<noteq> 0" "entry_mark img (512 * sec) n = 0"
  shows "\<exists>s'. fat16_get_total_items_for_directory s (word_of_int (int sec)) =
      Inr (int (used_entries img (512 * sec) n), s') \<and> stream_moved s s'"
proof -
  have "sint (of_nat (512 * sec) :: u32) = int (512 * sec)" using assms(5) by (intro sint_nat_pos) simp
  then have pos: "sint (word_of_int (int sec) * 512 :: u32) = int (512 * sec)" by (simp add: mult.commute)
  obtain s1 where s1: "disk_streamer_seek s (directory_stream fp) (int (512 * sec)) = Inr (0, s1)"
      "stream_pos s1 (directory_stream fp) = Some (int (512 * sec))" "stream_moved s s1"
    using ds.seek_ok assms(4) by blast
  have "drive_serves img s1" using assms(1) ds.moved_drive [OF s1(3)] by simp
  then obtain s2 where s2: "count_items_loop s1 (directory_stream fp) 0 = Some (Inr (int (used_entries img (512 * sec) n), s2))"
      "stream_moved s1 s2"
    using count_items_counts [OF _ s1(2), of img n 0] assms(5-7) by auto
  have "fat16_get_total_items_for_directory s (word_of_int (int sec)) = Inr (int (used_entries img (512 * sec) n), s2)"
    using assms(2,3) s1(1) s2(1) pos by (simp add: fat16_get_total_items_for_directory_def)
  then show ?thesis using stream_moved_trans [OF s1(3) s2(2)] by blast
qed

subsection \<open>The root directory\<close>

definition root_dir :: "(nat \<Rightarrow> u8) \<Rightarrow> fat_h \<Rightarrow> nat \<Rightarrow> u32 \<Rightarrow> fat_directory" where
  "root_dir img h n dir = \<lparr>fd_item = dir, fd_total = int (used_entries img (512 * root_sector h) n),
     sector_pos = int (root_sector h), ending_sector_pos = int (root_end h)\<rparr>"

lemma root_sector_bound: "root_sector h < 16777216"
proof -
  have "unat (fat_copies (primary_header h)) \<le> 255" "unat (sectors_per_fat (primary_header h)) \<le> 65535"
      "unat (reserved_sectors (primary_header h)) \<le> 65535"
    using unsigned_less [of "fat_copies (primary_header h)", where 'a = nat]
      unsigned_less [of "sectors_per_fat (primary_header h)", where 'a = nat]
      unsigned_less [of "reserved_sectors (primary_header h)", where 'a = nat] by simp_all
  then have "unat (fat_copies (primary_header h)) * unat (sectors_per_fat (primary_header h)) \<le> 255 * 65535"
    by (intro mult_le_mono)
  then show ?thesis using \<open>unat (reserved_sectors (primary_header h)) \<le> 65535\<close> by (simp add: root_sector_def)
qed

lemma root_directory_read:
  fixes s :: "'a fatstate_scheme"
  assumes "kheap_inv s" "0 < kavail s" "drive_serves img s"
    and "fat_privs s p = Some fp" "fs_private (kdisk s) = p" "sector_size (kdisk s) = 512"
    and "stream_pos s (directory_stream fp) \<noteq> None" "header fp = h"
    and "0 < root_size h" "root_size h \<le> 4096" "512 * root_sector h + 32 * Suc n < 2147483648"
    and "512 * root_sector h + root_size h < 2147483648"
    and "\<forall>i < n. entry_mark img (512 * root_sector h) i \<noteq> 0" "entry_mark img (512 * root_sector h) n = 0"
  obtains dir hp m tr sm where "fat16_get_root_directory s p = Inr (0, s\<lparr>kheap := hp, mem := m, port_trace := tr, streams := sm,
      item_arrays := (item_arrays s)(dir \<mapsto> items_of_bytes (image_bytes img (512 * root_sector h) (root_size h))),
      fat_privs := (fat_privs s)(p \<mapsto> fp\<lparr>root_directory := root_dir img h n dir\<rparr>)\<rparr>)" "dir \<noteq> 0"
    "\<And>q. map_option st_disk (sm q) = map_option st_disk (streams s q)" "hgrown (kheap s) (mem s) hp m [dir]"
proof -
  let ?d = "directory_stream fp" and ?sec = "root_sector h" and ?sz = "root_size h"
  obtain s1 where s1: "fat16_get_total_items_for_directory s (word_of_int (int ?sec)) =
      Inr (int (used_entries img (512 * ?sec) n), s1)" "stream_moved s s1"
    using total_items_counts [of img s fp ?sec n] assms by blast
  obtain tr1 sm1 where e1: "s1 = s\<lparr>port_trace := tr1, streams := sm1\<rparr>"
      "\<And>q. map_option st_disk (sm1 q) = map_option st_disk (streams s q)" using s1(2) by (rule stream_movedE) blast
  have sz: "unat (of_nat ?sz :: u32) = ?sz" using assms(10) by (intro unat_of_nat_u32) simp
  have "kheap_inv s1" "0 < kavail s1" using assms(1,2) e1 by simp_all
  then obtain dir hp m where k: "kzalloc s1 (of_nat ?sz) = Inr (dir, s1\<lparr>kheap := hp, mem := m\<rparr>)" "dir \<noteq> 0"
      "hgrown (kheap s1) (mem s1) hp m [dir]"
    by (rule kzalloc_grown [where sz = "of_nat ?sz"]) (use assms(9,10) sz in simp, use assms(10) sz in simp, rule that)
  define s2 where "s2 = s1\<lparr>kheap := hp, mem := m, item_arrays := (item_arrays s1)(dir \<mapsto> [])\<rparr>"
  have "drive_serves img s2" "stream_pos s2 ?d \<noteq> None"
    using assms(3,7) ds.moved_drive [OF s1(2), of img] ds.moved_streams [OF s1(2), of ?d]
    by (simp_all add: s2_def drive_serves_def stream_pos_def)
  then obtain s3 s4 where s34: "disk_streamer_seek s2 ?d (int (512 * ?sec)) = Inr (0, s3)"
      "disk_streamer_read s3 ?d (int ?sz) = Inr (0, image_bytes img (512 * ?sec) ?sz, s4)" "stream_moved s2 s4"
    using ds.seek_read [of img s2 ?d "512 * ?sec" ?sz] assms(12) by blast
  obtain tr sm where e4: "s4 = s2\<lparr>port_trace := tr, streams := sm\<rparr>"
      "\<And>q. map_option st_disk (sm q) = map_option st_disk (streams s2 q)" using s34(3) by (rule stream_movedE) blast
  have sec: "uint (fat_copies (primary_header h)) * uint (sectors_per_fat (primary_header h)) +
      uint (reserved_sectors (primary_header h)) = int ?sec"
    by (simp add: root_sector_def)
  have size: "uint (root_dir_entries (primary_header h)) * 32 = int ?sz" by (simp add: root_size_def)
  have ends: "int ?sec + (if int ?sz smod 512 \<noteq> 0 then int ?sz sdiv 512 + 1 else int ?sz sdiv 512) = int (root_end h)"
    using sdiv_nat [of ?sz 512] by (simp add: root_end_def)
  show thesis
  proof (rule that [where dir = dir and hp = hp and m = m and tr = tr and sm = sm])
    show "map_option st_disk (sm q) = map_option st_disk (streams s q)" for q using e4(2) e1(2) by (simp add: s2_def e1(1))
    show "hgrown (kheap s) (mem s) hp m [dir]" using k(3) by (simp add: e1(1))
    show "fat16_get_root_directory s p = Inr (0, s\<lparr>kheap := hp, mem := m, port_trace := tr, streams := sm,
      item_arrays := (item_arrays s)(dir \<mapsto> items_of_bytes (image_bytes img (512 * ?sec) ?sz)),
      fat_privs := (fat_privs s)(p \<mapsto> fp\<lparr>root_directory := root_dir img h n dir\<rparr>)\<rparr>)"
    proof -
      have w: "word_of_int (int ?sz) = (of_nat ?sz :: u32)" by simp
      have u: "s1\<lparr>kheap := hp, mem := m\<rparr>\<lparr>item_arrays := (item_arrays (s1\<lparr>kheap := hp, mem := m\<rparr>))(dir \<mapsto> [])\<rparr> = s2"
        by (simp add: s2_def)
      have ss: "sector_size (kdisk s2) = 512" using assms(6) by (simp add: s2_def e1(1))
      have seek: "disk_streamer_seek s2 ?d (int ?sec * 512) = Inr (0, s3)" using s34(1) by (simp add: mult.commute)
      have get: "obj_get (fat_privs s) p = Inr fp" using assms(4) by simp
      have "fat16_get_root_directory s p = Inr (0, s4\<lparr>item_arrays := (item_arrays s4)(dir \<mapsto>
          items_of_bytes (image_bytes img (512 * ?sec) ?sz)), fat_privs := (fat_privs s4)(p \<mapsto> fp\<lparr>root_directory := root_dir img h n dir\<rparr>)\<rparr>)"
        unfolding fat16_get_root_directory_def get bind_res.simps Let_def assms(8) sec size assms(6) s1(1) prod.case w k(1) u ends
          fat16_sector_to_absolute_def ss
        using seek s34(2) k(2) assms(4) ends by (simp add: root_dir_def)
      then show ?thesis by (simp add: e4(1) s2_def e1(1))
    qed
  qed (rule k(2))
qed

subsection \<open>Resolving\<close>

abbreviation disk_stream_at_0 :: disk_stream where
  "disk_stream_at_0 \<equiv> \<lparr>st_pos = 0, st_disk = The_disk\<rparr>"

definition new_private :: "u32 \<Rightarrow> u32 \<Rightarrow> u32 \<Rightarrow> fat_private" where
  "new_private a b c = \<lparr>header = fat_h_of_bytes [], root_directory = \<lparr>fd_item = 0, fd_total = 0, sector_pos = 0, ending_sector_pos = 0\<rparr>,
     cluster_read_stream = a, fat_read_stream = b, directory_stream = c\<rparr>"

lemma init_private_streams:
  fixes s :: "'a fatstate_scheme"
  assumes "kheap_inv s" "3 \<le> kavail s" "dk_id (kdisk s) = 0" "p \<noteq> 0"
  obtains a b c hp m where "fat16_init_private s p = Inr (s\<lparr>kheap := hp, mem := m,
      streams := (streams s)(a \<mapsto> disk_stream_at_0, b \<mapsto> disk_stream_at_0, c \<mapsto> disk_stream_at_0),
      fat_privs := (fat_privs s)(p \<mapsto> new_private a b c)\<rparr>)" "hgrown (kheap s) (mem s) hp m [a, b, c]"
proof -
  define s0 where "s0 = s\<lparr>fat_privs := (fat_privs s)(p \<mapsto> new_private 0 0 0)\<rparr>"
  have "kheap_inv s0" "0 < kavail s0" using assms(1,2) by (simp_all add: s0_def)
  then obtain a h1 m1 where a: "disk_streamer_new s0 0 = Inr (a, s0\<lparr>kheap := h1, mem := m1,
      streams := (streams s0)(a \<mapsto> disk_stream_at_0)\<rparr>)" "hgrown (kheap s0) (mem s0) h1 m1 [a]"
    by (rule streamer_new_grown)
  define s1 where "s1 = s0\<lparr>kheap := h1, mem := m1, streams := (streams s0)(a \<mapsto> disk_stream_at_0)\<rparr>"
  have "kheap_inv s1" "0 < kavail s1" using hgrownD(1,5) [OF a(2)] assms(2) by (simp_all add: s1_def s0_def)
  then obtain b h2 m2 where b: "disk_streamer_new s1 0 = Inr (b, s1\<lparr>kheap := h2, mem := m2,
      streams := (streams s1)(b \<mapsto> disk_stream_at_0)\<rparr>)" "hgrown (kheap s1) (mem s1) h2 m2 [b]"
    by (rule streamer_new_grown)
  define s2 where "s2 = s1\<lparr>kheap := h2, mem := m2, streams := (streams s1)(b \<mapsto> disk_stream_at_0)\<rparr>"
  have "kheap_inv s2" "0 < kavail s2"
    using hgrownD(1,5) [OF a(2)] hgrownD(1,5) [OF b(2)] assms(2) by (simp_all add: s2_def s1_def s0_def)
  then obtain c h3 m3 where c: "disk_streamer_new s2 0 = Inr (c, s2\<lparr>kheap := h3, mem := m3,
      streams := (streams s2)(c \<mapsto> disk_stream_at_0)\<rparr>)" "hgrown (kheap s2) (mem s2) h3 m3 [c]"
    by (rule streamer_new_grown)
  have "hgrown (kheap s) (mem s) h3 m3 (([a] @ [b]) @ [c])"
    using a(2) b(2) c(2) by (intro hgrown_trans) (simp_all add: s2_def s1_def s0_def)
  moreover have "fat16_init_private s p = Inr (s\<lparr>kheap := h3, mem := m3,
      streams := (streams s)(a \<mapsto> disk_stream_at_0, b \<mapsto> disk_stream_at_0, c \<mapsto> disk_stream_at_0),
      fat_privs := (fat_privs s)(p \<mapsto> new_private a b c)\<rparr>)"
    unfolding fat16_init_private_def Let_def assms(3) new_private_def [of 0 0 0, symmetric] s0_def [symmetric] a(1) bind_res.simps
      prod.case s1_def [symmetric] b(1) s2_def [symmetric] c(1)
    using assms(4) by (simp add: s2_def s1_def s0_def new_private_def)
  ultimately show ?thesis using that by simp
qed

text \<open>An image of a FAT16 volume the kernel can mount: the extended boot signature, a cluster size, a root directory of at most a page
  with \<open>n\<close> entries before the end mark, all within the positions of an \<open>int\<close>.\<close>

definition fat16_volume :: "(nat \<Rightarrow> u8) \<Rightarrow> nat \<Rightarrow> bool" where
  "fat16_volume img n \<longleftrightarrow>
     (let h = image_header img in
        signature (extended_header h) = 0x29 \<and> sectors_per_cluster (primary_header h) \<noteq> 0 \<and>
        0 < root_size h \<and> root_size h \<le> 4096 \<and> 512 * root_sector h + 32 * Suc n < 2147483648 \<and>
        512 * root_sector h + root_size h < 2147483648 \<and>
        (\<forall>i < n. entry_mark img (512 * root_sector h) i \<noteq> 0) \<and> entry_mark img (512 * root_sector h) n = 0)"

lemma fat16_resolve_mounts:
  fixes s :: "'a fatstate_scheme"
  assumes "kheap_inv s" "6 \<le> kavail s" "drive_serves img s" "dk_id (kdisk s) = 0" "sector_size (kdisk s) = 512" "fat16_volume img n"
  obtains p fp dir hp m tr sm fpr ia ps where
    "fat16_resolve s = Inr (0, s\<lparr>kheap := hp, mem := m, port_trace := tr,
       kdisk := (kdisk s)\<lparr>fs_private := p, dk_filesystem := Some Fat16_fs\<rparr>, streams := sm, fat_privs := fpr, item_arrays := ia\<rparr>)"
    "mounted img fp (s\<lparr>kdisk := (kdisk s)\<lparr>fs_private := p, dk_filesystem := Some Fat16_fs\<rparr>, streams := sm, fat_privs := fpr\<rparr>)"
    "header fp = image_header img" "root_directory fp = root_dir img (image_header img) n dir"
    "ia dir = Some (items_of_bytes (image_bytes img (512 * root_sector (image_header img)) (root_size (image_header img))))"
    "hgrown (kheap s) (mem s) hp m ps" "length ps = 5" "dir \<in> set ps"
proof -
  let ?h = "image_header img"
  have vol: "signature (extended_header ?h) = 0x29" "sectors_per_cluster (primary_header ?h) \<noteq> 0" "0 < root_size ?h"
    "root_size ?h \<le> 4096" "512 * root_sector ?h + 32 * Suc n < 2147483648" "512 * root_sector ?h + root_size ?h < 2147483648"
    "\<forall>i < n. entry_mark img (512 * root_sector ?h) i \<noteq> 0" "entry_mark img (512 * root_sector ?h) n = 0"
    using assms(6) unfolding fat16_volume_def Let_def by blast+
  have av: "0 < kavail s" using assms(2) by simp
  obtain p h0 m0 where k0: "kzalloc s 92 = Inr (p, s\<lparr>kheap := h0, mem := m0\<rparr>)" "p \<noteq> 0" "hgrown (kheap s) (mem s) h0 m0 [p]"
    by (rule kzalloc_grown [OF assms(1) av, of 92]) (simp, simp, rule that)
  define s0 where "s0 = s\<lparr>kheap := h0, mem := m0\<rparr>"
  have "kheap_inv s0" "3 \<le> kavail s0" "dk_id (kdisk s0) = 0"
    using hgrownD(1,5) [OF k0(3)] assms(2,4) by (simp_all add: s0_def)
  then obtain a b c h1 m1 where k1: "fat16_init_private s0 p = Inr (s0\<lparr>kheap := h1, mem := m1,
      streams := (streams s0)(a \<mapsto> disk_stream_at_0, b \<mapsto> disk_stream_at_0, c \<mapsto> disk_stream_at_0),
      fat_privs := (fat_privs s0)(p \<mapsto> new_private a b c)\<rparr>)" "hgrown (kheap s0) (mem s0) h1 m1 [a, b, c]"
    by (rule init_private_streams [OF _ _ _ k0(2)])
  define s1 where "s1 = s0\<lparr>kheap := h1, mem := m1,
      streams := (streams s0)(a \<mapsto> disk_stream_at_0, b \<mapsto> disk_stream_at_0, c \<mapsto> disk_stream_at_0),
      fat_privs := (fat_privs s0)(p \<mapsto> new_private a b c)\<rparr>"
  define s2 where "s2 = s1\<lparr>kdisk := (kdisk s1)\<lparr>fs_private := p, dk_filesystem := Some Fat16_fs\<rparr>\<rparr>"
  have "kheap_inv s2" "0 < kavail s2"
    using hgrownD(1,5) [OF k0(3)] hgrownD(1,5) [OF k1(2)] assms(2) by (simp_all add: s2_def s1_def s0_def)
  then obtain st h3 m3 where k3: "disk_streamer_new s2 0 = Inr (st, s2\<lparr>kheap := h3, mem := m3,
      streams := (streams s2)(st \<mapsto> disk_stream_at_0)\<rparr>)" "st \<noteq> 0" "hgrown (kheap s2) (mem s2) h3 m3 [st]"
    by (rule streamer_new_grown)
  define s3 where "s3 = s2\<lparr>kheap := h3, mem := m3, streams := (streams s2)(st \<mapsto> disk_stream_at_0)\<rparr>"
  have g3: "hgrown (kheap s) (mem s) h3 m3 (([p] @ [a, b, c]) @ [st])"
    using k0(3) k1(2) k3(3) by (intro hgrown_trans) (simp_all add: s2_def s1_def s0_def)
  have dist: "a \<noteq> st" "b \<noteq> st" "c \<noteq> st" "b \<noteq> 0" using hgrownD(2,3) [OF g3] by auto
  have serve: "drive_serves img s3" using assms(3) by (simp add: s3_def s2_def s1_def s0_def drive_serves_def)
  have "stream_pos s3 st = Some (int 0)" by (simp add: s3_def stream_pos_def)
  then obtain s4 where s4: "disk_streamer_read s3 st (int 62) = Inr (0, image_bytes img 0 62, s4)" "stream_moved s3 s4"
    using ds.read_ok [OF serve, of st 0 62] by auto
  obtain tr4 sm4 where e4: "s4 = s3\<lparr>port_trace := tr4, streams := sm4\<rparr>"
      "\<And>q. map_option st_disk (sm4 q) = map_option st_disk (streams s3 q)" using s4(2) by (rule stream_movedE) blast
  define fp1 where "fp1 = (new_private a b c)\<lparr>header := ?h\<rparr>"
  define s5 where "s5 = s4\<lparr>fat_privs := (fat_privs s4)(p \<mapsto> fp1)\<rparr>"
  have live5: "map_option st_disk (streams s5 q) = Some The_disk" if "q \<in> {a, b, c, st}" for q
    using that e4(2) [of q] by (auto simp: s5_def e4(1) s3_def s2_def s1_def)
  have "kheap_inv s5" "0 < kavail s5" "drive_serves img s5" "fat_privs s5 p = Some fp1" "fs_private (kdisk s5) = p"
    "sector_size (kdisk s5) = 512"
    using hgrownD(1,5) [OF g3] assms(2,5) serve
    by (simp_all add: s5_def e4(1) s3_def s2_def s1_def s0_def drive_serves_def)
  moreover have "stream_pos s5 (directory_stream fp1) \<noteq> None"
    unfolding stream_open using live5 [of c] by (simp add: fp1_def new_private_def)
  moreover have "header fp1 = ?h" by (simp add: fp1_def)
  ultimately obtain dir h6 m6 tr6 sm6 where r: "fat16_get_root_directory s5 p = Inr (0, s5\<lparr>kheap := h6, mem := m6, port_trace := tr6,
      streams := sm6, item_arrays := (item_arrays s5)(dir \<mapsto> items_of_bytes (image_bytes img (512 * root_sector ?h) (root_size ?h))),
      fat_privs := (fat_privs s5)(p \<mapsto> fp1\<lparr>root_directory := root_dir img ?h n dir\<rparr>)\<rparr>)" "dir \<noteq> 0"
      "\<And>q. map_option st_disk (sm6 q) = map_option st_disk (streams s5 q)" "hgrown (kheap s5) (mem s5) h6 m6 [dir]"
    by (rule root_directory_read [OF _ _ _ _ _ _ _ _ vol(3-8)]) (rule that)
  define fp where "fp = fp1\<lparr>root_directory := root_dir img ?h n dir\<rparr>"
  define s6 where "s6 = s5\<lparr>kheap := h6, mem := m6, port_trace := tr6, streams := sm6,
      item_arrays := (item_arrays s5)(dir \<mapsto> items_of_bytes (image_bytes img (512 * root_sector ?h) (root_size ?h))),
      fat_privs := (fat_privs s5)(p \<mapsto> fp)\<rparr>"
  have "hgrown (kheap s) (mem s) h6 m6 ((([p] @ [a, b, c]) @ [st]) @ [dir])"
    by (rule hgrown_trans [OF g3]) (use r(4) in \<open>simp add: s5_def e4(1) s3_def\<close>)
  then have "hgrown (kheap s) (mem s) (kheap s6) (mem s6) ([p, a, b, c] @ st # [dir])" by (simp add: s6_def)
  then obtain h7 where k7: "kfree s6 st = Inr (s6\<lparr>kheap := h7\<rparr>)" "hgrown (kheap s) (mem s) h7 (mem s6) ([p, a, b, c] @ [dir])"
    by (rule kfree_grown)
  define sm where "sm = sm6(st := None)"
  have close: "disk_streamer_close s6 st = Inr (s6\<lparr>kheap := h7, streams := sm\<rparr>)"
    using k7(1) by (simp add: disk_streamer_close_def sm_def s6_def)
  show thesis
  proof (rule that [where p = p and fp = fp and dir = dir and hp = h7 and m = m6 and tr = tr6 and sm = sm and
      fpr = "(fat_privs s)(p \<mapsto> fp)" and ps = "[p, a, b, c, dir]" and
      ia = "(item_arrays s)(dir \<mapsto> items_of_bytes (image_bytes img (512 * root_sector ?h) (root_size ?h)))"])
    show "hgrown (kheap s) (mem s) h7 m6 [p, a, b, c, dir]" using k7(2) by (simp add: s6_def)
    show "header fp = ?h" "root_directory fp = root_dir img ?h n dir" by (simp_all add: fp_def fp1_def)
    have csz: "0 < unat (sectors_per_cluster (primary_header ?h))" using vol(2) by (simp add: unat_gt_0)
    have "map_option st_disk (sm q) = Some The_disk" if "q \<in> {a, b, c}" for q
      using that live5 [of q] r(3) [of q] dist by (auto simp: sm_def)
    then show "mounted img fp (s\<lparr>kdisk := (kdisk s)\<lparr>fs_private := p, dk_filesystem := Some Fat16_fs\<rparr>, streams := sm,
        fat_privs := (fat_privs s)(p \<mapsto> fp)\<rparr>)"
      using assms(3,5) csz dist(4)
      unfolding mounted_def stream_open
      by (simp add: drive_serves_def fp_def fp1_def new_private_def root_dir_def cluster_size_def)
    show "fat16_resolve s = Inr (0, s\<lparr>kheap := h7, mem := m6, port_trace := tr6,
       kdisk := (kdisk s)\<lparr>fs_private := p, dk_filesystem := Some Fat16_fs\<rparr>, streams := sm, fat_privs := (fat_privs s)(p \<mapsto> fp),
       item_arrays := (item_arrays s)(dir \<mapsto> items_of_bytes (image_bytes img (512 * root_sector ?h) (root_size ?h)))\<rparr>)"
    proof -
      have id: "dk_id (kdisk s) = 0" "dk_id (kdisk s2) = 0" using assms(4) by (simp_all add: s2_def s1_def s0_def)
      have u2: "s1\<lparr>kdisk := (kdisk s1)\<lparr>fs_private := p, dk_filesystem := Some Fat16_fs\<rparr>\<rparr> = s2" by (simp add: s2_def)
      have h: "fat_h_of_bytes (image_bytes img 0 62) = ?h" by (simp add: image_header_def)
      have get: "obj_get (fat_privs s4) p = Inr (new_private a b c)"
        by (simp add: e4(1) s3_def s2_def s1_def)
      have u5: "s4\<lparr>fat_privs := (fat_privs s4)(p \<mapsto> (new_private a b c)\<lparr>header := ?h\<rparr>)\<rparr> = s5" by (simp add: s5_def fp1_def)
      have rd: "disk_streamer_read s3 st 62 = Inr (0, image_bytes img 0 62, s4)" using s4(1) by simp
      have "fat16_resolve s = Inr (0, s6\<lparr>kheap := h7, streams := sm\<rparr>)"
        unfolding fat16_resolve_def k0(1) bind_res.simps prod.case s0_def [symmetric] k1(1) s1_def [symmetric] Let_def u2 id k3(1)
          s3_def [symmetric] rd get h u5 vol(1) r(1) fp_def [symmetric] s6_def [symmetric]
        using k3(2) close by simp
      then show ?thesis by (simp add: s6_def s5_def e4(1) s3_def s2_def s1_def s0_def)
    qed
  qed simp_all
qed

end
