(* ===== verification/Boot.thy ===== *)
theory Boot
  imports System Mount
begin

text \<open>
  Booting succeeds: on a machine whose drive serves a FAT16 volume, \<open>kernel_init\<close> returns, with every table set up, the
  volume mounted and paging on under an identity map.
\<close>

subsection \<open>The steps of kernel_init\<close>

lemma fs_init_registers:
  assumes "length (fs_name s) = 20"
  obtains n where "fs_init s = Inr (s\<lparr>file_descriptors := replicate 512 0, fs_name := n,
    filesystems := Some Fat16_fs # replicate 11 None\<rparr>)"
proof -
  obtain n where n: "strcpy (fs_name s) 0 (c_literal ''FAT16'') = Inr n"
    using strcpy_fits [of "c_literal ''FAT16''" 0 "fs_name s"] assms by (auto simp: c_literal_def)
  have "replicate 12 None = None # replicate 11 (None :: filesystem option)" by (simp add: numeral_eq_Suc)
  then have "fs_init s = Inr (s\<lparr>file_descriptors := replicate 512 0, fs_name := n, filesystems := Some Fat16_fs # replicate 11 None\<rparr>)"
    using n by (simp add: fs_init_def fs_load_def fs_static_load_def fat16_init_def fs_insert_filesystem_def fs_get_free_filesystem_def)
  then show ?thesis by (rule that)
qed

text \<open>The disk as \<open>disk_search_and_init\<close> sets it up before and after the file system is found.\<close>

abbreviation boot_disk :: disk where
  "boot_disk \<equiv> \<lparr>dk_type = 0, sector_size = 512, dk_id = 0, dk_filesystem = None, fs_private = 0\<rparr>"

lemma disk_search_mounts:
  fixes s :: "'a filestate_scheme"
  assumes "kheap_inv s" "6 \<le> kavail s" "drive_serves img s" "fat16_volume img n"
    and "filesystems s = Some Fat16_fs # replicate 11 None"
  obtains p fp dir hp m tr sm fpr ia ps where
    "disk_search_and_init s = Inr (s\<lparr>kheap := hp, mem := m, port_trace := tr,
       kdisk := boot_disk\<lparr>fs_private := p, dk_filesystem := Some Fat16_fs\<rparr>, streams := sm, fat_privs := fpr, item_arrays := ia\<rparr>)"
    "mounted img fp (s\<lparr>kdisk := boot_disk\<lparr>fs_private := p, dk_filesystem := Some Fat16_fs\<rparr>, streams := sm, fat_privs := fpr\<rparr>)"
    "header fp = image_header img" "root_directory fp = root_dir img (image_header img) n dir"
    "ia dir = Some (items_of_bytes (image_bytes img (512 * root_sector (image_header img)) (root_size (image_header img))))"
    "hgrown (kheap s) (mem s) hp m ps" "length ps = 5" "dir \<in> set ps"
proof -
  define s1 where "s1 = s\<lparr>kdisk := boot_disk\<rparr>"
  have pre: "kheap_inv s1" "6 \<le> kavail s1" "drive_serves img s1" "dk_id (kdisk s1) = 0" "sector_size (kdisk s1) = 512"
    using assms(1-3) by (simp_all add: s1_def drive_serves_def)
  obtain p fp dir hp m tr sm fpr ia ps where r:
    "fat16_resolve s1 = Inr (0, s1\<lparr>kheap := hp, mem := m, port_trace := tr,
       kdisk := (kdisk s1)\<lparr>fs_private := p, dk_filesystem := Some Fat16_fs\<rparr>, streams := sm, fat_privs := fpr, item_arrays := ia\<rparr>)"
    "mounted img fp (s1\<lparr>kdisk := (kdisk s1)\<lparr>fs_private := p, dk_filesystem := Some Fat16_fs\<rparr>, streams := sm, fat_privs := fpr\<rparr>)"
    "header fp = image_header img" "root_directory fp = root_dir img (image_header img) n dir"
    "ia dir = Some (items_of_bytes (image_bytes img (512 * root_sector (image_header img)) (root_size (image_header img))))"
    "hgrown (kheap s1) (mem s1) hp m ps" "length ps = 5" "dir \<in> set ps"
    by (rule fat16_resolve_mounts [OF pre assms(4)]) (rule that)
  have "fs_resolve_loop s1 0 (Suc 11) = Inr (Some Fat16_fs, s1\<lparr>kheap := hp, mem := m, port_trace := tr,
       kdisk := (kdisk s1)\<lparr>fs_private := p, dk_filesystem := Some Fat16_fs\<rparr>, streams := sm, fat_privs := fpr, item_arrays := ia\<rparr>)"
    unfolding fs_resolve_loop.simps using r(1) assms(5) by (simp add: list_get_def fs_resolve_fn_def s1_def)
  then have "disk_search_and_init s = Inr (s\<lparr>kheap := hp, mem := m, port_trace := tr,
       kdisk := boot_disk\<lparr>fs_private := p, dk_filesystem := Some Fat16_fs\<rparr>, streams := sm, fat_privs := fpr, item_arrays := ia\<rparr>)"
    by (simp add: disk_search_and_init_def fs_resolve_def s1_def [symmetric]) (simp add: s1_def)
  then show ?thesis
    by (rule that [where p = p and fp = fp and dir = dir and hp = hp and m = m and tr = tr and sm = sm and fpr = fpr and ia = ia
          and ps = ps]) (use r(2-8) in \<open>simp_all add: s1_def\<close>)
qed

lemma keyboard_init_run:
  assumes "keyboards s Classic_keyboard = classic_keyboard" "keyboard_list_last s = None" "length (interrupt_callbacks s) = 512"
  shows "keyboard_init s = Inr (s\<lparr>port_trace := Out_b 0x64 0xAE # port_trace s,
    interrupt_callbacks := (interrupt_callbacks s)[0x21 := Some Classic_keyboard_handle_interrupt],
    keyboards := (keyboards s)(Classic_keyboard := classic_keyboard\<lparr>capslock_state := 1\<rparr>),
    keyboard_list_head := Some Classic_keyboard, keyboard_list_last := Some Classic_keyboard\<rparr>)"
  using assms by (simp add: keyboard_init_def keyboard_insert_def classic_init_def classic_keyboard_def classic_keyboard_init_def
    idt_register_interrupt_callback_def list_set_def keyboard_set_capslock_def outb_def)

subsection \<open>kernel_init\<close>

text \<open>The files of the root directory of an image: the entry the search for \<open>name\<close> finds.\<close>

definition image_file :: "(nat \<Rightarrow> u8) \<Rightarrow> nat \<Rightarrow> u8 list \<Rightarrow> fat_directory_item \<Rightarrow> bool" where
  "image_file img n name item \<longleftrightarrow>
     (let h = image_header img; items = items_of_bytes (image_bytes img (512 * root_sector h) (root_size h));
          total = used_entries img (512 * root_sector h) n
      in total \<le> length items \<and> (\<exists>k. first_match items total (name @ [0]) = Some k \<and> items ! k = item) \<and>
         attribute item AND FAT_FILE_SUBDIRECTORY = 0)"

lemma root_holds_image_file:
  assumes "image_file img n name item" "root_directory fp = root_dir img (image_header img) n dir"
    and "item_arrays s dir = Some (items_of_bytes (image_bytes img (512 * root_sector (image_header img)) (root_size (image_header img))))"
  shows "root_holds s fp name item"
  using assms items_of_bytes_ok unfolding root_holds_def image_file_def Let_def by (auto simp: root_dir_def)


text \<open>The machine \<open>kernel_init\<close> leaves for the first process.\<close>

definition booted :: "(nat \<Rightarrow> u8) \<Rightarrow> nat \<Rightarrow> layout \<Rightarrow> 'a kernelstate_scheme \<Rightarrow> bool" where
  "booted img n l s \<longleftrightarrow>
     kheap_inv s \<and> kavail s = 24569 \<and> card (live_set (kheap s)) = 1031 \<and>
     map gdt_base (gdt_real s) = [0, 0, 0, 0, 0, tss_address l] \<and> gdtr s = \<lparr>tr_base = gdt_real_address l, tr_limit = 47\<rparr> \<and>
     task_register s = 0x28 \<and> esp0 (kernel_tss s) = 0x600000 \<and>
     (\<forall>i < 512. idtr_descriptors s ! i =
        kernel_gate (if i = 0 then idt_zero_address l else if i = 0x80 then isr80h_wrapper_address l else interrupt_pointer_table l ! i)) \<and>
     idtr s = \<lparr>idtr_limit = 4095, idtr_base = idtr_descriptors_address l\<rparr> \<and>
     interrupt_callbacks s = callbacks_at_boot[0x21 := Some Classic_keyboard_handle_interrupt] \<and>
     isr80h_commands s = map Some kernel_commands @ replicate 1014 None \<and>
     bit (cr0 s) 31 \<and> cr3 s = load32 (mem s) (kernel_chunk s) \<and> current_directory s = cr3 s \<and>
     (\<forall>v. paging_get_physical_address (mem s) (cr3 s) v = v) \<and>
     dk_filesystem (kdisk s) = Some Fat16_fs \<and> file_descriptors s = replicate 512 0 \<and>
     processes s = replicate 12 0 \<and> task_head s = 0 \<and>
     terminal_row s = 0 \<and> terminal_col s = 0 \<and> (\<forall>i. 0 \<le> i \<and> i < 1600 \<longrightarrow> video_mem s i = terminal_make_char 32 0) \<and>
     (\<exists>fp dir. mounted img fp s \<and> header fp = image_header img \<and> root_directory fp = root_dir img (image_header img) n dir \<and>
        klive s dir 1 \<and> (\<forall>name item. image_file img n name item \<longrightarrow> root_holds s fp name item))"

lemma length_callbacks_at_boot: "length callbacks_at_boot = 512"
  by (simp only: callbacks_at_boot_def length_map length_upt)

lemma kernel_init_booted:
  fixes s :: "'a kernelstate_scheme"
  assumes "static_objects s" "drive_serves img s" "fat16_volume img n" "length (interrupt_pointer_table l) = 512"
  obtains s' where "kernel_init s l = Inr s'" "booted img n l s'"
proof -
  note v = terminal_initialize_cells [of s]
  define s1 where "s1 = s\<lparr>terminal_row := 0, terminal_col := 0,
      video_mem := (\<lambda>i. if 0 \<le> i \<and> i < 1600 then terminal_make_char 32 0 else video_mem s i)\<rparr>"
  obtain g where g: "gdt_structured_to_gdt (replicate 6 (replicate 8 0)) (gdt_structured_table (tss_address l)) 0 6 = Inr g"
      "map gdt_base g = [0, 0, 0, 0, 0, tss_address l]"
    using kernel_gdt_segments [of "tss_address l"] by (elim exE conjE) (rule that)
  define s2 where "s2 = s1\<lparr>gdt_real := g, gdtr := \<lparr>tr_base = gdt_real_address l, tr_limit = 47\<rparr>\<rparr>"
  define s3 where "s3 = s2\<lparr>kheap := kernel_fresh_heap\<rparr>"
  have "length (fs_name s3) = 20" using assms(1) by (simp add: s3_def s2_def s1_def static_objects_def)
  then obtain nm where nm: "fs_init s3 = Inr (s3\<lparr>file_descriptors := replicate 512 0, fs_name := nm,
      filesystems := Some Fat16_fs # replicate 11 None\<rparr>)" by (rule fs_init_registers)
  define s4 where "s4 = s3\<lparr>file_descriptors := replicate 512 0, fs_name := nm, filesystems := Some Fat16_fs # replicate 11 None\<rparr>"
  have "kheap_inv s4" "6 \<le> kavail s4" "drive_serves img s4" "filesystems s4 = Some Fat16_fs # replicate 11 None"
    using assms(2) kernel_fresh_heap_facts(1,3) by (simp_all add: s4_def s3_def s2_def s1_def drive_serves_def)
  then obtain p fp dir hp m tr sm fpr ia ps where d:
    "disk_search_and_init s4 = Inr (s4\<lparr>kheap := hp, mem := m, port_trace := tr,
       kdisk := boot_disk\<lparr>fs_private := p, dk_filesystem := Some Fat16_fs\<rparr>, streams := sm, fat_privs := fpr, item_arrays := ia\<rparr>)"
    "mounted img fp (s4\<lparr>kdisk := boot_disk\<lparr>fs_private := p, dk_filesystem := Some Fat16_fs\<rparr>, streams := sm, fat_privs := fpr\<rparr>)"
    "header fp = image_header img" "root_directory fp = root_dir img (image_header img) n dir"
    "ia dir = Some (items_of_bytes (image_bytes img (512 * root_sector (image_header img)) (root_size (image_header img))))"
    "hgrown (kheap s4) (mem s4) hp m ps" "length ps = 5" "dir \<in> set ps"
    by (rule disk_search_mounts [OF _ _ _ assms(3)]) (rule that)
  define s5 where "s5 = s4\<lparr>kheap := hp, mem := m, port_trace := tr,
       kdisk := boot_disk\<lparr>fs_private := p, dk_filesystem := Some Fat16_fs\<rparr>, streams := sm, fat_privs := fpr, item_arrays := ia\<rparr>"
  have "length (idtr_descriptors s5) = 512" "interrupt_callbacks s5 = replicate 512 None"
    using assms(1) by (simp_all add: s5_def s4_def s3_def s2_def s1_def static_objects_def)
  then obtain ds where i: "idt_init s5 (idtr_descriptors_address l) (interrupt_pointer_table l) (idt_zero_address l)
       (isr80h_wrapper_address l) = Inr (s5\<lparr>idtr_descriptors := ds,
      idtr_descriptor := \<lparr>idtr_limit = 4095, idtr_base = idtr_descriptors_address l\<rparr>,
      idtr := \<lparr>idtr_limit = 4095, idtr_base = idtr_descriptors_address l\<rparr>, interrupt_callbacks := callbacks_at_boot\<rparr>)"
    "\<And>i. i < 512 \<Longrightarrow> ds ! i = kernel_gate (if i = 0 then idt_zero_address l else if i = 0x80 then isr80h_wrapper_address l
       else interrupt_pointer_table l ! i)"
    by (rule idt_init_run [OF _ _ assms(4)]) (rule that)
  define s6 where "s6 = tss_load (s5\<lparr>idtr_descriptors := ds,
      idtr_descriptor := \<lparr>idtr_limit = 4095, idtr_base = idtr_descriptors_address l\<rparr>,
      idtr := \<lparr>idtr_limit = 4095, idtr_base = idtr_descriptors_address l\<rparr>, interrupt_callbacks := callbacks_at_boot\<rparr>
      \<lparr>kernel_tss := \<lparr>tss_link = 0, esp0 = 0x600000, ss0 = 0x10, tss_rest = replicate 24 0\<rparr>\<rparr>) 0x28"
  have h6: "kheap_inv s6" "kavail s6 = 25595" "card (live_set (kheap s6)) = 5"
    using haddsD(1,5,7) [OF hgrown_hadds [OF d(6)]] d(7) kernel_fresh_heap_facts(2,3)
    by (simp_all add: s6_def tss_load_def s5_def s4_def s3_def comp_def sum_list_triv live_set_def)
  then have "kheap_inv s6" "1026 \<le> kavail s6" by simp_all
  then obtain chunk s7 where c: "paging_new_4gb s6 7 = Inr (chunk, s7)" "chunk_owned s7 chunk"
      "\<And>k. k < 1048576 \<Longrightarrow> pte (mem s7) (chunk_dir s7 chunk) k = identity_entry k 7"
      "hadds (kheap s6) (mem s6) (kheap s7) (mem s7) (map (\<lambda>q. (q, 1)) (chunk_pages s7 chunk))"
    by (rule new_4gb_adds [where flags = 7]) (rule that)
  obtain h7 m7 where s7: "s7 = s6\<lparr>kheap := h7, mem := m7\<rparr>" using new_4gb_only_heap [OF c(1)] by blast
  define s8 where "s8 = enable_paging (paging_switch (s7\<lparr>kernel_chunk := chunk\<rparr>) chunk)"
  have e8: "s8 = s7\<lparr>kernel_chunk := chunk, cr0 := cr0 s7 OR 0x80000000, cr3 := chunk_dir s7 chunk, current_directory := chunk_dir s7 chunk\<rparr>"
    by (simp add: s8_def enable_paging_def paging_switch_def paging_load_directory_def chunk_dir_def Let_def)
  define s9 where "s9 = s8\<lparr>isr80h_commands := map Some kernel_commands @ replicate 1014 None\<rparr>"
  have r: "isr80h_register_commands s8 = Inr s9" unfolding s9_def
    by (rule register_commands_table)
      (use assms(1) in \<open>simp add: e8 s7 s6_def tss_load_def s5_def s4_def s3_def s2_def s1_def static_objects_def\<close>)
  define s10 where "s10 = s9\<lparr>port_trace := Out_b 0x64 0xAE # port_trace s9,
    interrupt_callbacks := (interrupt_callbacks s9)[0x21 := Some Classic_keyboard_handle_interrupt],
    keyboards := (keyboards s9)(Classic_keyboard := classic_keyboard\<lparr>capslock_state := 1\<rparr>),
    keyboard_list_head := Some Classic_keyboard, keyboard_list_last := Some Classic_keyboard\<rparr>"
  have k: "keyboard_init s9 = Inr s10" unfolding s10_def
    by (rule keyboard_init_run)
      (use assms(1) in \<open>simp_all add: s9_def e8 s7 s6_def tss_load_def s5_def s4_def s3_def s2_def s1_def static_objects_def length_callbacks_at_boot\<close>)
  have u2: "gdt_load (s1\<lparr>gdt_real := g\<rparr>) (gdt_real_address l) (8 * of_nat 6 - 1) = s2" by (simp add: gdt_load_def s2_def)
  have run: "kernel_init s l = Inr s10"
    unfolding kernel_init_def Let_def v s1_def [symmetric] g(1) bind_res.simps u2 kheap_init_eq s3_def [symmetric] nm s4_def [symmetric]
      d(1) s5_def [symmetric] i(1) s6_def [symmetric] c(1) prod.case s8_def [symmetric] r k ..
  have base: "mem s10 = mem s7" "kheap s10 = kheap s7" "cr3 s10 = chunk_dir s7 chunk"
    "kernel_chunk s10 = chunk" "cr0 s10 = cr0 s7 OR 0x80000000" "current_directory s10 = chunk_dir s7 chunk"
    by (simp_all add: s10_def s9_def e8)
  have procs: "processes s10 = replicate 12 0" "task_head s10 = 0"
    using assms(1) by (simp_all add: s10_def s9_def e8 s7 s6_def tss_load_def s5_def s4_def s3_def s2_def s1_def static_objects_def)
  have screen: "terminal_row s10 = 0" "terminal_col s10 = 0" "\<forall>i. 0 \<le> i \<and> i < 1600 \<longrightarrow> video_mem s10 i = terminal_make_char 32 0"
    by (simp_all add: s10_def s9_def e8 s7 s6_def tss_load_def s5_def s4_def s3_def s2_def s1_def)
  have disk: "kdisk s10 = kdisk s5" "streams s10 = sm" "fat_privs s10 = fpr" "item_arrays s10 = ia" "hw s10 = hw s4"
    "file_descriptors s10 = replicate 512 0"
    by (simp_all add: s10_def s9_def e8 s7 s6_def tss_load_def s5_def s4_def)
  have "mounted img fp s10" using d(2) by (simp add: mounted_def drive_serves_def stream_pos_def disk s5_def)
  moreover have "root_holds s10 fp name item" if "image_file img n name item" for name item
    using that d(4) by (rule root_holds_image_file) (simp add: disk d(5))
  moreover have "paging_get_physical_address (mem s10) (cr3 s10) v = v" for v
    unfolding base by (rule identity_physical_address) (rule c(3))
  moreover have "bit (cr0 s10) 31" unfolding base by (simp add: bit_or_iff)
  moreover have "kheap_inv s10" "kavail s10 = 24569" "card (live_set (kheap s10)) = 1031"
    using haddsD(1,5,7) [OF c(4)] h6(2,3) base(2) by (simp_all add: comp_def sum_list_triv length_chunk_pages)
  moreover have "gdt_real s10 = g" "gdtr s10 = \<lparr>tr_base = gdt_real_address l, tr_limit = 47\<rparr>" "task_register s10 = 0x28"
    "esp0 (kernel_tss s10) = 0x600000" "idtr_descriptors s10 = ds"
    "idtr s10 = \<lparr>idtr_limit = 4095, idtr_base = idtr_descriptors_address l\<rparr>"
    "interrupt_callbacks s10 = callbacks_at_boot[0x21 := Some Classic_keyboard_handle_interrupt]"
    "isr80h_commands s10 = map Some kernel_commands @ replicate 1014 None"
    by (simp_all add: s10_def s9_def e8 s7 s6_def tss_load_def s5_def s4_def s3_def s2_def)
  moreover have "klive s10 dir 1"
    using haddsD(3) [OF c(4)] haddsD(3) [OF hgrown_hadds [OF d(6)], of dir 1] d(8) base(2) by (simp add: s6_def tss_load_def s5_def image_iff)
  ultimately have "booted img n l s10"
    using g(2) i(2) d(3,4) procs screen unfolding booted_def by (simp add: base disk s5_def chunk_dir_def) blast
  with run show ?thesis by (rule that)
qed

text \<open>C7: On a machine whose static objects are as C starts them and whose drive serves a FAT16 volume, \<open>kernel_init\<close> returns. It leaves
  a well-formed heap with 24569 free blocks, the flat segments and the TSS, a gate for every vector, the registered interrupt
  callbacks and system calls, a cleared terminal with the cursor at the top left, paging on under a directory that translates every address to itself, the volume mounted and every file
  of its root directory visible to the directory search. The root directory must fit into one page of the heap.\<close>

theorem kernel_init_boots:
  assumes "static_objects s" "drive_serves img s" "fat16_volume img n" "length (interrupt_pointer_table l) = 512"
  shows "\<exists>s'. kernel_init s l = Inr s' \<and> booted img n l s'"
  using kernel_init_booted [OF assms] by blast

text \<open>A volume with the geometry of src/boot/boot.asm and one file in its root directory.\<close>

definition example_volume :: "nat \<Rightarrow> u8" where
  "example_volume p =
     (if p = 12 then 2 else if p = 13 then 0x80 else if p = 14 then 200 else if p = 16 then 2 else if p = 17 then 0x40
      else if p = 23 then 1 else if p = 38 then 0x29
      else if 364544 \<le> p \<and> p < 364556 then c_literal ''BLANK   ELF '' ! (p - 364544) else 0)"

lemma example_volume_header:
  "signature (extended_header (image_header example_volume)) = 0x29"
  "sectors_per_cluster (primary_header (image_header example_volume)) = 0x80"
  "root_size (image_header example_volume) = 2048" "root_sector (image_header example_volume) = 712"
proof -
  have b: "byte_at (image_bytes example_volume 0 62) k = example_volume k" if "k < 62" for k
    using that by (simp add: byte_at_def image_bytes_def)
  show "signature (extended_header (image_header example_volume)) = 0x29"
    "sectors_per_cluster (primary_header (image_header example_volume)) = 0x80"
    "root_size (image_header example_volume) = 2048" "root_sector (image_header example_volume) = 712"
    by (simp_all add: image_header_def fat_h_of_bytes_def root_size_def root_sector_def le16_def b example_volume_def)
qed

lemma example_volume_ok: "fat16_volume example_volume 1"
  by (simp add: fat16_volume_def Let_def example_volume_header entry_mark_def) (simp add: example_volume_def c_literal_def)

definition example_machine :: kernelstate where
  "example_machine = example_system\<lparr>hw := example_device example_volume, tasks := Map.empty, task_head := 0, task_tail := 0,
     current_task := 0, current_process := 0, processes := replicate 12 0, idtr_descriptors := replicate 512 (kernel_gate 0),
     interrupt_callbacks := replicate 512 None, isr80h_commands := replicate 1024 None,
     keyboards := (\<lambda>k. classic_keyboard), keyboard_list_head := None, keyboard_list_last := None, fs_name := replicate 20 0\<rparr>"

definition example_layout :: layout where
  "example_layout = \<lparr>tss_address = 0x120000, gdt_real_address = 0x121000, idtr_descriptors_address = 0x122000,
     interrupt_pointer_table = map (\<lambda>i. 0x100000 + 8 * of_nat i) [0..<512], idt_zero_address = 0x130000,
     isr80h_wrapper_address = 0x130100, argument_address = 0x1FF000\<rparr>"

lemma example_machine_facts: "static_objects example_machine" "drive_serves example_volume example_machine"
  by (simp_all add: example_machine_def static_objects_def drive_serves_def example_device_serves example_system_def
      kbstate.extend_def kernelstate.fields_def)

lemma kernel_init_boots_witness:
  "\<exists>s'. kernel_init example_machine example_layout = Inr s' \<and> booted example_volume 1 example_layout s'"
  by (rule kernel_init_boots [OF example_machine_facts example_volume_ok])
    (simp add: example_layout_def del: upt_conv_Cons upt_rec_numeral)

end
