(* ===== verification/ElfLoad.thy ===== *)
theory ElfLoad
  imports Elf
begin

text \<open>
  Loading an ELF file: \<open>elf_load\<close> of a valid program in the root directory answers 0 with the bytes of the file in memory, and gives back
  everything it allocated but the file, its descriptor structure and the leaked path.
\<close>

subsection \<open>Program files\<close>

text \<open>The bytes of a file at address 0.\<close>

definition image_mem :: "u8 list \<Rightarrow> memory" where
  "image_mem file a = (if unat a < length file then file ! unat a else 0)"

lemma read_image:
  assumes "read_bytes m p (length file) = file" "k + l \<le> length file" "length file < 4294967296"
  shows "read_bytes m (p + of_nat k) l = read_bytes (image_mem file) (of_nat k) l"
proof (rule nth_equalityI)
  fix i assume "i < length (read_bytes m (p + of_nat k) l)"
  then have i: "i < l" by simp
  then have "k + i < length file" using assms(2) by simp
  then have "file ! (k + i) = m (p + of_nat (k + i))" using arg_cong [OF assms(1), of "\<lambda>f. f ! (k + i)"] by (simp add: read_bytes_def)
  moreover have "unat (of_nat k + of_nat i :: u32) = k + i"
    using unat_of_nat_u32 [of "k + i"] i assms(2,3) by (simp flip: of_nat_add)
  ultimately show "read_bytes m (p + of_nat k) l ! i = read_bytes (image_mem file) (of_nat k) l ! i"
    using i assms(2) by (simp add: read_bytes_def image_mem_def algebra_simps)
qed simp

abbreviation elf_hdr_of :: "u8 list \<Rightarrow> elf_hdr" where "elf_hdr_of file \<equiv> hdr_at (image_mem file) 0"

text \<open>The program headers of a file.\<close>

definition elf_phdrs :: "u8 list \<Rightarrow> elf32_phdr list" where
  "elf_phdrs file = map (\<lambda>i. phdr_at (image_mem file) (of_nat (unat (e_phoff (elf_hdr_of file)) + 32 * i)))
     [0..<unat (e_phnum (elf_hdr_of file))]"

text \<open>A file the loader accepts, with its header and program header table inside.\<close>

definition elf_program :: "u8 list \<Rightarrow> bool" where
  "elf_program file \<longleftrightarrow> 52 \<le> length file \<and> length file < 1073741824 \<and> elf_validate_loaded (image_mem file) 0 = Inr 0 \<and>
     unat (e_phoff (elf_hdr_of file)) + 32 * unat (e_phnum (elf_hdr_of file)) \<le> length file"

lemma loaded_header:
  assumes "elf_program file" "read_bytes m p (length file) = file"
  shows "hdr_at m p = elf_hdr_of file" "elf_validate_loaded m p = Inr 0"
    "i < unat (e_phnum (elf_hdr_of file)) \<Longrightarrow> phdr_at m (p + e_phoff (elf_hdr_of file) + 32 * of_nat i) = elf_phdrs file ! i"
proof -
  have len: "52 \<le> length file" "length file < 4294967296"
    "unat (e_phoff (elf_hdr_of file)) + 32 * unat (e_phnum (elf_hdr_of file)) \<le> length file"
    using assms(1) by (auto simp: elf_program_def)
  have h: "read_bytes m p 52 = read_bytes (image_mem file) 0 52" "read_bytes m p 4 = read_bytes (image_mem file) 0 4"
    using read_image [OF assms(2) _ len(2), of 0] len(1) by simp_all
  then show hd: "hdr_at m p = elf_hdr_of file" by (simp add: hdr_at_def)
  show "elf_validate_loaded m p = Inr 0"
    using assms(1) unfolding elf_program_def elf_validate_loaded_def elf_valid_signature_def h hd by simp
  assume i: "i < unat (e_phnum (elf_hdr_of file))"
  have "p + e_phoff (elf_hdr_of file) + 32 * of_nat i = p + of_nat (unat (e_phoff (elf_hdr_of file)) + 32 * i)"
    by simp
  then show "phdr_at m (p + e_phoff (elf_hdr_of file) + 32 * of_nat i) = elf_phdrs file ! i"
    using read_image [OF assms(2) _ len(2), of "unat (e_phoff (elf_hdr_of file)) + 32 * i" 32] i len(3)
    by (simp add: elf_phdrs_def phdr_at_def add.assoc)
qed

lemma process_pheaders_memory:
  "\<exists>f'. process_pheaders_loop m hdr f i n = (0, f') \<and> ef_memory f' = ef_memory f"
proof (induction n arbitrary: f i)
  case (Suc n)
  let ?ph = "phdr_at m (elf_program_header m hdr (int i))"
  obtain g where g: "elf_process_pheader f ?ph = (0, g)" "ef_memory g = ef_memory f"
    using pt_load_fields(3,4) [of f ?ph] by (cases "p_type ?ph = PT_LOAD") (auto simp: elf_process_pheader_def prod_eq_iff)
  then show ?case using Suc [of g "Suc i"] by simp
qed simp

lemma elf_process_loaded_ok:
  assumes "elf_program file" "read_bytes m (ef_memory f) (length file) = file"
  obtains f' where "elf_process_loaded m f = Inr (0, f')" "ef_memory f' = ef_memory f"
proof -
  obtain f' where "elf_process_pheaders m f = (0, f')" "ef_memory f' = ef_memory f"
    using process_pheaders_memory unfolding elf_process_pheaders_def by blast
  then show thesis
    using loaded_header(2) [OF assms] by (intro that [where f' = f']) (simp_all add: elf_process_loaded_def elf_header_def)
qed

subsection \<open>Loading\<close>

text \<open>The path of a file in the root directory, and the file a path names.\<close>

definition root_path :: "u8 list \<Rightarrow> u8 list \<Rightarrow> bool" where
  "root_path path name \<longleftrightarrow> cstring path = 48 # 58 # 47 # name \<and> 0 \<in> set path \<and> 47 \<notin> set name \<and> name \<noteq> [] \<and> length name \<le> 105"

definition root_file :: "(nat \<Rightarrow> u8) \<Rightarrow> fat_private \<Rightarrow> 'a fatstate_scheme \<Rightarrow> u8 list \<Rightarrow> u8 list \<Rightarrow> bool" where
  "root_file img fp s name file \<longleftrightarrow> (\<exists>item. root_holds s fp name item \<and> unat (filesize item) = length file \<and>
     clusters_ok img fp (unat (fat16_get_first_cluster item)) (length file) \<and>
     file = map (file_byte img fp (unat (fat16_get_first_cluster item))) [0..<length file])"

definition volume_ready :: "(nat \<Rightarrow> u8) \<Rightarrow> fat_private \<Rightarrow> 'a filestate_scheme \<Rightarrow> bool" where
  "volume_ready img fp s \<longleftrightarrow> kheap_inv s \<and> mounted img fp s \<and> dk_filesystem (kdisk s) = Some Fat16_fs \<and>
     length (file_descriptors s) = 512 \<and> 0 \<in> set (file_descriptors s) \<and> (\<exists>n. klive s (fd_item (root_directory fp)) n)"

lemma lowest_free_slot:
  assumes "0 \<in> set ds"
  obtains j where "j < length ds" "ds ! j = 0" "free_slot_loop (\<lambda>d. d = (0 :: u32)) ds 0 = Some j" "\<forall>i < j. ds ! i \<noteq> 0"
proof -
  define j where "j = (LEAST i. i < length ds \<and> ds ! i = 0)"
  have j: "j < length ds \<and> ds ! j = 0" unfolding j_def by (rule LeastI_ex) (use assms in \<open>auto simp: in_set_conv_nth\<close>)
  have low: "\<forall>i < j. ds ! i \<noteq> 0"
  proof (intro allI impI)
    fix i assume "i < j"
    then show "ds ! i \<noteq> 0" using not_less_Least [of i "\<lambda>i. i < length ds \<and> ds ! i = 0"] j unfolding j_def by auto
  qed
  then show thesis using free_slot_loop_first [of j ds "\<lambda>d. d = 0" 0] j by (intro that) auto
qed

lemma elf_more_field: "filestate.more s' = filestate.more s \<Longrightarrow> elf_files s' = elf_files s \<and> elfstate.more s' = elfstate.more s"
  by (cases s, cases s') simp

text \<open>\<open>elf_load\<close> from \<open>fread\<close> on.\<close>

definition elf_read :: "'a elfstate_scheme \<Rightarrow> u32 \<Rightarrow> u32 \<Rightarrow> u32 \<Rightarrow> int \<Rightarrow> (int \<times> u32 \<times> 'a elfstate_scheme) res" where
  "elf_read s elf_file p n fd =
     bind_res (fread s p n 1 fd) (\<lambda>(n, s).
       if n \<noteq> 1 then elf_load_out s fd elf_file (- EIO)
       else bind_res (obj_get (elf_files s) elf_file) (\<lambda>f.
         bind_res (elf_process_loaded (mem s) f) (\<lambda>(res, f).
           let s = s\<lparr>elf_files := (elf_files s)(elf_file \<mapsto> f)\<rparr>
           in elf_load_out s fd elf_file res)))"

lemma image_size:
  assumes "elf_program file"
  shows "0 < length file" "length file < 1073741824" "unat (of_nat (length file) :: u32) = length file" "fair_request (of_nat (length file))"
    "0 < blocks_of (of_nat (length file))" "length file \<le> 4096 * blocks_of (of_nat (length file))"
proof -
  show len: "0 < length file" "length file < 1073741824" using assms by (auto simp: elf_program_def)
  show un: "unat (of_nat (length file) :: u32) = length file" using len(2) by (intro unat_of_nat_u32) simp
  show fair: "fair_request (of_nat (length file))" using len by (simp add: fair_request_def un)
  show "0 < blocks_of (of_nat (length file))" "length file \<le> 4096 * blocks_of (of_nat (length file))"
    using blocks_of_pos [OF fair] blocks_of_covers [of "of_nat (length file)"] by (simp_all add: un)
qed

text \<open>Opening the file and taking a buffer of its size.\<close>

lemma elf_load_opens:
  fixes s :: "'a elfstate_scheme"
  assumes ready: "volume_ready img fp s" and path: "root_path path name" and inroot: "root_file img fp s name file"
    and elf: "elf_program file" and room: "blocks_of (of_nat (length file)) * (card (live_set (kheap s)) + 9) + 8 \<le> kavail s"
  obtains e ef p s' j desc d ti c item qs where "elf_load s path = elf_read s' e p (of_nat (length file)) (int j + 1)" "e \<noteq> 0" "desc \<noteq> 0"
    "j < 512" "file_descriptors s ! j = 0" "file_descriptors s' = (file_descriptors s)[j := desc]"
    "fds s' desc = Some \<lparr>fdn_index = int j + 1, fdn_filesystem = Some Fat16_fs, fdn_private = d, fdn_disk = The_disk\<rparr>"
    "open_at s' d ti c 0 item" "mounted img fp s'" "elf_files s' e = Some ef" "ef_memory ef = p"
    "clusters_ok img fp (unat (fat16_get_first_cluster item)) (length file)"
    "file = map (file_byte img fp (unat (fat16_get_first_cluster item))) [0..<length file]"
    "hadds (kheap s) (mem s) (kheap s') (mem s') (([(e, 1), (p, blocks_of (of_nat (length file)))] @ map (\<lambda>q. (q, 1)) qs) @ [(d, 1), (ti, 1), (c, 1), (desc, 1)])"
    "length qs = 3" "elfstate.more s' = elfstate.more s" "kdisk s' = kdisk s" "\<And>a n. klive s a n \<Longrightarrow> a \<noteq> c \<and> item_arrays s' a = item_arrays s a"
proof -
  let ?n = "length file" and ?b = "blocks_of (of_nat (length file))"
  note size = image_size [OF elf]
  from ready have rd: "kheap_inv s" "mounted img fp s" "dk_filesystem (kdisk s) = Some Fat16_fs" "length (file_descriptors s) = 512"
    "0 \<in> set (file_descriptors s)" by (simp_all add: volume_ready_def)
  from inroot obtain item where it: "root_holds s fp name item" "unat (filesize item) = ?n"
    "clusters_ok img fp (unat (fat16_get_first_cluster item)) ?n"
    "file = map (file_byte img fp (unat (fat16_get_first_cluster item))) [0..<?n]"
    unfolding root_file_def by blast
  have fsz: "filesize item = of_nat ?n" by (simp flip: it(2))
  obtain j where j: "j < 512" "file_descriptors s ! j = 0" "free_slot_loop (\<lambda>d. d = 0) (file_descriptors s) 0 = Some j"
    using lowest_free_slot [OF rd(5)] unfolding rd(4) by blast
  have av: "0 < kavail s" "8 \<le> kavail s" using room by simp_all
  obtain e h1 m1 where e: "kzalloc s 132 = Inr (e, s\<lparr>kheap := h1, mem := m1\<rparr>)" "e \<noteq> 0" "hgrown (kheap s) (mem s) h1 m1 [e]"
    by (rule kzalloc_grown [OF rd(1) av(1), of 132]) (simp, simp, rule that)
  define ef0 where "ef0 = \<lparr>ef_filename = replicate 108 0, in_memory_size = 0, ef_memory = 0, virtual_base_address = 0,
    virtual_end_address = 0, physical_base_address = 0, physical_end_address = 0\<rparr>"
  define s1 where "s1 = s\<lparr>kheap := h1, mem := m1, elf_files := (elf_files s)(e \<mapsto> ef0)\<rparr>"
  have new: "elf_file_new s = Inr (e, s1)" using e(1,2) by (simp add: elf_file_new_def s1_def ef0_def)
  obtain items k where items: "item_arrays s1 (fd_item (root_directory fp)) = Some items"
      "fd_total (root_directory fp) \<le> int (length items)" "\<forall>item \<in> set items. item_ok item"
      "first_match items (nat (fd_total (root_directory fp))) (name @ [0]) = Some k" "items ! k = item"
      "attribute (items ! k) AND FAT_FILE_SUBDIRECTORY = 0"
    using it(1) unfolding root_holds_def by (auto simp: s1_def)
  have pre1: "kheap_inv s1" "7 \<le> kavail s1" "dk_filesystem (kdisk s1) = Some Fat16_fs"
      "free_slot_loop (\<lambda>d. d = 0) (file_descriptors s1) 0 = Some j"
    using hgrownD(1,5) [OF e(3)] av(2) rd(3) j(3) by (simp_all add: s1_def)
  have mt1: "mounted img fp s1" by (rule moved_bits [OF rd(2)]) (simp_all add: s1_def)
  from path have pt: "cstring path = 48 # 58 # 47 # name" "0 \<in> set path" "47 \<notin> set name" "name \<noteq> []" "length name \<le> 105"
    by (simp_all add: root_path_def)
  obtain desc d ti c s2 qs where o: "fopen s1 path (c_literal ''r'') = Inr (int j + 1, s2)" "desc \<noteq> 0"
    "file_descriptors s2 = (file_descriptors s1)[j := desc]"
    "fds s2 desc = Some \<lparr>fdn_index = int j + 1, fdn_filesystem = Some Fat16_fs, fdn_private = d, fdn_disk = The_disk\<rparr>"
    "open_at s2 d ti c 0 (items ! k)" "mounted img fp s2" "grown s1 s2 (qs @ [d, ti, c, desc])" "length qs = 3"
    "filestate.more s2 = filestate.more s1" "kdisk s2 = kdisk s1" "item_arrays s2 = (item_arrays s1)(c \<mapsto> items ! k # [])"
    by (rule fopen_root_file [OF pre1(1,2) mt1 pre1(3) pt items(1-4,6) pre1(4)]) (rule that)
  have fd2: "length (file_descriptors s2) = 512" "file_descriptors s2 ! j = desc" using o(3) rd(4) j(1) by (simp_all add: s1_def)
  obtain st where st: "fstat s2 (int j + 1) = Inr (0, Some st)" "stat_filesize st = of_nat ?n"
    by (rule fstat_open [OF o(5,2) fd2(1) j(1) fd2(2) o(4)]) (use items(5) fsz that in simp)
  have ef2: "elf_files s2 e = Some ef0" "elfstate.more s2 = elfstate.more s"
    using elf_more_field [OF o(9)] by (simp_all add: s1_def)
  have h2: "hadds (kheap s) (mem s) (kheap s2) (mem s2) ((e, 1) # map (\<lambda>q. (q, 1)) (qs @ [d, ti, c, desc]))"
    using hadds_trans [OF hgrown_hadds [OF e(3)] hgrown_hadds, of "kheap s2" "mem s2" "qs @ [d, ti, c, desc]"] o(7)
    by (simp add: s1_def)
  have "card (live_set (kheap s2)) = card (live_set (kheap s)) + 8" "kavail s = kavail s2 + 8"
    using haddsD(7,5) [OF h2] o(8) by (simp_all add: sum_list_triv comp_def)
  moreover obtain b' where "?b = Suc b'" using size(5) by (cases ?b) auto
  ultimately have "(?b - 1) * Suc (card (live_set (kheap s2))) < kavail s2" using room by (simp add: algebra_simps)
  then obtain p h3 m3 where p: "kzalloc s2 (of_nat ?n) = Inr (p, s2\<lparr>kheap := h3, mem := m3\<rparr>)" "p \<noteq> 0"
      "hadds (kheap s2) (mem s2) h3 m3 [(p, ?b)]"
    by (rule kzalloc_adds [OF haddsD(1) [OF h2] size(4)]) (rule that)
  define s3 where "s3 = s2\<lparr>kheap := h3, mem := m3, elf_files := (elf_files s2)(e \<mapsto> ef0\<lparr>ef_memory := p\<rparr>)\<rparr>"
  have "obj_get (elf_files s2) e = Inr ef0" "\<not> int j + 1 \<le> 0" using ef2(1) by simp_all
  then have load: "elf_load s path = elf_read s3 e p (of_nat ?n) (int j + 1)"
    unfolding elf_load_def new bind_res.simps prod.case o(1) st(1) Let_def elf_read_def
    using e(2) p(2) by (simp add: st(2) p(1) s3_def del: obj_get_Some)
  have adds: "hadds (kheap s) (mem s) (kheap s3) (mem s3) (([(e, 1), (p, ?b)] @ map (\<lambda>q. (q, 1)) qs) @ [(d, 1), (ti, 1), (c, 1), (desc, 1)])"
    using hadds_trans [OF h2 p(3)] unfolding s3_def by (simp, elim hadds_perm) simp
  have fds3: "file_descriptors s3 = (file_descriptors s)[j := desc]"
    "fds s3 desc = Some \<lparr>fdn_index = int j + 1, fdn_filesystem = Some Fat16_fs, fdn_private = d, fdn_disk = The_disk\<rparr>"
    "open_at s3 d ti c 0 item" "elf_files s3 e = Some (ef0\<lparr>ef_memory := p\<rparr>)"
    using o(3-5) items(5) by (simp_all add: s3_def s1_def open_at_def)
  have mt3: "mounted img fp s3" by (rule moved_bits [OF o(6)]) (simp_all add: s3_def)
  have arrays: "a \<noteq> c \<and> item_arrays s3 a = item_arrays s a" if "klive s a n" for a n
  proof -
    have "klive s1 a n" using haddsD(3) [OF hgrown_hadds [OF e(3)]] that by (simp add: s1_def)
    then have "a \<noteq> c" using hgrownD(4) [OF o(7), of c n] by auto
    then show ?thesis by (simp add: s3_def o(11) s1_def)
  qed
  have more: "elfstate.more s3 = elfstate.more s" "kdisk s3 = kdisk s" using ef2(2) o(10) by (simp_all add: s3_def s1_def)
  show thesis
    by (rule that [OF load e(2) o(2) j(1,2) fds3(1,2,3) mt3 fds3(4) _ it(3,4) adds o(8) more arrays]) simp_all
qed

lemma elf_load_program:
  fixes s :: "'a elfstate_scheme"
  assumes ready: "volume_ready img fp s" and path: "root_path path name" and inroot: "root_file img fp s name file"
    and elf: "elf_program file" and room: "blocks_of (of_nat (length file)) * (card (live_set (kheap s)) + 9) + 8 \<le> kavail s"
  obtains e p f s' qs where "elf_load s path = Inr (0, e, s')" "e \<noteq> 0" "elf_files s' e = Some f" "ef_memory f = p"
    "read_bytes (mem s') p (length file) = file"
    "hadds (kheap s) (mem s) (kheap s') (mem s') ([(e, 1), (p, blocks_of (of_nat (length file)))] @ map (\<lambda>q. (q, 1)) qs)" "length qs = 3"
    "elfstate.more s' = elfstate.more s" "mounted img fp s'" "file_descriptors s' = file_descriptors s" "kdisk s' = kdisk s"
    "\<And>a n. klive s a n \<Longrightarrow> item_arrays s' a = item_arrays s a"
proof -
  let ?n = "length file" and ?b = "blocks_of (of_nat (length file))"
  note size = image_size [OF elf]
  obtain e ef p s3 j desc d ti c item qs where O: "elf_load s path = elf_read s3 e p (of_nat ?n) (int j + 1)" "e \<noteq> 0" "desc \<noteq> 0"
    "j < 512" "file_descriptors s ! j = 0" "file_descriptors s3 = (file_descriptors s)[j := desc]"
    "fds s3 desc = Some \<lparr>fdn_index = int j + 1, fdn_filesystem = Some Fat16_fs, fdn_private = d, fdn_disk = The_disk\<rparr>"
    "open_at s3 d ti c 0 item" "mounted img fp s3" "elf_files s3 e = Some ef" "ef_memory ef = p"
    "clusters_ok img fp (unat (fat16_get_first_cluster item)) ?n"
    "file = map (file_byte img fp (unat (fat16_get_first_cluster item))) [0..<?n]"
    "hadds (kheap s) (mem s) (kheap s3) (mem s3) (([(e, 1), (p, ?b)] @ map (\<lambda>q. (q, 1)) qs) @ [(d, 1), (ti, 1), (c, 1), (desc, 1)])"
    "length qs = 3" "elfstate.more s3 = elfstate.more s" "kdisk s3 = kdisk s" "\<And>a n. klive s a n \<Longrightarrow> a \<noteq> c \<and> item_arrays s3 a = item_arrays s a"
    by (rule elf_load_opens [OF assms]) (rule that)
  have fd3: "length (file_descriptors s3) = 512" "file_descriptors s3 ! j = desc"
    using O(4,6) ready by (simp_all add: volume_ready_def)
  have n31: "?n < 2147483648" using size(2) by simp
  obtain tr sm fdsc where r: "fread s3 p (of_nat ?n) 1 (int j + 1) = Inr (1, s3\<lparr>port_trace := tr, streams := sm, fat_descs := fdsc,
      mem := write_bytes (mem s3) p (map (file_byte img fp (unat (fat16_get_first_cluster item))) [0..<?n])\<rparr>)"
    "open_at (s3\<lparr>fat_descs := fdsc\<rparr>) d ti c (of_nat ?n) item" "mounted img fp (s3\<lparr>port_trace := tr, streams := sm\<rparr>)"
    by (rule fread_open [OF O(9,8,3) fd3(1) O(4) fd3(2) O(7) refl size(1) n31 O(12)]) (rule that)
  define s4 where "s4 = s3\<lparr>port_trace := tr, streams := sm, fat_descs := fdsc, mem := write_bytes (mem s3) p file\<rparr>"
  have r4: "fread s3 p (of_nat ?n) 1 (int j + 1) = Inr (1, s4)" using r(1) unfolding O(13) [symmetric] s4_def .
  have bytes: "read_bytes (mem s4) p ?n = file" using read_write_bytes [of "file" "mem s3" p] size(2) by (simp add: s4_def)
  obtain f where f: "elf_process_loaded (mem s4) ef = Inr (0, f)" "ef_memory f = p"
    by (rule elf_process_loaded_ok [OF elf, of "mem s4" ef]) (use bytes O(11) in simp, use O(11) that in simp)
  define s5 where "s5 = s4\<lparr>elf_files := (elf_files s4)(e \<mapsto> f)\<rparr>"
  have "heap_live (kheap s3) p ?b" using haddsD(3) [OF O(14)] by simp
  then have bound: "unat p + 4096 * ?b \<le> 2147483648" using kz.live_bounds [OF haddsD(1) [OF O(14)]] by blast
  have h5: "hadds (kheap s) (mem s) (kheap s5) (mem s5) (([(e, 1), (p, ?b)] @ map (\<lambda>q. (q, 1)) qs) @ [(d, 1), (ti, 1), (c, 1), (desc, 1)])"
    unfolding s5_def s4_def
  proof (simp, rule hadds_write [OF O(14) [simplified], where p = p and k = ?b])
    fix a assume "\<not> addr_in a p (4096 * ?b)"
    then show "write_bytes (mem s3) p file a = mem s3 a"
      using write_bytes_outside [of p "file" a "mem s3"] bound size(6) by (auto simp: addr_in_def)
  qed simp
  have pre5: "file_descriptors s5 ! j = desc" "length (file_descriptors s5) = 512" "open_at s5 d ti c (of_nat ?n) item"
    "fds s5 desc = Some \<lparr>fdn_index = int j + 1, fdn_filesystem = Some Fat16_fs, fdn_private = d, fdn_disk = The_disk\<rparr>"
    using fd3 O(7) r(2) by (simp_all add: s5_def s4_def open_at_def)
  obtain h ia fi fdsc' fd where c: "fclose s5 (int j + 1) = Inr (0, s5\<lparr>kheap := h, item_arrays := ia, fat_items := fi, fat_descs := fdsc',
      file_descriptors := (file_descriptors s5)[j := 0], fds := fd\<rparr>)"
      "hadds (kheap s) (mem s) h (mem s5) ([(e, 1), (p, ?b)] @ map (\<lambda>q. (q, 1)) qs)" "ia = (item_arrays s5)(c := None)"
    by (rule fclose_open [OF pre5(1) O(4) pre5(2) O(3) pre5(4,3) h5]) (rule that)
  define s6 where "s6 = s5\<lparr>kheap := h, item_arrays := ia, fat_items := fi, fat_descs := fdsc',
      file_descriptors := (file_descriptors s5)[j := 0], fds := fd\<rparr>"
  have "obj_get (elf_files s4) e = Inr ef" using O(10) by (simp add: s4_def)
  then have "elf_load s path = Inr (0, e, s6)"
    using c(1) by (simp add: O(1) elf_read_def r4 f(1) s5_def [symmetric] elf_load_out_def s6_def)
  moreover have "file_descriptors s6 = file_descriptors s"
    using O(5,6) by (simp add: s6_def s5_def s4_def) (metis list_update_id)
  moreover have "mounted img fp s6" by (rule moved_bits [OF r(3)]) (simp_all add: s6_def s5_def s4_def)
  moreover have "elfstate.more s6 = elfstate.more s" "kdisk s6 = kdisk s" using O(16,17) by (simp_all add: s6_def s5_def s4_def)
  moreover have "item_arrays s6 a = item_arrays s a" if "klive s a m" for a m
    using O(18) [OF that] by (simp add: s6_def c(3) s5_def s4_def)
  moreover have "elf_files s6 e = Some f" "read_bytes (mem s6) p ?n = file" using bytes by (simp_all add: s6_def s5_def)
  moreover have "hadds (kheap s) (mem s) (kheap s6) (mem s6) ([(e, 1), (p, ?b)] @ map (\<lambda>q. (q, 1)) qs)"
    using c(2) by (simp add: s6_def)
  ultimately show thesis using O(2,15) f(2) by (intro that [where e = e and p = p and f = f and s' = s6 and qs = qs]) simp_all
qed

end
