(* ===== verification/ProcessRun.thy ===== *)
theory ProcessRun
  imports ProcessAlloc ElfLoad
begin

text \<open>
  Loading a program succeeds: \<open>process_load\<close> of a valid ELF file in the root directory gives a process with a task of its own, in whose address
  space the segments of the file and a stack appear where the program headers and the kernel's configuration put them.
\<close>

subsection \<open>Rounding to pages\<close>

lemma unat_align_up:
  assumes "unat x \<le> 4294963200"
  shows "unat (paging_align_address x) = 4096 * ((unat x + 4095) div 4096)"
proof (cases "x mod 4096 = 0")
  case True
  then have "unat x mod 4096 = 0" by (simp add: unat_mod flip: unat_eq_zero)
  then obtain q where "unat x = 4096 * q" by (auto simp: mod_eq_0_iff_dvd)
  then show ?thesis using True by (simp add: paging_align_address_def)
next
  case False
  define r where "r = unat x mod 4096"
  have r: "0 < r" "r < 4096" "unat (x mod 4096) = r"
    using False by (auto simp: r_def unat_mod simp flip: unat_eq_zero)
  have split: "unat x = 4096 * (unat x div 4096) + r" by (simp add: r_def)
  have "unat (4096 - x mod 4096) = 4096 - r" using r by (subst unat_sub) (simp_all add: word_le_nat_alt)
  moreover have "unat x + (4096 - r) < 4294967296" using assms r(1) by linarith
  ultimately have "unat (x + (4096 - x mod 4096)) = unat x + (4096 - r)"
    by (subst unat_plus_if') simp
  then have "unat (paging_align_address x) = unat x + (4096 - r)"
    using False by (simp add: paging_align_address_def algebra_simps)
  also have "\<dots> = 4096 * Suc (unat x div 4096)" using split r(2) by simp
  also have "Suc (unat x div 4096) = (unat x + 4095) div 4096" using split r by linarith
  finally show ?thesis .
qed

lemma align_up_page:
  assumes "unat x \<le> 4294963200"
  shows "page_aligned (paging_align_address x)" "page_no (paging_align_address x) = (unat x + 4095) div 4096"
  using unat_align_up [OF assms] by (simp_all add: page_aligned_def page_no_def)

subsection \<open>Segments\<close>

text \<open>The number of pages of a segment, its pages, and what mapping it does to the entries of a directory.\<close>

definition seg_count :: "elf32_phdr \<Rightarrow> nat" where
  "seg_count ph = (unat (p_offset ph) + unat (p_memsz ph) + 4095) div 4096 - unat (p_offset ph) div 4096"

definition seg_pages :: "elf32_phdr \<Rightarrow> nat set" where
  "seg_pages ph = {page_no (p_vaddr ph)..<page_no (p_vaddr ph) + seg_count ph}"

definition seg_flags :: "elf32_phdr \<Rightarrow> u32" where
  "seg_flags ph = (if p_flags ph AND PF_W \<noteq> 0 then 5 OR 2 else 5)"

definition seg_map :: "u32 \<Rightarrow> elf32_phdr \<Rightarrow> (nat \<Rightarrow> u32) \<Rightarrow> nat \<Rightarrow> u32" where
  "seg_map base ph E k = (if k \<in> seg_pages ph
     then (base + of_nat (4096 * (unat (p_offset ph) div 4096 + (k - page_no (p_vaddr ph))))) OR seg_flags ph else E k)"

text \<open>A segment that ends below 1 GB in its file and below 4 GB in memory.\<close>

definition seg_fits :: "elf32_phdr \<Rightarrow> bool" where
  "seg_fits ph \<longleftrightarrow> unat (p_offset ph) + unat (p_memsz ph) < 1073741824 \<and> page_no (p_vaddr ph) + seg_count ph \<le> 1048576"

lemma map_segment_maps:
  assumes "chunk_ok m dir" "page_aligned (ef_memory f)" "unat (ef_memory f) \<le> 2147483648" "seg_fits ph"
  obtains m' where "map_segment m dir f ph = (0, m')" "chunk_ok m' dir" "load32 m' dir = load32 m dir"
    "dir_pages m' (load32 m dir) = dir_pages m (load32 m dir)"
    "\<And>k. k < 1048576 \<Longrightarrow> pte m' (load32 m dir) k = seg_map (ef_memory f) ph (pte m (load32 m dir)) k"
    "\<And>a. outside_pages (dir_pages m (load32 m dir)) a \<Longrightarrow> m' a = m a"
proof -
  let ?b = "ef_memory f" and ?o = "p_offset ph" and ?z = "p_memsz ph"
  obtain q where q: "unat ?b = 4096 * q" using assms(2) by (auto simp: page_aligned_def mod_eq_0_iff_dvd)
  have bound: "unat ?o + unat ?z < 1073741824" using assms(4) by (simp add: seg_fits_def)
  have u: "unat (?b + ?o) = unat ?b + unat ?o" "unat (?b + ?o + ?z) = unat ?b + unat ?o + unat ?z"
    using bound assms(3) by (simp_all add: unat_plus_if')
  have lo: "page_no (?b + ?o) = q + unat ?o div 4096" by (simp add: page_no_def u q)
  have hi: "page_aligned (paging_align_address (?b + ?o + ?z))" "page_no (paging_align_address (?b + ?o + ?z)) = q + (unat ?o + unat ?z + 4095) div 4096"
  proof -
    have "unat (?b + ?o + ?z) \<le> 4294963200" using bound assms(3) by (simp add: u)
    from align_up_page [OF this, unfolded u(2) q] show "page_aligned (paging_align_address (?b + ?o + ?z))"
      "page_no (paging_align_address (?b + ?o + ?z)) = q + (unat ?o + unat ?z + 4095) div 4096"
      by (simp_all only: add.assoc div_mult_self4)
  qed
  have n: "page_no (paging_align_address (?b + ?o + ?z)) - page_no (paging_align_to_lower_page (?b + ?o)) = seg_count ph"
    by (simp add: hi(2) align_lower_page(2) lo seg_count_def)
  have "unat ?o div 4096 \<le> (unat ?o + unat ?z + 4095) div 4096" by (rule div_le_mono) simp
  then have le: "paging_align_to_lower_page (?b + ?o) \<le> paging_align_address (?b + ?o + ?z)"
    using hi(2) page_no_split [OF hi(1)] by (simp add: word_le_nat_alt unat_align_lower lo)
  have base: "paging_align_to_lower_page (?b + ?o) = ?b + of_nat (4096 * (unat ?o div 4096))"
  proof -
    have "unat (?b + of_nat (4096 * (unat ?o div 4096))) = unat ?b + 4096 * (unat ?o div 4096)"
      using bound assms(3) by (intro unat_plus_of_nat) linarith
    then show ?thesis by (simp add: word_unat_eq_iff unat_align_lower lo q)
  qed
  have top: "page_no (paging_align_to_lower_page (p_vaddr ph)) + seg_count ph \<le> 1048576"
    using assms(4) by (simp add: seg_fits_def align_lower_page(2))
  have le': "page_no (paging_align_to_lower_page (p_vaddr ph)) + (page_no (paging_align_address (?b + ?o + ?z)) -
      page_no (paging_align_to_lower_page (?b + ?o))) \<le> 1048576"
    using top by (simp only: n)
  obtain m' where "paging_map_to m dir (paging_align_to_lower_page (p_vaddr ph)) (paging_align_to_lower_page (?b + ?o))
      (paging_align_address (?b + ?o + ?z)) (seg_flags ph) = (0, m')" "chunk_ok m' dir"
    "load32 m' dir = load32 m dir" "dir_pages m' (load32 m dir) = dir_pages m (load32 m dir)"
    "\<And>k. k < 1048576 \<Longrightarrow> pte m' (load32 m dir) k =
       (if page_no (paging_align_to_lower_page (p_vaddr ph)) \<le> k \<and> k < page_no (paging_align_to_lower_page (p_vaddr ph)) +
          (page_no (paging_align_address (?b + ?o + ?z)) - page_no (paging_align_to_lower_page (?b + ?o)))
        then (paging_align_to_lower_page (?b + ?o) + of_nat (4096 * (k - page_no (paging_align_to_lower_page (p_vaddr ph))))) OR seg_flags ph
        else pte m (load32 m dir) k)"
    "\<And>a. outside_pages (dir_pages m (load32 m dir)) a \<Longrightarrow> m' a = m a"
    by (rule map_to_range [OF assms(1) align_lower_page(1) align_lower_page(1) hi(1) le le']) (rule that)
  note m' = this [unfolded n, unfolded align_lower_page(2)]
  have "map_segment m dir f ph = (0, m')"
    using m'(1) by (simp add: map_segment_def elf_phdr_phys_address_def elf_memory_def seg_flags_def)
  moreover have "pte m' (load32 m dir) k = seg_map ?b ph (pte m (load32 m dir)) k" if "k < 1048576" for k
  proof -
    have "?b + of_nat (4096 * x) + of_nat (4096 * y) = ?b + of_nat (4096 * (x + y))" for x y
      by (simp only: distrib_left of_nat_add add.assoc)
    from m'(5) [OF that, unfolded base this] show ?thesis by (simp only: seg_map_def seg_pages_def atLeastLessThan_iff)
  qed
  ultimately show thesis using m'(2-4,6) by (intro that [where m' = m']) simp_all
qed

lemma fold_seg_map_cong: "E k = E' k \<Longrightarrow> fold (seg_map base) phs E k = fold (seg_map base) phs E' k"
proof (induction phs arbitrary: E E')
  case (Cons ph phs)
  have "seg_map base ph E k = seg_map base ph E' k" by (simp add: seg_map_def Cons.prems)
  from Cons.IH [of "seg_map base ph E" "seg_map base ph E'", OF this] show ?case by simp
qed simp

text \<open>The loop over the program headers. The table lies outside the pages of the directory, so the loop reads the same headers throughout.\<close>

lemma map_elf_loop_maps:
  assumes "chunk_ok m dir" "page_aligned (ef_memory f)" "unat (ef_memory f) \<le> 2147483648"
    and "\<And>m' j. (\<And>a. outside_pages (dir_pages m (load32 m dir)) a \<Longrightarrow> m' a = m a) \<Longrightarrow> i \<le> j \<Longrightarrow> j < length phs \<Longrightarrow>
      phdr_at m' (tab + 32 * of_nat j) = phs ! j"
    and "\<forall>ph \<in> set phs. seg_fits ph" "i + n = length phs"
  shows "\<exists>m'. map_elf_loop m dir f tab i n 0 = (0, m') \<and> chunk_ok m' dir \<and> load32 m' dir = load32 m dir \<and>
    dir_pages m' (load32 m dir) = dir_pages m (load32 m dir) \<and>
    (\<forall>k < 1048576. pte m' (load32 m dir) k = fold (seg_map (ef_memory f)) (drop i phs) (pte m (load32 m dir)) k) \<and>
    (\<forall>a. outside_pages (dir_pages m (load32 m dir)) a \<longrightarrow> m' a = m a)"
  using assms
proof (induction n arbitrary: m i)
  case 0
  then show ?case by simp
next
  case (Suc n)
  let ?d = "load32 m dir" and ?ph = "phs ! i"
  have i: "i < length phs" using Suc.prems(6) by simp
  have ph: "phdr_at m (tab + 32 * of_nat i) = ?ph" "seg_fits ?ph" using Suc.prems(4) [of m i] Suc.prems(5) i by simp_all
  obtain m1 where m1: "map_segment m dir f ?ph = (0, m1)" "chunk_ok m1 dir" "load32 m1 dir = ?d"
    "dir_pages m1 ?d = dir_pages m ?d"
    "\<And>k. k < 1048576 \<Longrightarrow> pte m1 ?d k = seg_map (ef_memory f) ?ph (pte m ?d) k"
    "\<And>a. outside_pages (dir_pages m ?d) a \<Longrightarrow> m1 a = m a"
    by (rule map_segment_maps [OF Suc.prems(1-3) ph(2)]) (rule that)
  have tab: "phdr_at m' (tab + 32 * of_nat j) = phs ! j"
    if "\<And>a. outside_pages (dir_pages m1 (load32 m1 dir)) a \<Longrightarrow> m' a = m1 a" "Suc i \<le> j" "j < length phs" for m' j
    using that m1(3,4,6) by (intro Suc.prems(4)) simp_all
  have n: "Suc i + n = length phs" using Suc.prems(6) by simp
  have "\<exists>m'. map_elf_loop m1 dir f tab (Suc i) n 0 = (0, m') \<and> chunk_ok m' dir \<and> load32 m' dir = load32 m1 dir \<and>
    dir_pages m' (load32 m1 dir) = dir_pages m1 (load32 m1 dir) \<and>
    (\<forall>k < 1048576. pte m' (load32 m1 dir) k = fold (seg_map (ef_memory f)) (drop (Suc i) phs) (pte m1 (load32 m1 dir)) k) \<and>
    (\<forall>a. outside_pages (dir_pages m1 (load32 m1 dir)) a \<longrightarrow> m' a = m1 a)"
    by (rule Suc.IH [OF m1(2) Suc.prems(2,3) tab Suc.prems(5) n]) assumption+
  then obtain m' where m': "map_elf_loop m1 dir f tab (Suc i) n 0 = (0, m')" "chunk_ok m' dir" "load32 m' dir = ?d"
    "dir_pages m' ?d = dir_pages m ?d"
    "\<forall>k < 1048576. pte m' ?d k = fold (seg_map (ef_memory f)) (drop (Suc i) phs) (pte m1 ?d) k"
    "\<forall>a. outside_pages (dir_pages m ?d) a \<longrightarrow> m' a = m1 a"
    unfolding m1(3,4) by (elim exE conjE) (rule that)
  have "map_elf_loop m dir f tab i (Suc n) 0 = (0, m')" using ph(1) m1(1) m'(1) by simp
  moreover have "pte m' ?d k = fold (seg_map (ef_memory f)) (drop i phs) (pte m ?d) k" if "k < 1048576" for k
  proof -
    have "pte m' ?d k = fold (seg_map (ef_memory f)) (drop (Suc i) phs) (pte m1 ?d) k" using m'(5) that by blast
    also have "\<dots> = fold (seg_map (ef_memory f)) (drop (Suc i) phs) (seg_map (ef_memory f) ?ph (pte m ?d)) k"
      by (rule fold_seg_map_cong) (rule m1(5) [OF that])
    also have "\<dots> = fold (seg_map (ef_memory f)) (?ph # drop (Suc i) phs) (pte m ?d) k" by simp
    finally show ?thesis by (simp only: Cons_nth_drop_Suc [OF i])
  qed
  ultimately show ?case using m'(2-4,6) m1(6) by (intro exI [of _ m']) simp
qed

text \<open>In an address space where the segments do not overlap, each page of a segment has the entry the segment gave it.\<close>

lemma fold_seg_map_other: "\<forall>ph \<in> set phs. k \<notin> seg_pages ph \<Longrightarrow> fold (seg_map base) phs E k = E k"
  by (induction phs arbitrary: E) (simp_all add: seg_map_def)

lemma fold_seg_map_page:
  assumes "sorted_wrt (\<lambda>a b. seg_pages a \<inter> seg_pages b = {}) phs" "ph \<in> set phs" "k \<in> seg_pages ph"
  shows "fold (seg_map base) phs E k =
    (base + of_nat (4096 * (unat (p_offset ph) div 4096 + (k - page_no (p_vaddr ph))))) OR seg_flags ph"
proof -
  obtain xs ys where s: "phs = xs @ ph # ys" using assms(2) by (auto simp: in_set_conv_decomp)
  have "\<forall>b \<in> set ys. k \<notin> seg_pages b" using assms(1,3) unfolding s by (auto simp: sorted_wrt_append)
  then show ?thesis using assms(3) by (simp add: s fold_seg_map_other) (simp add: seg_map_def)
qed

text \<open>The address of byte \<open>k\<close> of a segment, under the entry of its page.\<close>

lemma seg_count_mod:
  assumes "unat (p_vaddr ph) mod 4096 = unat (p_offset ph) mod 4096"
  shows "seg_count ph = (unat (p_vaddr ph) mod 4096 + unat (p_memsz ph) + 4095) div 4096"
proof -
  let ?r = "unat (p_vaddr ph) mod 4096" and ?q = "unat (p_offset ph) div 4096"
  have "unat (p_offset ph) = ?r + 4096 * ?q" unfolding assms by simp
  then have "unat (p_offset ph) + unat (p_memsz ph) + 4095 = (?r + unat (p_memsz ph) + 4095) + 4096 * ?q" by linarith
  then have "(unat (p_offset ph) + unat (p_memsz ph) + 4095) div 4096 = ?q + (?r + unat (p_memsz ph) + 4095) div 4096"
    by (metis div_mult_self2 zero_neq_numeral)
  then show ?thesis by (simp add: seg_count_def)
qed

lemma segment_byte:
  assumes "page_aligned base" "unat base \<le> 2147483648" "seg_fits ph" "unat (p_vaddr ph) mod 4096 = unat (p_offset ph) mod 4096"
    and "k < unat (p_memsz ph)"
    and "\<And>i. i \<in> seg_pages ph \<Longrightarrow> pte m d i = (base + of_nat (4096 * (unat (p_offset ph) div 4096 + (i - page_no (p_vaddr ph))))) OR seg_flags ph"
  shows "paging_get_physical_address m d (p_vaddr ph + of_nat k) = base + of_nat (unat (p_offset ph) + k)"
    and "pte m d (page_no (p_vaddr ph + of_nat k)) AND 7 = seg_flags ph"
proof -
  let ?v = "p_vaddr ph" and ?r = "unat (p_vaddr ph) mod 4096" and ?a = "unat (p_offset ph) div 4096"
  have o: "unat (p_offset ph) = 4096 * ?a + ?r" unfolding assms(4) by simp
  have rk: "?r + k < 4096 * seg_count ph"
    using assms(5) seg_count_mod [OF assms(4)] by simp
  have v: "unat ?v = 4096 * page_no ?v + ?r" by (simp add: page_no_def)
  have top: "page_no ?v + seg_count ph \<le> 1048576" "unat (p_offset ph) + unat (p_memsz ph) < 1073741824"
    using assms(3) by (simp_all add: seg_fits_def)
  have vk: "unat (?v + of_nat k) = 4096 * page_no ?v + (?r + k)"
    using v rk top(1) by (subst unat_plus_of_nat) simp_all
  have pn: "page_no (?v + of_nat k) = page_no ?v + (?r + k) div 4096" by (simp add: page_no_def [of "?v + of_nat k"] vk)
  have "(?r + k) div 4096 < seg_count ph" using rk by (simp add: less_mult_imp_div_less mult.commute)
  then have "page_no (?v + of_nat k) \<in> seg_pages ph" by (simp add: seg_pages_def pn)
  from assms(6) [OF this] have e: "pte m d (page_no (?v + of_nat k)) = (base + of_nat (4096 * (?a + (?r + k) div 4096))) OR seg_flags ph"
    by (simp add: pn)
  have md: "(?v + of_nat k) mod 4096 = of_nat ((?r + k) mod 4096)"
    by (simp add: word_unat_eq_iff unat_mod vk unat_of_nat_u32)
  have le: "4096 * (?a + (?r + k) div 4096) \<le> 1073741824"
  proof -
    have "4096 * ((?r + k) div 4096) \<le> ?r + k" by simp
    then have "4096 * (?a + (?r + k) div 4096) \<le> unat (p_offset ph) + k" using o by (simp add: add_mult_distrib2)
    then show ?thesis using top(2) assms(5) by simp
  qed
  have al: "page_aligned (base + of_nat (4096 * (?a + (?r + k) div 4096)))"
  proof -
    have "unat (base + of_nat (4096 * (?a + (?r + k) div 4096))) = unat base + 4096 * (?a + (?r + k) div 4096)"
      using le assms(2) by (intro unat_plus_of_nat) simp
    then show ?thesis using assms(1) by (simp only: page_aligned_def mod_mult_self2)
  qed
  have fl: "unat (seg_flags ph) < 4096" by (simp add: seg_flags_def)
  have "4096 * (?a + (?r + k) div 4096) + (?r + k) mod 4096 = unat (p_offset ph) + k" using o by simp
  then have "base + of_nat (4096 * (?a + (?r + k) div 4096)) + of_nat ((?r + k) mod 4096) = base + of_nat (unat (p_offset ph) + k)"
    by (simp only: add.assoc of_nat_add [symmetric])
  then show "paging_get_physical_address m d (?v + of_nat k) = base + of_nat (unat (p_offset ph) + k)"
    unfolding physical_address e md page_mask_or [OF al fl] .
  show "pte m d (page_no (?v + of_nat k)) AND 7 = seg_flags ph"
    unfolding e page_low_bits [OF al] by (simp add: seg_flags_def)
qed

text \<open>The directory itself is not written.\<close>

lemma map_segment_pdes:
  assumes "chunk_ok m dir" "map_segment m dir f ph = (r, m')"
  shows "chunk_ok m' dir" "i < 1024 \<Longrightarrow> pde m' dir i = pde m dir i"
proof -
  from assms(2) obtain v p e fl where "paging_map_to m dir v p e fl = (r, m')" unfolding map_segment_def Let_def by blast
  with paging_map_to_frame [OF assms(1), of v p e fl] paging_map_to_pdes [OF assms(1), of v p e fl r m' i]
  show "chunk_ok m' dir" "i < 1024 \<Longrightarrow> pde m' dir i = pde m dir i" by auto
qed

lemma map_elf_loop_pdes:
  assumes "chunk_ok m dir" "map_elf_loop m dir f tab j n r0 = (r, m')" "i < 1024"
  shows "pde m' dir i = pde m dir i"
  using assms(1,2)
proof (induction n arbitrary: m j r0)
  case (Suc n)
  obtain r1 m1 where m1: "map_segment m dir f (phdr_at m (tab + 32 * of_nat j)) = (r1, m1)"
    by (cases "map_segment m dir f (phdr_at m (tab + 32 * of_nat j))")
  note k = map_segment_pdes [OF Suc.prems(1) m1]
  show ?case using Suc.IH [OF k(1)] Suc.prems(2) m1 k(2) [OF assms(3)] by (auto split: if_splits)
qed simp

subsection \<open>Mapping a program\<close>

text \<open>The stack as a writable segment of its own block.\<close>

definition stack_phdr :: elf32_phdr where
  "stack_phdr = \<lparr>p_type = 1, p_offset = 0, p_vaddr = 0x3FB000, p_paddr = 0, p_filesz = 0, p_memsz = 16384, p_flags = 2, p_align = 0\<rparr>"

lemma stack_phdr_simps:
  "p_vaddr stack_phdr = 0x3FB000" "p_offset stack_phdr = 0" "p_memsz stack_phdr = 16384" "seg_flags stack_phdr = 7"
  "seg_pages stack_phdr = {1019..<1023}" "seg_fits stack_phdr"
  by (auto simp: stack_phdr_def seg_flags_def seg_pages_def seg_count_def seg_fits_def page_no_def)

text \<open>A program whose segments lie above the stack and do not share pages.\<close>

definition program_ok :: "u8 list \<Rightarrow> bool" where
  "program_ok file \<longleftrightarrow> elf_program file \<and> sorted_wrt (\<lambda>a b. seg_pages a \<inter> seg_pages b = {}) (elf_phdrs file) \<and>
     (\<forall>ph \<in> set (elf_phdrs file). seg_fits ph \<and> seg_pages ph \<subseteq> {1023..} \<and> unat (p_vaddr ph) mod 4096 = unat (p_offset ph) mod 4096)"

lemma live_outside_pages:
  assumes "kheap_inv s" "chunk_owned s dir" "klive s q n" "q \<notin> set (chunk_pages s dir)" "addr_in a q (4096 * n)"
  shows "outside_pages (dir_pages (mem s) (load32 (mem s) dir)) a"
  unfolding outside_pages_def
proof
  fix c assume "c \<in> set (dir_pages (mem s) (load32 (mem s) dir))"
  then have c: "c \<in> set (chunk_pages s dir)" by (simp add: chunk_pages_def chunk_dir_def)
  then have "klive s c 1" "q \<noteq> c" using assms(2,4) by (auto simp: chunk_owned_def)
  then have "apart q n c 1" using kz.live_apart [OF assms(1,3), of c 1] by blast
  then show "\<not> addr_in a c 4096" using assms(5) by (auto simp: apart_def addr_in_def)
qed

lemma process_map_memory_maps:
  fixes s :: "'a taskstate_scheme"
  assumes inv: "kheap_inv s" and pr: "procs s pr = Some p" "pr_filetype p = PROCESS_FILE_TYPE_ELF" "elf_files s (pr_ptr p) = Some f"
    "tasks s (pr_task p) = Some t" "page_directory t = dir" and own: "chunk_owned s dir"
    and img: "klive s (ef_memory f) b" "length file \<le> 4096 * b" "read_bytes (mem s) (ef_memory f) (length file) = file"
    "ef_memory f \<notin> set (chunk_pages s dir)" and ok: "program_ok file"
    and stk: "klive s (pr_stack p) 4"
  obtains m' where "process_map_memory s pr = Inr (0, s\<lparr>mem := m'\<rparr>)" "load32 m' dir = load32 (mem s) dir"
    "dir_pages m' (load32 (mem s) dir) = dir_pages (mem s) (load32 (mem s) dir)"
    "\<And>a. outside_pages (dir_pages (mem s) (load32 (mem s) dir)) a \<Longrightarrow> m' a = mem s a"
    "\<And>ph k. ph \<in> set (elf_phdrs file) \<Longrightarrow> k < unat (p_memsz ph) \<Longrightarrow>
       paging_get_physical_address m' (load32 m' dir) (p_vaddr ph + of_nat k) = ef_memory f + of_nat (unat (p_offset ph) + k)"
    "\<And>k. k < 16384 \<Longrightarrow> paging_get_physical_address m' (load32 m' dir) (0x3FB000 + of_nat k) = pr_stack p + of_nat k"
    "\<And>ph k. ph \<in> set (elf_phdrs file) \<Longrightarrow> k < unat (p_memsz ph) \<Longrightarrow> page_entry m' dir (page_no (p_vaddr ph + of_nat k)) AND 7 = seg_flags ph"
    "\<And>k. k < 16384 \<Longrightarrow> page_entry m' dir (page_no (0x3FB000 + of_nat k)) AND 7 = 7" "\<And>i. i < 1024 \<Longrightarrow> pde m' dir i = pde (mem s) dir i"
proof -
  let ?m = "mem s" and ?d = "load32 (mem s) dir" and ?phs = "elf_phdrs file" and ?h = "elf_hdr_of file" and ?b = "ef_memory f"
  have elf: "elf_program file" "\<And>ph. ph \<in> set ?phs \<Longrightarrow> seg_fits ph" using ok by (auto simp: program_ok_def)
  have bb: "page_aligned ?b" "unat ?b + 4096 * b \<le> 2147483648"
    using kz.live_bounds [OF inv img(1)] klive_aligned [OF inv img(1)] by simp_all
  have sb: "page_aligned (pr_stack p)" "unat (pr_stack p) + 16384 \<le> 2147483648"
    using kz.live_bounds [OF inv stk] klive_aligned [OF inv stk] by simp_all
  have file_there: "read_bytes m' ?b (length file) = file"
    if same: "\<And>a. outside_pages (dir_pages ?m ?d) a \<Longrightarrow> m' a = ?m a" for m'
  proof -
    have "m' (?b + of_nat i) = ?m (?b + of_nat i)" if "i < length file" for i
    proof (rule same)
      have "unat (?b + of_nat i) = unat ?b + i" using that img(2) bb(2) by (intro unat_plus_of_nat) simp
      then have "addr_in (?b + of_nat i) ?b (4096 * b)" using that img(2) by (simp add: addr_in_def)
      then show "outside_pages (dir_pages ?m ?d) (?b + of_nat i)" by (rule live_outside_pages [OF inv own img(1,4)])
    qed
    then have "read_bytes m' ?b (length file) = read_bytes ?m ?b (length file)" by (simp add: read_bytes_def)
    then show ?thesis using img(3) by simp
  qed
  have hd: "hdr_at ?m ?b = ?h" by (rule loaded_header(1) [OF elf(1) img(3)])
  have n: "length ?phs = unat (e_phnum ?h)" by (simp add: elf_phdrs_def)
  have "e_phoff ?h \<noteq> 0"
    using elf(1) by (auto simp: elf_program_def elf_validate_loaded_def elf_has_program_header_def Let_def res_simps split: if_split_asm)
  then have tab: "elf_pheader ?m ?b = ?b + e_phoff ?h" by (simp add: elf_pheader_def hd)
  have "\<exists>m1. map_elf_loop ?m dir f (?b + e_phoff ?h) 0 (length ?phs) 0 = (0, m1) \<and> chunk_ok m1 dir \<and> load32 m1 dir = ?d \<and>
    dir_pages m1 ?d = dir_pages ?m ?d \<and> (\<forall>k < 1048576. pte m1 ?d k = fold (seg_map ?b) (drop 0 ?phs) (pte ?m ?d) k) \<and>
    (\<forall>a. outside_pages (dir_pages ?m ?d) a \<longrightarrow> m1 a = ?m a)"
  proof (rule map_elf_loop_maps)
    show "phdr_at m' (?b + e_phoff ?h + 32 * of_nat j) = ?phs ! j"
      if "\<And>a. outside_pages (dir_pages ?m ?d) a \<Longrightarrow> m' a = ?m a" "j < length ?phs" for m' j
      using loaded_header(3) [OF elf(1) file_there] that n by simp
  qed (use chunk_owned_ok [OF inv own] bb elf(2) in auto)
  then obtain m1 where m1: "map_elf_loop ?m dir f (?b + e_phoff ?h) 0 (length ?phs) 0 = (0, m1)" "chunk_ok m1 dir" "load32 m1 dir = ?d"
    "dir_pages m1 ?d = dir_pages ?m ?d" "\<And>k. k < 1048576 \<Longrightarrow> pte m1 ?d k = fold (seg_map ?b) ?phs (pte ?m ?d) k"
    "\<And>a. outside_pages (dir_pages ?m ?d) a \<Longrightarrow> m1 a = ?m a" by auto
  have dir: "process_directory s' pr = Inr dir" if "procs s' = procs s" "tasks s' = tasks s" for s' :: "'a taskstate_scheme"
    using that pr by (simp add: process_directory_def)
  have elfmap: "process_map_elf s pr = Inr (0, s\<lparr>mem := m1\<rparr>)"
    using pr(1,3) dir [of s] m1(1) by (simp add: process_map_elf_def elf_header_def tab hd n)
  let ?st = "pr_stack p"
  have u: "unat (?st + 16384) = unat ?st + 16384" using sb(2) unat_plus_of_nat [of ?st 16384] by simp
  obtain q where q: "unat ?st = 4096 * q" using sb(1) by (auto simp: page_aligned_def mod_eq_0_iff_dvd)
  have "unat (?st + 16384) \<le> 4294963200" using u sb(2) by simp
  note up = align_up_page [OF this, unfolded u q]
  have ends: "page_no (paging_align_address (?st + 16384)) - page_no ?st = 4" using up(2) q by (simp add: page_no_def [of ?st])
  have "unat ?st \<le> unat (paging_align_address (?st + 16384))" using up page_no_split [OF up(1)] q by simp
  then have le: "?st \<le> paging_align_address (?st + 16384)" by (simp add: word_le_nat_alt)
  have v: "page_aligned 0x3FB000" "page_no 0x3FB000 = 1019" by (simp_all add: page_aligned_def page_no_def)
  have top: "page_no 0x3FB000 + (page_no (paging_align_address (?st + 16384)) - page_no ?st) \<le> 1048576"
    unfolding ends v by simp
  obtain m2 where m2: "paging_map_to m1 dir 0x3FB000 ?st (paging_align_address (?st + 16384)) 7 = (0, m2)"
    "load32 m2 dir = load32 m1 dir" "dir_pages m2 (load32 m1 dir) = dir_pages m1 (load32 m1 dir)"
    "\<And>k. k < 1048576 \<Longrightarrow> pte m2 (load32 m1 dir) k =
       (if page_no 0x3FB000 \<le> k \<and> k < page_no 0x3FB000 + (page_no (paging_align_address (?st + 16384)) - page_no ?st)
        then (?st + of_nat (4096 * (k - page_no 0x3FB000))) OR 7 else pte m1 (load32 m1 dir) k)"
    "\<And>a. outside_pages (dir_pages m1 (load32 m1 dir)) a \<Longrightarrow> m2 a = m1 a"
    by (rule map_to_range [OF m1(2) v(1) sb(1) up(1) le top, of 7]) (rule that)
  note m2 = m2 [unfolded ends v(2) m1(3,4)]
  have "process_map_memory s pr = Inr (0, s\<lparr>mem := m2\<rparr>)"
    using pr(1,2) elfmap dir [of "s\<lparr>mem := m1\<rparr>"] m2(1) by (simp add: process_map_memory_def)
  moreover have seg: "pte m2 ?d i = (?b + of_nat (4096 * (unat (p_offset ph) div 4096 + (i - page_no (p_vaddr ph))))) OR seg_flags ph"
    if "ph \<in> set ?phs" "i \<in> seg_pages ph" for ph i
  proof -
    have "seg_pages ph \<subseteq> {1023..}" using ok that(1) by (simp add: program_ok_def)
    then have "1023 \<le> i" using that(2) by auto
    moreover have "i < 1048576" using that(2) elf(2) [OF that(1)] by (simp add: seg_fits_def seg_pages_def)
    ultimately have "pte m2 ?d i = fold (seg_map ?b) ?phs (pte ?m ?d) i" using m2(4) m1(5) by simp
    also have "\<dots> = (?b + of_nat (4096 * (unat (p_offset ph) div 4096 + (i - page_no (p_vaddr ph))))) OR seg_flags ph"
      using ok that by (intro fold_seg_map_page) (simp_all add: program_ok_def)
    finally show ?thesis .
  qed
  have seg_at: "paging_get_physical_address m2 ?d (p_vaddr ph + of_nat k) = ?b + of_nat (unat (p_offset ph) + k)"
    "pte m2 ?d (page_no (p_vaddr ph + of_nat k)) AND 7 = seg_flags ph" if "ph \<in> set ?phs" "k < unat (p_memsz ph)" for ph k
  proof -
    have "unat ?b \<le> 2147483648" "unat (p_vaddr ph) mod 4096 = unat (p_offset ph) mod 4096"
      using bb(2) ok that(1) by (simp_all add: program_ok_def)
    from segment_byte [OF bb(1) this(1) elf(2) [OF that(1)] this(2) that(2) seg [OF that(1)]]
    show "paging_get_physical_address m2 ?d (p_vaddr ph + of_nat k) = ?b + of_nat (unat (p_offset ph) + k)"
      "pte m2 ?d (page_no (p_vaddr ph + of_nat k)) AND 7 = seg_flags ph" by simp_all
  qed
  have "paging_get_physical_address m2 ?d (0x3FB000 + of_nat k) = ?st + of_nat k" "pte m2 ?d (page_no (0x3FB000 + of_nat k)) AND 7 = 7"
    if "k < 16384" for k
  proof -
    have e: "pte m2 ?d i = (?st + of_nat (4096 * (unat (p_offset stack_phdr) div 4096 + (i - page_no (p_vaddr stack_phdr))))) OR seg_flags stack_phdr"
      if "i \<in> seg_pages stack_phdr" for i
      using that m2(4) [of i] by (simp add: stack_phdr_simps v(2))
    have "unat ?st \<le> 2147483648" using sb(2) by simp
    from segment_byte [OF sb(1) this stack_phdr_simps(6) _ _ e, of k] that
    show "paging_get_physical_address m2 ?d (0x3FB000 + of_nat k) = ?st + of_nat k" "pte m2 ?d (page_no (0x3FB000 + of_nat k)) AND 7 = 7"
      by (simp_all add: stack_phdr_simps)
  qed
  moreover have "pde m2 dir j = pde ?m dir j" if "j < 1024" for j
    using map_elf_loop_pdes [OF chunk_owned_ok [OF inv own] m1(1) that] paging_map_to_pdes [OF m1(2) m2(1) that] by simp
  ultimately show thesis using m2(2,3,5) m1(6) seg_at by (intro that [where m' = m2]) (simp_all add: page_entry_def)
qed

text \<open>Where the directory allows everything, an address has the rights of its page.\<close>

lemma page_rights_user:
  assumes "\<And>i. i < 1024 \<Longrightarrow> pde m dir i AND 7 = 7"
  shows "page_rights m dir v = page_entry m dir (page_no v) AND 7"
proof -
  have "pde m dir (page_no v div 1024) AND 7 = 7" using assms [of "page_no v div 1024"] page_no_bound [of v] by simp
  then show ?thesis unfolding page_rights_def by (metis and.assoc and.commute)
qed

subsection \<open>Loading a process\<close>

lemma task_fields:
  "elfstate.more s' = elfstate.more s \<Longrightarrow> procs s' = procs s \<and> tasks s' = tasks s \<and> task_head s' = task_head s \<and>
     task_tail s' = task_tail s \<and> current_task s' = current_task s \<and> taskstate.more s' = taskstate.more s"
  by (cases s, cases s') simp

lemma process_fields:
  "taskstate.more s' = taskstate.more s \<Longrightarrow> processes s' = processes s \<and> current_process s' = current_process s"
  by (cases s, cases s') simp

lemma task_list_cong:
  assumes "task_list s xs" "tasks s' = tasks s" "task_head s' = task_head s" "task_tail s' = task_tail s" "current_task s' = current_task s"
    and "\<And>x. klive s x 1 \<Longrightarrow> klive s' x 1"
  shows "task_list s' xs"
  using assms by (auto simp: task_list_def task_ring_def)

text \<open>
  \<open>program_loaded s pr task file\<close>: process \<open>pr\<close> has task \<open>task\<close>, which starts at the entry point of \<open>file\<close> with the stack pointer at the top
  of the stack; its address space is its own and shows every byte of every segment the file has, and the stack. User code may read every
  segment, write those the file marks writable, and the stack (\<open>page_rights\<close>: 5 for present and user, 7 for writable too).
\<close>

definition program_loaded :: "'a taskstate_scheme \<Rightarrow> u32 \<Rightarrow> u32 \<Rightarrow> u8 list \<Rightarrow> bool" where
  "program_loaded s pr task file \<longleftrightarrow> (\<exists>p t. procs s pr = Some p \<and> pr_task p = task \<and> pr_filetype p = PROCESS_FILE_TYPE_ELF \<and>
     tasks s task = Some t \<and> t_process t = pr \<and> chunk_owned s (page_directory t) \<and>
     regs t = zero_registers\<lparr>r_ip := e_entry (elf_hdr_of file), r_ss := 0x23, r_cs := 0x1b, r_esp := 0x3FF000\<rparr> \<and>
     (\<forall>ph \<in> set (elf_phdrs file). \<forall>k. k < unat (p_memsz ph) \<and> unat (p_offset ph) + k < length file \<longrightarrow>
        mem s (paging_get_physical_address (mem s) (load32 (mem s) (page_directory t)) (p_vaddr ph + of_nat k)) =
          file ! (unat (p_offset ph) + k)) \<and>
     (\<forall>ph \<in> set (elf_phdrs file). \<forall>k < unat (p_memsz ph). page_rights (mem s) (page_directory t) (p_vaddr ph + of_nat k) = seg_flags ph) \<and>
     (\<forall>i < 1024. pde (mem s) (page_directory t) i AND 7 = 7) \<and> klive s (pr_stack p) 4 \<and>
     (\<forall>k < 16384. paging_get_physical_address (mem s) (load32 (mem s) (page_directory t)) (0x3FB000 + of_nat k) = pr_stack p + of_nat k \<and>
        page_rights (mem s) (page_directory t) (0x3FB000 + of_nat k) = 7))"

text \<open>The same in two parts: the objects of the process, and the address space \<open>dir\<close> with the file at \<open>base\<close> and the stack at \<open>stk\<close>.\<close>

definition process_with :: "'a taskstate_scheme \<Rightarrow> u32 \<Rightarrow> u32 \<Rightarrow> u32 \<Rightarrow> u32 \<Rightarrow> u8 list \<Rightarrow> bool" where
  "process_with s pr task dir stk file \<longleftrightarrow> (\<exists>p t. procs s pr = Some p \<and> pr_task p = task \<and> pr_filetype p = PROCESS_FILE_TYPE_ELF \<and>
     pr_stack p = stk \<and> tasks s task = Some t \<and> t_process t = pr \<and> page_directory t = dir \<and>
     regs t = zero_registers\<lparr>r_ip := e_entry (elf_hdr_of file), r_ss := 0x23, r_cs := 0x1b, r_esp := 0x3FF000\<rparr>)"

definition address_space :: "'a mstate_scheme \<Rightarrow> u32 \<Rightarrow> u8 list \<Rightarrow> u32 \<Rightarrow> u32 \<Rightarrow> bool" where
  "address_space s dir file base stk \<longleftrightarrow> chunk_owned s dir \<and> klive s base (blocks_of (of_nat (length file))) \<and>
     base \<notin> set (chunk_pages s dir) \<and> klive s stk 4 \<and> read_bytes (mem s) base (length file) = file \<and>
     (\<forall>ph \<in> set (elf_phdrs file). \<forall>k < unat (p_memsz ph).
        paging_get_physical_address (mem s) (load32 (mem s) dir) (p_vaddr ph + of_nat k) = base + of_nat (unat (p_offset ph) + k)) \<and>
     (\<forall>k < 16384. paging_get_physical_address (mem s) (load32 (mem s) dir) (0x3FB000 + of_nat k) = stk + of_nat k) \<and>
     (\<forall>ph \<in> set (elf_phdrs file). \<forall>k < unat (p_memsz ph). page_rights (mem s) dir (p_vaddr ph + of_nat k) = seg_flags ph) \<and>
     (\<forall>k < 16384. page_rights (mem s) dir (0x3FB000 + of_nat k) = 7) \<and> (\<forall>i < 1024. pde (mem s) dir i AND 7 = 7)"

lemma program_loadedI:
  assumes "process_with s pr task dir stk file" "address_space s dir file base stk"
  shows "program_loaded s pr task file"
proof -
  from assms(1) obtain p t where p: "procs s pr = Some p" "pr_task p = task" "pr_filetype p = PROCESS_FILE_TYPE_ELF" "pr_stack p = stk"
    "tasks s task = Some t" "t_process t = pr" "page_directory t = dir"
    "regs t = zero_registers\<lparr>r_ip := e_entry (elf_hdr_of file), r_ss := 0x23, r_cs := 0x1b, r_esp := 0x3FF000\<rparr>"
    unfolding process_with_def by blast
  note a = assms(2) [unfolded address_space_def]
  have rb: "read_bytes (mem s) base (length file) = file" using a by blast
  have bytes: "mem s (base + of_nat i) = file ! i" if "i < length file" for i
    using arg_cong [OF rb, of "\<lambda>l. l ! i"] that by (simp add: read_bytes_def)
  have "\<forall>ph \<in> set (elf_phdrs file). \<forall>k. k < unat (p_memsz ph) \<and> unat (p_offset ph) + k < length file \<longrightarrow>
      mem s (paging_get_physical_address (mem s) (load32 (mem s) dir) (p_vaddr ph + of_nat k)) = file ! (unat (p_offset ph) + k)"
  proof (intro ballI allI impI)
    fix ph k assume "ph \<in> set (elf_phdrs file)" and k: "k < unat (p_memsz ph) \<and> unat (p_offset ph) + k < length file"
    then have "paging_get_physical_address (mem s) (load32 (mem s) dir) (p_vaddr ph + of_nat k) = base + of_nat (unat (p_offset ph) + k)"
      using a by blast
    then show "mem s (paging_get_physical_address (mem s) (load32 (mem s) dir) (p_vaddr ph + of_nat k)) = file ! (unat (p_offset ph) + k)"
      using bytes [of "unat (p_offset ph) + k"] k by simp
  qed
  then show ?thesis using p a unfolding program_loaded_def by (intro exI [of _ p] exI [of _ t]) simp
qed

text \<open>\<open>process_load_for_slot\<close> from \<open>task_new\<close> on.\<close>

definition load_task :: "'a procstate_scheme \<Rightarrow> u32 \<Rightarrow> int \<Rightarrow> (int \<times> u32 \<times> 'a procstate_scheme) res" where
  "load_task s process process_slot =
     bind_res (task_new s process) (\<lambda>(task, s).
     bind_res (obj_get (procs s) process) (\<lambda>p.
       if ERROR_I task < 0
       then process_load_out (set_proc s process (p\<lparr>pr_task := 0\<rparr>)) (ERROR_I task) process
       else bind_res (process_map_memory (set_proc s process (p\<lparr>pr_task := task\<rparr>)) process) (\<lambda>(res, s).
         if res < 0 then process_load_out s res process
         else bind_res (list_set (processes s) process_slot process) (\<lambda>ps. Inr (res, process, s\<lparr>processes := ps\<rparr>)))))"

lemma image_bytes:
  assumes "kheap_inv s" "klive s base (blocks_of (of_nat (length file)))" "elf_program file"
  shows "length file \<le> 4096 * blocks_of (of_nat (length file))"
    "k < length file \<Longrightarrow> addr_in (base + of_nat k) base (4096 * blocks_of (of_nat (length file)))"
proof -
  let ?n = "length file" and ?b = "blocks_of (of_nat (length file))"
  have "?n < 1073741824" using assms(3) by (simp add: elf_program_def)
  then show n: "?n \<le> 4096 * ?b" using blocks_of_covers [of "of_nat ?n"] unat_of_nat_u32 [of ?n] by simp
  have bb: "unat base + 4096 * ?b \<le> 2147483648" using kz.live_bounds [OF assms(1,2)] by simp
  show "addr_in (base + of_nat k) base (4096 * ?b)" if "k < ?n"
  proof -
    have "unat (base + of_nat k) = unat base + k" using that n bb by (intro unat_plus_of_nat) simp
    then show ?thesis using that n by (simp add: addr_in_def)
  qed
qed

text \<open>The process object, the image of the program and the stack.\<close>

lemma process_image_loaded:
  fixes s :: "'a procstate_scheme"
  assumes ready: "volume_ready img fp s" and path: "root_path path name" and inroot: "root_file img fp s name file"
    and ok: "program_ok file" and slot: "process_get s (int i) = Inr 0"
    and room: "(blocks_of (of_nat (length file)) + 4) * (card (live_set (kheap s)) + 20) + 1100 \<le> kavail s"
  obtains pr f s' p al where "process_load_for_slot s path (int i) = load_task s' pr (int i)"
    "hadds (kheap s) (mem s) (kheap s') (mem s') al" "sum_list (map snd al) = blocks_of (of_nat (length file)) + 11" "length al = 7"
    "(pr, 3) \<in> set al" "(ef_memory f, blocks_of (of_nat (length file))) \<in> set al" "(pr_stack p, 4) \<in> set al" "1027 \<le> kavail s'"
    "procs s' = (procs s)(pr \<mapsto> p)" "pr_filetype p = PROCESS_FILE_TYPE_ELF" "pr_allocations p = replicate 1024 (0, 0)"
    "elf_files s' (pr_ptr p) = Some f" "read_bytes (mem s') (ef_memory f) (length file) = file" "mounted img fp s'"
    "file_descriptors s' = file_descriptors s" "kdisk s' = kdisk s" "\<And>a n. klive s a n \<Longrightarrow> item_arrays s' a = item_arrays s a"
    "tasks s' = tasks s" "task_head s' = task_head s" "task_tail s' = task_tail s" "current_task s' = current_task s" "processes s' = processes s"
proof -
  let ?n = "length file" and ?b = "blocks_of (of_nat (length file))"
  have elf: "elf_program file" using ok by (simp add: program_ok_def)
  from ready have rd: "kheap_inv s" "mounted img fp s" by (simp_all add: volume_ready_def)
  let ?C = "card (live_set (kheap s))"
  have room': "?b * ?C + 20 * ?b + 4 * ?C + 1180 \<le> kavail s" using room by (simp add: algebra_simps)
  have bl: "fair_request 9364" "blocks_of 9364 = 3" "fair_request 16384" "blocks_of 16384 = 4"
    by (simp_all add: fair_request_def blocks_of_def)
  have r1: "(blocks_of 9364 - 1) * Suc ?C < kavail s" unfolding bl using room' by simp
  obtain pr h1 m1 where k1: "kzalloc s 9364 = Inr (pr, s\<lparr>kheap := h1, mem := m1\<rparr>)" "pr \<noteq> 0"
      "hadds (kheap s) (mem s) h1 m1 [(pr, 3)]"
    by (rule kzalloc_adds [OF rd(1) bl(1) r1]) (unfold bl(2), rule that)
  define p0 where "p0 = \<lparr>pr_id = 0, pr_filename = replicate 108 0, pr_task = 0, pr_allocations = replicate 1024 (0, 0), pr_filetype = 0,
      pr_ptr = 0, pr_stack = 0, pr_size = 0, kb_buffer = replicate 1024 0, kb_tail = 0, kb_head = 0, pr_argc = 0, pr_argv = 0\<rparr>"
  define s2 where "s2 = s\<lparr>kheap := h1, mem := m1, procs := (procs s)(pr \<mapsto> p0)\<rparr>"
  have init: "process_init (s\<lparr>kheap := h1, mem := m1\<rparr>) pr = s2" by (simp add: process_init_def set_proc_def s2_def p0_def)
  have a1: "kheap_inv s2" "card (live_set (kheap s2)) = ?C + 1" "kavail s = kavail s2 + 3"
    using haddsD(1,7,5) [OF k1(3)] by (simp_all add: s2_def)
  have mt2: "mounted img fp s2" by (rule moved_bits [OF rd(2)]) (simp_all add: s2_def)
  have ready2: "volume_ready img fp s2"
    using ready a1(1) mt2 haddsD(3) [OF k1(3)] by (auto simp: volume_ready_def) (auto simp: s2_def)
  have in2: "root_file img fp s2 name file" using inroot by (simp add: root_file_def root_holds_def s2_def)
  have r2: "?b * (card (live_set (kheap s2)) + 9) + 8 \<le> kavail s2" using room' a1 by (simp add: algebra_simps)
  obtain e base f s3 qs where L: "elf_load s2 path = Inr (0, e, s3)" "e \<noteq> 0" "elf_files s3 e = Some f" "ef_memory f = base"
    "read_bytes (mem s3) base ?n = file" "hadds (kheap s2) (mem s2) (kheap s3) (mem s3) ([(e, 1), (base, ?b)] @ map (\<lambda>q. (q, 1)) qs)" "length qs = 3"
    "elfstate.more s3 = elfstate.more s2" "mounted img fp s3" "file_descriptors s3 = file_descriptors s2" "kdisk s3 = kdisk s2"
    "\<And>a n. klive s2 a n \<Longrightarrow> item_arrays s3 a = item_arrays s2 a"
    by (rule elf_load_program [OF ready2 path in2 elf r2]) (rule that)
  note tf3 = task_fields [OF L(8)]
  define p1 where "p1 = p0\<lparr>pr_filetype := PROCESS_FILE_TYPE_ELF, pr_ptr := e\<rparr>"
  define s4 where "s4 = set_proc s3 pr p1"
  have data: "process_load_data s2 path pr = Inr (0, s4)"
    using L(1) tf3 by (simp add: process_load_data_def process_load_elf_def s4_def p1_def s2_def)
  have a4: "kheap_inv s4" "card (live_set (kheap s4)) = ?C + 6" "kavail s2 = kavail s4 + (?b + 4)"
    using haddsD(1,7,5) [OF L(6)] a1(2) L(7) by (simp_all add: s4_def set_proc_def sum_list_triv comp_def)
  have r4: "(blocks_of 16384 - 1) * Suc (card (live_set (kheap s4))) < kavail s4" unfolding bl using room' a1 a4 by simp
  obtain stk h5 m5 where k5: "kzalloc s4 16384 = Inr (stk, s4\<lparr>kheap := h5, mem := m5\<rparr>)" "stk \<noteq> 0"
      "hadds (kheap s4) (mem s4) h5 m5 [(stk, 4)]"
    by (rule kzalloc_adds [OF a4(1) bl(3) r4]) (unfold bl(4), rule that)
  have pl: "length (pr_filename p1) = 108" by (simp add: p1_def p0_def)
  have "cstring path \<noteq> [] \<and> length (cstring path) \<le> 108" "0 \<in> set path" using path by (simp_all add: root_path_def)
  then obtain nm where nm: "strncpy (pr_filename p1) 0 path 108 = Inr nm"
    using strncpy_fits [of 108 path 0 "pr_filename p1"] pl by auto
  define p2 where "p2 = p1\<lparr>pr_stack := stk, pr_filename := nm, pr_id := word_of_int (int i)\<rparr>"
  define s6 where "s6 = s4\<lparr>kheap := h5, mem := m5, procs := (procs s4)(pr \<mapsto> p2)\<rparr>"
  let ?al = "[(pr, 3)] @ ([(e, 1), (base, ?b)] @ map (\<lambda>q. (q, 1)) qs) @ [(stk, 4)]"
  have g6: "hadds (kheap s) (mem s) (kheap s6) (mem s6) ?al"
    by (rule hadds_trans [OF k1(3)], rule hadds_trans [of _ _ "kheap s3" "mem s3"])
      (use L(6) k5(3) in \<open>simp_all add: s2_def s4_def s6_def set_proc_def\<close>)
  have u5: "set_proc (set_proc (s4\<lparr>kheap := h5, mem := m5\<rparr>) pr (p1\<lparr>pr_stack := stk\<rparr>)) pr
      (p1\<lparr>pr_stack := stk, pr_filename := nm, pr_id := of_nat i\<rparr>) = s6"
    by (simp add: s6_def p2_def set_proc_def)
  have q4: "procs s4 pr = Some p1" by (simp add: s4_def set_proc_def)
  have "process_load_for_slot s path (int i) = load_task s6 pr (int i)"
    unfolding process_load_for_slot_def slot bind_res.simps k1(1) prod.case Let_def init data load_task_def
    using k1(2) k5(2) q4 by (simp add: k5(1) nm u5)
  moreover have "read_bytes (mem s6) base ?n = file"
  proof -
    have live: "klive s3 base ?b" using haddsD(3) [OF L(6)] by simp
    have inv3: "kheap_inv s3" using haddsD(1) [OF L(6)] by simp
    have "m5 (base + of_nat k) = mem s3 (base + of_nat k)" if "k < ?n" for k
      using haddsD(6) [OF k5(3), of base ?b] image_bytes(2) [OF inv3 live elf that] live by (simp add: s4_def set_proc_def)
    then have "read_bytes (mem s6) base ?n = read_bytes (mem s3) base ?n" by (simp add: read_bytes_def s6_def)
    then show ?thesis using L(5) by simp
  qed
  moreover have "mounted img fp s6" by (rule moved_bits [OF L(9)]) (simp_all add: s6_def s4_def set_proc_def)
  moreover have "item_arrays s6 a = item_arrays s a" if "klive s a n" for a n
    using L(12) [of a n] haddsD(3) [OF k1(3)] that by (simp add: s6_def s4_def s2_def set_proc_def)
  moreover have "sum_list (map snd ?al) = ?b + 11" "length ?al = 7" using L(7) by (simp_all add: comp_def sum_list_triv)
  moreover have "1027 \<le> kavail s6" using haddsD(5) [OF k5(3)] room' a1 a4 by (simp add: s6_def)
  moreover have "procs s6 = (procs s)(pr \<mapsto> p2)" "tasks s6 = tasks s" "task_head s6 = task_head s" "task_tail s6 = task_tail s"
      "current_task s6 = current_task s" "processes s6 = processes s"
    using tf3 process_fields [of s3 s2] by (simp_all add: s6_def s4_def s2_def set_proc_def)
  moreover have "elf_files s6 (pr_ptr p2) = Some f" "file_descriptors s6 = file_descriptors s" "kdisk s6 = kdisk s"
    using L(3,10,11) by (simp_all add: s6_def s4_def s2_def set_proc_def p2_def p1_def)
  moreover have "pr_filetype p2 = PROCESS_FILE_TYPE_ELF" "pr_allocations p2 = replicate 1024 (0, 0)" "pr_stack p2 = stk"
    by (simp_all add: p2_def p1_def p0_def)
  ultimately show thesis using g6 L(4) by (intro that [where pr = pr and f = f and s' = s6 and p = p2 and al = ?al]) simp_all
qed

text \<open>Its task and its address space.\<close>

lemma load_task_maps:
  fixes s :: "'a procstate_scheme"
  assumes inv: "kheap_inv s" "1027 \<le> kavail s" and tl: "task_list s xs" and i: "i < length (processes s)"
    and p: "procs s pr = Some p" "pr_filetype p = PROCESS_FILE_TYPE_ELF" "elf_files s (pr_ptr p) = Some f"
    and base: "ef_memory f = base" "klive s base (blocks_of (of_nat (length file)))" "read_bytes (mem s) base (length file) = file"
    and stk: "klive s (pr_stack p) 4" and ok: "program_ok file"
  obtains task dir s' h m tk hd tl cur where "load_task s pr (int i) = Inr (0, pr, s')"
    "s' = s\<lparr>kheap := h, mem := m, tasks := tk, task_head := hd, task_tail := tl, current_task := cur,
      procs := (procs s)(pr \<mapsto> p\<lparr>pr_task := task\<rparr>), processes := (processes s)[i := pr]\<rparr>"
    "kheap_inv s'" "task_list s' (xs @ [task])" "process_with s' pr task dir (pr_stack p) file" "address_space s' dir file base (pr_stack p)"
    "hadds (kheap s) (mem s) h m (map (\<lambda>q. (q, 1)) (task # chunk_pages s' dir))" "cur = (if xs = [] then task else current_task s)"
    "\<And>x t. x \<noteq> task \<Longrightarrow> tasks s x = Some t \<Longrightarrow> \<exists>t'. tk x = Some t' \<and> regs t' = regs t \<and> page_directory t' = page_directory t \<and> t_process t' = t_process t"
proof -
  let ?n = "length file" and ?b = "blocks_of (of_nat (length file))"
  have elf: "elf_program file" using ok by (simp add: program_ok_def)
  have p0: "pr_filetype p = 0 \<longrightarrow> elf_files s (pr_ptr p) \<noteq> None" using p(3) by simp
  obtain task chunk ip h m tk hd tl cur where T: "task_new s pr = Inr (task, s\<lparr>kheap := h, mem := m, tasks := tk, task_head := hd,
      task_tail := tl, current_task := cur\<rparr>)" "task \<notin> set xs" "task_list (s\<lparr>kheap := h, tasks := tk, task_head := hd,
      task_tail := tl, current_task := cur\<rparr>) (xs @ [task])"
    "tk task = Some (fresh_task chunk ip pr (if xs = [] then 0 else List.last xs))" "entry_point (s\<lparr>mem := m\<rparr>) pr = Some ip"
    "chunk_owned (s\<lparr>kheap := h, mem := m\<rparr>) chunk" "\<And>v. paging_get_physical_address m (load32 m chunk) v = v"
    "hadds (kheap s) (mem s) h m (map (\<lambda>q. (q, 1)) (task # chunk_pages (s\<lparr>mem := m\<rparr>) chunk))"
    "cur = (if xs = [] then task else current_task s)"
    "\<And>x t. x \<noteq> task \<Longrightarrow> tasks s x = Some t \<Longrightarrow> \<exists>t'. tk x = Some t' \<and> regs t' = regs t \<and> page_directory t' = page_directory t \<and> t_process t' = t_process t"
    "\<And>i. i < 1024 \<Longrightarrow> pde m chunk i AND 7 = 7"
    by (rule task_new_ok [OF inv tl p(1) p0]) (rule that)
  let ?t = "fresh_task chunk ip pr (if xs = [] then 0 else List.last xs)"
  define s8 where "s8 = s\<lparr>kheap := h, mem := m, tasks := tk, task_head := hd, task_tail := tl, current_task := cur,
      procs := (procs s)(pr \<mapsto> p\<lparr>pr_task := task\<rparr>)\<rparr>"
  have pages8: "chunk_pages (s\<lparr>mem := m\<rparr>) chunk = chunk_pages s8 chunk" by (simp add: s8_def chunk_pages_def chunk_dir_def)
  note g8 = haddsD [OF T(8) [unfolded pages8]]
  have own8: "chunk_owned s8 chunk" using T(6) by (simp add: chunk_owned_def chunk_pages_def chunk_dir_def s8_def)
  have k8: "kheap_inv s8" using g8(1) by (simp add: s8_def)
  have live8: "klive s8 base ?b" "klive s8 (pr_stack p) 4" using g8(3) base(2) stk by (simp_all add: s8_def)
  have notin: "base \<notin> set (chunk_pages s8 chunk)"
  proof
    assume b: "base \<in> set (chunk_pages s8 chunk)"
    then have "klive s8 base 1" using own8 by (simp add: chunk_owned_def)
    then have "?b = 1" using kz.live_size_unique [OF k8 live8(1)] by simp
    then show False using g8(4) [of base 1] base(2) b by auto
  qed
  note n = image_bytes(1) [OF k8 live8(1) elf] and inbase = image_bytes(2) [OF k8 live8(1) elf]
  have "read_bytes (mem s8) base ?n = read_bytes (mem s) base ?n"
    using g8(6) [OF base(2) inbase] by (simp add: s8_def read_bytes_def)
  then have file8: "read_bytes (mem s8) base ?n = file" using base(3) by simp
  have st8: "procs s8 pr = Some (p\<lparr>pr_task := task\<rparr>)" "pr_filetype (p\<lparr>pr_task := task\<rparr>) = PROCESS_FILE_TYPE_ELF"
    "elf_files s8 (pr_ptr (p\<lparr>pr_task := task\<rparr>)) = Some f" "tasks s8 (pr_task (p\<lparr>pr_task := task\<rparr>)) = Some ?t" "page_directory ?t = chunk"
    "klive s8 (pr_stack (p\<lparr>pr_task := task\<rparr>)) 4"
    using p T(4) live8(2) by (simp_all add: s8_def fresh_task_def)
  obtain m9 where M: "process_map_memory s8 pr = Inr (0, s8\<lparr>mem := m9\<rparr>)" "load32 m9 chunk = load32 (mem s8) chunk"
    "dir_pages m9 (load32 (mem s8) chunk) = dir_pages (mem s8) (load32 (mem s8) chunk)"
    "\<And>a. outside_pages (dir_pages (mem s8) (load32 (mem s8) chunk)) a \<Longrightarrow> m9 a = mem s8 a"
    "\<And>ph k. ph \<in> set (elf_phdrs file) \<Longrightarrow> k < unat (p_memsz ph) \<Longrightarrow>
       paging_get_physical_address m9 (load32 m9 chunk) (p_vaddr ph + of_nat k) = base + of_nat (unat (p_offset ph) + k)"
    "\<And>k. k < 16384 \<Longrightarrow> paging_get_physical_address m9 (load32 m9 chunk) (0x3FB000 + of_nat k) = pr_stack (p\<lparr>pr_task := task\<rparr>) + of_nat k"
    "\<And>ph k. ph \<in> set (elf_phdrs file) \<Longrightarrow> k < unat (p_memsz ph) \<Longrightarrow> page_entry m9 chunk (page_no (p_vaddr ph + of_nat k)) AND 7 = seg_flags ph"
    "\<And>k. k < 16384 \<Longrightarrow> page_entry m9 chunk (page_no (0x3FB000 + of_nat k)) AND 7 = 7" "\<And>j. j < 1024 \<Longrightarrow> pde m9 chunk j = pde (mem s8) chunk j"
    by (rule process_map_memory_maps [OF k8 st8(1-5) own8, unfolded base(1), OF live8(1) n file8 notin ok st8(6)]) (rule that)
  define s9 where "s9 = s8\<lparr>mem := m9, processes := (processes s)[i := pr]\<rparr>"
  have "hdr_at (mem s8) base = elf_hdr_of file" by (rule loaded_header(1) [OF elf file8])
  then have ip: "ip = e_entry (elf_hdr_of file)" using T(5) p base(1) by (simp add: entry_point_def elf_header_def s8_def)
  have "klive s8 task 1" using g8(3) [of task 1] by (simp add: s8_def)
  then have err: "\<not> ERROR_I task < 0" using live_not_err [OF k8] by (simp add: ISERR_def ERROR_I_def)
  have "set_proc (s\<lparr>kheap := h, mem := m, tasks := tk, task_head := hd, task_tail := tl, current_task := cur\<rparr>) pr (p\<lparr>pr_task := task\<rparr>) = s8"
    by (simp add: s8_def set_proc_def)
  moreover have "list_set (processes s8) (int i) pr = Inr ((processes s)[i := pr])" using i by (simp add: list_set_def s8_def)
  ultimately have "load_task s pr (int i) = Inr (0, pr, s9)" using err p(1) by (simp add: load_task_def T(1) M(1) s9_def)
  moreover have "task_list s9 (xs @ [task])" using T(3) by (simp add: task_list_def task_ring_def s9_def s8_def)
  moreover have "process_with s9 pr task chunk (pr_stack p) file"
    unfolding process_with_def using st8(1,2) T(4)
    by (intro exI [of _ "p\<lparr>pr_task := task\<rparr>"] exI [of _ ?t]) (simp add: s9_def s8_def fresh_task_def ip)
  moreover have pages9: "chunk_pages s9 chunk = chunk_pages s8 chunk"
    using M(2,3) by (simp add: chunk_pages_def chunk_dir_def s9_def)
  moreover have "address_space s9 chunk file base (pr_stack p)"
  proof -
    have "m9 (base + of_nat k) = mem s8 (base + of_nat k)" if "k < ?n" for k
      using that by (intro M(4) live_outside_pages [OF k8 own8 live8(1) notin] inbase)
    then have "read_bytes m9 base ?n = read_bytes (mem s8) base ?n" by (simp add: read_bytes_def)
    moreover have pd: "pde m9 chunk j AND 7 = 7" if "j < 1024" for j using M(9) [OF that] T(11) [OF that] by (simp add: s8_def)
    moreover note rights = page_rights_user [OF pd]
    ultimately show ?thesis
      unfolding address_space_def pages9 using own8 live8 notin file8 M(5-8)
      by (simp add: chunk_owned_def pages9) (simp add: s9_def rights pd)
  qed
  moreover have "hadds (kheap s) (mem s) h m9 (map (\<lambda>q. (q, 1)) (task # chunk_pages s8 chunk))"
  proof (rule hadds_write_inside [OF T(8) [unfolded pages8]])
    fix a assume out: "\<forall>(q, k) \<in> set (map (\<lambda>q. (q, 1)) (task # chunk_pages s8 chunk)). \<not> addr_in a q (4096 * k)"
    have "outside_pages (dir_pages (mem s8) (load32 (mem s8) chunk)) a"
      unfolding outside_pages_def
    proof
      fix c assume "c \<in> set (dir_pages (mem s8) (load32 (mem s8) chunk))"
      then have "(c, 1) \<in> set (map (\<lambda>q. (q, 1)) (task # chunk_pages s8 chunk))" by (simp add: chunk_pages_def chunk_dir_def)
      from bspec [OF out this] show "\<not> addr_in a c 4096" by simp
    qed
    then show "m9 a = m a" using M(4) by (simp add: s8_def)
  qed
  moreover have "kheap_inv s9" using k8 by (simp add: s9_def)
  moreover have "s9 = s\<lparr>kheap := h, mem := m9, tasks := tk, task_head := hd, task_tail := tl, current_task := cur,
      procs := (procs s)(pr \<mapsto> p\<lparr>pr_task := task\<rparr>), processes := (processes s)[i := pr]\<rparr>" by (simp add: s9_def s8_def)
  ultimately show thesis using T(9,10)
    by (intro that [where task = task and dir = chunk and s' = s9 and h = h and m = m9 and tk = tk and hd = hd and tl = tl and cur = cur]) simp_all
qed

lemma process_load_runs:
  fixes s :: "'a procstate_scheme"
  assumes ready: "volume_ready img fp s" and path: "root_path path name" and inroot: "root_file img fp s name file"
    and ok: "program_ok file" and slot: "length (processes s) = 12" "0 \<in> set (processes s)" and tl: "task_list s xs"
    and room: "(blocks_of (of_nat (length file)) + 4) * (card (live_set (kheap s)) + 20) + 1100 \<le> kavail s"
  obtains pr task i s' dir stk base al where "process_load s path = Inr (0, pr, s')" "i < 12" "processes s ! i = 0" "\<forall>j < i. processes s ! j \<noteq> 0"
    "processes s' = (processes s)[i := pr]"
    "program_loaded s' pr task file" "task_list s' (xs @ [task])" "kheap_inv s'"
    "process_with s' pr task dir stk file" "address_space s' dir file base stk"
    "hadds (kheap s) (mem s) (kheap s') (mem s') al" "sum_list (map snd al) = blocks_of (of_nat (length file)) + 1038"
    "length al = 1034" "(pr, 3) \<in> set al" "volume_ready img fp s'" "\<And>a n. klive s a n \<Longrightarrow> item_arrays s' a = item_arrays s a"
    "\<exists>p. procs s' = (procs s)(pr \<mapsto> p) \<and> pr_allocations p = replicate 1024 (0, 0)"
    "\<And>x t. x \<noteq> task \<Longrightarrow> tasks s x = Some t \<Longrightarrow> \<exists>t'. tasks s' x = Some t' \<and> regs t' = regs t \<and> page_directory t' = page_directory t \<and> t_process t' = t_process t"
    "current_task s' = (if xs = [] then task else current_task s)" "\<And>q. q \<in> set (chunk_pages s' dir) \<Longrightarrow> (q, 1) \<in> set al"
proof -
  let ?b = "blocks_of (of_nat (length file))"
  obtain i where i: "i < 12" "processes s ! i = 0" "free_slot_loop (\<lambda>d. d = 0) (processes s) 0 = Some i"
      "\<forall>j < i. processes s ! j \<noteq> 0"
    by (rule lowest_free_slot [OF slot(2), unfolded slot(1)]) (rule that)
  have sl: "process_get_free_slot s = int i" "process_get s (int i) = Inr 0"
    using i slot(1) by (simp_all add: process_get_free_slot_def process_get_def list_get_def)
  obtain pr f s6 p al where A: "process_load_for_slot s path (int i) = load_task s6 pr (int i)"
    "hadds (kheap s) (mem s) (kheap s6) (mem s6) al" "sum_list (map snd al) = ?b + 11" "length al = 7"
    "(pr, 3) \<in> set al" "(ef_memory f, ?b) \<in> set al" "(pr_stack p, 4) \<in> set al" "1027 \<le> kavail s6"
    "procs s6 = (procs s)(pr \<mapsto> p)" "pr_filetype p = PROCESS_FILE_TYPE_ELF" "pr_allocations p = replicate 1024 (0, 0)"
    "elf_files s6 (pr_ptr p) = Some f" "read_bytes (mem s6) (ef_memory f) (length file) = file" "mounted img fp s6"
    "file_descriptors s6 = file_descriptors s" "kdisk s6 = kdisk s" "\<And>a n. klive s a n \<Longrightarrow> item_arrays s6 a = item_arrays s a"
    "tasks s6 = tasks s" "task_head s6 = task_head s" "task_tail s6 = task_tail s" "current_task s6 = current_task s" "processes s6 = processes s"
    by (rule process_image_loaded [OF ready path inroot ok sl(2) room]) (rule that)
  note g = haddsD [OF A(2)]
  have tl6: "task_list s6 xs" by (rule task_list_cong [OF tl A(18-21)]) (simp add: g(3))
  have pr6: "procs s6 pr = Some p" "i < length (processes s6)" using A(9,22) i(1) slot(1) by simp_all
  have live6: "klive s6 (ef_memory f) ?b" "klive s6 (pr_stack p) 4" using g(3) A(6,7) by simp_all
  obtain task dir s' h m tk hd tl cur where B: "load_task s6 pr (int i) = Inr (0, pr, s')"
    "s' = s6\<lparr>kheap := h, mem := m, tasks := tk, task_head := hd, task_tail := tl, current_task := cur,
      procs := (procs s6)(pr \<mapsto> p\<lparr>pr_task := task\<rparr>), processes := (processes s6)[i := pr]\<rparr>"
    "kheap_inv s'" "task_list s' (xs @ [task])" "process_with s' pr task dir (pr_stack p) file" "address_space s' dir file (ef_memory f) (pr_stack p)"
    "hadds (kheap s6) (mem s6) h m (map (\<lambda>q. (q, 1)) (task # chunk_pages s' dir))" "cur = (if xs = [] then task else current_task s6)"
    "\<And>x t. x \<noteq> task \<Longrightarrow> tasks s6 x = Some t \<Longrightarrow> \<exists>t'. tk x = Some t' \<and> regs t' = regs t \<and> page_directory t' = page_directory t \<and> t_process t' = t_process t"
    by (rule load_task_maps [OF g(1) A(8) tl6 pr6(2,1) A(10,12) refl live6(1) A(13) live6(2) ok]) (rule that)
  let ?al = "al @ map (\<lambda>q. (q, 1)) (task # chunk_pages s' dir)"
  have load: "process_load s path = Inr (0, pr, s')" using A(1) B(1) by (simp add: process_load_def sl(1))
  have adds: "hadds (kheap s) (mem s) (kheap s') (mem s') ?al" using hadds_trans [OF A(2) B(7)] by (simp add: B(2))
  have ready': "volume_ready img fp s'"
  proof -
    have "mounted img fp s'" by (rule moved_bits [OF A(14)]) (simp_all add: B(2))
    moreover have "klive s' q n" if "klive s q n" for q n using haddsD(3) [OF adds] that by simp
    moreover have "dk_filesystem (kdisk s') = Some Fat16_fs" "file_descriptors s' = file_descriptors s"
      using A(15,16) ready by (simp_all add: B(2) volume_ready_def)
    ultimately show ?thesis using B(3) ready by (auto simp: volume_ready_def)
  qed
  have fields: "procs s' = (procs s)(pr \<mapsto> p\<lparr>pr_task := task\<rparr>)" "processes s' = (processes s)[i := pr]"
      "current_task s' = (if xs = [] then task else current_task s)" "tasks s' = tk"
    using A(9,21,22) by (simp_all add: B(2,8))
  have arrays: "item_arrays s' a = item_arrays s a" if "klive s a n" for a n using A(17) [OF that] by (simp add: B(2))
  have kept: "\<exists>t'. tasks s' x = Some t' \<and> regs t' = regs t \<and> page_directory t' = page_directory t \<and> t_process t' = t_process t"
    if "x \<noteq> task" "tasks s x = Some t" for x t
    using B(9) [OF that(1), of t] that(2) A(18) by (simp add: fields(4))
  have sizes: "sum_list (map snd ?al) = ?b + 1038" "length ?al = 1034" "(pr, 3) \<in> set ?al"
    using A(3-5) by (simp_all add: comp_def sum_list_triv length_chunk_pages)
  have own: "(q, 1) \<in> set ?al" if "q \<in> set (chunk_pages s' dir)" for q using that by simp
  show thesis
    by (rule that [OF load i(1,2,4) fields(2) program_loadedI [OF B(5,6)] B(4,3,5,6) adds sizes ready' arrays _ kept fields(3) own])
      (use fields(1) A(11) in auto)
qed

end
