(* ===== verification/FirstProcess.thy ===== *)
theory FirstProcess
  imports Boot ProcessRun
begin

text \<open>
  From power-on to a program: the machine \<open>kernel_init\<close> leaves can load a program file of the volume it has mounted. The last part is a
  volume that holds one.
\<close>

text \<open>C8: when a slot of the process table is free and the heap has room, \<open>process_load\<close> of a valid ELF program in the root directory answers 0. The
  new process is in the lowest free slot and its task at the end of the task list; the task starts at the entry point of the file with the
  stack pointer at the top of a 16 KB stack, and its own address space shows every byte of every segment the file has.\<close>

theorem process_load_program:
  fixes s :: "'a procstate_scheme"
  assumes "volume_ready img fp s" "root_path path name" "root_file img fp s name file" "program_ok file"
    and "length (processes s) = 12" "0 \<in> set (processes s)" "task_list s xs"
    and "(blocks_of (of_nat (length file)) + 4) * (card (live_set (kheap s)) + 20) + 1100 \<le> kavail s"
  shows "\<exists>pr task i s'. process_load s path = Inr (0, pr, s') \<and> i < 12 \<and> processes s ! i = 0 \<and> (\<forall>j < i. processes s ! j \<noteq> 0) \<and>
    processes s' = (processes s)[i := pr] \<and> program_loaded s' pr task file \<and> task_list s' (xs @ [task]) \<and> kheap_inv s'"
  by (rule process_load_runs [OF assms]) blast

subsection \<open>The volume a fresh kernel mounts\<close>

text \<open>The driver's view of an image, as far as the clusters of a file depend on it.\<close>

definition volume_of :: "(nat \<Rightarrow> u8) \<Rightarrow> nat \<Rightarrow> fat_private" where
  "volume_of img n = \<lparr>header = image_header img, root_directory = root_dir img (image_header img) n 0, cluster_read_stream = 0,
     fat_read_stream = 0, directory_stream = 0\<rparr>"

lemma same_geometry:
  assumes "header fp = header fq" "ending_sector_pos (root_directory fp) = ending_sector_pos (root_directory fq)"
  shows "cluster_size fp = cluster_size fq" "chain img fp = chain img fq" "cluster_pos fp = cluster_pos fq"
    "file_byte img fp = file_byte img fq" "clusters_ok img fp = clusters_ok img fq"
proof -
  show c: "cluster_size fp = cluster_size fq" by (simp add: cluster_size_def assms(1))
  have e: "fat_entry img fp = fat_entry img fq" by (simp add: fat_entry_def fun_eq_iff assms(1))
  have "chain img fp c n = chain img fq c n" for c n
    by (induction n arbitrary: c) (use e in \<open>simp_all add: fun_eq_iff\<close>)
  then show ch: "chain img fp = chain img fq" by (simp add: fun_eq_iff)
  show p: "cluster_pos fp = cluster_pos fq" by (simp add: cluster_pos_def fun_eq_iff assms(2) c)
  show "file_byte img fp = file_byte img fq" by (intro ext) (simp only: file_byte_def c ch p)
  show "clusters_ok img fp = clusters_ok img fq" by (intro ext) (simp only: clusters_ok_def c ch p)
qed

text \<open>The image has the program \<open>file\<close> in its root directory under \<open>name\<close>.\<close>

definition image_program :: "(nat \<Rightarrow> u8) \<Rightarrow> nat \<Rightarrow> u8 list \<Rightarrow> u8 list \<Rightarrow> bool" where
  "image_program img n name file \<longleftrightarrow> program_ok file \<and> (\<exists>item. image_file img n name item \<and> unat (filesize item) = length file \<and>
     clusters_ok img (volume_of img n) (unat (fat16_get_first_cluster item)) (length file) \<and>
     file = map (file_byte img (volume_of img n) (unat (fat16_get_first_cluster item))) [0..<length file])"

lemma booted_volume:
  assumes "booted img n l s" "image_program img n name file"
  obtains fp where "volume_ready img fp s" "root_file img fp s name file"
proof -
  from assms(1) obtain fp dir where fp: "mounted img fp s" "header fp = image_header img"
    "root_directory fp = root_dir img (image_header img) n dir" "klive s dir 1" "\<And>name item. image_file img n name item \<Longrightarrow> root_holds s fp name item"
    unfolding booted_def by blast
  have b: "kheap_inv s" "dk_filesystem (kdisk s) = Some Fat16_fs" "file_descriptors s = replicate 512 0"
    using assms(1) unfolding booted_def by blast+
  have "header fp = header (volume_of img n)" "ending_sector_pos (root_directory fp) = ending_sector_pos (root_directory (volume_of img n))"
    using fp(2,3) by (simp_all add: volume_of_def root_dir_def)
  note g = same_geometry(4,5) [OF this, of img]
  have "root_file img fp s name file"
    using assms(2) fp(5) unfolding image_program_def root_file_def g by blast
  moreover have "volume_ready img fp s" using fp(1,3,4) b by (auto simp: volume_ready_def root_dir_def)
  ultimately show thesis using that by blast
qed

text \<open>On a machine whose drive serves a FAT16 volume with an ELF program of at most 18 pages in its root directory, \<open>kernel_init\<close> returns
  and \<open>process_load\<close> then makes the program the first process, ready to run.\<close>

theorem first_process_loads:
  assumes "static_objects s" "drive_serves img s" "fat16_volume img n" "length (interrupt_pointer_table l) = 512"
    and "image_program img n name file" "length file \<le> 73728" "root_path path name"
  shows "\<exists>s1 pr task s2. kernel_init s l = Inr s1 \<and> process_load s1 path = Inr (0, pr, s2) \<and>
    processes s2 = pr # replicate 11 0 \<and> program_loaded s2 pr task file \<and> task_list s2 [task]"
proof -
  obtain s1 where s1: "kernel_init s l = Inr s1" "booted img n l s1" by (rule kernel_init_booted [OF assms(1-4)])
  obtain fp where fp: "volume_ready img fp s1" "root_file img fp s1 name file" by (rule booted_volume [OF s1(2) assms(5)])
  have b: "kavail s1 = 24569" "card (live_set (kheap s1)) = 1031" "processes s1 = replicate 12 0" "task_head s1 = 0"
    using s1(2) unfolding booted_def by blast+
  have ok: "program_ok file" using assms(5) by (simp add: image_program_def)
  have "unat (of_nat (length file) :: u32) = length file" using assms(6) by (intro unat_of_nat_u32) simp
  then have "blocks_of (of_nat (length file)) \<le> 18" using assms(6) by (simp add: blocks_of_def)
  then have "(blocks_of (of_nat (length file)) + 4) * 1051 \<le> 22 * 1051" by (intro mult_le_mono1) simp
  then have room: "(blocks_of (of_nat (length file)) + 4) * (card (live_set (kheap s1)) + 20) + 1100 \<le> kavail s1" using b by simp
  have slots: "length (processes s1) = 12" "0 \<in> set (processes s1)" "task_list s1 []"
    using b by (simp_all add: task_list_def)
  obtain pr task i s2 where p: "process_load s1 path = Inr (0, pr, s2)" "i < 12" "processes s1 ! i = 0" "\<forall>j < i. processes s1 ! j \<noteq> 0"
    "processes s2 = (processes s1)[i := pr]" "program_loaded s2 pr task file" "task_list s2 ([] @ [task])"
    by (rule process_load_runs [OF fp(1) assms(7) fp(2) ok slots room]) (rule that)
  have "i = 0" using p(2,4) b(3) by (cases i) auto
  then have "processes s2 = pr # replicate 11 0" using p(5) b(3) by (simp add: numeral_eq_Suc)
  with s1(1) p(1,6,7) show ?thesis by auto
qed

subsection \<open>A volume with a program\<close>

text \<open>An ELF file of 100 bytes with one segment, and the volume of Boot with this file behind its directory entry.\<close>

definition example_program :: "u8 list" where
  "example_program =
     [0x7F, 0x45, 0x4C, 0x46, 1, 1, 1, 0, 0, 0, 0, 0, 0, 0, 0, 0, 2, 0, 3, 0, 1, 0, 0, 0, 0x54, 0, 0x40, 0, 52, 0, 0, 0,
      0, 0, 0, 0, 0, 0, 0, 0, 52, 0, 32, 0, 1, 0, 40, 0, 0, 0, 0, 0,
      1, 0, 0, 0, 0, 0, 0, 0, 0, 0, 0x40, 0, 0, 0, 0x40, 0, 100, 0, 0, 0, 100, 0, 0, 0, 5, 0, 0, 0, 0, 0x10, 0, 0,
      0xEB, 0xFE, 0x90, 0x90, 0x90, 0x90, 0x90, 0x90, 0x90, 0x90, 0x90, 0x90, 0x90, 0x90, 0x90, 0x90]"

definition program_volume :: "nat \<Rightarrow> u8" where
  "program_volume p = (if p = 364570 then 2 else if p = 364572 then 100
     else if 366592 \<le> p \<and> p < 366692 then example_program ! (p - 366592) else example_volume p)"

lemma length_example_program: "length example_program = 100"
  by (simp add: example_program_def)

lemma example_program_byte: "k < 100 \<Longrightarrow> image_mem example_program (of_nat k) = example_program ! k"
  using unat_of_nat_u32 [of k] by (simp add: image_mem_def length_example_program)

lemma example_program_hdr:
  "e_phnum (elf_hdr_of example_program) = 1" "e_phoff (elf_hdr_of example_program) = 52" "e_type (elf_hdr_of example_program) = 2"
  "e_entry (elf_hdr_of example_program) = 0x400054" "e_ident (elf_hdr_of example_program) ! 4 = 1" "e_ident (elf_hdr_of example_program) ! 5 = 1"
  by (simp_all add: hdr_at_def Let_def le16_def le32_def byte_at_read bytes_at_def image_mem_def length_example_program upt_rec)
    (simp_all add: example_program_def)

lemma example_program_phdrs:
  obtains ph where "elf_phdrs example_program = [ph]" "p_vaddr ph = 0x400000" "p_offset ph = 0" "p_memsz ph = 100"
proof -
  let ?ph = "phdr_at (image_mem example_program) 52"
  have "elf_phdrs example_program = [?ph]" by (simp add: elf_phdrs_def example_program_hdr)
  moreover have "p_vaddr ?ph = 0x400000" "p_offset ?ph = 0" "p_memsz ?ph = 100"
    by (simp_all add: phdr_at_def Let_def le16_def le32_def byte_at_read image_mem_def length_example_program)
      (simp_all add: example_program_def)
  ultimately show thesis by (rule that)
qed

lemma example_program_ok: "program_ok example_program"
proof -
  have "read_bytes (image_mem example_program) 0 4 = [0x7f, 69, 76, 70]"
    by (simp add: read_bytes_def image_mem_def length_example_program upt_rec) (simp add: example_program_def)
  then have "elf_valid_signature (image_mem example_program) 0 = Inr True"
    unfolding elf_valid_signature_def by (simp only:) (simp add: eval_nat_numeral)
  then have "elf_program example_program"
    by (simp add: elf_program_def length_example_program example_program_hdr elf_validate_loaded_def Let_def
      elf_valid_class_def elf_valid_encoding_def elf_has_program_header_def elf_is_executable_def)
  moreover obtain ph where ph: "elf_phdrs example_program = [ph]" "p_vaddr ph = 0x400000" "p_offset ph = 0" "p_memsz ph = 100"
    by (rule example_program_phdrs)
  ultimately show ?thesis by (auto simp: program_ok_def ph seg_fits_def seg_pages_def seg_count_def page_no_def)
qed

lemma program_volume_low: "p < 364570 \<Longrightarrow> program_volume p = example_volume p"
  by (simp add: program_volume_def)

lemma program_volume_header: "image_header program_volume = image_header example_volume"
proof -
  have "image_bytes program_volume 0 62 = image_bytes example_volume 0 62"
    by (simp add: image_bytes_def program_volume_low del: upt_conv_Cons upt_rec_numeral)
  then show ?thesis by (simp add: image_header_def)
qed

lemma program_volume_ok: "fat16_volume program_volume 1"
  by (simp add: fat16_volume_def Let_def program_volume_header example_volume_header entry_mark_def)
    (simp add: program_volume_def example_volume_def c_literal_def)

lemma byte_at_image: "k < n \<Longrightarrow> byte_at (image_bytes img p n) k = img (p + k)"
  by (simp add: byte_at_def image_bytes_def)

text \<open>Its directory entry.\<close>

abbreviation program_entry :: fat_directory_item where
  "program_entry \<equiv> item_of_bytes (image_bytes program_volume 364544 32)"

lemma program_entry_fields:
  "dos_name program_entry = map of_char ''BLANK.ELF''" "attribute program_entry = 0x20" "filesize program_entry = 100"
  "fat16_get_first_cluster program_entry = 2"
proof -
  let ?bs = "image_bytes program_volume 364544 32"
  note b = byte_at_image [of _ 32 program_volume 364544]
  have name: "bytes_at ?bs 0 8 = [66, 76, 65, 78, 75, 32, 32, 32]" "bytes_at ?bs 8 3 = [69, 76, 70]"
    by (simp_all add: bytes_at_def upt_rec b) (simp_all add: program_volume_def example_volume_def c_literal_def)
  show "dos_name program_entry = map of_char ''BLANK.ELF''"
    by (simp add: dos_name_def item_of_bytes_def name)
  have rest: "byte_at ?bs 11 = 0x20" "le32 ?bs 28 = 100" "le16 ?bs 20 = 0" "le16 ?bs 26 = 2"
    by (simp_all add: le32_def le16_def b) (simp_all add: program_volume_def example_volume_def c_literal_def)
  then show "attribute program_entry = 0x20" "filesize program_entry = 100" "fat16_get_first_cluster program_entry = 2"
    by (simp_all add: item_of_bytes_def fat16_get_first_cluster_def)
qed

lemma program_volume_file: "image_file program_volume 1 (map of_char ''blank.elf'') program_entry"
proof -
  have items: "items_of_bytes (image_bytes program_volume 364544 2048) ! 0 = program_entry"
    "length (items_of_bytes (image_bytes program_volume 364544 2048)) = 64"
    by (simp_all add: items_of_bytes_def image_bytes_part [of 0 32 2048, simplified] del: upt_conv_Cons upt_rec_numeral)
  then have "take 1 (items_of_bytes (image_bytes program_volume 364544 2048)) = [program_entry]"
    by (cases "items_of_bytes (image_bytes program_volume 364544 2048)") simp_all
  moreover have "name_matches program_entry (map of_char ''blank.elf'' @ [0])"
    by (simp add: name_matches_def program_entry_fields tolower_def)
  ultimately have "first_match (items_of_bytes (image_bytes program_volume 364544 2048)) 1 (map of_char ''blank.elf'' @ [0]) = Some 0"
    by (simp add: first_match_def)
  moreover have "used_entries program_volume 364544 1 = 1"
    by (simp add: used_entries_def entry_mark_def program_volume_def example_volume_def c_literal_def)
  ultimately show ?thesis
    using items by (simp add: image_file_def Let_def program_volume_header example_volume_header program_entry_fields)
qed

lemma program_volume_program: "image_program program_volume 1 (map of_char ''blank.elf'') example_program"
proof -
  have r: "root_end (image_header example_volume) = 716" by (simp add: root_end_def example_volume_header)
  have cs: "cluster_size (volume_of program_volume 1) = 65536" "cluster_pos (volume_of program_volume 1) 2 = 366592"
    by (simp_all add: cluster_size_def cluster_pos_def volume_of_def program_volume_header example_volume_header root_dir_def r)
  have "file_byte program_volume (volume_of program_volume 1) 2 i = example_program ! i" if "i < 100" for i
    using that by (simp add: file_byte_def cs program_volume_def del: One_nat_def)
  then have "example_program = map (file_byte program_volume (volume_of program_volume 1) 2) [0..<100]"
    by (intro nth_equalityI) (simp_all add: length_example_program del: upt_conv_Cons upt_rec_numeral)
  moreover have "clusters_ok program_volume (volume_of program_volume 1) 2 100"
    unfolding clusters_ok_def
  proof (intro conjI allI impI)
    fix i assume "i * cluster_size (volume_of program_volume 1) < 100"
    then have "i = 0" unfolding cs by simp
    then show "\<exists>d. chain program_volume (volume_of program_volume 1) 2 i = Some d \<and> 2 \<le> d \<and>
        cluster_pos (volume_of program_volume 1) d + 2 * cluster_size (volume_of program_volume 1) < 2147483648"
      by (intro exI [of _ 2]) (simp add: cs del: One_nat_def)
  qed simp
  ultimately show ?thesis
    using program_volume_file example_program_ok
    by (auto simp: image_program_def length_example_program program_entry_fields)
qed

definition program_machine :: kernelstate where
  "program_machine = example_machine\<lparr>hw := example_device program_volume\<rparr>"

lemma program_machine_facts: "static_objects program_machine" "drive_serves program_volume program_machine"
  "length (interrupt_pointer_table example_layout) = 512" "root_path (c_literal ''0:/blank.elf'') (map of_char ''blank.elf'')"
  using example_machine_facts
  by (simp_all add: program_machine_def static_objects_def drive_serves_def example_device_serves root_path_def c_literal_def
      example_layout_def del: upt_conv_Cons upt_rec_numeral)

lemma first_process_loads_witness:
  "\<exists>s1 pr task s2. kernel_init program_machine example_layout = Inr s1 \<and>
     process_load s1 (c_literal ''0:/blank.elf'') = Inr (0, pr, s2) \<and> processes s2 = pr # replicate 11 0 \<and>
     program_loaded s2 pr task example_program \<and> task_list s2 [task]"
  by (rule first_process_loads [OF program_machine_facts(1,2) program_volume_ok program_machine_facts(3) program_volume_program _
      program_machine_facts(4)]) (simp add: length_example_program)

lemma process_load_program_witness:
  "\<exists>s1 pr task i s2. kernel_init program_machine example_layout = Inr s1 \<and> processes s1 = replicate 12 0 \<and>
     process_load s1 (c_literal ''0:/blank.elf'') = Inr (0, pr, s2) \<and> processes s2 = (processes s1)[i := pr] \<and>
     program_loaded s2 pr task example_program"
proof -
  obtain s1 where s1: "kernel_init program_machine example_layout = Inr s1" "booted program_volume 1 example_layout s1"
    by (rule kernel_init_booted [OF program_machine_facts(1,2) program_volume_ok program_machine_facts(3)])
  obtain fp where fp: "volume_ready program_volume fp s1" "root_file program_volume fp s1 (map of_char ''blank.elf'') example_program"
    by (rule booted_volume [OF s1(2) program_volume_program])
  have b: "kavail s1 = 24569" "card (live_set (kheap s1)) = 1031" "processes s1 = replicate 12 0" "task_head s1 = 0"
    using s1(2) unfolding booted_def by blast+
  have "(blocks_of (of_nat (length example_program)) + 4) * (card (live_set (kheap s1)) + 20) + 1100 \<le> kavail s1"
    using b by (simp add: length_example_program blocks_of_def)
  moreover have "length (processes s1) = 12" "0 \<in> set (processes s1)" "task_list s1 []" using b by (simp_all add: task_list_def)
  ultimately show ?thesis
    using process_load_program [OF fp(1) program_machine_facts(4) fp(2) example_program_ok, of "[]"] s1(1) b(3) by blast
qed

end
