(* ===== verification/Arguments.thy ===== *)
theory Arguments
  imports ProcessAlloc
begin

text \<open>
  Argument lists of process.c: \<open>process_inject_arguments\<close> copies a list of command arguments into pages the process may read, and leaves
  their number and the array of their addresses in the process. \<open>pgrown\<close> says how memory grows under the allocations of one process.
\<close>

subsection \<open>What an allocation of a process leaves alone\<close>

text \<open>A byte that an allocation for the process with page directory \<open>dir\<close> does not touch: below the heap, or in a block that is neither free nor a
  page of the directory.\<close>

definition undisturbed :: "'a mstate_scheme \<Rightarrow> u32 \<Rightarrow> u32 \<Rightarrow> bool" where
  "undisturbed s dir x \<longleftrightarrow> unat x < unat (saddr (kheap s)) \<or>
     (\<exists>q n. klive s q n \<and> q \<notin> set (chunk_pages s dir) \<and> addr_in x q (4096 * n))"

text \<open>\<open>pgrown s dir s' qs\<close>: from \<open>s\<close> to \<open>s'\<close> the process got exactly the pages \<open>qs\<close>, mapped to themselves and writable.\<close>

definition pgrown :: "'a mstate_scheme \<Rightarrow> u32 \<Rightarrow> 'a mstate_scheme \<Rightarrow> u32 list \<Rightarrow> bool" where
  "pgrown s dir s' qs \<longleftrightarrow> kheap_inv s' \<and> saddr (kheap s') = saddr (kheap s) \<and> chunk_owned s dir \<and> chunk_owned s' dir \<and>
     chunk_pages s' dir = chunk_pages s dir \<and> distinct qs \<and> (\<forall>q n. klive s' q n \<longleftrightarrow> klive s q n \<or> q \<in> set qs \<and> n = 1) \<and>
     (\<forall>q \<in> set qs. \<forall>n. \<not> klive s q n) \<and> kavail s = kavail s' + length qs \<and>
     (\<forall>x. undisturbed s dir x \<longrightarrow> mem s' x = mem s x) \<and>
     (\<forall>k < 1048576. page_entry (mem s') dir k = (if k \<in> page_no ` set qs then of_nat (4096 * k) OR 7 else page_entry (mem s) dir k)) \<and>
     (\<forall>i < 1024. pde (mem s') dir i = pde (mem s) dir i)"

lemma pgrownD:
  assumes "pgrown s dir s' qs"
  shows "kheap_inv s'" "saddr (kheap s') = saddr (kheap s)" "chunk_owned s' dir" "chunk_pages s' dir = chunk_pages s dir" "distinct qs"
    "klive s' q n \<longleftrightarrow> klive s q n \<or> q \<in> set qs \<and> n = 1" "q \<in> set qs \<Longrightarrow> \<not> klive s q n" "kavail s = kavail s' + length qs"
    "undisturbed s dir x \<Longrightarrow> mem s' x = mem s x"
    "k < 1048576 \<Longrightarrow> page_entry (mem s') dir k = (if k \<in> page_no ` set qs then of_nat (4096 * k) OR 7 else page_entry (mem s) dir k)"
    "chunk_owned s dir" "i < 1024 \<Longrightarrow> pde (mem s') dir i = pde (mem s) dir i"
  using assms unfolding pgrown_def by blast+

lemma pgrown_refl: "kheap_inv s \<Longrightarrow> chunk_owned s dir \<Longrightarrow> pgrown s dir s []"
  by (simp add: pgrown_def)

lemma pgrown_undisturbed: "pgrown s dir s' qs \<Longrightarrow> undisturbed s dir x \<Longrightarrow> undisturbed s' dir x"
  unfolding undisturbed_def using pgrownD(2,4,6) [of s dir s' qs] by auto

lemma pgrown_trans:
  assumes "pgrown s dir s1 qs" "pgrown s1 dir s2 rs"
  shows "pgrown s dir s2 (qs @ rs)"
proof -
  note a = pgrownD [OF assms(1)] and b = pgrownD [OF assms(2)]
  have "set qs \<inter> set rs = {}" using a(6) b(7) by blast
  then have "distinct (qs @ rs)" using a(5) b(5) by simp
  moreover have "mem s2 x = mem s x" if "undisturbed s dir x" for x
    using a(9) [OF that] b(9) pgrown_undisturbed [OF assms(1) that] by simp
  moreover have "page_entry (mem s2) dir k = (if k \<in> page_no ` set (qs @ rs) then of_nat (4096 * k) OR 7 else page_entry (mem s) dir k)"
    if "k < 1048576" for k
    using a(10) [OF that] b(10) [OF that] by (simp add: image_Un)
  moreover have "\<not> klive s q n" if "q \<in> set (qs @ rs)" for q n
    using that a(6,7) b(7) by (metis Un_iff set_append)
  ultimately show ?thesis
    unfolding pgrown_def using a(2,4,6,8,11,12) b(1-4,6,8,12) by simp blast
qed

lemma pgrown_cong: "kheap s' = kheap t \<Longrightarrow> mem s' = mem t \<Longrightarrow> pgrown s dir s' qs = pgrown s dir t qs"
  by (simp add: pgrown_def chunk_owned_def chunk_pages_def chunk_dir_def)

text \<open>The pages may be filled.\<close>

lemma pgrown_page_outside:
  assumes "pgrown s dir s' qs" "q \<in> set qs" "undisturbed s dir x"
  shows "\<not> addr_in x q 4096"
proof -
  note g = pgrownD [OF assms(1)]
  have q: "klive s' q 1" using g(6) assms(2) by simp
  from assms(3) consider "unat x < unat (saddr (kheap s))" | r n where "klive s r n" "addr_in x r (4096 * n)"
    unfolding undisturbed_def by blast
  then show ?thesis
  proof cases
    case 1
    then show ?thesis using heap_live_above [OF g(1) q] g(2) by (simp add: addr_in_def)
  next
    case 2
    have "q \<noteq> r" using g(7) [OF assms(2)] 2(1) by blast
    moreover have "klive s' r n" using g(6) 2(1) by simp
    ultimately have "apart q 1 r n" using kz.live_apart [OF g(1) q] by blast
    then show ?thesis using 2(2) by (auto simp: apart_def addr_in_def)
  qed
qed

lemma pgrown_write:
  assumes "pgrown s dir s' qs" "q \<in> set qs" "\<And>x. \<not> addr_in x q 4096 \<Longrightarrow> m x = mem s' x"
  shows "pgrown s dir (s'\<lparr>mem := m\<rparr>) qs"
proof -
  note g = pgrownD [OF assms(1)]
  have q: "klive s' q 1" using g(6) assms(2) by simp
  have same: "m x = mem s' x" if "c \<in> set (chunk_pages s' dir)" "addr_in x c 4096" for c x
  proof -
    have c: "klive s c 1" using g(4,11) that(1) by (simp add: chunk_owned_def)
    then have "c \<noteq> q" "klive s' c 1" using g(6,7) assms(2) by blast+
    then have "apart q 1 c 1" using kz.live_apart [OF g(1) q, of c 1] by blast
    then show ?thesis using that(2) by (intro assms(3)) (auto simp: apart_def addr_in_def)
  qed
  have pages: "dir_pages (mem s') (load32 (mem s') dir) @ [dir] = chunk_pages s' dir" by (simp add: chunk_pages_def chunk_dir_def)
  note tr = translations_cong [OF chunk_owned_ok [OF g(1,3)], unfolded pages, OF same]
  have cp: "chunk_pages (s'\<lparr>mem := m\<rparr>) dir = chunk_pages s' dir"
    using tr(1,3) by (simp add: chunk_pages_def chunk_dir_def dir_pages_def)
  then have "chunk_owned (s'\<lparr>mem := m\<rparr>) dir" using g(3) by (simp add: chunk_owned_def)
  moreover have "page_entry m dir k = page_entry (mem s') dir k" if "k < 1048576" for k
    using tr(1,2) that by (simp add: page_entry_def)
  moreover have "m x = mem s x" if "undisturbed s dir x" for x
    using assms(3) [OF pgrown_page_outside [OF assms(1,2) that]] g(9) [OF that] by simp
  ultimately show ?thesis
    unfolding pgrown_def using g(1,2,4-8,10-12) cp tr(4) by (intro conjI allI impI ballI) auto
qed

text \<open>One allocation of the process.\<close>

definition free_slots :: "process \<Rightarrow> nat" where
  "free_slots p = length (filter (\<lambda>(a, sz). a = 0) (pr_allocations p))"

lemma free_slots_taken:
  assumes "i < length xs" "P (xs ! i)" "\<not> P x"
  shows "length (filter P xs) = Suc (length (filter P (xs[i := x])))"
proof -
  have "xs = take i xs @ xs ! i # drop (Suc i) xs" using assms(1) by (rule id_take_nth_drop)
  then have "length (filter P xs) = length (filter P (take i xs @ xs ! i # drop (Suc i) xs))" by simp
  then show ?thesis using assms by (simp add: upd_conv_take_nth_drop)
qed

lemma process_malloc_grown:
  fixes s :: "'a taskstate_scheme"
  assumes "proc_ok s pr p dir" "0 < kavail s" "0 < unat sz" "unat sz \<le> 4096" "0 < free_slots p"
  obtains ptr h m al where "process_malloc s pr sz =
      Inr (ptr, s\<lparr>kheap := h, mem := m, procs := (procs s)(pr \<mapsto> p\<lparr>pr_allocations := al\<rparr>)\<rparr>)" "ptr \<noteq> 0"
    "pgrown s dir (s\<lparr>kheap := h, mem := m\<rparr>) [ptr]"
    "proc_ok (s\<lparr>kheap := h, mem := m, procs := (procs s)(pr \<mapsto> p\<lparr>pr_allocations := al\<rparr>)\<rparr>) pr (p\<lparr>pr_allocations := al\<rparr>) dir"
    "free_slots p = Suc (free_slots (p\<lparr>pr_allocations := al\<rparr>))"
proof -
  let ?free = "\<lambda>(a :: u32, sz :: u32). a = 0"
  have "filter ?free (pr_allocations p) \<noteq> []" using assms(5) by (auto simp: free_slots_def)
  then have "free_slot_loop ?free (pr_allocations p) 0 \<noteq> None"
    unfolding free_slot_loop_None by (simp add: filter_empty_conv)
  then obtain i where i: "free_slot_loop ?free (pr_allocations p) 0 = Some i" by blast
  obtain ptr s1 where z: "process_malloc s pr sz = Inr (ptr, s1)" "ptr \<noteq> 0" "\<And>n. \<not> klive s ptr n"
    "\<And>q n. klive s1 q n \<longleftrightarrow> klive s q n \<or> q = ptr \<and> n = 1" "kavail s1 = kavail s - 1" "kheap_inv s1"
    "procs s1 = (procs s)(pr \<mapsto> p\<lparr>pr_allocations := (pr_allocations p)[i := (ptr, sz)]\<rparr>)" "tasks s1 = tasks s"
    "\<And>k. k < 1048576 \<Longrightarrow> page_entry (mem s1) dir k = (if k = page_no ptr then ptr OR 7 else page_entry (mem s) dir k)"
    "chunk_owned s1 dir" "page_aligned ptr"
    "\<And>q n a. klive s q n \<Longrightarrow> q \<notin> set (chunk_pages s dir) \<Longrightarrow> addr_in a q (4096 * n) \<Longrightarrow> mem s1 a = mem s a"
    "\<exists>h m. s1 = s\<lparr>kheap := h, mem := m, procs := (procs s)(pr \<mapsto> p\<lparr>pr_allocations := (pr_allocations p)[i := (ptr, sz)]\<rparr>)\<rparr>"
    "chunk_pages s1 dir = chunk_pages s dir" "saddr (kheap s1) = saddr (kheap s)"
    "\<And>a. unat a < unat (saddr (kheap s)) \<Longrightarrow> mem s1 a = mem s a" "\<And>j. j < 1024 \<Longrightarrow> pde (mem s1) dir j = pde (mem s) dir j"
    by (rule process_malloc_page [OF assms(1-4) i]) (rule that)
  obtain h m where s1: "s1 = s\<lparr>kheap := h, mem := m, procs := (procs s)(pr \<mapsto> p\<lparr>pr_allocations := (pr_allocations p)[i := (ptr, sz)]\<rparr>)\<rparr>"
    using z(13) by blast
  let ?s = "s\<lparr>kheap := h, mem := m\<rparr>"
  have eq: "kheap s1 = h" "mem s1 = m" "chunk_pages s1 dir = chunk_pages ?s dir" "chunk_owned s1 dir = chunk_owned ?s dir"
    by (simp_all add: s1 chunk_owned_def chunk_pages_def chunk_dir_def)
  have own: "chunk_owned s dir" using assms(1) by (simp add: proc_ok_def)
  have ptr: "ptr = of_nat (4096 * page_no ptr)" by (simp flip: page_no_split [OF z(11)])
  have same: "m x = mem s x" if "undisturbed s dir x" for x
    using that z(12,16) unfolding undisturbed_def eq(2) by blast
  have entries: "page_entry m dir k = (if k \<in> page_no ` set [ptr] then of_nat (4096 * k) OR 7 else page_entry (mem s) dir k)" if "k < 1048576" for k
    using z(9) [OF that] ptr by (auto simp: eq(2))
  have "pgrown s dir ?s [ptr]"
    unfolding pgrown_def using z(2-6,10,14,15,17) own same entries assms(2) unfolding eq(1,3,4)
    by (intro conjI allI impI ballI) (auto simp: eq)
  moreover have "proc_ok s1 pr (p\<lparr>pr_allocations := (pr_allocations p)[i := (ptr, sz)]\<rparr>) dir"
    by (rule proc_ok_allocated [OF assms(1) z(6,10,8), where m = 1]) (use z(4,7) in simp_all)
  moreover have "free_slots p = Suc (free_slots (p\<lparr>pr_allocations := (pr_allocations p)[i := (ptr, sz)]\<rparr>))"
    using free_slot_loop_Some [OF i] z(2) free_slots_taken [of i "pr_allocations p" ?free "(ptr, sz)"]
    by (auto simp: free_slots_def split_def)
  ultimately show thesis using z(1,2) unfolding s1 by (intro that [where ptr = ptr and h = h and m = m and al = "(pr_allocations p)[i := (ptr, sz)]"]) simp_all
qed

subsection \<open>Argument lists\<close>

text \<open>The list of arguments from \<open>a\<close> on: nodes of 516 bytes, a string of at most 511 characters and the address of the next. Every byte of a
  node satisfies \<open>P\<close>.\<close>

primrec arg_list :: "(u32 \<Rightarrow> bool) \<Rightarrow> memory \<Rightarrow> u32 \<Rightarrow> u8 list list \<Rightarrow> bool" where
  "arg_list P m a [] \<longleftrightarrow> a = 0"
| "arg_list P m a (w # ws) \<longleftrightarrow> a \<noteq> 0 \<and> (\<forall>k < 516. P (a + of_nat k)) \<and> 0 \<in> set (arg_bytes m a) \<and> cstring (arg_bytes m a) = w \<and>
     arg_list P m (arg_next m a) ws"

lemma arg_node_cong:
  assumes "\<And>x. P x \<Longrightarrow> m' x = m x" "\<forall>k < 516. P (a + of_nat k)"
  shows "arg_bytes m' a = arg_bytes m a" "arg_next m' a = arg_next m a"
proof -
  have same: "m' (a + of_nat k) = m (a + of_nat k)" if "k < 516" for k using assms that by blast
  then show "arg_bytes m' a = arg_bytes m a" by (simp add: arg_bytes_def read_bytes_def)
  have "m' (a + 512 + of_nat i) = m (a + 512 + of_nat i)" if "i < 4" for i
    using same [of "512 + i"] that by (simp add: add.assoc)
  then show "arg_next m' a = arg_next m a" unfolding arg_next_def by (rule load32_cong)
qed

lemma arg_list_cong: "(\<And>x. P x \<Longrightarrow> m' x = m x) \<Longrightarrow> arg_list P m a ws \<Longrightarrow> arg_list P m' a ws"
  by (induction ws arbitrary: a) (simp_all add: arg_node_cong [of P m' m])

lemma arg_list_mono: "(\<And>x. P x \<Longrightarrow> Q x) \<Longrightarrow> arg_list P m a ws \<Longrightarrow> arg_list Q m a ws"
  by (induction ws arbitrary: a) simp_all

lemma count_arguments: "arg_list P m a ws \<Longrightarrow> count_arguments_loop m a i = Some (i + int (length ws))"
proof (induction ws arbitrary: a i)
  case Nil
  then show ?case by (simp add: count_arguments_loop.simps)
next
  case (Cons w ws)
  then show ?case by (subst count_arguments_loop.simps) simp
qed

text \<open>The array at \<open>argv\<close> holds the addresses of pages in \<open>qs\<close> with the strings \<open>ws\<close>.\<close>

definition args_at :: "memory \<Rightarrow> u32 \<Rightarrow> u32 list \<Rightarrow> u8 list list \<Rightarrow> bool" where
  "args_at m argv qs ws \<longleftrightarrow> (\<forall>j < length ws. load32 m (argv + 4 * of_nat j) \<in> set qs \<and>
     cstring (read_bytes m (load32 m (argv + 4 * of_nat j)) 512) = ws ! j)"

lemma argv_cell:
  assumes "page_aligned argv" "unat argv + 4096 \<le> 2147483648" "j < 1024"
  shows "unat (argv + 4 * of_nat j) = unat argv + 4 * j" "word_aligned (argv + 4 * of_nat j)"
proof -
  have "unat (argv + of_nat (4 * j)) = unat argv + 4 * j" using assms(2,3) by (intro unat_plus_of_nat) simp
  then show u: "unat (argv + 4 * of_nat j) = unat argv + 4 * j" by simp
  have "4096 dvd unat argv" using assms(1) by (simp add: page_aligned_def mod_eq_0_iff_dvd)
  then have "4 dvd unat argv" by (rule dvd_trans [rotated]) simp
  then show "word_aligned (argv + 4 * of_nat j)" by (simp add: word_aligned_def u mod_eq_0_iff_dvd)
qed

text \<open>Storing one argument: a page \<open>ptr\<close> with its string, and its address behind the others.\<close>

lemma args_at_snoc:
  assumes "pgrown s0 dir s (argv # qs @ [ptr])" "args_at (mem s) argv qs vs" "length vs < 1024" "length buf = 512" "cstring buf = w"
    and "m = store32 (write_bytes (mem s) ptr buf) (argv + 4 * of_nat (length vs)) ptr"
  shows "pgrown s0 dir (s\<lparr>mem := m\<rparr>) (argv # qs @ [ptr])" "args_at m argv (qs @ [ptr]) (vs @ [w])"
proof -
  note g = pgrownD [OF assms(1)]
  let ?m1 = "write_bytes (mem s) ptr buf" and ?i = "length vs"
  have live: "klive s q 1" if "q \<in> set (argv # qs @ [ptr])" for q using g(6) that by simp
  have pg: "page_aligned q" "unat q + 4096 \<le> 2147483648" if "q \<in> set (argv # qs @ [ptr])" for q
    using kz.live_bounds [OF g(1) live [OF that]] klive_aligned [OF g(1) live [OF that]] by simp_all
  have ap: "\<not> addr_in x r 4096" if "q \<in> set (argv # qs @ [ptr])" "r \<in> set (argv # qs @ [ptr])" "q \<noteq> r" "addr_in x q 4096" for q r x
    using kz.live_apart [OF g(1) live [OF that(1)] live [OF that(2)]] that(3,4) by (auto simp: apart_def addr_in_def)
  have pages: "argv \<in> set (argv # qs @ [ptr])" "ptr \<in> set (argv # qs @ [ptr])" "argv \<noteq> ptr" using g(5) by auto
  note cell = argv_cell [OF pg [OF pages(1)]]
  have w1: "?m1 x = mem s x" if "\<not> addr_in x ptr 4096" for x
    using that pg(2) [OF pages(2)] assms(4) by (intro write_bytes_outside) (auto simp: addr_in_def)
  have w2: "m x = ?m1 x" if "\<not> addr_in x argv 4096" for x
    unfolding assms(6)
    by (rule store32_outside) (use that cell(1) [OF assms(3)] assms(3) pg(2) [OF pages(1)] in \<open>auto simp: addr_in_def\<close>)
  have "pgrown s0 dir (s\<lparr>mem := ?m1\<rparr>) (argv # qs @ [ptr])" by (rule pgrown_write [OF assms(1) pages(2) w1])
  from pgrown_write [OF this pages(1), of m] w2 show "pgrown s0 dir (s\<lparr>mem := m\<rparr>) (argv # qs @ [ptr])" by simp
  have l1: "load32 ?m1 (argv + 4 * of_nat j) = load32 (mem s) (argv + 4 * of_nat j)" if "j < 1024" for j
  proof (rule load32_cong, rule w1)
    fix i :: nat assume "i < 4"
    then have "unat (argv + 4 * of_nat j + of_nat i) = unat argv + 4 * j + i"
      using cell(1) [OF that] that pg(2) [OF pages(1)] by (subst unat_plus_of_nat) simp_all
    then have "addr_in (argv + 4 * of_nat j + of_nat i) argv 4096" using that \<open>i < 4\<close> by (simp add: addr_in_def)
    then show "\<not> addr_in (argv + 4 * of_nat j + of_nat i) ptr 4096" by (rule ap [OF pages])
  qed
  have l2: "load32 m (argv + 4 * of_nat j) = (if j = ?i then ptr else load32 (mem s) (argv + 4 * of_nat j))" if "j < 1024" for j
  proof (cases "j = ?i")
    case False
    then have "argv + 4 * of_nat j \<noteq> argv + 4 * of_nat ?i"
      using cell(1) [OF that] cell(1) [OF assms(3)] by (metis add_left_cancel mult_left_cancel zero_neq_numeral)
    then show ?thesis using l1 [OF that] False cell(2) [OF that] cell(2) [OF assms(3)] by (simp add: assms(6))
  qed (simp add: assms(6))
  have inq: "addr_in (q + of_nat k) q 4096" if "q \<in> set (argv # qs @ [ptr])" "k < 512" for q k
    using pg(2) [OF that(1)] that(2) by (simp add: addr_in_def unat_plus_of_nat)
  have old: "read_bytes m q 512 = read_bytes (mem s) q 512" if q: "q \<in> set qs" for q
  proof -
    have "q \<in> set (argv # qs @ [ptr])" "q \<noteq> argv" "q \<noteq> ptr" using q g(5) by auto
    then have "m (q + of_nat k) = mem s (q + of_nat k)" if "k < 512" for k
      using w1 w2 ap [of q argv] ap [of q ptr] pages inq [of q k] that by simp
    then show ?thesis by (simp add: read_bytes_def)
  qed
  have new: "read_bytes m ptr 512 = buf"
  proof -
    have "m (ptr + of_nat k) = ?m1 (ptr + of_nat k)" if "k < 512" for k
      using w2 ap [OF pages(2,1)] pages(3) inq [OF pages(2) that] by simp
    then have "read_bytes m ptr 512 = read_bytes ?m1 ptr 512" by (simp add: read_bytes_def)
    then show ?thesis using read_write_bytes [of buf "mem s" ptr] assms(4) by simp
  qed
  show "args_at m argv (qs @ [ptr]) (vs @ [w])"
    unfolding args_at_def
  proof (intro allI impI)
    fix j assume "j < length (vs @ [w])"
    then consider "j < ?i" | "j = ?i" by fastforce
    then show "load32 m (argv + 4 * of_nat j) \<in> set (qs @ [ptr]) \<and>
        cstring (read_bytes m (load32 m (argv + 4 * of_nat j)) 512) = (vs @ [w]) ! j"
    proof cases
      case 1
      then have j: "load32 (mem s) (argv + 4 * of_nat j) \<in> set qs"
        "cstring (read_bytes (mem s) (load32 (mem s) (argv + 4 * of_nat j)) 512) = vs ! j"
        using assms(2) unfolding args_at_def by blast+
      have "load32 m (argv + 4 * of_nat j) = load32 (mem s) (argv + 4 * of_nat j)" using l2 [of j] 1 assms(3) by simp
      then show ?thesis using j old [OF j(1)] 1 by (simp add: nth_append)
    next
      case 2
      then show ?thesis using l2 [of j] new assms(3,5) by simp
    qed
  qed
qed

text \<open>The arguments stored so far stay while the bytes of their pages do, and a further allocation leaves these alone.\<close>

lemma args_at_same:
  assumes "args_at m argv qs vs" "length vs \<le> 1024"
    and pg: "\<And>q. q \<in> set (argv # qs) \<Longrightarrow> page_aligned q" "\<And>q. q \<in> set (argv # qs) \<Longrightarrow> unat q + 4096 \<le> 2147483648"
    and same: "\<And>q x. q \<in> set (argv # qs) \<Longrightarrow> addr_in x q 4096 \<Longrightarrow> m' x = m x"
  shows "args_at m' argv qs vs"
  unfolding args_at_def
proof (intro allI impI)
  fix j assume j: "j < length vs"
  then have j': "j < 1024" using assms(2) by simp
  have "load32 m' (argv + 4 * of_nat j) = load32 m (argv + 4 * of_nat j)"
  proof (rule load32_cong, rule same)
    fix i :: nat assume "i < 4"
    then have "unat (argv + 4 * of_nat j + of_nat i) = unat argv + 4 * j + i"
      using argv_cell(1) [OF pg [of argv] j'] j' pg(2) [of argv] by (subst unat_plus_of_nat) simp_all
    then show "addr_in (argv + 4 * of_nat j + of_nat i) argv 4096" using j' \<open>i < 4\<close> by (simp add: addr_in_def)
  qed simp
  moreover have q: "load32 m (argv + 4 * of_nat j) \<in> set qs" "cstring (read_bytes m (load32 m (argv + 4 * of_nat j)) 512) = vs ! j"
    using assms(1) j unfolding args_at_def by blast+
  moreover have "read_bytes m' q 512 = read_bytes m q 512" if q: "q \<in> set qs" for q
  proof -
    have "addr_in (q + of_nat k) q 4096" if "k < 512" for k
      using pg(2) [of q] q that by (simp add: addr_in_def unat_plus_of_nat)
    then show ?thesis using same [of q] q by (simp add: read_bytes_def)
  qed
  ultimately show "load32 m' (argv + 4 * of_nat j) \<in> set qs \<and> cstring (read_bytes m' (load32 m' (argv + 4 * of_nat j)) 512) = vs ! j"
    by simp
qed

lemma args_at_kept:
  assumes "pgrown s0 dir s (argv # qs)" "args_at (mem s) argv qs vs" "length vs \<le> 1024" "\<And>x. undisturbed s dir x \<Longrightarrow> m x = mem s x"
  shows "args_at m argv qs vs"
proof (rule args_at_same [OF assms(2,3)])
  note g = pgrownD [OF assms(1)]
  fix q assume q: "q \<in> set (argv # qs)"
  then have live: "klive s q 1" "\<not> klive s0 q 1" using g(6,7) by simp_all
  then show "page_aligned q" "unat q + 4096 \<le> 2147483648" using kz.live_bounds [OF g(1) live(1)] klive_aligned [OF g(1) live(1)] by simp_all
  fix x assume "addr_in x q 4096"
  then have "addr_in x q (4096 * 1)" by simp
  moreover from live(2) have "q \<notin> set (chunk_pages s dir)" unfolding g(4) using g(11) by (auto simp: chunk_owned_def)
  ultimately show "m x = mem s x" using live(1) by (intro assms(4)) (use undisturbed_def in blast)
qed

lemma proc_ok_memory:
  assumes "proc_ok s pr p dir" "chunk_owned (s\<lparr>mem := m\<rparr>) dir"
  shows "proc_ok (s\<lparr>mem := m\<rparr>) pr p dir"
  using assms by (simp add: proc_ok_def)

lemma inject_loop_copies:
  fixes s :: "'a taskstate_scheme"
  assumes "proc_ok s pr p dir" "pgrown s0 dir s (argv # qs)" "args_at (mem s) argv qs vs" "arg_list (undisturbed s0 dir) (mem s0) cur ws"
    and "length vs + length ws \<le> 1024" "length ws \<le> kavail s" "length ws \<le> free_slots p"
  shows "\<exists>h m al rs. inject_loop s pr argv cur (of_nat (length vs)) =
      Some (Inr (0, s\<lparr>kheap := h, mem := m, procs := (procs s)(pr \<mapsto> p\<lparr>pr_allocations := al\<rparr>)\<rparr>)) \<and> length rs = length ws \<and>
    pgrown s0 dir (s\<lparr>kheap := h, mem := m\<rparr>) (argv # qs @ rs) \<and> args_at m argv (qs @ rs) (vs @ ws) \<and>
    proc_ok (s\<lparr>kheap := h, mem := m, procs := (procs s)(pr \<mapsto> p\<lparr>pr_allocations := al\<rparr>)\<rparr>) pr (p\<lparr>pr_allocations := al\<rparr>) dir"
  using assms
proof (induction ws arbitrary: s p cur qs vs)
  case Nil
  have "procs s pr = Some p" using Nil(1) by (simp add: proc_ok_def)
  then have same: "s\<lparr>kheap := kheap s, mem := mem s, procs := (procs s)(pr \<mapsto> p\<lparr>pr_allocations := pr_allocations p\<rparr>)\<rparr> = s"
    "s\<lparr>kheap := kheap s, mem := mem s\<rparr> = s" "s\<lparr>procs := (procs s)(pr \<mapsto> p)\<rparr> = s" by (simp_all add: fun_upd_idem)
  have "p\<lparr>pr_allocations := pr_allocations p\<rparr> = p" by simp
  moreover have "inject_loop s pr argv cur (of_nat (length vs)) = Some (Inr (0, s))"
    using Nil(4) by (simp add: inject_loop.simps)
  ultimately show ?case using Nil(1-3)
    by (intro exI [of _ "kheap s"] exI [of _ "mem s"] exI [of _ "pr_allocations p"] exI [of _ "[]"])
      (simp only: same append_Nil2 list.size simp_thms)
next
  case (Cons w ws)
  note prem = Cons.prems
  from prem(4) have node: "cur \<noteq> 0" "\<forall>k < 516. undisturbed s0 dir (cur + of_nat k)" "0 \<in> set (arg_bytes (mem s0) cur)"
    "cstring (arg_bytes (mem s0) cur) = w" "arg_list (undisturbed s0 dir) (mem s0) (arg_next (mem s0) cur) ws" by simp_all
  have av: "0 < kavail s" "0 < free_slots p" using prem(6,7) by simp_all
  obtain ptr h1 m1 al where z: "process_malloc s pr 512 =
      Inr (ptr, s\<lparr>kheap := h1, mem := m1, procs := (procs s)(pr \<mapsto> p\<lparr>pr_allocations := al\<rparr>)\<rparr>)" "ptr \<noteq> 0"
    "pgrown s dir (s\<lparr>kheap := h1, mem := m1\<rparr>) [ptr]"
    "proc_ok (s\<lparr>kheap := h1, mem := m1, procs := (procs s)(pr \<mapsto> p\<lparr>pr_allocations := al\<rparr>)\<rparr>) pr (p\<lparr>pr_allocations := al\<rparr>) dir"
    "free_slots p = Suc (free_slots (p\<lparr>pr_allocations := al\<rparr>))"
    by (rule process_malloc_grown [OF prem(1) av(1) _ _ av(2), of 512]) (simp, simp, rule that)
  let ?s1 = "s\<lparr>kheap := h1, mem := m1\<rparr>" and ?p1 = "p\<lparr>pr_allocations := al\<rparr>"
  have g1: "pgrown s0 dir ?s1 (argv # qs @ [ptr])" using pgrown_trans [OF prem(2) z(3)] by simp
  have m1: "m1 x = mem s0 x" if "undisturbed s0 dir x" for x using pgrownD(9) [OF g1 that] by simp
  note n1 = arg_node_cong [of "undisturbed s0 dir" m1 "mem s0", OF m1 node(2)]
  define buf where "buf = overwrite (read_bytes m1 ptr 512) 0 (w @ [0])"
  have len: "length w < 512" using cstring_terminated_less [OF node(3)] node(4) by (simp add: arg_bytes_def)
  have buf: "length buf = 512" "cstring buf = w"
    using cstring_overwrite [of w 0 "read_bytes m1 ptr 512"] cstring_no_nul [of "arg_bytes (mem s0) cur"] node(4) len
    by (simp_all add: buf_def)
  have sn: "strncpy (read_bytes m1 ptr 512) 0 (arg_bytes m1 cur) 512 = Inr buf"
    using strncpy_fits [of 512 "arg_bytes m1 cur" 0 "read_bytes m1 ptr 512"] n1(1) node(3,4) len by (simp add: buf_def)
  have a1: "args_at m1 argv qs vs"
    by (rule args_at_kept [OF prem(2,3)]) (use prem(5) pgrownD(9) [OF z(3)] in simp_all)
  define m2 where "m2 = store32 (write_bytes m1 ptr buf) (argv + 4 * of_nat (length vs)) ptr"
  have st: "pgrown s0 dir (?s1\<lparr>mem := m2\<rparr>) (argv # qs @ [ptr])" "args_at m2 argv (qs @ [ptr]) (vs @ [w])"
    by (rule args_at_snoc [OF g1 _ _ buf, where vs = vs]; use a1 prem(5) in \<open>simp add: m2_def\<close>)+
  define s2 where "s2 = s\<lparr>kheap := h1, mem := m2, procs := (procs s)(pr \<mapsto> ?p1)\<rparr>"
  have u: "s\<lparr>kheap := h1, mem := m1, procs := (procs s)(pr \<mapsto> ?p1)\<rparr>\<lparr>mem := m2\<rparr> = s2" by (simp add: s2_def)
  have "m2 x = mem s0 x" if "undisturbed s0 dir x" for x using pgrownD(9) [OF st(1) that] by simp
  note nx = arg_node_cong(2) [of "undisturbed s0 dir" m2 "mem s0", OF this node(2)]
  have run: "inject_loop s pr argv cur (of_nat (length vs)) = inject_loop s2 pr argv (arg_next (mem s0) cur) (of_nat (length (vs @ [w])))"
    using node(1) z(1,2) sn nx u by (subst inject_loop.simps) (simp add: add.commute flip: m2_def)
  have g2: "pgrown s0 dir s2 (argv # qs @ [ptr])"
    using st(1) pgrown_cong [of s2 "?s1\<lparr>mem := m2\<rparr>"] by (simp add: s2_def)
  have ok2: "proc_ok s2 pr ?p1 dir"
    by (rule proc_ok_memory [OF z(4), of m2, unfolded u, OF pgrownD(3) [OF g2]])
  have bounds: "length (vs @ [w]) + length ws \<le> 1024" "length ws \<le> kavail s2" "length ws \<le> free_slots ?p1"
    using prem(5-7) pgrownD(8) [OF z(3)] z(5) by (simp_all add: s2_def)
  have a2: "args_at (mem s2) argv (qs @ [ptr]) (vs @ [w])" using st(2) by (simp add: s2_def)
  obtain h m al' rs where r: "inject_loop s2 pr argv (arg_next (mem s0) cur) (of_nat (length (vs @ [w]))) =
      Some (Inr (0, s2\<lparr>kheap := h, mem := m, procs := (procs s2)(pr \<mapsto> ?p1\<lparr>pr_allocations := al'\<rparr>)\<rparr>))" "length rs = length ws"
    "pgrown s0 dir (s2\<lparr>kheap := h, mem := m\<rparr>) (argv # (qs @ [ptr]) @ rs)" "args_at m argv ((qs @ [ptr]) @ rs) ((vs @ [w]) @ ws)"
    "proc_ok (s2\<lparr>kheap := h, mem := m, procs := (procs s2)(pr \<mapsto> ?p1\<lparr>pr_allocations := al'\<rparr>)\<rparr>) pr (?p1\<lparr>pr_allocations := al'\<rparr>) dir"
    using Cons.IH [OF ok2 g2 a2 node(5) bounds] by (elim exE conjE) (rule that)
  have "s2\<lparr>kheap := h, mem := m, procs := (procs s2)(pr \<mapsto> ?p1\<lparr>pr_allocations := al'\<rparr>)\<rparr> =
      s\<lparr>kheap := h, mem := m, procs := (procs s)(pr \<mapsto> p\<lparr>pr_allocations := al'\<rparr>)\<rparr>" by (simp add: s2_def)
  moreover have "pgrown s0 dir (s\<lparr>kheap := h, mem := m\<rparr>) (argv # (qs @ [ptr]) @ rs)"
    using r(3) pgrown_cong [of "s2\<lparr>kheap := h, mem := m\<rparr>" "s\<lparr>kheap := h, mem := m\<rparr>"] by simp
  ultimately show ?case unfolding run using r(1,2,4,5)
    by (intro exI [of _ h] exI [of _ m] exI [of _ al'] exI [of _ "ptr # rs"]) (simp del: fun_upd_apply)
qed

lemma inject_arguments_copies:
  fixes s :: "'a taskstate_scheme"
  assumes "proc_ok s pr p dir" "arg_list (undisturbed s dir) (mem s) a ws" "ws \<noteq> []" "length ws \<le> 1024"
    and "length ws < kavail s" "length ws < free_slots p"
  obtains argv h m al qs where "process_inject_arguments s pr a = Inr (0, s\<lparr>kheap := h, mem := m,
      procs := (procs s)(pr \<mapsto> p\<lparr>pr_allocations := al, pr_argc := int (length ws), pr_argv := argv\<rparr>)\<rparr>)"
    "pgrown s dir (s\<lparr>kheap := h, mem := m\<rparr>) (argv # qs)" "length qs = length ws" "args_at m argv qs ws"
    "proc_ok (s\<lparr>kheap := h, mem := m, procs := (procs s)(pr \<mapsto> p\<lparr>pr_allocations := al\<rparr>)\<rparr>) pr (p\<lparr>pr_allocations := al\<rparr>) dir"
proof -
  let ?n = "length ws"
  have n: "0 < ?n" "0 < kavail s" "0 < free_slots p" using assms(3,5,6) by auto
  have sz: "unat (4 * word_of_int (int ?n) :: u32) = 4 * ?n"
    using unat_of_nat_u32 [of "4 * ?n"] assms(4) by simp
  have szb: "0 < unat (4 * word_of_int (int ?n) :: u32)" "unat (4 * word_of_int (int ?n) :: u32) \<le> 4096"
    unfolding sz using n(1) assms(4) by simp_all
  obtain argv h1 m1 al where z: "process_malloc s pr (4 * word_of_int (int ?n)) =
      Inr (argv, s\<lparr>kheap := h1, mem := m1, procs := (procs s)(pr \<mapsto> p\<lparr>pr_allocations := al\<rparr>)\<rparr>)" "argv \<noteq> 0"
    "pgrown s dir (s\<lparr>kheap := h1, mem := m1\<rparr>) [argv]"
    "proc_ok (s\<lparr>kheap := h1, mem := m1, procs := (procs s)(pr \<mapsto> p\<lparr>pr_allocations := al\<rparr>)\<rparr>) pr (p\<lparr>pr_allocations := al\<rparr>) dir"
    "free_slots p = Suc (free_slots (p\<lparr>pr_allocations := al\<rparr>))"
    by (rule process_malloc_grown [OF assms(1) n(2) szb n(3)]) (rule that)
  define s1 where "s1 = s\<lparr>kheap := h1, mem := m1, procs := (procs s)(pr \<mapsto> p\<lparr>pr_allocations := al\<rparr>)\<rparr>"
  have g1: "pgrown s dir s1 (argv # [])" using z(3) pgrown_cong [of s1 "s\<lparr>kheap := h1, mem := m1\<rparr>"] by (simp add: s1_def)
  have ok1: "proc_ok s1 pr (p\<lparr>pr_allocations := al\<rparr>) dir" using z(4) by (simp only: s1_def)
  have bounds: "length ([] :: u8 list list) + ?n \<le> 1024" "?n \<le> kavail s1" "?n \<le> free_slots (p\<lparr>pr_allocations := al\<rparr>)"
    using assms(4-6) pgrownD(8) [OF g1] z(5) by simp_all
  have a1: "args_at (mem s1) argv [] []" by (simp add: args_at_def)
  obtain h m al' qs where r: "inject_loop s1 pr argv a (of_nat (length ([] :: u8 list list))) =
      Some (Inr (0, s1\<lparr>kheap := h, mem := m, procs := (procs s1)(pr \<mapsto> p\<lparr>pr_allocations := al\<rparr>\<lparr>pr_allocations := al'\<rparr>)\<rparr>))"
    "length qs = ?n" "pgrown s dir (s1\<lparr>kheap := h, mem := m\<rparr>) (argv # [] @ qs)" "args_at m argv ([] @ qs) ([] @ ws)"
    "proc_ok (s1\<lparr>kheap := h, mem := m, procs := (procs s1)(pr \<mapsto> p\<lparr>pr_allocations := al\<rparr>\<lparr>pr_allocations := al'\<rparr>)\<rparr>) pr
      (p\<lparr>pr_allocations := al\<rparr>\<lparr>pr_allocations := al'\<rparr>) dir"
    using inject_loop_copies [OF ok1 g1 a1 assms(2) bounds] by (elim exE conjE) (rule that)
  have s2: "s1\<lparr>kheap := h, mem := m, procs := (procs s1)(pr \<mapsto> p\<lparr>pr_allocations := al\<rparr>\<lparr>pr_allocations := al'\<rparr>)\<rparr> =
      s\<lparr>kheap := h, mem := m, procs := (procs s)(pr \<mapsto> p\<lparr>pr_allocations := al'\<rparr>)\<rparr>" by (simp add: s1_def)
  have "process_inject_arguments s pr a = Inr (0, s\<lparr>kheap := h, mem := m,
      procs := (procs s)(pr \<mapsto> p\<lparr>pr_allocations := al', pr_argc := int ?n, pr_argv := argv\<rparr>)\<rparr>)"
    using count_arguments [OF assms(2), of 0] n(1) z(1,2) r(1) s2
    by (simp add: process_inject_arguments_def process_count_command_arguments_def set_proc_def flip: s1_def)
  moreover have "pgrown s dir (s\<lparr>kheap := h, mem := m\<rparr>) (argv # qs)"
    using r(3) pgrown_cong [of "s1\<lparr>kheap := h, mem := m\<rparr>" "s\<lparr>kheap := h, mem := m\<rparr>"] by simp
  ultimately show thesis using r(2,4,5) unfolding s2 by (intro that [where argv = argv and qs = qs]) simp_all
qed

text \<open>C29: \<open>process_inject_arguments\<close> of a list of at most 1024 arguments, for a process with room in its allocation table and a heap with a free block for the
  array and one for each argument, answers 0. The process then has the number of arguments and the address of an array in a page of its own, whose entries
  are the addresses of pages of its own with the strings in order; all these pages are mapped to themselves and writable in its address space.\<close>

theorem process_inject_arguments_given:
  fixes s :: "'a taskstate_scheme"
  assumes "proc_ok s pr p dir" "arg_list (undisturbed s dir) (mem s) a ws" "ws \<noteq> []" "length ws \<le> 1024"
    and "length ws < kavail s" "length ws < free_slots p"
  shows "\<exists>argv p' s'. process_inject_arguments s pr a = Inr (0, s') \<and> procs s' pr = Some p' \<and>
    process_get_arguments p' = (int (length ws), argv) \<and> \<not> klive s argv 1 \<and> page_entry (mem s') dir (page_no argv) = argv OR 7 \<and>
    (\<forall>j < length ws. \<exists>q. load32 (mem s') (argv + 4 * of_nat j) = q \<and> cstring (read_bytes (mem s') q 512) = ws ! j \<and>
      \<not> klive s q 1 \<and> page_entry (mem s') dir (page_no q) = q OR 7)"
proof -
  obtain argv h m al qs where r: "process_inject_arguments s pr a = Inr (0, s\<lparr>kheap := h, mem := m,
      procs := (procs s)(pr \<mapsto> p\<lparr>pr_allocations := al, pr_argc := int (length ws), pr_argv := argv\<rparr>)\<rparr>)"
    "pgrown s dir (s\<lparr>kheap := h, mem := m\<rparr>) (argv # qs)" "args_at m argv qs ws"
    by (rule inject_arguments_copies [OF assms]) (rule that)
  note g = pgrownD [OF r(2)]
  have page: "\<not> klive s q 1 \<and> page_entry m dir (page_no q) = q OR 7" if "q \<in> set (argv # qs)" for q
  proof -
    have "heap_live h q 1" using g(6) that by simp
    then have "page_aligned q" using klive_aligned [OF g(1), of q 1] by simp
    then have "of_nat (4096 * page_no q) = q" by (simp flip: page_no_split)
    then show ?thesis using g(7) [OF that] g(10) [OF page_no_bound [of q]] that by auto
  qed
  then show ?thesis
    using r(1,3) by (intro exI [of _ argv] exI conjI) (auto simp: process_get_arguments_def args_at_def)
qed

text \<open>A process that passes on one of its own pages with the string \<open>h\<close>.\<close>

lemma process_inject_arguments_given_witness:
  "\<exists>(s :: taskstate) a argv p' s'. process_inject_arguments s 0x01050000 a = Inr (0, s') \<and> procs s' 0x01050000 = Some p' \<and>
    process_get_arguments p' = (1, argv) \<and> cstring (read_bytes (mem s') (load32 (mem s') argv) 512) = [104]"
proof -
  obtain s :: taskstate and p dir where e: "proc_ok s 0x01050000 p dir" "0 < kavail s" "pr_allocations p = replicate 1024 (0, 0)" "10 \<le> kavail s"
    by (rule example_proc) (rule that)
  have fs: "0 < free_slots p" by (simp add: free_slots_def e(3))
  obtain a h m al where z: "process_malloc s 0x01050000 516 =
      Inr (a, s\<lparr>kheap := h, mem := m, procs := (procs s)(0x01050000 \<mapsto> p\<lparr>pr_allocations := al\<rparr>)\<rparr>)" "a \<noteq> 0"
    "pgrown s dir (s\<lparr>kheap := h, mem := m\<rparr>) [a]"
    "proc_ok (s\<lparr>kheap := h, mem := m, procs := (procs s)(0x01050000 \<mapsto> p\<lparr>pr_allocations := al\<rparr>)\<rparr>) 0x01050000 (p\<lparr>pr_allocations := al\<rparr>) dir"
    "free_slots p = Suc (free_slots (p\<lparr>pr_allocations := al\<rparr>))"
    by (rule process_malloc_grown [OF e(1,2) _ _ fs, of 516]) (simp, simp, rule that)
  note g = pgrownD [OF z(3)]
  have la: "heap_live h a 1" using g(6) by simp
  have bnd: "unat a + 4096 \<le> 2147483648" using kz.live_bounds [OF g(1), of a 1] la by simp
  define m1 where "m1 = store32 (write_bytes m a [104, 0]) (a + 512) 0"
  let ?s = "s\<lparr>kheap := h, mem := m1, procs := (procs s)(0x01050000 \<mapsto> p\<lparr>pr_allocations := al\<rparr>)\<rparr>" and ?p = "p\<lparr>pr_allocations := al\<rparr>"
  have u: "unat (a + of_nat k) = unat a + k" if "k < 4096" for k using bnd that by (intro unat_plus_of_nat) simp
  have w2: "m1 x = write_bytes m a [104, 0] x" if "\<not> addr_in x (a + 512) 4" for x
    unfolding m1_def by (rule store32_outside [OF that]) (use u [of 512] bnd in simp)
  have "m1 x = m x" if "\<not> addr_in x a 4096" for x
  proof -
    have "\<not> addr_in x (a + 512) 4" "\<not> addr_in x a (length [104, 0 :: u8])" using that u [of 512] by (auto simp: addr_in_def)
    then show ?thesis using w2 write_bytes_outside [of a "[104, 0]" x m] bnd by simp
  qed
  from pgrown_write [OF z(3), of a m1] this have g1: "pgrown s dir (s\<lparr>kheap := h, mem := m\<rparr>\<lparr>mem := m1\<rparr>) [a]" by simp
  have eq: "s\<lparr>kheap := h, mem := m, procs := (procs s)(0x01050000 \<mapsto> ?p)\<rparr>\<lparr>mem := m1\<rparr> = ?s" by simp
  have own: "chunk_owned ?s dir" using pgrownD(3) [OF g1] by (simp add: chunk_owned_def chunk_pages_def chunk_dir_def)
  have ok: "proc_ok ?s 0x01050000 ?p dir" by (rule proc_ok_memory [OF z(4), of m1, unfolded eq, OF own])
  have b: "m1 a = 104" "m1 (a + 1) = 0"
  proof -
    have "\<not> addr_in (a + of_nat k) (a + 512) 4" if "k < 2" for k using that u [of k] u [of 512] by (simp add: addr_in_def)
    from this [of 0] this [of 1] show "m1 a = 104" "m1 (a + 1) = 0" by (simp_all add: w2 write_bytes_def)
  qed
  have upt: "[0..<512] = 0 # 1 # [2..<512]" using upt_conv_Cons [of 0 512] upt_conv_Cons [of 1 512]
    by (simp add: numeral_2_eq_2 del: upt_conv_Cons upt_rec_numeral)
  have bytes: "arg_bytes m1 a = 104 # 0 # map (\<lambda>i. m1 (a + of_nat i)) [2..<512]"
    unfolding arg_bytes_def read_bytes_def upt using b by (simp del: upt_conv_Cons upt_rec_numeral)
  have free: "undisturbed ?s dir (a + of_nat k)" if "k < 516" for k
  proof -
    have "a \<notin> set (chunk_pages s dir)" using g(7,11) by (auto simp: chunk_owned_def)
    then have "a \<notin> set (chunk_pages ?s dir)" using pgrownD(4) [OF g1] by (simp add: chunk_pages_def chunk_dir_def)
    moreover have "addr_in (a + of_nat k) a (4096 * 1)" using u [of k] that by (simp add: addr_in_def)
    ultimately show ?thesis using la unfolding undisturbed_def by (intro disjI2 exI [of _ a] exI [of _ 1]) simp
  qed
  have lst: "arg_list (undisturbed ?s dir) (mem ?s) a [[104]]"
    using z(2) free by (simp add: bytes cstring_def arg_next_def) (simp add: m1_def)
  have "length [[104 :: u8]] < kavail ?s" "length [[104 :: u8]] < free_slots ?p"
    using e(4) g(8) z(5) by (simp_all add: free_slots_def e(3))
  from process_inject_arguments_given [OF ok lst _ _ this] show ?thesis by fastforce
qed

end
