(* ===== verification/KernelRun.thy ===== *)
theory KernelRun
  imports FirstProcess Arguments System
begin

text \<open>
  \<open>kernel_main\<close> from power-on to the first instruction of user code: it loads the program twice, gives each process its argument and
  enters the task of the first.
\<close>

subsection \<open>Address spaces that stay\<close>

text \<open>An address space is what it was while the blocks it is made of are.\<close>

lemma address_space_kept:
  assumes "kheap_inv s" "address_space s dir file base stk" and len: "length file < 4294967296"
    and bytes: "\<And>q n x. q = base \<or> q \<in> set (chunk_pages s dir) \<Longrightarrow> klive s q n \<Longrightarrow> addr_in x q (4096 * n) \<Longrightarrow> mem s' x = mem s x"
    and live: "\<And>q n. klive s q n \<Longrightarrow> klive s' q n"
  shows "address_space s' dir file base stk"
proof -
  note a = assms(2) [unfolded address_space_def]
  let ?b = "blocks_of (of_nat (length file))"
  have own: "chunk_owned s dir" "klive s base ?b" using a by blast+
  have pages: "dir_pages (mem s) (load32 (mem s) dir) @ [dir] = chunk_pages s dir" by (simp add: chunk_pages_def chunk_dir_def)
  have same: "mem s' x = mem s x" if "q \<in> set (chunk_pages s dir)" "addr_in x q 4096" for q x
    using bytes [of q 1 x] own(1) that by (simp add: chunk_owned_def)
  note tr = translations_cong [OF chunk_owned_ok [OF assms(1) own(1)], unfolded pages, OF same]
  have cp: "chunk_pages s' dir = chunk_pages s dir"
    using tr(1,3) by (simp add: chunk_pages_def chunk_dir_def dir_pages_def)
  have phys: "paging_get_physical_address (mem s') (load32 (mem s') dir) v = paging_get_physical_address (mem s) (load32 (mem s) dir) v" for v
    using tr(1) tr(2) [OF _ _ page_no_bound [of v]] by (simp add: physical_address)
  have rights: "page_rights (mem s') dir v = page_rights (mem s) dir v" for v
    by (rule page_rights_cong) (use tr(1,4) tr(2) [OF _ _ page_no_bound [of v]] in \<open>simp_all add: page_entry_def\<close>)
  have rb: "read_bytes (mem s') base (length file) = read_bytes (mem s) base (length file)"
  proof -
    have "mem s' (base + of_nat k) = mem s (base + of_nat k)" if "k < length file" for k
    proof (rule bytes [OF _ own(2)])
      have "length file \<le> 4096 * ?b" using blocks_of_covers [of "of_nat (length file)"] unat_of_nat_u32 [OF len] by simp
      moreover have "unat base + 4096 * ?b \<le> 2147483648" using kz.live_bounds [OF assms(1) own(2)] by simp
      ultimately show "addr_in (base + of_nat k) base (4096 * ?b)" using that by (simp add: addr_in_def unat_plus_of_nat)
    qed simp
    then show ?thesis by (simp add: read_bytes_def)
  qed
  have "chunk_owned s' dir" using own(1) live by (simp add: chunk_owned_def cp)
  moreover have "\<forall>i < 1024. pde (mem s') dir i AND 7 = 7" using a tr(4) by auto
  ultimately show ?thesis unfolding address_space_def phys rights cp rb using a live by blast
qed

text \<open>The allocations of the process itself, when its segments lie below the heap.\<close>

definition below_heap :: "u8 list \<Rightarrow> nat \<Rightarrow> bool" where
  "below_heap file limit \<longleftrightarrow> (\<forall>ph \<in> set (elf_phdrs file). unat (p_vaddr ph) + unat (p_memsz ph) \<le> limit)"

lemma pgrown_translation:
  assumes "pgrown s dir s' qs" "unat v < unat (saddr (kheap s))"
  shows "paging_get_physical_address (mem s') (load32 (mem s') dir) v = paging_get_physical_address (mem s) (load32 (mem s) dir) v"
    "page_rights (mem s') dir v = page_rights (mem s) dir v"
proof -
  note g = pgrownD [OF assms(1)]
  have "page_no v \<notin> page_no ` set qs"
  proof
    assume "page_no v \<in> page_no ` set qs"
    then obtain q where q: "q \<in> set qs" "page_no v = page_no q" by auto
    have lq: "klive s' q 1" using g(6) q(1) by simp
    have "unat q = 4096 * page_no q" by (rule page_no_split [OF klive_aligned [OF g(1) lq]])
    moreover have "unat (saddr (kheap s)) \<le> unat q" using heap_live_above [OF g(1) lq] g(2) by simp
    moreover have "4096 * page_no v \<le> unat v" by (simp add: page_no_def)
    ultimately show False using assms(2) q(2) by simp
  qed
  then have e: "page_entry (mem s') dir (page_no v) = page_entry (mem s) dir (page_no v)" using g(10) [OF page_no_bound [of v]] by simp
  then show "paging_get_physical_address (mem s') (load32 (mem s') dir) v = paging_get_physical_address (mem s) (load32 (mem s) dir) v"
    by (simp add: physical_address page_entry_def)
  show "page_rights (mem s') dir v = page_rights (mem s) dir v" by (rule page_rights_cong) (use g(12) e in auto)
qed

lemma address_space_own:
  assumes "kheap_inv s" "address_space s dir file base stk" "length file < 4294967296" "pgrown s dir s' qs"
    and "below_heap file (unat (saddr (kheap s)))" "0x3FF000 \<le> unat (saddr (kheap s))"
  shows "address_space s' dir file base stk"
proof -
  note a = assms(2) [unfolded address_space_def] and g = pgrownD [OF assms(4)]
  let ?b = "blocks_of (of_nat (length file))"
  have "paging_get_physical_address (mem s') (load32 (mem s') dir) (p_vaddr ph + of_nat k) = base + of_nat (unat (p_offset ph) + k) \<and>
      page_rights (mem s') dir (p_vaddr ph + of_nat k) = seg_flags ph"
    if "ph \<in> set (elf_phdrs file)" "k < unat (p_memsz ph)" for ph k
  proof -
    have le: "unat (p_vaddr ph) + unat (p_memsz ph) \<le> unat (saddr (kheap s))" using assms(5) that(1) by (simp add: below_heap_def)
    then have "unat (p_vaddr ph) + k < 4294967296" using that(2) unat_u32_bound [of "saddr (kheap s)"] by linarith
    then have "unat (p_vaddr ph + of_nat k) < unat (saddr (kheap s))" using le that(2) by (simp add: unat_plus_of_nat)
    from pgrown_translation [OF assms(4) this] show ?thesis using a that by simp
  qed
  moreover have "paging_get_physical_address (mem s') (load32 (mem s') dir) (0x3FB000 + of_nat k) = stk + of_nat k \<and>
      page_rights (mem s') dir (0x3FB000 + of_nat k) = 7" if "k < 16384" for k
  proof -
    have "unat (0x3FB000 + of_nat k :: u32) = 0x3FB000 + k" using that by (subst unat_plus_of_nat) simp_all
    then have "unat (0x3FB000 + of_nat k :: u32) < unat (saddr (kheap s))" using assms(6) that by simp
    from pgrown_translation [OF assms(4) this] show ?thesis using a that by simp
  qed
  moreover have "read_bytes (mem s') base (length file) = file"
  proof -
    have lb: "klive s base ?b" "base \<notin> set (chunk_pages s dir)" using a by blast+
    have "mem s' (base + of_nat k) = mem s (base + of_nat k)" if "k < length file" for k
    proof (rule g(9))
      have "length file \<le> 4096 * ?b" using blocks_of_covers [of "of_nat (length file)"] unat_of_nat_u32 [OF assms(3)] by simp
      moreover have "unat base + 4096 * ?b \<le> 2147483648" using kz.live_bounds [OF assms(1) lb(1)] by simp
      ultimately have "addr_in (base + of_nat k) base (4096 * ?b)" using that by (simp add: addr_in_def unat_plus_of_nat)
      then show "undisturbed s dir (base + of_nat k)" unfolding undisturbed_def using lb by blast
    qed
    then have "read_bytes (mem s') base (length file) = read_bytes (mem s) base (length file)" by (simp add: read_bytes_def)
    then show ?thesis using a by simp
  qed
  moreover have "\<forall>i < 1024. pde (mem s') dir i AND 7 = 7" using a g(12) by auto
  ultimately show ?thesis unfolding address_space_def g(4) using a g(3,6) by blast
qed

lemma pgrown_card:
  assumes "pgrown s dir s' qs"
  shows "card (live_set (kheap s')) = card (live_set (kheap s)) + length qs"
proof -
  note g = pgrownD [OF assms]
  have "live_set (kheap s') = live_set (kheap s) \<union> (\<lambda>q. (q, 1)) ` set qs" using g(6) by (auto simp: live_set_def)
  moreover have "live_set (kheap s) \<inter> (\<lambda>q. (q, 1)) ` set qs = {}" using g(7) by (auto simp: live_set_def)
  moreover have "card ((\<lambda>q. (q, 1 :: nat)) ` set qs) = length qs"
    using distinct_card [OF g(5)] by (subst card_image) (auto simp: inj_on_def)
  ultimately show ?thesis using card_Un_disjoint [OF live_set_finite] by simp
qed

subsection \<open>Processes that stay\<close>

text \<open>A page of the process, none of its tables, mapped to itself for the user to read and write.\<close>

definition own_page :: "memory \<Rightarrow> u32 \<Rightarrow> u32 \<Rightarrow> bool" where
  "own_page m dir q \<longleftrightarrow> page_entry m dir (page_no q) = q OR 7 \<and> page_rights m dir q = 7 \<and> q \<notin> set (dir_pages m (load32 m dir) @ [dir])"

lemma own_page_kept:
  assumes "chunk_ok m dir" "own_page m dir q"
    and same: "\<And>c x. c \<in> set (dir_pages m (load32 m dir) @ [dir]) \<Longrightarrow> addr_in x c 4096 \<Longrightarrow> m' x = m x"
  shows "own_page m' dir q"
proof -
  note tr = translations_cong [OF assms(1) same]
  have e: "page_entry m' dir (page_no q) = page_entry m dir (page_no q)"
    using tr(1) tr(2) [OF _ _ page_no_bound [of q]] by (simp add: page_entry_def)
  moreover have "page_rights m' dir q = page_rights m dir q"
    by (rule page_rights_cong [OF _ e]) (use tr(4) in simp)
  moreover have "dir_pages m' (load32 m' dir) = dir_pages m (load32 m dir)"
    using tr(1,3) by (simp add: dir_pages_def)
  ultimately show ?thesis using assms(2) by (simp add: own_page_def)
qed

text \<open>Process \<open>pr\<close> with page directory \<open>dir\<close> has been given the arguments \<open>ws\<close>.\<close>

definition process_arguments :: "'a taskstate_scheme \<Rightarrow> u32 \<Rightarrow> u32 \<Rightarrow> u8 list list \<Rightarrow> bool" where
  "process_arguments s pr dir ws \<longleftrightarrow> (\<exists>p qs. procs s pr = Some p \<and> pr_argc p = int (length ws) \<and> length ws \<le> 1024 \<and>
     (\<forall>q \<in> set (pr_argv p # qs). klive s q 1 \<and> own_page (mem s) dir q) \<and> args_at (mem s) (pr_argv p) qs ws)"

lemma process_arguments_kept:
  assumes "kheap_inv s" "process_arguments s pr dir ws" "procs s' pr = procs s pr" "chunk_owned s dir"
    and bytes: "\<And>q n x. klive s q n \<Longrightarrow> addr_in x q (4096 * n) \<Longrightarrow> mem s' x = mem s x"
    and live: "\<And>q n. klive s q n \<Longrightarrow> klive s' q n"
  shows "process_arguments s' pr dir ws"
proof -
  from assms(2) obtain p qs where p: "procs s pr = Some p" "pr_argc p = int (length ws)" "length ws \<le> 1024"
    "\<And>q. q \<in> set (pr_argv p # qs) \<Longrightarrow> klive s q 1" "args_at (mem s) (pr_argv p) qs ws"
    "\<And>q. q \<in> set (pr_argv p # qs) \<Longrightarrow> own_page (mem s) dir q"
    unfolding process_arguments_def by blast
  have pg: "page_aligned q" "unat q + 4096 \<le> 2147483648" if "q \<in> set (pr_argv p # qs)" for q
    using kz.live_bounds [OF assms(1) p(4) [OF that]] klive_aligned [OF assms(1) p(4) [OF that]] by simp_all
  have same: "mem s' x = mem s x" if "q \<in> set (pr_argv p # qs)" "addr_in x q 4096" for q x
    using bytes [OF p(4) [OF that(1)]] that(2) by simp
  have "args_at (mem s') (pr_argv p) qs ws"
    by (rule args_at_same [OF p(5,3) pg same])
  moreover have "own_page (mem s') dir q" if "q \<in> set (pr_argv p # qs)" for q
  proof (rule own_page_kept [OF chunk_owned_ok [OF assms(1,4)] p(6) [OF that]])
    show "mem s' x = mem s x" if "c \<in> set (dir_pages (mem s) (load32 (mem s) dir) @ [dir])" "addr_in x c 4096" for c x
      using bytes [of c 1 x] assms(4) that by (auto simp: chunk_owned_def chunk_pages_def chunk_dir_def)
  qed
  ultimately show ?thesis unfolding process_arguments_def using p(1-4) assms(3) live
    by (intro exI [of _ p] exI [of _ qs]) auto
qed

lemma process_with_kept:
  assumes "process_with s pr task dir stk file" "procs s' pr = procs s pr"
    and "\<And>t. tasks s task = Some t \<Longrightarrow> \<exists>t'. tasks s' task = Some t' \<and> regs t' = regs t \<and> page_directory t' = page_directory t \<and> t_process t' = t_process t"
  shows "process_with s' pr task dir stk file"
proof -
  from assms(1) obtain p t where "procs s pr = Some p" "tasks s task = Some t" "pr_task p = task" "pr_filetype p = PROCESS_FILE_TYPE_ELF"
    "pr_stack p = stk" "t_process t = pr" "page_directory t = dir"
    "regs t = zero_registers\<lparr>r_ip := e_entry (elf_hdr_of file), r_ss := 0x23, r_cs := 0x1b, r_esp := 0x3FF000\<rparr>"
    unfolding process_with_def by blast
  with assms(2,3) show ?thesis unfolding process_with_def by metis
qed

subsection \<open>A program and its argument\<close>

text \<open>The argument of \<open>kernel_main\<close> is a variable on the kernel's stack, below the heap.\<close>

lemma argument_node:
  assumes "unat a + 516 \<le> unat (saddr (kheap s))" "a \<noteq> 0" "length (cstring (c_literal str)) < 512" "kheap_inv s"
  obtains bs where "strcpy (arg_bytes (mem s) a) 0 (c_literal str) = Inr bs"
    "arg_list (undisturbed s dir) (store32 (write_bytes (mem s) a bs) (a + 512) 0) a [cstring (c_literal str)]"
    "\<And>x. unat (saddr (kheap s)) \<le> unat x \<Longrightarrow> store32 (write_bytes (mem s) a bs) (a + 512) 0 x = mem s x"
proof -
  let ?w = "cstring (c_literal str)" and ?old = "arg_bytes (mem s) a"
  define bs where "bs = overwrite ?old 0 (?w @ [0])"
  have len: "length ?old = 512" by (simp add: arg_bytes_def)
  have zero: "0 \<in> set (c_literal str)" by (simp add: c_literal_def)
  have cp: "strcpy ?old 0 (c_literal str) = Inr bs"
    using strcpy_fits [OF zero, of 0 ?old] assms(3) len by (simp add: bs_def)
  have bs: "length bs = 512" "cstring bs = ?w" "0 \<in> set bs"
    using cstring_overwrite [of ?w 0 ?old] cstring_no_nul [of "c_literal str"] assms(3) len
    by (simp_all add: bs_def) (simp add: overwrite_def)
  let ?m = "store32 (write_bytes (mem s) a bs) (a + 512) 0"
  have s31: "unat (saddr (kheap s)) \<le> 2147483648" using assms(4) by (simp add: heap_inv_def)
  have u: "unat (a + of_nat k) = unat a + k" if "k < 516" for k using assms(1) s31 that by (intro unat_plus_of_nat) linarith
  have u512: "unat (a + 512) = unat a + 512" using u [of 512] by simp
  have w2: "?m x = write_bytes (mem s) a bs x" if "\<not> addr_in x (a + 512) 4" for x
    by (rule store32_outside [OF that]) (use u512 assms(1) s31 in linarith)
  have "?m (a + of_nat k) = write_bytes (mem s) a bs (a + of_nat k)" if "k < 512" for k
    using u [of k] u512 that by (intro w2) (simp add: addr_in_def)
  then have "arg_bytes ?m a = read_bytes (write_bytes (mem s) a bs) a 512" by (simp add: arg_bytes_def read_bytes_def)
  then have ab: "arg_bytes ?m a = bs" using read_write_bytes [of bs "mem s" a] bs(1) by simp
  have "undisturbed s dir (a + of_nat k)" if "k < 516" for k
    using u [OF that] assms(1) that by (simp add: undisturbed_def)
  then have "arg_list (undisturbed s dir) ?m a [?w]" using assms(2) bs(2,3) ab by (simp add: arg_next_def)
  moreover have "?m x = mem s x" if "unat (saddr (kheap s)) \<le> unat x" for x
  proof -
    have "\<not> addr_in x (a + 512) 4" "\<not> addr_in x a (length bs)" using that assms(1) u512 bs(1) by (simp_all add: addr_in_def)
    then show ?thesis using w2 write_bytes_outside [of a bs x "mem s"] assms(1) s31 bs(1) by simp
  qed
  ultimately show thesis using cp by (intro that)
qed

text \<open>The argument of a process that has just been loaded.\<close>

lemma argument_injected:
  fixes s :: "'a procstate_scheme"
  assumes inv: "kheap_inv s" and pw: "process_with s pr task dir stk file" and as: "address_space s dir file base stk" and len: "length file < 4294967296"
    and p: "procs s pr = Some p" "pr_allocations p = replicate 1024 (0, 0)" and av: "2 < kavail s"
    and heap: "saddr (kheap s) = 0x01000000" and low: "below_heap file 0x01000000"
    and arg: "unat a + 516 \<le> 0x01000000" "a \<noteq> 0" "length (cstring (c_literal str)) < 512"
  obtains hp m p' where "inject_argument s a pr str = Inr (s\<lparr>kheap := hp, mem := m, procs := (procs s)(pr \<mapsto> p')\<rparr>)"
    "pr_task p' = pr_task p" "pr_filetype p' = pr_filetype p" "pr_stack p' = pr_stack p"
    "heap_inv hp" "saddr hp = 0x01000000" "address_space (s\<lparr>kheap := hp, mem := m\<rparr>) dir file base stk"
    "process_arguments (s\<lparr>kheap := hp, mem := m, procs := (procs s)(pr \<mapsto> p')\<rparr>) pr dir [cstring (c_literal str)]"
    "kavail s = free_count (ht_entries (heap_tbl hp)) + 2" "card (live_set hp) = card (live_set (kheap s)) + 2" "\<And>q n. klive s q n \<Longrightarrow> heap_live hp q n"
    "\<And>q n x. klive s q n \<Longrightarrow> addr_in x q (4096 * n) \<Longrightarrow> q \<notin> set (chunk_pages s dir) \<Longrightarrow> m x = mem s x"
proof -
  let ?w = "cstring (c_literal str)"
  have u: "unat (0x01000000 :: u32) = 0x01000000" by simp
  obtain bs where node: "strcpy (arg_bytes (mem s) a) 0 (c_literal str) = Inr bs"
    "arg_list (undisturbed s dir) (store32 (write_bytes (mem s) a bs) (a + 512) 0) a [?w]"
    "\<And>x. unat (saddr (kheap s)) \<le> unat x \<Longrightarrow> store32 (write_bytes (mem s) a bs) (a + 512) 0 x = mem s x"
    by (rule argument_node [OF _ arg(2,3) inv]) (use arg(1) heap in simp, rule that)
  define s3 where "s3 = s\<lparr>mem := store32 (write_bytes (mem s) a bs) (a + 512) 0\<rparr>"
  have inv3: "kheap_inv s3" using inv by (simp add: s3_def)
  have mem3: "mem s3 x = mem s x" if "klive s q n" "addr_in x q (4096 * n)" for q n x
  proof -
    have "unat (saddr (kheap s)) \<le> unat x" using heap_live_above [OF inv that(1)] that(2) by (simp add: addr_in_def)
    from node(3) [OF this] show ?thesis by (simp add: s3_def)
  qed
  have as3: "address_space s3 dir file base stk"
    by (rule address_space_kept [OF inv as len]) (use mem3 in \<open>blast, simp add: s3_def\<close>)
  have own: "chunk_owned s dir" "chunk_owned s3 dir" using as as3 by (simp_all add: address_space_def)
  have cp: "chunk_pages s3 dir = chunk_pages s dir"
    by (rule chunk_owned_kept(1) [OF inv own(1) mem3]) (simp_all add: s3_def)
  obtain t where t: "tasks s (pr_task p) = Some t" "page_directory t = dir" using pw p(1) by (auto simp: process_with_def)
  have ok3: "proc_ok s3 pr p dir" using inv3 own(2) t p by (auto simp: proc_ok_def s3_def)
  have "undisturbed s3 dir = undisturbed s dir" using cp by (simp add: undisturbed_def fun_eq_iff) (simp add: s3_def)
  then have lst: "arg_list (undisturbed s3 dir) (mem s3) a [?w]" using node(2) by (simp add: s3_def)
  have av3: "length [?w] < kavail s3" "length [?w] < free_slots p" using av by (simp_all add: s3_def free_slots_def p(2))
  obtain argv hp m al qs where A: "process_inject_arguments s3 pr a = Inr (0, s3\<lparr>kheap := hp, mem := m,
      procs := (procs s3)(pr \<mapsto> p\<lparr>pr_allocations := al, pr_argc := int (length [?w]), pr_argv := argv\<rparr>)\<rparr>)"
    "pgrown s3 dir (s3\<lparr>kheap := hp, mem := m\<rparr>) (argv # qs)" "length qs = length [?w]" "args_at m argv qs [?w]"
    by (rule inject_arguments_copies [OF ok3 lst _ _ av3]) (simp, simp, rule that)
  let ?p = "p\<lparr>pr_allocations := al, pr_argc := int (length [?w]), pr_argv := argv\<rparr>"
  define s4 where "s4 = s\<lparr>kheap := hp, mem := m\<rparr>"
  have g4: "pgrown s3 dir s4 (argv # qs)" using A(2) pgrown_cong [of s4 "s3\<lparr>kheap := hp, mem := m\<rparr>"] by (simp add: s4_def)
  note g = pgrownD [OF g4]
  have as4: "address_space s4 dir file base stk"
    by (rule address_space_own [OF inv3 as3 len g4]) (use low heap in \<open>simp_all add: s3_def u\<close>)
  have page: "own_page (mem s4) dir q" if "q \<in> set (argv # qs)" for q
  proof -
    have lq: "klive s4 q 1" using g(6) that by simp
    then have "of_nat (4096 * page_no q) = q" using klive_aligned [OF g(1)] by (simp flip: page_no_split)
    then have e: "page_entry (mem s4) dir (page_no q) = q OR 7" using g(10) [OF page_no_bound [of q]] that by auto
    moreover have "pde (mem s4) dir i AND 7 = 7" if "i < 1024" for i using as4 that by (simp add: address_space_def)
    moreover have "q \<notin> set (chunk_pages s4 dir)" using g(4,7,11) that by (auto simp: chunk_owned_def)
    ultimately show ?thesis using page_rights_user [of "mem s4" dir q] klive_aligned [OF g(1) lq]
      by (simp add: own_page_def page_low_bits chunk_pages_def chunk_dir_def)
  qed
  have "process_arguments (s\<lparr>kheap := hp, mem := m, procs := (procs s)(pr \<mapsto> ?p)\<rparr>) pr dir [?w]"
    unfolding process_arguments_def using A(4) g(6) page by (intro exI [of _ ?p] exI [of _ qs]) (auto simp: s4_def)
  moreover have "inject_argument s a pr str = Inr (s\<lparr>kheap := hp, mem := m, procs := (procs s)(pr \<mapsto> ?p)\<rparr>)"
    using node(1) A(1) by (simp add: inject_argument_def s3_def [symmetric]) (simp add: s3_def)
  moreover have "m x = mem s x" if "klive s q n" "addr_in x q (4096 * n)" "q \<notin> set (chunk_pages s dir)" for q n x
  proof -
    have "klive s3 q n" using that(1) by (simp add: s3_def)
    then have "undisturbed s3 dir x" unfolding undisturbed_def cp using that by blast
    then show ?thesis using g(9) mem3 [OF that(1,2)] by (simp add: s4_def)
  qed
  moreover have "heap_inv hp" "saddr hp = 0x01000000" "kavail s = free_count (ht_entries (heap_tbl hp)) + 2" "card (live_set hp) = card (live_set (kheap s)) + 2"
    using g(1,2,8) heap A(3) pgrown_card [OF g4] by (simp_all add: s3_def s4_def)
  moreover have "heap_live hp q n" if "klive s q n" for q n using g(6) that by (simp add: s3_def s4_def)
  ultimately show thesis using as4 unfolding s4_def by (intro that [where hp = hp and m = m and p' = ?p]) simp_all
qed

lemma load_and_inject:
  fixes s :: "'a procstate_scheme"
  assumes ready: "volume_ready img fp s" and path: "root_path path name" and inroot: "root_file img fp s name file"
    and ok: "program_ok file" and slot: "length (processes s) = 12" "0 \<in> set (processes s)" and tl: "task_list s xs"
    and room: "(blocks_of (of_nat (length file)) + 4) * (card (live_set (kheap s)) + 20) + 1100 \<le> kavail s"
    and heap: "saddr (kheap s) = 0x01000000" and low: "below_heap file 0x01000000"
    and arg: "unat a + 516 \<le> 0x01000000" "a \<noteq> 0" "length (cstring (c_literal str)) < 512"
    and start: "\<And>t u. process_load s path = Inr (0, t, u) \<Longrightarrow> saddr (kheap u) = 0x01000000"
  obtains pr task i s1 s' dir stk base where "process_load_switch s path = Inr (0, pr, s1)" "inject_argument s1 a pr str = Inr s'"
    "i < 12" "processes s ! i = 0" "\<forall>j < i. processes s ! j \<noteq> 0" "processes s' = (processes s)[i := pr]"
    "process_with s' pr task dir stk file" "address_space s' dir file base stk" "process_arguments s' pr dir [cstring (c_literal str)]"
    "task_list s' (xs @ [task])" "current_task s' = (if xs = [] then task else current_task s)"
    "volume_ready img fp s'" "root_file img fp s' name file" "saddr (kheap s') = 0x01000000"
    "kavail s = kavail s' + (blocks_of (of_nat (length file)) + 1040)" "card (live_set (kheap s')) = card (live_set (kheap s)) + 1036"
    "\<And>q n x. klive s q n \<Longrightarrow> addr_in x q (4096 * n) \<Longrightarrow> mem s' x = mem s x" "\<And>q n. klive s q n \<Longrightarrow> klive s' q n"
    "\<not> klive s pr 3" "klive s' pr 3" "\<And>x. x \<noteq> pr \<Longrightarrow> procs s' x = procs s x"
    "\<And>x t. x \<noteq> task \<Longrightarrow> tasks s x = Some t \<Longrightarrow> \<exists>t'. tasks s' x = Some t' \<and> regs t' = regs t \<and> page_directory t' = page_directory t \<and> t_process t' = t_process t"
proof -
  let ?b = "blocks_of (of_nat (length file))"
  have len: "length file < 4294967296" using ok by (simp add: program_ok_def elf_program_def)
  obtain pr task i s1 dir stk base al where L: "process_load s path = Inr (0, pr, s1)" "i < 12" "processes s ! i = 0" "\<forall>j < i. processes s ! j \<noteq> 0"
    "processes s1 = (processes s)[i := pr]" "task_list s1 (xs @ [task])" "kheap_inv s1"
    "process_with s1 pr task dir stk file" "address_space s1 dir file base stk"
    "hadds (kheap s) (mem s) (kheap s1) (mem s1) al" "sum_list (map snd al) = blocks_of (of_nat (length file)) + 1038"
    "length al = 1034" "(pr, 3) \<in> set al" "volume_ready img fp s1" "\<And>a n. klive s a n \<Longrightarrow> item_arrays s1 a = item_arrays s a"
    "\<exists>p. procs s1 = (procs s)(pr \<mapsto> p) \<and> pr_allocations p = replicate 1024 (0, 0)"
    "\<And>x t. x \<noteq> task \<Longrightarrow> tasks s x = Some t \<Longrightarrow> \<exists>t'. tasks s1 x = Some t' \<and> regs t' = regs t \<and> page_directory t' = page_directory t \<and> t_process t' = t_process t"
    "current_task s1 = (if xs = [] then task else current_task s)" "\<And>q. q \<in> set (chunk_pages s1 dir) \<Longrightarrow> (q, 1) \<in> set al"
    by (rule process_load_runs [OF ready path inroot ok slot tl room]) (rule that)
  note h = haddsD [OF L(10)]
  note h = haddsD [OF L(10)]
  obtain p where p: "procs s1 = (procs s)(pr \<mapsto> p)" "pr_allocations p = replicate 1024 (0, 0)" using L(16) by blast
  define s2 where "s2 = process_switch s1 pr"
  have s2: "s2 = s1\<lparr>current_process := pr\<rparr>" by (simp add: s2_def process_switch_def)
  have inv2: "kheap_inv s2" "saddr (kheap s2) = 0x01000000" "procs s2 pr = Some p" using L(7) start [OF L(1)] p(1) by (simp_all add: s2)
  have pw2: "process_with s2 pr task dir stk file" using L(8) by (simp add: s2 process_with_def)
  have as2: "address_space s2 dir file base stk" using L(9) by (simp add: s2 address_space_def chunk_owned_def chunk_pages_def chunk_dir_def)
  have "(?b + 4) * 20 \<le> (?b + 4) * (card (live_set (kheap s)) + 20)" by (intro mult_le_mono2) simp
  then have av: "2 < kavail s2" using h(5) L(11) room by (simp add: s2)
  obtain hp m p' where A: "inject_argument s2 a pr str = Inr (s2\<lparr>kheap := hp, mem := m, procs := (procs s2)(pr \<mapsto> p')\<rparr>)"
    "pr_task p' = pr_task p" "pr_filetype p' = pr_filetype p" "pr_stack p' = pr_stack p"
    "heap_inv hp" "saddr hp = 0x01000000" "address_space (s2\<lparr>kheap := hp, mem := m\<rparr>) dir file base stk"
    "process_arguments (s2\<lparr>kheap := hp, mem := m, procs := (procs s2)(pr \<mapsto> p')\<rparr>) pr dir [cstring (c_literal str)]"
    "kavail s2 = free_count (ht_entries (heap_tbl hp)) + 2" "card (live_set hp) = card (live_set (kheap s2)) + 2" "\<And>q n. klive s2 q n \<Longrightarrow> heap_live hp q n"
    "\<And>q n x. klive s2 q n \<Longrightarrow> addr_in x q (4096 * n) \<Longrightarrow> q \<notin> set (chunk_pages s2 dir) \<Longrightarrow> m x = mem s2 x"
    by (rule argument_injected [OF inv2(1) pw2 as2 len inv2(3) p(2) av inv2(2) low arg]) (rule that)
  define s4 where "s4 = s2\<lparr>kheap := hp, mem := m, procs := (procs s2)(pr \<mapsto> p')\<rparr>"
  have e4: "s4 = s1\<lparr>current_process := pr, kheap := hp, mem := m, procs := (procs s1)(pr \<mapsto> p')\<rparr>" by (simp add: s4_def s2)
  have live4: "klive s4 q n" if "klive s1 q n" for q n using A(11) that by (simp add: s4_def s2)
  have cp: "chunk_pages s2 dir = chunk_pages s1 dir" by (simp add: s2 chunk_pages_def chunk_dir_def)
  have mem4: "mem s4 x = mem s x" if "klive s q n" "addr_in x q (4096 * n)" for q n x
  proof -
    have l1: "klive s1 q n" using h(3) that(1) by simp
    have "q \<notin> set (chunk_pages s1 dir)"
    proof
      assume "q \<in> set (chunk_pages s1 dir)"
      then have q: "(q, 1) \<in> set al" by (rule L(19))
      then have "klive s1 q 1" using h(3) by simp
      then have "n = 1" using kz.live_size_unique [OF L(7) l1] by simp
      then show False using h(4) [OF q] that(1) by simp
    qed
    then have "m x = mem s1 x" using A(12) [of q n x] l1 that(2) cp by (simp add: s2)
    then show ?thesis using h(6) [OF that] by (simp add: s4_def)
  qed
  have load: "process_load_switch s path = Inr (0, pr, s2)" using L(1) by (simp add: process_load_switch_def s2_def)
  have procs4: "processes s4 = (processes s)[i := pr]" using L(5) by (simp add: e4)
  have pw4: "process_with s4 pr task dir stk file" using L(8) p(1) A(2-4) unfolding process_with_def e4 by auto
  have as4: "address_space s4 dir file base stk"
    using A(7) by (simp add: s4_def address_space_def chunk_owned_def chunk_pages_def chunk_dir_def)
  have tl4: "task_list s4 (xs @ [task])" by (rule task_list_cong [OF L(6)]) (use live4 in \<open>simp_all add: e4\<close>)
  have vol: "volume_ready img fp s4"
  proof -
    have "mounted img fp s1" using L(14) by (simp add: volume_ready_def)
    then have "mounted img fp s4" by (rule moved_bits) (simp_all add: e4)
    then show ?thesis using L(14) live4 A(5) by (auto simp: volume_ready_def) (auto simp: e4)
  qed
  have root: "root_file img fp s4 name file"
  proof -
    obtain n where "klive s (fd_item (root_directory fp)) n" using ready by (auto simp: volume_ready_def)
    from L(15) [OF this] show ?thesis using inroot by (simp add: root_file_def root_holds_def e4)
  qed
  have sizes: "kavail s = kavail s4 + (?b + 1040)" "card (live_set (kheap s4)) = card (live_set (kheap s)) + 1036"
    using h(5,7) L(11,12) A(9,10) by (simp_all add: s4_def s2)
  have "current_task s4 = (if xs = [] then task else current_task s)" "saddr (kheap s4) = 0x01000000" using L(18) A(6) by (simp_all add: e4)
  moreover have "klive s4 q n" if "klive s q n" for q n using live4 h(3) that by simp
  moreover have "\<not> klive s pr 3" "klive s4 pr 3" using h(3,4) L(13) live4 by blast+
  moreover have "procs s4 x = procs s x" if "x \<noteq> pr" for x using that p(1) by (simp add: e4)
  moreover have "\<exists>t'. tasks s4 x = Some t' \<and> regs t' = regs t \<and> page_directory t' = page_directory t \<and> t_process t' = t_process t"
    if "x \<noteq> task" "tasks s x = Some t" for x t
    using L(17) [OF that] by (simp add: e4)
  ultimately show thesis using load A(1,8) L(2-4) procs4 pw4 as4 tl4 vol root sizes mem4 unfolding s4_def [symmetric]
    by (intro that [where pr = pr and task = task and i = i and ?s1.0 = s2 and s' = s4 and dir = dir and stk = stk and base = base]) blast+
qed

subsection \<open>From power-on to user code\<close>

lemma well_typed_start: "well_typed s \<Longrightarrow> saddr (kheap s) = 0x01000000"
  by (simp add: well_typed_def)

lemma well_typed_load:
  assumes "well_typed s" "process_load s path = Inr (r, t, u)"
  shows "saddr (kheap u) = 0x01000000"
proof -
  have "well_typed u" using typed.process_load_kept [OF assms(1), of path] assms(2) by (simp add: keeps3_def)
  then show ?thesis by (rule well_typed_start)
qed

text \<open>Entering the first task.\<close>

lemma first_task_runs:
  assumes "task_list s (task # xs)" "current_task s = task" "tasks s task = Some t"
  obtains c d g where "task_run_first_ever_task s = Inr (user_context (regs t), s\<lparr>cr3 := c, current_directory := d, data_segments := g\<rparr>)"
    "own_address_space (s\<lparr>cr3 := c, current_directory := d, data_segments := g\<rparr>)"
    "resumes (user_context (regs t)) (s\<lparr>cr3 := c, current_directory := d, data_segments := g\<rparr>)"
proof -
  have chain: "task_chain (tasks s) (task_head s) (task # xs)" using assms(1) by (simp add: task_list_def task_ring_def)
  have hd: "task_head s = task" "task \<noteq> 0" using task_chain_head [OF chain] task_chain_nth [OF chain, of 0] by simp_all
  obtain s1 where s1: "task_switch s task = Inr s1" using assms(3) by (simp add: task_switch_def)
  obtain c d where e1: "s1 = s\<lparr>cr3 := c, current_directory := d\<rparr>"
    using s1 assms(2,3) by (auto simp: task_switch_def paging_switch_def paging_load_directory_def Let_def)
  have "tasks s1 task = Some t" using assms(3) by (simp add: e1)
  note own = task_return_own [OF s1 this]
  have "task_run_first_ever_task s = Inr (task_return s1 (regs t))"
    using s1 assms(2,3) hd by (simp add: task_run_first_ever_task_def e1)
  moreover have "task_return s1 (regs t) = (user_context (regs t), s\<lparr>cr3 := c, current_directory := d, data_segments := ucast (r_ss (regs t))\<rparr>)"
    by (simp add: task_return_def e1)
  ultimately show thesis using own by (intro that [where c = c and d = d and g = "ucast (r_ss (regs t))"]) simp_all
qed

lemma six_pages: "length file \<le> 24576 \<Longrightarrow> blocks_of (of_nat (length file)) \<le> 6"
  using unat_of_nat_u32 [of "length file"] by (simp add: blocks_of_def)

lemma blank_path: "root_path (c_literal ''0:/blank.elf'') (map of_char ''blank.elf'')"
  by (simp add: root_path_def c_literal_def cstring_def)

lemma argument_strings: "length (cstring (c_literal ''Testing!'')) < 512" "length (cstring (c_literal ''ABC!'')) < 512"
  by (simp_all add: c_literal_def cstring_def)

text \<open>The two programs, one after the other.\<close>

lemma first_program:
  assumes "booted img n l s1" "well_typed s1" "image_program img n (map of_char ''blank.elf'') file" "length file \<le> 24576"
    and "below_heap file 0x01000000" "a \<noteq> 0" "unat a + 516 \<le> 0x01000000"
  obtains fp pr1 task1 u1 s2 dir1 stk1 base1 where "process_load_switch s1 (c_literal ''0:/blank.elf'') = Inr (0, pr1, u1)"
    "inject_argument u1 a pr1 ''Testing!'' = Inr s2" "processes s2 = pr1 # replicate 11 0" "pr1 \<noteq> 0" "task_list s2 [task1]"
    "process_with s2 pr1 task1 dir1 stk1 file" "address_space s2 dir1 file base1 stk1" "process_arguments s2 pr1 dir1 [cstring (c_literal ''Testing!'')]"
    "current_task s2 = task1" "volume_ready img fp s2" "root_file img fp s2 (map of_char ''blank.elf'') file" "klive s2 pr1 3" "well_typed s2"
    "kavail s2 + blocks_of (of_nat (length file)) = 23529" "card (live_set (kheap s2)) = 2067"
proof -
  let ?b = "blocks_of (of_nat (length file))" and ?path = "c_literal ''0:/blank.elf''"
  obtain fp where fp: "volume_ready img fp s1" "root_file img fp s1 (map of_char ''blank.elf'') file" by (rule booted_volume [OF assms(1,3)])
  have b: "kavail s1 = 24569" "card (live_set (kheap s1)) = 1031" "processes s1 = replicate 12 0" "task_head s1 = 0"
    using assms(1) unfolding booted_def by blast+
  have ok: "program_ok file" using assms(3) by (simp add: image_program_def)
  have slots: "length (processes s1) = 12" "0 \<in> set (processes s1)" "task_list s1 []" using b by (simp_all add: task_list_def)
  have "(?b + 4) * 1051 \<le> 10 * 1051" using six_pages [OF assms(4)] by (intro mult_le_mono1) simp
  then have room: "(?b + 4) * (card (live_set (kheap s1)) + 20) + 1100 \<le> kavail s1" using b by simp
  obtain pr1 task1 i u1 s2 dir1 stk1 base1 where P: "process_load_switch s1 ?path = Inr (0, pr1, u1)" "inject_argument u1 a pr1 ''Testing!'' = Inr s2"
    "i < 12" "processes s1 ! i = 0" "\<forall>j < i. processes s1 ! j \<noteq> 0" "processes s2 = (processes s1)[i := pr1]"
    "process_with s2 pr1 task1 dir1 stk1 file" "address_space s2 dir1 file base1 stk1" "process_arguments s2 pr1 dir1 [cstring (c_literal ''Testing!'')]"
    "task_list s2 ([] @ [task1])" "current_task s2 = (if [] = ([] :: u32 list) then task1 else current_task s1)"
    "volume_ready img fp s2" "root_file img fp s2 (map of_char ''blank.elf'') file"
    "kavail s1 = kavail s2 + (?b + 1040)" "card (live_set (kheap s2)) = card (live_set (kheap s1)) + 1036" "klive s2 pr1 3"
    by (rule load_and_inject [OF fp(1) blank_path fp(2) ok slots room well_typed_start [OF assms(2)] assms(5,7,6) argument_strings(1)
          well_typed_load [OF assms(2)]]) (assumption, rule that)
  have "i = 0" using P(4,5) b(3) by (cases i) auto
  then have "processes s2 = pr1 # replicate 11 0" using P(6) b(3) by (simp add: numeral_eq_Suc)
  moreover have "pr1 \<noteq> 0" using kz.live_bounds [OF _ P(16)] P(12) by (auto simp: volume_ready_def)
  moreover have "well_typed s2"
    using typed.load_switch_kept [OF assms(2), of ?path] typed.inject_argument_kept [of u1 a pr1 "''Testing!''"] P(1,2)
    by (simp add: keeps_def keeps3_def)
  ultimately show thesis using P(1,2,7-16) b(1,2)
    by (intro that [where fp = fp and ?pr1.0 = pr1 and ?task1.0 = task1 and ?u1.0 = u1 and ?s2.0 = s2 and ?dir1.0 = dir1 and ?stk1.0 = stk1 and ?base1.0 = base1])
      simp_all
qed

lemma both_programs:
  assumes "booted img n l s1" "well_typed s1" "image_program img n (map of_char ''blank.elf'') file" "length file \<le> 24576"
    and "below_heap file 0x01000000" "a \<noteq> 0" "unat a + 516 \<le> 0x01000000"
  obtains pr1 task1 dir1 u1 s2 pr2 task2 dir2 u2 s3 where "process_load_switch s1 (c_literal ''0:/blank.elf'') = Inr (0, pr1, u1)"
    "inject_argument u1 a pr1 ''Testing!'' = Inr s2" "process_load_switch s2 (c_literal ''0:/blank.elf'') = Inr (0, pr2, u2)"
    "inject_argument u2 a pr2 ''ABC!'' = Inr s3" "processes s3 = pr1 # pr2 # replicate 10 0" "task_list s3 [task1, task2]"
    "current_task s3 = task1" "program_loaded s3 pr1 task1 file" "program_loaded s3 pr2 task2 file"
    "process_arguments s3 pr1 dir1 [cstring (c_literal ''Testing!'')]" "process_arguments s3 pr2 dir2 [cstring (c_literal ''ABC!'')]"
    "\<exists>stk. process_with s3 pr1 task1 dir1 stk file" "\<exists>stk. process_with s3 pr2 task2 dir2 stk file" "kheap_inv s3" "0 < kavail s3"
proof -
  let ?b = "blocks_of (of_nat (length file))" and ?path = "c_literal ''0:/blank.elf''"
  have len: "length file < 4294967296" using assms(4) by simp
  have ok: "program_ok file" using assms(3) by (simp add: image_program_def)
  obtain fp pr1 task1 u1 s2 dir1 stk1 base1 where P: "process_load_switch s1 ?path = Inr (0, pr1, u1)"
    "inject_argument u1 a pr1 ''Testing!'' = Inr s2" "processes s2 = pr1 # replicate 11 0" "pr1 \<noteq> 0" "task_list s2 [task1]"
    "process_with s2 pr1 task1 dir1 stk1 file" "address_space s2 dir1 file base1 stk1" "process_arguments s2 pr1 dir1 [cstring (c_literal ''Testing!'')]"
    "current_task s2 = task1" "volume_ready img fp s2" "root_file img fp s2 (map of_char ''blank.elf'') file" "klive s2 pr1 3" "well_typed s2"
    "kavail s2 + ?b = 23529" "card (live_set (kheap s2)) = 2067"
    by (rule first_program [OF assms]) (rule that)
  have inv: "kheap_inv s2" using P(10) by (simp add: volume_ready_def)
  have slots: "length (processes s2) = 12" "0 \<in> set (processes s2)" using P(3) by simp_all
  have "(?b + 4) * 2087 \<le> 10 * 2087" using six_pages [OF assms(4)] by (intro mult_le_mono1) simp
  then have room: "(?b + 4) * (card (live_set (kheap s2)) + 20) + 1100 \<le> kavail s2" using P(14,15) six_pages [OF assms(4)] by simp
  obtain pr2 task2 j u2 s3 dir2 stk2 base2 where Q: "process_load_switch s2 ?path = Inr (0, pr2, u2)" "inject_argument u2 a pr2 ''ABC!'' = Inr s3"
    "j < 12" "processes s2 ! j = 0" "\<forall>k < j. processes s2 ! k \<noteq> 0" "processes s3 = (processes s2)[j := pr2]"
    "process_with s3 pr2 task2 dir2 stk2 file" "address_space s3 dir2 file base2 stk2" "process_arguments s3 pr2 dir2 [cstring (c_literal ''ABC!'')]"
    "task_list s3 ([task1] @ [task2])" "current_task s3 = (if [task1] = [] then task2 else current_task s2)"
    "\<And>q n x. klive s2 q n \<Longrightarrow> addr_in x q (4096 * n) \<Longrightarrow> mem s3 x = mem s2 x" "\<And>q n. klive s2 q n \<Longrightarrow> klive s3 q n"
    "\<not> klive s2 pr2 3" "\<And>x. x \<noteq> pr2 \<Longrightarrow> procs s3 x = procs s2 x"
    "\<And>x t. x \<noteq> task2 \<Longrightarrow> tasks s2 x = Some t \<Longrightarrow> \<exists>t'. tasks s3 x = Some t' \<and> regs t' = regs t \<and> page_directory t' = page_directory t \<and> t_process t' = t_process t"
    "volume_ready img fp s3" "kavail s2 = kavail s3 + (?b + 1040)"
    by (rule load_and_inject [OF P(10) blank_path P(11) ok slots P(5) room well_typed_start [OF P(13)] assms(5,7,6) argument_strings(2)
          well_typed_load [OF P(13)]]) (assumption, rule that)
  have "j = 1"
  proof (cases j)
    case (Suc k)
    then show ?thesis using Q(5) by (cases k) (auto simp: P(3))
  qed (use Q(4) P(3,4) in simp)
  then have "processes s3 = pr1 # pr2 # replicate 10 0" using Q(6) P(3) by (simp add: numeral_eq_Suc)
  moreover have ne: "pr1 \<noteq> pr2" "task1 \<noteq> task2" using P(12) Q(14,10) by (auto simp: task_list_def task_ring_def)
  have objs: "process_with s3 pr1 task1 dir1 stk1 file"
    by (rule process_with_kept [OF P(6) Q(15) [OF ne(1)]]) (rule Q(16) [OF ne(2)])
  have space: "address_space s3 dir1 file base1 stk1"
    by (rule address_space_kept [OF inv P(7) len]) (use Q(12,13) in blast)+
  have "chunk_owned s2 dir1" using P(7) by (simp add: address_space_def)
  then have "process_arguments s3 pr1 dir1 [cstring (c_literal ''Testing!'')]"
    by (rule process_arguments_kept [OF inv P(8) Q(15) [OF ne(1)] _ Q(12,13)])
  moreover have "program_loaded s3 pr1 task1 file" "program_loaded s3 pr2 task2 file"
    by (rule program_loadedI [OF objs space], rule program_loadedI [OF Q(7,8)])
  moreover have "task_list s3 [task1, task2]" "current_task s3 = task1" using Q(10,11) P(9) by simp_all
  moreover have "kheap_inv s3" using Q(17) by (simp add: volume_ready_def)
  moreover have "0 < kavail s3" using Q(18) P(14) six_pages [OF assms(4)] by simp
  ultimately show thesis using P(1,2) Q(1,2,7,9) objs by (intro that) blast+
qed

lemma kernel_main_runs:
  assumes "static_objects s" "drive_serves img s" "fat16_volume img n" "length (interrupt_pointer_table l) = 512"
    and "image_program img n (map of_char ''blank.elf'') file" "length file \<le> 24576" "below_heap file 0x01000000"
    and "argument_address l \<noteq> 0" "unat (argument_address l) + 516 \<le> 0x01000000"
  obtains s1 s2 r pr1 task1 t1 pr2 task2 t2 where "kernel_init s l = Inr s1" "booted img n l s1" "kernel_main s l = Inr (r, s2)" "same_tables s1 s2"
    "r_ip r = e_entry (elf_hdr_of file)" "r_esp r = 0x3FF000" "current_task s2 = task1" "own_address_space s2" "resumes r s2"
    "processes s2 = pr1 # pr2 # replicate 10 0" "task_list s2 [task1, task2]" "tasks s2 task1 = Some t1" "tasks s2 task2 = Some t2"
    "program_loaded s2 pr1 task1 file" "process_arguments s2 pr1 (page_directory t1) [cstring (c_literal ''Testing!'')]"
    "program_loaded s2 pr2 task2 file" "process_arguments s2 pr2 (page_directory t2) [cstring (c_literal ''ABC!'')]" "kheap_inv s2" "0 < kavail s2"
proof -
  let ?path = "c_literal ''0:/blank.elf''" and ?a = "argument_address l"
  obtain s1 where s1: "kernel_init s l = Inr s1" "booted img n l s1" by (rule kernel_init_booted [OF assms(1-4)])
  have typed: "well_typed s1" using kernel_init_typed [OF assms(1), of l] s1(1) by (simp add: keeps_def)
  obtain pr1 task1 dir1 u1 s2 pr2 task2 dir2 u2 s3 where P: "process_load_switch s1 ?path = Inr (0, pr1, u1)"
    "inject_argument u1 ?a pr1 ''Testing!'' = Inr s2" "process_load_switch s2 ?path = Inr (0, pr2, u2)"
    "inject_argument u2 ?a pr2 ''ABC!'' = Inr s3" "processes s3 = pr1 # pr2 # replicate 10 0" "task_list s3 [task1, task2]"
    "current_task s3 = task1" "program_loaded s3 pr1 task1 file" "program_loaded s3 pr2 task2 file"
    "process_arguments s3 pr1 dir1 [cstring (c_literal ''Testing!'')]" "process_arguments s3 pr2 dir2 [cstring (c_literal ''ABC!'')]"
    "\<exists>stk. process_with s3 pr1 task1 dir1 stk file" "\<exists>stk. process_with s3 pr2 task2 dir2 stk file" "kheap_inv s3" "0 < kavail s3"
    by (rule both_programs [OF s1(2) typed assms(5-9)]) (rule that)
  obtain t where t: "tasks s3 task1 = Some t" "r_ip (regs t) = e_entry (elf_hdr_of file)" "r_esp (regs t) = 0x3FF000" "page_directory t = dir1"
    using P(12) by (auto simp: process_with_def)
  obtain t2 where t2: "tasks s3 task2 = Some t2" "page_directory t2 = dir2" using P(13) by (auto simp: process_with_def)
  obtain c d g where R: "task_run_first_ever_task s3 = Inr (user_context (regs t), s3\<lparr>cr3 := c, current_directory := d, data_segments := g\<rparr>)"
    "own_address_space (s3\<lparr>cr3 := c, current_directory := d, data_segments := g\<rparr>)"
    "resumes (user_context (regs t)) (s3\<lparr>cr3 := c, current_directory := d, data_segments := g\<rparr>)"
    by (rule first_task_runs [OF P(6,7) t(1)]) (rule that)
  define s4 where "s4 = s3\<lparr>cr3 := c, current_directory := d, data_segments := g\<rparr>"
  have run: "kernel_main s l = Inr (user_context (regs t), s4)"
    using P(1-4) R(1) unfolding kernel_main_def s1(1) by (simp add: s4_def)
  have "same_tables s1 s1" using typed by (simp add: same_tables_def)
  then have tab: "same_tables s1 s4"
    using tables.load_switch_kept [of s1 s1 ?path] tables.inject_argument_kept [of s1 u1 ?a pr1 "''Testing!''"]
      tables.load_switch_kept [of s1 s2 ?path] tables.inject_argument_kept [of s1 u2 ?a pr2 "''ABC!''"] tables.first_task_kept [of s1 s3] P(1-4) R(1)
    by (simp add: keeps_def keeps2_def keeps3_def s4_def)
  have loaded: "program_loaded s4 pr task file = program_loaded s3 pr task file" for pr task
    by (simp add: program_loaded_def s4_def chunk_owned_def chunk_pages_def chunk_dir_def)
  have given: "process_arguments s4 pr dir ws = process_arguments s3 pr dir ws" for pr dir ws
    by (simp add: process_arguments_def s4_def)
  have "task_list s4 [task1, task2]" using P(6) by (simp add: task_list_def task_ring_def s4_def)
  moreover have "processes s4 = pr1 # pr2 # replicate 10 0" "current_task s4 = task1" "kheap_inv s4" "0 < kavail s4" using P(5,7,14,15) by (simp_all add: s4_def)
  moreover have "r_ip (user_context (regs t)) = e_entry (elf_hdr_of file)" "r_esp (user_context (regs t)) = 0x3FF000"
    using t by (simp_all add: user_context_def)
  moreover have "tasks s4 task1 = Some t" "tasks s4 task2 = Some t2" using t(1) t2(1) by (simp_all add: s4_def)
  ultimately show thesis
    using s1 run tab R(2,3) P(8-11) t(4) t2(2) unfolding s4_def [symmetric] loaded [symmetric] given [symmetric]
    by (intro that [where ?s1.0 = s1 and ?s2.0 = s4 and r = "user_context (regs t)" and ?pr1.0 = pr1 and ?task1.0 = task1 and ?t1.0 = t
      and ?pr2.0 = pr2 and ?task2.0 = task2 and ?t2.0 = t2]) simp_all
qed

text \<open>C1: on a machine whose drive serves a FAT16 volume with an ELF program of at most six pages under the name blank.elf, whose segments lie below the heap,
  \<open>kernel_main\<close> reaches user code: it loads the program into the first two processes, each with its own task, address space, stack and
  argument, and ends with the registers of the first task at the entry point of the program, under its page directory. The tables
  \<open>kernel_init\<close> set up are unchanged.\<close>

theorem kernel_main_enters_program:
  assumes "static_objects s" "drive_serves img s" "fat16_volume img n" "length (interrupt_pointer_table l) = 512"
    and "image_program img n (map of_char ''blank.elf'') file" "length file \<le> 24576" "below_heap file 0x01000000"
    and "argument_address l \<noteq> 0" "unat (argument_address l) + 516 \<le> 0x01000000"
  shows "\<exists>s1 s2 r pr1 task1 t1 pr2 task2 t2. kernel_init s l = Inr s1 \<and> kernel_main s l = Inr (r, s2) \<and> same_tables s1 s2 \<and>
    r_ip r = e_entry (elf_hdr_of file) \<and> r_esp r = 0x3FF000 \<and> current_task s2 = task1 \<and> own_address_space s2 \<and> resumes r s2 \<and>
    processes s2 = pr1 # pr2 # replicate 10 0 \<and> task_list s2 [task1, task2] \<and> tasks s2 task1 = Some t1 \<and> tasks s2 task2 = Some t2 \<and>
    program_loaded s2 pr1 task1 file \<and> process_arguments s2 pr1 (page_directory t1) [cstring (c_literal ''Testing!'')] \<and>
    program_loaded s2 pr2 task2 file \<and> process_arguments s2 pr2 (page_directory t2) [cstring (c_literal ''ABC!'')]"
  by (rule kernel_main_runs [OF assms]) blast

lemma kernel_main_enters_program_witness:
  "\<exists>r s2. kernel_main program_machine example_layout = Inr (r, s2) \<and> r_ip r = 0x400054 \<and> own_address_space s2"
proof -
  obtain ph where ph: "elf_phdrs example_program = [ph]" "p_vaddr ph = 0x400000" "p_memsz ph = 100" by (rule example_program_phdrs) (rule that)
  have "below_heap example_program 0x01000000" by (simp add: below_heap_def ph)
  then show ?thesis
    using kernel_main_enters_program [OF program_machine_facts(1,2) program_volume_ok program_machine_facts(3) program_volume_program]
    by (simp add: length_example_program example_program_hdr example_layout_def del: upt_conv_Cons upt_rec_numeral) blast
qed

end
