(* ===== verification/CopyString.thy ===== *)
theory CopyString
  imports Arguments
begin

text \<open>
  \<open>copy_string_from_task\<close> of task.c: a string of a process is copied into a fresh page, mapped into the address space of the process while that
  is in use, and from there into the kernel's buffer. The page and the entry of its address are given back.
\<close>

subsection \<open>The processor's translation\<close>

lemma vtrans_entry:
  assumes "bit (cr0 s) 31"
  shows "vtrans s a =
    (if load32 (mem s) (pcell (cr3 s) (page_no a div 1024)) AND 1 = 0 \<or> pte (mem s) (cr3 s) (page_no a) AND 1 = 0 then Inl PageFault
     else Inr ((pte (mem s) (cr3 s) (page_no a) AND 0xfffff000) + (a AND 0xfff)))"
proof -
  define v where "v = paging_align_to_lower_page a"
  define k where "k = unat (a mod 4096)"
  have v: "page_aligned v" "page_no v = page_no a" by (simp_all add: v_def align_lower_page)
  have k: "k < 4096" by (simp add: k_def unat_mod)
  have a: "a = v + of_nat k" by (simp add: v_def k_def paging_align_to_lower_page_def)
  note o = page_offset [OF v(1) k, folded a, unfolded v(2)]
  have e1: "load32 (mem s) (cr3 s + 4 * drop_bit 22 a) = load32 (mem s) (pcell (cr3 s) (page_no a div 1024))"
    unfolding o(2) by (simp only: pcell_def of_nat_mult of_nat_numeral)
  have e2: "load32 (mem s) ((load32 (mem s) (pcell (cr3 s) (page_no a div 1024)) AND 0xfffff000) + 4 * (drop_bit 12 a AND 0x3ff)) =
      pte (mem s) (cr3 s) (page_no a)"
    unfolding o(3) pte_def pte_cell_def table_of_def by (simp only: pcell_def of_nat_mult of_nat_numeral)
  show ?thesis unfolding vtrans_def Let_def e1 e2 using assms by simp
qed

text \<open>It depends on the two entries only.\<close>

lemma vtrans_same:
  assumes "bit (cr0 s) 31" "cr0 s' = cr0 s" "cr3 s' = cr3 s"
    and "load32 (mem s') (pcell (cr3 s) (page_no a div 1024)) = load32 (mem s) (pcell (cr3 s) (page_no a div 1024))"
    and "pte (mem s') (cr3 s) (page_no a) = pte (mem s) (cr3 s) (page_no a)"
  shows "vtrans s' a = vtrans s a"
  using assms by (simp add: vtrans_entry)

subsection \<open>Restoring a cell\<close>

lemma store32_load32 [simp]: "store32 m a (load32 m a) = m"
proof -
  have b: "ucast (drop_bit (8 * i) (ucast (m a) OR push_bit 8 (ucast (m (a + 1))) OR push_bit 16 (ucast (m (a + 2))) OR
      push_bit 24 (ucast (m (a + 3))) :: u32)) = m (a + of_nat i)" if "i < 4" for i
  proof (rule bit_word_eqI)
    fix n assume n: "n < LENGTH(8)"
    have "i = 0 \<or> i = 1 \<or> i = 2 \<or> i = 3" using that by auto
    then show "bit (ucast (drop_bit (8 * i) (ucast (m a) OR push_bit 8 (ucast (m (a + 1))) OR push_bit 16 (ucast (m (a + 2))) OR
        push_bit 24 (ucast (m (a + 3))) :: u32)) :: u8) n = bit (m (a + of_nat i)) n"
      using n by (elim disjE) (auto simp: bit_simps dest: bit_imp_le_length)
  qed
  from b [of 0] b [of 1] b [of 2] b [of 3] show ?thesis
    by (simp add: store32_def load32_def fun_upd_idem_iff)
qed

lemma store32_restores:
  assumes "unat c + 4 \<le> 4294967296"
  shows "store32 m' c (load32 m c) x = (if addr_in x c 4 then m x else m' x)"
proof (cases "addr_in x c 4")
  case False
  then show ?thesis using assms by (simp add: store32_outside)
next
  case True
  obtain i where "i < 4" "x = c + of_nat i" using True ex_offset [of c 4 x] assms by auto
  then have "x = c \<or> x = c + 1 \<or> x = c + 2 \<or> x = c + 3" by (auto simp: less_Suc_eq numeral_eq_Suc)
  then have "store32 m' c (load32 m c) x = store32 m c (load32 m c) x" by (auto simp: store32_def)
  then show ?thesis using True by simp
qed

subsection \<open>The copy under the task's page directory\<close>

lemma write_bytes_Cons:
  assumes "length bs < 4294967295"
  shows "write_bytes m p (b # bs) = write_bytes (m(p := b)) (p + 1) bs"
proof
  fix a
  show "write_bytes m p (b # bs) a = write_bytes (m(p := b)) (p + 1) bs a"
  proof (cases "a = p")
    case True
    have "unat (- 1 :: u32) = 4294967295" by (simp add: unsigned_minus_1_eq_mask mask_eq_exp_minus_1)
    then show ?thesis using True assms by (simp add: write_bytes_def)
  next
    case False
    have "unat (a - p) = Suc (unat (a - (p + 1)))"
    proof -
      have "a - p \<noteq> 0" using False by simp
      then have "unat (a - p) = Suc (unat (a - p - 1))" using unat_minus_one [of "a - p"] unat_gt_0 [of "a - p"] by simp
      moreover have "a - p - 1 = a - (p + 1)" by simp
      ultimately show ?thesis by metis
    qed
    then show ?thesis using False by (simp add: write_bytes_def)
  qed
qed

lemma write_bytes_single: "write_bytes m p [b] = m(p := b)"
  by (auto simp: write_bytes_def fun_eq_iff unat_eq_zero)

lemma vstrncpy_copies:
  fixes s :: "'a pgstate_scheme"
  assumes dst: "\<And>m' k. (\<forall>x. \<not> addr_in x tmp 4096 \<longrightarrow> m' x = mem s x) \<Longrightarrow> k < 4096 \<Longrightarrow> vtrans (s\<lparr>mem := m'\<rparr>) (tmp + of_nat k) = Inr (tmp + of_nat k)"
    and src: "\<And>m' k. (\<forall>x. \<not> addr_in x tmp 4096 \<longrightarrow> m' x = mem s x) \<Longrightarrow> k \<le> length w \<Longrightarrow> vtrans (s\<lparr>mem := m'\<rparr>) (virt + of_nat k) = Inr (p k)"
    and bytes: "\<And>k. k \<le> length w \<Longrightarrow> \<not> addr_in (p k) tmp 4096 \<and> mem s (p k) = (w @ [0]) ! k"
    and w: "0 \<notin> set w" "length w < 4096" and room: "unat tmp + 4096 \<le> 4294967296"
  shows "i \<le> length w \<Longrightarrow> length w \<le> i + n \<Longrightarrow> (\<forall>x. \<not> addr_in x tmp 4096 \<longrightarrow> m' x = mem s x) \<Longrightarrow>
    vstrncpy_loop (s\<lparr>mem := m'\<rparr>) (tmp + of_nat i) (virt + of_nat i) n = Inr (s\<lparr>mem := write_bytes m' (tmp + of_nat i) (drop i w @ [0])\<rparr>)"
proof (induction n arbitrary: i m')
  case 0
  then have "i = length w" by simp
  then show ?case using dst [OF 0(3), of i] w(2) by (simp add: vstore_def write_bytes_single fun_upd_def)
next
  case (Suc n)
  have u: "unat (tmp + of_nat k) = unat tmp + k" if "k < 4096" for k using room that by (intro unat_plus_of_nat) simp
  have i: "i < 4096" using Suc.prems(1) w(2) by simp
  have ld: "vload (s\<lparr>mem := m'\<rparr>) (virt + of_nat i) = Inr ((w @ [0]) ! i)"
    using src [OF Suc.prems(3,1)] bytes [OF Suc.prems(1)] Suc.prems(3) by (simp add: vload_def)
  have st: "vstore (s\<lparr>mem := m'\<rparr>) (tmp + of_nat i) c = Inr (s\<lparr>mem := m'(tmp + of_nat i := c)\<rparr>)" for c
    using dst [OF Suc.prems(3) i] by (simp add: vstore_def)
  show ?case
  proof (cases "i = length w")
    case True
    then show ?thesis using ld st [of 0] by (simp add: write_bytes_single fun_upd_def)
  next
    case False
    then have lt: "i < length w" using Suc.prems(1) by simp
    let ?m = "m'(tmp + of_nat i := w ! i)"
    have "\<forall>x. \<not> addr_in x tmp 4096 \<longrightarrow> ?m x = mem s x" using Suc.prems(3) u [OF i] i by (auto simp: addr_in_def)
    from Suc.IH [of "Suc i" ?m, OF _ _ this]
    have "vstrncpy_loop (s\<lparr>mem := ?m\<rparr>) (tmp + of_nat i + 1) (virt + of_nat i + 1) n =
        Inr (s\<lparr>mem := write_bytes ?m (tmp + of_nat i + 1) (drop (Suc i) w @ [0])\<rparr>)"
      using Suc.prems(2) lt by (simp add: add.assoc add.commute [of 1] fun_upd_def)
    also have "write_bytes ?m (tmp + of_nat i + 1) (drop (Suc i) w @ [0]) = write_bytes m' (tmp + of_nat i) (drop i w @ [0])"
    proof -
      have "drop i w = w ! i # drop (Suc i) w" using lt by (simp add: Cons_nth_drop_Suc)
      moreover have "length (drop (Suc i) w @ [0]) < 4294967295" using w(2) by simp
      ultimately show ?thesis using write_bytes_Cons [of "drop (Suc i) w @ [0]" m' "tmp + of_nat i" "w ! i"] by simp
    qed
    finally have "vstrncpy_loop (s\<lparr>mem := ?m\<rparr>) (tmp + of_nat i + 1) (virt + of_nat i + 1) n =
        Inr (s\<lparr>mem := write_bytes m' (tmp + of_nat i) (drop i w @ [0])\<rparr>)" .
    moreover have "w ! i \<noteq> 0" using w(1) lt by (metis nth_mem)
    ultimately show ?thesis using ld st [of "w ! i"] lt by (simp add: nth_append)
  qed
qed

subsection \<open>A string of a process\<close>

text \<open>
  The string \<open>w\<close> at the address \<open>virt\<close> of the process with page directory \<open>dir\<close>: byte \<open>k\<close> is at \<open>p k\<close> in memory the copy leaves alone.
  The page the kernel maps for the copy must not hide it: it lies below the heap or is mapped to itself.
\<close>

definition task_string :: "'a taskstate_scheme \<Rightarrow> u32 \<Rightarrow> u32 \<Rightarrow> u8 list \<Rightarrow> bool" where
  "task_string s dir virt w \<longleftrightarrow> 0 \<notin> set w \<and> (\<forall>k \<le> length w. \<exists>p. vtrans (s\<lparr>cr3 := load32 (mem s) dir\<rparr>) (virt + of_nat k) = Inr p \<and>
     undisturbed s dir p \<and> mem s p = (w @ [0]) ! k \<and> (p = virt + of_nat k \<or> unat (virt + of_nat k) < unat (saddr (kheap s))))"

text \<open>What is left undisturbed is in none of the pages of the address space.\<close>

lemma undisturbed_not_own:
  assumes "kheap_inv s" "chunk_owned s dir" "undisturbed s dir x" "c \<in> set (chunk_pages s dir)"
  shows "\<not> addr_in x c 4096"
proof
  assume x: "addr_in x c 4096"
  have live: "klive s c 1" using assms(2,4) by (simp add: chunk_owned_def)
  from assms(3) show False unfolding undisturbed_def
  proof (elim disjE exE conjE)
    assume "unat x < unat (saddr (kheap s))"
    then show False using heap_live_above [OF assms(1) live] x by (simp add: addr_in_def)
  next
    fix q n assume q: "klive s q n" "q \<notin> set (chunk_pages s dir)" "addr_in x q (4096 * n)"
    then have "apart q n c 1" using kz.live_apart [OF assms(1) q(1) live] assms(4) by blast
    then show False using q(3) x by (auto simp: apart_def addr_in_def)
  qed
qed

text \<open>The buffer the kernel allocates: a page that nothing of the process and nothing below the heap overlaps, and which it can give back.\<close>

lemma copy_buffer:
  fixes s :: "'a taskstate_scheme"
  assumes "kheap_inv s" "0 < kavail s" "chunk_owned s dir" "0 < mx" "mx < 4096"
  obtains tmp h m where "kzalloc s (of_nat mx) = Inr (tmp, s\<lparr>kheap := h, mem := m\<rparr>)" "tmp \<noteq> 0" "page_aligned tmp" "chunk_ok m dir"
    "\<And>u :: 'a taskstate_scheme. kheap u = h \<Longrightarrow> kfree u tmp = Inr (u\<lparr>kheap := kheap s\<rparr>)" "unat (saddr (kheap s)) \<le> unat tmp"
    "\<And>x. undisturbed s dir x \<or> (\<exists>q n. klive s q n \<and> addr_in x q (4096 * n)) \<Longrightarrow> m x = mem s x \<and> \<not> addr_in x tmp 4096"
proof -
  have sz: "0 < unat (of_nat mx :: u32)" "unat (of_nat mx :: u32) \<le> 4096" using assms(4,5) unat_of_nat_u32 [of mx] by simp_all
  obtain tmp s1 where z: "kzalloc s (of_nat mx) = Inr (tmp, s1)" "tmp \<noteq> 0" "kheap_inv s1" "kavail s1 = kavail s - 1"
      "\<And>q n. klive s1 q n \<longleftrightarrow> klive s q n \<or> q = tmp \<and> n = 1" "page_aligned tmp" "\<And>n. \<not> klive s tmp n"
      "\<And>q n x. klive s q n \<Longrightarrow> addr_in x q (4096 * n) \<Longrightarrow> mem s1 x = mem s x"
    by (rule kzalloc_one_page [OF assms(1,2) sz]) (rule that)
  have fair: "fair_request (of_nat mx)" using kz.page_request_fair [OF sz] by simp
  obtain h m where s1: "s1 = s\<lparr>kheap := h, mem := m\<rparr>" using kzalloc_only_heap [OF z(1)] by blast
  have lt: "klive s1 tmp 1" using z(5) by simp
  note below = kzalloc_below [OF assms(1) fair z(1,2)]
  have above: "unat (saddr (kheap s)) \<le> unat tmp" using heap_live_above [OF z(3) lt] below(1) by simp
  have free: "kfree u tmp = Inr (u\<lparr>kheap := kheap s\<rparr>)" if "kheap u = h" for u :: "'a taskstate_scheme"
  proof -
    obtain h' where h': "heap_malloc (kheap s) (of_nat mx) = Inr (tmp, h')" "kheap s1 = h'" using z(1,2) by (auto simp: kzalloc_Inr)
    then have "heap_malloc (kheap s) (of_nat mx) = Inr (tmp, h)" by (simp add: s1)
    from heap_free_after_malloc [OF assms(1) fair this z(2)] show ?thesis using that by (simp add: kfree_Inr)
  qed
  have same: "m x = mem s x \<and> \<not> addr_in x tmp 4096" if "undisturbed s dir x \<or> (\<exists>q n. klive s q n \<and> addr_in x q (4096 * n))" for x
  proof (cases "\<exists>q n. klive s q n \<and> addr_in x q (4096 * n)")
    case True
    then obtain q n where q: "klive s q n" "addr_in x q (4096 * n)" by blast
    then have "q \<noteq> tmp" "klive s1 q n" using z(5,7) by blast+
    then have "apart q n tmp 1" using kz.live_apart [OF z(3) _ lt] by blast
    then show ?thesis using q(2) z(8) [OF q] by (auto simp: apart_def addr_in_def s1)
  next
    case False
    then have "unat x < unat (saddr (kheap s))" using that unfolding undisturbed_def by blast
    then show ?thesis using above below(2) [of x] by (simp add: addr_in_def s1)
  qed
  have "chunk_owned s1 dir"
    by (rule chunk_owned_kept [OF assms(1,3)]; (rule z(8); assumption | simp add: z(5)))
  then have "chunk_ok m dir" using chunk_owned_ok [OF z(3)] by (simp add: s1)
  then show thesis using z(1,2,6) free above same by (intro that) (simp_all add: s1)
qed

text \<open>The mapping of that page to itself, while anything is written to the page: no other entry differs, and its own entry stays where it is.\<close>

lemma temporary_mapping:
  assumes ok: "chunk_ok m dir" "page_aligned tmp" and d: "d = load32 m dir" and cell: "cell = pte_cell m d (page_no tmp)"
    and away: "\<forall>c \<in> set (dir_pages m d @ [dir]). \<forall>x. addr_in x c 4096 \<longrightarrow> \<not> addr_in x tmp 4096"
  shows "paging_map m dir tmp tmp 7 = (0, store32 m cell (tmp OR 7))"
    "\<forall>x. \<not> addr_in x tmp 4096 \<longrightarrow> m' x = store32 m cell (tmp OR 7) x \<Longrightarrow> load32 m' dir = d"
    "\<forall>x. \<not> addr_in x tmp 4096 \<longrightarrow> m' x = store32 m cell (tmp OR 7) x \<Longrightarrow> load32 m' (pcell d (page_no a div 1024)) = load32 m (pcell d (page_no a div 1024))"
    "\<forall>x. \<not> addr_in x tmp 4096 \<longrightarrow> m' x = store32 m cell (tmp OR 7) x \<Longrightarrow>
      pte m' d (page_no a) = (if page_no a = page_no tmp then tmp OR 7 else pte m d (page_no a))"
    "\<forall>x. \<not> addr_in x tmp 4096 \<longrightarrow> m' x = store32 m cell (tmp OR 7) x \<Longrightarrow> pte_cell m' d (page_no tmp) = cell"
proof -
  define m2 where "m2 = store32 m cell (tmp OR 7)"
  show map: "paging_map m dir tmp tmp 7 = (0, store32 m cell (tmp OR 7))"
    using ok(2) by (simp add: paging_map_def page_mod_iff paging_set_pte d cell)
  have step: "chunk_ok m2 dir" "load32 m2 dir = d" "dir_pages m2 d = dir_pages m d"
      "\<And>k. k < 1048576 \<Longrightarrow> pte m2 d k = (if k = page_no tmp then tmp OR 7 else pte m d k)"
    using paging_map_step [OF ok(1,2,2), of 7] map by (auto simp: d m2_def)
  have n: "page_no a < 1048576" "page_no a div 1024 < 1024" "page_no tmp div 1024 < 1024" for a
    using page_no_bound [of a] page_no_bound [of tmp] by auto
  assume m': "\<forall>x. \<not> addr_in x tmp 4096 \<longrightarrow> m' x = store32 m cell (tmp OR 7) x"
  then have "\<forall>x. \<not> addr_in x tmp 4096 \<longrightarrow> m' x = m2 x" by (simp add: m2_def)
  then have "m' x = m2 x" if "c \<in> set (dir_pages m2 (load32 m2 dir) @ [dir])" "addr_in x c 4096" for c x
    using away that unfolding step(2,3) by blast
  note tr = translations_cong [OF step(1) this]
  show d': "load32 m' dir = d" using tr(1) step(2) by simp
  have "pde m' dir (page_no a div 1024) = pde m dir (page_no a div 1024)"
    using tr(4) [OF _ _ n(2)] paging_map_pdes [OF ok(1) map n(2)] by (simp add: m2_def)
  then show "load32 m' (pcell d (page_no a div 1024)) = load32 m (pcell d (page_no a div 1024))" by (simp add: pde_def d' d [symmetric])
  show "pte m' d (page_no a) = (if page_no a = page_no tmp then tmp OR 7 else pte m d (page_no a))"
    using tr(2) [OF _ _ n(1)] step(2,4) n(1) by simp
  have "table_of m' d (page_no tmp div 1024) = table_of m2 d (page_no tmp div 1024)" using tr(3) [OF _ _ n(3)] step(2) by simp
  also have "\<dots> = table_of m d (page_no tmp div 1024)" using step(3) n(3) by (simp add: dir_pages_def)
  finally show "pte_cell m' d (page_no tmp) = cell" by (simp add: cell pte_cell_def)
qed

text \<open>That entry is in a page table.\<close>

lemma table_cell:
  assumes "page_aligned tmp" "cell = pte_cell m d (page_no tmp)"
  shows "unat cell + 4 \<le> 4294967296" "addr_in x cell 4 \<Longrightarrow> \<exists>c \<in> set (dir_pages m d). addr_in x c 4096"
proof -
  let ?t = "table_of m d (page_no tmp div 1024)"
  have cell: "page_aligned ?t" "page_no tmp mod 1024 < 1024" "cell = pcell ?t (page_no tmp mod 1024)"
    using assms(2) by (simp_all add: pte_cell_def)
  show "unat cell + 4 \<le> 4294967296"
    unfolding cell(3) using unat_pcell [OF cell(1,2)] page_room [OF cell(1)] cell(2) by simp
  show "\<exists>c \<in> set (dir_pages m d). addr_in x c 4096" if "addr_in x cell 4"
  proof
    show "?t \<in> set (dir_pages m d)" using page_no_bound [of tmp] by (simp add: dir_pages_def)
    show "addr_in x ?t 4096" using that unat_pcell [OF cell(1,2)] cell(2) by (auto simp: addr_in_def cell(3))
  qed
qed

text \<open>Under that mapping the page is found at its own address, and every other address where it was.\<close>

lemma temporary_translation:
  assumes "bit (cr0 s) 31" "page_aligned tmp"
    and pde: "\<And>a. load32 m' (pcell (cr3 s) (page_no a div 1024)) = load32 m (pcell (cr3 s) (page_no a div 1024))"
    and pte: "\<And>a. pte m' (cr3 s) (page_no a) = (if page_no a = page_no tmp then tmp OR 7 else pte m (cr3 s) (page_no a))"
    and present: "load32 m (pcell (cr3 s) (page_no tmp div 1024)) AND 7 = 7"
  shows "k < 4096 \<Longrightarrow> vtrans (s\<lparr>mem := m'\<rparr>) (tmp + of_nat k) = Inr (tmp + of_nat k)"
    "page_no a \<noteq> page_no tmp \<Longrightarrow> vtrans (s\<lparr>mem := m'\<rparr>) a = vtrans (s\<lparr>mem := m\<rparr>) a"
proof -
  have "((tmp OR 7) AND 7) AND 1 = 1" unfolding page_low_bits [OF assms(2)] by simp
  then have one: "(tmp OR 7) AND 1 = 1" unfolding and.assoc by simp
  have "(load32 m (pcell (cr3 s) (page_no tmp div 1024)) AND 7) AND 1 = 1" using present by simp
  then have "load32 m (pcell (cr3 s) (page_no tmp div 1024)) AND 1 = 1" unfolding and.assoc by simp
  then show "k < 4096 \<Longrightarrow> vtrans (s\<lparr>mem := m'\<rparr>) (tmp + of_nat k) = Inr (tmp + of_nat k)"
    using page_offset(4,5) [OF assms(2), of k] assms(1) one pde [of tmp] pte [of tmp] page_mask_or [OF assms(2), of 7]
    by (simp add: vtrans_entry)
  show "page_no a \<noteq> page_no tmp \<Longrightarrow> vtrans (s\<lparr>mem := m'\<rparr>) a = vtrans (s\<lparr>mem := m\<rparr>) a"
    using assms(1) pde [of a] pte [of a] by (intro vtrans_same) simp_all
qed

text \<open>The string in the page is copied into the kernel's buffer.\<close>

lemma copied_out:
  assumes "\<And>k. k \<le> length w \<Longrightarrow> m (tmp + of_nat k) = (w @ [0]) ! k" "0 \<notin> set w" "length w < mx" "length phys = mx"
  obtains buf where "strncpy phys 0 (read_bytes m tmp mx) (int mx) = Inr buf" "cstring buf = w" "0 \<in> set buf" "length buf = mx"
proof -
  let ?n = "length w"
  have rb: "take (Suc ?n) (read_bytes m tmp mx) = w @ [0]"
    by (rule nth_equalityI) (use assms(1,3) in \<open>auto simp: read_bytes_def\<close>)
  have rb': "read_bytes m tmp mx = w @ 0 # drop (Suc ?n) (read_bytes m tmp mx)"
    using append_take_drop_id [of "Suc ?n" "read_bytes m tmp mx"] unfolding rb by simp
  have cs: "cstring (read_bytes m tmp mx) = w" "0 \<in> set (read_bytes m tmp mx)"
    by (subst rb', simp add: cstring_append_nul [OF assms(2)], subst rb', simp)
  have "strncpy phys 0 (read_bytes m tmp mx) (int mx) = Inr (overwrite phys 0 (w @ [0]))"
    using strncpy_fits [of "int mx" "read_bytes m tmp mx" 0 phys] cs assms(3,4) by (simp add: nat_diff_distrib)
  moreover have "cstring (overwrite phys 0 (w @ [0])) = w" "0 \<in> set (overwrite phys 0 (w @ [0]))"
    using cstring_overwrite [OF assms(2), of 0 phys] assms(3,4) by simp_all (simp add: overwrite_def)
  moreover have "length (overwrite phys 0 (w @ [0])) = mx" using assms(3,4) by (simp add: overwrite_def)
  ultimately show thesis by (rule that)
qed

lemma copy_string_copies:
  fixes s :: "'a taskstate_scheme"
  assumes "kheap_inv s" "0 < kavail s" "tasks s a = Some t" "page_directory t = dir" "chunk_owned s dir" "bit (cr0 s) 31"
    and user: "\<And>i. i < 1024 \<Longrightarrow> pde (mem s) dir i AND 7 = 7"
    and w: "task_string s dir virt w" "length w < mx" "mx < 4096" "length phys = mx"
  shows "\<exists>m c d g buf. copy_string_from_task s a virt phys mx = Inr (0, buf, s\<lparr>mem := m, cr3 := c, current_directory := d, data_segments := g\<rparr>) \<and>
    0 \<in> set buf \<and> cstring buf = w \<and> length buf = mx \<and> (\<forall>q n x. klive s q n \<and> addr_in x q (4096 * n) \<longrightarrow> m x = mem s x) \<and>
    (\<forall>x. unat x < unat (saddr (kheap s)) \<longrightarrow> m x = mem s x)"
proof -
  let ?d = "load32 (mem s) dir"
  obtain tmp h m1 where z: "kzalloc s (of_nat mx) = Inr (tmp, s\<lparr>kheap := h, mem := m1\<rparr>)" "tmp \<noteq> 0" "page_aligned tmp" "chunk_ok m1 dir"
    "\<And>u :: 'a taskstate_scheme. kheap u = h \<Longrightarrow> kfree u tmp = Inr (u\<lparr>kheap := kheap s\<rparr>)" "unat (saddr (kheap s)) \<le> unat tmp"
    "\<And>x. undisturbed s dir x \<or> (\<exists>q n. klive s q n \<and> addr_in x q (4096 * n)) \<Longrightarrow> m1 x = mem s x \<and> \<not> addr_in x tmp 4096"
    by (rule copy_buffer [OF assms(1,2,5) _ w(3)]) (use w(2) in simp, rule that)
  have pages: "dir_pages (mem s) ?d @ [dir] = chunk_pages s dir" by (simp add: chunk_pages_def chunk_dir_def)
  have in_page: "\<exists>q n. klive s q n \<and> addr_in x q (4096 * n)" if "c \<in> set (dir_pages (mem s) ?d @ [dir])" "addr_in x c 4096" for c x
    using assms(5) that unfolding pages chunk_owned_def by (intro exI [of _ c] exI [of _ 1]) simp
  have "m1 x = mem s x" if "c \<in> set (dir_pages (mem s) ?d @ [dir])" "addr_in x c 4096" for c x
    using z(7) [of x] in_page [OF that] by blast
  note tr = translations_cong [OF chunk_owned_ok [OF assms(1,5)] this]
  have d1: "load32 m1 dir = ?d" using tr(1) by simp
  have dp: "dir_pages m1 ?d = dir_pages (mem s) ?d" using tr(3) by (intro dir_pages_cong) simp
  have away: "\<forall>c \<in> set (dir_pages m1 ?d @ [dir]). \<forall>x. addr_in x c 4096 \<longrightarrow> \<not> addr_in x tmp 4096"
    using z(7) in_page unfolding dp by blast
  define cell where "cell = pte_cell m1 ?d (page_no tmp)"
  define m2 where "m2 = store32 m1 cell (tmp OR 7)"
  note map = temporary_mapping [OF z(4,3) d1 [symmetric] cell_def away, folded m2_def]
  note cell = table_cell [OF z(3) cell_def]
  have m2_out: "m2 x = m1 x" if "\<not> addr_in x cell 4" for x using that cell(1) by (simp add: m2_def store32_outside)
  have cell_out: "\<not> addr_in x cell 4" if "addr_in x tmp 4096" for x using cell(2) [of x] away that by auto
  have d2: "load32 m2 dir = ?d" by (rule map(2)) blast
  define s2 where "s2 = s\<lparr>kheap := h, mem := m2, cr3 := ?d, current_directory := ?d\<rparr>"
  have switch: "paging_switch (s\<lparr>kheap := h, mem := m2\<rparr>) dir = s2"
    by (cases s) (simp add: s2_def paging_switch_def paging_load_directory_def Let_def d2)
  have vt: "vtrans (s2\<lparr>mem := m1\<rparr>) x = vtrans (s\<lparr>cr3 := ?d\<rparr>) x" for x
  proof (rule vtrans_same)
    have n: "page_no x < 1048576" "page_no x div 1024 < 1024" using page_no_bound [of x] by auto
    show "load32 (mem (s2\<lparr>mem := m1\<rparr>)) (pcell (cr3 (s\<lparr>cr3 := ?d\<rparr>)) (page_no x div 1024)) =
        load32 (mem (s\<lparr>cr3 := ?d\<rparr>)) (pcell (cr3 (s\<lparr>cr3 := ?d\<rparr>)) (page_no x div 1024))"
      using tr(4) [OF _ _ n(2)] d1 by (simp add: pde_def)
    show "pte (mem (s2\<lparr>mem := m1\<rparr>)) (cr3 (s\<lparr>cr3 := ?d\<rparr>)) (page_no x) = pte (mem (s\<lparr>cr3 := ?d\<rparr>)) (cr3 (s\<lparr>cr3 := ?d\<rparr>)) (page_no x)"
      using tr(2) [OF _ _ n(1)] by simp
  qed (use assms(6) in \<open>simp_all add: s2_def\<close>)
  have "load32 m1 (pcell (cr3 s2) (page_no tmp div 1024)) AND 7 = 7"
    using tr(4) [where i = "page_no tmp div 1024"] user [of "page_no tmp div 1024"] page_no_bound [of tmp] d1 by (simp add: pde_def s2_def)
  note trans = temporary_translation [of s2 tmp _ m1, OF _ z(3) _ _ this]
  have view: "k < 4096 \<Longrightarrow> vtrans (s2\<lparr>mem := m'\<rparr>) (tmp + of_nat k) = Inr (tmp + of_nat k)"
    "page_no x \<noteq> page_no tmp \<Longrightarrow> vtrans (s2\<lparr>mem := m'\<rparr>) x = vtrans (s\<lparr>cr3 := ?d\<rparr>) x"
    if "\<forall>x. \<not> addr_in x tmp 4096 \<longrightarrow> m' x = m2 x" for m' k x
    using trans [of m'] map(3,4) [OF that] assms(6) unfolding vt [symmetric] by (simp_all add: s2_def)
  have w0: "0 \<notin> set w" using w(1) by (simp add: task_string_def)
  define p where "p k = sum.projr (vtrans (s\<lparr>cr3 := ?d\<rparr>) (virt + of_nat k))" for k :: nat
  have p: "vtrans (s\<lparr>cr3 := ?d\<rparr>) (virt + of_nat k) = Inr (p k)" "undisturbed s dir (p k)" "mem s (p k) = (w @ [0]) ! k"
      "p k = virt + of_nat k \<or> unat (virt + of_nat k) < unat (saddr (kheap s))" if le: "k \<le> length w" for k
  proof -
    obtain q where "vtrans (s\<lparr>cr3 := ?d\<rparr>) (virt + of_nat k) = Inr q" "undisturbed s dir q" "mem s q = (w @ [0]) ! k"
      "q = virt + of_nat k \<or> unat (virt + of_nat k) < unat (saddr (kheap s))"
      using w(1) le unfolding task_string_def by blast
    then show "vtrans (s\<lparr>cr3 := ?d\<rparr>) (virt + of_nat k) = Inr (p k)" "undisturbed s dir (p k)" "mem s (p k) = (w @ [0]) ! k"
      "p k = virt + of_nat k \<or> unat (virt + of_nat k) < unat (saddr (kheap s))" by (simp_all add: p_def)
  qed
  have other: "page_no (virt + of_nat k) \<noteq> page_no tmp" if "k \<le> length w" for k
  proof
    assume "page_no (virt + of_nat k) = page_no tmp"
    then have in_tmp: "addr_in (virt + of_nat k) tmp 4096"
      using page_no_split [OF z(3)] by (auto simp: addr_in_def page_no_def [of "virt + of_nat k"])
    then show False using in_tmp p(2,4) [OF that] z(6) z(7) [of "p k"] by (auto simp: addr_in_def)
  qed
  have bytes: "\<not> addr_in (p k) tmp 4096 \<and> mem s2 (p k) = (w @ [0]) ! k" if "k \<le> length w" for k
  proof -
    have "\<not> addr_in (p k) cell 4"
      using cell(2) [of "p k"] undisturbed_not_own [OF assms(1,5) p(2) [OF that]] unfolding dp pages [symmetric] by auto
    then show ?thesis using p(2,3) [OF that] z(7) [of "p k"] m2_out by (simp add: s2_def)
  qed
  have room: "unat tmp + 4096 \<le> 4294967296" by (rule page_room [OF z(3)])
  define m3 where "m3 = write_bytes m2 tmp (w @ [0])"
  have m2: "mem s2 = m2" "s2\<lparr>mem := m2\<rparr> = s2" by (simp_all add: s2_def)
  have "vtrans (s2\<lparr>mem := m'\<rparr>) (virt + of_nat k) = Inr (p k)"
    if "\<forall>x. \<not> addr_in x tmp 4096 \<longrightarrow> m' x = mem s2 x" "k \<le> length w" for m' k
    using view(2) [of m', OF _ other [OF that(2)]] p(1) [OF that(2)] that(1) by (simp add: s2_def)
  moreover have "vtrans (s2\<lparr>mem := m'\<rparr>) (tmp + of_nat k) = Inr (tmp + of_nat k)"
    if "\<forall>x. \<not> addr_in x tmp 4096 \<longrightarrow> m' x = mem s2 x" "k < 4096" for m' k
    using view(1) [of m' k] that by (simp add: s2_def)
  ultimately have copy: "vstrncpy_loop s2 tmp virt (mx - 1) = Inr (s2\<lparr>mem := m3\<rparr>)"
    using vstrncpy_copies [of tmp s2 w virt p 0 "mx - 1" "mem s2", OF _ _ bytes w0 _ room] w(2,3) by (simp add: m3_def m2)
  have m3: "m3 x = m2 x" if "\<not> addr_in x tmp 4096" for x
    unfolding m3_def using that w(2,3) room by (intro write_bytes_outside) (auto simp: addr_in_def)
  have "pte_cell m3 ?d (page_no tmp) = cell" using m3 by (intro map(5)) simp
  then have restored: "paging_set m3 ?d tmp (load32 m1 cell) = (0, store32 m3 cell (load32 m1 cell))" using paging_set_pte [OF z(3)] by simp
  define m4 where "m4 = store32 m3 cell (load32 m1 cell)"
  have m4: "m4 x = (if addr_in x tmp 4096 then m3 x else m1 x)" for x
    using m3 [of x] m2_out [of x] cell_out [of x] by (simp add: m4_def store32_restores [OF cell(1)])
  have "m4 (tmp + of_nat k) = (w @ [0]) ! k" if le: "k \<le> length w" for k
  proof -
    have "unat (tmp + of_nat k) = unat tmp + k" using le room w(2,3) by (intro unat_plus_of_nat) simp
    then show ?thesis using le w(2,3) unat_of_nat_u32 [of k] by (simp add: m4 addr_in_def m3_def write_bytes_def)
  qed
  from copied_out [OF this w0 w(2,4)] obtain buf where buf: "strncpy phys 0 (read_bytes m4 tmp mx) (int mx) = Inr buf" "cstring buf = w"
    "0 \<in> set buf" "length buf = mx" by blast
  have old: "paging_get m1 ?d tmp = load32 m1 cell" using paging_get_pte [OF z(3)] by (simp add: pte_def cell_def)
  define s3 where "s3 = kernel_page (s2\<lparr>mem := m3\<rparr>)"
  have s3: "mem s3 = m3" "kheap (s3\<lparr>mem := m4\<rparr>) = h" by (simp_all add: s3_def kernel_page_def kernel_registers_def paging_switch_def paging_load_directory_def Let_def s2_def)
  have "copy_string_from_task s a virt phys mx = Inr (0, buf, s3\<lparr>mem := m4, kheap := kheap s\<rparr>)"
    using z(1,2) assms(3,4) w(3) old map(1) copy restored buf(1) z(5) [OF s3(2)]
    by (simp add: copy_string_from_task_def Let_def d1 switch s3_def [symmetric] s3 m4_def [symmetric])
  moreover have "s3\<lparr>mem := m4, kheap := kheap s\<rparr> = s\<lparr>mem := m4, cr3 := cr3 s3, current_directory := current_directory s3, data_segments := 0x10\<rparr>"
    by (cases s) (simp add: s3_def s2_def kernel_page_def kernel_registers_def paging_switch_def paging_load_directory_def Let_def)
  moreover have "m4 x = mem s x" if "klive s q n \<and> addr_in x q (4096 * n)" for q n x
    using z(7) [of x] that by (auto simp: m4)
  moreover have "m4 x = mem s x" if "unat x < unat (saddr (kheap s))" for x
    using z(7) [of x] that by (simp add: m4 undisturbed_def)
  ultimately show ?thesis using buf(2-4)
    by - (rule exI [of _ m4], rule exI [of _ "cr3 s3"], rule exI [of _ "current_directory s3"], rule exI [of _ "0x10"], rule exI [of _ buf], simp)
qed

end
