(* ===== verification/UserStart.thy ===== *)
theory UserStart
  imports Interrupts
begin

text \<open>
  The start of a user program: \<open>_start\<close> and \<open>c_start\<close> of programs/stdlib/src/start.asm and start.c, and the routines of marrowos.asm they
  call. User code is a pair of its registers and the machine state; \<open>main\<close> is a parameter. A word of user memory is reached through the
  page tables of CR3 with the rights of user mode, \<open>5\<close> (present, user) for a read and \<open>7\<close> (writable too) for a write.
\<close>

subsection \<open>User memory\<close>

definition utrans :: "u32 \<Rightarrow> 'a pgstate_scheme \<Rightarrow> u32 \<Rightarrow> u32 res" where
  "utrans rights s a =
     (if \<not> bit (cr0 s) 31 then Inr a
      else
        let pde = load32 (mem s) (cr3 s + 4 * drop_bit 22 a);
            entry = load32 (mem s) ((pde AND 0xfffff000) + 4 * (drop_bit 12 a AND 0x3ff))
        in if pde AND rights \<noteq> rights \<or> entry AND rights \<noteq> rights then Inl PageFault
           else Inr ((entry AND 0xfffff000) + (a AND 0xfff)))"

definition uload32 :: "'a pgstate_scheme \<Rightarrow> u32 \<Rightarrow> u32 res" where
  "uload32 s a =
     bind_res (utrans 5 s a) (\<lambda>p0. bind_res (utrans 5 s (a + 1)) (\<lambda>p1.
     bind_res (utrans 5 s (a + 2)) (\<lambda>p2. bind_res (utrans 5 s (a + 3)) (\<lambda>p3.
       Inr (ucast (mem s p0) OR push_bit 8 (ucast (mem s p1)) OR push_bit 16 (ucast (mem s p2)) OR push_bit 24 (ucast (mem s p3)))))))"

definition ustore32 :: "'a pgstate_scheme \<Rightarrow> u32 \<Rightarrow> u32 \<Rightarrow> 'a pgstate_scheme res" where
  "ustore32 s a v =
     bind_res (utrans 7 s a) (\<lambda>p0. bind_res (utrans 7 s (a + 1)) (\<lambda>p1.
     bind_res (utrans 7 s (a + 2)) (\<lambda>p2. bind_res (utrans 7 s (a + 3)) (\<lambda>p3.
       Inr (s\<lparr>mem := (mem s)(p0 := ucast v, p1 := ucast (drop_bit 8 v), p2 := ucast (drop_bit 16 v),
         p3 := ucast (drop_bit 24 v))\<rparr>)))))"

definition upush :: "u32 \<Rightarrow> registers \<times> 'a pgstate_scheme \<Rightarrow> (registers \<times> 'a pgstate_scheme) res" where
  "upush v c = (case c of (r, s) \<Rightarrow>
     bind_res (ustore32 s (r_esp r - 4) v) (\<lambda>s. Inr (r\<lparr>r_esp := r_esp r - 4\<rparr>, s)))"

definition upop :: "registers \<times> 'a pgstate_scheme \<Rightarrow> (u32 \<times> registers \<times> 'a pgstate_scheme) res" where
  "upop c = (case c of (r, s) \<Rightarrow>
     bind_res (uload32 s (r_esp r)) (\<lambda>v. Inr (v, r\<lparr>r_esp := r_esp r + 4\<rparr>, s)))"

subsection \<open>System call routines (marrowos.asm)\<close>

text \<open>\<open>int 0x80\<close>: the registers go to the kernel in a frame.\<close>

definition user_frame :: "registers \<Rightarrow> interrupt_frame" where
  "user_frame r =
     \<lparr>f_edi = r_edi r, f_esi = r_esi r, f_ebp = r_ebp r, f_reserved = 0, f_ebx = r_ebx r, f_edx = r_edx r, f_ecx = r_ecx r,
      f_eax = r_eax r, f_ip = r_ip r, f_cs = r_cs r, f_flags = r_flags r, f_esp = r_esp r, f_ss = r_ss r\<rparr>"

text \<open>
  The routines with one argument differ in the number of their command only: \<open>push ebp; mov ebp, esp; push dword [ebp + 8]; mov eax, n;
  int 0x80; add esp, 4; pop ebp; ret\<close>. Entered by a \<open>call\<close>, with the return address on top of the stack.
\<close>

definition system_call_routine :: "u32 \<Rightarrow> registers \<times> 'a idtstate_scheme \<Rightarrow> (registers \<times> 'a idtstate_scheme) res" where
  "system_call_routine n c =
     bind_res (upush (r_ebp (fst c)) c) (\<lambda>(r, s).
     let r = r\<lparr>r_ebp := r_esp r, r_eax := n\<rparr>
     in bind_res (uload32 s (r_ebp r + 8)) (\<lambda>x.
        bind_res (upush x (r, s)) (\<lambda>(r, s).
        bind_res (isr80h_wrapper s (user_frame r)) (\<lambda>(r, s).
        bind_res (upop (r\<lparr>r_esp := r_esp r + 4\<rparr>, s)) (\<lambda>(ebp, r, s).
        bind_res (upop (r\<lparr>r_ebp := ebp\<rparr>, s)) (\<lambda>(ip, r, s). Inr (r\<lparr>r_ip := ip\<rparr>, s)))))))"

definition marrowos_process_get_arguments :: "registers \<times> 'a idtstate_scheme \<Rightarrow> (registers \<times> 'a idtstate_scheme) res" where
  "marrowos_process_get_arguments = system_call_routine 8"

text \<open>\<open>push ebp; mov ebp, esp; mov eax, 9; int 0x80\<close>: what runs next is what the kernel chooses, and never the rest of the routine.\<close>

definition marrowos_exit :: "registers \<times> 'a idtstate_scheme \<Rightarrow> (registers \<times> 'a idtstate_scheme) res" where
  "marrowos_exit c =
     bind_res (upush (r_ebp (fst c)) c) (\<lambda>(r, s). isr80h_wrapper s (user_frame (r\<lparr>r_ebp := r_esp r, r_eax := 9\<rparr>)))"

text \<open>A C caller pushes the argument, calls, with \<open>ret\<close> the address it goes on at, and drops the argument.\<close>

definition call_with ::
  "(registers \<times> 'a idtstate_scheme \<Rightarrow> (registers \<times> 'a idtstate_scheme) res) \<Rightarrow> u32 \<Rightarrow> u32 \<Rightarrow> registers \<times> 'a idtstate_scheme \<Rightarrow>
   (registers \<times> 'a idtstate_scheme) res" where
  "call_with f ret x c =
     bind_res (upush x c) (\<lambda>c. bind_res (upush ret c) (\<lambda>c. bind_res (f c) (\<lambda>(r, s). Inr (r\<lparr>r_esp := r_esp r + 4\<rparr>, s))))"

subsection \<open>The start (start.c)\<close>

text \<open>\<open>arguments\<close> is where the compiler has put the variable of that name; the result of \<open>main\<close> is dropped.\<close>

definition c_start ::
  "u32 \<Rightarrow> u32 \<Rightarrow> (int \<Rightarrow> u32 \<Rightarrow> registers \<times> 'a idtstate_scheme \<Rightarrow> (int \<times> registers \<times> 'a idtstate_scheme) res) \<Rightarrow>
   registers \<times> 'a idtstate_scheme \<Rightarrow> (registers \<times> 'a idtstate_scheme) res" where
  "c_start arguments ret main c =
     bind_res (call_with marrowos_process_get_arguments ret arguments c) (\<lambda>(r, s).
     bind_res (uload32 s arguments) (\<lambda>argc.
     bind_res (uload32 s (arguments + 4)) (\<lambda>argv.
     bind_res (main (sint argc) argv (r, s)) (\<lambda>(res, c). Inr c))))"

subsection \<open>A page of the stack\<close>

text \<open>Page \<open>v\<close> of the address space in use is the page frame \<open>q\<close>, writable from user mode, and \<open>q\<close> is neither the page directory nor the page table of \<open>v\<close>.\<close>

definition user_page :: "'a pgstate_scheme \<Rightarrow> u32 \<Rightarrow> u32 \<Rightarrow> bool" where
  "user_page s v q \<longleftrightarrow> bit (cr0 s) 31 \<and> page_aligned v \<and> page_aligned q \<and> page_aligned (cr3 s) \<and> cr3 s \<noteq> q \<and>
     table_of (mem s) (cr3 s) (page_no v div 1024) \<noteq> q \<and> load32 (mem s) (pcell (cr3 s) (page_no v div 1024)) AND 7 = 7 \<and>
     pte (mem s) (cr3 s) (page_no v) AND 7 = 7 \<and> pte (mem s) (cr3 s) (page_no v) AND 0xfffff000 = q"

lemma user_pageD:
  assumes "user_page s v q"
  shows "bit (cr0 s) 31" "page_aligned v" "page_aligned q" "page_aligned (cr3 s)" "cr3 s \<noteq> q"
    "table_of (mem s) (cr3 s) (page_no v div 1024) \<noteq> q" "load32 (mem s) (pcell (cr3 s) (page_no v div 1024)) AND 7 = 7"
    "pte (mem s) (cr3 s) (page_no v) AND 7 = 7" "pte (mem s) (cr3 s) (page_no v) AND 0xfffff000 = q"
  using assms by (simp_all add: user_page_def)

text \<open>Every translation of an address of the page, in user or supervisor mode or by the routine of paging.c, gives the page frame.\<close>

lemma user_page_translations:
  assumes "user_page s v q" "k < 4096"
  shows "rights AND 7 = rights \<Longrightarrow> utrans rights s (v + of_nat k) = Inr (q + of_nat k)"
    "vtrans s (v + of_nat k) = Inr (q + of_nat k)"
    "paging_get_physical_address (mem s) (cr3 s) (v + of_nat k) = q + of_nat k"
proof -
  note u = user_pageD [OF assms(1)]
  note o = page_offset [OF u(2) assms(2)]
  let ?pde = "load32 (mem s) (pcell (cr3 s) (page_no v div 1024))" and ?e = "pte (mem s) (cr3 s) (page_no v)"
  have w: "load32 (mem s) (cr3 s + 4 * drop_bit 22 (v + of_nat k)) = ?pde"
    "load32 (mem s) ((?pde AND 0xfffff000) + 4 * (drop_bit 12 (v + of_nat k) AND 0x3ff)) = ?e"
    by (simp_all add: o pcell_def pte_def pte_cell_def table_of_def)
  have r: "x AND rights = rights" if "x AND 7 = 7" "rights AND 7 = rights" for x rights :: u32
  proof -
    have "x AND rights = (x AND 7) AND rights" using that(2) by (metis and.assoc and.commute)
    then show ?thesis using that by (simp add: and.commute)
  qed
  show "rights AND 7 = rights \<Longrightarrow> utrans rights s (v + of_nat k) = Inr (q + of_nat k)"
    unfolding utrans_def Let_def w o(4) u(9) using r [OF u(7)] r [OF u(8)] by (simp add: u(1))
  have "?pde AND 1 = 1" "?e AND 1 = 1" using r [OF u(7), of 1] r [OF u(8), of 1] by simp_all
  then show "vtrans s (v + of_nat k) = Inr (q + of_nat k)" unfolding vtrans_def Let_def w o(4) u(9) by (simp add: u(1))
  have "(v + of_nat k) mod 4096 = of_nat k"
    using assms(2) page_no_split [OF u(2)] by (simp add: word_unat_eq_iff unat_mod o unat_of_nat_u32)
  then show "paging_get_physical_address (mem s) (cr3 s) (v + of_nat k) = q + of_nat k"
    by (simp add: physical_address o(5) u(9))
qed

lemma user_page_words:
  assumes "user_page s v q" "k + 4 \<le> 4096"
  shows "uload32 s (v + of_nat k) = Inr (load32 (mem s) (q + of_nat k))" "vload32 s (v + of_nat k) = Inr (load32 (mem s) (q + of_nat k))"
    "ustore32 s (v + of_nat k) x = Inr (s\<lparr>mem := store32 (mem s) (q + of_nat k) x\<rparr>)"
proof -
  have t: "utrans rights s (v + of_nat k + i) = Inr (q + of_nat k + i)" "vtrans s (v + of_nat k + i) = Inr (q + of_nat k + i)"
    if "i \<in> {1, 2, 3}" "rights \<in> {5, 7}" for rights i :: u32
  proof -
    obtain j where j: "i = of_nat j" "j < 4"
    proof
      show "i = of_nat (unat i)" "unat i < 4" using \<open>i \<in> {1, 2, 3}\<close> by auto
    qed
    have e: "x + of_nat k + i = x + of_nat (k + j)" for x by (simp add: j)
    show "utrans rights s (v + of_nat k + i) = Inr (q + of_nat k + i)" "vtrans s (v + of_nat k + i) = Inr (q + of_nat k + i)"
      unfolding e using user_page_translations [OF assms(1), of "k + j"] j(2) assms(2) that(2) by auto
  qed
  have t0: "utrans 5 s (v + of_nat k) = Inr (q + of_nat k)" "utrans 7 s (v + of_nat k) = Inr (q + of_nat k)" "vtrans s (v + of_nat k) = Inr (q + of_nat k)"
    using user_page_translations [OF assms(1), of k] assms(2) by simp_all
  show "uload32 s (v + of_nat k) = Inr (load32 (mem s) (q + of_nat k))" "vload32 s (v + of_nat k) = Inr (load32 (mem s) (q + of_nat k))"
    "ustore32 s (v + of_nat k) x = Inr (s\<lparr>mem := store32 (mem s) (q + of_nat k) x\<rparr>)"
    using t [of 1 5] t [of 2 5] t [of 3 5] t [of 1 7] t [of 2 7] t [of 3 7] t0
    by (simp_all add: uload32_def vload32_def vload_def ustore32_def load32_def store32_def)
qed

text \<open>What changes the page frame only leaves the page where it is.\<close>

lemma user_page_kept:
  assumes "user_page s v q" "\<And>x. \<not> addr_in x q 4096 \<Longrightarrow> mem s' x = mem s x" "cr3 s' = cr3 s" "cr0 s' = cr0 s"
  shows "user_page s' v q"
proof -
  note u = user_pageD [OF assms(1)]
  have cell: "load32 (mem s') (pcell d i) = load32 (mem s) (pcell d i)" if "page_aligned d" "d \<noteq> q" "i < 1024" for d i
  proof (rule load32_cong, rule assms(2))
    fix j :: nat assume "j < 4"
    moreover have "unat (pcell d i) = unat d + 4 * i" using unat_pcell that by blast
    ultimately show "\<not> addr_in (pcell d i + of_nat j) q 4096"
      using pages_apart [OF that(1) u(3) that(2)] that(3) page_room [OF that(1)]
      by (auto simp: addr_in_def unat_plus_of_nat)
  qed
  have "page_no v div 1024 < 1024" using page_no_bound [of v] by simp
  then have "load32 (mem s') (pcell (cr3 s) (page_no v div 1024)) = load32 (mem s) (pcell (cr3 s) (page_no v div 1024))"
    by (intro cell u)
  moreover from this have "pte (mem s') (cr3 s) (page_no v) = pte (mem s) (cr3 s) (page_no v)"
    using cell [OF _ u(6), of "page_no v mod 1024"] by (simp add: pte_def pte_cell_def table_of_def)
  ultimately show ?thesis using assms(1,3,4) by (simp add: user_page_def table_of_def)
qed

lemma user_page_store:
  assumes "user_page s v q" "k + 4 \<le> 4096"
  shows "user_page (s\<lparr>mem := store32 (mem s) (q + of_nat k) x\<rparr>) v q"
proof (rule user_page_kept [OF assms(1)])
  note u = user_pageD [OF assms(1)]
  fix a assume "\<not> addr_in a q 4096"
  moreover have "unat (q + of_nat k) = unat q + k" using page_room [OF u(3)] assms(2) by (intro unat_plus_of_nat) simp
  ultimately show "mem (s\<lparr>mem := store32 (mem s) (q + of_nat k) x\<rparr>) a = mem s a"
    using assms(2) page_room [OF u(3)] by simp (rule store32_outside, auto simp: addr_in_def)
qed simp_all

subsection \<open>Words of the stack\<close>

text \<open>The word \<open>i\<close> bytes above offset \<open>b\<close> of the page.\<close>

lemma user_word:
  assumes "user_page s v q" "b + unat i + 4 \<le> 4096"
  shows "uload32 s (v + of_nat b + i) = Inr (load32 (mem s) (q + of_nat b + i))" "vload32 s (v + of_nat b + i) = Inr (load32 (mem s) (q + of_nat b + i))"
    "ustore32 s (v + of_nat b + i) x = Inr (s\<lparr>mem := store32 (mem s) (q + of_nat b + i) x\<rparr>)"
    "user_page (s\<lparr>mem := store32 (mem s) (q + of_nat b + i) x\<rparr>) v q"
  using user_page_words [OF assms(1), of "b + unat i"] user_page_store [OF assms(1), of "b + unat i"] assms(2)
  by (simp_all add: add.assoc [symmetric])

lemma page_word_aligned:
  assumes "page_aligned q" "k < 4096" "4 dvd k"
  shows "word_aligned (q + of_nat k)"
proof -
  have "4096 dvd unat q" using assms(1) by (simp add: page_aligned_def mod_eq_0_iff_dvd)
  then have "4 dvd unat q" by (rule dvd_trans [rotated]) simp
  then show ?thesis using assms(2,3) page_offset(1) [OF assms(1,2)] by (simp add: word_aligned_def mod_eq_0_iff_dvd)
qed

lemma frame_registers_user_frame [simp]: "frame_registers (user_frame r) = r"
  by (simp add: frame_registers_def user_frame_def)

text \<open>
  A routine whose command answers \<open>y\<close> returns it, with the stack pointer above the return address and every other register as it was, when the command has
  left the two words of the routine's frame alone.
\<close>

lemma system_call_routine_enters:
  assumes "user_page s v q" "b + 16 \<le> 4096" "4 dvd b" and w: "w = v + of_nat b" "p = q + of_nat b"
    and r: "r_esp r = w + 8" "load32 (mem s) (p + 12) = x"
  shows "system_call_routine n (r, s) = bind_res (isr80h_wrapper (s\<lparr>mem := store32 (store32 (mem s) (p + 4) (r_ebp r)) p x\<rparr>)
      (user_frame (r\<lparr>r_ebp := w + 4, r_eax := n, r_esp := w\<rparr>))) (\<lambda>(r, s).
    bind_res (upop (r\<lparr>r_esp := r_esp r + 4\<rparr>, s)) (\<lambda>(ebp, r, s).
    bind_res (upop (r\<lparr>r_ebp := ebp\<rparr>, s)) (\<lambda>(ip, r, s). Inr (r\<lparr>r_ip := ip\<rparr>, s))))"
proof -
  have p: "word_aligned p" unfolding w(2) using assms(2,3) user_pageD(3) [OF assms(1)] by (intro page_word_aligned) auto
  have p4: "word_aligned (p + 4)" "word_aligned (p + 12)"
    using word_aligned_next(1) [OF p] word_aligned_next(1) [OF word_aligned_next(1) [OF word_aligned_next(1) [OF p]]]
    by (simp_all add: add.commute)
  note u = user_word [OF assms(1), of b, folded w]
  let ?s1 = "s\<lparr>mem := store32 (mem s) (p + 4) (r_ebp r)\<rparr>"
  have st1: "ustore32 s (w + 4) (r_ebp r) = Inr ?s1" "user_page ?s1 v q" using u(3,4) [of 4] assms(2) by simp_all
  note u1 = user_word [OF st1(2), of b, folded w]
  have ld: "uload32 ?s1 (w + 12) = Inr x" using u1(1) [of 12] assms(2) r(2) p4 by simp
  have st2: "ustore32 ?s1 w x = Inr (s\<lparr>mem := store32 (store32 (mem s) (p + 4) (r_ebp r)) p x\<rparr>)" using u1(3) [of 0] assms(2) by simp
  have c: "w + 4 = 4 + w" "w + 8 = 8 + w" "w + 12 = 12 + w" by simp_all
  show ?thesis
    by (simp add: system_call_routine_def upush_def Let_def c r(1) [unfolded c] st1(1) [unfolded c] ld [unfolded c] st2)
qed

lemma system_call_routine_returns:
  assumes "user_page s v q" "b + 16 \<le> 4096" "4 dvd b" and w: "w = v + of_nat b" "p = q + of_nat b"
    and r: "r_esp r = w + 8" "load32 (mem s) (p + 12) = x"
    and call: "isr80h_wrapper (s\<lparr>mem := store32 (store32 (mem s) (p + 4) (r_ebp r)) p x\<rparr>) (user_frame (r\<lparr>r_ebp := w + 4, r_eax := n, r_esp := w\<rparr>)) =
      Inr (r\<lparr>r_ebp := w + 4, r_eax := y, r_esp := w\<rparr>, s2)"
    and s2: "user_page s2 v q" "load32 (mem s2) (p + 4) = r_ebp r" "load32 (mem s2) (p + 8) = ret"
  shows "system_call_routine n (r, s) = Inr (r\<lparr>r_eax := y, r_esp := w + 12, r_ip := ret\<rparr>, s2)"
proof -
  note u2 = user_word [OF s2(1), of b, folded w]
  have ld2: "uload32 s2 (w + 4) = Inr (r_ebp r)" "uload32 s2 (w + 8) = Inr ret" using u2(1) [of 4] u2(1) [of 8] s2 assms(2) by simp_all
  have c: "w + 4 = 4 + w" "w + 8 = 8 + w" "w + 12 = 12 + w" by simp_all
  show ?thesis
    unfolding system_call_routine_enters [OF assms(1-7)] call by (simp add: upop_def c ld2 [unfolded c])
qed

text \<open>The four words of a call of such a routine: \<open>ebp\<close> below the return address and the argument, and the argument again.\<close>

definition call_frame :: "u32 \<Rightarrow> u32 \<Rightarrow> u32 \<Rightarrow> u32 \<Rightarrow> memory \<Rightarrow> memory" where
  "call_frame p ebp ret x m = store32 (store32 (store32 (store32 m (p + 12) x) (p + 8) ret) (p + 4) ebp) p x"

lemma in_stack_page:
  assumes "page_aligned q" "b + n \<le> 4096" "0 < n" "p = q + of_nat b"
  shows "j < n \<Longrightarrow> unat (p + of_nat j) = unat q + b + j" "addr_in y p n \<Longrightarrow> addr_in y q 4096"
proof -
  show u: "j < n \<Longrightarrow> unat (p + of_nat j) = unat q + b + j" for j
    using page_offset(1) [OF assms(1), of "b + j"] assms(2) by (simp add: assms(4) add.assoc)
  show "addr_in y p n \<Longrightarrow> addr_in y q 4096" using u [of 0] assms(2,3) by (auto simp: addr_in_def)
qed

lemma call_frame_words:
  assumes "page_aligned q" "b + 16 \<le> 4096" "4 dvd b" "p = q + of_nat b"
  shows "load32 (call_frame p e ret x m) p = x" "load32 (call_frame p e ret x m) (p + 4) = e" "load32 (call_frame p e ret x m) (p + 8) = ret"
    "load32 (store32 (store32 m (p + 12) x) (p + 8) ret) (p + 12) = x" "\<not> addr_in y p 16 \<Longrightarrow> call_frame p e ret x m y = m y"
proof -
  have al: "word_aligned p" "word_aligned (p + 4)" "word_aligned (p + 8)" "word_aligned (p + 12)"
    using page_word_aligned [OF assms(1), of b] page_word_aligned [OF assms(1), of "b + 4"] page_word_aligned [OF assms(1), of "b + 8"]
      page_word_aligned [OF assms(1), of "b + 12"] assms(2,3) by (simp_all add: assms(4) add.assoc [symmetric] dvd_add)
  then show "load32 (call_frame p e ret x m) p = x" "load32 (call_frame p e ret x m) (p + 4) = e" "load32 (call_frame p e ret x m) (p + 8) = ret"
    "load32 (store32 (store32 m (p + 12) x) (p + 8) ret) (p + 12) = x"
    by (simp_all add: call_frame_def)
  note u = in_stack_page(1) [OF assms(1,2) _ assms(4)]
  have up: "unat p = unat q + b" "unat (p + 4) = unat q + b + 4" "unat (p + 8) = unat q + b + 8" "unat (p + 12) = unat q + b + 12"
    using u [of 0] u [of 4] u [of 8] u [of 12] by simp_all
  show "call_frame p e ret x m y = m y" if "\<not> addr_in y p 16"
  proof -
    have "\<not> addr_in y p 4" "\<not> addr_in y (p + 4) 4" "\<not> addr_in y (p + 8) 4" "\<not> addr_in y (p + 12) 4" using that by (auto simp: addr_in_def up)
    then show ?thesis using assms(2) page_room [OF assms(1)] by (simp add: call_frame_def store32_outside up)
  qed
qed

lemma call_frame_page:
  assumes "user_page s v q" "b + 16 \<le> 4096" "4 dvd b" "p = q + of_nat b" "w = v + of_nat b"
  shows "user_page (s\<lparr>mem := call_frame p e ret x (mem s)\<rparr>) v q" "vload32 (s\<lparr>mem := call_frame p e ret x (mem s)\<rparr>) w = Inr x"
proof -
  note q = user_pageD(3) [OF assms(1)]
  show pg: "user_page (s\<lparr>mem := call_frame p e ret x (mem s)\<rparr>) v q"
  proof (rule user_page_kept [OF assms(1)])
    fix y assume "\<not> addr_in y q 4096"
    then have "\<not> addr_in y p 16" using in_stack_page(2) [OF q assms(2) _ assms(4)] by auto
    then show "mem (s\<lparr>mem := call_frame p e ret x (mem s)\<rparr>) y = mem s y" using call_frame_words(5) [OF q assms(2-4)] by simp
  qed simp_all
  show "vload32 (s\<lparr>mem := call_frame p e ret x (mem s)\<rparr>) w = Inr x"
    using user_word(2) [OF pg, of b 0] call_frame_words(1) [OF q assms(2-4)] assms(2) by (simp add: assms(4,5))
qed

text \<open>Calling a routine whose command answers \<open>y\<close> and leaves the frame and the page where they are, or whose command faults.\<close>

lemma routine_called:
  assumes pg: "user_page s v q" and b: "b + 16 \<le> 4096" "4 dvd b" "p = q + of_nat b" "w = v + of_nat b" and r: "r_esp r = w + 16"
  obtains s2 where "call_with (system_call_routine n) ret x (r, s) =
      bind_res (system_call_routine n (r\<lparr>r_esp := w + 8\<rparr>, s2)) (\<lambda>(r, s). Inr (r\<lparr>r_esp := r_esp r + 4\<rparr>, s))"
    "user_page s2 v q" "s2 = s\<lparr>mem := store32 (store32 (mem s) (p + 12) x) (p + 8) ret\<rparr>" "load32 (mem s2) (p + 12) = x"
proof -
  let ?s1 = "s\<lparr>mem := store32 (mem s) (p + 12) x\<rparr>" and ?s2 = "s\<lparr>mem := store32 (store32 (mem s) (p + 12) x) (p + 8) ret\<rparr>"
  note u = user_word [OF pg, of b, folded b(3,4)]
  have st: "ustore32 s (w + 12) x = Inr ?s1" "user_page ?s1 v q" using u(3,4) [of 12] b(1) by simp_all
  note u1 = user_word [OF st(2), of b, folded b(3,4)]
  have st1: "ustore32 ?s1 (w + 8) ret = Inr ?s2" "user_page ?s2 v q" using u1(3,4) [of 8] b(1) by simp_all
  have c: "w + 8 = 8 + w" "w + 12 = 12 + w" by simp_all
  have e: "r_esp r - 4 = w + 12" using r by simp
  have "upush x (r, s) = Inr (r\<lparr>r_esp := w + 12\<rparr>, ?s1)" by (simp add: upush_def e st(1))
  moreover have "upush ret (r\<lparr>r_esp := w + 12\<rparr>, ?s1) = Inr (r\<lparr>r_esp := w + 8\<rparr>, ?s2)"
    using st1(1) by (simp add: upush_def c)
  ultimately have "call_with (system_call_routine n) ret x (r, s) =
      bind_res (system_call_routine n (r\<lparr>r_esp := w + 8\<rparr>, ?s2)) (\<lambda>(r, s). Inr (r\<lparr>r_esp := r_esp r + 4\<rparr>, s))"
    by (simp add: call_with_def)
  moreover have "load32 (mem ?s2) (p + 12) = x"
    using call_frame_words(4) [OF user_pageD(3) [OF pg] b(1-3)] by (simp del: add.commute)
  ultimately show thesis using st1(2) by (intro that [OF _ _ refl])
qed

lemma routine_call:
  assumes pg: "user_page s v q" and b: "b + 16 \<le> 4096" "4 dvd b" "p = q + of_nat b" "w = v + of_nat b" and r: "r_esp r = w + 16"
    and call: "isr80h_wrapper (s\<lparr>mem := call_frame p (r_ebp r) ret x (mem s)\<rparr>) (user_frame (r\<lparr>r_ebp := w + 4, r_eax := n, r_esp := w\<rparr>)) =
      Inr (r\<lparr>r_ebp := w + 4, r_eax := y, r_esp := w\<rparr>, s')"
    and s': "user_page s' v q" "\<And>a. addr_in a p 16 \<Longrightarrow> mem s' a = call_frame p (r_ebp r) ret x (mem s) a"
  shows "call_with (system_call_routine n) ret x (r, s) = Inr (r\<lparr>r_eax := y, r_ip := ret\<rparr>, s')"
proof -
  note q = user_pageD(3) [OF pg]
  note f = call_frame_words [OF q b(1-3)]
  have wd: "load32 (mem s') c = load32 (call_frame p (r_ebp r) ret x (mem s)) c" if "c = p + of_nat k" "k \<le> 12" for c k
  proof (rule load32_cong, rule s')
    fix j :: nat assume "j < 4"
    then show "addr_in (c + of_nat j) p 16"
      using in_stack_page(1) [OF q b(1) _ b(3), of "k + j"] in_stack_page(1) [OF q b(1) _ b(3), of 0] that
      by (simp add: addr_in_def add.assoc)
  qed
  obtain s2 where s2: "call_with (system_call_routine n) ret x (r, s) =
      bind_res (system_call_routine n (r\<lparr>r_esp := w + 8\<rparr>, s2)) (\<lambda>(r, s). Inr (r\<lparr>r_esp := r_esp r + 4\<rparr>, s))"
    "user_page s2 v q" "s2 = s\<lparr>mem := store32 (store32 (mem s) (p + 12) x) (p + 8) ret\<rparr>" "load32 (mem s2) (p + 12) = x"
    by (rule routine_called [OF pg b r])
  have "system_call_routine n (r\<lparr>r_esp := w + 8\<rparr>, s2) = Inr (r\<lparr>r_eax := y, r_esp := w + 12, r_ip := ret\<rparr>, s')"
    using system_call_routine_returns [OF s2(2) b(1,2,4,3), of "r\<lparr>r_esp := w + 8\<rparr>" x n y s' ret] call s'(1) f s2(3,4) wd [of "p + 4" 4] wd [of "p + 8" 8]
    by (simp add: call_frame_def)
  then show ?thesis unfolding s2(1) using r by (cases r) simp
qed

lemma routine_call_faults:
  assumes pg: "user_page s v q" and b: "b + 16 \<le> 4096" "4 dvd b" "p = q + of_nat b" "w = v + of_nat b" and r: "r_esp r = w + 16"
    and call: "isr80h_wrapper (s\<lparr>mem := call_frame p (r_ebp r) ret x (mem s)\<rparr>) (user_frame (r\<lparr>r_ebp := w + 4, r_eax := n, r_esp := w\<rparr>)) = Inl e"
  shows "call_with (system_call_routine n) ret x (r, s) = Inl e"
proof -
  obtain s2 where s2: "call_with (system_call_routine n) ret x (r, s) =
      bind_res (system_call_routine n (r\<lparr>r_esp := w + 8\<rparr>, s2)) (\<lambda>(r, s). Inr (r\<lparr>r_esp := r_esp r + 4\<rparr>, s))"
    "user_page s2 v q" "s2 = s\<lparr>mem := store32 (store32 (mem s) (p + 12) x) (p + 8) ret\<rparr>" "load32 (mem s2) (p + 12) = x"
    by (rule routine_called [OF pg b r])
  have "system_call_routine n (r\<lparr>r_esp := w + 8\<rparr>, s2) = Inl e"
    using system_call_routine_enters [OF s2(2) b(1,2,4,3), of "r\<lparr>r_esp := w + 8\<rparr>" x n] call s2(3,4) by (simp add: call_frame_def)
  then show ?thesis by (simp add: s2(1))
qed

subsection \<open>The arguments of a program\<close>

lemma served_mem [simp]: "served (s\<lparr>mem := m\<rparr>) t frame m' = served s t frame m'"
  by (cases s) (simp add: served_def)

text \<open>A program that runs: the task, its process, its address space and the page of its stack.\<close>

definition program_runs :: "'a idtstate_scheme \<Rightarrow> task \<Rightarrow> process \<Rightarrow> u32 \<Rightarrow> u32 \<Rightarrow> bool" where
  "program_runs s t pr v q \<longleftrightarrow> current_task s \<noteq> 0 \<and> tasks s (current_task s) = Some t \<and> procs s (t_process t) = Some pr \<and>
     cr3 s = load32 (mem s) (page_directory t) \<and> page_aligned (page_directory t) \<and> page_directory t \<noteq> q \<and> user_page s v q"

lemma program_runsD:
  assumes "program_runs s t pr v q"
  shows "current_task s \<noteq> 0" "tasks s (current_task s) = Some t" "procs s (t_process t) = Some pr" "cr3 s = load32 (mem s) (page_directory t)"
    "page_aligned (page_directory t)" "page_directory t \<noteq> q" "user_page s v q" "page_aligned q" "bit (cr0 s) 31"
  using assms user_pageD(1,3) [of s v q] unfolding program_runs_def by blast+

text \<open>A change of the stack page leaves the page directory in use.\<close>

lemma stack_keeps_directory:
  assumes "program_runs s t pr v q" "\<And>x. \<not> addr_in x q 4096 \<Longrightarrow> m x = mem s x"
  shows "load32 m (page_directory t) = cr3 s"
  unfolding program_runsD(4) [OF assms(1)]
proof (rule load32_cong, rule assms(2))
  note p = program_runsD [OF assms(1)]
  fix j :: nat assume "j < 4"
  then show "\<not> addr_in (page_directory t + of_nat j) q 4096"
    using pages_apart [OF p(5,8,6)] page_offset(1) [OF p(5), of j] by (auto simp: addr_in_def)
qed

text \<open>Calling \<open>marrowos_process_get_arguments\<close> with the address of a variable of the same stack page.\<close>

lemma call_get_arguments:
  assumes run: "program_runs s t pr v q"
    and cmd: "length (isr80h_commands s) = 1024" "isr80h_commands s ! 8 = Some Isr80h_command8_get_program_arguments"
    and b: "4 dvd b" "b + 16 \<le> a" "4 dvd a" "a + 8 \<le> 4096" and r: "r_esp r = v + of_nat b + 16" "arguments = v + of_nat a"
  shows "\<exists>f m. call_with marrowos_process_get_arguments ret arguments (r, s) = Inr (r\<lparr>r_eax := 0, r_ip := ret\<rparr>, served s t f m) \<and>
    load32 m (page_directory t) = cr3 s \<and> user_page (served s t f m) v q \<and>
    load32 m (q + of_nat a) = word_of_int (pr_argc pr) \<and> load32 m (q + of_nat a + 4) = pr_argv pr \<and>
    (\<forall>x. \<not> addr_in x (q + of_nat b) 16 \<and> \<not> addr_in x (q + of_nat a) 8 \<longrightarrow> m x = mem s x)"
proof -
  note p = program_runsD [OF run]
  define w where "w = v + of_nat b"
  define c where "c = q + of_nat b"
  define pa where "pa = q + of_nat a"
  define m1 where "m1 = call_frame c (r_ebp r) ret arguments (mem s)"
  define m2 where "m2 = store32 (store32 m1 pa (word_of_int (pr_argc pr))) (pa + 4) (pr_argv pr)"
  have b16: "b + 16 \<le> 4096" using b by simp
  note f = call_frame_words [OF p(8) b16 b(1) c_def]
  have al: "word_aligned pa" unfolding pa_def using b by (intro page_word_aligned [OF p(8)]) auto
  have ua: "unat pa = unat q + a" "unat (pa + 4) = unat q + a + 4"
    using in_stack_page(1) [OF p(8) b(4) _ pa_def, of 0] in_stack_page(1) [OF p(8) b(4) _ pa_def, of 4] by simp_all
  have uc: "unat c = unat q + b" using in_stack_page(1) [OF p(8) b16 _ c_def, of 0] by simp
  have m2_out: "m2 x = m1 x" if "\<not> addr_in x pa 8" for x
  proof -
    have "\<not> addr_in x pa 4" "\<not> addr_in x (pa + 4) 4" using that by (auto simp: addr_in_def ua)
    then show ?thesis
      using word_aligned_room [OF al] word_aligned_room [OF word_aligned_next(1) [OF al]] by (simp add: m2_def store32_outside)
  qed
  have in_q: "addr_in x c 16 \<Longrightarrow> addr_in x q 4096" "addr_in x pa 8 \<Longrightarrow> addr_in x q 4096" "addr_in x c 16 \<Longrightarrow> \<not> addr_in x pa 8" for x
    using b by (auto simp: addr_in_def ua uc)
  have m1_q: "m1 x = mem s x" "m2 x = mem s x" if "\<not> addr_in x q 4096" for x
  proof -
    show "m1 x = mem s x" unfolding m1_def using that in_q(1) by (intro f(5)) blast
    then show "m2 x = mem s x" using m2_out [of x] in_q(2) that by auto
  qed
  note d = stack_keeps_directory [OF run m1_q(1)] stack_keeps_directory [OF run m1_q(2)]
  note pg1 = call_frame_page [OF p(7) b16 b(1) c_def w_def, of "r_ebp r" ret arguments, folded m1_def]
  let ?s1 = "s\<lparr>mem := m1\<rparr>" and ?f = "user_frame (r\<lparr>r_ebp := w + 4, r_eax := 8, r_esp := w\<rparr>)"
  have same: "?s1\<lparr>cr3 := load32 m1 (page_directory t)\<rparr> = ?s1" using d(1) by (cases s) simp
  have v: "vload32 (?s1\<lparr>cr3 := load32 (mem ?s1) (page_directory t)\<rparr>) (f_esp ?f) = Inr arguments"
    using pg1(2) same by (simp add: user_frame_def)
  have ph: "paging_get_physical_address (mem ?s1) (load32 (mem ?s1) (page_directory t)) arguments = pa"
    using user_page_translations(3) [OF pg1(1), of a] b(4) r(2) d(1) by (simp add: pa_def)
  have "isr80h_wrapper ?s1 ?f = Inr ((frame_registers ?f)\<lparr>r_eax := 0\<rparr>, served ?s1 t ?f m2)"
    using syscall_get_arguments [OF _ _ _ _ _ _ v ph, of pr] p(1-3) cmd by (simp add: m2_def user_frame_def)
  then have call: "isr80h_wrapper ?s1 ?f = Inr (r\<lparr>r_ebp := w + 4, r_eax := 0, r_esp := w\<rparr>, served s t ?f m2)"
    by simp
  have pg2: "user_page (served s t ?f m2) v q"
    by (rule user_page_kept [OF p(7)]) (use m1_q(2) d in auto)
  have "call_with marrowos_process_get_arguments ret arguments (r, s) = Inr (r\<lparr>r_eax := 0, r_ip := ret\<rparr>, served s t ?f m2)"
    unfolding marrowos_process_get_arguments_def
    by (rule routine_call [OF p(7) b16 b(1) c_def w_def _ call [unfolded m1_def] pg2])
      (use r(1) m2_out in_q(3) in \<open>simp_all add: w_def m1_def\<close>)
  moreover have "load32 m2 pa = word_of_int (pr_argc pr)" "load32 m2 (pa + 4) = pr_argv pr"
    using al word_aligned_next [OF al] by (simp_all add: m2_def)
  moreover have "m2 x = mem s x" if "\<not> addr_in x c 16" "\<not> addr_in x pa 8" for x
    using m2_out [OF that(2)] f(5) [OF that(1)] by (simp add: m1_def)
  ultimately show ?thesis using d(2) pg2 unfolding c_def pa_def by blast
qed

lemma c_start_calls_main:
  assumes run: "program_runs s t pr v q"
    and cmd: "length (isr80h_commands s) = 1024" "isr80h_commands s ! 8 = Some Isr80h_command8_get_program_arguments"
    and b: "4 dvd b" "b + 16 \<le> a" "4 dvd a" "a + 8 \<le> 4096" and r: "r_esp r = v + of_nat b + 16" "arguments = v + of_nat a"
    and argc: "0 \<le> pr_argc pr" "pr_argc pr < 2147483648"
  shows "\<exists>f m. c_start arguments ret main (r, s) =
      bind_res (main (pr_argc pr) (pr_argv pr) (r\<lparr>r_eax := 0, r_ip := ret\<rparr>, served s t f m)) (\<lambda>(res, c). Inr c) \<and>
    program_runs (served s t f m) (task_save_state t f) pr v q \<and>
    (\<forall>x. m x \<noteq> mem s x \<longrightarrow> addr_in x (q + of_nat b) 16 \<or> addr_in x (q + of_nat a) 8)"
proof -
  obtain f m where s': "call_with marrowos_process_get_arguments ret arguments (r, s) = Inr (r\<lparr>r_eax := 0, r_ip := ret\<rparr>, served s t f m)"
    "load32 m (page_directory t) = cr3 s" "user_page (served s t f m) v q"
    "load32 m (q + of_nat a) = word_of_int (pr_argc pr)" "load32 m (q + of_nat a + 4) = pr_argv pr"
    "\<And>x. \<not> addr_in x (q + of_nat b) 16 \<Longrightarrow> \<not> addr_in x (q + of_nat a) 8 \<Longrightarrow> m x = mem s x"
    using call_get_arguments [OF assms(1-9)] by blast
  have "uload32 (served s t f m) arguments = Inr (word_of_int (pr_argc pr))" "uload32 (served s t f m) (arguments + 4) = Inr (pr_argv pr)"
    using user_word(1) [OF s'(3), of a 0] user_word(1) [OF s'(3), of a 4] s'(4,5) b(4) r(2) by simp_all
  moreover have "sint (word_of_int (pr_argc pr) :: u32) = pr_argc pr"
    using argc by (simp add: signed_of_int signed_take_bit_int_eq_self)
  ultimately have "c_start arguments ret main (r, s) =
      bind_res (main (pr_argc pr) (pr_argv pr) (r\<lparr>r_eax := 0, r_ip := ret\<rparr>, served s t f m)) (\<lambda>(res, c). Inr c)"
    by (simp add: c_start_def s'(1))
  moreover have "program_runs (served s t f m) (task_save_state t f) pr v q"
    using run s'(2,3) by (simp add: program_runs_def)
  ultimately show ?thesis using s'(6) by blast
qed

text \<open>C32: \<open>c_start\<close> calls \<open>main\<close> with the number of arguments the process was given and the address of their array, in the stack frame it was entered
  with; the call has written below the stack pointer and in the variable only.\<close>

theorem c_start_passes_arguments:
  assumes "program_runs s t pr v q"
    and "length (isr80h_commands s) = 1024" "isr80h_commands s ! 8 = Some Isr80h_command8_get_program_arguments"
    and "4 dvd b" "b + 16 \<le> a" "4 dvd a" "a + 8 \<le> 4096" "r_esp r = v + of_nat b + 16" "arguments = v + of_nat a"
    and "0 \<le> pr_argc pr" "pr_argc pr < 2147483648"
  shows "\<exists>f m. c_start arguments ret main (r, s) =
      bind_res (main (pr_argc pr) (pr_argv pr) (r\<lparr>r_eax := 0, r_ip := ret\<rparr>, served s t f m)) (\<lambda>(res, c). Inr c) \<and>
    program_runs (served s t f m) (task_save_state t f) pr v q \<and>
    (\<forall>x. m x \<noteq> mem s x \<longrightarrow> addr_in x (q + of_nat b) 16 \<or> addr_in x (q + of_nat a) 8)"
  by (rule c_start_calls_main [OF assms])

lemma c_start_passes_arguments_witness:
  "\<exists>(s :: kbstate) s'. c_start 0x5f10 0x400100 (\<lambda>argc argv c. Inr (0, (fst c)\<lparr>r_eax := argv, r_ecx := word_of_int argc\<rparr>, snd c))
     (zero_registers\<lparr>r_esp := 0x5f00\<rparr>, s) = Inr (zero_registers\<lparr>r_esp := 0x5f00, r_ip := 0x400100, r_eax := 0x02000000, r_ecx := 2\<rparr>, s')"
proof -
  let ?t = "zero_task\<lparr>page_directory := 0x1000\<rparr>" and ?p = "example_process\<lparr>pr_argc := 2, pr_argv := 0x02000000\<rparr>"
  define s where "s = example_call_state\<lparr>cr3 := 0x2000, procs := [0 \<mapsto> ?p]\<rparr>"
  have b: "current_task s \<noteq> 0" "tasks s (current_task s) = Some ?t" "procs s (t_process ?t) = Some ?p"
    and c: "length (isr80h_commands s) = 1024" "isr80h_commands s ! 8 = Some Isr80h_command8_get_program_arguments"
    by (simp_all add: s_def example_call_state_def example_keyboard_state_def idtstate.extend_def kbstate.fields_def
      kernel_commands_def zero_task_def)
  have m: "mem s = store32 (store32 (store32 (store32 (store32 (\<lambda>_. 0) 0x1000 0x2000) 0x2000 0x3007) 0x3014 0x8007) 0x8f00 40) 0x8f04 2"
    "cr0 s = 0x80000001" "cr3 s = 0x2000"
    by (simp_all add: s_def example_call_state_def)
  have l: "load32 (mem s) 0x1000 = 0x2000" "load32 (mem s) 0x2000 = 0x3007" "load32 (mem s) 0x3014 = 0x8007"
    by (simp_all add: m load32_def store32_def)
  have d: "cr3 s = load32 (mem s) (page_directory ?t)" "page_aligned (page_directory ?t)" "page_directory ?t \<noteq> 0x8000"
    using l(1) by (simp_all add: m page_aligned_def)
  have "user_page s 0x5000 0x8000"
    using l by (simp add: user_page_def m(2,3) page_aligned_def page_no_def table_of_def pcell_def pte_def pte_cell_def)
  then have "program_runs s ?t ?p 0x5000 0x8000" using b d by (simp add: program_runs_def)
  from c_start_passes_arguments [OF this c, of 3824 3856 "zero_registers\<lparr>r_esp := 0x5f00\<rparr>" "0x5f10" "0x400100"
      "\<lambda>argc argv c. Inr (0, (fst c)\<lparr>r_eax := argv, r_ecx := word_of_int argc\<rparr>, snd c)"]
  obtain s' where "c_start 0x5f10 0x400100 (\<lambda>argc argv c. Inr (0, (fst c)\<lparr>r_eax := argv, r_ecx := word_of_int argc\<rparr>, snd c))
     (zero_registers\<lparr>r_esp := 0x5f00\<rparr>, s) = Inr ((zero_registers\<lparr>r_esp := 0x5f00, r_eax := 0, r_ip := 0x400100\<rparr>)\<lparr>r_eax := 0x02000000, r_ecx := 2\<rparr>, s')"
    by (auto simp: dvd_def)
  moreover have "zero_registers\<lparr>r_esp := 0x5f00, r_eax := 0, r_ip := 0x400100\<rparr>\<lparr>r_eax := 0x02000000, r_ecx := 2\<rparr> =
      zero_registers\<lparr>r_esp := 0x5f00, r_ip := 0x400100, r_eax := 0x02000000, r_ecx := 2\<rparr>" by simp
  ultimately show ?thesis by auto
qed

end
