(* ===== verification/UserPrint.thy ===== *)
theory UserPrint
  imports CopyString UserStart
begin

text \<open>
  Command 1 (io.c) and the \<open>print\<close> routine of the program library (marrowos.asm): a string of the program reaches the terminal. A program that does
  this again and again is blank.c.
\<close>

subsection \<open>Command 1\<close>

lemma with_screen_fields [simp]:
  "tasks (with_screen v s) = tasks s" "mem (with_screen v s) = mem s" "current_task (with_screen v s) = current_task s"
  by (simp_all add: with_screen_def)

text \<open>What \<open>print\<close> makes of a screen: the new screen, or the fault when the string leaves the memory of the text adapter.\<close>

definition printed :: "u8 list \<Rightarrow> 'a tstate_scheme \<Rightarrow> tstate res" where
  "printed w s = writechars w (tstate.truncate s)"

lemma print_screen:
  assumes "0 \<in> set str"
  shows "print str s = bind_res (printed (cstring str) s) (\<lambda>v. Inr (with_screen v s))"
  by (simp add: print_writechars [OF assms] printed_def writechars_screen [of _ s])

lemma task_string_cong:
  assumes "kheap s' = kheap s" "mem s' = mem s" "cr0 s' = cr0 s"
  shows "task_string s' dir virt w = task_string s dir virt w"
proof -
  have "vtrans (s'\<lparr>cr3 := c\<rparr>) a = vtrans (s\<lparr>cr3 := c\<rparr>) a" for c a using assms by (simp add: vtrans_def)
  moreover have "undisturbed s' dir x = undisturbed s dir x" for x using assms by (simp add: undisturbed_def chunk_pages_def chunk_dir_def)
  ultimately show ?thesis using assms by (simp add: task_string_def)
qed

text \<open>\<open>int 0x80\<close> with command 1 prints the string the top word of the caller's stack points to, and changes nothing that is allocated; or the
  kernel runs into the fault of the terminal.\<close>

lemma syscall_print:
  assumes "current_task s \<noteq> 0" "tasks s (current_task s) = Some t"
    and "length (isr80h_commands s) = 1024" "isr80h_commands s ! 1 = Some Isr80h_command1_print" "f_eax frame = 1"
    and "vload32 (s\<lparr>cr3 := load32 (mem s) (page_directory t)\<rparr>) (f_esp frame) = Inr virt"
    and heap: "kheap_inv s" "0 < kavail s" "chunk_owned s (page_directory t)" "bit (cr0 s) 31"
    and user: "\<And>i. i < 1024 \<Longrightarrow> pde (mem s) (page_directory t) i AND 7 = 7"
    and w: "task_string s (page_directory t) virt w" "length w < 1024"
  shows "\<exists>m. isr80h_wrapper s frame =
      bind_res (printed w s) (\<lambda>v. Inr ((frame_registers frame)\<lparr>r_eax := 0\<rparr>, with_screen v (served s t frame m))) \<and>
    (\<forall>q n x. klive s q n \<and> addr_in x q (4096 * n) \<longrightarrow> m x = mem s x)"
proof -
  let ?a = "current_task s" and ?s1 = "command_entry s t frame" and ?dir = "page_directory t"
  obtain d where d: "task_get_stack_item ?s1 ?a 0 = Inr (virt, kernel_page (?s1\<lparr>current_directory := d, data_segments := 0x23\<rparr>))"
    using caller_stack_item [of s t frame 0 virt ?s1 ?a] assms(6) by auto
  define s2 where "s2 = kernel_page (?s1\<lparr>current_directory := d, data_segments := 0x23\<rparr>)"
  have s2: "kheap s2 = kheap s" "mem s2 = mem s" "cr0 s2 = cr0 s" "tasks s2 ?a = Some (task_save_state t frame)" "current_task s2 = ?a"
    "tstate.truncate s2 = tstate.truncate s"
    by (simp_all add: s2_def kernel_page_simps command_entry_def set_task_def kernel_page_def kernel_registers_def paging_switch_def
      paging_load_directory_def Let_def tstate.truncate_def)
  have own: "chunk_owned s2 ?dir" using heap(3) s2(1,2) by (simp add: chunk_owned_def chunk_pages_def chunk_dir_def)
  have str: "task_string s2 ?dir virt w" using w(1) task_string_cong [OF s2(1-3)] by simp
  obtain m c e g buf where copy: "copy_string_from_task s2 ?a virt (replicate 1024 0) 1024 =
      Inr (0, buf, s2\<lparr>mem := m, cr3 := c, current_directory := e, data_segments := g\<rparr>)" "0 \<in> set buf" "cstring buf = w"
    "\<And>q n x. klive s2 q n \<Longrightarrow> addr_in x q (4096 * n) \<Longrightarrow> m x = mem s2 x"
    using copy_string_copies [of s2 ?a "task_save_state t frame" ?dir virt w 1024 "replicate 1024 0"] s2 own str heap user w(2) by auto
  let ?s3 = "s2\<lparr>mem := m, cr3 := c, current_directory := e, data_segments := g\<rparr>"
  have "printed w ?s3 = printed w s" using s2(6) by (simp add: printed_def tstate.truncate_def)
  then have "print buf ?s3 = bind_res (printed w s) (\<lambda>v. Inr (with_screen v ?s3))" using print_screen [OF copy(2), of ?s3] copy(3) by simp
  then have run: "run_command Isr80h_command1_print ?s1 = bind_res (printed w s) (\<lambda>v. Inr (Result 0, with_screen v ?s3))"
    by (simp add: isr80h_command1_print_def task_current_def d s2_def [symmetric] s2(5) copy(1) bind_res_assoc)
  have "isr80h_wrapper s frame = bind_res (printed w s) (\<lambda>v. Inr ((frame_registers frame)\<lparr>r_eax := 0\<rparr>, with_screen v (served s t frame m)))"
  proof (cases "printed w s")
    case (Inl e)
    then show ?thesis using command_faults [OF assms(1-3) _ _ assms(4), where e = e] run assms(5) by simp
  next
    case (Inr v)
    then have "run_command Isr80h_command1_print ?s1 = Inr (Result 0, with_screen v ?s3)" using run by simp
    from command_leaves [OF assms(1-3) _ _ assms(4) this, of "task_save_state t frame"] assms(5) s2(4,5)
    have "isr80h_wrapper s frame = Inr ((frame_registers frame)\<lparr>r_eax := 0\<rparr>,
        (with_screen v ?s3)\<lparr>cr3 := load32 m ?dir, current_directory := load32 m ?dir, data_segments := 0x23\<rparr>)"
      by simp
    moreover have "(with_screen v ?s3)\<lparr>cr3 := load32 m ?dir, current_directory := load32 m ?dir, data_segments := 0x23\<rparr> =
        with_screen v (served s t frame m)"
      unfolding served_kernel_page [where s = s and t = t and frame = frame and d = d and g = "0x23" and m = m, symmetric]
      by (cases s2) (simp add: s2_def [symmetric] with_screen_def)
    ultimately show ?thesis using Inr by simp
  qed
  then show ?thesis using copy(4) s2(1,2) by (intro exI [of _ m] conjI) auto
qed

subsection \<open>The routine\<close>

text \<open>An address space is what it was while the pages it is made of are.\<close>

lemma own_tables_same:
  fixes s s' :: "'a mstate_scheme"
  assumes "kheap_inv s" "chunk_owned s dir" "kheap s' = kheap s"
    and same: "\<And>c x. c \<in> set (chunk_pages s dir) \<Longrightarrow> addr_in x c 4096 \<Longrightarrow> mem s' x = mem s x"
  shows "load32 (mem s') dir = load32 (mem s) dir" "chunk_pages s' dir = chunk_pages s dir" "chunk_owned s' dir"
    "i < 1024 \<Longrightarrow> pde (mem s') dir i = pde (mem s) dir i"
proof -
  have pages: "dir_pages (mem s) (load32 (mem s) dir) @ [dir] = chunk_pages s dir" by (simp add: chunk_pages_def chunk_dir_def)
  note tr = translations_cong [OF chunk_owned_ok [OF assms(1,2)], unfolded pages, OF same]
  show "load32 (mem s') dir = load32 (mem s) dir" using tr(1) by simp
  show cp: "chunk_pages s' dir = chunk_pages s dir" using tr(1,3) by (simp add: chunk_pages_def chunk_dir_def dir_pages_def)
  show "chunk_owned s' dir" using assms(2,3) by (simp add: chunk_owned_def cp)
  show "i < 1024 \<Longrightarrow> pde (mem s') dir i = pde (mem s) dir i" using tr(4) by simp
qed

lemma user_page_same:
  assumes "user_page s v q" "kheap_inv s" "chunk_owned s dir" "cr3 s = load32 (mem s) dir" "cr3 s' = cr3 s" "cr0 s' = cr0 s"
    and same: "\<And>c x. c \<in> set (chunk_pages s dir) \<Longrightarrow> addr_in x c 4096 \<Longrightarrow> mem s' x = mem s x"
  shows "user_page s' v q"
proof -
  have pages: "dir_pages (mem s) (load32 (mem s) dir) @ [dir] = chunk_pages s dir" by (simp add: chunk_pages_def chunk_dir_def)
  note tr = translations_cong [OF chunk_owned_ok [OF assms(2,3)], unfolded pages, OF same]
  have n: "page_no v < 1048576" "page_no v div 1024 < 1024" using page_no_bound [of v] by auto
  have "load32 (mem s') (pcell (cr3 s) (page_no v div 1024)) = load32 (mem s) (pcell (cr3 s) (page_no v div 1024))"
    using tr(1) tr(4) [OF _ _ n(2)] assms(4) by (simp add: pde_def)
  moreover have "pte (mem s') (cr3 s) (page_no v) = pte (mem s) (cr3 s) (page_no v)" using tr(2) [OF _ _ n(1)] assms(4) by simp
  moreover have "table_of (mem s') (cr3 s) (page_no v div 1024) = table_of (mem s) (cr3 s) (page_no v div 1024)"
    using tr(3) [OF _ _ n(2)] assms(4) by simp
  ultimately show ?thesis using assms(1,5,6) by (simp add: user_page_def)
qed

text \<open>A program with room for its system calls: the kernel heap has a free page, the address space is the program's own, and the page of the stack lies
  in the block \<open>sk\<close> of \<open>n\<close> pages.\<close>

definition program_space :: "'a mstate_scheme \<Rightarrow> u32 \<Rightarrow> u32 \<Rightarrow> u32 \<Rightarrow> nat \<Rightarrow> bool" where
  "program_space s dir q sk n \<longleftrightarrow> kheap_inv s \<and> 0 < kavail s \<and> chunk_owned s dir \<and> (\<forall>i < 1024. pde (mem s) dir i AND 7 = 7) \<and>
     klive s sk n \<and> sk \<notin> set (chunk_pages s dir) \<and> (\<forall>x. addr_in x q 4096 \<longrightarrow> addr_in x sk (4096 * n))"

lemma program_space_kept:
  fixes s s' :: "'a mstate_scheme"
  assumes "program_space s dir q sk n" "kheap s' = kheap s"
    and same: "\<And>c k x. klive s c k \<Longrightarrow> addr_in x c (4096 * k) \<Longrightarrow> \<not> addr_in x q 4096 \<Longrightarrow> mem s' x = mem s x"
  shows "program_space s' dir q sk n" "chunk_pages s' dir = chunk_pages s dir" "load32 (mem s') dir = load32 (mem s) dir"
proof -
  note p = assms(1) [unfolded program_space_def]
  have "mem s' x = mem s x" if "c \<in> set (chunk_pages s dir)" "addr_in x c 4096" for c x
  proof (rule same)
    show live: "klive s c 1" using p that(1) by (simp add: chunk_owned_def)
    have "apart c 1 sk n" using kz.live_apart [OF _ live, of sk n] p that(1) by auto
    then show "\<not> addr_in x q 4096" using p that(2) by (fastforce simp: apart_def addr_in_def)
  qed (use that(2) in simp)
  note o = own_tables_same [OF _ _ assms(2) this, of dir]
  show "program_space s' dir q sk n" "chunk_pages s' dir = chunk_pages s dir" "load32 (mem s') dir = load32 (mem s) dir"
    using p o assms(2) by (simp_all add: program_space_def)
qed

lemma call_print:
  assumes run: "program_runs s t pr v q" and space: "program_space s (page_directory t) q sk n"
    and cmd: "length (isr80h_commands s) = 1024" "isr80h_commands s ! 1 = Some Isr80h_command1_print"
    and b: "4 dvd b" "b + 16 \<le> 4096" and r: "r_esp r = v + of_nat b + 16"
    and str: "\<And>m. (\<And>x. \<not> addr_in x q 4096 \<Longrightarrow> m x = mem s x) \<Longrightarrow> task_string (s\<lparr>mem := m\<rparr>) (page_directory t) virt w" "length w < 1024"
  shows "\<exists>f m. call_with (system_call_routine 1) ret virt (r, s) =
      bind_res (printed w s) (\<lambda>u. Inr (r\<lparr>r_eax := 0, r_ip := ret\<rparr>, with_screen u (served s t f m))) \<and>
    (\<forall>u. program_runs (with_screen u (served s t f m)) (task_save_state t f) pr v q) \<and>
    (\<forall>c k x. klive s c k \<and> addr_in x c (4096 * k) \<and> \<not> addr_in x q 4096 \<longrightarrow> m x = mem s x)"
proof -
  note p = program_runsD [OF run] and sp = space [unfolded program_space_def]
  let ?dir = "page_directory t"
  define w' where "w' = v + of_nat b"
  define c where "c = q + of_nat b"
  define m1 where "m1 = call_frame c (r_ebp r) ret virt (mem s)"
  define s1 where "s1 = s\<lparr>mem := m1\<rparr>"
  note f = call_frame_words [OF p(8) b(2,1) c_def]
  have m1_q: "m1 x = mem s x" if "\<not> addr_in x q 4096" for x
    unfolding m1_def using that in_stack_page(2) [OF p(8) b(2) _ c_def] by (intro f(5)) auto
  have d: "load32 m1 ?dir = cr3 s" by (rule stack_keeps_directory [OF run m1_q])
  note pg1 = call_frame_page [OF p(7) b(2,1) c_def w'_def, of "r_ebp r" ret virt, folded m1_def, folded s1_def]
  have space1: "program_space s1 ?dir q sk n" by (rule program_space_kept [OF space]) (simp_all add: s1_def m1_q)
  note sp1 = space1 [unfolded program_space_def]
  let ?f = "user_frame (r\<lparr>r_ebp := w' + 4, r_eax := 1, r_esp := w'\<rparr>)"
  have "s1\<lparr>cr3 := load32 (mem s1) ?dir\<rparr> = s1" using d by (cases s) (simp add: s1_def)
  then have top: "vload32 (s1\<lparr>cr3 := load32 (mem s1) ?dir\<rparr>) (f_esp ?f) = Inr virt" using pg1(2) by (simp add: user_frame_def)
  have "task_string s1 ?dir virt w" unfolding s1_def by (rule str(1) [OF m1_q])
  then obtain m where m: "isr80h_wrapper s1 ?f =
      bind_res (printed w s1) (\<lambda>u. Inr ((frame_registers ?f)\<lparr>r_eax := 0\<rparr>, with_screen u (served s1 t ?f m)))"
    "\<And>c k x. klive s1 c k \<Longrightarrow> addr_in x c (4096 * k) \<Longrightarrow> m x = m1 x"
    using syscall_print [OF _ _ _ _ _ top, of w] p(1,2,9) cmd sp1 str(2) by (auto simp: s1_def user_frame_def)
  have scr: "printed w s1 = printed w s" by (simp add: printed_def s1_def tstate.truncate_def)
  define s2 where "s2 u = with_screen u (served s t ?f m)" for u
  have s2: "mem (s2 u) = m" "cr0 (s2 u) = cr0 s" "kheap (s2 u) = kheap s" "cr3 (s2 u) = load32 m ?dir"
    "tasks (s2 u) = (tasks s)(current_task s \<mapsto> task_save_state t ?f)" "procs (s2 u) = procs s" "current_task (s2 u) = current_task s" for u
    by (simp_all add: s2_def with_screen_def)
  have regs: "(frame_registers ?f)\<lparr>r_eax := 0\<rparr> = r\<lparr>r_ebp := w' + 4, r_eax := 0, r_esp := w'\<rparr>" by simp
  have call: "isr80h_wrapper s1 ?f = bind_res (printed w s) (\<lambda>u. Inr (r\<lparr>r_ebp := w' + 4, r_eax := 0, r_esp := w'\<rparr>, s2 u))"
    unfolding m(1) scr regs by (simp add: s2_def s1_def)
  have stack: "m x = m1 x" if "addr_in x q 4096" for x using m(2) [of sk n x] sp that by (simp add: s1_def)
  have live: "m x = m1 x" if "klive s c k" "addr_in x c (4096 * k)" for c k x using m(2) [of c k x] that by (simp add: s1_def)
  have d2: "load32 m ?dir = cr3 s"
    using program_space_kept(3) [OF space1, of "s2 (tstate.truncate s)"] live d s2 by (simp add: s1_def)
  have pg2: "user_page (s2 u) v q" for u
  proof (rule user_page_same [OF pg1(1), of ?dir])
    show "kheap_inv s1" "chunk_owned s1 ?dir" using sp1 by blast+
    show "cr3 s1 = load32 (mem s1) ?dir" "cr3 (s2 u) = cr3 s1" "cr0 (s2 u) = cr0 s1" using s2 d d2 by (simp_all add: s1_def)
    show "mem (s2 u) x = mem s1 x" if "e \<in> set (chunk_pages s1 ?dir)" "addr_in x e 4096" for e x
      using live [of e 1 x] sp1 that by (simp add: s2 s1_def chunk_owned_def)
  qed
  have "call_with (system_call_routine 1) ret virt (r, s) = bind_res (printed w s) (\<lambda>u. Inr (r\<lparr>r_eax := 0, r_ip := ret\<rparr>, s2 u))"
  proof (cases "printed w s")
    case (Inl e)
    then show ?thesis
      using routine_call_faults [OF p(7) b(2,1) c_def w'_def, of r ret virt 1 e] call [unfolded s1_def m1_def] r by (simp add: w'_def)
  next
    case (Inr u)
    then have "isr80h_wrapper s1 ?f = Inr (r\<lparr>r_ebp := w' + 4, r_eax := 0, r_esp := w'\<rparr>, s2 u)" using call by simp
    note c = this [unfolded s1_def m1_def]
    have "call_with (system_call_routine 1) ret virt (r, s) = Inr (r\<lparr>r_eax := 0, r_ip := ret\<rparr>, s2 u)"
      by (rule routine_call [OF p(7) b(2,1) c_def w'_def _ c pg2])
        (use r stack in_stack_page(2) [OF p(8) b(2) _ c_def] in \<open>simp_all add: w'_def s2 m1_def\<close>)
    then show ?thesis using Inr by simp
  qed
  moreover have "program_runs (s2 u) (task_save_state t ?f) pr v q" for u
    using p pg2 d2 by (simp add: program_runs_def s2)
  moreover have "m x = mem s x" if "klive s c k" "addr_in x c (4096 * k)" "\<not> addr_in x q 4096" for c k x
    using live [OF that(1,2)] m1_q [OF that(3)] by simp
  ultimately show ?thesis unfolding s2_def by blast
qed

end
