(* ===== verification/ProgramStart.thy ===== *)
theory ProgramStart
  imports KernelRun UserPrint
begin

text \<open>
  The first program from its start code on. In the state \<open>kernel_main\<close> leaves, \<open>c_start\<close> calls \<open>main\<close> with the argument the kernel has given to
  the process, and blank.c prints it until the memory of the text adapter ends. No interrupt comes in between.
\<close>

subsection \<open>Pages of a process\<close>

lemma rights_both:
  assumes "x AND y AND 7 = (7 :: u32)"
  shows "x AND 7 = 7" "y AND 7 = 7"
proof -
  have "x AND 7 = x AND (x AND y AND 7)" "y AND 7 = y AND (x AND y AND 7)" by (simp_all only: assms)
  then show "x AND 7 = 7" "y AND 7 = 7" using assms by (simp_all add: ac_simps) (metis and.left_commute and.left_idem)+
qed

text \<open>A page of the user in the address space in use.\<close>

lemma user_pageI:
  assumes "bit (cr0 s) 31" "page_aligned v" "page_aligned q" "page_aligned (cr3 s)" "cr3 s = load32 (mem s) dir"
    and "page_rights (mem s) dir v = 7" "page_entry (mem s) dir (page_no v) AND 0xfffff000 = q"
    and "q \<notin> set (dir_pages (mem s) (load32 (mem s) dir))"
  shows "user_page s v q"
proof -
  have "page_no v div 1024 < 1024" using page_no_bound [of v] by simp
  then have "cr3 s \<noteq> q" "table_of (mem s) (cr3 s) (page_no v div 1024) \<noteq> q" using assms(5,8) by (auto simp: dir_pages_def)
  moreover have "pde (mem s) dir (page_no v div 1024) AND 7 = 7" "page_entry (mem s) dir (page_no v) AND 7 = 7"
    using rights_both assms(6) unfolding page_rights_def by blast+
  ultimately show ?thesis using assms(1-5,7) by (simp add: user_page_def pde_def page_entry_def)
qed

lemma own_page_user:
  assumes "own_page (mem s) dir a" "kheap_inv s" "klive s a 1" "chunk_owned s dir" "bit (cr0 s) 31" "cr3 s = load32 (mem s) dir"
  shows "user_page s a a"
proof (rule user_pageI [OF assms(5) _ _ _ assms(6)])
  show "page_aligned a" "page_aligned a" by (rule klive_aligned [OF assms(2,3)])+
  then show "page_entry (mem s) dir (page_no a) AND 0xfffff000 = a" using assms(1) by (simp add: own_page_def page_mask_or)
  show "page_aligned (cr3 s)" using chunk_owned_ok [OF assms(2,4)] by (simp add: assms(6) chunk_ok_def page_dir_def)
qed (use assms(1) in \<open>simp_all add: own_page_def\<close>)

text \<open>The top page of the stack of a loaded program.\<close>

lemma loaded_program_runs:
  assumes "kheap_inv s" "0 < kavail s" "program_loaded s pr task file" "current_task s = task" "task \<noteq> 0" "own_address_space s" "bit (cr0 s) 31"
  obtains p t q where "procs s pr = Some p" "tasks s task = Some t" "program_runs s t p 0x3FE000 q" "program_space s (page_directory t) q (pr_stack p) 4"
proof -
  obtain p t where p: "procs s pr = Some p" "tasks s task = Some t" "t_process t = pr" "chunk_owned s (page_directory t)" "klive s (pr_stack p) 4"
    "\<And>i. i < 1024 \<Longrightarrow> pde (mem s) (page_directory t) i AND 7 = 7"
    "\<And>k. k < 16384 \<Longrightarrow> paging_get_physical_address (mem s) (load32 (mem s) (page_directory t)) (0x3FB000 + of_nat k) = pr_stack p + of_nat k \<and>
        page_rights (mem s) (page_directory t) (0x3FB000 + of_nat k) = 7"
    using assms(3) unfolding program_loaded_def by blast
  let ?dir = "page_directory t" and ?q = "pr_stack p + 0x3000"
  have cr3: "cr3 s = load32 (mem s) ?dir" using assms(4,6) p(2) by (auto simp: own_address_space_def)
  have bnd: "unat (pr_stack p) + 16384 \<le> 2147483648" "page_aligned (pr_stack p)"
    using kz.live_bounds [OF assms(1) p(5)] klive_aligned [OF assms(1) p(5)] by simp_all
  have u: "unat ?q = unat (pr_stack p) + 12288" using bnd unat_plus_of_nat [of "pr_stack p" 12288] by simp
  have q: "page_aligned ?q" using bnd(2) u by (simp add: page_aligned_def mod_eq_0_iff_dvd)
  have ne: "c \<noteq> pr_stack p" "c \<noteq> ?q" if "c \<in> set (chunk_pages s ?dir)" for c
  proof -
    have l: "klive s c 1" using p(4) that by (simp add: chunk_owned_def)
    show "c \<noteq> pr_stack p" using kz.live_size_unique [OF assms(1) p(5), of 1] l by auto
    then have "apart c 1 (pr_stack p) 4" using kz.live_apart [OF assms(1) l p(5)] by blast
    then show "c \<noteq> ?q" using u by (auto simp: apart_def)
  qed
  have al: "page_aligned (cr3 s)" "page_aligned ?dir" using chunk_owned_ok [OF assms(1) p(4)] by (simp_all add: cr3 chunk_ok_def page_dir_def)
  have v: "page_aligned 0x3FE000" "(0x3FE000 :: u32) mod 4096 = 0" by (simp_all add: page_aligned_def)
  have e: "page_entry (mem s) ?dir (page_no 0x3FE000) AND 0xfffff000 = ?q" "page_rights (mem s) ?dir 0x3FE000 = 7"
    using p(7) [of 12288] v(2) by (simp_all add: physical_address page_entry_def)
  have "?q \<notin> set (dir_pages (mem s) (load32 (mem s) ?dir))" using ne(2) [of ?q] by (auto simp: chunk_pages_def chunk_dir_def)
  then have "user_page s 0x3FE000 ?q" by (rule user_pageI [OF assms(7) v(1) q al(1) cr3 e(2,1)])
  moreover have "?dir \<noteq> ?q" using ne(2) [of ?dir] by (simp add: chunk_pages_def)
  ultimately have "program_runs s t p 0x3FE000 ?q" using p(1-3) assms(4,5) cr3 al(2) by (simp add: program_runs_def)
  moreover have "program_space s ?dir ?q (pr_stack p) 4"
    using assms(1,2) p(4-6) ne(1) u bnd(1) by (auto simp: program_space_def addr_in_def)
  ultimately show thesis using p(1,2) by (intro that)
qed

subsection \<open>A string in a page of the process\<close>

definition user_string :: "'a mstate_scheme \<Rightarrow> u32 \<Rightarrow> u32 \<Rightarrow> u8 list \<Rightarrow> bool" where
  "user_string s dir a w \<longleftrightarrow> klive s a 1 \<and> own_page (mem s) dir a \<and> 0 \<notin> set w \<and> length w < 1024 \<and>
     (\<forall>k \<le> length w. mem s (a + of_nat k) = (w @ [0]) ! k)"

text \<open>The pages of a process are none of its stack.\<close>

lemma page_off_stack:
  assumes "program_space s dir q sk n" "n \<noteq> 1" "klive s a 1" "addr_in x a 4096"
  shows "\<not> addr_in x q 4096"
proof
  note p = assms(1) [unfolded program_space_def]
  assume "addr_in x q 4096"
  then have "addr_in x sk (4096 * n)" using p by blast
  moreover have "a \<noteq> sk" using kz.live_size_unique [of s sk n 1] p assms(2,3) by auto
  then have "apart a 1 sk n" using kz.live_apart [OF _ assms(3), of sk n] p by blast
  ultimately show False using assms(4) by (auto simp: apart_def addr_in_def)
qed

lemma own_page_stays:
  fixes s s' :: "'a mstate_scheme"
  assumes "program_space s dir q sk n" "n \<noteq> 1" "own_page (mem s) dir a"
    and same: "\<And>c k x. klive s c k \<Longrightarrow> addr_in x c (4096 * k) \<Longrightarrow> \<not> addr_in x q 4096 \<Longrightarrow> mem s' x = mem s x"
  shows "own_page (mem s') dir a"
proof -
  note p = assms(1) [unfolded program_space_def]
  have own: "kheap_inv s" "chunk_owned s dir" using p by blast+
  show ?thesis
  proof (rule own_page_kept [OF chunk_owned_ok [OF own] assms(3)])
    fix c x assume c: "c \<in> set (dir_pages (mem s) (load32 (mem s) dir) @ [dir])" "addr_in x c 4096"
    then have live: "klive s c 1" using own(2) by (auto simp: chunk_owned_def chunk_pages_def chunk_dir_def)
    then show "mem s' x = mem s x" using same [OF live] page_off_stack [OF assms(1,2) live c(2)] c(2) by simp
  qed
qed

lemma user_string_kept:
  fixes s s' :: "'a mstate_scheme"
  assumes "program_space s dir q sk n" "n \<noteq> 1" "user_string s dir a w" "kheap s' = kheap s"
    and same: "\<And>c k x. klive s c k \<Longrightarrow> addr_in x c (4096 * k) \<Longrightarrow> \<not> addr_in x q 4096 \<Longrightarrow> mem s' x = mem s x"
  shows "user_string s' dir a w"
proof -
  note u = assms(3) [unfolded user_string_def] and p = assms(1) [unfolded program_space_def]
  have inv: "kheap_inv s" and live: "klive s a 1" using u p by blast+
  have "mem s' (a + of_nat k) = mem s (a + of_nat k)" if "k \<le> length w" for k
  proof -
    have "addr_in (a + of_nat k) a 4096" using page_offset(1) [OF klive_aligned [OF inv live], of k] u that by (simp add: addr_in_def)
    then show ?thesis using same [OF live] page_off_stack [OF assms(1,2) live] by simp
  qed
  moreover have "own_page (mem s') dir a" by (rule own_page_stays [OF assms(1,2) _ same]) (use u in simp)
  ultimately show ?thesis using u assms(4) by (simp add: user_string_def)
qed

lemma user_string_task_string:
  fixes s :: "'a idtstate_scheme"
  assumes "program_space s dir q sk n" "user_string s dir a w" "bit (cr0 s) 31"
  shows "task_string s dir a w"
proof -
  note u = assms(2) [unfolded user_string_def] and p = assms(1) [unfolded program_space_def]
  let ?s = "s\<lparr>cr3 := load32 (mem s) dir\<rparr>"
  have live: "klive s a 1" "a \<notin> set (chunk_pages s dir)" using u by (auto simp: own_page_def chunk_pages_def chunk_dir_def)
  have inv: "kheap_inv s" using p by blast
  have "user_page ?s a a" by (rule own_page_user [of _ dir]) (use u p assms(3) in \<open>simp_all add: chunk_owned_def chunk_pages_def chunk_dir_def\<close>)
  note tr = user_page_translations(2) [OF this]
  have "vtrans ?s (a + of_nat k) = Inr (a + of_nat k) \<and> undisturbed s dir (a + of_nat k)" if "k \<le> length w" for k
  proof -
    have k: "k < 4096" using u that by simp
    then have "addr_in (a + of_nat k) a 4096" using page_offset(1) [OF klive_aligned [OF inv live(1)] k] by (simp add: addr_in_def)
    with live have "\<exists>q n. klive s q n \<and> q \<notin> set (chunk_pages s dir) \<and> addr_in (a + of_nat k) q (4096 * n)"
      by - (rule exI [of _ a], rule exI [of _ "1 :: nat"], simp)
    then show ?thesis using tr [OF k] by (simp add: undisturbed_def)
  qed
  then show ?thesis using u by (auto simp: task_string_def)
qed

subsection \<open>blank.c\<close>

text \<open>
  \<open>while (1) { print(argv[0]); for (...) {} }\<close>: a round of the loop, which only waits after it has printed; the loop, which ends only by a fault; and \<open>main\<close>.
\<close>

definition blank_round :: "u32 \<Rightarrow> u32 \<Rightarrow> registers \<times> 'a idtstate_scheme \<Rightarrow> (registers \<times> 'a idtstate_scheme) res" where
  "blank_round ret argv c = bind_res (uload32 (snd c) argv) (\<lambda>message. call_with (system_call_routine 1) ret message c)"

partial_function (option) blank_loop :: "u32 \<Rightarrow> u32 \<Rightarrow> registers \<times> 'a idtstate_scheme \<Rightarrow> fault option" where
  "blank_loop ret argv c = (case blank_round ret argv c of Inl e \<Rightarrow> Some e | Inr c \<Rightarrow> blank_loop ret argv c)"

definition blank_main ::
  "u32 \<Rightarrow> int \<Rightarrow> u32 \<Rightarrow> registers \<times> 'a idtstate_scheme \<Rightarrow> (int \<times> registers \<times> 'a idtstate_scheme) res" where
  "blank_main ret argc argv c = (case blank_loop ret argv c of None \<Rightarrow> Inl Hang | Some e \<Rightarrow> Inl e)"

text \<open>The first \<open>n\<close> rounds.\<close>

primrec blank_rounds :: "nat \<Rightarrow> u32 \<Rightarrow> u32 \<Rightarrow> registers \<times> 'a idtstate_scheme \<Rightarrow> (registers \<times> 'a idtstate_scheme) res" where
  "blank_rounds 0 ret argv c = Inr c"
| "blank_rounds (Suc n) ret argv c = bind_res (blank_round ret argv c) (blank_rounds n ret argv)"

text \<open>A program whose \<open>argv[0]\<close> is \<open>w\<close>, in the first page of its own at \<open>argv\<close>.\<close>

definition prints_ready :: "u32 \<Rightarrow> u32 \<Rightarrow> u8 list \<Rightarrow> u32 \<Rightarrow> 'a idtstate_scheme \<Rightarrow> bool" where
  "prints_ready v argv w e s \<longleftrightarrow> (\<exists>t pr q sk n. program_runs s t pr v q \<and> program_space s (page_directory t) q sk n \<and> n \<noteq> 1 \<and>
     length (isr80h_commands s) = 1024 \<and> isr80h_commands s ! 1 = Some Isr80h_command1_print \<and>
     klive s argv 1 \<and> own_page (mem s) (page_directory t) argv \<and> user_string s (page_directory t) (load32 (mem s) argv) w) \<and>
     (\<exists>b. 4 dvd b \<and> b + 16 \<le> 4096 \<and> e = v + of_nat b + 16)"

lemma blank_round_prints:
  fixes s :: "'a idtstate_scheme"
  assumes "prints_ready v argv w (r_esp r) s"
  shows "\<exists>s'. blank_round ret argv (r, s) = bind_res (printed w s) (\<lambda>u. Inr (r\<lparr>r_eax := 0, r_ip := ret\<rparr>, s' u)) \<and>
    (\<forall>u. prints_ready v argv w (r_esp r) (s' u) \<and> tstate.truncate (s' u) = u)"
proof -
  obtain t pr q sk n b where run: "program_runs s t pr v q" and space: "program_space s (page_directory t) q sk n" "n \<noteq> 1"
    and cmd: "length (isr80h_commands s) = 1024" "isr80h_commands s ! 1 = Some Isr80h_command1_print"
    and argv: "klive s argv 1" "own_page (mem s) (page_directory t) argv" and str: "user_string s (page_directory t) (load32 (mem s) argv) w"
    and b: "4 dvd b" "b + 16 \<le> 4096" "r_esp r = v + of_nat b + 16"
    using assms unfolding prints_ready_def by blast
  note p = program_runsD [OF run] and sp = space(1) [unfolded program_space_def]
  let ?dir = "page_directory t" and ?arg = "load32 (mem s) argv"
  have inv: "kheap_inv s" "chunk_owned s ?dir" using sp by blast+
  have "user_page s argv argv" by (rule own_page_user [OF argv(2) inv(1) argv(1) inv(2) p(9,4)])
  from user_page_words(1) [OF this, of 0] have arg: "uload32 s argv = Inr ?arg" by simp
  have ts: "task_string (s\<lparr>mem := m\<rparr>) ?dir ?arg w" if same: "\<And>x. \<not> addr_in x q 4096 \<Longrightarrow> m x = mem s x" for m
  proof (rule user_string_task_string)
    show "program_space (s\<lparr>mem := m\<rparr>) ?dir q sk n" by (rule program_space_kept(1) [OF space(1)]) (simp_all add: same)
    show "user_string (s\<lparr>mem := m\<rparr>) ?dir ?arg w" by (rule user_string_kept [OF space str]) (simp_all add: same)
  qed (use p(9) in simp)
  have "length w < 1024" using str by (simp add: user_string_def)
  from call_print [OF run space(1) cmd b ts this, of ret] obtain f m where
    call: "call_with (system_call_routine 1) ret ?arg (r, s) =
      bind_res (printed w s) (\<lambda>u. Inr (r\<lparr>r_eax := 0, r_ip := ret\<rparr>, with_screen u (served s t f m)))"
    and run': "\<And>u. program_runs (with_screen u (served s t f m)) (task_save_state t f) pr v q"
    and same: "\<And>c k x. klive s c k \<Longrightarrow> addr_in x c (4096 * k) \<Longrightarrow> \<not> addr_in x q 4096 \<Longrightarrow> m x = mem s x" by blast
  define s' where "s' u = with_screen u (served s t f m)" for u
  have s': "kheap (s' u) = kheap s" "mem (s' u) = m" "isr80h_commands (s' u) = isr80h_commands s" for u by (simp_all add: s'_def with_screen_def)
  have same': "mem (s' u) x = mem s x" if "klive s c k" "addr_in x c (4096 * k)" "\<not> addr_in x q 4096" for u c k x
    using same [OF that] by (simp add: s')
  have cell: "load32 m argv = ?arg"
  proof (rule load32_cong)
    fix j :: nat assume "j < 4"
    then have "addr_in (argv + of_nat j) argv 4096" using page_offset(1) [OF klive_aligned [OF inv(1) argv(1)], of j] by (simp add: addr_in_def)
    then show "m (argv + of_nat j) = mem s (argv + of_nat j)" using same [OF argv(1)] page_off_stack [OF space argv(1)] by simp
  qed
  have "prints_ready v argv w (r_esp r) (s' u)" for u
  proof -
    have "program_space (s' u) ?dir q sk n" by (rule program_space_kept(1) [OF space(1) s'(1) same'])
    moreover have "own_page (mem (s' u)) ?dir argv" by (rule own_page_stays [OF space argv(2) same'])
    moreover have "user_string (s' u) ?dir (load32 (mem (s' u)) argv) w"
      unfolding s'(2) cell by (rule user_string_kept [OF space str s'(1) same'])
    ultimately show ?thesis
      unfolding prints_ready_def using run' [of u, folded s'_def] space(2) cmd argv(1) b s'(1,3)
      by (intro conjI exI [of _ "task_save_state t f"] exI [of _ pr] exI [of _ q] exI [of _ sk] exI [of _ n] exI [of _ b]) simp_all
  qed
  then show ?thesis using call arg by (intro exI [of _ s']) (simp add: blank_round_def s'_def)
qed

lemma printed_append:
  assumes "printed xs s = Inr u" "tstate.truncate s' = u"
  shows "printed (xs @ ys) s = printed ys s'"
  using assms by (simp add: printed_def writechars_append)

lemma blank_rounds_print:
  fixes s :: "'a idtstate_scheme"
  assumes "prints_ready v argv w (r_esp r) s"
  shows "case printed (concat (replicate n w)) s of Inl e \<Rightarrow> blank_rounds n ret argv (r, s) = Inl e
    | Inr u \<Rightarrow> \<exists>r' s'. blank_rounds n ret argv (r, s) = Inr (r', s') \<and> tstate.truncate s' = u"
  using assms
proof (induction n arbitrary: r s)
  case 0
  then show ?case by (simp add: printed_def)
next
  case (Suc n)
  obtain s1 where s1: "blank_round ret argv (r, s) = bind_res (printed w s) (\<lambda>u. Inr (r\<lparr>r_eax := 0, r_ip := ret\<rparr>, s1 u))"
    "\<And>u. prints_ready v argv w (r_esp r) (s1 u)" "\<And>u. tstate.truncate (s1 u) = u"
    using blank_round_prints [OF Suc.prems] by blast
  show ?case
  proof (cases "printed w s")
    case (Inl e)
    then show ?thesis using s1(1) by (simp add: printed_def writechars_append)
  next
    case (Inr u)
    have "printed (w @ concat (replicate n w)) s = printed (concat (replicate n w)) (s1 u)" by (rule printed_append [OF Inr s1(3)])
    then show ?thesis using Suc.IH [of "r\<lparr>r_eax := 0, r_ip := ret\<rparr>" "s1 u"] s1(1,2) Inr by (simp split: sum.split_asm)
  qed
qed

text \<open>The loop ends with the fault its rounds run into.\<close>

lemma blank_loop_faults: "blank_rounds n ret argv c = Inl e \<Longrightarrow> blank_loop ret argv c = Some e"
  by (induction n arbitrary: c) (auto simp: blank_loop.simps [of ret argv] res_simps)

subsection \<open>From the kernel to the program\<close>

text \<open>A program with one argument enters \<open>main\<close> ready to print it.\<close>

lemma c_start_ready:
  fixes s :: "'a idtstate_scheme"
  assumes run: "program_runs s t pr v q" and space: "program_space s (page_directory t) q sk n" "n \<noteq> 1"
    and cmd: "length (isr80h_commands s) = 1024" "isr80h_commands s ! 8 = Some Isr80h_command8_get_program_arguments"
      "isr80h_commands s ! 1 = Some Isr80h_command1_print"
    and argv: "klive s (pr_argv pr) 1" "own_page (mem s) (page_directory t) (pr_argv pr)" "pr_argc pr = 1"
    and str: "user_string s (page_directory t) (load32 (mem s) (pr_argv pr)) w"
    and b: "4 dvd b" "b + 16 \<le> a" "4 dvd a" "a + 8 \<le> 4096" and r: "r_esp r = v + of_nat b + 16" "arguments = v + of_nat a"
  shows "\<exists>s'. c_start arguments ret main (r, s) = bind_res (main 1 (pr_argv pr) (r\<lparr>r_eax := 0, r_ip := ret\<rparr>, s')) (\<lambda>(res, c). Inr c) \<and>
    prints_ready v (pr_argv pr) w (r_esp r) s' \<and> tstate.truncate s' = tstate.truncate s"
proof -
  note p = program_runsD [OF run]
  have inv: "kheap_inv s" using space(1) unfolding program_space_def by blast
  have argc: "0 \<le> pr_argc pr" "pr_argc pr < 2147483648" using argv(3) by simp_all
  obtain f m where start: "c_start arguments ret main (r, s) =
      bind_res (main (pr_argc pr) (pr_argv pr) (r\<lparr>r_eax := 0, r_ip := ret\<rparr>, served s t f m)) (\<lambda>(res, c). Inr c)"
    and run': "program_runs (served s t f m) (task_save_state t f) pr v q"
    and m: "\<And>x. m x \<noteq> mem s x \<Longrightarrow> addr_in x (q + of_nat b) 16 \<or> addr_in x (q + of_nat a) 8"
    using c_start_calls_main [OF run cmd(1,2) b r argc, of ret main] by blast
  let ?s = "served s t f m" and ?dir = "page_directory t"
  have m_q: "m x = mem s x" if "\<not> addr_in x q 4096" for x
    using m [of x] in_stack_page(2) [OF p(8) _ _ refl, of b 16 x] in_stack_page(2) [OF p(8) _ _ refl, of a 8 x] b that by auto
  have same: "mem ?s x = mem s x" if "klive s c k" "addr_in x c (4096 * k)" "\<not> addr_in x q 4096" for c k x
    using m_q [OF that(3)] by simp
  have cell: "load32 m (pr_argv pr) = load32 (mem s) (pr_argv pr)"
  proof (rule load32_cong, rule m_q)
    fix j :: nat assume "j < 4"
    then show "\<not> addr_in (pr_argv pr + of_nat j) q 4096"
      using page_offset(1) [OF klive_aligned [OF inv argv(1)], of j] by (intro page_off_stack [OF space argv(1)]) (simp add: addr_in_def)
  qed
  have "program_space ?s ?dir q sk n" by (rule program_space_kept(1) [OF space(1) _ same]) simp
  moreover have "own_page (mem ?s) ?dir (pr_argv pr)" by (rule own_page_stays [OF space argv(2) same])
  moreover have "user_string ?s ?dir (load32 (mem ?s) (pr_argv pr)) w"
    unfolding served_simps cell by (rule user_string_kept [OF space str _ same]) simp
  moreover have "b + 16 \<le> 4096" using b by simp
  ultimately have "prints_ready v (pr_argv pr) w (r_esp r) ?s"
    unfolding prints_ready_def using run' space(2) cmd argv(1) b(1) r(1)
    by (intro conjI exI [of _ "task_save_state t f"] exI [of _ pr] exI [of _ q] exI [of _ sk] exI [of _ n] exI [of _ b]) simp_all
  then show ?thesis using start argv(3) by (intro exI [of _ ?s]) simp
qed

text \<open>The argument the kernel has given, as a string of the process.\<close>

lemma argument_string:
  assumes "klive s a 1" "own_page (mem s) dir a" "cstring (read_bytes (mem s) a 512) = w" "length w < 512"
  shows "user_string s dir a w"
proof -
  let ?bs = "read_bytes (mem s) a 512"
  have z: "0 \<notin> set w" using cstring_no_nul [of ?bs] assms(3) by simp
  have "?bs ! k = (w @ [0]) ! k" if "k \<le> length w" for k
  proof (cases "k = length w")
    case True
    have "length (takeWhile (\<lambda>c. c \<noteq> 0) ?bs) < length ?bs" using assms(3,4) by (simp add: cstring_def read_bytes_def)
    from nth_length_takeWhile [OF this] show ?thesis using True assms(3) by (simp add: cstring_def)
  next
    case False
    then show ?thesis using that takeWhile_nth [of k "\<lambda>c. c \<noteq> 0" ?bs] assms(3) by (simp add: cstring_def nth_append)
  qed
  then have "mem s (a + of_nat k) = (w @ [0]) ! k" if "k \<le> length w" for k using that assms(4) by (simp add: read_bytes_def)
  then show ?thesis using assms(1,2,4) z by (simp add: user_string_def)
qed

lemma first_program_ready:
  fixes s :: "'a kernelstate_scheme"
  assumes "static_objects s" "drive_serves img s" "fat16_volume img n" "length (interrupt_pointer_table l) = 512"
    and "image_program img n (map of_char ''blank.elf'') file" "length file \<le> 24576" "below_heap file 0x01000000"
    and "argument_address l \<noteq> 0" "unat (argument_address l) + 516 \<le> 0x01000000"
  obtains r s' t pr q sk where "kernel_main s l = Inr (r, s')" "program_runs s' t pr 0x3FE000 q" "program_space s' (page_directory t) q sk 4"
    "length (isr80h_commands s') = 1024" "isr80h_commands s' ! 8 = Some Isr80h_command8_get_program_arguments"
    "isr80h_commands s' ! 1 = Some Isr80h_command1_print"
    "klive s' (pr_argv pr) 1" "own_page (mem s') (page_directory t) (pr_argv pr)" "pr_argc pr = 1"
    "user_string s' (page_directory t) (load32 (mem s') (pr_argv pr)) (cstring (c_literal ''Testing!''))" "cursor s' = 0" "on_screen s'"
proof -
  let ?w = "cstring (c_literal ''Testing!'')"
  obtain s1 s2 r0 pr1 task1 t1 pr2 task2 where K: "kernel_init s l = Inr s1" "booted img n l s1" "kernel_main s l = Inr (r0, s2)" "same_tables s1 s2"
    "current_task s2 = task1" "own_address_space s2" "task_list s2 [task1, task2]" "tasks s2 task1 = Some t1"
    "program_loaded s2 pr1 task1 file" "process_arguments s2 pr1 (page_directory t1) [?w]" "kheap_inv s2" "0 < kavail s2"
    by (rule kernel_main_runs [OF assms]) (rule that)
  have "bit (cr0 s1) 31" "isr80h_commands s1 = map Some kernel_commands @ replicate 1014 None"
    and screen: "terminal_row s1 = 0" "terminal_col s1 = 0" using K(2) unfolding booted_def by blast+
  then have tab: "bit (cr0 s2) 31" "length (isr80h_commands s2) = 1024" "isr80h_commands s2 ! 8 = Some Isr80h_command8_get_program_arguments"
    "isr80h_commands s2 ! 1 = Some Isr80h_command1_print"
    using K(4) by (simp_all add: same_tables_def kernel_commands_def)
  have "tstate.truncate s2 = tstate.truncate s1" using kernel_main_screen [OF K(1) _ K(3)] K(4) kernel_init_typed [OF assms(1), of l] K(1) by (simp add: keeps_def)
  then have "cursor s2 = cursor s1" "on_screen s2 = on_screen s1" using truncate_terminal [of s1] truncate_terminal [of s2] by metis+
  then have cursor: "cursor s2 = 0" "on_screen s2" using screen by (simp_all add: cursor_def on_screen_def)
  have "task1 \<noteq> 0" using task_chain_nth [of "tasks s2" "task_head s2" "[task1, task2]" 0] K(7) by (simp add: task_list_def task_ring_def)
  obtain p t q where P: "procs s2 pr1 = Some p" "tasks s2 task1 = Some t" "program_runs s2 t p 0x3FE000 q"
      "program_space s2 (page_directory t) q (pr_stack p) 4"
    by (rule loaded_program_runs [OF K(11,12,9,5) \<open>task1 \<noteq> 0\<close> K(6) tab(1)]) (rule that)
  have t: "t1 = t" using P(2) K(8) by simp
  obtain qs where A: "pr_argc p = 1" "\<And>c. c \<in> set (pr_argv p # qs) \<Longrightarrow> klive s2 c 1 \<and> own_page (mem s2) (page_directory t) c"
    "args_at (mem s2) (pr_argv p) qs [?w]"
    using K(10) P(1) unfolding process_arguments_def t by auto
  have "load32 (mem s2) (pr_argv p) \<in> set qs" "cstring (read_bytes (mem s2) (load32 (mem s2) (pr_argv p)) 512) = ?w"
    using A(3) by (simp_all add: args_at_def)
  moreover have "length ?w < 512" by (rule argument_strings)
  ultimately have "user_string s2 (page_directory t) (load32 (mem s2) (pr_argv p)) ?w" using A(2) by (intro argument_string) simp_all
  then show thesis using K(3) P(3,4) tab A(1) A(2) [of "pr_argv p"] cursor by (intro that) simp_all
qed

lemma example_program_fits:
  "length example_program \<le> 24576" "below_heap example_program 0x01000000" "argument_address example_layout \<noteq> 0"
  "unat (argument_address example_layout) + 516 \<le> 0x01000000"
proof -
  obtain ph where "elf_phdrs example_program = [ph]" "p_vaddr ph = 0x400000" "p_memsz ph = 100" by (rule example_program_phdrs) (rule that)
  then show "below_heap example_program 0x01000000" by (simp add: below_heap_def)
qed (simp_all add: length_example_program example_layout_def)

text \<open>C25: \<open>copy_string_from_task\<close> puts a string the task sees at \<open>virt\<close> into the kernel's buffer, terminated, answers 0, and changes nothing that is allocated:
  the page it takes from the heap is given back and its entry in the task's page table is restored. The string must lie below the heap or be mapped to itself,
  since the kernel maps its own page into the task's address space for the copy.\<close>

theorem copy_string_from_task_copies:
  fixes s :: "'a taskstate_scheme"
  assumes "kheap_inv s" "0 < kavail s" "tasks s a = Some t" "page_directory t = dir" "chunk_owned s dir" "bit (cr0 s) 31"
    and "\<And>i. i < 1024 \<Longrightarrow> pde (mem s) dir i AND 7 = 7"
    and "task_string s dir virt w" "length w < mx" "mx < 4096" "length phys = mx"
  shows "\<exists>m c d g buf. copy_string_from_task s a virt phys mx = Inr (0, buf, s\<lparr>mem := m, cr3 := c, current_directory := d, data_segments := g\<rparr>) \<and>
    0 \<in> set buf \<and> cstring buf = w \<and> length buf = mx \<and> (\<forall>q n x. klive s q n \<and> addr_in x q (4096 * n) \<longrightarrow> m x = mem s x) \<and>
    (\<forall>x. unat x < unat (saddr (kheap s)) \<longrightarrow> m x = mem s x)"
  by (rule copy_string_copies [OF assms])

lemma copy_string_from_task_copies_witness:
  "\<exists>r s a virt buf s'. kernel_main program_machine example_layout = Inr (r, s) \<and>
    copy_string_from_task s a virt (replicate 1024 0) 1024 = Inr (0, buf, s') \<and> cstring buf = map of_char ''Testing!''"
proof -
  have w: "cstring (c_literal ''Testing!'') = map of_char ''Testing!''" by (simp add: c_literal_def cstring_def)
  obtain r s t pr q sk where K: "kernel_main program_machine example_layout = Inr (r, s)" "program_runs s t pr 0x3FE000 q"
    "program_space s (page_directory t) q sk 4" "user_string s (page_directory t) (load32 (mem s) (pr_argv pr)) (cstring (c_literal ''Testing!''))"
    by (rule first_program_ready [OF program_machine_facts(1,2) program_volume_ok program_machine_facts(3) program_volume_program example_program_fits])
      (rule that)
  note p = program_runsD [OF K(2)] and sp = K(3) [unfolded program_space_def]
  have "task_string s (page_directory t) (load32 (mem s) (pr_argv pr)) (map of_char ''Testing!'')"
    using user_string_task_string [OF K(3,4) p(9)] w by simp
  from copy_string_from_task_copies [OF _ _ p(2) refl _ p(9) _ this, of 1024 "replicate 1024 0"] sp
  obtain m c d g buf where "copy_string_from_task s (current_task s) (load32 (mem s) (pr_argv pr)) (replicate 1024 0) 1024 =
      Inr (0, buf, s\<lparr>mem := m, cr3 := c, current_directory := d, data_segments := g\<rparr>)" "cstring buf = map of_char ''Testing!''" by auto
  then show ?thesis using K(1) by blast
qed

lemma concat_replicate_nth: "j < k * length w \<Longrightarrow> concat (replicate k w) ! j = w ! (j mod length w)"
proof (induction k arbitrary: j)
  case (Suc k)
  then show ?case by (cases "j < length w") (auto simp: nth_append le_mod_geq)
qed simp

text \<open>What the first \<open>k\<close> rounds print behind a cursor at the top left, as long as it fits into the 16384 cells of the text adapter.\<close>

lemma testing_printed:
  fixes s :: "'a tstate_scheme"
  assumes "cursor s = 0" "on_screen s" "k \<le> 2048"
  obtains v where "printed (concat (replicate k (cstring (c_literal ''Testing!'')))) s = Inr v" "cursor v = int (8 * k)"
    "\<And>i. video_mem v i = (if 0 \<le> i \<and> i < int (8 * k) then terminal_make_char (of_char (''Testing!'' ! (nat i mod 8))) 15 else video_mem s i)"
proof -
  have w: "cstring (c_literal ''Testing!'') = map of_char ''Testing!''" "length (cstring (c_literal ''Testing!'')) = 8"
    by (simp_all add: c_literal_def cstring_def)
  let ?w = "concat (replicate k (cstring (c_literal ''Testing!'')))"
  have len: "length ?w = 8 * k" by (simp add: length_concat sum_list_replicate w(2))
  have "\<forall>c \<in> set ?w. c \<noteq> 10 \<and> c \<noteq> 8" by (auto simp: w(1))
  then obtain v where v: "printed ?w s = Inr v" "cursor v = int (8 * k)"
    "\<forall>i. video_mem v i = (if 0 \<le> i \<and> i < int (8 * k) then terminal_make_char (?w ! nat i) 15 else video_mem s i)"
    using writechars_plain [of ?w "tstate.truncate s"] assms len unfolding printed_def by auto
  have "?w ! nat i = of_char (''Testing!'' ! (nat i mod 8))" if "0 \<le> i" "i < int (8 * k)" for i
  proof -
    have "nat i < k * 8" using that by linarith
    then have "?w ! nat i = map of_char ''Testing!'' ! (nat i mod 8)" using concat_replicate_nth [of "nat i" k "cstring (c_literal ''Testing!'')"] unfolding w(2) unfolding w(1) by blast
    moreover have "nat i mod 8 < length ''Testing!''" by simp
    ultimately show ?thesis by (simp only: nth_map)
  qed
  then show thesis using v by (intro that [of v]) auto
qed

lemma testing_leaves:
  fixes s :: "'a tstate_scheme"
  assumes "cursor s = 0" "on_screen s"
  shows "printed (concat (replicate 2049 (cstring (c_literal ''Testing!'')))) s = Inl OutOfBounds"
proof -
  have w: "cstring (c_literal ''Testing!'') = map of_char ''Testing!''" by (simp add: c_literal_def cstring_def)
  let ?w = "concat (replicate 2049 (cstring (c_literal ''Testing!'')))"
  have "length ?w = 16392" by (simp add: length_concat sum_list_replicate w)
  moreover have "\<forall>c \<in> set ?w. c \<noteq> 10 \<and> c \<noteq> 8" by (auto simp: w)
  ultimately show ?thesis using writechars_leave [of ?w "tstate.truncate s"] assms unfolding printed_def by simp
qed

text \<open>C2: what a machine that is switched on with blank.elf on its drive does while no interrupt comes. \<open>kernel_main\<close> leaves a state with the cursor at the top left, in
  which the start of the program library, entered anywhere in the top page of the stack, calls the \<open>main\<close> of blank.c. Its first 2048 rounds return and have
  written the argument the kernel was compiled with into the cells of the text adapter, one copy behind the other. The terminal never scrolls, so the loop does not go
  on for ever: the next round writes behind the adapter's memory.\<close>

theorem blank_fills_the_terminal:
  fixes s :: "'a kernelstate_scheme"
  assumes "static_objects s" "drive_serves img s" "fat16_volume img n" "length (interrupt_pointer_table l) = 512"
    and "image_program img n (map of_char ''blank.elf'') file" "length file \<le> 24576" "below_heap file 0x01000000"
    and "argument_address l \<noteq> 0" "unat (argument_address l) + 516 \<le> 0x01000000"
    and frame: "4 dvd b" "b + 16 \<le> a" "4 dvd a" "a + 8 \<le> 4096" "r_esp r = 0x3FE000 + of_nat b + 16" "arguments = 0x3FE000 + of_nat a"
  shows "\<exists>r0 s1. kernel_main s l = Inr (r0, s1) \<and> cursor s1 = 0 \<and>
    (\<forall>k \<le> 2048. \<exists>r' s'. c_start arguments ret (\<lambda>argc argv c. bind_res (blank_rounds k ret' argv c) (\<lambda>c. Inr (0, c))) (r, s1) = Inr (r', s') \<and>
      cursor s' = int (8 * k) \<and> (\<forall>i. video_mem s' i =
        (if 0 \<le> i \<and> i < int (8 * k) then terminal_make_char (of_char (''Testing!'' ! (nat i mod 8))) 15 else video_mem s1 i))) \<and>
    c_start arguments ret (blank_main ret') (r, s1) = Inl OutOfBounds"
proof -
  let ?w = "cstring (c_literal ''Testing!'')"
  obtain r0 s1 t pr q sk where K: "kernel_main s l = Inr (r0, s1)" "program_runs s1 t pr 0x3FE000 q" "program_space s1 (page_directory t) q sk 4"
    "length (isr80h_commands s1) = 1024" "isr80h_commands s1 ! 8 = Some Isr80h_command8_get_program_arguments"
    "isr80h_commands s1 ! 1 = Some Isr80h_command1_print"
    "klive s1 (pr_argv pr) 1" "own_page (mem s1) (page_directory t) (pr_argv pr)" "pr_argc pr = 1"
    "user_string s1 (page_directory t) (load32 (mem s1) (pr_argv pr)) ?w" "cursor s1 = 0" "on_screen s1"
    by (rule first_program_ready [OF assms(1-9)]) (rule that)
  let ?main = "\<lambda>k argc argv c. bind_res (blank_rounds k ret' argv c) (\<lambda>c. Inr (0, c))" and ?r = "r\<lparr>r_eax := 0, r_ip := ret\<rparr>"
  have start: "\<exists>s2. c_start arguments ret main (r, s1) = bind_res (main 1 (pr_argv pr) (?r, s2)) (\<lambda>(res, c). Inr c) \<and>
      tstate.truncate s2 = tstate.truncate s1 \<and> (case printed (concat (replicate k ?w)) s1 of
        Inl e \<Rightarrow> blank_rounds k ret' (pr_argv pr) (?r, s2) = Inl e
      | Inr u \<Rightarrow> \<exists>r' s'. blank_rounds k ret' (pr_argv pr) (?r, s2) = Inr (r', s') \<and> tstate.truncate s' = u)" for main k
  proof -
    obtain s2 where s2: "c_start arguments ret main (r, s1) = bind_res (main 1 (pr_argv pr) (?r, s2)) (\<lambda>(res, c). Inr c)"
      "prints_ready 0x3FE000 (pr_argv pr) ?w (r_esp ?r) s2" "tstate.truncate s2 = tstate.truncate s1"
      using c_start_ready [OF K(2,3) _ K(4-10) frame, of ret main] by auto
    have "printed x s2 = printed x s1" for x by (simp add: printed_def s2(3))
    with blank_rounds_print [OF s2(2), of k ret'] s2(1,3) show ?thesis by auto
  qed
  have "\<exists>r' s'. c_start arguments ret (?main k) (r, s1) = Inr (r', s') \<and> cursor s' = int (8 * k) \<and> (\<forall>i. video_mem s' i =
      (if 0 \<le> i \<and> i < int (8 * k) then terminal_make_char (of_char (''Testing!'' ! (nat i mod 8))) 15 else video_mem s1 i))" if k: "k \<le> 2048" for k
  proof -
    obtain v where v: "printed (concat (replicate k ?w)) s1 = Inr v" "cursor v = int (8 * k)"
      "\<And>i. video_mem v i = (if 0 \<le> i \<and> i < int (8 * k) then terminal_make_char (of_char (''Testing!'' ! (nat i mod 8))) 15 else video_mem s1 i)"
      by (rule testing_printed [OF K(11,12) k]) (rule that)
    obtain r' s' where s': "c_start arguments ret (?main k) (r, s1) = Inr (r', s')" "tstate.truncate s' = v"
      using start [of "?main k" k] v(1) by auto
    then show ?thesis using v(2,3) truncate_terminal(2,3) [of s'] by (intro exI [of _ r'] exI [of _ s']) simp
  qed
  moreover have "c_start arguments ret (blank_main ret') (r, s1) = Inl OutOfBounds"
  proof -
    obtain s2 where s2: "c_start arguments ret (blank_main ret') (r, s1) =
        bind_res (blank_main ret' 1 (pr_argv pr) (?r, s2)) (\<lambda>(res, c). Inr c)"
      "blank_rounds 2049 ret' (pr_argv pr) (?r, s2) = Inl OutOfBounds"
      using start [of "blank_main ret'" 2049] testing_leaves [OF K(11,12)] by auto
    then show ?thesis using blank_loop_faults [OF s2(2)] by (simp add: blank_main_def)
  qed
  ultimately show ?thesis using K(1,11) by blast
qed

lemma blank_fills_the_terminal_witness:
  "\<exists>r0 s1 r' s'. kernel_main program_machine example_layout = Inr (r0, s1) \<and>
    c_start 0x3FEF10 0x400100 (blank_main 0x400200) (zero_registers\<lparr>r_esp := 0x3FEF00\<rparr>, s1) = Inl OutOfBounds \<and>
    c_start 0x3FEF10 0x400100 (\<lambda>argc argv c. bind_res (blank_rounds 2 0x400200 argv c) (\<lambda>c. Inr (0, c))) (zero_registers\<lparr>r_esp := 0x3FEF00\<rparr>, s1) =
      Inr (r', s') \<and> cursor s' = 16 \<and> video_mem s' 15 = 0x0F21"
proof -
  have fr: "4 dvd (3824 :: nat)" "3824 + 16 \<le> (3856 :: nat)" "4 dvd (3856 :: nat)" "3856 + 8 \<le> (4096 :: nat)"
    "r_esp (zero_registers\<lparr>r_esp := 0x3FEF00\<rparr>) = 0x3FE000 + of_nat 3824 + 16" "(0x3FEF10 :: u32) = 0x3FE000 + of_nat 3856" by simp_all
  from blank_fills_the_terminal [OF program_machine_facts(1,2) program_volume_ok program_machine_facts(3) program_volume_program example_program_fits fr,
      of "0x400100" "0x400200"]
  obtain r0 s1 where m: "kernel_main program_machine example_layout = Inr (r0, s1)"
    "c_start 0x3FEF10 0x400100 (blank_main 0x400200) (zero_registers\<lparr>r_esp := 0x3FEF00\<rparr>, s1) = Inl OutOfBounds"
    and rounds: "\<forall>k \<le> 2048. \<exists>r' s'. c_start 0x3FEF10 0x400100 (\<lambda>argc argv c. bind_res (blank_rounds k 0x400200 argv c) (\<lambda>c. Inr (0, c)))
      (zero_registers\<lparr>r_esp := 0x3FEF00\<rparr>, s1) = Inr (r', s') \<and> cursor s' = int (8 * k) \<and> (\<forall>i. video_mem s' i =
        (if 0 \<le> i \<and> i < int (8 * k) then terminal_make_char (of_char (''Testing!'' ! (nat i mod 8))) 15 else video_mem s1 i))"
    by (elim exE conjE) (rule that)
  obtain r' s' where "c_start 0x3FEF10 0x400100 (\<lambda>argc argv c. bind_res (blank_rounds 2 0x400200 argv c) (\<lambda>c. Inr (0, c)))
      (zero_registers\<lparr>r_esp := 0x3FEF00\<rparr>, s1) = Inr (r', s')" "cursor s' = 16"
    "video_mem s' 15 = terminal_make_char (of_char (''Testing!'' ! 7)) 15" using rounds [THEN spec, of 2] by auto
  moreover have "terminal_make_char (of_char (''Testing!'' ! 7)) 15 = 0x0F21" by (simp add: terminal_make_char_def)
  ultimately show ?thesis using m by auto
qed

end
