(* ===== verification/UserNum.thy ===== *)
theory UserNum
  imports CString
begin

text \<open>
  Numbers in the programs' C library: \<open>itoa\<close> of programs/stdlib/src/stdlib.c and the number printing of stdio.c. A process sees the
  kernel through its system commands (\<open>userstate\<close>): what it printed so far, the keys it will be given, the addresses it will be
  given for memory. A local array starts as zeros; a pointer into it is the rest of the array.
\<close>

record userstate =
  out_text :: "u8 list" \<comment> \<open>what commands 1 and 3 were given, in order\<close>
  keys :: "u8 list" \<comment> \<open>what command 2 answers\<close>
  mallocs :: "u32 list" \<comment> \<open>what command 4 answers; 0 when there is no more\<close>

text \<open>
  The routines of marrowos.asm that these functions call are contracts here, not translations of their instructions: what the system command
  behind each of them means to the program. \<open>print\<close> shows at most 1023 characters of a message, since command 1 (io.c) copies it to a buffer
  of 1024; \<open>marrowos_putchar\<close> shows one. (The instructions of the routines and the kernel's side are in UserStart and UserPrint.)
\<close>

definition user_print :: "'a userstate_scheme \<Rightarrow> u8 list \<Rightarrow> 'a userstate_scheme res" where
  "user_print s msg = bind_res (strlen msg) (\<lambda>n. Inr (s\<lparr>out_text := out_text s @ take 1023 (cstring msg)\<rparr>))"

definition marrowos_putchar :: "'a userstate_scheme \<Rightarrow> u8 \<Rightarrow> 'a userstate_scheme" where
  "marrowos_putchar s c = s\<lparr>out_text := out_text s @ [c]\<rparr>"

text \<open>\<open>putchar\<close> of stdio.c takes an \<open>int\<close>.\<close>

definition putchar :: "'a userstate_scheme \<Rightarrow> u32 \<Rightarrow> 'a userstate_scheme" where
  "putchar s c = marrowos_putchar s (ucast c)"

subsection \<open>itoa (stdlib.c)\<close>

text \<open>\<open>while (i)\<close> on a number that is not positive, with C's truncating division.\<close>

function itoa_loop :: "u8 list \<Rightarrow> int \<Rightarrow> int \<Rightarrow> (u8 list \<times> int) res" where
  "itoa_loop text loc i =
     (if i = 0 then Inr (text, loc)
      else bind_res (list_set text (loc - 1) (word_of_int (48 - i smod 10))) (\<lambda>text. itoa_loop text (loc - 1) (i sdiv 10)))"
  by pat_completeness auto
termination
  by (relation "measure (\<lambda>(text, loc, i). nat loc)") (auto simp: list_set_def split: if_splits)

declare itoa_loop.simps [simp del]

definition itoa :: "int \<Rightarrow> u8 list res" where
  "itoa i =
     (let (i, neg) = (if 0 \<le> i then (- i, False) else (i, True))
      in bind_res (list_set (replicate 12 0) 11 0) (\<lambda>text.
         bind_res (itoa_loop text 11 i) (\<lambda>(text, loc).
         bind_res (if loc = 11 then bind_res (list_set text (loc - 1) 48) (\<lambda>text. Inr (text, loc - 1)) else Inr (text, loc))
           (\<lambda>(text, loc).
         bind_res (if neg then bind_res (list_set text (loc - 1) 45) (\<lambda>text. Inr (text, loc - 1)) else Inr (text, loc))
           (\<lambda>(text, loc). Inr (drop (nat loc) text))))))"

subsection \<open>Printing unsigned numbers (stdio.c)\<close>

definition digits_of :: "bool \<Rightarrow> u8 list" where
  "digits_of upper = (if upper then c_literal ''0123456789ABCDEF'' else c_literal ''0123456789abcdef'')"

function print_uint_loop :: "u8 list \<Rightarrow> u8 list \<Rightarrow> int \<Rightarrow> u32 \<Rightarrow> u32 \<Rightarrow> (u8 list \<times> int) res" where
  "print_uint_loop digits buf loc val base =
     (if val = 0 then Inr (buf, loc)
      else if base = 0 then Inl DivideError
      else bind_res (list_get digits (uint (val mod base))) (\<lambda>d.
           bind_res (list_set buf (loc - 1) d) (\<lambda>buf. print_uint_loop digits buf (loc - 1) (val div base) base)))"
  by pat_completeness auto
termination
  by (relation "measure (\<lambda>(digits, buf, loc, val, base). nat loc)") (auto simp: list_set_def split: if_splits)

declare print_uint_loop.simps [simp del]

definition print_uint :: "'a userstate_scheme \<Rightarrow> u32 \<Rightarrow> u32 \<Rightarrow> bool \<Rightarrow> 'a userstate_scheme res" where
  "print_uint s val base upper =
     bind_res (list_set (replicate 16 0) 15 0) (\<lambda>buf.
       if val = 0 then bind_res (list_set buf 14 48) (\<lambda>buf. user_print s (drop 14 buf))
       else bind_res (print_uint_loop (digits_of upper) buf 15 val base) (\<lambda>(buf, loc). user_print s (drop (nat loc) buf)))"


text \<open>\<open>for (i = 63; i >= 0; i--)\<close>; \<open>i\<close> is one more than the source's.\<close>

fun udivmod64_loop :: "u64 \<Rightarrow> u32 \<Rightarrow> u64 \<Rightarrow> u64 \<Rightarrow> nat \<Rightarrow> u64 \<times> u64" where
  "udivmod64_loop n d q r 0 = (q, r)"
| "udivmod64_loop n d q r (Suc i) =
     (let r = push_bit 1 r OR (drop_bit i n AND 1)
      in if ucast d \<le> r then udivmod64_loop n d (q OR push_bit i 1) (r - ucast d) i
         else udivmod64_loop n d q r i)"

definition udivmod64 :: "u64 \<Rightarrow> u32 \<Rightarrow> u64 \<times> u32" where
  "udivmod64 n d = (let (q, r) = udivmod64_loop n d 0 0 64 in (q, ucast r))"

function print_ull_loop :: "u8 list \<Rightarrow> u8 list \<Rightarrow> int \<Rightarrow> u64 \<Rightarrow> u32 \<Rightarrow> (u8 list \<times> int) res" where
  "print_ull_loop digits buf loc val base =
     (if val = 0 then Inr (buf, loc)
      else let (val, rem) = udivmod64 val base
           in bind_res (list_get digits (uint rem)) (\<lambda>d.
              bind_res (list_set buf (loc - 1) d) (\<lambda>buf. print_ull_loop digits buf (loc - 1) val base)))"
  by pat_completeness auto
termination
  by (relation "measure (\<lambda>(digits, buf, loc, val, base). nat loc)") (auto simp: list_set_def split: if_splits)

declare print_ull_loop.simps [simp del]

definition print_ull :: "'a userstate_scheme \<Rightarrow> u64 \<Rightarrow> u32 \<Rightarrow> bool \<Rightarrow> 'a userstate_scheme res" where
  "print_ull s val base upper =
     bind_res (list_set (replicate 24 0) 23 0) (\<lambda>buf.
       if val = 0 then bind_res (list_set buf 22 48) (\<lambda>buf. user_print s (drop 22 buf))
       else bind_res (print_ull_loop (digits_of upper) buf 23 val base) (\<lambda>(buf, loc). user_print s (drop (nat loc) buf)))"

text \<open>\<open>-(val + 1)\<close> is computed in \<open>long long\<close>; for a negative \<open>val\<close> it does not overflow.\<close>

definition print_ll :: "'a userstate_scheme \<Rightarrow> u64 \<Rightarrow> 'a userstate_scheme res" where
  "print_ll s val =
     (if val <s 0 then print_ull (putchar s 45) (- (val + 1) + 1) 10 False else print_ull s val 10 False)"

subsection \<open>Numerals\<close>

fun numeral_of :: "nat \<Rightarrow> nat \<Rightarrow> nat list" where
  "numeral_of b n = (if n < b \<or> b < 2 then [n] else numeral_of b (n div b) @ [n mod b])"

declare numeral_of.simps [simp del]

definition digit :: "bool \<Rightarrow> nat \<Rightarrow> u8" where
  "digit upper k = digits_of upper ! k"

definition decimal :: "nat \<Rightarrow> u8 list" where
  "decimal n = map (digit False) (numeral_of 10 n)"

definition decimal_int :: "int \<Rightarrow> u8 list" where
  "decimal_int i = (if i < 0 then 45 # decimal (nat (- i)) else decimal (nat i))"

text \<open>The digits a printing loop puts down: none for 0.\<close>

definition places :: "nat \<Rightarrow> nat \<Rightarrow> nat list" where
  "places b n = (if n = 0 then [] else numeral_of b n)"

lemma places_0 [simp]: "places b 0 = []"
  by (simp add: places_def)

lemma places_step: "n \<noteq> 0 \<Longrightarrow> 2 \<le> b \<Longrightarrow> places b n = places b (n div b) @ [n mod b]"
  by (cases "n < b") (simp_all add: places_def numeral_of.simps [of b n] div_eq_0_iff)

lemma places_length: "2 \<le> b \<Longrightarrow> n < b ^ k \<Longrightarrow> length (places b n) \<le> k"
proof (induction k arbitrary: n)
  case (Suc k)
  show ?case
  proof (cases "n = 0")
    case False
    have "n div b < b ^ k" using Suc.prems by (simp add: less_mult_imp_div_less mult.commute)
    then show ?thesis using Suc.IH [of "n div b"] Suc.prems(1) places_step [OF False Suc.prems(1)] by simp
  qed simp
qed simp

lemma put_digit:
  "k < length buf \<Longrightarrow> list_set buf (int (Suc k) - 1) d = Inr (buf[k := d])"
  "k < length buf \<Longrightarrow> drop k (buf[k := d]) = d # drop (Suc k) buf"
  by (simp_all add: list_set_def drop_update_swap Cons_nth_drop_Suc [symmetric])

lemma digits_of_get: "k < 16 \<Longrightarrow> list_get (digits_of u) (int k) = Inr (digit u k)"
  by (simp add: list_get_def digit_def digits_of_def c_literal_def)

lemma digit_nonzero: "k < 16 \<Longrightarrow> digit u k \<noteq> 0"
proof -
  have "list_all (\<lambda>k. digit u k \<noteq> 0) [0..<16]"
    by (cases u) (simp_all add: digit_def digits_of_def c_literal_def upt_rec)
  then show "k < 16 \<Longrightarrow> digit u k \<noteq> 0" by (simp add: list_all_iff)
qed

lemma digit_decimal: "k < 10 \<Longrightarrow> digit u k = 48 + of_nat k"
proof -
  have "list_all (\<lambda>k. digit u k = 48 + of_nat k) [0..<10]"
    by (cases u) (simp_all add: digit_def digits_of_def c_literal_def upt_rec)
  then show "k < 10 \<Longrightarrow> digit u k = 48 + of_nat k" by (simp add: list_all_iff)
qed

lemma places_digits: "2 \<le> b \<Longrightarrow> k \<in> set (places b n) \<Longrightarrow> k < b"
proof (induction n rule: less_induct)
  case (less n)
  show ?case
  proof (cases "n = 0")
    case False
    then have "n div b < n" using less.prems(1) by simp
    then show ?thesis using less.IH less.prems places_step [OF False less.prems(1)] by auto
  qed (use less.prems in simp)
qed

lemma print_uint_loop_places:
  assumes "2 \<le> unat base" "unat base \<le> 16" "loc \<le> length buf" "length (places (unat base) (unat val)) \<le> loc"
  shows "\<exists>buf'. print_uint_loop (digits_of u) buf (int loc) val base =
      Inr (buf', int (loc - length (places (unat base) (unat val)))) \<and>
    drop (loc - length (places (unat base) (unat val))) buf' = map (digit u) (places (unat base) (unat val)) @ drop loc buf"
  using assms
proof (induction loc arbitrary: buf val)
  case 0
  then have "unat val = 0" using places_step [of "unat val" "unat base"] by (cases "unat val = 0") auto
  then have "val = 0" by (simp add: unat_eq_zero)
  then show ?case by (simp add: print_uint_loop.simps)
next
  case (Suc k)
  show ?case
  proof (cases "val = 0")
    case True
    then show ?thesis by (simp add: print_uint_loop.simps)
  next
    case False
    let ?b = "unat base" and ?n = "unat val"
    have b0: "base \<noteq> 0" using Suc.prems(1) by auto
    have st: "places ?b ?n = places ?b (unat (val div base)) @ [?n mod ?b]"
      using places_step [of ?n ?b] False Suc.prems(1) by (simp add: unat_eq_zero unat_div)
    have m: "?n mod ?b < 16" using Suc.prems(1,2) by (metis mod_less_divisor less_le_trans not_numeral_le_zero neq0_conv)
    have k: "k < length buf" using Suc.prems(3) by simp
    let ?buf = "buf[k := digit u (?n mod ?b)]"
    have "print_uint_loop (digits_of u) buf (int (Suc k)) val base = print_uint_loop (digits_of u) ?buf (int k) (val div base) base"
      using False b0 put_digit(1) [OF k] digits_of_get [OF m]
      by (simp add: print_uint_loop.simps [of _ _ _ val] uint_mod zmod_int)
    moreover obtain buf' where "print_uint_loop (digits_of u) ?buf (int k) (val div base) base =
          Inr (buf', int (k - length (places ?b (unat (val div base)))))"
        "drop (k - length (places ?b (unat (val div base)))) buf' =
          map (digit u) (places ?b (unat (val div base))) @ drop k ?buf"
      using Suc.IH [of ?buf "val div base"] Suc.prems st by auto
    ultimately show ?thesis using put_digit(2) [OF k] st by simp
  qed
qed

lemma user_print_digits:
  assumes "0 \<notin> set ds" "length ds \<le> 1023"
  shows "user_print s (ds @ 0 # r) = Inr (s\<lparr>out_text := out_text s @ ds\<rparr>)"
  using assms by (simp add: user_print_def strlen_eq cstring_append_nul)

lemma places_nonzero: "2 \<le> b \<Longrightarrow> b \<le> 16 \<Longrightarrow> 0 \<notin> set (map (digit u) (places b n))"
proof
  assume b: "2 \<le> b" "b \<le> 16" and "0 \<in> set (map (digit u) (places b n))"
  then obtain k where k: "k \<in> set (places b n)" "digit u k = 0" by auto
  with places_digits [OF b(1) k(1)] b(2) digit_nonzero [of k u] show False by simp
qed

lemma print_uint_numeral:
  assumes "8 \<le> unat base" "unat base \<le> 16"
  shows "print_uint s val base upper = Inr (s\<lparr>out_text := out_text s @ map (digit upper) (numeral_of (unat base) (unat val))\<rparr>)"
proof (cases "val = 0")
  case True
  have "digit upper 0 = 48" by (rule digit_decimal [of 0, simplified])
  moreover have "drop 14 ((replicate 16 0)[15 := 0, 14 := 48 :: u8]) = [48, 0]" by (simp add: numeral_eq_Suc)
  moreover have "0 < unat base" using assms(1) by linarith
  ultimately show ?thesis using True user_print_digits [of "[48]" s "[]"]
    by (simp add: print_uint_def list_set_def numeral_of.simps [of _ 0])
next
  case False
  let ?ds = "places (unat base) (unat val)"
  have ds: "?ds = numeral_of (unat base) (unat val)" using False by (simp add: places_def unat_eq_zero)
  have "unat val < 8 ^ 11" using unsigned_less [of val, where 'a = nat] by simp
  also have "(8 :: nat) ^ 11 \<le> unat base ^ 11" using assms(1) by (rule power_mono) simp
  finally have l: "length ?ds \<le> 11" using assms(1) by (intro places_length) simp_all
  then obtain buf' where "print_uint_loop (digits_of upper) ((replicate 16 0)[15 := 0]) (int 15) val base =
        Inr (buf', int (15 - length ?ds))"
      "drop (15 - length ?ds) buf' = map (digit upper) ?ds @ drop 15 ((replicate 16 0)[15 := 0])"
    using print_uint_loop_places [of base 15 "(replicate 16 0)[15 := 0]" val upper] assms by auto
  moreover have "drop 15 ((replicate 16 0)[15 := 0 :: u8]) = [0]" by (simp add: numeral_eq_Suc)
  moreover have "user_print s (map (digit upper) ?ds @ [0]) = Inr (s\<lparr>out_text := out_text s @ map (digit upper) ?ds\<rparr>)"
    using l assms by (intro user_print_digits places_nonzero) simp_all
  ultimately show ?thesis using False by (simp add: print_uint_def list_set_def ds)
qed

subsection \<open>Division of 64-bit numbers\<close>

lemma double_div:
  fixes m d :: nat
  assumes "d \<noteq> 0" "b < 2"
  defines "r \<equiv> 2 * (m mod d) + b"
  shows "(2 * m + b) div d = 2 * (m div d) + (if d \<le> r then 1 else 0)" "(2 * m + b) mod d = (if d \<le> r then r - d else r)"
proof -
  have "2 * m + b = 2 * (d * (m div d) + m mod d) + b" by (simp only: mult_div_mod_eq)
  also have "\<dots> = r + d * (2 * (m div d))" unfolding r_def by (simp only: distrib_left ac_simps)
  finally have e: "(2 * m + b) div d = 2 * (m div d) + r div d" "(2 * m + b) mod d = r mod d"
    using assms(1) by simp_all
  have "m mod d < d" using assms(1) by simp
  then have "r < 2 * d" using assms(2) by (simp add: r_def)
  then have "r div d = (if d \<le> r then 1 else 0)" 
    using \<open>r < 2 * d\<close> div_nat_eqI [of d 1 r] by (cases "d \<le> r") simp_all
  moreover have "r mod d = (if d \<le> r then r - d else r)"
    using \<open>r < 2 * d\<close> by (cases "d \<le> r") (simp_all add: le_mod_geq)
  ultimately show "(2 * m + b) div d = 2 * (m div d) + (if d \<le> r then 1 else 0)" "(2 * m + b) mod d = (if d \<le> r then r - d else r)"
    using e by simp_all
qed

lemma unat_drop_bit_64: "unat (drop_bit i n) = unat n div 2 ^ i" for n :: u64
proof -
  have "unat n < 2 ^ 64" using unsigned_less [of n, where 'a = nat] by simp
  then show ?thesis unfolding unsigned_drop_bit_eq by (simp add: drop_bit_eq_div take_bit_nat_eq_self)
qed

lemma unat_ucast_64 [simp]: "unat (ucast d :: u64) = unat d" for d :: u32
proof -
  have "unat d < 2 ^ 32" using unsigned_less [of d, where 'a = nat] by simp
  then have "unat d < 2 ^ 64" by simp
  then show ?thesis by (simp add: unsigned_ucast_eq take_bit_nat_eq_self)
qed

lemma udivmod64_loop_div:
  assumes "d \<noteq> 0" "i \<le> 64" "unat q = (unat n div 2 ^ i div unat d) * 2 ^ i" "unat r = unat n div 2 ^ i mod unat d"
  shows "\<exists>q' r'. udivmod64_loop n d q r i = (q', r') \<and> unat q' = unat n div unat d \<and> unat r' = unat n mod unat d"
  using assms
proof (induction i arbitrary: q r)
  case (Suc i)
  let ?m = "unat n div 2 ^ Suc i" and ?b = "unat n div 2 ^ i mod 2" and ?d = "unat d"
  let ?r = "push_bit 1 r OR (drop_bit i n AND 1)"
  have d: "?d \<noteq> 0" "?d < 2 ^ 32" using Suc.prems(1) unsigned_less [of d, where 'a = nat] by (simp_all add: unat_eq_zero)
  have half: "?m = unat n div 2 ^ i div 2" by (simp only: power_Suc2 div_mult2_eq)
  then have m: "unat n div 2 ^ i = 2 * ?m + ?b" by (metis mult_div_mod_eq)
  have rm: "?m mod ?d < ?d" using d(1) by simp
  have r: "unat ?r = 2 * (?m mod ?d) + ?b"
  proof -
    have "drop_bit i n AND 1 = drop_bit i n mod 2" by (simp add: and_one_eq)
    then have b: "unat (drop_bit i n AND 1) = ?b" by (simp only: unat_mod unat_drop_bit_64) simp
    have "?r = push_bit 1 r + (drop_bit i n AND 1)"
      by (rule disjunctive_add [symmetric]) (auto simp: bit_push_bit_iff bit_and_iff bit_1_iff simp del: push_bit_of_1 push_bit_Suc)
    moreover have "unat (push_bit 1 r) = 2 * unat r"
      using Suc.prems(4) rm d(2) by (simp add: push_bit_eq_mult unat_word_ariths)
    ultimately have "unat ?r = (2 * unat r + ?b) mod 2 ^ 64" using b by (simp add: unat_word_ariths)
    moreover have "?b < 2" by simp
    then have "2 * unat r + ?b < 2 * 2 ^ 32 + 2" using Suc.prems(4) rm d(2) by linarith
    then have "2 * unat r + ?b < 2 ^ 64" by simp
    ultimately show ?thesis using Suc.prems(4) by simp
  qed
  have dd: "unat (ucast d :: u64) = ?d" by simp
  have b2: "?b < 2" by simp
  have i: "i < 64" using Suc.prems(2) by simp
  let ?q1 = "?m div ?d"
  have n64: "unat n < 2 ^ 64" using unsigned_less [of n, where 'a = nat] by simp
  show ?case
  proof (cases "?d \<le> 2 * (?m mod ?d) + ?b")
    case True
    have qd: "unat n div 2 ^ i div ?d = 2 * ?q1 + 1" and rd: "unat n div 2 ^ i mod ?d = 2 * (?m mod ?d) + ?b - ?d"
      using double_div [OF d(1) b2, of ?m] True m by simp_all
    have p: "unat (push_bit i 1 :: u64) = 2 ^ i" using i unfolding unsigned_push_bit_eq by (simp add: take_bit_of_exp)
    have "q OR push_bit i 1 = q + push_bit i 1"
    proof (rule disjunctive_add [symmetric])
      fix k
      have "bit q k \<longleftrightarrow> bit (push_bit (Suc i) ?q1) k"
      proof -
        have "bit q k \<longleftrightarrow> bit (unat q) k" by (simp add: bit_unsigned_iff)
        also have "unat q = push_bit (Suc i) ?q1" using Suc.prems(3) by (simp only: push_bit_eq_mult)
        finally show ?thesis .
      qed
      then show "\<not> bit q k \<or> \<not> bit (push_bit i 1 :: u64) k"
        by (auto simp: bit_push_bit_iff bit_1_iff simp del: push_bit_of_1 push_bit_Suc)
    qed
    then have "unat (q OR push_bit i 1) = (unat q + 2 ^ i) mod 2 ^ 64" by (simp only: unat_word_ariths p) simp
    moreover have "k * 2 ^ Suc i + 2 ^ i = (2 * k + 1) * 2 ^ i" for k :: nat by (simp add: algebra_simps)
    then have "unat q + 2 ^ i = (2 * ?q1 + 1) * 2 ^ i" unfolding Suc.prems(3) .
    moreover have "(2 * ?q1 + 1) * 2 ^ i \<le> unat n"
      using div_le_dividend [of "unat n div 2 ^ i" ?d] qd
      by (metis div_times_less_eq_dividend mult_le_mono1 order_trans)
    ultimately have q: "unat (q OR push_bit i 1) = (2 * ?q1 + 1) * 2 ^ i"
      using n64 by (metis le_less_trans mod_less)
    have le: "ucast d \<le> ?r" using True r dd by (simp add: word_le_nat_alt)
    have rr: "unat (?r - ucast d) = unat n div 2 ^ i mod ?d" unfolding unat_sub [OF le] dd r rd by (rule refl)
    have qq: "unat (q OR push_bit i 1) = unat n div 2 ^ i div ?d * 2 ^ i" unfolding q qd by (rule refl)
    have "udivmod64_loop n d q r (Suc i) = udivmod64_loop n d (q OR push_bit i 1) (?r - ucast d) i"
      using le by (simp only: udivmod64_loop.simps Let_def if_True)
    then show ?thesis using Suc.IH [OF Suc.prems(1) less_imp_le [OF i] qq rr] by simp
  next
    case False
    then have "unat n div 2 ^ i div ?d = 2 * ?q1" "unat n div 2 ^ i mod ?d = 2 * (?m mod ?d) + ?b"
      using double_div [OF d(1) b2, of ?m] m by simp_all
    then have rr: "unat ?r = unat n div 2 ^ i mod ?d" and qq: "unat q = unat n div 2 ^ i div ?d * 2 ^ i"
      using r Suc.prems(3) by simp_all
    have "\<not> ucast d \<le> ?r" using False r dd by (simp add: word_le_nat_alt)
    then have "udivmod64_loop n d q r (Suc i) = udivmod64_loop n d q ?r i"
      by (simp only: udivmod64_loop.simps Let_def if_False)
    then show ?thesis using Suc.IH [OF Suc.prems(1) less_imp_le [OF i] qq rr] by simp
  qed
qed simp

lemma udivmod64_eq:
  assumes "d \<noteq> 0"
  shows "udivmod64 n d = (n div ucast d, ucast (n mod ucast d))"
proof -
  have dd: "unat (ucast d :: u64) = unat d" by simp
  have "unat n div 2 ^ 64 = 0" using unsigned_less [of n, where 'a = nat] by simp
  then obtain q r where qr: "udivmod64_loop n d 0 0 64 = (q, r)" "unat q = unat n div unat d" "unat r = unat n mod unat d"
    using udivmod64_loop_div [of d 64 0 n 0] assms by auto
  then have "q = n div ucast d" "r = n mod ucast d" using dd by (simp_all add: word_unat_eq_iff unat_div unat_mod)
  then show ?thesis using qr(1) by (simp add: udivmod64_def)
qed

text \<open>C37: the shift-and-subtract division of \<open>udivmod64\<close> is the division of unsigned 64-bit numbers: quotient and remainder.\<close>

theorem udivmod64_divides:
  assumes "d \<noteq> 0"
  shows "udivmod64 n d = (n div ucast d, ucast (n mod ucast d))"
  by (rule udivmod64_eq [OF assms])

lemma udivmod64_divides_witness: "udivmod64 0xFFFFFFFFFFFFFFFF 10 = (1844674407370955161, 5)"
  using udivmod64_divides [of 10 "0xFFFFFFFFFFFFFFFF"] by simp

lemma print_ull_loop_places:
  assumes "2 \<le> unat base" "unat base \<le> 16" "loc \<le> length buf" "length (places (unat base) (unat val)) \<le> loc"
  shows "\<exists>buf'. print_ull_loop (digits_of u) buf (int loc) val base =
      Inr (buf', int (loc - length (places (unat base) (unat val)))) \<and>
    drop (loc - length (places (unat base) (unat val))) buf' = map (digit u) (places (unat base) (unat val)) @ drop loc buf"
  using assms
proof (induction loc arbitrary: buf val)
  case 0
  then have "unat val = 0" using places_step [of "unat val" "unat base"] by (cases "unat val = 0") auto
  then have "val = 0" by (simp add: unat_eq_zero)
  then show ?case by (simp add: print_ull_loop.simps)
next
  case (Suc k)
  show ?case
  proof (cases "val = 0")
    case True
    then show ?thesis by (simp add: print_ull_loop.simps)
  next
    case False
    let ?b = "unat base" and ?n = "unat val" and ?v = "val div ucast base"
    have b0: "base \<noteq> 0" using Suc.prems(1) by auto
    have st: "places ?b ?n = places ?b (unat ?v) @ [?n mod ?b]"
      using places_step [of ?n ?b] False Suc.prems(1) by (simp add: unat_eq_zero unat_div)
    have m: "?n mod ?b < 16" using Suc.prems(1,2) by (metis mod_less_divisor less_le_trans not_numeral_le_zero neq0_conv)
    then have "unat (ucast (val mod ucast base) :: u32) = ?n mod ?b"
      by (simp add: unsigned_ucast_eq unat_mod take_bit_nat_eq_self)
    then have um: "uint (ucast (val mod ucast base) :: u32) = int (?n mod ?b)" by (simp add: uint_nat)
    have k: "k < length buf" using Suc.prems(3) by simp
    let ?buf = "buf[k := digit u (?n mod ?b)]"
    have "print_ull_loop (digits_of u) buf (int (Suc k)) val base = print_ull_loop (digits_of u) ?buf (int k) ?v base"
      using False put_digit(1) [OF k] digits_of_get [OF m]
      by (simp add: print_ull_loop.simps [of _ _ _ val] udivmod64_eq [OF b0] um)
    moreover obtain buf' where "print_ull_loop (digits_of u) ?buf (int k) ?v base = Inr (buf', int (k - length (places ?b (unat ?v))))"
        "drop (k - length (places ?b (unat ?v))) buf' = map (digit u) (places ?b (unat ?v)) @ drop k ?buf"
      using Suc.IH [of ?buf ?v] Suc.prems st by auto
    ultimately show ?thesis using put_digit(2) [OF k] st by simp
  qed
qed

lemma print_ull_numeral:
  assumes "8 \<le> unat base" "unat base \<le> 16"
  shows "print_ull s val base upper = Inr (s\<lparr>out_text := out_text s @ map (digit upper) (numeral_of (unat base) (unat val))\<rparr>)"
proof (cases "val = 0")
  case True
  have "digit upper 0 = 48" by (rule digit_decimal [of 0, simplified])
  moreover have "drop 22 ((replicate 24 0)[23 := 0, 22 := 48 :: u8]) = [48, 0]" by (simp add: numeral_eq_Suc)
  moreover have "0 < unat base" using assms(1) by linarith
  ultimately show ?thesis using True user_print_digits [of "[48]" s "[]"]
    by (simp add: print_ull_def list_set_def numeral_of.simps [of _ 0])
next
  case False
  let ?ds = "places (unat base) (unat val)"
  have ds: "?ds = numeral_of (unat base) (unat val)" using False by (simp add: places_def unat_eq_zero)
  have "unat val < 8 ^ 22" using unsigned_less [of val, where 'a = nat] by simp
  also have "(8 :: nat) ^ 22 \<le> unat base ^ 22" using assms(1) by (rule power_mono) simp
  finally have l: "length ?ds \<le> 22" using assms(1) by (intro places_length) simp_all
  then obtain buf' where "print_ull_loop (digits_of upper) ((replicate 24 0)[23 := 0]) (int 23) val base =
        Inr (buf', int (23 - length ?ds))"
      "drop (23 - length ?ds) buf' = map (digit upper) ?ds @ drop 23 ((replicate 24 0)[23 := 0])"
    using print_ull_loop_places [of base 23 "(replicate 24 0)[23 := 0]" val upper] assms by auto
  moreover have "drop 23 ((replicate 24 0)[23 := 0 :: u8]) = [0]" by (simp add: numeral_eq_Suc)
  moreover have "user_print s (map (digit upper) ?ds @ [0]) = Inr (s\<lparr>out_text := out_text s @ map (digit upper) ?ds\<rparr>)"
    using l assms by (intro user_print_digits places_nonzero) simp_all
  ultimately show ?thesis using False by (simp add: print_ull_def list_set_def ds)
qed

subsection \<open>itoa is the decimal numeral\<close>

lemma truncated_div: "int m sdiv 10 = int (m div 10)" "int m smod 10 = int (m mod 10)"
  by (cases "m = 0"; simp add: signed_divide_int_def signed_modulo_int_def zdiv_int zmod_int)+

lemma itoa_loop_places:
  assumes "loc \<le> length buf" "length (places 10 m) \<le> loc"
  shows "\<exists>buf'. itoa_loop buf (int loc) (- int m) = Inr (buf', int (loc - length (places 10 m))) \<and>
    drop (loc - length (places 10 m)) buf' = map (digit False) (places 10 m) @ drop loc buf \<and> length buf' = length buf"
  using assms
proof (induction loc arbitrary: buf m)
  case 0
  then have "m = 0" using places_step [of m 10] by (cases "m = 0") auto
  then show ?case by (simp add: itoa_loop.simps)
next
  case (Suc k)
  show ?case
  proof (cases "m = 0")
    case True
    then show ?thesis by (simp add: itoa_loop.simps)
  next
    case False
    have st: "places 10 m = places 10 (m div 10) @ [m mod 10]" using places_step [OF False, of 10] by simp
    have k: "k < length buf" using Suc.prems(1) by simp
    let ?buf = "buf[k := digit False (m mod 10)]"
    have "word_of_int (48 + int (m mod 10)) = digit False (m mod 10)"
      by (simp add: digit_decimal)
    then have "itoa_loop buf (int (Suc k)) (- int m) = itoa_loop ?buf (int k) (- int (m div 10))"
      using False put_digit(1) [OF k, of "digit False (m mod 10)"]
      by (simp add: itoa_loop.simps [of _ _ "- int m"] truncated_div)
    moreover obtain buf' where "itoa_loop ?buf (int k) (- int (m div 10)) = Inr (buf', int (k - length (places 10 (m div 10))))"
        "drop (k - length (places 10 (m div 10))) buf' = map (digit False) (places 10 (m div 10)) @ drop k ?buf"
        "length buf' = length buf"
      using Suc.IH [of ?buf "m div 10"] Suc.prems st by auto
    ultimately show ?thesis using put_digit(2) [OF k] st by simp
  qed
qed

lemma itoa_eq:
  assumes "- (2 ^ 31) \<le> i" "i < 2 ^ 31"
  shows "itoa i = Inr (decimal_int i @ [0])"
proof -
  define m where "m = nat \<bar>i\<bar>"
  let ?ds = "places 10 m" and ?t0 = "(replicate 12 0)[11 := 0 :: u8]"
  have im: "(if 0 \<le> i then (- i, False) else (i, True)) = (- int m, i < 0)" by (simp add: m_def)
  have "m < 10 ^ 10" using assms by (simp add: m_def nat_less_iff)
  then have l: "length ?ds \<le> 10" by (intro places_length) simp_all
  obtain buf where t: "itoa_loop ?t0 (int 11) (- int m) = Inr (buf, int (11 - length ?ds))"
      "drop (11 - length ?ds) buf = map (digit False) ?ds @ drop 11 ?t0" "length buf = 12"
    using itoa_loop_places [of 11 ?t0 m] l by auto
  have d0: "drop 11 ?t0 = [0]" by (simp add: numeral_eq_Suc)
  define loc where "loc = (if m = 0 then 10 else 11 - length ?ds)"
  define bufb where "bufb = (if m = 0 then buf[10 := 48] else buf)"
  have ne: "m \<noteq> 0 \<Longrightarrow> ?ds \<noteq> []" using places_step [of m 10] by auto
  have one: "bind_res (itoa_loop ?t0 11 (- int m)) (\<lambda>(buf, loc). bind_res
      (if loc = 11 then bind_res (list_set buf (loc - 1) 48) (\<lambda>buf. Inr (buf, loc - 1)) else Inr (buf, loc)) f) =
      f (bufb, int loc)" for f :: "u8 list \<times> int \<Rightarrow> u8 list res"
    using t l ne by (cases "m = 0") (simp_all add: bufb_def loc_def list_set_def)
  have ds: "drop loc bufb = decimal m @ [0]"
  proof (cases "m = 0")
    case True
    then have "drop 11 buf = [0]" using t(2) d0 by simp
    moreover have "digit False 0 = 48" by (rule digit_decimal [of 0, simplified])
    ultimately show ?thesis using True put_digit(2) [of 10 buf 48] t(3)
      by (simp add: loc_def bufb_def decimal_def numeral_of.simps [of _ 0])
  next
    case False
    then show ?thesis using t(2) d0 by (simp add: loc_def bufb_def decimal_def places_def)
  qed
  have loc: "0 < loc" "loc \<le> 11" "length bufb = 12" using l t(3) by (simp_all add: loc_def bufb_def)
  then obtain k where k: "loc = Suc k" "k < length bufb" by (cases loc) simp_all
  show ?thesis
  proof (cases "i < 0")
    case True
    then have "itoa i = Inr (drop k (bufb[k := 45]))"
      using k(2) unfolding itoa_def im Let_def prod.case by (simp add: list_set_def [of "replicate 12 0"] one) (simp add: k(1) put_digit(1) list_set_def)
    then show ?thesis using put_digit(2) [OF k(2)] ds k(1) True by (simp add: decimal_int_def m_def)
  next
    case False
    then have "itoa i = Inr (drop loc bufb)" 
      unfolding itoa_def im Let_def prod.case by (simp add: list_set_def [of "replicate 12 0"] one)
    then show ?thesis using ds False by (simp add: decimal_int_def m_def)
  qed
qed

text \<open>\<open>itoa\<close> of any \<open>int\<close>, the least one included, is its decimal numeral, inside the 12 bytes of its buffer.\<close>

theorem itoa_decimal:
  assumes "- (2 ^ 31) \<le> i" "i < 2 ^ 31"
  shows "itoa i = Inr (decimal_int i @ [0])"
  by (rule itoa_eq [OF assms])

lemma itoa_decimal_witness: "itoa (- 2147483648) = Inr [45, 50, 49, 52, 55, 52, 56, 51, 54, 52, 56, 0]"
  using itoa_decimal [of "- 2147483648"] by (simp add: decimal_int_def decimal_def numeral_of.simps digit_decimal)

end
