(* ===== verification/Printf.thy ===== *)
theory Printf
  imports UserNum
begin

text \<open>
  \<open>printf\<close> of programs/stdlib/src/stdio.c. The format pointer \<open>p\<close> is the rest of the format array; the arguments are the words the caller pushed; \<open>strs\<close> is the
  memory of the process as the array a pointer points to. A format is described by \<open>piece\<close>s and \<open>printf\<close> prints what they say.
\<close>

subsection \<open>The code\<close>

fun va_arg :: "u32 list \<Rightarrow> (u32 \<times> u32 list) res" where
  "va_arg [] = Inl OutOfBounds"
| "va_arg (a # ap) = Inr (a, ap)"

definition va_arg64 :: "u32 list \<Rightarrow> (u64 \<times> u32 list) res" where
  "va_arg64 ap =
     bind_res (va_arg ap) (\<lambda>(lo, ap). bind_res (va_arg ap) (\<lambda>(hi, ap). Inr (push_bit 32 (ucast hi) OR ucast lo, ap)))"

definition print_int :: "'a userstate_scheme \<Rightarrow> u32 \<Rightarrow> 'a userstate_scheme res" where
  "print_int s v = bind_res (itoa (sint v)) (user_print s)"

text \<open>The three \<open>switch\<close> statements: the character after \<open>%\<close>, \<open>%l\<close> and \<open>%ll\<close>.\<close>

definition convert :: "(u32 \<Rightarrow> u8 list) \<Rightarrow> 'a userstate_scheme \<Rightarrow> u8 \<Rightarrow> u32 list \<Rightarrow> ('a userstate_scheme \<times> u32 list) res" where
  "convert strs s c ap =
     (let arg = (\<lambda>f. bind_res (va_arg ap) (\<lambda>(v, ap). bind_res (f v) (\<lambda>s. Inr (s, ap))))
      in if c = 105 \<or> c = 100 then arg (print_int s)
         else if c = 115 then arg (\<lambda>v. user_print s (strs v))
         else if c = 99 then arg (\<lambda>v. Inr (putchar s v))
         else if c = 117 then arg (\<lambda>v. print_uint s v 10 False)
         else if c = 120 then arg (\<lambda>v. print_uint s v 16 False)
         else if c = 88 then arg (\<lambda>v. print_uint s v 16 True)
         else if c = 111 then arg (\<lambda>v. print_uint s v 8 False)
         else if c = 112 then bind_res (user_print s (c_literal ''0x'')) (\<lambda>s.
           bind_res (va_arg ap) (\<lambda>(v, ap). bind_res (print_uint s v 16 False) (\<lambda>s. Inr (s, ap))))
         else if c = 37 then Inr (putchar s 37, ap)
         else Inr (putchar s (scast c), ap))"

definition convert_l :: "'a userstate_scheme \<Rightarrow> u8 \<Rightarrow> u32 list \<Rightarrow> ('a userstate_scheme \<times> u32 list) res" where
  "convert_l s c ap =
     (let arg = (\<lambda>f. bind_res (va_arg ap) (\<lambda>(v, ap). bind_res (f v) (\<lambda>s. Inr (s, ap))))
      in if c = 100 \<or> c = 105 then arg (print_int s)
         else if c = 117 then arg (\<lambda>v. print_uint s v 10 False)
         else if c = 120 then arg (\<lambda>v. print_uint s v 16 False)
         else if c = 88 then arg (\<lambda>v. print_uint s v 16 True)
         else if c = 111 then arg (\<lambda>v. print_uint s v 8 False)
         else Inr (putchar s (scast c), ap))"

definition convert_ll :: "'a userstate_scheme \<Rightarrow> u8 \<Rightarrow> u32 list \<Rightarrow> ('a userstate_scheme \<times> u32 list) res" where
  "convert_ll s c ap =
     (let arg = (\<lambda>f. bind_res (va_arg64 ap) (\<lambda>(v, ap). bind_res (f v) (\<lambda>s. Inr (s, ap))))
      in if c = 100 \<or> c = 105 then arg (print_ll s)
         else if c = 117 then arg (\<lambda>v. print_ull s v 10 False)
         else if c = 120 then arg (\<lambda>v. print_ull s v 16 False)
         else if c = 88 then arg (\<lambda>v. print_ull s v 16 True)
         else if c = 111 then arg (\<lambda>v. print_ull s v 8 False)
         else Inr (putchar s (scast c), ap))"

fun printf_loop :: "(u32 \<Rightarrow> u8 list) \<Rightarrow> 'a userstate_scheme \<Rightarrow> u8 list \<Rightarrow> u32 list \<Rightarrow> 'a userstate_scheme res" where
  "printf_loop strs s [] ap = Inl OutOfBounds"
| "printf_loop strs s (c # p) ap =
     (if c = 0 then Inr s
      else if c \<noteq> 37 then printf_loop strs (putchar s (scast c)) p ap
      else case p of
        [] \<Rightarrow> Inl OutOfBounds
      | c # p \<Rightarrow>
          if c \<noteq> 108 then bind_res (convert strs s c ap) (\<lambda>(s, ap). printf_loop strs s p ap)
          else case p of
            [] \<Rightarrow> Inl OutOfBounds
          | c # p \<Rightarrow>
              if c \<noteq> 108 then bind_res (convert_l s c ap) (\<lambda>(s, ap). printf_loop strs s p ap)
              else case p of
                [] \<Rightarrow> Inl OutOfBounds
              | c # p \<Rightarrow> bind_res (convert_ll s c ap) (\<lambda>(s, ap). printf_loop strs s p ap))"

declare printf_loop.simps [simp del]

definition printf :: "(u32 \<Rightarrow> u8 list) \<Rightarrow> 'a userstate_scheme \<Rightarrow> u8 list \<Rightarrow> u32 list \<Rightarrow> (int \<times> 'a userstate_scheme) res" where
  "printf strs s fmt ap = bind_res (printf_loop strs s fmt ap) (\<lambda>s. Inr (0, s))"

subsection \<open>Formats\<close>

datatype piece =
    Plain u8
  | Percent
  | Signed u32
  | Unsigned u32
  | Hex bool u32 \<comment> \<open>upper case or not\<close>
  | Octal u32
  | Character u32
  | Text u32
  | Pointer u32
  | Long_long u64
  | Unsigned_long_long u64
  | Hex_long_long bool u64

fun piece_format :: "piece \<Rightarrow> u8 list" where
  "piece_format (Plain c) = [c]"
| "piece_format Percent = [37, 37]"
| "piece_format (Signed v) = [37, 100]"
| "piece_format (Unsigned v) = [37, 117]"
| "piece_format (Hex u v) = [37, if u then 88 else 120]"
| "piece_format (Octal v) = [37, 111]"
| "piece_format (Character v) = [37, 99]"
| "piece_format (Text a) = [37, 115]"
| "piece_format (Pointer a) = [37, 112]"
| "piece_format (Long_long v) = [37, 108, 108, 100]"
| "piece_format (Unsigned_long_long v) = [37, 108, 108, 117]"
| "piece_format (Hex_long_long u v) = [37, 108, 108, if u then 88 else 120]"

fun piece_args :: "piece \<Rightarrow> u32 list" where
  "piece_args (Plain c) = []"
| "piece_args Percent = []"
| "piece_args (Signed v) = [v]"
| "piece_args (Unsigned v) = [v]"
| "piece_args (Hex u v) = [v]"
| "piece_args (Octal v) = [v]"
| "piece_args (Character v) = [v]"
| "piece_args (Text a) = [a]"
| "piece_args (Pointer a) = [a]"
| "piece_args (Long_long v) = [ucast v, ucast (drop_bit 32 v)]"
| "piece_args (Unsigned_long_long v) = [ucast v, ucast (drop_bit 32 v)]"
| "piece_args (Hex_long_long u v) = [ucast v, ucast (drop_bit 32 v)]"

fun piece_output :: "(u32 \<Rightarrow> u8 list) \<Rightarrow> piece \<Rightarrow> u8 list" where
  "piece_output strs (Plain c) = [c]"
| "piece_output strs Percent = [37]"
| "piece_output strs (Signed v) = decimal_int (sint v)"
| "piece_output strs (Unsigned v) = decimal (unat v)"
| "piece_output strs (Hex u v) = map (digit u) (numeral_of 16 (unat v))"
| "piece_output strs (Octal v) = map (digit False) (numeral_of 8 (unat v))"
| "piece_output strs (Character v) = [ucast v]"
| "piece_output strs (Text a) = cstring (strs a)"
| "piece_output strs (Pointer a) = [48, 120] @ map (digit False) (numeral_of 16 (unat a))"
| "piece_output strs (Long_long v) = decimal_int (sint v)"
| "piece_output strs (Unsigned_long_long v) = decimal (unat v)"
| "piece_output strs (Hex_long_long u v) = map (digit u) (numeral_of 16 (unat v))"

fun piece_ok :: "(u32 \<Rightarrow> u8 list) \<Rightarrow> piece \<Rightarrow> bool" where
  "piece_ok strs (Plain c) \<longleftrightarrow> c \<noteq> 0 \<and> c \<noteq> 37"
| "piece_ok strs (Text a) \<longleftrightarrow> 0 \<in> set (strs a) \<and> length (cstring (strs a)) \<le> 1023"
| "piece_ok strs _ \<longleftrightarrow> True"

subsection \<open>What printf prints\<close>

lemma ucast_scast_u8 [simp]: "(ucast (scast c :: u32) :: u8) = c"
  by (rule bit_word_eqI) (simp add: bit_ucast_iff bit_signed_iff)

lemma va_arg64_words [simp]: "va_arg64 (ucast v # ucast (drop_bit 32 v) # ap) = Inr (v, ap)"
proof -
  have "push_bit 32 (ucast (ucast (drop_bit 32 v) :: u32)) OR ucast (ucast v :: u32) = v"
    by (rule bit_word_eqI) (auto simp: bit_or_iff bit_push_bit_iff bit_ucast_iff bit_drop_bit_eq)
  then show ?thesis by (simp add: va_arg64_def)
qed

lemma numeral_digits: "2 \<le> b \<Longrightarrow> k \<in> set (numeral_of b n) \<Longrightarrow> k < b"
  using places_digits [of b k n] by (cases "n = 0") (simp_all add: places_def numeral_of.simps [of b 0])

lemma decimal_no_nul: "0 \<notin> set (decimal n)"
proof
  assume "0 \<in> set (decimal n)"
  then obtain k where "k \<in> set (numeral_of 10 n)" "digit False k = 0" by (auto simp: decimal_def)
  then show False using numeral_digits [of 10 k n] digit_nonzero [of k False] by simp
qed

lemma decimal_length: "n < 10 ^ k \<Longrightarrow> 0 < k \<Longrightarrow> length (decimal n) \<le> k"
  using places_length [of 10 n k] by (cases "n = 0") (simp_all add: decimal_def places_def numeral_of.simps [of 10 0])

lemma print_int_decimal: "print_int s v = Inr (s\<lparr>out_text := out_text s @ decimal_int (sint v)\<rparr>)"
proof -
  have b: "- (2 ^ 31) \<le> sint v" "sint v < 2 ^ 31" using sint_greater_eq [of v] sint_less [of v] by simp_all
  have "length (decimal (nat x)) \<le> 10" if "x \<le> 2 ^ 31" for x :: int
    using that by (intro decimal_length) (simp_all add: nat_less_iff)
  from this [of "sint v"] this [of "- sint v"] have "length (decimal_int (sint v)) \<le> 1023"
    using b by (simp add: decimal_int_def)
  moreover have "0 \<notin> set (decimal_int (sint v))" by (simp add: decimal_int_def decimal_no_nul)
  ultimately show ?thesis using itoa_eq [OF b] user_print_digits [of _ s "[]"] by (simp add: print_int_def)
qed

lemma unat_word_of_int_64: "0 \<le> k \<Longrightarrow> k < 2 ^ 64 \<Longrightarrow> unat (word_of_int k :: u64) = nat k"
  by (simp add: uint_word_of_int take_bit_int_eq_self flip: nat_uint_eq)

lemma print_ll_decimal: "print_ll s v = Inr (s\<lparr>out_text := out_text s @ decimal_int (sint v)\<rparr>)"
proof (cases "sint v < 0")
  case True
  have e: "- (v + 1) + 1 = - v" by simp
  have "- v = word_of_int (- sint v)" by simp
  then have "unat (- v) = nat (- sint v)"
    using True sint_greater_eq [of v] unat_word_of_int_64 [of "- sint v"] by simp
  then show ?thesis using True unfolding print_ll_def e
    by (simp add: word_sless_alt print_ull_numeral putchar_def marrowos_putchar_def decimal_int_def decimal_def)
next
  case False
  moreover have "sint v < 2 ^ 63" using sint_less [of v] by simp
  ultimately have "unat v = nat (sint v)" using unat_word_of_int_64 [of "sint v"] by simp
  then show ?thesis using False
    by (simp add: print_ll_def word_sless_alt print_ull_numeral decimal_int_def decimal_def)
qed

lemma printf_piece:
  "piece_ok strs c \<Longrightarrow> printf_loop strs s (piece_format c @ p) (piece_args c @ ap) =
     printf_loop strs (s\<lparr>out_text := out_text s @ piece_output strs c\<rparr>) p ap"
  by (cases c) (simp_all add: printf_loop.simps(2) [of strs s] convert_def convert_ll_def print_int_decimal print_uint_numeral
    print_ull_numeral print_ll_decimal decimal_def user_print_def strlen_eq putchar_def marrowos_putchar_def c_literal_def)

text \<open>C36: \<open>printf\<close> of a format made of pieces prints every piece, numbers as numerals of their base, taking the arguments in order.\<close>

theorem printf_renders:
  assumes "list_all (piece_ok strs) ps"
  shows "printf strs s (concat (map piece_format ps) @ [0]) (concat (map piece_args ps)) =
    Inr (0, s\<lparr>out_text := out_text s @ concat (map (piece_output strs) ps)\<rparr>)"
proof -
  have "printf_loop strs s (concat (map piece_format ps) @ [0]) (concat (map piece_args ps)) =
      Inr (s\<lparr>out_text := out_text s @ concat (map (piece_output strs) ps)\<rparr>)"
    using assms
  proof (induction ps arbitrary: s)
    case Nil
    then show ?case by (simp add: printf_loop.simps)
  next
    case (Cons c ps)
    then show ?case
      using printf_piece [of strs c s "concat (map piece_format ps) @ [0]" "concat (map piece_args ps)"] by simp
  qed
  then show ?thesis by (simp add: printf_def)
qed

definition example_user_state :: userstate where
  "example_user_state = \<lparr>out_text = [], keys = [], mallocs = []\<rparr>"

text \<open>\<open>printf("n=%d %x", -7, 255)\<close>\<close>

lemma printf_renders_witness:
  "printf (\<lambda>_. [0]) example_user_state [110, 61, 37, 100, 32, 37, 120, 0] [- 7, 255] =
     Inr (0, example_user_state\<lparr>out_text := [110, 61, 45, 55, 32, 102, 102]\<rparr>)"
  using printf_renders [of "\<lambda>_. [0]" "[Plain 110, Plain 61, Signed (- 7), Plain 32, Hex False 255]" example_user_state]
  by (simp add: example_user_state_def decimal_int_def decimal_def numeral_of.simps digit_def digits_of_def c_literal_def)

text \<open>A format that ends in \<open>%\<close>: the NUL is printed and the scan goes on behind it, here past the array.\<close>

lemma printf_trailing_percent: "printf strs s [37, 0] ap = Inl OutOfBounds"
  by (simp add: printf_def printf_loop.simps convert_def)

end
