(* ===== verification/Command.thy ===== *)
theory Command
  imports Printf
begin

text \<open>
  The shell's side: \<open>strtok\<close> of programs/stdlib/src/string.c, the command line routines of marrowos.c and one round of the shell.
  \<open>strtok\<close> keeps a pointer into the array it was first given: \<open>tok_buf\<close> is that array, \<open>sp\<close> the position, None for NULL; a token is a
  position in \<open>tok_buf\<close>.
\<close>

record command_argument =
  ca_argument :: "u8 list" \<comment> \<open>512 bytes\<close>
  ca_next :: u32

record cmdstate = userstate +
  tok_buf :: "u8 list"
  sp :: "nat option"
  cmd_args :: "u32 \<Rightarrow> command_argument option"

subsection \<open>strtok (string.c)\<close>

text \<open>\<open>for (i = 0; i < len; i++) if (c == delimiters[i]) break;\<close>\<close>

fun delim_loop :: "u8 \<Rightarrow> u8 list \<Rightarrow> nat \<Rightarrow> nat \<Rightarrow> nat res" where
  "delim_loop c delimiters i 0 = Inr i"
| "delim_loop c delimiters i (Suc n) =
     bind_res (list_get delimiters (int i)) (\<lambda>d. if c = d then Inr i else delim_loop c delimiters (Suc i) n)"

function skip_delims :: "u8 list \<Rightarrow> u8 list \<Rightarrow> nat \<Rightarrow> nat \<Rightarrow> nat res" where
  "skip_delims buf delimiters len p_start =
     bind_res (list_get buf (int p_start)) (\<lambda>c.
     bind_res (delim_loop c delimiters 0 len) (\<lambda>i.
       if i = len then Inr p_start else skip_delims buf delimiters len (Suc p_start)))"
  by pat_completeness auto
termination
  by (relation "measure (\<lambda>(buf, d, n, p). length buf - p)") (auto simp: list_get_def split: if_splits)

declare skip_delims.simps [simp del]

function token_end :: "u8 list \<Rightarrow> u8 list \<Rightarrow> nat \<Rightarrow> nat \<Rightarrow> (u8 list \<times> nat) res" where
  "token_end buf delimiters len p =
     bind_res (list_get buf (int p)) (\<lambda>c.
       if c = 0 then Inr (buf, p)
       else bind_res (delim_loop c delimiters 0 len) (\<lambda>i.
         if i < len then bind_res (list_set buf (int p) 0) (\<lambda>buf. Inr (buf, Suc p))
         else token_end buf delimiters len (Suc p)))"
  by pat_completeness auto
termination
  by (relation "measure (\<lambda>(buf, d, n, p). length buf - p)") (auto simp: list_get_def split: if_splits)

declare token_end.simps [simp del]

definition strtok :: "'a cmdstate_scheme \<Rightarrow> u8 list option \<Rightarrow> u8 list \<Rightarrow> (nat option \<times> 'a cmdstate_scheme) res" where
  "strtok s str delimiters =
     bind_res (strlen delimiters) (\<lambda>len.
       let s = (case str of None \<Rightarrow> s | Some b \<Rightarrow> if sp s = None then s\<lparr>tok_buf := b, sp := Some 0\<rparr> else s)
       in case sp s of
         None \<Rightarrow> Inr (None, s)
       | Some p \<Rightarrow>
           bind_res (skip_delims (tok_buf s) delimiters (nat len) p) (\<lambda>p_start.
           bind_res (list_get (tok_buf s) (int p_start)) (\<lambda>c.
             if c = 0 then Inr (None, s\<lparr>sp := None\<rparr>)
             else bind_res (token_end (tok_buf s) delimiters (nat len) p_start) (\<lambda>(buf, q).
               Inr (Some p_start, s\<lparr>tok_buf := buf, sp := Some q\<rparr>)))))"

lemma strtok_mallocs: "strtok s str d = Inr (t, s') \<Longrightarrow> mallocs s' = mallocs s"
  by (auto simp: strtok_def Let_def res_simps split: option.splits if_splits)

subsection \<open>Command lines (marrowos.c)\<close>

text \<open>The contract of \<open>marrowos_malloc\<close> (command 4): the addresses the kernel will answer are given by the state.\<close>

definition marrowos_malloc :: "'a cmdstate_scheme \<Rightarrow> u32 \<times> 'a cmdstate_scheme" where
  "marrowos_malloc s = (case mallocs s of [] \<Rightarrow> (0, s) | a # r \<Rightarrow> (a, s\<lparr>mallocs := r\<rparr>))"

text \<open>\<open>strncpy(arg->argument, token, sizeof(arg->argument)); arg->next = 0;\<close> on fresh, zeroed memory\<close>

definition new_argument :: "'a cmdstate_scheme \<Rightarrow> u32 \<Rightarrow> nat \<Rightarrow> 'a cmdstate_scheme res" where
  "new_argument s a token =
     bind_res (strncpy (replicate 512 0) 0 (drop token (tok_buf s)) 512) (\<lambda>arg.
       Inr (s\<lparr>cmd_args := (cmd_args s)(a \<mapsto> \<lparr>ca_argument = arg, ca_next = 0\<rparr>)\<rparr>))"

function arguments_loop :: "'a cmdstate_scheme \<Rightarrow> u32 \<Rightarrow> 'a cmdstate_scheme res" where
  "arguments_loop s cur =
     bind_res (strtok s None (c_literal '' '')) (\<lambda>(token, s').
       case token of
         None \<Rightarrow> Inr s'
       | Some t \<Rightarrow>
           if fst (marrowos_malloc s') = 0 then Inr (snd (marrowos_malloc s'))
           else bind_res (new_argument (snd (marrowos_malloc s')) (fst (marrowos_malloc s')) t) (\<lambda>s2.
                case cmd_args s2 cur of
                  None \<Rightarrow> Inl NullDeref
                | Some c \<Rightarrow>
                    arguments_loop (s2\<lparr>cmd_args := (cmd_args s2)(cur \<mapsto> c\<lparr>ca_next := fst (marrowos_malloc s')\<rparr>)\<rparr>)
                      (fst (marrowos_malloc s'))))"
  by pat_completeness auto
termination
proof (relation "measure (\<lambda>(s, cur). length (mallocs s))", goal_cases)
  case (2 s cur x token s' t s2 c)
  then have "mallocs s2 = mallocs (snd (marrowos_malloc s'))" by (auto simp: new_argument_def res_simps)
  moreover have "mallocs s' = mallocs s" using 2 strtok_mallocs by metis
  ultimately show ?case using 2 by (auto simp: marrowos_malloc_def split: list.splits)
qed simp

declare arguments_loop.simps [simp del]

definition marrowos_parse_command :: "'a cmdstate_scheme \<Rightarrow> u8 list \<Rightarrow> int \<Rightarrow> (u32 \<times> 'a cmdstate_scheme) res" where
  "marrowos_parse_command s command mx =
     (if 1025 \<le> mx then Inr (0, s)
      else bind_res (strncpy (replicate 1025 0) 0 command 1025) (\<lambda>scommand.
        bind_res (strtok s (Some scommand) (c_literal '' '')) (\<lambda>(token, s).
          case token of
            None \<Rightarrow> Inr (0, s)
          | Some t \<Rightarrow>
              let (root_command, s) = marrowos_malloc s
              in if root_command = 0 then Inr (0, s)
                 else bind_res (new_argument s root_command t) (\<lambda>s.
                      bind_res (arguments_loop s root_command) (\<lambda>s. Inr (root_command, s))))))"

text \<open>\<open>do val = marrowos_getkey(); while (val == 0);\<close> waits for ever when no key comes.\<close>

fun getkey_loop :: "u8 list \<Rightarrow> (u8 \<times> u8 list) res" where
  "getkey_loop [] = Inl Hang"
| "getkey_loop (k # ks) = (if k = 0 then getkey_loop ks else Inr (k, ks))"

definition marrowos_getkey_block :: "'a userstate_scheme \<Rightarrow> (u8 \<times> 'a userstate_scheme) res" where
  "marrowos_getkey_block s = bind_res (getkey_loop (keys s)) (\<lambda>(k, ks). Inr (k, s\<lparr>keys := ks\<rparr>))"

lemma getkey_loop_shorter: "getkey_loop ks = Inr (k, ks') \<Longrightarrow> length ks' < length ks"
  by (induction ks rule: getkey_loop.induct) (auto split: if_splits)

text \<open>The array and the index after the loop.\<close>

function readline_loop :: "'a userstate_scheme \<Rightarrow> u8 list \<Rightarrow> int \<Rightarrow> int \<Rightarrow> bool \<Rightarrow> (u8 list \<times> int \<times> 'a userstate_scheme) res" where
  "readline_loop s out i mx output_while_typing =
     (if i < mx - 1
      then bind_res (marrowos_getkey_block s) (\<lambda>(key, s).
        if key = 13 then Inr (out, i, s)
        else if key = 0x08 \<and> 1 \<le> i
        then bind_res (list_set out (i - 1) 0) (\<lambda>out.
               readline_loop (if output_while_typing then marrowos_putchar s key else s) out (i - 2 + 1) mx output_while_typing)
        else bind_res (list_set out i key) (\<lambda>out.
               readline_loop (if output_while_typing then marrowos_putchar s key else s) out (i + 1) mx output_while_typing))
      else Inr (out, i, s))"
  by pat_completeness auto
termination
  by (relation "measure (\<lambda>(s, out, i, mx, w). length (keys s))")
    (auto simp: marrowos_getkey_block_def marrowos_putchar_def res_simps dest: getkey_loop_shorter)

declare readline_loop.simps [simp del]

definition marrowos_terminal_readline :: "'a userstate_scheme \<Rightarrow> u8 list \<Rightarrow> int \<Rightarrow> bool \<Rightarrow> (u8 list \<times> 'a userstate_scheme) res" where
  "marrowos_terminal_readline s out mx output_while_typing =
     bind_res (readline_loop s out 0 mx output_while_typing) (\<lambda>(out, i, s).
     bind_res (list_set out i 0) (\<lambda>out. Inr (out, s)))"

text \<open>The system command itself (\<open>marrowos_system\<close>, command 7) is an argument.\<close>

definition marrowos_system_run ::
  "('a cmdstate_scheme \<Rightarrow> u32 \<Rightarrow> (int \<times> 'a cmdstate_scheme) res) \<Rightarrow> 'a cmdstate_scheme \<Rightarrow> u8 list \<Rightarrow> (int \<times> 'a cmdstate_scheme) res" where
  "marrowos_system_run marrowos_system s command =
     bind_res (strncpy (replicate 1024 0) 0 command 1024) (\<lambda>buf.
     bind_res (marrowos_parse_command s buf 1024) (\<lambda>(root_command_argument, s).
       if root_command_argument = 0 then Inr (- 1, s) else marrowos_system s root_command_argument))"

text \<open>One round of the shell's \<open>while (1)\<close> (programs/shell/src/shell.c).\<close>

definition shell_round ::
  "('a cmdstate_scheme \<Rightarrow> u32 \<Rightarrow> (int \<times> 'a cmdstate_scheme) res) \<Rightarrow> 'a cmdstate_scheme \<Rightarrow> 'a cmdstate_scheme res" where
  "shell_round marrowos_system s =
     bind_res (user_print s (c_literal ''> '')) (\<lambda>s.
     bind_res (marrowos_terminal_readline s (replicate 1024 0) 1024 True) (\<lambda>(buf, s).
     bind_res (user_print s (c_literal [CHR 0x0A])) (\<lambda>s.
     bind_res (marrowos_system_run marrowos_system s buf) (\<lambda>(r, s). user_print s (c_literal [CHR 0x0A])))))"

subsection \<open>Words\<close>

function words :: "u8 list \<Rightarrow> u8 list list" where
  "words cs =
     (let cs = dropWhile (\<lambda>c. c = 32) cs
      in if cs = [] then [] else takeWhile (\<lambda>c. c \<noteq> 32) cs # words (dropWhile (\<lambda>c. c \<noteq> 32) cs))"
  by pat_completeness auto
termination
proof (relation "measure length", goal_cases)
  case (2 cs x)
  obtain c r where x: "x = c # r" using 2(2) by (cases x) simp_all
  then have "c \<noteq> 32" using 2(1) hd_dropWhile [of "\<lambda>c. c = 32" cs] by simp
  then have "length (dropWhile (\<lambda>c. c \<noteq> 32) x) < length x" using x length_dropWhile_le [of "\<lambda>c. c \<noteq> 32" r] by simp
  moreover have "length x \<le> length cs" unfolding 2(1) by (rule length_dropWhile_le)
  ultimately show ?case by simp
qed simp

declare words.simps [simp del]

lemma words_skip: "words (32 # cs) = words cs"
  by (subst (1 2) words.simps) simp

lemma words_tl: "r = [] \<or> hd r = 32 \<Longrightarrow> words r = words (tl r)"
  by (cases r) (auto simp: words_skip)

text \<open>A line is blank or spaces, a word and the rest after the space that ends it.\<close>

lemma words_cases:
  obtains n where "cs = replicate n 32" "words cs = []"
  | n w r where "cs = replicate n 32 @ w @ r" "w \<noteq> []" "32 \<notin> set w" "r = [] \<or> hd r = 32" "words cs = w # words (tl r)"
proof -
  let ?d = "dropWhile (\<lambda>c. c = 32) cs" and ?n = "length (takeWhile (\<lambda>c. c = 32) cs)"
  have t: "takeWhile (\<lambda>c. c = 32) cs = replicate ?n 32"
    by (metis (mono_tags, lifting) replicate_length_same set_takeWhileD)
  then have cs: "cs = replicate ?n 32 @ ?d" by (metis takeWhile_dropWhile_id)
  show ?thesis
  proof (cases "?d = []")
    case True
    then have "cs = replicate ?n 32" using cs by (metis append_Nil2)
    moreover have "words cs = []" using True by (simp add: words.simps [of cs])
    ultimately show ?thesis by (rule that(1))
  next
    case False
    let ?w = "takeWhile (\<lambda>c. c \<noteq> 32) ?d" and ?r = "dropWhile (\<lambda>c. c \<noteq> 32) ?d"
    have "hd ?d \<noteq> 32" using hd_dropWhile [OF False] by simp
    then have w1: "?w \<noteq> []" using False by (cases ?d) simp_all
    have w2: "32 \<notin> set ?w" by (auto dest: set_takeWhileD)
    have r: "?r = [] \<or> hd ?r = 32" using hd_dropWhile [of "\<lambda>c. c \<noteq> 32" ?d] by auto
    have t: "words ?r = words (tl ?r)" by (rule words_tl [OF r])
    have "words cs = ?w # words ?r" using False by (subst words.simps) (simp only: Let_def if_False)
    then have w3: "words cs = ?w # words (tl ?r)" by (simp only: t)
    have "?d = ?w @ ?r" by (rule takeWhile_dropWhile_id [symmetric])
    then have w4: "cs = replicate ?n 32 @ ?w @ ?r" using cs by (rule back_subst [of "\<lambda>x. cs = replicate ?n 32 @ x", rotated])
    show ?thesis by (rule that(2) [OF w4 w1 w2 r w3])
  qed
qed

subsection \<open>strtok takes the words\<close>

lemma delim_space: "delim_loop c (c_literal '' '') 0 (Suc 0) = Inr (if c = 32 then 0 else 1)"
  by (simp add: c_literal_def list_get_def)

declare delim_loop.simps [simp del]

lemma list_get_middle: "list_get (pre @ c # post) (int (length pre)) = Inr c"
  by (simp add: list_get_def)

lemma skip_spaces:
  "c \<noteq> 32 \<Longrightarrow> skip_delims (pre @ replicate n 32 @ c # post) (c_literal '' '') (Suc 0) (length pre) = Inr (length pre + n)"
proof (induction n arbitrary: pre)
  case 0
  then show ?case by (subst skip_delims.simps) (simp add: list_get_middle delim_space)
next
  case (Suc n)
  then show ?case using Suc.IH [of "pre @ [32]"]
    by (subst skip_delims.simps) (simp add: list_get_middle delim_space)
qed

lemma token_end_word:
  assumes "0 \<notin> set w" "32 \<notin> set w"
  shows "token_end (pre @ w @ 0 # post) (c_literal '' '') (Suc 0) (length pre) = Inr (pre @ w @ 0 # post, length pre + length w)"
    and "token_end (pre @ w @ 32 # post) (c_literal '' '') (Suc 0) (length pre) = Inr (pre @ w @ 0 # post, Suc (length pre + length w))"
proof -
  show "token_end (pre @ w @ 0 # post) (c_literal '' '') (Suc 0) (length pre) = Inr (pre @ w @ 0 # post, length pre + length w)"
    using assms
  proof (induction w arbitrary: pre)
    case Nil
    show ?case by (subst token_end.simps) (simp add: list_get_middle)
  next
    case (Cons c w)
    then show ?case using Cons.IH [of "pre @ [c]"] by (subst token_end.simps) (auto simp: list_get_middle delim_space)
  qed
  show "token_end (pre @ w @ 32 # post) (c_literal '' '') (Suc 0) (length pre) = Inr (pre @ w @ 0 # post, Suc (length pre + length w))"
    using assms
  proof (induction w arbitrary: pre)
    case Nil
    show ?case by (subst token_end.simps) (simp add: list_get_middle delim_space list_set_def)
  next
    case (Cons c w)
    then show ?case using Cons.IH [of "pre @ [c]"] by (subst token_end.simps) (auto simp: list_get_middle delim_space)
  qed
qed

text \<open>\<open>strtok\<close> is in the middle of the array, with \<open>cs\<close> before the terminator.\<close>

definition scanning :: "'a cmdstate_scheme \<Rightarrow> u8 list \<Rightarrow> bool" where
  "scanning s cs \<longleftrightarrow> 0 \<notin> set cs \<and> (\<exists>pre post. tok_buf s = pre @ cs @ 0 # post \<and> sp s = Some (length pre))"

lemma strtok_scan:
  assumes "scanning s cs"
  shows "words cs = [] \<Longrightarrow> strtok s None (c_literal '' '') = Inr (None, s\<lparr>sp := None\<rparr>)"
    and "words cs = w # ws \<Longrightarrow> \<exists>t s'. strtok s None (c_literal '' '') = Inr (Some t, s') \<and> (\<exists>b q. s' = s\<lparr>tok_buf := b, sp := Some q\<rparr>) \<and>
      0 \<in> set (drop t (tok_buf s')) \<and> cstring (drop t (tok_buf s')) = w \<and> (\<exists>r. scanning s' r \<and> words r = ws)"
proof -
  obtain pre post where b: "tok_buf s = pre @ cs @ 0 # post" "sp s = Some (length pre)" and n0: "0 \<notin> set cs"
    using assms by (auto simp: scanning_def)
  have len: "strlen (c_literal '' '') = Inr 1" by (simp add: c_literal_def strlen_eq)
  show "strtok s None (c_literal '' '') = Inr (None, s\<lparr>sp := None\<rparr>)" if nil: "words cs = []"
  proof -
    obtain n where "cs = replicate n 32" by (rule words_cases [of cs]) (use nil in auto)
    then show ?thesis using b skip_spaces [of 0 pre n post]
      by (simp add: strtok_def len list_get_middle [of "pre @ replicate n 32" 0 post, simplified])
  qed
  show "\<exists>t s'. strtok s None (c_literal '' '') = Inr (Some t, s') \<and> (\<exists>b q. s' = s\<lparr>tok_buf := b, sp := Some q\<rparr>) \<and>
      0 \<in> set (drop t (tok_buf s')) \<and> cstring (drop t (tok_buf s')) = w \<and> (\<exists>r. scanning s' r \<and> words r = ws)"
    if ws: "words cs = w # ws"
  proof -
    obtain n r where cs: "cs = replicate n 32 @ w @ r" "w \<noteq> []" "32 \<notin> set w" "r = [] \<or> hd r = 32" "words (tl r) = ws"
      by (rule words_cases [of cs]) (use ws in auto)
    let ?pre = "pre @ replicate n 32"
    obtain c v where w: "w = c # v" using cs(2) by (cases w) simp_all
    have c: "c \<noteq> 0" "c \<noteq> 32" "0 \<notin> set w" using n0 cs(1,3) w by auto
    have lp: "length ?pre = length pre + n" by simp
    have sk: "skip_delims (tok_buf s) (c_literal '' '') (Suc 0) (length pre) = Inr (length ?pre)"
      using skip_spaces [OF c(2), of pre n "v @ r @ 0 # post"] by (simp add: b(1) cs(1) w)
    have gt: "list_get (tok_buf s) (int (length ?pre)) = Inr c"
      using list_get_middle [of ?pre c "v @ r @ 0 # post"] by (simp add: b(1) cs(1) w)
    show ?thesis
    proof (cases "r = []")
      case True
      let ?s = "s\<lparr>tok_buf := ?pre @ w @ 0 # post, sp := Some (length ?pre + length w)\<rparr>"
      have "strtok s None (c_literal '' '') = Inr (Some (length ?pre), ?s)"
        using token_end_word(1) [OF c(3) cs(3), of ?pre post] c(1) sk gt b
        by (simp add: strtok_def len cs(1) True del: length_append)
      moreover have "scanning ?s []" by (simp add: scanning_def) (rule exI [of _ "?pre @ w"], simp)
      moreover have "words [] = ws" using cs(5) True by simp
      ultimately show ?thesis using c(3) by (intro exI [of _ "length ?pre"] exI [of _ ?s]) (auto simp: cstring_append_nul)
    next
      case False
      then obtain r' where r: "r = 32 # r'" using cs(4) by (cases r) simp_all
      let ?s = "s\<lparr>tok_buf := ?pre @ w @ 0 # r' @ 0 # post, sp := Some (Suc (length ?pre + length w))\<rparr>"
      have "strtok s None (c_literal '' '') = Inr (Some (length ?pre), ?s)"
        using token_end_word(2) [OF c(3) cs(3), of ?pre "r' @ 0 # post"] c(1) sk gt b
        by (simp add: strtok_def len cs(1) r del: length_append)
      moreover have "scanning ?s r'" using n0 cs(1) r
        by (simp add: scanning_def) (rule exI [of _ "?pre @ w @ [0]"], simp)
      moreover have "words r' = ws" using cs(5) r by simp
      ultimately show ?thesis using c(3) by (intro exI [of _ "length ?pre"] exI [of _ ?s]) (auto simp: cstring_append_nul)
    qed
  qed
qed


subsection \<open>The argument list\<close>

fun arg_chain :: "(u32 \<Rightarrow> command_argument option) \<Rightarrow> u32 \<Rightarrow> u8 list list \<Rightarrow> bool" where
  "arg_chain m a [] \<longleftrightarrow> a = 0"
| "arg_chain m a (w # ws) \<longleftrightarrow> a \<noteq> 0 \<and>
     (\<exists>c. m a = Some c \<and> cstring (ca_argument c) = take 511 w \<and> arg_chain m (ca_next c) ws)"

lemma new_argument_word:
  assumes "0 \<in> set (drop t (tok_buf s))" "cstring (drop t (tok_buf s)) = w"
  shows "\<exists>arg. new_argument s a t = Inr (s\<lparr>cmd_args := (cmd_args s)(a \<mapsto> \<lparr>ca_argument = arg, ca_next = 0\<rparr>)\<rparr>) \<and>
    cstring arg = take 511 w"
proof -
  have n: "0 \<notin> set (take 511 w)" using assms(2) cstring_no_nul in_set_takeD by metis
  have "strncpy (replicate 512 0) 0 (drop t (tok_buf s)) 512 = Inr (overwrite (replicate 512 0) 0 (take 511 w @ [0]))"
    using strncpy_fits [of 512 "drop t (tok_buf s)" 0 "replicate 512 0"] assms by simp
  moreover have "cstring (overwrite (replicate 512 0) 0 (take 511 w @ [0])) = take 511 w"
    using cstring_overwrite [OF n, of 0 "replicate 512 0"] by simp
  ultimately show ?thesis
    by (intro exI [of _ "overwrite (replicate 512 0) 0 (take 511 w @ [0])"]) (simp add: new_argument_def)
qed

lemma arguments_loop_chain:
  assumes "scanning s cs" "cmd_args s cur = Some c" "ca_next c = 0" "distinct (cur # mallocs s)" "0 \<notin> set (mallocs s)"
    and "length (words cs) \<le> length (mallocs s)"
  shows "\<exists>s' c'. arguments_loop s cur = Inr s' \<and> sp s' = None \<and> cmd_args s' cur = Some c' \<and>
    ca_argument c' = ca_argument c \<and> arg_chain (cmd_args s') (ca_next c') (words cs) \<and>
    (\<forall>a. a \<noteq> cur \<and> a \<notin> set (mallocs s) \<longrightarrow> cmd_args s' a = cmd_args s a)"
  using assms
proof (induction "words cs" arbitrary: s cs cur c)
  case Nil
  then have "arguments_loop s cur = Inr (s\<lparr>sp := None\<rparr>)"
    by (simp add: arguments_loop.simps [of s] strtok_scan(1))
  then show ?case using Nil by (metis (no_types, lifting) arg_chain.simps(1) cmdstate.select_convs(2,3) cmdstate.surjective cmdstate.update_convs(2))
next
  case (Cons w ws)
  obtain t s1 b q r where s1: "strtok s None (c_literal '' '') = Inr (Some t, s1)" "s1 = s\<lparr>tok_buf := b, sp := Some q\<rparr>"
      "0 \<in> set (drop t (tok_buf s1))" "cstring (drop t (tok_buf s1)) = w" "scanning s1 r" "words r = ws"
    using strtok_scan(2) [OF Cons.prems(1) Cons.hyps(2) [symmetric]] by blast
  obtain a ms where ms: "mallocs s = a # ms" using Cons.hyps(2) Cons.prems(6) by (cases "mallocs s") auto
  have a: "a \<noteq> 0" "a \<noteq> cur" "a \<notin> set ms" "cur \<notin> set ms" using ms Cons.prems(4,5) by auto
  have mal: "marrowos_malloc s1 = (a, s1\<lparr>mallocs := ms\<rparr>)" using ms s1(2) by (simp add: marrowos_malloc_def)
  obtain arg where arg: "new_argument (s1\<lparr>mallocs := ms\<rparr>) a t =
        Inr (s1\<lparr>mallocs := ms, cmd_args := (cmd_args s)(a \<mapsto> \<lparr>ca_argument = arg, ca_next = 0\<rparr>)\<rparr>)" "cstring arg = take 511 w"
    using new_argument_word [of t "s1\<lparr>mallocs := ms\<rparr>" w a] s1(2-4) by auto
  let ?c = "\<lparr>ca_argument = arg, ca_next = 0\<rparr>"
  define s2 where "s2 = s1\<lparr>mallocs := ms, cmd_args := (cmd_args s)(a \<mapsto> ?c, cur \<mapsto> c\<lparr>ca_next := a\<rparr>)\<rparr>"
  have "arguments_loop s cur = arguments_loop s2 a"
    using s1(1) mal a arg(1) Cons.prems(2) by (subst arguments_loop.simps) (simp add: s2_def)
  moreover have "\<exists>s' c'. arguments_loop s2 a = Inr s' \<and> sp s' = None \<and> cmd_args s' a = Some c' \<and>
      ca_argument c' = ca_argument ?c \<and> arg_chain (cmd_args s') (ca_next c') (words r) \<and>
      (\<forall>x. x \<noteq> a \<and> x \<notin> set (mallocs s2) \<longrightarrow> cmd_args s' x = cmd_args s2 x)"
  proof (rule Cons.hyps(1))
    show "ws = words r" by (simp add: s1(6))
    show "scanning s2 r" using s1(5) by (simp add: s2_def scanning_def)
    show "cmd_args s2 a = Some ?c" using a by (simp add: s2_def)
    show "length (words r) \<le> length (mallocs s2)" using Cons.hyps(2) [symmetric] Cons.prems(6) s1(6) ms by (simp add: s2_def)
  qed (use a ms Cons.prems(4,5) in \<open>auto simp: s2_def\<close>)
  ultimately obtain s' c' where s': "arguments_loop s cur = Inr s'" "sp s' = None" "cmd_args s' a = Some c'" "ca_argument c' = arg"
      "arg_chain (cmd_args s') (ca_next c') ws" "\<And>x. x \<noteq> a \<Longrightarrow> x \<notin> set ms \<Longrightarrow> cmd_args s' x = cmd_args s2 x"
    using s1(6) by (auto simp: s2_def)
  have "cmd_args s' cur = Some (c\<lparr>ca_next := a\<rparr>)" using s'(6) [of cur] a by (simp add: s2_def)
  moreover have "cmd_args s' x = cmd_args s x" if "x \<noteq> cur" "x \<notin> set (mallocs s)" for x
    using s'(6) [of x] that ms by (simp add: s2_def)
  ultimately show ?case using s' a(1) arg(2) Cons.hyps(2) [symmetric] by auto
qed

text \<open>C35: \<open>marrowos_parse_command\<close> turns a command line of at most 1024 characters into the linked list of its words, each cut to 511
  characters, and leaves \<open>strtok\<close> ready for the next line; a blank line gives NULL.\<close>

theorem parse_command_words:
  assumes "sp s = None" "0 \<in> set command" "length (cstring command) \<le> 1024" "mx < 1025"
    and "distinct (mallocs s)" "0 \<notin> set (mallocs s)" "length (words (cstring command)) \<le> length (mallocs s)"
  shows "\<exists>root s'. marrowos_parse_command s command mx = Inr (root, s') \<and> sp s' = None \<and>
    arg_chain (cmd_args s') root (words (cstring command))"
proof -
  let ?cs = "cstring command"
  let ?b = "overwrite (replicate 1025 0) 0 (?cs @ [0])"
  define s0 where "s0 = s\<lparr>tok_buf := ?b, sp := Some 0\<rparr>"
  have cp: "strncpy (replicate 1025 0) 0 command 1025 = Inr ?b"
    using strncpy_fits [of 1025 command 0 "replicate 1025 0"] assms(2,3) by simp
  have "?b = ?cs @ 0 # drop (Suc (length ?cs)) (replicate 1025 0)" by (simp add: overwrite_def)
  then have sc: "scanning s0 ?cs" by (simp add: scanning_def s0_def cstring_no_nul)
  have tok: "strtok s (Some ?b) d = strtok s0 None d" for d
    using assms(1) by (simp add: strtok_def s0_def)
  show ?thesis
  proof (cases "words ?cs")
    case Nil
    then have "marrowos_parse_command s command mx = Inr (0, s0\<lparr>sp := None\<rparr>)"
      using assms(4) strtok_scan(1) [OF sc] by (simp add: marrowos_parse_command_def cp tok)
    then show ?thesis using Nil by simp
  next
    case (Cons w ws)
    obtain t s1 b q r where s1: "strtok s0 None (c_literal '' '') = Inr (Some t, s1)" "s1 = s0\<lparr>tok_buf := b, sp := Some q\<rparr>"
        "0 \<in> set (drop t (tok_buf s1))" "cstring (drop t (tok_buf s1)) = w" "scanning s1 r" "words r = ws"
      using strtok_scan(2) [OF sc Cons] by blast
    obtain a ms where ms: "mallocs s = a # ms" using Cons assms(7) by (cases "mallocs s") auto
    have a: "a \<noteq> 0" using ms assms(6) by auto
    have mal: "marrowos_malloc s1 = (a, s1\<lparr>mallocs := ms\<rparr>)" using ms s1(2) by (simp add: marrowos_malloc_def s0_def)
    obtain arg where arg: "new_argument (s1\<lparr>mallocs := ms\<rparr>) a t =
          Inr (s1\<lparr>mallocs := ms, cmd_args := (cmd_args s)(a \<mapsto> \<lparr>ca_argument = arg, ca_next = 0\<rparr>)\<rparr>)" "cstring arg = take 511 w"
      using new_argument_word [of t "s1\<lparr>mallocs := ms\<rparr>" w a] s1(2-4) by (auto simp: s0_def)
    define s2 where "s2 = s1\<lparr>mallocs := ms, cmd_args := (cmd_args s)(a \<mapsto> \<lparr>ca_argument = arg, ca_next = 0\<rparr>)\<rparr>"
    have "scanning s2 r" using s1(5) by (simp add: s2_def scanning_def)
    then obtain s' c' where s': "arguments_loop s2 a = Inr s'" "sp s' = None" "cmd_args s' a = Some c'" "ca_argument c' = arg"
        "arg_chain (cmd_args s') (ca_next c') (words r)"
      using arguments_loop_chain [of s2 r a "\<lparr>ca_argument = arg, ca_next = 0\<rparr>"] ms assms(5-7) Cons s1(6) by (auto simp: s2_def)
    have "marrowos_parse_command s command mx = Inr (a, s')"
      using assms(4) s1(1) mal a arg(1) s'(1) by (simp add: marrowos_parse_command_def cp tok s2_def)
    then show ?thesis using s' a arg(2) Cons s1(6) by auto
  qed
qed

definition example_cmd_state :: cmdstate where
  "example_cmd_state = userstate.extend (example_user_state\<lparr>mallocs := [0x8000, 0x9000, 0xA000]\<rparr>) (cmdstate.fields [] None Map.empty)"

text \<open>\<open>marrowos_parse_command(" ls  -a", 1024)\<close>\<close>

lemma parse_command_words_witness:
  "\<exists>root s'. marrowos_parse_command example_cmd_state [32, 108, 115, 32, 32, 45, 97, 0] 1024 = Inr (root, s') \<and>
     arg_chain (cmd_args s') root [[108, 115], [45, 97]]"
proof -
  have "words [32, 108, 115, 32, 32, 45, 97] = [[108, 115], [45, 97]]"
    by (simp add: words.simps)
  then show ?thesis
    using parse_command_words [of example_cmd_state "[32, 108, 115, 32, 32, 45, 97, 0]" 1024]
    by (auto simp: example_cmd_state_def example_user_state_def userstate.extend_def cmdstate.fields_def)
qed

text \<open>An interrupted parse leaves \<open>sp\<close> in the old line: the next \<open>strtok\<close> with a new string goes on in the old one.\<close>

lemma strtok_ignores_string: "sp s \<noteq> None \<Longrightarrow> strtok s (Some str) d = strtok s None d"
  by (auto simp: strtok_def)

subsection \<open>Reading a line\<close>

text \<open>What the keys typed so far have made of the line: a backspace takes the last character, if there is one.\<close>

fun edit :: "u8 list \<Rightarrow> u8 list \<Rightarrow> u8 list" where
  "edit line [] = line"
| "edit line (k # ks) = edit (if k = 8 \<and> line \<noteq> [] then butlast line else line @ [k]) ks"

text \<open>The line is never longer than \<open>n\<close>.\<close>

fun fits :: "nat \<Rightarrow> u8 list \<Rightarrow> u8 list \<Rightarrow> bool" where
  "fits n line [] \<longleftrightarrow> length line < n"
| "fits n line (k # ks) \<longleftrightarrow> length line < n \<and> fits n (if k = 8 \<and> line \<noteq> [] then butlast line else line @ [k]) ks"

lemma readline_loop_edit:
  assumes "0 \<notin> set ks" "13 \<notin> set ks" "fits n line ks" "length out = Suc n" "take (length line) out = line" "keys s = ks @ 13 # r"
  shows "\<exists>out'. readline_loop s out (int (length line)) (int (Suc n)) w =
      Inr (out', int (length (edit line ks)), s\<lparr>keys := r, out_text := out_text s @ (if w then ks else [])\<rparr>) \<and>
    take (length (edit line ks)) out' = edit line ks \<and> length (edit line ks) < n \<and> length out' = Suc n"
  using assms
proof (induction ks arbitrary: s out line)
  case Nil
  then show ?case by (simp add: readline_loop.simps [of s] marrowos_getkey_block_def)
next
  case (Cons k ks)
  let ?s = "(if w then marrowos_putchar (s\<lparr>keys := ks @ 13 # r\<rparr>) k else s\<lparr>keys := ks @ 13 # r\<rparr>)"
  have key: "marrowos_getkey_block s = Inr (k, s\<lparr>keys := ks @ 13 # r\<rparr>)" and l: "length line < n" and k: "k \<noteq> 13"
    using Cons.prems by (auto simp: marrowos_getkey_block_def)
  have st: "?s\<lparr>keys := r, out_text := out_text ?s @ (if w then ks else [])\<rparr> =
      s\<lparr>keys := r, out_text := out_text s @ (if w then k # ks else [])\<rparr>" by (simp add: marrowos_putchar_def)
  have ks: "keys ?s = ks @ 13 # r" by (simp add: marrowos_putchar_def)
  define line' where "line' = (if k = 8 \<and> line \<noteq> [] then butlast line else line @ [k])"
  have "\<exists>out2. readline_loop s out (int (length line)) (int (Suc n)) w = readline_loop ?s out2 (int (length line')) (int (Suc n)) w \<and>
      length out2 = Suc n \<and> take (length line') out2 = line'"
  proof (cases "k = 8 \<and> line \<noteq> []")
    case True
    let ?out = "out[length line - 1 := 0]"
    have l1: "Suc 0 \<le> length line" using True by (cases line) simp_all
    then have "list_set out (int (length line) - 1) 0 = Inr ?out"
      using l Cons.prems(4) True by (simp add: list_set_def nat_diff_distrib)
    then have "readline_loop s out (int (length line)) (int (Suc n)) w =
        readline_loop ?s ?out (int (length (butlast line))) (int (Suc n)) w"
      using True l key l1 by (simp add: readline_loop.simps [of s] of_nat_diff)
    moreover have "take (length (butlast line)) ?out = butlast line"
      using Cons.prems(5) by (metis length_butlast take_update_cancel order_refl butlast_conv_take take_take min.absorb1 diff_le_self)
    ultimately show ?thesis using True Cons.prems(4) by (auto simp: line'_def)
  next
    case False
    let ?out = "out[length line := k]"
    have "list_set out (int (length line)) k = Inr ?out" using l Cons.prems(4) by (simp add: list_set_def)
    then have "readline_loop s out (int (length line)) (int (Suc n)) w =
        readline_loop ?s ?out (int (length (line @ [k]))) (int (Suc n)) w"
      using False l key k by (auto simp: readline_loop.simps [of s] add.commute)
    moreover have "take (length (line @ [k])) ?out = line @ [k]"
      using Cons.prems(4,5) l by (simp add: take_Suc_conv_app_nth)
    moreover have "line' = line @ [k]" using False by (auto simp: line'_def)
    ultimately show ?thesis using Cons.prems(4) by auto
  qed
  then obtain out2 where o: "readline_loop s out (int (length line)) (int (Suc n)) w = readline_loop ?s out2 (int (length line')) (int (Suc n)) w"
      "length out2 = Suc n" "take (length line') out2 = line'" by blast
  have e: "edit line (k # ks) = edit line' ks" by (simp add: line'_def)
  have f: "0 \<notin> set ks" "13 \<notin> set ks" "fits n line' ks" using Cons.prems(1-3) by (simp_all add: line'_def)
  show ?case unfolding e o(1) st [symmetric] by (rule Cons.IH [OF f o(2,3) ks])
qed

text \<open>C38: reading a line ends at the carriage return with the edited line and its terminator in the buffer, every backspace having taken
  back the character before it, and every key but the last echoed.\<close>

theorem readline_edits:
  assumes "0 \<notin> set ks" "13 \<notin> set ks" "fits n [] ks" "length out = Suc n" "keys s = ks @ 13 # r"
  shows "\<exists>out'. marrowos_terminal_readline s out (int (Suc n)) w =
      Inr (out', s\<lparr>keys := r, out_text := out_text s @ (if w then ks else [])\<rparr>) \<and>
    take (length (edit [] ks)) out' = edit [] ks \<and> out' ! length (edit [] ks) = 0"
proof -
  let ?l = "length (edit [] ks)"
  obtain out' where o: "readline_loop s out 0 (int (Suc n)) w =
        Inr (out', int ?l, s\<lparr>keys := r, out_text := out_text s @ (if w then ks else [])\<rparr>)"
      "take ?l out' = edit [] ks" "?l < n" "length out' = Suc n"
    using readline_loop_edit [OF assms(1-4) _ assms(5), of w] by auto
  then have "marrowos_terminal_readline s out (int (Suc n)) w =
      Inr (out'[?l := 0], s\<lparr>keys := r, out_text := out_text s @ (if w then ks else [])\<rparr>)"
    unfolding marrowos_terminal_readline_def o(1) by (simp add: list_set_def)
  then show ?thesis using o by simp
qed

text \<open>The keys \<open>l a <backspace> s <return>\<close> give the line \<open>ls\<close>.\<close>

lemma readline_edits_witness:
  "\<exists>out'. marrowos_terminal_readline (example_user_state\<lparr>keys := [108, 97, 8, 115, 13]\<rparr>) (replicate 1024 0) (int (Suc 1023)) True =
      Inr (out', example_user_state\<lparr>out_text := [108, 97, 8, 115]\<rparr>) \<and> take 2 out' = [108, 115] \<and> out' ! 2 = 0"
proof -
  let ?s = "example_user_state\<lparr>keys := [108, 97, 8, 115, 13]\<rparr>" and ?l = "edit [] [108, 97, 8, 115]"
  have e: "?l = [108, 115]" "length [108, 115 :: u8] = 2" by simp_all
  have "\<exists>out'. marrowos_terminal_readline ?s (replicate 1024 0) (int (Suc 1023)) True =
      Inr (out', ?s\<lparr>keys := [], out_text := out_text ?s @ (if True then [108, 97, 8, 115] else [])\<rparr>) \<and>
    take (length ?l) out' = ?l \<and> out' ! length ?l = 0"
    by (rule readline_edits) (simp_all add: example_user_state_def)
  moreover have "?s\<lparr>keys := [], out_text := out_text ?s @ (if True then [108, 97, 8, 115] else [])\<rparr> =
      example_user_state\<lparr>out_text := [108, 97, 8, 115]\<rparr>" by (simp add: example_user_state_def)
  ultimately show ?thesis by (simp only: e)
qed

text \<open>A backspace on an empty line is stored as a character.\<close>

lemma backspace_on_empty_line: "edit [] [8] = [8]"
  by simp

end
