(* ===== verification/Spec2Isabelle.thy ===== *)
theory Spec2Isabelle
  imports ProgramStart Command
begin

section \<open>MarrowOS: a model of the kernel and of its programs' C library\<close>

text \<open>
  MarrowOS is a small 32-bit x86 kernel. Its C code under src/src boots, mounts a FAT16 volume from an ATA drive, loads ELF programs into
  processes with an address space of their own, switches between them on the clock interrupt and serves ten system commands through
  \<open>int 0x80\<close>. The programs under src/programs link against a C library of their own. This development models both.

  \<^bold>\<open>Parts and how they interact.\<close>
  The kernel heap (block allocator) is below everything: streams, path nodes, file descriptors, page tables, tasks, processes, program images
  and stacks are its blocks. The drive is read through port instructions by the disk driver, as bytes by the disk streamer, as
  directories and cluster chains by the FAT16 driver, and as files by \<open>fopen\<close>, \<open>fread\<close>, \<open>fseek\<close>, \<open>fstat\<close>, \<open>fclose\<close>. \<open>process_load\<close> opens a
  file, lets the ELF loader check it, makes a task with a page directory and maps the image and a stack into it. The interrupt routines save
  the registers of the current task, run a callback or a system command, and leave the kernel by \<open>task_return\<close> or back through \<open>iret\<close>.

  \<^bold>\<open>State.\<close>
  The kernel's globals and the machine it drives are one record, built up by extension in the order of the layers, so that an operation of
  a layer is stated for every extension of its own record:
  \<^item> Terminal: \<open>tstate\<close>, the 16384 cells of the text adapter behind \<open>video_mem\<close>, the row and the column of kernel.c;
  \<^item> KHeap: \<open>mstate\<close>, the heap and the byte memory;
  \<^item> Paging: \<open>pgstate\<close>, CR0, CR3 and \<open>current_directory\<close>;
  \<^item> Ports: \<open>iostate\<close>, the trace of port accesses and the machine's answers \<open>hw\<close>;
  \<^item> Disk, Streamer, PathParser, Fat16, File, Elf: \<open>diskstate\<close>, \<open>pathstate\<close>, \<open>fatstate\<close>, \<open>filestate\<close>, \<open>elfstate\<close>, the driver's globals and the typed
    stores of its heap objects;
  \<^item> Task, Process: \<open>taskstate\<close>, \<open>procstate\<close>, the task list, the process table and their objects;
  \<^item> Idt, Keyboard, Kernel: \<open>idtstate\<close>, \<open>kbstate\<close>, \<open>kernelstate\<close>, the interrupt, command, keyboard and descriptor tables.

  A heap object that the code accesses only by its type is an entry of a typed store under the address the heap gave it; what the code accesses as
  bytes (page tables, file contents, program images, argument lists) is in the byte memory. \<open>userstate\<close> and \<open>cmdstate\<close> are the program library's side.

  \<^bold>\<open>What this separation leaves out.\<close>
  The kernel's static objects (the descriptor, interrupt and command tables, the TSS, the arrays of processes and files) and the typed objects are fields and stores of the record, not
  bytes of the memory. A write to bytes never changes them. So the model does not show what happens when the program makes the kernel write over them, which it can: command 8 writes
  two words wherever the caller's pointer leads (a finding), and \<open>fread\<close> writes wherever its destination is. The bytes \<open>fread\<close> delivers are written when the driver is done, and
  can hit none of the driver's objects. What is shown of a state after such a write holds of the program as long as the write did not hit an object of the kernel. The cells
  of the text adapter are none of the machine's RAM; a write behind them is the fault \<open>OutOfBounds\<close>.

  \<^bold>\<open>Results.\<close>
  A function of the source that can leave the defined behaviour of C is a function into \<open>fault + 'a\<close>: NULL dereference, an access outside an array, a panic, or an endless
  loop (\<open>Hang\<close>). Error codes the code returns are ordinary results. Out parameters are returned; where the code does not write one it is 0.

  \<^bold>\<open>Theories and source files.\<close>
  \<^item> Prelude: types, status codes (status.h, config.h), faults, array access. CMem: memory.c, byte loads and stores. CString: string.c.
  \<^item> Terminal: the terminal of kernel.c. Allocator: the contract of a block allocator. Heap: memory/heap/heap.c. KHeap, Room: memory/heap/kheap.c.
  \<^item> Paging, PagingTables: memory/paging. Ports: io/io.asm. Disk: disk/disk.c. Streamer: disk/streamer.c. PathParser: fs/pparser.c.
  \<^item> Fat16, Fat16Read, Fat16Dir: fs/fat/fat16.c, its reads and its directory search. File, FileOpen: fs/file.c. Mount: what mounting does.
  \<^item> Elf, ElfLoad: loader/formats. Task, TaskList: task/task.c, task.asm. Process, ProcessAlloc, ProcessLoad, ProcessRun, Arguments: task/process.c.
  \<^item> Gdt: gdt/gdt.c. Idt, Interrupts: idt/idt.c, idt.asm. Syscalls: isr80h/heap.c, io.c, misc.c, process.c. Keyboard: keyboard/keyboard.c, classic.c.
  \<^item> Kernel, Boot, FirstProcess, KernelRun: \<open>kernel_main\<close> of kernel.c, gdt.asm, tss.asm.
  \<^item> Frames, Invariant, Typed, System: invariants of the whole kernel under any interleaving of user code, interrupts and system calls.
  \<^item> UserNum, Printf, Command: programs/stdlib (stdlib.c, stdio.c, string.c, marrowos.c) and a round of the shell.
  \<^item> UserStart, UserPrint, ProgramStart: start.c, the system call routines of marrowos.asm and blank.c, run on the memory a program sees.
  \<^item> CopyString: \<open>copy_string_from_task\<close> of task/task.c.

  \<^bold>\<open>What the lemmas show.\<close>
  \<^item> Heap refines an abstract allocator whose state is the set of live allocations; \<open>heap_malloc\<close> is first fit, \<open>heap_free\<close> its inverse. KHeap
    and every client above count free blocks with \<open>hgrown\<close>: which blocks an operation took, and that live bytes stayed. \<open>hadds\<close> (Room) is the same
    for allocations of any length. A first fit heap with \<open>a\<close> live allocations has a run of \<open>n\<close> free blocks as soon as more than \<open>(n - 1) * (a + 1)\<close> blocks are free.
  \<^item> PagingTables: a new directory is the identity, \<open>paging_map_to\<close> maps exactly its range and never changes a directory that shares no page.
  \<^item> Streamer, Fat16Read, Fat16Dir, FileOpen, Mount: on a drive that serves an image, a mounted volume is read byte for byte along its cluster chains, found
    by name and opened through the lowest free descriptor.
  \<^item> TaskList, Interrupts: round robin over a well-formed list, and a preempted task goes on with its own registers.
  \<^item> ElfLoad, ProcessRun, FirstProcess: with enough free blocks \<open>process_load\<close> of a valid program of the root directory makes a process that starts at the
    entry point and sees its segments and its stack. The bound on the blocks is the one of Room: a program of at most 18 pages fits a fresh kernel.
  \<^item> Arguments: the memory of a process grows by pages of its own (\<open>pgrown\<close>), and \<open>process_inject_arguments\<close> copies an argument list into such pages. KernelRun:
    \<open>kernel_main\<close> loads two programs with their arguments, which keep out of each other's memory, and enters the first. Two programs of at most 6 pages fit.
  \<^item> UserStart, CopyString, UserPrint: a program calls the kernel from a page of its stack (\<open>program_runs\<close>) and comes back with nothing but its own stack frame, what the command
    writes for it and its saved registers changed (\<open>served\<close>); command 8 gives it its arguments, command 1 copies its string through a page the kernel maps for that
    moment and prints it. ProgramStart puts this behind \<open>kernel_main\<close>: blank.c runs and prints its argument until the memory of the text adapter ends, since the terminal never scrolls.
  \<^item> Boot: \<open>kernel_init\<close> ends in a machine with all of this in place. Typed, System: the sizes of all objects are kept by every step of the running
    kernel, so no lookup by a number of a program leaves its table; and what the registers and the address space are when the kernel is left.
  \<^item> Keyboard, Command, Printf, UserNum: the key ring is a queue, a command line is split into its words, numbers are printed as numerals.

  \<^bold>\<open>Interfaces.\<close>
  \<open>block_allocator\<close>, \<open>page_allocator\<close> and \<open>zeroing_allocator\<close> (Allocator, KHeap) are the contracts of the two heaps, \<open>byte_stream\<close> (Streamer) that of a disk
  stream, \<open>char_queue\<close> (Keyboard) that of the key ring; \<open>upper_invariant\<close> and \<open>terminal_invariant\<close> (Frames), \<open>loader_invariant\<close> and \<open>kernel_invariant\<close> (Invariant) are the conditions under which a predicate is kept
  by the layers up to the ELF loader, by output, by everything that makes and ends processes and by the whole kernel. Each is interpreted on the model's own functions in the theory of its provider.

  \<^bold>\<open>Assumptions on what is not in the repository.\<close>
  \<open>ata_disk\<close> (Disk): the drive becomes ready after finitely many polls and then delivers the words of the addressed sector; \<open>example_device\<close> is a drive that does.
  Addresses the linker chooses are the record \<open>layout\<close>; \<open>static_objects\<close> (Typed) says that C starts static objects at their declared size and zero. The memory a \<open>char *\<close> argument of
  \<open>printf\<close> points to, and the answer of the system command in \<open>marrowos_system_run\<close>, are arguments. System's user code writes only to pages mapped writable for the user. In UserNum, Printf and Command
  the routines of marrowos.asm (\<open>print\<close>, \<open>marrowos_putchar\<close>, \<open>marrowos_malloc\<close>, the key and system commands) are contracts: what they mean to the program is a field of \<open>userstate\<close> or an argument.

  \<^bold>\<open>Termination.\<close>
  Loops over a table or a counter are recursive on the number of entries left, and those that move an index towards a bound use a measure. The loops that
  may not end (polling the drive, the entries of a directory, argument lists, \<open>strtok\<close>, blank.c) are \<open>partial_function (option)\<close>: None is the endless loop and becomes \<open>Hang\<close>. Theorems
  that give a result therefore also show that the loop ends. No fuel is used.

  \<^bold>\<open>Not modelled.\<close>
  The boot sector (boot.asm) and the entry of kernel.asm, which run before any C code and partly in real mode; the linker scripts and Makefiles; start.asm, which only calls
  \<open>c_start\<close> and \<open>marrowos_exit\<close>; the counting loop of blank.c, which changes nothing; the copies of memory.c and string.c under programs/stdlib, which repeat the kernel's code line by line (all but \<open>strtok\<close>); the ELF structures that no
  code reads (\<open>elf32_dyn\<close>, \<open>elf32_sym\<close>). What a panic prints is lost. Stream positions and counters kept in an \<open>int\<close> are integers that do not wrap, and the properties bound them where it matters; the key ring's indices
  are words. The depth of the kernel stack is not bounded. \<open>kfree\<close> does not clear what it frees: an ELF object stays in its store after it is freed, because the code goes on reading it. In System, the instructions of user
  programs are not modelled: a step of user code is any change it is permitted to make; a step into the kernel whose code faults ends there. Exceptions with an error code enter with the
  shifted frame their stub sees (\<open>error_frame\<close>), a division by zero through \<open>idt_zero\<close>, after which EAX, ECX and EDX are arbitrary. In UserStart to ProgramStart the C code and the routines of the program library
  are run without interrupts in between, on a stack frame whose place is an argument.
\<close>

end
